(* ===== verification/Prelude.thy ===== *)
theory Prelude
  imports Complex_Main "HOL-Library.Word" "HOL-Library.AList" "HOL-Library.Multiset"
begin

text \<open>
  Prelude of the development: what every component shares.

  \<^item> \<open>int64\<close> is Go's 64-bit integer: a 64-bit word, whose addition and multiplication
    wrap as Go's do, read as a signed number by \<open>sint\<close>.
  \<^item> A Go map is an association list with distinct keys (\<open>map_of\<close> reads it, \<open>map_put\<close>
    writes it, \<open>map_del\<close> deletes). The order of the list is the order in which a
    \<open>range\<close> loop happens to visit the map. Go leaves that order open.
  \<^item> A nil map, a nil pointer and an absent optional field are \<open>None\<close>.
  \<^item> A panic is a value: an operation that can panic returns \<open>panic + 'a\<close>, with the panic
    on the left. The RPC server does not recover from panics, so a panic ends the process and
    no state is returned with it.
\<close>

section \<open>Collections of facts\<close>

named_theorems go_map "lookup and update laws of Go maps"
named_theorems store_simps "characteristic equations of the lease store"
named_theorems f64_simps "arithmetic and comparison of finite floats"

section \<open>Machine integers\<close>

type_synonym int64 = "64 word"

text \<open>Keep the signed reading in the form \<open>of_int (sint w)\<close> in the other number types.\<close>

declare of_int_sint [simp del]

lemma word_of_int_sint64 [simp]: "word_of_int (sint w) = (w :: int64)"
  by (simp add: of_int_sint)

lemma sint64_lower: "- (2 ^ 63) \<le> sint (w :: int64)"
  using sint_greater_eq [of w] by simp

lemma sint64_upper: "sint (w :: int64) < 2 ^ 63"
  using sint_less [of w] by simp

lemma sint64_of_int: "- (2 ^ 63) \<le> n \<Longrightarrow> n < 2 ^ 63 \<Longrightarrow> sint (word_of_int n :: int64) = n"
  by (simp add: sint_sbintrunc' signed_take_bit_int_eq_self_iff)

lemma sint64_of_nonneg: "0 \<le> n \<Longrightarrow> n < 2 ^ 63 \<Longrightarrow> sint (word_of_int n :: int64) = n"
  by (rule sint64_of_int) simp_all

lemma word_of_nonneg_inj:
  "0 \<le> m \<Longrightarrow> m < 2 ^ 63 \<Longrightarrow> 0 \<le> n \<Longrightarrow> n < 2 ^ 63 \<Longrightarrow> word_of_int m = (word_of_int n :: int64) \<longleftrightarrow> m = n"
  by (metis sint64_of_nonneg)

lemma sint64_eqI: "- (2 ^ 63) \<le> n \<Longrightarrow> n < 2 ^ 63 \<Longrightarrow> w = word_of_int n \<Longrightarrow> sint (w :: int64) = n"
  by (simp add: sint64_of_int)

lemma sint64_add:
  fixes a b :: int64
  assumes "- (2 ^ 63) \<le> sint a + sint b" and "sint a + sint b < 2 ^ 63"
  shows "sint (a + b) = sint a + sint b"
  by (rule sint64_eqI [OF assms]) simp

lemma sint64_diff:
  fixes a b :: int64
  assumes "- (2 ^ 63) \<le> sint a - sint b" and "sint a - sint b < 2 ^ 63"
  shows "sint (a - b) = sint a - sint b"
  by (rule sint64_eqI [OF assms]) simp

lemma sint64_mult:
  fixes a b :: int64
  assumes "- (2 ^ 63) \<le> sint a * sint b" and "sint a * sint b < 2 ^ 63"
  shows "sint (a * b) = sint a * sint b"
  by (rule sint64_eqI [OF assms]) simp

lemma sint64_mult_nonneg:
  fixes a b :: int64
  assumes "sint a = x" and "sint b = y" and "0 \<le> x * y" and "x * y < 2 ^ 63"
  shows "sint (a * b) = x * y"
  using sint64_mult [of a b] assms order_trans [of "- (2 ^ 63)" 0 "x * y"] by simp

lemma sint64_pos: "w \<noteq> 0 \<Longrightarrow> 0 \<le> sint (w :: int64) \<Longrightarrow> 0 < sint w"
  by (metis order_le_less signed_0 signed_word_eqI)

text \<open>A sum of machine integers is the exact sum, as long as no partial sum can overflow.\<close>

lemma sint64_sum_list:
  fixes ws :: "int64 list"
  assumes "\<forall>w \<in> set ws. 0 \<le> sint w" and "sum_list (map sint ws) < 2 ^ 63"
  shows "sint (sum_list ws) = sum_list (map sint ws)"
  using assms
proof (induction ws)
  case Nil
  then show ?case by simp
next
  case (Cons w ws)
  have nonneg: "0 \<le> sum_list (map sint ws)"
    using Cons.prems(1) by (intro sum_list_nonneg) auto
  have IH: "sint (sum_list ws) = sum_list (map sint ws)"
    using Cons by auto
  have "sint (w + sum_list ws) = sint w + sint (sum_list ws)"
    using Cons.prems nonneg IH by (intro sint64_add) auto
  then show ?case using IH by simp
qed

text \<open>The next multiple of a divisor.\<close>

lemma next_multiple:
  fixes x f :: int
  assumes "0 < f"
  shows "x < (x div f + 1) * f" and "(x div f + 1) * f \<le> x + f"
  using div_mult_mod_eq [of x f] pos_mod_bound [OF assms, of x] pos_mod_sign [OF assms, of x]
  unfolding distrib_right mult_1 by linarith+

section \<open>Go maps\<close>

abbreviation map_put :: "('k \<times> 'v) list \<Rightarrow> 'k \<Rightarrow> 'v \<Rightarrow> ('k \<times> 'v) list" where
  "map_put m k v \<equiv> AList.update k v m"

abbreviation map_del :: "('k \<times> 'v) list \<Rightarrow> 'k \<Rightarrow> ('k \<times> 'v) list" where
  "map_del m k \<equiv> AList.delete k m"

abbreviation distinct_keys :: "('k \<times> 'v) list \<Rightarrow> bool" where
  "distinct_keys m \<equiv> distinct (map fst m)"

lemma map_of_put [go_map]: "map_of (map_put m k v) k' = (if k' = k then Some v else map_of m k')"
  by (simp add: AList.update_conv')

lemma map_of_del [go_map]: "map_of (map_del m k) k' = (if k' = k then None else map_of m k')"
  by (simp add: AList.delete_conv')

lemma distinct_keys_put [go_map, intro]: "distinct_keys m \<Longrightarrow> distinct_keys (map_put m k v)"
  by (rule AList.distinct_update)

lemma distinct_keys_del [go_map, intro]: "distinct_keys m \<Longrightarrow> distinct_keys (map_del m k)"
  by (rule AList.distinct_delete)

lemma set_map_put: "set (map_put m k v) \<subseteq> insert (k, v) (set m)"
  by (induction m) auto

lemma set_map_del: "set (map_del m k) \<subseteq> set m"
  by (induction m) auto

lemma in_map_put_iff:
  assumes "distinct_keys m"
  shows "(k', v') \<in> set (map_put m k v) \<longleftrightarrow> (if k' = k then v' = v else (k', v') \<in> set m)"
proof -
  have "(k', v') \<in> set (map_put m k v) \<longleftrightarrow> map_of (map_put m k v) k' = Some v'"
    by (simp only: map_of_eq_Some_iff [OF AList.distinct_update [OF assms]])
  also have "\<dots> \<longleftrightarrow> (if k' = k then v' = v else map_of m k' = Some v')"
    by (auto simp: map_of_put)
  finally show ?thesis by (simp only: map_of_eq_Some_iff [OF assms])
qed

lemma in_map_del_iff:
  assumes "distinct_keys m"
  shows "(k', v') \<in> set (map_del m k) \<longleftrightarrow> k' \<noteq> k \<and> (k', v') \<in> set m"
proof -
  have "(k', v') \<in> set (map_del m k) \<longleftrightarrow> map_of (map_del m k) k' = Some v'"
    by (simp only: map_of_eq_Some_iff [OF AList.distinct_delete [OF assms]])
  also have "\<dots> \<longleftrightarrow> k' \<noteq> k \<and> map_of m k' = Some v'"
    by (auto simp: map_of_del)
  finally show ?thesis by (simp only: map_of_eq_Some_iff [OF assms])
qed

lemma distinct_keys_unique:
  "distinct_keys m \<Longrightarrow> (k, v) \<in> set m \<Longrightarrow> (k, v') \<in> set m \<Longrightarrow> v' = v"
  by (metis map_of_is_SomeI option.inject)

lemma map_put_fresh: "map_of m k = None \<Longrightarrow> map_put m k v = m @ [(k, v)]"
  by (induction m) (auto split: if_splits)

text \<open>Sums over the entries of a map, after a write and after a deletion.\<close>

lemma sum_map_del:
  fixes f :: "'k \<times> 'v \<Rightarrow> 'a :: comm_monoid_add"
  assumes "distinct_keys m" and "map_of m k = Some v"
  shows "f (k, v) + sum_list (map f (map_del m k)) = sum_list (map f m)"
  using assms
proof (induction m)
  case Nil
  then show ?case by simp
next
  case (Cons e m)
  obtain k' v' where e: "e = (k', v')" by force
  show ?case
  proof (cases "k' = k")
    case True
    with Cons.prems e have "k \<notin> fst ` set m" and "v' = v" by auto
    with True e show ?thesis by (simp add: AList.delete_id)
  next
    case False
    with Cons e have "f (k, v) + sum_list (map f (map_del m k)) = sum_list (map f m)"
      by auto
    with False e show ?thesis
      by (simp add: add.left_commute [of "f (k, v)" "f (k', v')"])
  qed
qed

lemma sum_map_del_absent: "map_of m k = None \<Longrightarrow> map_del m k = m"
  by (simp add: AList.delete_id map_of_eq_None_iff)

lemma sum_map_put:
  fixes f :: "'k \<times> 'v \<Rightarrow> 'a :: comm_monoid_add"
  assumes "distinct_keys m"
  shows "sum_list (map f (map_put m k v)) = f (k, v) + sum_list (map f (map_del m k))"
proof -
  have "map_of (map_put m k v) k = Some v" by (simp add: map_of_put)
  from sum_map_del [OF distinct_keys_put [OF assms] this, of f]
  show ?thesis by (simp add: AList.delete_update_same)
qed

text \<open>A sum over the entries does not depend on the order in which they are visited.\<close>

lemma sum_list_map_mset:
  fixes f :: "'a \<Rightarrow> 'b :: comm_monoid_add"
  assumes "mset xs = mset ys"
  shows "sum_list (map f xs) = sum_list (map f ys)"
proof -
  have "sum_mset (image_mset f (mset xs)) = sum_mset (image_mset f (mset ys))" using assms by simp
  then show ?thesis by (simp flip: mset_map add: sum_mset_sum_list)
qed

section \<open>Heaps\<close>

text \<open>Writing one object leaves the objects at the other addresses of a map alone.\<close>

lemma nth_update_rest: "a \<notin> snd ` set es \<Longrightarrow> (k, b) \<in> set es \<Longrightarrow> heap[a := x] ! b = heap ! b"
  by (metis image_eqI nth_list_update_neq snd_conv)

lemma list_all_update_rest:
  "a \<notin> snd ` set es \<Longrightarrow> list_all (\<lambda>(k, b). P k b (heap[a := x] ! b)) es = list_all (\<lambda>(k, b). P k b (heap ! b)) es"
  using nth_update_rest [of a es _ _ heap x] by (auto simp: list_all_iff)

lemma list_ex_update_rest:
  "a \<notin> snd ` set es \<Longrightarrow> list_ex (\<lambda>(k, b). P k b (heap[a := x] ! b)) es = list_ex (\<lambda>(k, b). P k b (heap ! b)) es"
  using nth_update_rest [of a es _ _ heap x] unfolding list_ex_iff by (intro bex_cong) auto

section \<open>Panics\<close>

datatype panic =
    NilDereference           \<comment> \<open>a field of a nil pointer is read\<close>
  | NilMapWrite              \<comment> \<open>assignment to an entry in a nil map\<close>
  | NilFunctionCall          \<comment> \<open>a nil function value is called\<close>
  | ClosedChannel            \<comment> \<open>send on a closed channel, or close of a closed channel\<close>
  | DivideByZero             \<comment> \<open>integer division by zero\<close>
  | PanicCall string         \<comment> \<open>an explicit call of panic\<close>

text \<open>Sequencing of operations that can panic: the first panic wins.\<close>

definition bind_panic :: "panic + 'a \<Rightarrow> ('a \<Rightarrow> panic + 'b) \<Rightarrow> panic + 'b" where
  "bind_panic r f = (case r of Inl p \<Rightarrow> Inl p | Inr x \<Rightarrow> f x)"

lemma bind_panic_simps [simp]:
  "bind_panic (Inl p) f = Inl p"
  "bind_panic (Inr x) f = f x"
  by (simp_all add: bind_panic_def)

lemma bind_panic_Inr [simp]:
  "bind_panic r f = Inr y \<longleftrightarrow> (\<exists>x. r = Inr x \<and> f x = Inr y)"
  by (cases r) auto

end
