(* ===== verification/Go_Float.thy ===== *)
theory Go_Float
  imports Prelude
begin

text \<open>
  Go's \<open>float64\<close>. A finite value is an exact rational: the model does not round and a finite
  result does not overflow. The special values are kept, with the IEEE rules the code depends
  on: division by (positive) zero gives an infinity or NaN, \<open>Inf - Inf\<close>, \<open>0 * Inf\<close> and
  \<open>0 / 0\<close> give NaN, NaN propagates through arithmetic, and every comparison with NaN is false
  (so \<open>\<not> a \<le> b\<close> is not \<open>b < a\<close>). There is one zero, the positive one; no code that is modelled
  divides by a negative zero.
\<close>

datatype f64 = Fin (fval: rat) | PInf | NInf | NaN

abbreviation is_Fin :: "f64 \<Rightarrow> bool" where
  "is_Fin x \<equiv> (\<exists>q. x = Fin q)"

definition isFinite :: "f64 \<Rightarrow> bool" where
  "isFinite x = (case x of Fin _ \<Rightarrow> True | _ \<Rightarrow> False)"

lemma isFinite_simps [simp]:
  "isFinite (Fin q)" "\<not> isFinite PInf" "\<not> isFinite NInf" "\<not> isFinite NaN"
  by (simp_all add: isFinite_def)

lemma isFinite_iff: "isFinite x \<longleftrightarrow> is_Fin x"
  by (cases x) simp_all

lemma isFiniteE [elim?]:
  assumes "isFinite x"
  obtains q where "x = Fin q"
  using assms by (cases x) auto

lemma Fin_fval [simp]: "isFinite x \<Longrightarrow> Fin (fval x) = x"
  by (auto elim: isFiniteE)

section \<open>Arithmetic\<close>

instantiation f64 :: comm_monoid_add
begin

definition zero_f64 :: f64 where
  "0 = Fin 0"

fun plus_f64 :: "f64 \<Rightarrow> f64 \<Rightarrow> f64" where
  "plus_f64 NaN y = NaN"
| "plus_f64 x NaN = NaN"
| "plus_f64 (Fin a) (Fin b) = Fin (a + b)"
| "plus_f64 PInf NInf = NaN"
| "plus_f64 NInf PInf = NaN"
| "plus_f64 PInf y = PInf"
| "plus_f64 x PInf = PInf"
| "plus_f64 NInf y = NInf"
| "plus_f64 x NInf = NInf"

instance
proof (standard, goal_cases)
  case (1 x y z)
  then show ?case by (cases z; cases x; cases y) auto
next
  case (2 x y)
  then show ?case by (cases y; cases x) auto
next
  case (3 x)
  then show ?case unfolding zero_f64_def by (cases x) auto
qed

end

instantiation f64 :: "{uminus, minus, times, inverse, one}"
begin

definition one_f64 :: f64 where
  "1 = Fin 1"

fun uminus_f64 :: "f64 \<Rightarrow> f64" where
  "uminus_f64 (Fin a) = Fin (- a)"
| "uminus_f64 PInf = NInf"
| "uminus_f64 NInf = PInf"
| "uminus_f64 NaN = NaN"

definition minus_f64 :: "f64 \<Rightarrow> f64 \<Rightarrow> f64" where
  "x - y = x + (- y :: f64)"

fun inf_times :: "f64 \<Rightarrow> rat \<Rightarrow> f64" where
  "inf_times i b = (if b = 0 then NaN else if 0 < b then i else - i)"

fun times_f64 :: "f64 \<Rightarrow> f64 \<Rightarrow> f64" where
  "times_f64 NaN y = NaN"
| "times_f64 x NaN = NaN"
| "times_f64 (Fin a) (Fin b) = Fin (a * b)"
| "times_f64 (Fin a) y = inf_times y a"
| "times_f64 x (Fin b) = inf_times x b"
| "times_f64 PInf PInf = PInf"
| "times_f64 NInf NInf = PInf"
| "times_f64 PInf NInf = NInf"
| "times_f64 NInf PInf = NInf"

fun divide_f64 :: "f64 \<Rightarrow> f64 \<Rightarrow> f64" where
  "divide_f64 NaN y = NaN"
| "divide_f64 x NaN = NaN"
| "divide_f64 (Fin a) (Fin b) =
     (if b = 0 then (if a = 0 then NaN else if 0 < a then PInf else NInf) else Fin (a / b))"
| "divide_f64 (Fin a) y = Fin 0"
| "divide_f64 x (Fin b) = (if b < 0 then - x else x)"
| "divide_f64 x y = NaN"

definition inverse_f64 :: "f64 \<Rightarrow> f64" where
  "inverse x = divide (Fin 1) (x :: f64)"

instance ..

end

section \<open>Comparison\<close>

instantiation f64 :: ord
begin

fun less_eq_f64 :: "f64 \<Rightarrow> f64 \<Rightarrow> bool" where
  "less_eq_f64 NaN y = False"
| "less_eq_f64 x NaN = False"
| "less_eq_f64 (Fin a) (Fin b) = (a \<le> b)"
| "less_eq_f64 NInf y = True"
| "less_eq_f64 x PInf = True"
| "less_eq_f64 x y = False"

fun less_f64 :: "f64 \<Rightarrow> f64 \<Rightarrow> bool" where
  "less_f64 NaN y = False"
| "less_f64 x NaN = False"
| "less_f64 (Fin a) (Fin b) = (a < b)"
| "less_f64 NInf NInf = False"
| "less_f64 NInf y = True"
| "less_f64 PInf y = False"
| "less_f64 x PInf = True"
| "less_f64 x y = False"

instance ..

end

text \<open>\<open>math.Min\<close>, with its special cases.\<close>

definition math_Min :: "f64 \<Rightarrow> f64 \<Rightarrow> f64" where
  "math_Min x y = (if x = NInf \<or> y = NInf then NInf else if x = NaN \<or> y = NaN then NaN
     else if x < y then x else y)"

text \<open>\<open>math.Abs\<close>.\<close>

definition math_Abs :: "f64 \<Rightarrow> f64" where
  "math_Abs x = (if x < Fin 0 then - x else x)"

lemma math_simps [simp]:
  "math_Min (Fin a) (Fin b) = Fin (min a b)"
  "math_Abs (Fin a) = Fin \<bar>a\<bar>"
  by (simp_all add: math_Min_def math_Abs_def min_def abs_if)

text \<open>Go's \<open>==\<close> on floats: NaN is not equal to itself.\<close>

definition feq :: "f64 \<Rightarrow> f64 \<Rightarrow> bool" where
  "feq x y = (x = y \<and> x \<noteq> NaN)"

lemma zero_f64_Fin [simp, f64_simps]: "(0 :: f64) = Fin 0"
  by (simp add: zero_f64_def)

lemma minus_Fin [simp, f64_simps]: "Fin a - Fin b = Fin (a - b)"
  by (simp add: minus_f64_def)

lemma feq_Fin [simp, f64_simps]: "feq (Fin a) (Fin b) \<longleftrightarrow> a = b"
  by (simp add: feq_def)

lemma minus_NaN [simp]: "NaN - x = NaN" "x - NaN = NaN" for x :: f64
  by (cases x; simp add: minus_f64_def)+

lemma plus_NaN [simp]: "NaN + x = NaN" "x + NaN = NaN" for x :: f64
  by (cases x; simp)+

lemma times_NaN [simp]: "NaN * x = NaN" "x * NaN = NaN" for x :: f64
  by (cases x; simp)+

lemma divide_NaN [simp]: "NaN / x = NaN" "x / NaN = NaN" for x :: f64
  by (cases x; simp)+

lemma compare_NaN [simp]:
  "\<not> NaN \<le> x" "\<not> x \<le> NaN" "\<not> NaN < x" "\<not> x < NaN" for x :: f64
  by (cases x; simp)+

lemma isFinite_add [simp]: "isFinite x \<Longrightarrow> isFinite y \<Longrightarrow> isFinite (x + y)"
  by (auto elim!: isFiniteE)

lemma isFinite_minus [simp]: "isFinite x \<Longrightarrow> isFinite y \<Longrightarrow> isFinite (x - y)"
  by (auto elim!: isFiniteE)

lemma isFinite_times [simp]: "isFinite x \<Longrightarrow> isFinite y \<Longrightarrow> isFinite (x * y)"
  by (auto elim!: isFiniteE)

text \<open>On finite values addition cancels: the float sums of a store can be solved for.\<close>

lemma finite_add_diff_cancel:
  fixes s a b t :: f64
  assumes "isFinite a" and "isFinite t" and "a + t = s"
  shows "s + (b - a) = b + t"
proof -
  obtain qa qt where "a = Fin qa" "t = Fin qt" using assms(1,2) by (auto elim!: isFiniteE)
  with assms(3) show ?thesis by (cases b) (auto simp: minus_f64_def)
qed

lemma finite_diff_cancel:
  fixes s a t :: f64
  assumes "isFinite a" and "isFinite t" and "a + t = s"
  shows "s - a = t"
  using assms by (auto elim!: isFiniteE)

lemma isFinite_sum_list: "(\<forall>x \<in> set xs. isFinite x) \<Longrightarrow> isFinite (sum_list xs :: f64)"
  by (induction xs) auto

lemma sum_list_Fin: "sum_list (map (\<lambda>x. Fin (g x)) xs) = Fin (sum_list (map g xs))"
  by (induction xs) auto

section \<open>Conversions\<close>

text \<open>\<open>float64(n)\<close> of an integer (exact, as rounding is not modelled).\<close>

definition float64 :: "int64 \<Rightarrow> f64" where
  "float64 n = Fin (of_int (sint n))"

lemma isFinite_float64 [simp]: "isFinite (float64 n)"
  by (simp add: float64_def)

lemma float64_of_int: "- (2 ^ 63) \<le> n \<Longrightarrow> n < 2 ^ 63 \<Longrightarrow> float64 (word_of_int n) = Fin (of_int n)"
  by (simp only: float64_def sint64_of_int)

text \<open>
  Conversion of a float to a 64-bit integer drops the fraction (rounds towards zero). Where the
  value does not fit, Go leaves the result to the implementation: \<open>None\<close>.
\<close>

definition trunc_rat :: "rat \<Rightarrow> int" where
  "trunc_rat q = (if 0 \<le> q then \<lfloor>q\<rfloor> else \<lceil>q\<rceil>)"

lemma trunc_rat_lower:
  assumes "of_int a \<le> q"
  shows "a \<le> trunc_rat q"
proof -
  have "(of_int a :: rat) \<le> of_int \<lceil>q\<rceil>" using assms le_of_int_ceiling by (rule order_trans)
  then show ?thesis using assms by (simp add: trunc_rat_def le_floor_iff)
qed

lemma trunc_rat_upper:
  assumes "0 < b" and "q < of_int b"
  shows "trunc_rat q < b"
proof (cases "0 \<le> q")
  case True
  with assms show ?thesis by (simp add: trunc_rat_def floor_less_iff)
next
  case False
  then have "\<lceil>q\<rceil> \<le> 0" by (simp add: ceiling_le_iff)
  with assms(1) have "\<lceil>q\<rceil> < b" by linarith
  with False show ?thesis by (simp add: trunc_rat_def)
qed

definition float_to_int64 :: "f64 \<Rightarrow> int64 option" where
  "float_to_int64 x = (case x of
       Fin q \<Rightarrow> (if - (2 ^ 63) \<le> trunc_rat q \<and> trunc_rat q < 2 ^ 63
                then Some (word_of_int (trunc_rat q)) else None)
     | _ \<Rightarrow> None)"

lemma float_to_int64_trunc:
  "- (2 ^ 63) \<le> trunc_rat q \<Longrightarrow> trunc_rat q < 2 ^ 63 \<Longrightarrow> float_to_int64 (Fin q) = Some (word_of_int (trunc_rat q))"
  by (simp add: float_to_int64_def)

lemma trunc_rat_of_int [simp]: "trunc_rat (of_int n) = n"
  by (simp add: trunc_rat_def)

lemma trunc_rat_quotient: "0 \<le> a \<Longrightarrow> 0 < b \<Longrightarrow> trunc_rat (of_int a / of_int b) = a div b"
  by (simp add: trunc_rat_def floor_divide_of_int_eq)

lemma float_to_int64_float64 [simp]: "float_to_int64 (float64 n) = Some n"
  using sint64_lower [of n] sint64_upper [of n] by (simp add: float_to_int64_def float64_def)

end
