(* ===== verification/Go_Time.thy ===== *)
theory Go_Time
  imports Go_Float
begin

text \<open>
  Go's \<open>time\<close> package, as far as the program uses it. A \<open>Duration\<close> is an \<open>int64\<close> number of
  nanoseconds, so products such as \<open>time.Duration(n) * time.Second\<close> wrap. A \<open>Time\<close> is an
  integer number of nanoseconds since the Unix epoch (the range of Go's representation is not
  modelled: it spans billions of years). Every reading of the clock, \<open>time.Now()\<close>, is a
  parameter \<open>now\<close> of the operation that makes it.
\<close>

type_synonym duration = int64
type_synonym time = int

definition Nanosecond :: duration where "Nanosecond = 1"
definition Millisecond :: duration where "Millisecond = 1000000"
definition Second :: duration where "Second = 1000000000"
definition Minute :: duration where "Minute = 60000000000"

text \<open>\<open>time.Duration(n) * time.Second\<close>, which wraps around beyond 292 years.\<close>

definition seconds :: "int64 \<Rightarrow> duration" where
  "seconds n = n * Second"

text \<open>The zero \<open>Time\<close> is midnight, January 1, year 1; \<open>time.Unix(s, 0)\<close>; \<open>t.Unix()\<close>.\<close>

definition zero_time :: time where
  "zero_time = - 62135596800000000000"

definition IsZero_time :: "time \<Rightarrow> bool" where
  "IsZero_time t = (t = zero_time)"

definition Unix :: "int64 \<Rightarrow> time" where
  "Unix s = sint s * 1000000000"

definition to_unix :: "time \<Rightarrow> int64" where
  "to_unix t = word_of_int (t div 1000000000)"

definition time_Add :: "time \<Rightarrow> duration \<Rightarrow> time" where
  "time_Add t d = t + sint d"

definition Before :: "time \<Rightarrow> time \<Rightarrow> bool" where
  "Before a b = (a < b)"

definition After :: "time \<Rightarrow> time \<Rightarrow> bool" where
  "After a b = (b < a)"

text \<open>\<open>t.Sub(u)\<close> saturates at the largest and smallest duration.\<close>

definition time_Sub :: "time \<Rightarrow> time \<Rightarrow> duration" where
  "time_Sub t u = word_of_int (max (- (2 ^ 63)) (min (2 ^ 63 - 1) (t - u)))"

definition Seconds :: "duration \<Rightarrow> f64" where
  "Seconds d = Fin (of_int (sint d) / 1000000000)"

text \<open>Go's integer division truncates towards zero; division by zero panics.\<close>

definition quot :: "int \<Rightarrow> int \<Rightarrow> int" where
  "quot a b = (if (a < 0) = (b < 0) then \<bar>a\<bar> div \<bar>b\<bar> else - (\<bar>a\<bar> div \<bar>b\<bar>))"

definition div64 :: "int64 \<Rightarrow> int64 \<Rightarrow> panic + int64" where
  "div64 a b = (if b = 0 then Inl DivideByZero else Inr (word_of_int (quot (sint a) (sint b))))"

text \<open>Go's remainder has the sign of the dividend.\<close>

definition mod64 :: "int64 \<Rightarrow> int64 \<Rightarrow> panic + int64" where
  "mod64 a b = (if b = 0 then Inl DivideByZero
     else Inr (word_of_int (sint a - quot (sint a) (sint b) * sint b)))"

lemma quot_nonneg: "0 \<le> a \<Longrightarrow> 0 < b \<Longrightarrow> quot a b = a div b"
  by (simp add: quot_def)

lemma div64_nonneg:
  assumes "0 \<le> sint a" and "0 < sint b"
  shows "div64 a b = Inr (word_of_int (sint a div sint b))"
  using assms by (auto simp: div64_def quot_nonneg)

lemma mod64_nonneg:
  assumes "0 \<le> sint a" and "0 < sint b"
  shows "mod64 a b = Inr (word_of_int (sint a mod sint b))"
  using assms by (auto simp: mod64_def quot_nonneg minus_div_mult_eq_mod)

lemma sint_Second [simp]: "sint Second = 1000000000"
  by (simp add: Second_def)

text \<open>Second counts below 292 years survive the multiplication, and \<open>int64(d.Seconds())\<close>
  gives them back.\<close>

lemma sint_seconds:
  assumes "\<bar>sint n\<bar> \<le> 9223372036"
  shows "sint (seconds n) = sint n * 1000000000"
  using assms by (simp add: seconds_def sint64_mult)

lemma Seconds_seconds:
  assumes "\<bar>sint n\<bar> \<le> 9223372036"
  shows "float_to_int64 (Seconds (seconds n)) = Some n"
proof -
  have "Seconds (seconds n) = float64 n"
    using assms by (simp add: Seconds_def float64_def sint_seconds)
  then show ?thesis by simp
qed

lemma float_to_int64_Seconds_total: "\<exists>k. float_to_int64 (Seconds d) = Some k"
proof -
  let ?q = "of_int (sint d) / 1000000000 :: rat"
  have "of_int (- (2 ^ 63)) \<le> (of_int (sint d) :: rat)"
    using sint64_lower [of d] by (simp only: of_int_le_iff)
  then have l: "of_int (- (2 ^ 63)) \<le> ?q" by simp
  have "(of_int (sint d) :: rat) < of_int (2 ^ 63)"
    using sint64_upper [of d] by (simp only: of_int_less_iff)
  then have u: "?q < of_int (2 ^ 63)" by simp
  have "- (2 ^ 63) \<le> trunc_rat ?q" and "trunc_rat ?q < 2 ^ 63"
    using trunc_rat_lower [OF l] trunc_rat_upper [OF _ u] by simp_all
  then show ?thesis by (simp add: float_to_int64_def Seconds_def)
qed

text \<open>\<open>int(d.Seconds())\<close>: the whole seconds.\<close>

definition whole_seconds :: "duration \<Rightarrow> int64" where
  "whole_seconds d = word_of_int (trunc_rat (of_int (sint d) / 1000000000))"

lemma float_to_int64_Seconds: "float_to_int64 (Seconds d) = Some (whole_seconds d)"
proof -
  obtain k where "float_to_int64 (Seconds d) = Some k" using float_to_int64_Seconds_total by blast
  then show ?thesis by (auto simp: float_to_int64_def Seconds_def whole_seconds_def split: if_splits)
qed

lemma sint_whole_seconds:
  assumes "0 \<le> sint d"
  shows "sint (whole_seconds d) = sint d div 1000000000"
proof -
  have "trunc_rat (of_int (sint d) / 1000000000) = sint d div 1000000000"
    using trunc_rat_quotient [OF assms, of 1000000000] by simp
  moreover have "0 \<le> sint d div 1000000000" using assms by (simp add: pos_imp_zdiv_nonneg_iff)
  moreover have "sint d div 1000000000 \<le> sint d div 1" using assms by (intro zdiv_mono2) auto
  moreover have "sint d < 2 ^ 63" by (rule sint64_upper)
  ultimately show ?thesis by (simp add: whole_seconds_def sint64_of_int)
qed

lemma sint_time_Sub: "- (2 ^ 63) \<le> t - u \<Longrightarrow> t - u < 2 ^ 63 \<Longrightarrow> sint (time_Sub t u) = t - u"
  unfolding time_Sub_def by (subst sint64_of_int) auto

text \<open>Durations since a moment grow with the clock.\<close>

lemma time_Sub_mono: "t - u \<le> t' - u' \<Longrightarrow> sint (time_Sub t u) \<le> sint (time_Sub t' u')"
  unfolding time_Sub_def by (subst (1 2) sint64_of_int) auto

lemma to_unix_Unix [simp]: "to_unix (Unix s) = s"
  by (simp add: to_unix_def Unix_def)

end
