(* ===== verification/Lease_Store.thy ===== *)
theory Lease_Store
  imports Go_Time
begin

text \<open>
  The lease store of one resource (\<open>go/server/doorman/store.go\<close>): the leases by client id, and
  three running totals the store keeps beside them: the capacity handed out (\<open>sumHas\<close>), the
  capacity asked for (\<open>sumWants\<close>) and the number of subclients (\<open>count\<close>). The locale
  \<open>lease_store\<close> is the Go interface \<open>LeaseStore\<close> with the laws its clients rely on;
  \<open>leaseStoreImpl\<close> is the implementation and provides the interpretation.
\<close>

section \<open>The implementation\<close>

record Lease =
  lease_Expiry :: time
  lease_RefreshInterval :: duration
  lease_Has :: f64
  lease_Wants :: f64
  lease_Subclients :: int64

text \<open>The zero \<open>Lease\<close>, which reading an absent map entry returns.\<close>

definition zero_Lease :: Lease where
  "zero_Lease = \<lparr>lease_Expiry = zero_time, lease_RefreshInterval = 0, lease_Has = Fin 0,
     lease_Wants = Fin 0, lease_Subclients = 0\<rparr>"

definition Lease_IsZero :: "Lease \<Rightarrow> bool" where
  "Lease_IsZero l = IsZero_time (lease_Expiry l)"

record ClientLeaseStatus =
  cls_ClientID :: string
  cls_Lease :: Lease

record ResourceLeaseStatus =
  rls_ID :: string
  rls_SumHas :: f64
  rls_SumWants :: f64
  rls_Leases :: "ClientLeaseStatus list"

record leaseStoreImpl =
  ls_id :: string
  ls_leases :: "(string \<times> Lease) list"
  ls_sumWants :: f64
  ls_sumHas :: f64
  ls_count :: int64

definition NewLeaseStore :: "string \<Rightarrow> leaseStoreImpl" where
  "NewLeaseStore i = \<lparr>ls_id = i, ls_leases = [], ls_sumWants = Fin 0, ls_sumHas = Fin 0, ls_count = 0\<rparr>"

definition store_Count :: "leaseStoreImpl \<Rightarrow> int64" where
  "store_Count s = ls_count s"

definition store_SumWants :: "leaseStoreImpl \<Rightarrow> f64" where
  "store_SumWants s = ls_sumWants s"

definition store_SumHas :: "leaseStoreImpl \<Rightarrow> f64" where
  "store_SumHas s = ls_sumHas s"

definition store_HasClient :: "leaseStoreImpl \<Rightarrow> string \<Rightarrow> bool" where
  "store_HasClient s client = (map_of (ls_leases s) client \<noteq> None)"

definition store_Get :: "leaseStoreImpl \<Rightarrow> string \<Rightarrow> Lease" where
  "store_Get s client = (case map_of (ls_leases s) client of None \<Rightarrow> zero_Lease | Some l \<Rightarrow> l)"

definition store_Release :: "leaseStoreImpl \<Rightarrow> string \<Rightarrow> leaseStoreImpl" where
  "store_Release s client = (case map_of (ls_leases s) client of
       None \<Rightarrow> s
     | Some lease \<Rightarrow> s\<lparr>ls_sumWants := ls_sumWants s - lease_Wants lease,
         ls_sumHas := ls_sumHas s - lease_Has lease,
         ls_count := ls_count s - lease_Subclients lease,
         ls_leases := map_del (ls_leases s) client\<rparr>)"

definition store_Assign :: "leaseStoreImpl \<Rightarrow> time \<Rightarrow> string \<Rightarrow> duration \<Rightarrow> duration \<Rightarrow> f64 \<Rightarrow> f64 \<Rightarrow> int64
    \<Rightarrow> leaseStoreImpl \<times> Lease" where
  "store_Assign s now client leaseLength refreshInterval has wants subclients =
     (let lease = store_Get s client;
          lease' = lease\<lparr>lease_Has := has, lease_Wants := wants,
            lease_Expiry := time_Add now leaseLength,
            lease_RefreshInterval := refreshInterval,
            lease_Subclients := subclients\<rparr>
      in (s\<lparr>ls_sumHas := ls_sumHas s + (has - lease_Has lease),
            ls_sumWants := ls_sumWants s + (wants - lease_Wants lease),
            ls_count := ls_count s + (subclients - lease_Subclients lease),
            ls_leases := map_put (ls_leases s) client lease'\<rparr>, lease'))"

text \<open>
  The loop of \<open>Clean\<close> visits the entries the map had when the loop began and deletes the
  expired ones as it goes; deleting the entry being visited is allowed in Go.
\<close>

fun clean_loop :: "time \<Rightarrow> (string \<times> Lease) list \<Rightarrow> leaseStoreImpl \<Rightarrow> nat \<Rightarrow> leaseStoreImpl \<times> nat" where
  "clean_loop when [] s result = (s, result)"
| "clean_loop when ((client, lease) # es) s result =
     (if After when (lease_Expiry lease)
      then clean_loop when es (store_Release s client) (result + 1)
      else clean_loop when es s result)"

definition store_Clean :: "leaseStoreImpl \<Rightarrow> time \<Rightarrow> leaseStoreImpl \<times> nat" where
  "store_Clean s now = clean_loop now (ls_leases s) s 0"

definition store_ResourceLeaseStatus :: "leaseStoreImpl \<Rightarrow> ResourceLeaseStatus" where
  "store_ResourceLeaseStatus s = \<lparr>rls_ID = ls_id s, rls_SumHas = ls_sumHas s,
     rls_SumWants = ls_sumWants s,
     rls_Leases = map (\<lambda>(client, lease). \<lparr>cls_ClientID = client, cls_Lease = lease\<rparr>) (ls_leases s)\<rparr>"

text \<open>\<open>Map\<close> runs a function over every entry; the function's effects are the fold's accumulator.\<close>

definition store_Map :: "(string \<Rightarrow> Lease \<Rightarrow> 'a \<Rightarrow> 'a) \<Rightarrow> leaseStoreImpl \<Rightarrow> 'a \<Rightarrow> 'a" where
  "store_Map f s a = fold (\<lambda>(i, lease). f i lease) (ls_leases s) a"

definition store_Subclients :: "leaseStoreImpl \<Rightarrow> string \<Rightarrow> int64" where
  "store_Subclients s i = lease_Subclients (store_Get s i)"

section \<open>Totals over the entries of a store\<close>

definition lease_of :: "(string \<times> Lease) list \<Rightarrow> string \<Rightarrow> Lease" where
  "lease_of es c = (case map_of es c of None \<Rightarrow> zero_Lease | Some l \<Rightarrow> l)"

definition finite_lease :: "Lease \<Rightarrow> bool" where
  "finite_lease l = (isFinite (lease_Has l) \<and> isFinite (lease_Wants l))"

definition entries_ok :: "(string \<times> Lease) list \<Rightarrow> bool" where
  "entries_ok es = (distinct_keys es \<and> list_all (\<lambda>(c, l). finite_lease l) es)"

definition total_has :: "(string \<times> Lease) list \<Rightarrow> rat" where
  "total_has es = sum_list (map (\<lambda>(c, l). fval (lease_Has l)) es)"

definition total_wants :: "(string \<times> Lease) list \<Rightarrow> rat" where
  "total_wants es = sum_list (map (\<lambda>(c, l). fval (lease_Wants l)) es)"

definition total_subclients :: "(string \<times> Lease) list \<Rightarrow> int64" where
  "total_subclients es = sum_list (map (\<lambda>(c, l). lease_Subclients l) es)"

lemma lease_of_simps [go_map]:
  "lease_of (map_put es c l) c' = (if c' = c then l else lease_of es c')"
  "lease_of (map_del es c) c' = (if c' = c then zero_Lease else lease_of es c')"
  by (simp_all add: lease_of_def map_of_put map_of_del)

lemma zero_Lease_simps [simp]:
  "lease_Has zero_Lease = Fin 0" "lease_Wants zero_Lease = Fin 0" "lease_Subclients zero_Lease = 0"
  "lease_Expiry zero_Lease = zero_time" "lease_RefreshInterval zero_Lease = 0"
  "finite_lease zero_Lease"
  by (simp_all add: zero_Lease_def finite_lease_def)

lemma finite_leaseD:
  "finite_lease l \<Longrightarrow> isFinite (lease_Has l)"
  "finite_lease l \<Longrightarrow> isFinite (lease_Wants l)"
  by (simp_all add: finite_lease_def)

lemma entries_ok_Nil [simp]: "entries_ok []"
  by (simp add: entries_ok_def)

lemma entries_ok_distinct: "entries_ok es \<Longrightarrow> distinct_keys es"
  by (simp add: entries_ok_def)

lemma entries_ok_finite: "entries_ok es \<Longrightarrow> (c, l) \<in> set es \<Longrightarrow> finite_lease l"
  by (auto simp: entries_ok_def list_all_iff)

lemma entries_ok_lease_of [simp]: "entries_ok es \<Longrightarrow> finite_lease (lease_of es c)"
  by (auto simp: lease_of_def split: option.splits dest: map_of_SomeD entries_ok_finite)

lemma entries_ok_put [intro]: "entries_ok es \<Longrightarrow> finite_lease l \<Longrightarrow> entries_ok (map_put es c l)"
  using set_map_put [where m = es and k = c and v = l] by (fastforce simp: entries_ok_def list_all_iff AList.distinct_update)

lemma entries_ok_del [intro]: "entries_ok es \<Longrightarrow> entries_ok (map_del es c)"
  using set_map_del [where m = es and k = c] by (fastforce simp: entries_ok_def list_all_iff AList.distinct_delete)

lemma entries_ok_filter [intro]: "entries_ok es \<Longrightarrow> entries_ok (filter P es)"
  by (auto simp: entries_ok_def list_all_iff intro: distinct_map_filter)

text \<open>Splitting one client's lease off a total; the absent client contributes zero.\<close>

lemma sum_entries_split:
  fixes f :: "Lease \<Rightarrow> 'a :: comm_monoid_add"
  assumes "distinct_keys es" and "f zero_Lease = 0"
  shows "f (lease_of es c) + sum_list (map (\<lambda>(c, l). f l) (map_del es c)) = sum_list (map (\<lambda>(c, l). f l) es)"
proof (cases "map_of es c")
  case None
  with assms(2) show ?thesis by (simp add: lease_of_def sum_map_del_absent)
next
  case (Some l)
  with sum_map_del [OF assms(1) Some, of "\<lambda>(c, l). f l"] show ?thesis by (simp add: lease_of_def)
qed

lemma sum_entries_put:
  fixes f :: "Lease \<Rightarrow> 'a :: comm_monoid_add"
  assumes "distinct_keys es"
  shows "sum_list (map (\<lambda>(c, l). f l) (map_put es c l)) = f l + sum_list (map (\<lambda>(c, l). f l) (map_del es c))"
  using sum_map_put [OF assms, of "\<lambda>(c, l). f l" c l] by simp

lemma sum_has_Fin: "entries_ok es \<Longrightarrow> sum_list (map (\<lambda>(c, l). lease_Has l) es) = Fin (total_has es)"
  unfolding total_has_def sum_list_Fin [symmetric] case_prod_unfold
  by (rule arg_cong [where f = sum_list]) (auto simp: entries_ok_def list_all_iff finite_leaseD)

lemma sum_wants_Fin: "entries_ok es \<Longrightarrow> sum_list (map (\<lambda>(c, l). lease_Wants l) es) = Fin (total_wants es)"
  unfolding total_wants_def sum_list_Fin [symmetric] case_prod_unfold
  by (rule arg_cong [where f = sum_list]) (auto simp: entries_ok_def list_all_iff finite_leaseD)

lemma total_has_put:
  "distinct_keys es \<Longrightarrow>
     total_has (map_put es c l) = total_has es - fval (lease_Has (lease_of es c)) + fval (lease_Has l)"
  using sum_entries_split [of es "\<lambda>l. fval (lease_Has l)" c]
    sum_entries_put [of es "\<lambda>l. fval (lease_Has l)" c l]
  by (simp add: total_has_def)

lemma total_wants_put:
  "distinct_keys es \<Longrightarrow>
     total_wants (map_put es c l) = total_wants es - fval (lease_Wants (lease_of es c)) + fval (lease_Wants l)"
  using sum_entries_split [of es "\<lambda>l. fval (lease_Wants l)" c]
    sum_entries_put [of es "\<lambda>l. fval (lease_Wants l)" c l]
  by (simp add: total_wants_def)

lemma total_has_del:
  "distinct_keys es \<Longrightarrow> total_has (map_del es c) = total_has es - fval (lease_Has (lease_of es c))"
  using sum_entries_split [of es "\<lambda>l. fval (lease_Has l)" c] by (simp add: total_has_def)

lemma total_subclients_put:
  "distinct_keys es \<Longrightarrow> total_subclients (map_put es c l) =
     total_subclients es + (lease_Subclients l - lease_Subclients (lease_of es c))"
  using sum_entries_split [of es lease_Subclients c] sum_entries_put [of es lease_Subclients c l]
  by (simp add: total_subclients_def algebra_simps)

lemma total_subclients_del:
  "distinct_keys es \<Longrightarrow> total_subclients (map_del es c) =
     total_subclients es - lease_Subclients (lease_of es c)"
  using sum_entries_split [of es lease_Subclients c]
  by (simp add: total_subclients_def algebra_simps)

text \<open>Dropping leases whose holdings are not negative cannot raise the total.\<close>

lemma total_has_filter_le:
  assumes "\<And>c l. (c, l) \<in> set es \<Longrightarrow> 0 \<le> fval (lease_Has l)"
  shows "total_has (filter P es) \<le> total_has es"
  using assms by (induction es) (force simp: total_has_def)+

text \<open>Nothing of this depends on the order of the entries.\<close>

lemma totals_mset:
  assumes "mset es = mset es'"
  shows "total_has es = total_has es'" "total_wants es = total_wants es'"
    "total_subclients es = total_subclients es'"
  unfolding total_has_def total_wants_def total_subclients_def
  by (rule sum_list_map_mset [OF assms])+

lemma distinct_keys_mset:
  assumes "mset es = mset es'"
  shows "distinct_keys es = distinct_keys es'"
proof -
  have "mset (map fst es) = mset (map fst es')" using assms by simp
  then show ?thesis by (rule mset_eq_imp_distinct_iff)
qed

lemma entries_ok_mset:
  assumes "mset es = mset es'"
  shows "entries_ok es = entries_ok es'"
  unfolding entries_ok_def list_all_iff distinct_keys_mset [OF assms] mset_eq_setD [OF assms] ..

lemma map_of_mset:
  assumes "mset es = mset es'" and "distinct_keys es'"
  shows "map_of es = map_of es'"
  using map_of_inject_set [of es es'] assms distinct_keys_mset [OF assms(1)] mset_eq_setD [OF assms(1)]
  by simp

section \<open>The interface\<close>

text \<open>
  What a client of a \<open>LeaseStore\<close> may rely on. \<open>ok\<close> is the invariant of the implementation;
  \<open>entries\<close> are the leases in the store. The laws speak of finite capacities: a store that
  has been handed NaN keeps no totals worth the name.
\<close>

locale lease_store =
  fixes ok :: "'s \<Rightarrow> bool"
    and entries :: "'s \<Rightarrow> (string \<times> Lease) list"
    and sumHas :: "'s \<Rightarrow> f64"
    and sumWants :: "'s \<Rightarrow> f64"
    and count :: "'s \<Rightarrow> int64"
    and assign :: "'s \<Rightarrow> time \<Rightarrow> string \<Rightarrow> duration \<Rightarrow> duration \<Rightarrow> f64 \<Rightarrow> f64 \<Rightarrow> int64 \<Rightarrow> 's \<times> Lease"
    and release :: "'s \<Rightarrow> string \<Rightarrow> 's"
    and clean :: "'s \<Rightarrow> time \<Rightarrow> 's \<times> nat"
  assumes ok_entries: "ok s \<Longrightarrow> entries_ok (entries s)"
    and ok_sumHas: "ok s \<Longrightarrow> sumHas s = Fin (total_has (entries s))"
    and ok_sumWants: "ok s \<Longrightarrow> sumWants s = Fin (total_wants (entries s))"
    and ok_count: "ok s \<Longrightarrow> count s = total_subclients (entries s)"
    and ok_assign: "ok s \<Longrightarrow> isFinite h \<Longrightarrow> isFinite w \<Longrightarrow> ok (fst (assign s now c len iv h w n))"
    and entries_assign: "ok s \<Longrightarrow> entries (fst (assign s now c len iv h w n)) =
          map_put (entries s) c (snd (assign s now c len iv h w n))"
    and lease_assign: "snd (assign s now c len iv h w n) =
          \<lparr>lease_Expiry = time_Add now len, lease_RefreshInterval = iv, lease_Has = h,
           lease_Wants = w, lease_Subclients = n\<rparr>"
    and ok_release: "ok s \<Longrightarrow> ok (release s c)"
    and entries_release: "ok s \<Longrightarrow> entries (release s c) = map_del (entries s) c"
    and ok_clean: "ok s \<Longrightarrow> ok (fst (clean s now))"
    and entries_clean: "ok s \<Longrightarrow> entries (fst (clean s now)) =
          filter (\<lambda>(c, l). \<not> After now (lease_Expiry l)) (entries s)"
begin

lemmas ok_distinct = ok_entries [THEN entries_ok_distinct]

lemma lease_of_assign:
  assumes "ok s"
  shows "lease_of (entries (fst (assign s now c len iv h w n))) c' =
    (if c' = c then snd (assign s now c len iv h w n) else lease_of (entries s) c')"
  using assms by (simp add: entries_assign lease_of_simps)

lemma lease_of_release:
  "ok s \<Longrightarrow> lease_of (entries (release s c)) c' = (if c' = c then zero_Lease else lease_of (entries s) c')"
  by (simp add: entries_release lease_of_simps)

lemma sumHas_assign:
  assumes "ok s" and "isFinite h" and "isFinite w"
  shows "sumHas (fst (assign s now c len iv h w n)) = (sumHas s - lease_Has (lease_of (entries s) c)) + h"
proof -
  have "isFinite (lease_Has (lease_of (entries s) c))"
    using ok_entries [OF assms(1)] by (simp add: finite_leaseD)
  with assms show ?thesis
    by (auto elim!: isFiniteE simp: ok_sumHas ok_assign entries_assign total_has_put ok_distinct lease_assign)
qed

text \<open>
  The capacity guard: a grant that is at most what is left of the capacity, once the client's
  old lease is taken back, keeps the total within the capacity, whatever the total was before.
\<close>

lemma capacity_guard:
  assumes "ok s" and "isFinite h" and "isFinite w"
    and "h \<le> Fin cap - sumHas s + lease_Has (lease_of (entries s) c)"
  shows "sumHas (fst (assign s now c len iv h w n)) \<le> Fin cap"
proof -
  have "isFinite (lease_Has (lease_of (entries s) c))"
    using ok_entries [OF assms(1)] by (simp add: finite_leaseD)
  with assms sumHas_assign [OF assms(1-3), where c = c and now = now and len = len and iv = iv and n = n]
  show ?thesis by (auto elim!: isFiniteE simp: ok_sumHas)
qed

lemma sumHas_release:
  assumes "ok s"
  shows "sumHas (release s c) = sumHas s - lease_Has (lease_of (entries s) c)"
proof -
  have "isFinite (lease_Has (lease_of (entries s) c))"
    using ok_entries [OF assms] by (simp add: finite_leaseD)
  with assms show ?thesis
    by (auto elim!: isFiniteE simp: ok_sumHas ok_release entries_release total_has_del ok_distinct)
qed

lemma clean_alive:
  "ok s \<Longrightarrow> (c, l) \<in> set (entries (fst (clean s now))) \<longleftrightarrow>
     (c, l) \<in> set (entries s) \<and> \<not> After now (lease_Expiry l)"
  by (simp add: entries_clean)

lemma sumHas_clean_le:
  assumes "ok s" and "\<And>c l. (c, l) \<in> set (entries s) \<Longrightarrow> 0 \<le> fval (lease_Has l)"
  shows "sumHas (fst (clean s now)) \<le> sumHas s"
proof -
  have "total_has (filter (\<lambda>(c, l). \<not> After now (lease_Expiry l)) (entries s)) \<le> total_has (entries s)"
    using assms(2) by (rule total_has_filter_le)
  then show ?thesis using assms(1) by (simp add: ok_sumHas ok_clean entries_clean)
qed

lemma count_assign:
  "ok s \<Longrightarrow> isFinite h \<Longrightarrow> isFinite w \<Longrightarrow> count (fst (assign s now c len iv h w n)) =
     count s + (n - lease_Subclients (lease_of (entries s) c))"
  by (simp add: ok_count ok_assign entries_assign total_subclients_put ok_distinct lease_assign)

end

section \<open>The implementation meets the contract\<close>

definition store_ok :: "leaseStoreImpl \<Rightarrow> bool" where
  "store_ok s = (entries_ok (ls_leases s)
     \<and> ls_sumHas s = Fin (total_has (ls_leases s))
     \<and> ls_sumWants s = Fin (total_wants (ls_leases s))
     \<and> ls_count s = total_subclients (ls_leases s))"

lemma store_Get_lease_of [store_simps]: "store_Get s c = lease_of (ls_leases s) c"
  by (simp add: store_Get_def lease_of_def)

lemma store_ok_New [simp]: "store_ok (NewLeaseStore i)"
  by (simp add: store_ok_def NewLeaseStore_def total_has_def total_wants_def total_subclients_def)

lemma store_Assign_lease [store_simps]:
  "snd (store_Assign s now c len iv h w n) =
     \<lparr>lease_Expiry = time_Add now len, lease_RefreshInterval = iv, lease_Has = h,
      lease_Wants = w, lease_Subclients = n\<rparr>"
  by (simp add: store_Assign_def Let_def)

lemma store_Assign_leases [store_simps]:
  "ls_leases (fst (store_Assign s now c len iv h w n)) =
     map_put (ls_leases s) c (snd (store_Assign s now c len iv h w n))"
  by (simp add: store_Assign_def Let_def)

lemma store_ok_Assign:
  assumes "store_ok s" and "isFinite h" and "isFinite w"
  shows "store_ok (fst (store_Assign s now c len iv h w n))"
proof -
  have d: "distinct_keys (ls_leases s)" and f: "finite_lease (lease_of (ls_leases s) c)"
    using assms(1) by (auto simp: store_ok_def entries_ok_distinct)
  obtain qh qw oh ow where q: "h = Fin qh" "w = Fin qw"
    "lease_Has (lease_of (ls_leases s) c) = Fin oh" "lease_Wants (lease_of (ls_leases s) c) = Fin ow"
    using assms(2,3) f unfolding finite_lease_def isFinite_iff by blast
  let ?l = "snd (store_Assign s now c len iv h w n)"
  have l: "finite_lease ?l" "lease_Has ?l = Fin qh" "lease_Wants ?l = Fin qw" "lease_Subclients ?l = n"
    using assms(2,3) q by (simp_all add: finite_lease_def store_simps)
  have s': "fst (store_Assign s now c len iv h w n) =
      s\<lparr>ls_sumHas := ls_sumHas s + (Fin qh - Fin oh), ls_sumWants := ls_sumWants s + (Fin qw - Fin ow),
        ls_count := ls_count s + (n - lease_Subclients (lease_of (ls_leases s) c)),
        ls_leases := map_put (ls_leases s) c ?l\<rparr>"
    using q by (simp add: store_Assign_def Let_def store_Get_lease_of)
  have "entries_ok (map_put (ls_leases s) c ?l)"
    using assms(1) l(1) by (simp add: store_ok_def entries_ok_put)
  then show ?thesis
    using assms(1) q l unfolding s'
    by (simp add: store_ok_def total_has_put [OF d] total_wants_put [OF d] total_subclients_put [OF d])
qed

lemma store_Release_present:
  "map_of (ls_leases s) c = Some l \<Longrightarrow> store_Release s c =
     s\<lparr>ls_sumWants := ls_sumWants s - lease_Wants l, ls_sumHas := ls_sumHas s - lease_Has l,
       ls_count := ls_count s - lease_Subclients l, ls_leases := map_del (ls_leases s) c\<rparr>"
  by (simp add: store_Release_def)

lemma store_Release_leases [store_simps]:
  "ls_leases (store_Release s c) = map_del (ls_leases s) c"
  by (simp add: store_Release_def sum_map_del_absent split: option.splits)

lemma total_wants_del:
  "distinct_keys es \<Longrightarrow> total_wants (map_del es c) = total_wants es - fval (lease_Wants (lease_of es c))"
  using sum_entries_split [of es "\<lambda>l. fval (lease_Wants l)" c] by (simp add: total_wants_def)

lemma store_ok_Release:
  assumes "store_ok s"
  shows "store_ok (store_Release s c)"
proof (cases "map_of (ls_leases s) c")
  case None
  with assms show ?thesis by (simp add: store_Release_def)
next
  case (Some l)
  have d: "distinct_keys (ls_leases s)" and f: "finite_lease l" and l: "lease_of (ls_leases s) c = l"
    using assms Some entries_ok_lease_of [of "ls_leases s" c]
    by (simp_all add: store_ok_def entries_ok_distinct lease_of_def)
  obtain oh ow where q: "lease_Has l = Fin oh" "lease_Wants l = Fin ow"
    using f unfolding finite_lease_def isFinite_iff by blast
  show ?thesis
    using assms q unfolding store_Release_present [OF Some]
    by (simp add: store_ok_def entries_ok_del l
        total_has_del [OF d] total_wants_del [OF d] total_subclients_del [OF d])
qed

text \<open>The cleaning loop releases exactly the expired entries it visits.\<close>

lemma store_ok_clean_loop: "store_ok s \<Longrightarrow> store_ok (fst (clean_loop now es s n))"
  by (induction now es s n rule: clean_loop.induct) (auto intro: store_ok_Release)

definition expired_keys :: "time \<Rightarrow> (string \<times> Lease) list \<Rightarrow> string set" where
  "expired_keys now es = {c. \<exists>l. (c, l) \<in> set es \<and> After now (lease_Expiry l)}"

lemma map_del_filter: "map_del es c = filter (\<lambda>(k, v). k \<noteq> c) es"
  by (induction es) auto

lemma clean_loop_leases:
  "ls_leases (fst (clean_loop now es s n)) = filter (\<lambda>(c, l). c \<notin> expired_keys now es) (ls_leases s)"
proof (induction now es s n rule: clean_loop.induct)
  case (1 now s n)
  then show ?case by (simp add: expired_keys_def case_prod_unfold)
next
  case (2 now c l es s n)
  show ?case
  proof (cases "After now (lease_Expiry l)")
    case True
    then have "expired_keys now ((c, l) # es) = insert c (expired_keys now es)"
      by (auto simp: expired_keys_def)
    with 2 True show ?thesis
      by (simp add: store_simps map_del_filter case_prod_unfold conj_commute)
  next
    case False
    then have "expired_keys now ((c, l) # es) = expired_keys now es"
      by (auto simp: expired_keys_def)
    with 2 False show ?thesis by simp
  qed
qed

lemma store_Clean_leases [store_simps]:
  assumes "distinct_keys (ls_leases s)"
  shows "ls_leases (fst (store_Clean s now)) = filter (\<lambda>(c, l). \<not> After now (lease_Expiry l)) (ls_leases s)"
  unfolding store_Clean_def clean_loop_leases
proof (rule filter_cong [OF refl], clarify)
  fix c l
  assume "(c, l) \<in> set (ls_leases s)"
  with distinct_keys_unique [OF assms this]
  show "(c \<notin> expired_keys now (ls_leases s)) = (\<not> After now (lease_Expiry l))"
    unfolding expired_keys_def by blast
qed

lemma clean_loop_count:
  "snd (clean_loop now es s n) = n + length (filter (\<lambda>(c, l). After now (lease_Expiry l)) es)"
  by (induction now es s n rule: clean_loop.induct) auto

lemma store_ok_Clean: "store_ok s \<Longrightarrow> store_ok (fst (store_Clean s now))"
  by (simp add: store_Clean_def store_ok_clean_loop)

interpretation impl: lease_store store_ok ls_leases store_SumHas store_SumWants store_Count
    store_Assign store_Release store_Clean
proof unfold_locales
  fix s :: leaseStoreImpl and now len iv h w n c
  assume s: "store_ok s"
  show "entries_ok (ls_leases s)" using s by (simp add: store_ok_def)
  show "store_SumHas s = Fin (total_has (ls_leases s))"
    using s by (simp add: store_ok_def store_SumHas_def)
  show "store_SumWants s = Fin (total_wants (ls_leases s))"
    using s by (simp add: store_ok_def store_SumWants_def)
  show "store_Count s = total_subclients (ls_leases s)"
    using s by (simp add: store_ok_def store_Count_def)
  show "store_ok (store_Release s c)" using s by (rule store_ok_Release)
  show "store_ok (fst (store_Clean s now))" using s by (rule store_ok_Clean)
  show "ls_leases (fst (store_Clean s now)) =
      filter (\<lambda>(c, l). \<not> After now (lease_Expiry l)) (ls_leases s)"
    using s by (simp add: store_simps store_ok_def entries_ok_distinct)
qed (simp_all add: store_simps store_ok_Assign)

end
