(* ===== verification/Messages.thy ===== *)
theory Messages
  imports Go_Time
begin

text \<open>
  The protocol buffer messages of \<open>proto/doorman/doorman.pb.go\<close>. A scalar field of a proto2
  message is a pointer, nil when the field is absent: an option. A message field is a pointer to
  a message: again an option. The generated getters work on a nil message and on an absent
  field, where they return the zero value of the field's type; \<open>pb_get\<close> is their common body.
\<close>

definition pb_get :: "('m \<Rightarrow> 'v option) \<Rightarrow> 'v \<Rightarrow> 'm option \<Rightarrow> 'v" where
  "pb_get field zero x = (case x of None \<Rightarrow> zero
     | Some m \<Rightarrow> (case field m of None \<Rightarrow> zero | Some v \<Rightarrow> v))"

lemma pb_get_simps [simp]:
  "pb_get field zero None = zero"
  "field m = None \<Longrightarrow> pb_get field zero (Some m) = zero"
  "field m = Some v \<Longrightarrow> pb_get field zero (Some m) = v"
  by (simp_all add: pb_get_def)

section \<open>Leases and client requests\<close>

record pb_Lease =
  pbl_ExpiryTime :: "int64 option"
  pbl_RefreshInterval :: "int64 option"
  pbl_Capacity :: "f64 option"

definition Lease_GetExpiryTime :: "pb_Lease option \<Rightarrow> int64" where
  "Lease_GetExpiryTime = pb_get pbl_ExpiryTime 0"

definition Lease_GetRefreshInterval :: "pb_Lease option \<Rightarrow> int64" where
  "Lease_GetRefreshInterval = pb_get pbl_RefreshInterval 0"

definition Lease_GetCapacity :: "pb_Lease option \<Rightarrow> f64" where
  "Lease_GetCapacity = pb_get pbl_Capacity (Fin 0)"

record ResourceRequest =
  rreq_ResourceId :: "string option"
  rreq_Priority :: "int64 option"
  rreq_Has :: "pb_Lease option"
  rreq_Wants :: "f64 option"

definition ResourceRequest_GetResourceId :: "ResourceRequest option \<Rightarrow> string" where
  "ResourceRequest_GetResourceId = pb_get rreq_ResourceId []"

definition ResourceRequest_GetHas :: "ResourceRequest option \<Rightarrow> pb_Lease option" where
  "ResourceRequest_GetHas x = (case x of None \<Rightarrow> None | Some m \<Rightarrow> rreq_Has m)"

definition ResourceRequest_GetWants :: "ResourceRequest option \<Rightarrow> f64" where
  "ResourceRequest_GetWants = pb_get rreq_Wants (Fin 0)"

record GetCapacityRequest =
  gcq_ClientId :: "string option"
  gcq_Resource :: "ResourceRequest list"

definition GetCapacityRequest_GetClientId :: "GetCapacityRequest option \<Rightarrow> string" where
  "GetCapacityRequest_GetClientId = pb_get gcq_ClientId []"

record Mastership =
  ms_MasterAddress :: "string option"

definition Mastership_GetMasterAddress :: "Mastership option \<Rightarrow> string" where
  "Mastership_GetMasterAddress = pb_get ms_MasterAddress []"

record ResourceResponse =
  rrsp_ResourceId :: "string option"
  rrsp_Gets :: "pb_Lease option"
  rrsp_SafeCapacity :: "f64 option"

definition ResourceResponse_GetResourceId :: "ResourceResponse option \<Rightarrow> string" where
  "ResourceResponse_GetResourceId = pb_get rrsp_ResourceId []"

definition ResourceResponse_GetGets :: "ResourceResponse option \<Rightarrow> pb_Lease option" where
  "ResourceResponse_GetGets x = (case x of None \<Rightarrow> None | Some m \<Rightarrow> rrsp_Gets m)"

record GetCapacityResponse =
  gcp_Response :: "ResourceResponse list"
  gcp_Mastership :: "Mastership option"

section \<open>Requests between servers\<close>

record PriorityBandAggregate =
  pba_Priority :: "int64 option"
  pba_NumClients :: "int64 option"
  pba_Wants :: "f64 option"

definition PriorityBandAggregate_GetNumClients :: "PriorityBandAggregate option \<Rightarrow> int64" where
  "PriorityBandAggregate_GetNumClients = pb_get pba_NumClients 0"

definition PriorityBandAggregate_GetWants :: "PriorityBandAggregate option \<Rightarrow> f64" where
  "PriorityBandAggregate_GetWants = pb_get pba_Wants (Fin 0)"

record ServerCapacityResourceRequest =
  scq_ResourceId :: "string option"
  scq_Has :: "pb_Lease option"
  scq_Wants :: "PriorityBandAggregate list"

definition ServerCapacityResourceRequest_GetResourceId ::
    "ServerCapacityResourceRequest option \<Rightarrow> string" where
  "ServerCapacityResourceRequest_GetResourceId = pb_get scq_ResourceId []"

definition ServerCapacityResourceRequest_GetHas ::
    "ServerCapacityResourceRequest option \<Rightarrow> pb_Lease option" where
  "ServerCapacityResourceRequest_GetHas x = (case x of None \<Rightarrow> None | Some m \<Rightarrow> scq_Has m)"

record GetServerCapacityRequest =
  gsq_ServerId :: "string option"
  gsq_Resource :: "ServerCapacityResourceRequest list"

definition GetServerCapacityRequest_GetServerId ::
    "GetServerCapacityRequest option \<Rightarrow> string" where
  "GetServerCapacityRequest_GetServerId = pb_get gsq_ServerId []"

record ReleaseCapacityRequest =
  rcq_ClientId :: "string option"
  rcq_ResourceId :: "string list"

definition ReleaseCapacityRequest_GetClientId :: "ReleaseCapacityRequest option \<Rightarrow> string" where
  "ReleaseCapacityRequest_GetClientId = pb_get rcq_ClientId []"

record ReleaseCapacityResponse =
  rcp_Mastership :: "Mastership option"

record DiscoveryResponse =
  dsp_Mastership :: "Mastership option"
  dsp_IsMaster :: "bool option"

section \<open>Configuration\<close>

text \<open>An \<open>Algorithm_Kind\<close> is an \<open>int32\<close>; a decoder may produce values without a name.\<close>

type_synonym Algorithm_Kind = "32 word"

definition Algorithm_NO_ALGORITHM :: Algorithm_Kind where "Algorithm_NO_ALGORITHM = 0"
definition Algorithm_STATIC :: Algorithm_Kind where "Algorithm_STATIC = 1"
definition Algorithm_PROPORTIONAL_SHARE :: Algorithm_Kind where "Algorithm_PROPORTIONAL_SHARE = 2"
definition Algorithm_FAIR_SHARE :: Algorithm_Kind where "Algorithm_FAIR_SHARE = 3"

lemmas Algorithm_Kind_defs =
  Algorithm_NO_ALGORITHM_def Algorithm_STATIC_def Algorithm_PROPORTIONAL_SHARE_def
  Algorithm_FAIR_SHARE_def

record NamedParameter =
  np_Name :: "string option"
  np_Value :: "string option"

record pb_Algorithm =
  alg_Kind :: "Algorithm_Kind option"
  alg_LeaseLength :: "int64 option"
  alg_RefreshInterval :: "int64 option"
  alg_Parameters :: "NamedParameter list"
  alg_LearningModeDuration :: "int64 option"

definition Algorithm_GetKind :: "pb_Algorithm option \<Rightarrow> Algorithm_Kind" where
  "Algorithm_GetKind = pb_get alg_Kind Algorithm_NO_ALGORITHM"

definition Algorithm_GetLeaseLength :: "pb_Algorithm option \<Rightarrow> int64" where
  "Algorithm_GetLeaseLength = pb_get alg_LeaseLength 0"

definition Algorithm_GetRefreshInterval :: "pb_Algorithm option \<Rightarrow> int64" where
  "Algorithm_GetRefreshInterval = pb_get alg_RefreshInterval 0"

definition Algorithm_GetLearningModeDuration :: "pb_Algorithm option \<Rightarrow> int64" where
  "Algorithm_GetLearningModeDuration = pb_get alg_LearningModeDuration 0"

record ResourceTemplate =
  tpl_IdentifierGlob :: "string option"
  tpl_Capacity :: "f64 option"
  tpl_Algorithm :: "pb_Algorithm option"
  tpl_SafeCapacity :: "f64 option"
  tpl_Description :: "string option"

definition ResourceTemplate_GetIdentifierGlob :: "ResourceTemplate option \<Rightarrow> string" where
  "ResourceTemplate_GetIdentifierGlob = pb_get tpl_IdentifierGlob []"

definition ResourceTemplate_GetCapacity :: "ResourceTemplate option \<Rightarrow> f64" where
  "ResourceTemplate_GetCapacity = pb_get tpl_Capacity (Fin 0)"

definition ResourceTemplate_GetAlgorithm :: "ResourceTemplate option \<Rightarrow> pb_Algorithm option" where
  "ResourceTemplate_GetAlgorithm x = (case x of None \<Rightarrow> None | Some m \<Rightarrow> tpl_Algorithm m)"

definition ResourceTemplate_GetSafeCapacity :: "ResourceTemplate option \<Rightarrow> f64" where
  "ResourceTemplate_GetSafeCapacity = pb_get tpl_SafeCapacity (Fin 0)"

record ResourceRepository =
  repo_Resources :: "ResourceTemplate list"

record ServerCapacityResourceResponse =
  scp_ResourceId :: "string option"
  scp_Gets :: "pb_Lease option"
  scp_Algorithm :: "pb_Algorithm option"
  scp_SafeCapacity :: "f64 option"

definition ServerCapacityResourceResponse_GetResourceId ::
    "ServerCapacityResourceResponse option \<Rightarrow> string" where
  "ServerCapacityResourceResponse_GetResourceId = pb_get scp_ResourceId []"

definition ServerCapacityResourceResponse_GetGets ::
    "ServerCapacityResourceResponse option \<Rightarrow> pb_Lease option" where
  "ServerCapacityResourceResponse_GetGets x = (case x of None \<Rightarrow> None | Some m \<Rightarrow> scp_Gets m)"

definition ServerCapacityResourceResponse_GetAlgorithm ::
    "ServerCapacityResourceResponse option \<Rightarrow> pb_Algorithm option" where
  "ServerCapacityResourceResponse_GetAlgorithm x =
     (case x of None \<Rightarrow> None | Some m \<Rightarrow> scp_Algorithm m)"

definition ServerCapacityResourceResponse_GetSafeCapacity ::
    "ServerCapacityResourceResponse option \<Rightarrow> f64" where
  "ServerCapacityResourceResponse_GetSafeCapacity = pb_get scp_SafeCapacity (Fin 0)"

record GetServerCapacityResponse =
  gsp_Response :: "ServerCapacityResourceResponse list"
  gsp_Mastership :: "Mastership option"

lemmas getter_defs =
  Lease_GetExpiryTime_def Lease_GetRefreshInterval_def Lease_GetCapacity_def
  ResourceRequest_GetResourceId_def ResourceRequest_GetHas_def ResourceRequest_GetWants_def
  GetCapacityRequest_GetClientId_def Mastership_GetMasterAddress_def
  ResourceResponse_GetResourceId_def ResourceResponse_GetGets_def
  PriorityBandAggregate_GetNumClients_def PriorityBandAggregate_GetWants_def
  ServerCapacityResourceRequest_GetResourceId_def ServerCapacityResourceRequest_GetHas_def
  GetServerCapacityRequest_GetServerId_def ReleaseCapacityRequest_GetClientId_def
  Algorithm_GetKind_def Algorithm_GetLeaseLength_def Algorithm_GetRefreshInterval_def
  Algorithm_GetLearningModeDuration_def
  ResourceTemplate_GetIdentifierGlob_def ResourceTemplate_GetCapacity_def
  ResourceTemplate_GetAlgorithm_def ResourceTemplate_GetSafeCapacity_def
  ServerCapacityResourceResponse_GetResourceId_def ServerCapacityResourceResponse_GetGets_def
  ServerCapacityResourceResponse_GetAlgorithm_def ServerCapacityResourceResponse_GetSafeCapacity_def

end
