(* ===== verification/Algorithms.thy ===== *)
theory Algorithms
  imports Lease_Store Messages
begin

text \<open>
  The capacity algorithms (\<open>go/server/doorman/algorithm.go\<close>). An algorithm reads the lease
  store of a resource and assigns one lease. The definitions follow the code branch by branch,
  on \<open>float64\<close> values with their infinities and NaN. The locale \<open>algorithm\<close> is the contract
  every algorithm meets (one \<open>Assign\<close> for the requesting client and nothing else);
  \<open>capped_algorithm\<close> adds the promise of the two sharing algorithms never to hand out more than
  the capacity that is left.
\<close>

section \<open>The code\<close>

record Request =
  req_Client :: string
  req_Has :: f64
  req_Wants :: f64
  req_Subclients :: int64

type_synonym Algorithm = "leaseStoreImpl \<Rightarrow> time \<Rightarrow> f64 \<Rightarrow> Request \<Rightarrow> leaseStoreImpl \<times> Lease"

definition getAlgorithmParams :: "pb_Algorithm option \<Rightarrow> duration \<times> duration" where
  "getAlgorithmParams config =
     (seconds (Algorithm_GetLeaseLength config), seconds (Algorithm_GetRefreshInterval config))"

definition minF :: "f64 \<Rightarrow> f64 \<Rightarrow> f64" where
  "minF left right = (if right < left then right else left)"

definition maxF :: "f64 \<Rightarrow> f64 \<Rightarrow> f64" where
  "maxF left right = (if right < left then left else right)"

definition NoAlgorithm :: "pb_Algorithm option \<Rightarrow> Algorithm" where
  "NoAlgorithm config = (let (length, interval) = getAlgorithmParams config in (
     \<lambda>store now capacity r.
       store_Assign store now (req_Client r) length interval (req_Wants r) (req_Wants r) (req_Subclients r)))"

definition Static :: "pb_Algorithm option \<Rightarrow> Algorithm" where
  "Static config = (let (length, interval) = getAlgorithmParams config in (
     \<lambda>store now capacity r.
       store_Assign store now (req_Client r) length interval (minF capacity (req_Wants r)) (req_Wants r)
         (req_Subclients r)))"

text \<open>
  The function \<open>FairShare\<close> hands to \<open>store.Map\<close>: it adds up the capacity other clients leave
  (\<open>extra\<close>), the subclients that want more than their share (\<open>wantExtra\<close>) and collects the
  leases of the latter (\<open>wantExtraClients\<close>).
\<close>

definition fs_round1 :: "string \<Rightarrow> f64 \<Rightarrow> string \<Rightarrow> Lease \<Rightarrow> f64 \<times> int64 \<times> (string \<times> Lease) list
    \<Rightarrow> f64 \<times> int64 \<times> (string \<times> Lease) list" where
  "fs_round1 client equalShare i lease = (\<lambda>(extra, wantExtra, wantExtraClients).
     if i = client then (extra, wantExtra, wantExtraClients)
     else let deserved = float64 (lease_Subclients lease) * equalShare in
       if lease_Wants lease < deserved
       then (extra + (deserved - lease_Wants lease), wantExtra, wantExtraClients)
       else if deserved < lease_Wants lease
       then (extra, wantExtra + lease_Subclients lease, map_put wantExtraClients i lease)
       else (extra, wantExtra, wantExtraClients))"

text \<open>The body of the loop over \<open>wantExtraClients\<close> in the second round.\<close>

definition fs_round2 :: "string \<Rightarrow> f64 \<Rightarrow> f64 \<Rightarrow> string \<times> Lease \<Rightarrow> int64 \<times> f64 \<Rightarrow> int64 \<times> f64" where
  "fs_round2 client deservedExtra deservedShare = (\<lambda>(i, lease) (wantExtraExtra, extraExtra).
     if i = client then (wantExtraExtra, extraExtra)
     else if lease_Wants lease < deservedExtra + deservedShare
     then (wantExtraExtra, extraExtra + (deservedExtra + deservedShare - lease_Wants lease))
     else if deservedExtra + deservedShare < lease_Wants lease
     then (wantExtraExtra + lease_Subclients lease, extraExtra)
     else (wantExtraExtra, extraExtra))"

definition FairShare :: "pb_Algorithm option \<Rightarrow> Algorithm" where
  "FairShare config = (let (length, interval) = getAlgorithmParams config in (
     \<lambda>store now capacity r.
       let old = store_Get store (req_Client r);
           count = store_Count store - lease_Subclients old + req_Subclients r;
           available = capacity - store_SumHas store + lease_Has old;
           equalShare = capacity / float64 count;
           deservedShare = equalShare * float64 (req_Subclients r)
       in if req_Wants r \<le> deservedShare
          then store_Assign store now (req_Client r) length interval (minF (req_Wants r) available)
                 (req_Wants r) (req_Subclients r)
          else
            let (extra, wantExtra, wantExtraClients) =
                  store_Map (fs_round1 (req_Client r) equalShare) store (Fin 0, req_Subclients r, []);
                deservedExtra = (extra / float64 wantExtra) * float64 (req_Subclients r)
            in if req_Wants r < deservedShare + deservedExtra
               then store_Assign store now (req_Client r) length interval (minF (req_Wants r) available)
                      (req_Wants r) (req_Subclients r)
               else
                 let (wantExtraExtra, extraExtra) =
                       fold (fs_round2 (req_Client r) deservedExtra deservedShare) wantExtraClients
                         (req_Subclients r, Fin 0);
                     deservedExtraExtra = (extraExtra / float64 wantExtraExtra) * float64 (req_Subclients r)
                 in store_Assign store now (req_Client r) length interval
                      (minF (deservedShare + deservedExtra + deservedExtraExtra) available)
                      (req_Wants r) (req_Subclients r)))"

text \<open>The function \<open>ProportionalShare\<close> hands to \<open>store.Map\<close>.\<close>

definition ps_round :: "Request \<Rightarrow> f64 \<Rightarrow> string \<Rightarrow> Lease \<Rightarrow> f64 \<times> f64 \<Rightarrow> f64 \<times> f64" where
  "ps_round r equalShare i lease = (\<lambda>(extraCapacity, extraNeed).
     let (wants, subclients) =
           (if i = req_Client r then (req_Wants r, req_Subclients r)
            else (lease_Wants lease, lease_Subclients lease));
         equalSharePerClient = equalShare * float64 subclients
     in if wants < equalSharePerClient
        then (extraCapacity + (equalSharePerClient - wants), extraNeed)
        else (extraCapacity, extraNeed + (wants - equalSharePerClient)))"

definition ProportionalShare :: "pb_Algorithm option \<Rightarrow> Algorithm" where
  "ProportionalShare config = (let (length, interval) = getAlgorithmParams config in (
     \<lambda>store now capacity r.
       let old = store_Get store (req_Client r);
           count = (if \<not> store_HasClient store (req_Client r)
                    then store_Count store + req_Subclients r else store_Count store);
           equalShare = capacity / float64 count;
           equalSharePerClient = equalShare * float64 (req_Subclients r);
           unusedCapacity = capacity - store_SumHas store + lease_Has old
       in if store_SumWants store \<le> capacity \<or> req_Wants r \<le> equalSharePerClient
          then store_Assign store now (req_Client r) length interval (minF (req_Wants r) unusedCapacity)
                 (req_Wants r) (req_Subclients r)
          else
            let (extraCapacity, extraNeed) = store_Map (ps_round r equalShare) store (Fin 0, Fin 0);
                gets = equalSharePerClient + (req_Wants r - equalSharePerClient) * (extraCapacity / extraNeed)
            in store_Assign store now (req_Client r) length interval (minF gets unusedCapacity)
                 (req_Wants r) (req_Subclients r)))"

definition Learn :: "pb_Algorithm option \<Rightarrow> Algorithm" where
  "Learn config = (let (length, interval) = getAlgorithmParams config in (
     \<lambda>store now capacity r.
       store_Assign store now (req_Client r) length interval (req_Has r) (req_Wants r) (req_Subclients r)))"

definition algorithms :: "(Algorithm_Kind \<times> (pb_Algorithm option \<Rightarrow> Algorithm)) list" where
  "algorithms =
     [(Algorithm_NO_ALGORITHM, NoAlgorithm),
      (Algorithm_STATIC, Static),
      (Algorithm_PROPORTIONAL_SHARE, ProportionalShare),
      (Algorithm_FAIR_SHARE, FairShare)]"

text \<open>A kind that is not in the table reads as a nil function, and calling it panics.\<close>

definition GetAlgorithm :: "pb_Algorithm option \<Rightarrow> panic + Algorithm" where
  "GetAlgorithm config = (case map_of algorithms (Algorithm_GetKind config) of
       None \<Rightarrow> Inl NilFunctionCall
     | Some f \<Rightarrow> Inr (f config))"

lemma Algorithm_Kinds_distinct:
  "distinct [Algorithm_NO_ALGORITHM, Algorithm_STATIC, Algorithm_PROPORTIONAL_SHARE, Algorithm_FAIR_SHARE]"
  by (simp add: Algorithm_Kind_defs)

lemma algorithms_lookup [simp]:
  "map_of algorithms Algorithm_NO_ALGORITHM = Some NoAlgorithm"
  "map_of algorithms Algorithm_STATIC = Some Static"
  "map_of algorithms Algorithm_PROPORTIONAL_SHARE = Some ProportionalShare"
  "map_of algorithms Algorithm_FAIR_SHARE = Some FairShare"
  using Algorithm_Kinds_distinct by (auto simp: algorithms_def)

lemma algorithms_unknown:
  "map_of algorithms k = None \<longleftrightarrow>
     k \<notin> {Algorithm_NO_ALGORITHM, Algorithm_STATIC, Algorithm_PROPORTIONAL_SHARE, Algorithm_FAIR_SHARE}"
  by (auto simp: algorithms_def)

section \<open>The contract of an algorithm\<close>

locale algorithm =
  fixes alg :: "pb_Algorithm option \<Rightarrow> Algorithm"
  assumes alg_assign: "alg config s now cap r =
      store_Assign s now (req_Client r) (seconds (Algorithm_GetLeaseLength config))
        (seconds (Algorithm_GetRefreshInterval config))
        (lease_Has (snd (alg config s now cap r))) (req_Wants r) (req_Subclients r)"
begin

lemma alg_lease:
  "snd (alg config s now cap r) =
     \<lparr>lease_Expiry = time_Add now (seconds (Algorithm_GetLeaseLength config)),
      lease_RefreshInterval = seconds (Algorithm_GetRefreshInterval config),
      lease_Has = lease_Has (snd (alg config s now cap r)),
      lease_Wants = req_Wants r, lease_Subclients = req_Subclients r\<rparr>"
  by (subst alg_assign) (simp add: store_simps)

lemma alg_entries:
  "ls_leases (fst (alg config s now cap r)) =
     map_put (ls_leases s) (req_Client r) (snd (alg config s now cap r))"
  by (subst (1 2) alg_assign) (simp add: store_simps)

text \<open>Only the requesting client's lease changes.\<close>

lemma alg_frame:
  "c \<noteq> req_Client r \<Longrightarrow> map_of (ls_leases (fst (alg config s now cap r))) c = map_of (ls_leases s) c"
  by (simp add: alg_entries map_of_put)

lemma alg_ok:
  "store_ok s \<Longrightarrow> isFinite (req_Wants r) \<Longrightarrow> isFinite (lease_Has (snd (alg config s now cap r))) \<Longrightarrow>
     store_ok (fst (alg config s now cap r))"
  by (subst alg_assign) (rule impl.ok_assign)

end

lemmas algorithm_code_defs =
  NoAlgorithm_def Static_def FairShare_def ProportionalShare_def Learn_def getAlgorithmParams_def

interpretation no_algorithm: algorithm NoAlgorithm
  by unfold_locales (simp add: algorithm_code_defs store_simps)

interpretation static: algorithm Static
  by unfold_locales (simp add: algorithm_code_defs store_simps)

interpretation learn: algorithm Learn
  by unfold_locales (simp add: algorithm_code_defs store_simps)

interpretation proportional_share: algorithm ProportionalShare
  by unfold_locales (simp add: algorithm_code_defs store_simps Let_def split: prod.split)

interpretation fair_share: algorithm FairShare
  by unfold_locales (simp add: algorithm_code_defs store_simps Let_def split: prod.split)

end
