(* ===== verification/Algorithm_Spec.thy ===== *)
theory Algorithm_Spec
  imports Algorithms
begin

text \<open>
  What the two sharing algorithms compute, stated over exact rationals and plain sums (no maps,
  no iteration order, no machine integers), and the proof that the code of \<open>Algorithms\<close>
  computes it whenever capacities are finite and the subclient counts are positive and do not
  overflow an \<open>int64\<close> (\<open>counts_ok\<close>).
\<close>

section \<open>Specification\<close>

abbreviation n_of :: "Lease \<Rightarrow> int" where "n_of l \<equiv> sint (lease_Subclients l)"
abbreviation w_of :: "Lease \<Rightarrow> rat" where "w_of l \<equiv> fval (lease_Wants l)"

definition int_subclients :: "(string \<times> Lease) list \<Rightarrow> int" where
  "int_subclients es = sum_list (map (\<lambda>(c, l). n_of l) es)"

text \<open>Capacity that clients leave on the table at an equal share \<open>eq\<close> per subclient.\<close>

definition slack :: "rat \<Rightarrow> (string \<times> Lease) list \<Rightarrow> rat" where
  "slack eq os = sum_list (map (\<lambda>(c, l). max 0 (of_int (n_of l) * eq - w_of l)) os)"

text \<open>Subclients of the clients that want more than their equal share.\<close>

definition hungry :: "rat \<Rightarrow> (string \<times> Lease) list \<Rightarrow> int" where
  "hungry eq os = sum_list (map (\<lambda>(c, l). if of_int (n_of l) * eq < w_of l then n_of l else 0) os)"

text \<open>Second round, among the hungry clients: those below and above the first-round target.\<close>

definition slack2 :: "rat \<Rightarrow> rat \<Rightarrow> (string \<times> Lease) list \<Rightarrow> rat" where
  "slack2 eq target os =
     sum_list (map (\<lambda>(c, l). if of_int (n_of l) * eq < w_of l then max 0 (target - w_of l) else 0) os)"

definition hungry2 :: "rat \<Rightarrow> rat \<Rightarrow> (string \<times> Lease) list \<Rightarrow> int" where
  "hungry2 eq target os =
     sum_list (map (\<lambda>(c, l). if of_int (n_of l) * eq < w_of l \<and> target < w_of l then n_of l else 0) os)"

text \<open>
  The grant for a client with \<open>n\<close> subclients that wants \<open>w\<close>, when the other clients hold the
  leases \<open>os\<close> and \<open>avail\<close> is what is left of the capacity \<open>cap\<close>.
\<close>

definition fair_share_target :: "rat \<Rightarrow> (string \<times> Lease) list \<Rightarrow> rat \<Rightarrow> int \<Rightarrow> rat" where
  "fair_share_target cap os w n =
     (let eq = cap / of_int (int_subclients os + n);
          d = eq * of_int n;
          e = slack eq os / of_int (n + hungry eq os) * of_int n;
          ee = slack2 eq (e + d) os / of_int (n + hungry2 eq (e + d) os) * of_int n
      in if w \<le> d \<or> w < d + e then w else d + e + ee)"

definition fair_share_spec :: "rat \<Rightarrow> (string \<times> Lease) list \<Rightarrow> rat \<Rightarrow> int \<Rightarrow> rat \<Rightarrow> rat" where
  "fair_share_spec cap os w n avail = min (fair_share_target cap os w n) avail"

definition counts_ok :: "leaseStoreImpl \<Rightarrow> Request \<Rightarrow> bool" where
  "counts_ok s r = (list_all (\<lambda>(c, l). 1 \<le> n_of l) (ls_leases s) \<and> 1 \<le> sint (req_Subclients r)
     \<and> int_subclients (ls_leases s) + sint (req_Subclients r) < 2 ^ 63)"

text \<open>What is left of the capacity for a client, once its old lease is taken back.\<close>

definition left_over :: "leaseStoreImpl \<Rightarrow> rat \<Rightarrow> string \<Rightarrow> rat" where
  "left_over s cap c = cap - total_has (ls_leases s) + fval (lease_Has (lease_of (ls_leases s) c))"

section \<open>Facts about the sums\<close>

lemma sums_Nil [simp]:
  "int_subclients [] = 0" "slack eq [] = 0" "hungry eq [] = 0" "slack2 eq t [] = 0" "hungry2 eq t [] = 0"
  by (simp_all add: int_subclients_def slack_def hungry_def slack2_def hungry2_def)

lemma sums_Cons [simp]:
  "int_subclients ((c, l) # os) = n_of l + int_subclients os"
  "slack eq ((c, l) # os) = max 0 (of_int (n_of l) * eq - w_of l) + slack eq os"
  "hungry eq ((c, l) # os) = (if of_int (n_of l) * eq < w_of l then n_of l else 0) + hungry eq os"
  "slack2 eq t ((c, l) # os) =
     (if of_int (n_of l) * eq < w_of l then max 0 (t - w_of l) else 0) + slack2 eq t os"
  "hungry2 eq t ((c, l) # os) =
     (if of_int (n_of l) * eq < w_of l \<and> t < w_of l then n_of l else 0) + hungry2 eq t os"
  by (simp_all add: int_subclients_def slack_def hungry_def slack2_def hungry2_def)

lemma slack_nonneg: "0 \<le> slack eq os"
  by (induction os) auto

lemma slack2_nonneg: "0 \<le> slack2 eq t os"
  by (induction os) auto

lemma hungry_bounds:
  assumes "list_all (\<lambda>(c, l). 1 \<le> n_of l) os"
  shows "0 \<le> hungry2 eq t os \<and> hungry2 eq t os \<le> hungry eq os \<and> hungry eq os \<le> int_subclients os"
  using assms by (induction os) auto

lemma sums_mset:
  assumes "mset os = mset os'"
  shows "int_subclients os = int_subclients os'" "slack eq os = slack eq os'"
    "hungry eq os = hungry eq os'" "slack2 eq t os = slack2 eq t os'"
    "hungry2 eq t os = hungry2 eq t os'"
  unfolding int_subclients_def slack_def hungry_def slack2_def hungry2_def
  by (rule sum_list_map_mset [OF assms])+

lemma int_subclients_split:
  "distinct_keys es \<Longrightarrow>
     n_of (lease_of es c) + int_subclients (map_del es c) = int_subclients es"
  using sum_entries_split [of es n_of c] by (simp add: int_subclients_def)

lemma float64_word_of_int:
  "- (2 ^ 63) \<le> m \<Longrightarrow> m < 2 ^ 63 \<Longrightarrow> float64 (word_of_int m) = Fin (of_int m)"
  by (simp add: float64_def sint64_of_int)

section \<open>The loops compute the sums\<close>

lemma entries_ok_Cons:
  "entries_ok ((c, l) # es) \<longleftrightarrow> c \<notin> fst ` set es \<and> finite_lease l \<and> entries_ok es"
  by (auto simp: entries_ok_def)

lemma fs_round1_step:
  assumes "lease_Wants l = Fin w"
  shows "fs_round1 c (Fin eq) i l (Fin x, k, cl) =
    (if i = c then (Fin x, k, cl)
     else if w < of_int (n_of l) * eq then (Fin (x + (of_int (n_of l) * eq - w)), k, cl)
     else if of_int (n_of l) * eq < w then (Fin x, k + lease_Subclients l, map_put cl i l)
     else (Fin x, k, cl))"
  using assms by (simp add: fs_round1_def Let_def float64_def)

lemma fs_round2_step:
  assumes "lease_Wants l = Fin w"
  shows "fs_round2 c (Fin e) (Fin d) (i, l) (k, Fin x) =
    (if i = c then (k, Fin x)
     else if w < e + d then (k, Fin (x + (e + d - w)))
     else if e + d < w then (k + lease_Subclients l, Fin x)
     else (k, Fin x))"
  using assms by (simp add: fs_round2_def)

lemma fs_round1_fold:
  assumes "entries_ok es" and "\<forall>k \<in> fst ` set es. map_of cl k = None"
  shows "fold (\<lambda>(i, l). fs_round1 c (Fin eq) i l) es (Fin x, word_of_int k, cl) =
    (Fin (x + slack eq (map_del es c)), word_of_int (k + hungry eq (map_del es c)),
     cl @ filter (\<lambda>(i, l). of_int (n_of l) * eq < w_of l) (map_del es c))"
  using assms
proof (induction es arbitrary: x k cl)
  case Nil
  then show ?case by simp
next
  case (Cons e es)
  obtain i l where e: "e = (i, l)" by force
  have ok: "entries_ok es" and fresh: "i \<notin> fst ` set es" and fin: "finite_lease l"
    using Cons.prems(1) by (simp_all add: e entries_ok_Cons)
  obtain w where w: "lease_Wants l = Fin w" using fin unfolding finite_lease_def isFinite_iff by blast
  have cl: "map_of cl i = None" and cl': "\<forall>k \<in> fst ` set es. map_of cl k = None"
    using Cons.prems(2) by (simp_all add: e)
  have cl2: "\<forall>k \<in> fst ` set es. map_of (cl @ [(i, l)]) k = None"
    using cl' fresh by (auto simp: map_add_def split: option.splits)
  show ?case
    using Cons.IH [OF ok cl', of x k] Cons.IH [OF ok cl2, of x "k + n_of l"]
      Cons.IH [OF ok cl', of "x + (of_int (n_of l) * eq - w)" k]
    by (simp add: e w fs_round1_step map_put_fresh [OF cl] add.assoc)
qed

lemma fs_round2_fold:
  assumes "entries_ok es" and "c \<notin> fst ` set es"
  shows "fold (fs_round2 c (Fin e) (Fin d)) (filter (\<lambda>(i, l). of_int (n_of l) * eq < w_of l) es)
       (word_of_int k, Fin x) =
    (word_of_int (k + hungry2 eq (e + d) es), Fin (x + slack2 eq (e + d) es))"
  using assms
proof (induction es arbitrary: x k)
  case Nil
  then show ?case by simp
next
  case (Cons a es)
  obtain i l where a: "a = (i, l)" by force
  have ok: "entries_ok es" and fin: "finite_lease l"
    using Cons.prems(1) by (simp_all add: a entries_ok_Cons)
  have ic: "i \<noteq> c" and c: "c \<notin> fst ` set es" using Cons.prems(2) by (auto simp: a)
  obtain w where w: "lease_Wants l = Fin w" using fin unfolding finite_lease_def isFinite_iff by blast
  show ?case
    using Cons.IH [OF ok c, of k x] Cons.IH [OF ok c, of "k + n_of l" x]
      Cons.IH [OF ok c, of k "x + (e + d - w)"] ic
    by (simp add: a w fs_round2_step add.assoc)
qed

section \<open>FairShare refines its specification\<close>

lemma total_subclients_int: "total_subclients es = word_of_int (int_subclients es)"
  by (induction es) (auto simp: total_subclients_def)

lemma counts_okD:
  assumes "counts_ok s r" and "distinct_keys (ls_leases s)"
  defines "os \<equiv> map_del (ls_leases s) (req_Client r)"
  shows "list_all (\<lambda>(c, l). 1 \<le> n_of l) os" "1 \<le> sint (req_Subclients r)"
    "0 \<le> int_subclients os" "int_subclients os + sint (req_Subclients r) < 2 ^ 63"
    "0 \<le> n_of (lease_of (ls_leases s) (req_Client r))"
    "n_of (lease_of (ls_leases s) (req_Client r)) + int_subclients os = int_subclients (ls_leases s)"
proof -
  have all: "list_all (\<lambda>(c, l). 1 \<le> n_of l) (ls_leases s)"
    and n: "1 \<le> sint (req_Subclients r)"
    and b: "int_subclients (ls_leases s) + sint (req_Subclients r) < 2 ^ 63"
    using assms(1) by (simp_all add: counts_ok_def)
  show os: "list_all (\<lambda>(c, l). 1 \<le> n_of l) os"
    using all set_map_del [where m = "ls_leases s" and k = "req_Client r"]
    by (fastforce simp: list_all_iff os_def)
  show "0 \<le> int_subclients os" using hungry_bounds [OF os] by force
  show old: "0 \<le> n_of (lease_of (ls_leases s) (req_Client r))"
    using all by (fastforce simp: lease_of_def list_all_iff split: option.splits dest: map_of_SomeD)
  show sp: "n_of (lease_of (ls_leases s) (req_Client r)) + int_subclients os = int_subclients (ls_leases s)"
    using int_subclients_split [OF assms(2)] by (simp add: os_def)
  show "int_subclients os + sint (req_Subclients r) < 2 ^ 63" using old sp b by linarith
qed (use assms(1) in \<open>simp add: counts_ok_def\<close>)

lemma minF_Fin [simp]: "minF (Fin a) (Fin b) = Fin (min a b)"
  by (simp add: minF_def min_def)

text \<open>The quantities the code computes before its first comparison.\<close>

lemma fs_count:
  assumes "store_ok s" and "counts_ok s r"
  shows "float64 (store_Count s - lease_Subclients (store_Get s (req_Client r)) + req_Subclients r) =
    Fin (of_int (int_subclients (map_del (ls_leases s) (req_Client r)) + sint (req_Subclients r)))"
proof -
  let ?os = "map_del (ls_leases s) (req_Client r)"
  have d: "distinct_keys (ls_leases s)" using assms(1) by (rule impl.ok_distinct)
  have "store_Count s - lease_Subclients (store_Get s (req_Client r)) = total_subclients ?os"
    by (simp add: impl.ok_count [OF assms(1)] total_subclients_del [OF d] store_Get_lease_of)
  then have w: "store_Count s - lease_Subclients (store_Get s (req_Client r)) + req_Subclients r =
      word_of_int (int_subclients ?os + sint (req_Subclients r))"
    by (simp add: total_subclients_int)
  show ?thesis
    unfolding w using counts_okD [OF assms(2) d] by (intro float64_word_of_int) linarith+
qed

lemma available_Fin:
  assumes "store_ok s"
  shows "Fin cap - store_SumHas s + lease_Has (store_Get s c) =
    Fin (left_over s cap c)"
proof -
  have "isFinite (lease_Has (lease_of (ls_leases s) c))"
    using impl.ok_entries [OF assms] by (simp add: finite_leaseD)
  then obtain oh where "lease_Has (lease_of (ls_leases s) c) = Fin oh"
    unfolding isFinite_iff by blast
  then show ?thesis by (simp add: impl.ok_sumHas [OF assms] store_Get_lease_of left_over_def)
qed

lemma fair_share_grant:
  assumes ok: "store_ok s" and cnt: "counts_ok s r" and w: "req_Wants r = Fin w"
  defines "os \<equiv> map_del (ls_leases s) (req_Client r)"
  shows "lease_Has (snd (FairShare config s now (Fin cap) r)) =
    Fin (fair_share_spec cap os w (sint (req_Subclients r)) (left_over s cap (req_Client r)))"
proof -
  let ?c = "req_Client r" and ?n = "sint (req_Subclients r)"
  have d: "distinct_keys (ls_leases s)" using ok by (rule impl.ok_distinct)
  have eok: "entries_ok os" using impl.ok_entries [OF ok] by (auto simp: os_def)
  note c = counts_okD [OF cnt d, folded os_def]
  define eq where "eq = cap / of_int (int_subclients os + ?n)"
  define ds where "ds = eq * of_int ?n"
  define de where "de = slack eq os / of_int (?n + hungry eq os) * of_int ?n"
  have n_word: "req_Subclients r = word_of_int ?n" by simp
  have hb: "0 \<le> hungry2 eq t os" "hungry2 eq t os \<le> hungry eq os" "hungry eq os \<le> int_subclients os" for t
    using hungry_bounds [OF c(1)] by blast+
  have hf: "float64 (word_of_int (?n + hungry eq os)) = Fin (of_int (?n + hungry eq os))"
    "float64 (word_of_int (?n + hungry2 eq t os)) = Fin (of_int (?n + hungry2 eq t os))" for t
    using hb(1) [of t] hb(2) [of t] hb(3) c(2-4) by (intro float64_word_of_int; linarith)+
  have pos: "of_int (int_subclients os + ?n) \<noteq> (0 :: rat)" "of_int (?n + hungry eq os) \<noteq> (0 :: rat)"
    "of_int (?n + hungry2 eq t os) \<noteq> (0 :: rat)" for t
    unfolding of_int_eq_0_iff using hb(1) [of t] hb(2) [of t] hb(3) c(2-4) by linarith+
  have fn: "float64 (req_Subclients r) = Fin (of_int ?n)" by (simp add: float64_def)
  have m1: "store_Map (fs_round1 ?c (Fin eq)) s (Fin 0, req_Subclients r, []) =
      (Fin (slack eq os), word_of_int (?n + hungry eq os),
       filter (\<lambda>(i, l). of_int (n_of l) * eq < w_of l) os)"
    using fs_round1_fold [OF impl.ok_entries [OF ok], where cl = "[]" and c = ?c and eq = eq and x = 0 and k = ?n]
    by (simp add: store_Map_def os_def)
  have "?c \<notin> fst ` set os" by (simp add: os_def AList.delete_notin_dom)
  then have m2: "fold (fs_round2 ?c (Fin de) (Fin ds))
      (filter (\<lambda>(i, l). of_int (n_of l) * eq < w_of l) os) (req_Subclients r, Fin 0) =
      (word_of_int (?n + hungry2 eq (de + ds) os), Fin (slack2 eq (de + ds) os))"
    using fs_round2_fold [OF eok, where c = ?c and e = de and d = ds and eq = eq and k = ?n and x = 0] by simp
  define dee where
    "dee = slack2 eq (de + ds) os / of_int (?n + hungry2 eq (de + ds) os) * of_int ?n"
  have E: "Fin cap / float64 (store_Count s - lease_Subclients (store_Get s ?c) + req_Subclients r) = Fin eq"
    "Fin eq * float64 (req_Subclients r) = Fin ds"
    "Fin (slack eq os) / float64 (word_of_int (?n + hungry eq os)) * float64 (req_Subclients r) = Fin de"
    "Fin (slack2 eq (de + ds) os) / float64 (word_of_int (?n + hungry2 eq (de + ds) os))
       * float64 (req_Subclients r) = Fin dee"
    unfolding fs_count [OF ok cnt] hf fn os_def [symmetric] using pos
    by (simp_all only: divide_f64.simps times_f64.simps eq_def ds_def de_def dee_def if_False)
  have T: "fair_share_target cap os w ?n = (if w \<le> ds \<or> w < ds + de then w else ds + de + dee)"
    unfolding fair_share_target_def Let_def eq_def [symmetric] ds_def [symmetric] de_def [symmetric]
      dee_def [symmetric] ..
  show ?thesis
    unfolding FairShare_def getAlgorithmParams_def Let_def prod.case E w m1 m2 available_Fin [OF ok]
      fair_share_spec_def T
    by (simp add: store_Assign_lease)
qed

section \<open>ProportionalShare refines its specification\<close>

text \<open>What clients want beyond their equal share.\<close>

definition need :: "rat \<Rightarrow> (string \<times> Lease) list \<Rightarrow> rat" where
  "need eq os = sum_list (map (\<lambda>(c, l). max 0 (w_of l - of_int (n_of l) * eq)) os)"

text \<open>
  \<open>os\<close> are the leases of the other clients, \<open>own\<close> the subclients on record for this client
  (\<open>None\<close> for a client that has no lease yet), \<open>sumw\<close> the store's total of wants, which still
  counts what this client wanted before.
\<close>

definition proportional_target ::
    "rat \<Rightarrow> (string \<times> Lease) list \<Rightarrow> int option \<Rightarrow> rat \<Rightarrow> rat \<Rightarrow> int \<Rightarrow> rat" where
  "proportional_target cap os own sumw w n =
     (let eq = cap / of_int (int_subclients os + (case own of None \<Rightarrow> n | Some m \<Rightarrow> m));
          d = eq * of_int n;
          over = w - d
      in if sumw \<le> cap \<or> w \<le> d then w
         else d + over * (slack eq os / (need eq os + (if own = None then 0 else over))))"

definition proportional_spec ::
    "rat \<Rightarrow> (string \<times> Lease) list \<Rightarrow> int option \<Rightarrow> rat \<Rightarrow> rat \<Rightarrow> int \<Rightarrow> rat \<Rightarrow> rat" where
  "proportional_spec cap os own sumw w n avail = min (proportional_target cap os own sumw w n) avail"

lemma need_Nil [simp]: "need eq [] = 0"
  by (simp add: need_def)

lemma need_Cons [simp]:
  "need eq ((c, l) # os) = max 0 (w_of l - of_int (n_of l) * eq) + need eq os"
  by (simp add: need_def)

lemma need_nonneg: "0 \<le> need eq os"
  by (induction os) auto

lemma ps_round_step:
  assumes "lease_Wants l = Fin wl" and "req_Wants r = Fin w"
  shows "ps_round r (Fin eq) i l (Fin x, Fin y) =
    (let (ww, nn) = (if i = req_Client r then (w, sint (req_Subclients r)) else (wl, n_of l))
     in (Fin (x + max 0 (of_int nn * eq - ww)), Fin (y + max 0 (ww - of_int nn * eq))))"
  using assms by (auto simp: ps_round_def Let_def float64_def mult.commute)

lemma ps_round_fold:
  assumes "entries_ok es" and "req_Wants r = Fin w"
  defines "n \<equiv> sint (req_Subclients r)" and "c \<equiv> req_Client r"
  shows "fold (\<lambda>(i, l). ps_round r (Fin eq) i l) es (Fin x, Fin y) =
    (Fin (x + slack eq (map_del es c) + (if map_of es c = None then 0 else max 0 (of_int n * eq - w))),
     Fin (y + need eq (map_del es c) + (if map_of es c = None then 0 else max 0 (w - of_int n * eq))))"
  using assms(1)
proof (induction es arbitrary: x y)
  case Nil
  then show ?case by simp
next
  case (Cons e es)
  obtain i l where e: "e = (i, l)" by force
  have ok: "entries_ok es" and fresh: "i \<notin> fst ` set es" and fin: "finite_lease l"
    using Cons.prems by (simp_all add: e entries_ok_Cons)
  obtain wl where wl: "lease_Wants l = Fin wl" using fin unfolding finite_lease_def isFinite_iff by blast
  note step = ps_round_step [OF wl assms(2), folded n_def c_def]
  show ?case
  proof (cases "i = c")
    case True
    then have "map_of es c = None" using fresh by (simp add: map_of_eq_None_iff)
    with True show ?thesis by (simp add: e step Cons.IH [OF ok] add.assoc)
  next
    case False
    then show ?thesis by (simp add: e wl step Cons.IH [OF ok] add.assoc)
  qed
qed

text \<open>
  If the wants on record exceed the capacity and this client is new, some other client wants
  more than its equal share: the top-up never divides by zero.
\<close>

lemma int_subclients_nonneg: "list_all (\<lambda>(c, l). 1 \<le> n_of l) os \<Longrightarrow> 0 \<le> int_subclients os"
  by (induction os) auto

lemma wants_le_share_need:
  "total_wants os \<le> of_int (int_subclients os) * eq + need eq os"
proof (induction os)
  case Nil
  then show ?case by (simp add: total_wants_def)
next
  case (Cons e os)
  obtain c l where e: "e = (c, l)" by force
  have "total_wants (e # os) = w_of l + total_wants os" by (simp add: e total_wants_def)
  also have "\<dots> \<le> (of_int (n_of l) * eq + max 0 (w_of l - of_int (n_of l) * eq))
      + (of_int (int_subclients os) * eq + need eq os)"
    using Cons.IH by (intro add_mono) auto
  finally show ?case by (simp add: e algebra_simps)
qed

lemma need_pos:
  assumes "list_all (\<lambda>(c, l). 1 \<le> n_of l) os" and "0 \<le> cap" and "1 \<le> n"
    and "cap < total_wants os"
  shows "0 < need (cap / of_int (int_subclients os + n)) os"
proof -
  let ?N = "of_int (int_subclients os + n) :: rat" and ?M = "of_int (int_subclients os) :: rat"
  have M: "0 \<le> ?M" using int_subclients_nonneg [OF assms(1)] by simp
  have N: "0 < ?N" and MN: "?M \<le> ?N" using M assms(3) by simp_all
  have "?M * cap \<le> cap * ?N"
    using mult_right_mono [OF MN assms(2)] by (simp only: mult.commute [of cap])
  then have "?M * (cap / ?N) \<le> cap"
    by (simp only: times_divide_eq_right pos_divide_le_eq [OF N])
  with wants_le_share_need [of os "cap / ?N"] assms(4) show ?thesis by linarith
qed

definition own_subclients :: "leaseStoreImpl \<Rightarrow> string \<Rightarrow> int option" where
  "own_subclients s c = map_option (\<lambda>l. n_of l) (map_of (ls_leases s) c)"

lemma ps_count:
  assumes "store_ok s" and "counts_ok s r"
  defines "os \<equiv> map_del (ls_leases s) (req_Client r)"
  shows "float64 (if \<not> store_HasClient s (req_Client r) then store_Count s + req_Subclients r
                  else store_Count s) =
    Fin (of_int (int_subclients os +
      (case own_subclients s (req_Client r) of None \<Rightarrow> sint (req_Subclients r) | Some m \<Rightarrow> m)))"
proof (cases "map_of (ls_leases s) (req_Client r)")
  case None
  have d: "distinct_keys (ls_leases s)" using assms(1) by (rule impl.ok_distinct)
  note c = counts_okD [OF assms(2) d, folded os_def]
  have "store_Count s + req_Subclients r = word_of_int (int_subclients os + sint (req_Subclients r))"
    using None by (simp add: impl.ok_count [OF assms(1)] total_subclients_int os_def sum_map_del_absent)
  moreover have "float64 (word_of_int (int_subclients os + sint (req_Subclients r))) =
      Fin (of_int (int_subclients os + sint (req_Subclients r)))"
    using c by (intro float64_word_of_int) linarith+
  ultimately show ?thesis using None by (simp add: store_HasClient_def own_subclients_def)
next
  case (Some l)
  have d: "distinct_keys (ls_leases s)" using assms(1) by (rule impl.ok_distinct)
  note c = counts_okD [OF assms(2) d, folded os_def]
  have sp: "int_subclients (ls_leases s) = int_subclients os + n_of l"
    using c(6) Some by (simp add: lease_of_def)
  have "float64 (word_of_int (int_subclients (ls_leases s))) = Fin (of_int (int_subclients os + n_of l))"
    unfolding sp [symmetric] using assms(2) c(2-6)
    by (intro float64_word_of_int) (simp_all add: counts_ok_def)
  then show ?thesis
    using Some by (simp add: store_HasClient_def own_subclients_def impl.ok_count [OF assms(1)] total_subclients_int)
qed

lemma own_subclients_pos:
  "counts_ok s r \<Longrightarrow> own_subclients s c = Some m \<Longrightarrow> 1 \<le> m"
  by (auto simp: own_subclients_def counts_ok_def list_all_iff dest!: map_of_SomeD)

lemma proportional_share_grant:
  assumes ok: "store_ok s" and cnt: "counts_ok s r" and w: "req_Wants r = Fin w" and cap: "0 \<le> cap"
  defines "os \<equiv> map_del (ls_leases s) (req_Client r)"
  shows "lease_Has (snd (ProportionalShare config s now (Fin cap) r)) =
    Fin (proportional_spec cap os (own_subclients s (req_Client r)) (total_wants (ls_leases s)) w
      (sint (req_Subclients r)) (left_over s cap (req_Client r)))"
proof -
  let ?c = "req_Client r" and ?n = "sint (req_Subclients r)"
  let ?own = "own_subclients s ?c"
  have d: "distinct_keys (ls_leases s)" using ok by (rule impl.ok_distinct)
  note c = counts_okD [OF cnt d, folded os_def]
  define N where "N = int_subclients os + (case ?own of None \<Rightarrow> ?n | Some m \<Rightarrow> m)"
  define eq where "eq = cap / of_int N"
  define ds where "ds = eq * of_int ?n"
  define nd where "nd = need eq os + (if ?own = None then 0 else w - ds)"
  have "1 \<le> N"
    using c(2,3) own_subclients_pos [OF cnt] by (auto simp: N_def split: option.split) force
  then have N: "(of_int N :: rat) \<noteq> 0" by simp
  have E: "Fin cap / float64 (if \<not> store_HasClient s ?c then store_Count s + req_Subclients r
        else store_Count s) = Fin eq"
    "Fin eq * float64 (req_Subclients r) = Fin ds"
    unfolding ps_count [OF ok cnt] os_def [symmetric] N_def [symmetric]
    using N by (simp_all add: eq_def ds_def float64_def)
  have own: "(map_of (ls_leases s) ?c = None) = (?own = None)" by (simp add: own_subclients_def)
  have m: "store_Map (ps_round r (Fin eq)) s (Fin 0, Fin 0) = (Fin (slack eq os), Fin nd)" if "\<not> w \<le> ds"
    using ps_round_fold [OF impl.ok_entries [OF ok] w, where eq = eq and x = 0 and y = 0] that
    by (simp add: store_Map_def os_def nd_def own ds_def mult.commute)
  have nd: "nd \<noteq> 0" if "\<not> w \<le> ds" "\<not> total_wants (ls_leases s) \<le> cap"
  proof (cases "?own = None")
    case True
    then have "os = ls_leases s" using own by (simp add: os_def sum_map_del_absent)
    with need_pos [OF c(1) cap c(2)] that(2) True show ?thesis
      by (simp add: nd_def eq_def N_def)
  next
    case False
    then have "nd = need eq os + (w - ds)" by (simp only: nd_def if_False)
    with that(1) need_nonneg [of eq os] show ?thesis by linarith
  qed
  have W: "store_SumWants s = Fin (total_wants (ls_leases s))" using ok by (rule impl.ok_sumWants)
  have T: "proportional_target cap os ?own (total_wants (ls_leases s)) w ?n =
      (if total_wants (ls_leases s) \<le> cap \<or> w \<le> ds then w else ds + (w - ds) * (slack eq os / nd))"
    unfolding proportional_target_def Let_def N_def [symmetric] eq_def [symmetric] ds_def [symmetric]
      nd_def [symmetric] ..
  show ?thesis
    unfolding ProportionalShare_def getAlgorithmParams_def Let_def prod.case E w available_Fin [OF ok]
      proportional_spec_def T W
    by (cases "total_wants (ls_leases s) \<le> cap \<or> w \<le> ds") (simp_all add: store_Assign_lease m nd)
qed

end
