(* ===== verification/Algorithm_Props.thy ===== *)
theory Algorithm_Props
  imports Algorithm_Spec
begin

text \<open>
  Properties of the capacity algorithms: the contract \<open>capped_algorithm\<close> (a grant never exceeds
  what is left of the capacity) with its interpretations, the equal-share guarantee, runs of
  requests, and what the code does outside the conditions its comments assume.
\<close>

section \<open>The capacity contract\<close>

locale capped_algorithm = algorithm +
  assumes grant_finite: "store_ok s \<Longrightarrow> counts_ok s r \<Longrightarrow> isFinite (req_Wants r) \<Longrightarrow> 0 \<le> cap \<Longrightarrow>
      isFinite (lease_Has (snd (alg config s now (Fin cap) r)))"
    and grant_left_over: "store_ok s \<Longrightarrow> counts_ok s r \<Longrightarrow> isFinite (req_Wants r) \<Longrightarrow> 0 \<le> cap \<Longrightarrow>
      lease_Has (snd (alg config s now (Fin cap) r)) \<le> Fin (left_over s cap (req_Client r))"
begin

lemma capped_ok:
  "store_ok s \<Longrightarrow> counts_ok s r \<Longrightarrow> isFinite (req_Wants r) \<Longrightarrow> 0 \<le> cap \<Longrightarrow>
     store_ok (fst (alg config s now (Fin cap) r))"
  by (rule alg_ok) (auto intro: grant_finite)

lemma within_capacity:
  assumes "store_ok s" and "counts_ok s r" and "isFinite (req_Wants r)" and "0 \<le> cap"
  shows "store_SumHas (fst (alg config s now (Fin cap) r)) \<le> Fin cap"
proof -
  have "lease_Has (snd (alg config s now (Fin cap) r)) \<le>
      Fin cap - store_SumHas s + lease_Has (lease_of (ls_leases s) (req_Client r))"
    using grant_left_over [OF assms] available_Fin [OF assms(1)] by (simp add: store_Get_lease_of)
  then show ?thesis
    by (subst alg_assign) (rule impl.capacity_guard [OF assms(1) grant_finite [OF assms] assms(3)])
qed

end

interpretation fair_share: capped_algorithm FairShare
proof unfold_locales
  fix config s now and cap :: rat and r :: Request
  assume a: "store_ok s" "counts_ok s r" "isFinite (req_Wants r)" "0 \<le> cap"
  obtain w where w: "req_Wants r = Fin w" using a(3) unfolding isFinite_iff by blast
  note g = fair_share_grant [OF a(1,2) w, where config = config and now = now and cap = cap]
  show "isFinite (lease_Has (snd (FairShare config s now (Fin cap) r)))" by (simp add: g)
  show "lease_Has (snd (FairShare config s now (Fin cap) r)) \<le> Fin (left_over s cap (req_Client r))"
    by (simp add: g fair_share_spec_def)
qed

interpretation proportional_share: capped_algorithm ProportionalShare
proof unfold_locales
  fix config s now and cap :: rat and r :: Request
  assume a: "store_ok s" "counts_ok s r" "isFinite (req_Wants r)" "0 \<le> cap"
  obtain w where w: "req_Wants r = Fin w" using a(3) unfolding isFinite_iff by blast
  note g = proportional_share_grant [OF a(1,2) w a(4), where config = config and now = now]
  show "isFinite (lease_Has (snd (ProportionalShare config s now (Fin cap) r)))" by (simp add: g)
  show "lease_Has (snd (ProportionalShare config s now (Fin cap) r)) \<le> Fin (left_over s cap (req_Client r))"
    by (simp add: g proportional_spec_def)
qed

section \<open>Runs of requests\<close>

text \<open>A resource serves one request after another, each at its own time.\<close>

fun run_alg :: "Algorithm \<Rightarrow> f64 \<Rightarrow> leaseStoreImpl \<Rightarrow> (time \<times> Request) list \<Rightarrow> leaseStoreImpl" where
  "run_alg alg cap s [] = s"
| "run_alg alg cap s ((now, r) # rs) = run_alg alg cap (fst (alg s now cap r)) rs"

definition requests_ok :: "leaseStoreImpl \<Rightarrow> Request list \<Rightarrow> bool" where
  "requests_ok s rs = (list_all (\<lambda>(c, l). 1 \<le> n_of l) (ls_leases s)
     \<and> list_all (\<lambda>r. 1 \<le> sint (req_Subclients r) \<and> isFinite (req_Wants r)) rs
     \<and> int_subclients (ls_leases s) + sum_list (map (\<lambda>r. sint (req_Subclients r)) rs) < 2 ^ 63)"

lemma requests_ok_counts:
  assumes "requests_ok s (r # rs)"
  shows "counts_ok s r"
proof -
  have "0 \<le> sum_list (map (\<lambda>r. sint (req_Subclients r)) rs)"
    using assms by (intro sum_list_nonneg) (auto simp: requests_ok_def list_all_iff)
  with assms show ?thesis by (auto simp: requests_ok_def counts_ok_def)
qed

lemma int_subclients_put_le:
  assumes "distinct_keys es" and "list_all (\<lambda>(c, l). 1 \<le> n_of l) es"
  shows "int_subclients (map_put es c l) \<le> int_subclients es + n_of l"
proof -
  have "0 \<le> n_of (lease_of es c)"
    using assms(2) by (fastforce simp: lease_of_def list_all_iff split: option.splits dest: map_of_SomeD)
  moreover have "int_subclients (map_put es c l) = n_of l + int_subclients (map_del es c)"
    using sum_entries_put [OF assms(1), of n_of c l] by (simp add: int_subclients_def)
  ultimately show ?thesis using int_subclients_split [OF assms(1), of c] by linarith
qed

context capped_algorithm
begin

lemma requests_ok_step:
  assumes "store_ok s" and "requests_ok s (r # rs)"
  shows "requests_ok (fst (alg config s now cap r)) rs"
proof -
  let ?l = "snd (alg config s now cap r)"
  have n: "lease_Subclients ?l = req_Subclients r" by (subst alg_lease) simp
  have es: "ls_leases (fst (alg config s now cap r)) = map_put (ls_leases s) (req_Client r) ?l"
    by (rule alg_entries)
  have all: "list_all (\<lambda>(c, l). 1 \<le> n_of l) (ls_leases s)"
    using assms(2) by (simp add: requests_ok_def)
  have "list_all (\<lambda>(c, l). 1 \<le> n_of l) (map_put (ls_leases s) (req_Client r) ?l)"
    using all assms(2) n set_map_put [where m = "ls_leases s" and k = "req_Client r" and v = ?l]
    by (fastforce simp: list_all_iff requests_ok_def)
  then show ?thesis
    using assms(2) int_subclients_put_le [OF impl.ok_distinct [OF assms(1)] all, of "req_Client r" ?l] n
    by (auto simp: requests_ok_def es)
qed

lemma run_ok:
  assumes "store_ok s" and "requests_ok s (map snd rs)" and "0 \<le> cap"
  shows "store_ok (run_alg (alg config) (Fin cap) s rs)"
  using assms(1,2)
proof (induction rs arbitrary: s)
  case Nil
  then show ?case by simp
next
  case (Cons e rs)
  obtain now r where e: "e = (now, r)" by force
  have ok: "requests_ok s (r # map snd rs)" using Cons.prems(2) by (simp add: e)
  then have "isFinite (req_Wants r)" by (simp add: requests_ok_def)
  then have "store_ok (fst (alg config s now (Fin cap) r))"
    using Cons.prems(1) requests_ok_counts [OF ok] assms(3) by (intro capped_ok)
  with Cons.IH requests_ok_step [OF Cons.prems(1) ok] show ?case by (simp add: e)
qed

lemma run_within_capacity:
  assumes "store_ok s" and "requests_ok s (map snd rs)" and "0 \<le> cap" and "rs \<noteq> []"
  shows "store_SumHas (run_alg (alg config) (Fin cap) s rs) \<le> Fin cap"
  using assms(1,2,4)
proof (induction rs arbitrary: s)
  case Nil
  then show ?case by simp
next
  case (Cons e rs)
  obtain now r where e: "e = (now, r)" by force
  let ?s = "fst (alg config s now (Fin cap) r)"
  have ok: "requests_ok s (r # map snd rs)" using Cons.prems(2) by (simp add: e)
  then have w: "isFinite (req_Wants r)" by (simp add: requests_ok_def)
  note pre = Cons.prems(1) requests_ok_counts [OF ok] w assms(3)
  show ?case
  proof (cases rs)
    case Nil
    with within_capacity [OF pre] show ?thesis by (simp add: e)
  next
    case (Cons x xs)
    then show ?thesis
      using Cons.IH [OF capped_ok [OF pre] requests_ok_step [OF pre(1) ok]] by (simp add: e)
  qed
qed

end

section \<open>The equal share\<close>

text \<open>A client's equal share of the capacity, by subclients.\<close>

definition equal_share :: "rat \<Rightarrow> int \<Rightarrow> int \<Rightarrow> rat" where
  "equal_share cap n all = cap / of_int all * of_int n"

lemma fair_share_target_ge:
  assumes "list_all (\<lambda>(c, l). 1 \<le> n_of l) os" and "1 \<le> n"
  shows "min w (equal_share cap n (int_subclients os + n)) \<le> fair_share_target cap os w n"
proof -
  let ?eq = "cap / of_int (int_subclients os + n)"
  let ?d = "?eq * of_int n"
  let ?e = "slack ?eq os / of_int (n + hungry ?eq os) * of_int n"
  let ?ee = "slack2 ?eq (?e + ?d) os / of_int (n + hungry2 ?eq (?e + ?d) os) * of_int n"
  have hb: "0 \<le> hungry2 ?eq t os" "0 \<le> hungry ?eq os" for t
    using hungry_bounds [OF assms(1), of ?eq t] by linarith+
  have pos: "0 \<le> (of_int (n + hungry ?eq os) :: rat)" "0 \<le> (of_int (n + hungry2 ?eq t os) :: rat)"
    "0 \<le> (of_int n :: rat)" for t
    unfolding of_int_0_le_iff using hb(1) [of t] hb(2) assms(2) by linarith+
  have e: "0 \<le> ?e" by (intro mult_nonneg_nonneg divide_nonneg_nonneg slack_nonneg pos)
  have ee: "0 \<le> ?ee" by (intro mult_nonneg_nonneg divide_nonneg_nonneg slack2_nonneg pos)
  have "fair_share_target cap os w n = (if w \<le> ?d \<or> w < ?d + ?e then w else ?d + ?e + ?ee)"
    unfolding fair_share_target_def Let_def ..
  with e ee show ?thesis unfolding equal_share_def by (auto simp: min_def)
qed

lemma proportional_target_ge:
  assumes "list_all (\<lambda>(c, l). 1 \<le> n_of l) os" and "1 \<le> n"
  shows "min w (equal_share cap n (int_subclients os + (case own of None \<Rightarrow> n | Some m \<Rightarrow> m)))
    \<le> proportional_target cap os own sumw w n"
proof -
  let ?N = "int_subclients os + (case own of None \<Rightarrow> n | Some m \<Rightarrow> m)"
  let ?eq = "cap / of_int ?N"
  let ?d = "?eq * of_int n"
  let ?up = "(w - ?d) * (slack ?eq os / (need ?eq os + (if own = None then 0 else w - ?d)))"
  have T: "proportional_target cap os own sumw w n = (if sumw \<le> cap \<or> w \<le> ?d then w else ?d + ?up)"
    unfolding proportional_target_def Let_def ..
  have "0 \<le> ?up" if d: "?d < w"
  proof -
    have over: "0 \<le> w - ?d" using d by linarith
    then have "0 \<le> (if own = None then 0 else w - ?d)"
      by (cases "own = None") (simp_all only: if_True if_False order_refl simp_thms)
    then have "0 \<le> need ?eq os + (if own = None then 0 else w - ?d)"
      using need_nonneg [of ?eq os] by (rule add_nonneg_nonneg [rotated])
    with over show ?thesis by (intro mult_nonneg_nonneg divide_nonneg_nonneg slack_nonneg)
  qed
  then show ?thesis unfolding T equal_share_def by (auto simp: min_def)
qed

lemma fair_share_ge:
  assumes "store_ok s" and "counts_ok s r" and "req_Wants r = Fin w"
  shows "Fin (min (min w (equal_share cap (sint (req_Subclients r))
      (int_subclients (map_del (ls_leases s) (req_Client r)) + sint (req_Subclients r))))
      (left_over s cap (req_Client r)))
    \<le> lease_Has (snd (FairShare config s now (Fin cap) r))"
proof -
  note c = counts_okD [OF assms(2) impl.ok_distinct [OF assms(1)]]
  show ?thesis
    unfolding fair_share_grant [OF assms] fair_share_spec_def
    using fair_share_target_ge [OF c(1,2), of w cap] by (simp add: min_le_iff_disj)
qed

lemma proportional_share_ge:
  assumes "store_ok s" and "counts_ok s r" and "req_Wants r = Fin w" and "0 \<le> cap"
  shows "Fin (min (min w (equal_share cap (sint (req_Subclients r))
      (int_subclients (map_del (ls_leases s) (req_Client r)) +
        (case own_subclients s (req_Client r) of None \<Rightarrow> sint (req_Subclients r) | Some m \<Rightarrow> m))))
      (left_over s cap (req_Client r)))
    \<le> lease_Has (snd (ProportionalShare config s now (Fin cap) r))"
proof -
  note c = counts_okD [OF assms(2) impl.ok_distinct [OF assms(1)]]
  show ?thesis
    unfolding proportional_share_grant [OF assms] proportional_spec_def
    using proportional_target_ge [OF c(1,2), of w cap "own_subclients s (req_Client r)" "total_wants (ls_leases s)"]
    by (simp add: min_le_iff_disj)
qed

section \<open>Facts shared by the properties\<close>

lemma GetAlgorithm_cases:
  assumes "GetAlgorithm config = Inr alg"
  obtains (no_alg) "alg = NoAlgorithm config" "Algorithm_GetKind config = Algorithm_NO_ALGORITHM"
    | (static) "alg = Static config" "Algorithm_GetKind config = Algorithm_STATIC"
    | (proportional) "alg = ProportionalShare config" "Algorithm_GetKind config = Algorithm_PROPORTIONAL_SHARE"
    | (fair) "alg = FairShare config" "Algorithm_GetKind config = Algorithm_FAIR_SHARE"
  using assms unfolding GetAlgorithm_def algorithms_def
  by (auto split: option.splits if_splits)

text \<open>Every algorithm the table can return meets the contract of an algorithm.\<close>

lemma GetAlgorithm_assign:
  assumes "GetAlgorithm config = Inr alg"
  shows "alg s now cap r =
      store_Assign s now (req_Client r) (seconds (Algorithm_GetLeaseLength config))
        (seconds (Algorithm_GetRefreshInterval config))
        (lease_Has (snd (alg s now cap r))) (req_Wants r) (req_Subclients r)"
  using assms
proof (cases rule: GetAlgorithm_cases)
  case no_alg
  then show ?thesis by (simp only:) (rule no_algorithm.alg_assign)
next
  case static
  then show ?thesis by (simp only:) (rule static.alg_assign)
next
  case proportional
  then show ?thesis by (simp only:) (rule proportional_share.alg_assign)
next
  case fair
  then show ?thesis by (simp only:) (rule fair_share.alg_assign)
qed

lemma left_over_mset:
  assumes "distinct_keys (ls_leases s)" and "mset (ls_leases s') = mset (ls_leases s)"
  shows "left_over s' cap c = left_over s cap c"
  using map_of_mset [OF assms(2,1)] totals_mset [OF assms(2)] by (simp add: left_over_def lease_of_def)

lemma store_ok_mset:
  assumes "store_ok s" and "mset es = mset (ls_leases s)"
  shows "store_ok (s\<lparr>ls_leases := es\<rparr>)"
  using assms(1) entries_ok_mset [OF assms(2)] totals_mset [OF assms(2)] by (simp add: store_ok_def)

lemma counts_ok_mset:
  assumes "counts_ok s r" and "mset es = mset (ls_leases s)"
  shows "counts_ok (s\<lparr>ls_leases := es\<rparr>) r"
  using assms(1) sums_mset(1) [OF assms(2)] mset_eq_setD [OF assms(2)]
  by (simp add: counts_ok_def list_all_iff)

section \<open>A concrete store\<close>

text \<open>Client \<open>a\<close> holds 60 of the 60 it wants, client \<open>b\<close> holds 20 and wants 80.\<close>

definition example_lease :: "rat \<Rightarrow> rat \<Rightarrow> Lease" where
  "example_lease h w = \<lparr>lease_Expiry = 100, lease_RefreshInterval = 5, lease_Has = Fin h,
     lease_Wants = Fin w, lease_Subclients = 1\<rparr>"

definition example_store :: leaseStoreImpl where
  "example_store = \<lparr>ls_id = ''r'', ls_leases = [(''a'', example_lease 60 60), (''b'', example_lease 20 80)],
     ls_sumWants = Fin 140, ls_sumHas = Fin 80, ls_count = 2\<rparr>"

definition example_request :: Request where
  "example_request = \<lparr>req_Client = ''b'', req_Has = Fin 20, req_Wants = Fin 80, req_Subclients = 1\<rparr>"

definition example_config :: "Algorithm_Kind \<Rightarrow> pb_Algorithm option" where
  "example_config k = Some \<lparr>alg_Kind = Some k, alg_LeaseLength = Some 60, alg_RefreshInterval = Some 5,
     alg_Parameters = [], alg_LearningModeDuration = None\<rparr>"

lemmas example_defs = example_store_def example_lease_def example_request_def example_config_def

lemma example_store_ok: "store_ok example_store"
  by (simp add: example_defs store_ok_def entries_ok_def finite_lease_def total_has_def
      total_wants_def total_subclients_def)

lemma example_counts_ok: "counts_ok example_store example_request"
  by (simp add: example_defs counts_ok_def int_subclients_def)

lemma example_requests_ok: "requests_ok example_store [example_request, example_request]"
  by (simp add: example_defs requests_ok_def int_subclients_def)

lemma example_wants: "req_Wants example_request = Fin 80"
  by (simp add: example_defs)

lemma example_fair: "GetAlgorithm (example_config Algorithm_FAIR_SHARE) =
    Inr (FairShare (example_config Algorithm_FAIR_SHARE))"
  by (simp add: GetAlgorithm_def example_config_def Algorithm_GetKind_def)

section \<open>Properties\<close>

text \<open>C13. \<open>FairShare\<close> computes its specification: on a store whose totals are right and with
  positive subclient counts, the code assigns the requesting client exactly
  \<open>fair_share_spec\<close>, the fair-share target cut down to what is left of the capacity, for the
  configured lease length and refresh interval.\<close>

theorem fair_share_refines:
  assumes "store_ok s" and "counts_ok s r" and "req_Wants r = Fin w"
  shows "FairShare config s now (Fin cap) r =
    store_Assign s now (req_Client r) (seconds (Algorithm_GetLeaseLength config))
      (seconds (Algorithm_GetRefreshInterval config))
      (Fin (fair_share_spec cap (map_del (ls_leases s) (req_Client r)) w (sint (req_Subclients r))
        (left_over s cap (req_Client r))))
      (Fin w) (req_Subclients r)"
  using fair_share.alg_assign [of config s now "Fin cap" r]
  unfolding fair_share_grant [OF assms] assms(3) .

theorem fair_share_refines_witness:
  "FairShare (example_config Algorithm_FAIR_SHARE) example_store 40 (Fin 100) example_request =
    store_Assign example_store 40 ''b'' (seconds 60) (seconds 5) (Fin 40) (Fin 80) 1"
  using fair_share_refines [OF example_store_ok example_counts_ok example_wants,
      of "example_config Algorithm_FAIR_SHARE" 40 100]
  by (simp add: example_defs getter_defs fair_share_spec_def fair_share_target_def left_over_def
      total_has_def lease_of_def)

text \<open>C14. \<open>ProportionalShare\<close> computes its specification: the wants, or the equal share plus a
  proportional top-up when the capacity is overbooked, cut down to what is left. In particular
  the division by the excess need is never a division by zero.\<close>

theorem proportional_share_refines:
  assumes "store_ok s" and "counts_ok s r" and "req_Wants r = Fin w" and "0 \<le> cap"
  shows "ProportionalShare config s now (Fin cap) r =
    store_Assign s now (req_Client r) (seconds (Algorithm_GetLeaseLength config))
      (seconds (Algorithm_GetRefreshInterval config))
      (Fin (proportional_spec cap (map_del (ls_leases s) (req_Client r))
        (own_subclients s (req_Client r)) (total_wants (ls_leases s)) w (sint (req_Subclients r))
        (left_over s cap (req_Client r))))
      (Fin w) (req_Subclients r)"
  using proportional_share.alg_assign [of config s now "Fin cap" r]
  unfolding proportional_share_grant [OF assms] assms(3) .

theorem proportional_share_refines_witness:
  "ProportionalShare (example_config Algorithm_PROPORTIONAL_SHARE) example_store 40 (Fin 100) example_request =
    store_Assign example_store 40 ''b'' (seconds 60) (seconds 5) (Fin 40) (Fin 80) 1"
  using proportional_share_refines [OF example_store_ok example_counts_ok example_wants,
      of 100 "example_config Algorithm_PROPORTIONAL_SHARE" 40]
  by (simp add: example_defs getter_defs proportional_spec_def proportional_target_def left_over_def
      total_has_def total_wants_def lease_of_def own_subclients_def need_def)

text \<open>C1. Capacity safety of the sharing algorithms: whatever the store held before, after any
  non-empty run of requests the total handed out is within the capacity.\<close>

theorem sharing_within_capacity:
  assumes "GetAlgorithm config = Inr alg"
    and "Algorithm_GetKind config \<in> {Algorithm_PROPORTIONAL_SHARE, Algorithm_FAIR_SHARE}"
    and "store_ok s" and "requests_ok s (map snd rs)" and "0 \<le> cap" and "rs \<noteq> []"
  shows "store_SumHas (run_alg alg (Fin cap) s rs) \<le> Fin cap"
  using assms(1)
proof (cases rule: GetAlgorithm_cases)
  case proportional
  then show ?thesis using proportional_share.run_within_capacity [OF assms(3-6)] by simp
next
  case fair
  then show ?thesis using fair_share.run_within_capacity [OF assms(3-6)] by simp
qed (use assms(2) in \<open>simp_all add: Algorithm_Kind_defs\<close>)

theorem sharing_within_capacity_witness:
  "store_SumHas (run_alg (FairShare (example_config Algorithm_FAIR_SHARE)) (Fin 100) example_store
     [(40, example_request), (41, example_request)]) \<le> Fin 100"
  by (rule sharing_within_capacity [OF example_fair _ example_store_ok])
    (simp_all add: example_requests_ok example_config_def Algorithm_GetKind_def)

text \<open>The guarantee of \<open>FairShare\<close>: a client gets at least the smaller of what it wants and
  its equal share (by subclients) of the capacity, as far as that much capacity is left.\<close>

lemma fair_share_guarantee:
  assumes "store_ok s" and "counts_ok s r" and "req_Wants r = Fin w"
  defines "n \<equiv> sint (req_Subclients r)"
    and "all_subclients \<equiv> int_subclients (map_del (ls_leases s) (req_Client r)) + sint (req_Subclients r)"
  shows "Fin (min (min w (equal_share cap n all_subclients)) (left_over s cap (req_Client r)))
    \<le> lease_Has (snd (FairShare config s now (Fin cap) r))"
  unfolding n_def all_subclients_def by (rule fair_share_ge [OF assms(1-3)])

lemma fair_share_guarantee_witness:
  "Fin 40 \<le> lease_Has (snd (FairShare None example_store 40 (Fin 100) example_request))"
  using fair_share_guarantee [OF example_store_ok example_counts_ok example_wants, of 100 None 40]
  by (simp add: example_defs equal_share_def left_over_def total_has_def lease_of_def)

text \<open>The guarantee of \<open>ProportionalShare\<close>: the same, where the number of subclients counts
  this client with the number on record if it has a lease, and with the new number if not.\<close>

lemma proportional_share_guarantee:
  assumes "store_ok s" and "counts_ok s r" and "req_Wants r = Fin w" and "0 \<le> cap"
  defines "n \<equiv> sint (req_Subclients r)"
    and "all_subclients \<equiv> int_subclients (map_del (ls_leases s) (req_Client r)) +
      (case own_subclients s (req_Client r) of None \<Rightarrow> sint (req_Subclients r) | Some m \<Rightarrow> m)"
  shows "Fin (min (min w (equal_share cap n all_subclients)) (left_over s cap (req_Client r)))
    \<le> lease_Has (snd (ProportionalShare config s now (Fin cap) r))"
  unfolding n_def all_subclients_def by (rule proportional_share_ge [OF assms(1-4)])

lemma proportional_share_guarantee_witness:
  "Fin 40 \<le> lease_Has (snd (ProportionalShare None example_store 40 (Fin 100) example_request))"
  using proportional_share_guarantee [OF example_store_ok example_counts_ok example_wants, of 100 None 40]
  by (simp add: example_defs equal_share_def left_over_def total_has_def lease_of_def own_subclients_def)

text \<open>Over exact numbers, the order in which Go happens to iterate over the lease map does not matter: two
  stores with the same leases in a different order get the same lease from every algorithm. In floats
  the sums in the loops over the map are rounded in the order of iteration, so that leases can
  differ in their last digits.\<close>

lemma sharing_order_independent:
  assumes "GetAlgorithm config = Inr alg"
    and "store_ok s" and "counts_ok s r" and "isFinite (req_Wants r)" and "0 \<le> cap"
    and "mset es = mset (ls_leases s)"
  shows "snd (alg (s\<lparr>ls_leases := es\<rparr>) now (Fin cap) r) = snd (alg s now (Fin cap) r)"
proof -
  let ?s = "s\<lparr>ls_leases := es\<rparr>" and ?c = "req_Client r"
  obtain w where w: "req_Wants r = Fin w" using assms(4) unfolding isFinite_iff by blast
  have d: "distinct_keys (ls_leases s)" using assms(2) by (rule impl.ok_distinct)
  have m: "map_of es = map_of (ls_leases s)" by (rule map_of_mset [OF assms(6) d])
  have ok': "store_ok ?s" by (rule store_ok_mset [OF assms(2,6)])
  have cnt': "counts_ok ?s r" by (rule counts_ok_mset [OF assms(3,6)])
  have os: "mset (map_del es ?c) = mset (map_del (ls_leases s) ?c)"
    by (simp add: map_del_filter mset_filter assms(6))
  have tw: "total_wants es = total_wants (ls_leases s)" by (rule totals_mset(2) [OF assms(6)])
  have lo: "left_over ?s cap ?c = left_over s cap ?c"
    by (rule left_over_mset [OF d]) (simp add: assms(6))
  have own: "own_subclients ?s ?c = own_subclients s ?c" by (simp add: own_subclients_def m)
  have nd: "need eq (map_del es ?c) = need eq (map_del (ls_leases s) ?c)" for eq
    unfolding need_def by (rule sum_list_map_mset [OF os])
  have h: "lease_Has (snd (alg ?s now (Fin cap) r)) = lease_Has (snd (alg s now (Fin cap) r))"
    using assms(1)
  proof (cases rule: GetAlgorithm_cases)
    case fair
    then show ?thesis
      by (simp add: fair_share_grant [OF ok' cnt' w] fair_share_grant [OF assms(2,3) w] lo
          fair_share_spec_def fair_share_target_def Let_def sums_mset [OF os])
  next
    case proportional
    then show ?thesis
      by (simp add: proportional_share_grant [OF ok' cnt' w assms(5)]
          proportional_share_grant [OF assms(2,3) w assms(5)] lo own tw nd
          proportional_spec_def proportional_target_def Let_def sums_mset [OF os])
  qed (simp_all add: algorithm_code_defs store_Assign_lease)
  show ?thesis
    using GetAlgorithm_assign [OF assms(1), of ?s now "Fin cap" r]
      GetAlgorithm_assign [OF assms(1), of s now "Fin cap" r] h
    by (metis store_Assign_lease)
qed

lemma sharing_order_independent_witness:
  "snd (FairShare (example_config Algorithm_FAIR_SHARE)
      (example_store\<lparr>ls_leases := rev (ls_leases example_store)\<rparr>) 40 (Fin 100) example_request) =
   snd (FairShare (example_config Algorithm_FAIR_SHARE) example_store 40 (Fin 100) example_request)"
  by (rule sharing_order_independent [OF example_fair example_store_ok example_counts_ok])
    (simp_all add: example_wants)

end
