(* ===== verification/Algorithm_Limits.thy ===== *)
theory Algorithm_Limits
  imports Algorithm_Props
begin

text \<open>
  The limits of the algorithms: when a grant is not negative, and what the code does outside the
  conditions of the guarantees. Each deviation from the comments in \<open>algorithm.go\<close> is a theorem
  about a concrete store.
\<close>

section \<open>Lemmas\<close>

lemma left_over_others:
  "store_ok s \<Longrightarrow> left_over s cap c = cap - total_has (map_del (ls_leases s) c)"
  by (simp add: left_over_def total_has_del impl.ok_distinct)

lemma equal_share_nonneg: "0 \<le> cap \<Longrightarrow> 0 \<le> n \<Longrightarrow> 0 \<le> all \<Longrightarrow> 0 \<le> equal_share cap n all"
  by (simp add: equal_share_def)

text \<open>A total that is NaN stays NaN.\<close>

lemma clean_loop_NaN: "ls_sumHas s = NaN \<Longrightarrow> ls_sumHas (fst (clean_loop now es s n)) = NaN"
  by (induction now es s n rule: clean_loop.induct)
    (auto simp: store_Release_def split: option.split)

text \<open>A store in which each client has one subclient and already has what it wants.\<close>

definition satisfied_store :: "(string \<times> rat) list \<Rightarrow> leaseStoreImpl" where
  "satisfied_store ws = \<lparr>ls_id = ''r'', ls_leases = map (\<lambda>(c, w). (c, example_lease w w)) ws,
     ls_sumWants = Fin (sum_list (map snd ws)), ls_sumHas = Fin (sum_list (map snd ws)),
     ls_count = word_of_int (int (length ws))\<rparr>"

definition one_client :: "string \<Rightarrow> rat \<Rightarrow> Request" where
  "one_client c w = \<lparr>req_Client = c, req_Has = Fin 0, req_Wants = Fin w, req_Subclients = 1\<rparr>"

lemma satisfied_store_ok: "distinct_keys ws \<Longrightarrow> store_ok (satisfied_store ws)"
proof -
  assume d: "distinct_keys ws"
  have s: "total_subclients (map (\<lambda>(c, w). (c, example_lease w w)) ws) = word_of_int (int (length ws))"
    by (induction ws) (auto simp: total_subclients_def example_lease_def)
  show ?thesis
    using d s by (auto simp: store_ok_def satisfied_store_def entries_ok_def list_all_iff finite_lease_def
        total_has_def total_wants_def comp_def case_prod_unfold example_lease_def)
qed

lemma one_client_counts_ok:
  "length ws < 2 ^ 62 \<Longrightarrow> counts_ok (satisfied_store ws) (one_client c w)"
proof -
  assume l: "length ws < 2 ^ 62"
  have "int_subclients (map (\<lambda>(c, w). (c, example_lease w w)) ws) = int (length ws)"
    by (induction ws) (auto simp: int_subclients_def example_lease_def)
  then show ?thesis
    using l by (auto simp: counts_ok_def satisfied_store_def one_client_def list_all_iff example_lease_def)
qed

section \<open>Properties\<close>

text \<open>A grant of the sharing algorithms is not negative, as long as the other clients hold
  no more than the capacity and nobody asks for a negative amount.\<close>

lemma sharing_grant_nonneg:
  assumes "GetAlgorithm config = Inr alg"
    and "Algorithm_GetKind config \<in> {Algorithm_FAIR_SHARE, Algorithm_PROPORTIONAL_SHARE}"
    and "store_ok s" and "counts_ok s r" and "req_Wants r = Fin w" and "0 \<le> w" and "0 \<le> cap"
    and "total_has (map_del (ls_leases s) (req_Client r)) \<le> cap"
  shows "Fin 0 \<le> lease_Has (snd (alg s now (Fin cap) r))"
proof -
  note c = counts_okD [OF assms(4) impl.ok_distinct [OF assms(3)]]
  have left: "0 \<le> left_over s cap (req_Client r)"
    using assms(8) by (simp add: left_over_others [OF assms(3)])
  have own: "0 \<le> (case own_subclients s (req_Client r) of None \<Rightarrow> sint (req_Subclients r) | Some m \<Rightarrow> m)"
    using c(2,5) by (auto simp: own_subclients_def lease_of_def split: option.splits)
  have n: "0 \<le> sint (req_Subclients r)" using c(2) by simp
  have nonneg: "Fin 0 \<le> g" if "Fin (min (min w (equal_share cap (sint (req_Subclients r)) all)) (left_over s cap (req_Client r))) \<le> g"
    "0 \<le> all" for g all
    using that assms(6) left equal_share_nonneg [OF assms(7) n that(2)] by (cases g) auto
  show ?thesis
    using assms(1)
  proof (cases rule: GetAlgorithm_cases)
    case fair
    show ?thesis unfolding fair
      by (rule nonneg [OF fair_share_ge [OF assms(3-5)]]) (use c(3) n in linarith)
  next
    case proportional
    show ?thesis unfolding proportional
      by (rule nonneg [OF proportional_share_ge [OF assms(3-5,7)]]) (use c(3) own in linarith)
  qed (use assms(2) in \<open>simp_all add: Algorithm_Kind_defs\<close>)
qed

lemma sharing_grant_nonneg_witness:
  "Fin 0 \<le> lease_Has (snd (FairShare (example_config Algorithm_FAIR_SHARE) example_store 40 (Fin 100) example_request))"
  by (rule sharing_grant_nonneg [OF example_fair _ example_store_ok example_counts_ok example_wants])
    (simp_all add: example_defs Algorithm_GetKind_def total_has_def)

text \<open>Without that condition a grant can be negative: once the capacity of a resource has
  shrunk below what other clients hold, a client that asks for more gets a negative lease.\<close>

lemma sharing_negative_grant:
  "lease_Has (snd (FairShare config example_store 40 (Fin 50) example_request)) = Fin (- 10)"
  unfolding fair_share_grant [OF example_store_ok example_counts_ok example_wants]
  by (simp add: example_defs fair_share_spec_def fair_share_target_def left_over_def
      total_has_def lease_of_def)

text \<open>The comment of \<open>FairShare\<close> promises everyone what they want while the total of the
  wants is below the capacity. The two rounds of redistribution do not keep it: with a capacity
  of 102 and wants 5, 26, 33 and 37, which add up to 101, the client that wants 37 gets 35.5.\<close>

lemma fair_share_underload_shortfall:
  "lease_Has (snd (FairShare config (satisfied_store [(''a'', 5), (''b'', 26), (''c'', 33)]) now (Fin 102)
     (one_client ''d'' 37))) = Fin (71 / 2)"
proof -
  let ?s = "satisfied_store [(''a'', 5), (''b'', 26), (''c'', 33)]"
  have ok: "store_ok ?s" by (rule satisfied_store_ok) simp
  have cnt: "counts_ok ?s (one_client ''d'' 37)" by (rule one_client_counts_ok) simp
  have w: "req_Wants (one_client ''d'' 37) = Fin 37" by (simp add: one_client_def)
  show ?thesis
    unfolding fair_share_grant [OF ok cnt w]
    by (simp add: satisfied_store_def one_client_def example_lease_def fair_share_spec_def fair_share_target_def
        left_over_def total_has_def lease_of_def slack2_def hungry2_def)
qed

text \<open>Nor does \<open>FairShare\<close> stop at what the client asks for: with a capacity of 100 and
  other clients that want 5, 26 and 26, a client that wants 32 is granted 43.\<close>

lemma fair_share_exceeds_wants:
  "lease_Has (snd (FairShare config (satisfied_store [(''a'', 5), (''b'', 26), (''c'', 26)]) now (Fin 100)
     (one_client ''d'' 32))) = Fin 43"
proof -
  let ?s = "satisfied_store [(''a'', 5), (''b'', 26), (''c'', 26)]"
  have ok: "store_ok ?s" by (rule satisfied_store_ok) simp
  have cnt: "counts_ok ?s (one_client ''d'' 32)" by (rule one_client_counts_ok) simp
  have w: "req_Wants (one_client ''d'' 32) = Fin 32" by (simp add: one_client_def)
  show ?thesis
    unfolding fair_share_grant [OF ok cnt w]
    by (simp add: satisfied_store_def one_client_def example_lease_def fair_share_spec_def fair_share_target_def
        left_over_def total_has_def lease_of_def slack2_def hungry2_def)
qed

text \<open>What the comment of \<open>FairShare\<close> says does not hold of the code: in underload a client can
  get less than it wants, and a client can be granted more than it wants.\<close>

lemma fair_share_deviations:
  "lease_Has (snd (FairShare config (satisfied_store [(''a'', 5), (''b'', 26), (''c'', 33)]) now (Fin 102)
     (one_client ''d'' 37))) = Fin (71 / 2) \<and>
   lease_Has (snd (FairShare config (satisfied_store [(''a'', 5), (''b'', 26), (''c'', 26)]) now (Fin 100)
     (one_client ''d'' 32))) = Fin 43"
  by (rule conjI [OF fair_share_underload_shortfall fair_share_exceeds_wants])

text \<open>A total that has become NaN is NaN for good: no assignment, release or clean-up of
  the store repairs it.\<close>

lemma nan_total_permanent:
  assumes "store_SumHas s = NaN"
  shows "store_SumHas (fst (store_Assign s now c len iv h w n)) = NaN \<and>
     store_SumHas (store_Release s c) = NaN \<and> store_SumHas (fst (store_Clean s now)) = NaN"
  using assms clean_loop_NaN
  by (auto simp: store_SumHas_def store_Assign_def Let_def store_Release_def store_Clean_def split: option.split)

lemma nan_total_permanent_witness:
  "store_SumHas (store_Release (example_store\<lparr>ls_sumHas := NaN\<rparr>) ''a'') = NaN"
  using nan_total_permanent [of "example_store\<lparr>ls_sumHas := NaN\<rparr>"] by (simp add: store_SumHas_def)

end
