(* ===== verification/Glob.thy ===== *)
theory Glob
  imports Prelude
begin

text \<open>
  Go's \<open>filepath.Match\<close> on a Unix system (the \<open>go 1.17\<close> of \<open>go.mod\<close>), which decides what
  resource template applies to a resource id. A pattern is a sequence of \<open>*\<close> (any run of
  characters other than the separator), \<open>?\<close> (one such character), character classes in
  brackets, and literal characters, where a backslash quotes. The functions mirror the
  library's: \<open>scanChunk\<close> splits off a leading star and the text up to the next one,
  \<open>matchChunk\<close> matches such a chunk, \<open>glob_match\<close> is \<open>Match\<close>. A malformed pattern
  (\<open>ErrBadPattern\<close>) is \<open>None\<close>. Characters are bytes: a multi-byte rune in a class or under
  \<open>?\<close> is not modelled.
\<close>

section \<open>The code\<close>

abbreviation (input) star_char :: char where "star_char \<equiv> CHR ''*''"
abbreviation (input) sep_char :: char where "sep_char \<equiv> CHR ''/''"
abbreviation (input) backslash :: char where "backslash \<equiv> CHR 0x5C"

text \<open>The scan for the end of a chunk: the first star outside brackets, backslashes quote.\<close>

fun scan_loop :: "bool \<Rightarrow> string \<Rightarrow> string \<times> string" where
  "scan_loop inrange [] = ([], [])"
| "scan_loop inrange (c # cs) =
     (if c = backslash
      then (case cs of
          [] \<Rightarrow> ([c], [])
        | d # ds \<Rightarrow> (let (chunk, rest) = scan_loop inrange ds in (c # d # chunk, rest)))
      else if c = star_char \<and> \<not> inrange then ([], c # cs)
      else (let inrange' = (if c = CHR ''['' then True else if c = CHR '']'' then False else inrange);
                (chunk, rest) = scan_loop inrange' cs
            in (c # chunk, rest)))"

definition scanChunk :: "string \<Rightarrow> bool \<times> string \<times> string" where
  "scanChunk pat =
     (let body = dropWhile (\<lambda>c. c = star_char) pat;
          (chunk, rest) = scan_loop False body
      in (pat \<noteq> body, chunk, rest))"

text \<open>One, possibly quoted, character of a class; the class may not end after it.\<close>

definition getEsc :: "string \<Rightarrow> (char \<times> string) option" where
  "getEsc chunk = (case chunk of
       [] \<Rightarrow> None
     | c # cs \<Rightarrow>
         if c = CHR ''-'' \<or> c = CHR '']'' then None
         else (case (if c = backslash then cs else chunk) of
             [] \<Rightarrow> None
           | d # ds \<Rightarrow> if ds = [] then None else Some (d, ds)))"

lemma getEsc_shorter: "getEsc chunk = Some (c, rest) \<Longrightarrow> length rest < length chunk"
  by (auto simp: getEsc_def split: list.splits if_splits)

text \<open>
  The loop over the ranges of a class, for the character \<open>r\<close>: \<open>match\<close> whether a range
  contained it so far, \<open>seen\<close> whether there was a range (a class has at least one).
\<close>

function class_loop :: "char \<Rightarrow> string \<Rightarrow> bool \<Rightarrow> bool \<Rightarrow> (bool \<times> string) option" where
  "class_loop r chunk match seen =
     (if chunk \<noteq> [] \<and> hd chunk = CHR '']'' \<and> seen then Some (match, tl chunk)
      else (case getEsc chunk of
          None \<Rightarrow> None
        | Some (lo, chunk1) \<Rightarrow>
            (if hd chunk1 = CHR ''-''
             then (case getEsc (tl chunk1) of
                 None \<Rightarrow> None
               | Some (hi, chunk2) \<Rightarrow>
                   class_loop r chunk2 (match \<or> (of_char lo \<le> (of_char r :: nat) \<and> of_char r \<le> (of_char hi :: nat))) True)
             else class_loop r chunk1 (match \<or> lo = r) True)))"
  by pat_completeness auto
termination
  by (relation "measure (\<lambda>(r, chunk, m, s). length chunk)")
    (auto dest!: getEsc_shorter)

text \<open>
  Match a chunk at the start of \<open>s\<close>: what remains of \<open>s\<close>, and whether it matched. Once the match
  has failed the rest of the chunk is still parsed, to report a malformed pattern.
\<close>

lemma class_loop_shorter: "class_loop r chunk m seen = Some (m', rest) \<Longrightarrow> length rest < length chunk"
proof (induction r chunk m seen rule: class_loop.induct)
  case (1 r chunk m seen)
  show ?case
  proof (cases "chunk \<noteq> [] \<and> hd chunk = CHR '']'' \<and> seen")
    case True
    with "1.prems" show ?thesis by (auto simp: class_loop.simps [of r chunk m seen])
  next
    case False
    with "1.prems" obtain lo c1 where e: "getEsc chunk = Some (lo, c1)"
      by (auto simp: class_loop.simps [of r chunk m seen] split: option.splits)
    note len1 = getEsc_shorter [OF e]
    show ?thesis
    proof (cases "hd c1 = CHR ''-''")
      case True
      with "1.prems" False e obtain hi c2 where e2: "getEsc (tl c1) = Some (hi, c2)"
        by (auto simp: class_loop.simps [of r chunk m seen] split: option.splits)
      have "length rest < length c2"
        using "1.IH"(1) [OF False e refl True e2 refl] "1.prems" False e True e2
        by (simp add: class_loop.simps [of r chunk m seen])
      with getEsc_shorter [OF e2] len1 show ?thesis by simp
    next
      case F: False
      have "length rest < length c1"
        using "1.IH"(2) [OF False e refl F] "1.prems" False e F
        by (simp add: class_loop.simps [of r chunk m seen])
      with len1 show ?thesis by simp
    qed
  qed
qed

lemma class_body_shorter:
  assumes "class_loop r (if negated then tl cs else cs) m seen = Some (m', rest)"
  shows "length rest < Suc (length cs)"
  using class_loop_shorter [OF assms] by (cases negated) auto

declare class_loop.simps [simp del]

function matchChunk_loop :: "bool \<Rightarrow> string \<Rightarrow> string \<Rightarrow> (string \<times> bool) option" where
  "matchChunk_loop failed [] s = Some (if failed then ([], False) else (s, True))"
| "matchChunk_loop failed (c # cs) s =
     (let failed' = (failed \<or> s = []) in
      if c = CHR ''['' then
        (let r = (if failed' then CHR 0x00 else hd s);
             s' = (if failed' then s else tl s);
             negated = (cs \<noteq> [] \<and> hd cs = CHR ''^'');
             body = (if negated then tl cs else cs)
         in (case class_loop r body False False of
               None \<Rightarrow> None
             | Some (match, rest) \<Rightarrow> matchChunk_loop (failed' \<or> match = negated) rest s'))
      else if c = CHR ''?'' then
        (if failed' then matchChunk_loop True cs s
         else matchChunk_loop (hd s = sep_char) cs (tl s))
      else if c = backslash then
        (case cs of
           [] \<Rightarrow> None
         | d # ds \<Rightarrow> (if failed' then matchChunk_loop True ds s
                     else matchChunk_loop (d \<noteq> hd s) ds (tl s)))
      else (if failed' then matchChunk_loop True cs s
            else matchChunk_loop (c \<noteq> hd s) cs (tl s)))"
  by pat_completeness auto
termination
  by (relation "measure (\<lambda>(f, chunk, s). length chunk)")
    (auto dest: class_body_shorter simp del: if_split)

definition matchChunk :: "string \<Rightarrow> string \<Rightarrow> (string \<times> bool) option" where
  "matchChunk chunk s = matchChunk_loop False chunk s"

text \<open>A star: try the chunk after every prefix without a separator. \<open>Some None\<close> is no match.\<close>

fun star_loop :: "string \<Rightarrow> bool \<Rightarrow> string \<Rightarrow> string option option" where
  "star_loop chunk final [] = Some None"
| "star_loop chunk final (c # cs) =
     (if c = sep_char then Some None
      else (case matchChunk chunk cs of
          None \<Rightarrow> None
        | Some (t, ok) \<Rightarrow>
            if ok then (if final \<and> t \<noteq> [] then star_loop chunk final cs else Some (Some t))
            else star_loop chunk final cs))"

lemma scan_loop_append: "fst (scan_loop b p) @ snd (scan_loop b p) = p"
proof (induction b p rule: scan_loop.induct)
  case (2 b c cs)
  show ?case
  proof (cases "c = backslash")
    case True
    show ?thesis
    proof (cases cs)
      case (Cons d ds)
      from 2(1) [OF True Cons] True Cons show ?thesis by (simp add: case_prod_beta)
    qed (simp add: True)
  next
    case False
    show ?thesis
    proof (cases "c = star_char \<and> \<not> b")
      case F: False
      from 2(2) [OF False F refl] False F show ?thesis by (simp add: case_prod_beta Let_def)
    qed simp
  qed
qed simp

lemma scan_loop_nonempty: "c \<noteq> star_char \<Longrightarrow> fst (scan_loop False (c # cs)) \<noteq> []"
  by (cases "c = backslash"; cases cs) (simp_all add: case_prod_beta Let_def)

lemma scanChunk_shorter:
  assumes "pat \<noteq> []" and "scanChunk pat = (star, chunk, rest)"
  shows "length rest < length pat"
proof -
  let ?body = "dropWhile (\<lambda>c. c = star_char) pat"
  have sc: "chunk = fst (scan_loop False ?body)" "rest = snd (scan_loop False ?body)"
    using assms(2) by (auto simp: scanChunk_def Let_def split: prod.splits)
  have len: "length chunk + length rest = length ?body"
    unfolding sc by (metis length_append scan_loop_append)
  have le: "length ?body \<le> length pat" by (rule length_dropWhile_le)
  show ?thesis
  proof (cases "?body = pat")
    case True
    obtain c cs where pat: "pat = c # cs" using assms(1) by (cases pat) auto
    with True have "c \<noteq> star_char" using hd_dropWhile [of "\<lambda>c. c = star_char" pat] by auto
    then have "chunk \<noteq> []" using scan_loop_nonempty [of c cs] by (simp only: sc True pat) simp
    with len True show ?thesis by (cases chunk) simp_all
  next
    case False
    obtain c cs where pat: "pat = c # cs" using assms(1) by (cases pat) auto
    with False have "c = star_char" by (auto split: if_splits)
    with pat have "?body = dropWhile (\<lambda>c. c = star_char) cs" by simp
    then have "length ?body < length pat" using pat length_dropWhile_le [of _ cs]
      by (simp add: le_imp_less_Suc)
    with len show ?thesis by simp
  qed
qed

text \<open>After a mismatch the rest of the pattern is only checked for well-formedness.\<close>

function check_rest :: "string \<Rightarrow> bool option" where
  "check_rest pat =
     (if pat = [] then Some False
      else (let (star, chunk, rest) = scanChunk pat in
        (case matchChunk chunk [] of None \<Rightarrow> None | Some _ \<Rightarrow> check_rest rest)))"
  by pat_completeness auto
termination
  by (relation "measure length") (auto intro: scanChunk_shorter simp: eq_commute)

function glob_match :: "string \<Rightarrow> string \<Rightarrow> bool option" where
  "glob_match pat name =
     (if pat = [] then Some (name = [])
      else (let (star, chunk, rest) = scanChunk pat in
        if star \<and> chunk = [] then Some (sep_char \<notin> set name)
        else (case matchChunk chunk name of
            None \<Rightarrow> None
          | Some (t, ok) \<Rightarrow>
              if ok \<and> (t = [] \<or> rest \<noteq> []) then glob_match rest t
              else if star then
                (case star_loop chunk (rest = []) name of
                   None \<Rightarrow> None
                 | Some (Some t') \<Rightarrow> glob_match rest t'
                 | Some None \<Rightarrow> check_rest rest)
              else check_rest rest)))"
  by pat_completeness auto
termination
  by (relation "measure (\<lambda>(pat, name). length pat)") (auto intro: scanChunk_shorter simp: eq_commute)

declare check_rest.simps [simp del] glob_match.simps [simp del]

section \<open>Literal patterns and trailing stars\<close>

text \<open>A plain character has no meaning of its own in a pattern.\<close>

definition plain :: "char \<Rightarrow> bool" where
  "plain c \<longleftrightarrow> c \<notin> {star_char, CHR ''?'', CHR ''['', backslash}"

lemma scan_loop_plain:
  "\<forall>c \<in> set p. plain c \<Longrightarrow> scan_loop False (p @ q) = (p @ fst (scan_loop False q), snd (scan_loop False q))"
  by (induction p) (simp_all add: plain_def Let_def case_prod_beta)

lemma scanChunk_plain:
  assumes "\<forall>c \<in> set p. plain c" and "p \<noteq> []"
  shows "scanChunk p = (False, p, [])" and "scanChunk (p @ ''*'') = (False, p, ''*'')"
proof -
  have *: "dropWhile (\<lambda>c. c = star_char) (p @ q) = p @ q" for q
    using assms by (cases p) (auto simp: plain_def)
  show "scanChunk p = (False, p, [])"
    using scan_loop_plain [OF assms(1), of "[]"] * [of "[]"] by (simp add: scanChunk_def)
  show "scanChunk (p @ ''*'') = (False, p, ''*'')"
    using scan_loop_plain [OF assms(1), of "''*''"] * [of "''*''"] by (simp add: scanChunk_def)
qed

lemma scanChunk_star: "scanChunk ''*'' = (True, [], [])"
  by (simp add: scanChunk_def)

lemma matchChunk_loop_failed:
  "\<forall>c \<in> set p. plain c \<Longrightarrow> matchChunk_loop True p s = Some ([], False)"
  by (induction p) (simp_all add: plain_def Let_def)

lemma matchChunk_plain:
  assumes "\<forall>c \<in> set p. plain c"
  shows "matchChunk p s = Some (if take (length p) s = p then (drop (length p) s, True) else ([], False))"
  unfolding matchChunk_def using assms
proof (induction p arbitrary: s)
  case (Cons c cs)
  then have c: "c \<noteq> CHR ''[''" "c \<noteq> CHR ''?''" "c \<noteq> backslash" and cs: "\<forall>c \<in> set cs. plain c"
    by (auto simp: plain_def)
  show ?case
  proof (cases s)
    case Nil
    with c show ?thesis by (simp add: matchChunk_loop_failed [OF cs])
  next
    case s: (Cons d ds)
    show ?thesis
    proof (cases "c = d")
      case True
      have "matchChunk_loop False (c # cs) s = matchChunk_loop False cs ds"
        using c by (simp add: s True)
      with Cons.IH [OF cs, of ds] show ?thesis by (simp add: s True)
    next
      case False
      with c have "matchChunk_loop False (c # cs) s = matchChunk_loop True cs ds"
        by (simp add: s)
      with False show ?thesis by (simp add: s matchChunk_loop_failed [OF cs])
    qed
  qed
qed simp

lemma check_rest_simple: "check_rest [] = Some False" "check_rest ''*'' = Some False"
  by (simp_all add: check_rest.simps scanChunk_star matchChunk_def)

lemma glob_match_nil: "glob_match [] n = Some (n = [])"
  by (simp add: glob_match.simps)

lemma glob_match_star: "glob_match ''*'' n = Some (sep_char \<notin> set n)"
  by (simp add: glob_match.simps scanChunk_star)

lemma glob_match_literal:
  assumes "\<forall>c \<in> set p. plain c"
  shows "glob_match p n = Some (p = n)"
proof (cases "p = []")
  case False
  have "take (length p) n = p \<and> drop (length p) n = [] \<longleftrightarrow> p = n" by auto
  then show ?thesis
    using False scanChunk_plain(1) [OF assms False] matchChunk_plain [OF assms, of n]
    by (auto simp: glob_match.simps [of p] glob_match_nil check_rest_simple)
qed (auto simp: glob_match_nil)

lemma glob_match_prefix:
  assumes "\<forall>c \<in> set p. plain c"
  shows "glob_match (p @ ''*'') n = Some (take (length p) n = p \<and> sep_char \<notin> set (drop (length p) n))"
proof (cases "p = []")
  case False
  then show ?thesis
    using scanChunk_plain(2) [OF assms False] matchChunk_plain [OF assms, of n]
    by (simp add: glob_match.simps [of "p @ ''*''"] glob_match_star check_rest_simple)
qed (simp add: glob_match_star)

section \<open>Slashes\<close>

text \<open>A pattern with no slash and no class, which alone can match a slash otherwise, matches no name with
  a slash.\<close>

definition classless :: "string \<Rightarrow> bool" where
  "classless p = (sep_char \<notin> set p \<and> CHR ''['' \<notin> set p)"

lemma matchChunk_loop_classless:
  "matchChunk_loop failed p s = Some (t, True) \<Longrightarrow> classless p \<Longrightarrow> \<not> failed \<and> (\<exists>u. s = u @ t \<and> sep_char \<notin> set u)"
proof (induction failed p s arbitrary: t rule: matchChunk_loop.induct)
  case (2 failed c cs s)
  have c: "c \<noteq> CHR ''[''" "c \<noteq> sep_char" "classless cs" using "2.prems"(2) by (auto simp: classless_def)
  have False if "failed \<or> s = []"
    using that "2.prems"(1) c "2.IH"(2,4,6) by (auto split: if_splits list.splits simp: classless_def)
  then obtain d ds where s: "s = d # ds" and f: "\<not> failed" by (cases s) auto
  consider (any) "c = CHR ''?''" | (quote) e es where "c = backslash" "cs = e # es" | (plain) "c \<noteq> CHR ''?''" "c \<noteq> backslash"
    using "2.prems"(1) c(1) by (cases "c = CHR ''?''"; cases "c = backslash"; cases cs) (auto simp: Let_def)
  then show ?case
  proof cases
    case any
    with "2.prems"(1) s f have m: "matchChunk_loop (d = sep_char) cs ds = Some (t, True)" by simp
    from "2.IH"(3) [OF refl c(1) any] s f m c(3) have "d \<noteq> sep_char \<and> (\<exists>u. ds = u @ t \<and> sep_char \<notin> set u)" by simp
    then obtain u where "d \<noteq> sep_char" "ds = u @ t" "sep_char \<notin> set u" by blast
    with s f show ?thesis by (intro conjI exI [of _ "d # u"]) auto
  next
    case quote
    have e: "classless es" "e \<noteq> sep_char" using c(3) quote(2) by (auto simp: classless_def)
    from quote "2.prems"(1) s f have m: "matchChunk_loop (e \<noteq> d) es ds = Some (t, True)" by simp
    from "2.IH"(5) [OF refl c(1) _ quote] quote(1) s f m e(1) have "d = e \<and> (\<exists>u. ds = u @ t \<and> sep_char \<notin> set u)" by simp
    then obtain u where "d = e" "ds = u @ t" "sep_char \<notin> set u" by blast
    with s f e(2) show ?thesis by (intro conjI exI [of _ "d # u"]) auto
  next
    case plain
    with "2.prems"(1) s f c(1) have m: "matchChunk_loop (c \<noteq> d) cs ds = Some (t, True)" by simp
    from "2.IH"(7) [OF refl c(1) plain] s f m c(3) have "d = c \<and> (\<exists>u. ds = u @ t \<and> sep_char \<notin> set u)" by simp
    then obtain u where "d = c" "ds = u @ t" "sep_char \<notin> set u" by blast
    with s f c(2) show ?thesis by (intro conjI exI [of _ "d # u"]) auto
  qed
qed (simp split: if_splits)

lemma star_loop_classless:
  "star_loop p final s = Some (Some t) \<Longrightarrow> classless p \<Longrightarrow> \<exists>u. s = u @ t \<and> sep_char \<notin> set u"
proof (induction p final s rule: star_loop.induct)
  case (2 p final c cs)
  have c: "c \<noteq> sep_char" using "2.prems"(1) by (auto split: if_splits)
  obtain t' ok where m: "matchChunk p cs = Some (t', ok)" using "2.prems"(1) c by (cases "matchChunk p cs") auto
  show ?case
  proof (cases "ok \<and> \<not> (final \<and> t' \<noteq> [])")
    case True
    with "2.prems"(1) c m have "t' = t" by auto
    with m True matchChunk_loop_classless [of False p cs t] "2.prems"(2) obtain u where "cs = u @ t" "sep_char \<notin> set u"
      by (auto simp: matchChunk_def)
    with c show ?thesis by (intro exI [of _ "c # u"]) auto
  next
    case False
    with "2.prems"(1) c m have l: "star_loop p final cs = Some (Some t)" by (auto split: if_splits)
    from False "2.IH" [OF c m refl] l "2.prems"(2) obtain u where "cs = u @ t" "sep_char \<notin> set u" by (cases ok) auto
    with c show ?thesis by (intro exI [of _ "c # u"]) auto
  qed
qed simp

lemma scanChunk_classless:
  assumes "scanChunk pat = (star, chunk, rest)" and "classless pat"
  shows "classless chunk" and "classless rest"
proof -
  let ?body = "dropWhile (\<lambda>c. c = star_char) pat"
  have "chunk @ rest = ?body"
    using assms(1) scan_loop_append [of False ?body] by (auto simp: scanChunk_def Let_def split: prod.splits)
  moreover have "set ?body \<subseteq> set pat" by (auto dest: set_dropWhileD)
  ultimately have "set chunk \<subseteq> set pat" "set rest \<subseteq> set pat" by (metis set_append le_sup_iff)+
  with assms(2) show "classless chunk" "classless rest" by (auto simp: classless_def)
qed

lemma check_rest_not_True: "check_rest pat \<noteq> Some True"
  by (induction pat rule: check_rest.induct) (subst check_rest.simps, auto split: option.splits prod.splits simp: Let_def)

lemma glob_match_classless: "glob_match pat name = Some True \<Longrightarrow> classless pat \<Longrightarrow> sep_char \<notin> set name"
proof (induction pat name rule: glob_match.induct)
  case (1 pat name)
  show ?case
  proof (cases "pat = []")
    case False
    obtain star chunk rest where sc: "scanChunk pat = (star, chunk, rest)" by (metis prod_cases3)
    note cl = scanChunk_classless [OF sc "1.prems"(2)]
    note g = "1.prems"(1) [unfolded glob_match.simps [of pat], simplified False sc Let_def split, simplified]
    show ?thesis
    proof (cases "star \<and> chunk = []")
      case True
      with g show ?thesis by simp
    next
      case ns: False
      with g obtain t ok where m: "matchChunk chunk name = Some (t, ok)" by (cases "matchChunk chunk name") auto
      show ?thesis
      proof (cases "ok \<and> (t = [] \<or> rest \<noteq> [])")
        case True
        with g ns m have "glob_match rest t = Some True" by auto
        from "1.IH"(1) [OF False sc [symmetric] refl refl ns m refl] True this cl(2) have "sep_char \<notin> set t" by auto
        moreover obtain u where "name = u @ t" "sep_char \<notin> set u"
          using matchChunk_loop_classless [of False chunk name t] m True cl(1) by (auto simp: matchChunk_def)
        ultimately show ?thesis by simp
      next
        case nm: False
        with g ns m check_rest_not_True obtain t' where st: star "star_loop chunk (rest = []) name = Some (Some t')"
          "glob_match rest t' = Some True" by (auto split: if_splits option.splits)
        from "1.IH"(2) [OF False sc [symmetric] refl refl ns m refl nm st(1,2) refl] st(3) cl(2) have "sep_char \<notin> set t'" by auto
        moreover obtain u where "name = u @ t'" "sep_char \<notin> set u"
          using star_loop_classless [OF st(2) cl(1)] by blast
        ultimately show ?thesis by simp
      qed
    qed
  qed (use "1.prems" in \<open>simp add: glob_match_nil\<close>)
qed

end
