(* ===== verification/Resource_Model.thy ===== *)
theory Resource_Model
  imports Algorithm_Props Glob
begin

text \<open>
  One resource (\<open>go/server/doorman/resource.go\<close>): its lease store, the algorithm and the learner
  its configuration selects, the end of its learning mode, and the time its own capacity expires
  when a parent server granted it. The fields that hold functions and pointers are options, nil
  being \<open>None\<close>. Each operation takes the resource's mutex for its whole length, so it is one
  atomic function here. Every reading of the clock is an argument.
\<close>

section \<open>The code\<close>

record Resource =
  res_ID :: string
  res_store :: leaseStoreImpl
  res_algorithm :: "Algorithm option"
  res_learner :: "Algorithm option"
  res_learningModeEndTime :: time
  res_config :: "ResourceTemplate option"
  res_expiryTime :: "time option"

definition resource_capacity :: "Resource \<Rightarrow> time \<Rightarrow> f64" where
  "resource_capacity res now =
     (if (case res_expiryTime res of None \<Rightarrow> False | Some t \<Rightarrow> Before t now) then Fin 0
      else ResourceTemplate_GetCapacity (res_config res))"

definition resource_Release :: "Resource \<Rightarrow> string \<Rightarrow> Resource" where
  "resource_Release res client = res\<lparr>res_store := store_Release (res_store res) client\<rparr>"

definition SetSafeCapacity :: "Resource \<Rightarrow> ResourceResponse \<Rightarrow> panic + ResourceResponse" where
  "SetSafeCapacity res resp = (case res_config res of
       None \<Rightarrow> Inl NilDereference
     | Some cfg \<Rightarrow> (case tpl_SafeCapacity cfg of
           None \<Rightarrow> (case tpl_Capacity cfg of
               None \<Rightarrow> Inl NilDereference
             | Some c \<Rightarrow> Inr (resp\<lparr>rrsp_SafeCapacity := Some (c / float64 (store_Count (res_store res)))\<rparr>))
         | Some sc \<Rightarrow> Inr (resp\<lparr>rrsp_SafeCapacity := Some sc\<rparr>)))"

text \<open>
  \<open>Decide\<close> reads the clock up to four times: to clean the store, to see whether learning mode is
  over, to see whether the resource has expired, and (in the store) to compute the lease's expiry.
\<close>

record decide_clock =
  at_clean :: time
  at_mode :: time
  at_capacity :: time
  at_assign :: time

definition in_learning_mode :: "Resource \<Rightarrow> time \<Rightarrow> bool" where
  "in_learning_mode res now = After (res_learningModeEndTime res) now"

definition resource_Decide :: "Resource \<Rightarrow> decide_clock \<Rightarrow> Request \<Rightarrow> panic + Resource \<times> Lease" where
  "resource_Decide res clk request =
     (let store = fst (store_Clean (res_store res) (at_clean clk));
          algo = (if in_learning_mode res (at_mode clk) then res_learner res else res_algorithm res)
      in (case algo of
          None \<Rightarrow> Inl NilFunctionCall
        | Some f \<Rightarrow>
            (let (store', lease) = f store (at_assign clk) (resource_capacity res (at_capacity clk)) request
             in Inr (res\<lparr>res_store := store'\<rparr>, lease))))"

definition resource_LoadConfig :: "Resource \<Rightarrow> ResourceTemplate option \<Rightarrow> time option \<Rightarrow> panic + Resource" where
  "resource_LoadConfig res cfg expiryTime =
     (let algo = ResourceTemplate_GetAlgorithm cfg
      in bind_panic (GetAlgorithm algo) (\<lambda>alg.
           Inr (res\<lparr>res_config := cfg, res_expiryTime := expiryTime,
                  res_algorithm := Some alg, res_learner := Some (Learn algo)\<rparr>)))"

definition resource_Matches :: "Resource \<Rightarrow> ResourceTemplate option \<Rightarrow> bool" where
  "resource_Matches res cfg =
     (let glob = ResourceTemplate_GetIdentifierGlob cfg;
          matches = (case glob_match glob (res_ID res) of None \<Rightarrow> False | Some m \<Rightarrow> m)
      in glob = res_ID res \<or> matches)"

record ResourceStatus =
  rst_ID :: string
  rst_SumHas :: f64
  rst_SumWants :: f64
  rst_Capacity :: f64
  rst_Count :: int64
  rst_InLearningMode :: bool
  rst_Algorithm :: "pb_Algorithm option"

text \<open>Reading \<open>res.config.Algorithm\<close> needs a configuration; the two readings of the clock are
  arguments.\<close>

definition resource_Status :: "Resource \<Rightarrow> time \<Rightarrow> time \<Rightarrow> panic + ResourceStatus" where
  "resource_Status res now1 now2 = (case res_config res of
       None \<Rightarrow> Inl NilDereference
     | Some cfg \<Rightarrow> Inr \<lparr>rst_ID = res_ID res,
         rst_SumHas = store_SumHas (res_store res),
         rst_SumWants = store_SumWants (res_store res),
         rst_Capacity = resource_capacity res now1,
         rst_Count = store_Count (res_store res),
         rst_InLearningMode = in_learning_mode res now2,
         rst_Algorithm = tpl_Algorithm cfg\<rparr>)"

definition resource_ResourceLeaseStatus :: "Resource \<Rightarrow> ResourceLeaseStatus" where
  "resource_ResourceLeaseStatus res = store_ResourceLeaseStatus (res_store res)"

section \<open>Well-formed resources\<close>

text \<open>
  \<open>configured res\<close>: the algorithm and the learner are those of the configuration on record.
  \<open>LoadConfig\<close> establishes it and no other operation touches these fields.
\<close>

definition configured :: "Resource \<Rightarrow> bool" where
  "configured res = (case res_config res of None \<Rightarrow> False
     | Some cfg \<Rightarrow> (case GetAlgorithm (tpl_Algorithm cfg) of Inl _ \<Rightarrow> False
         | Inr alg \<Rightarrow> res_algorithm res = Some alg \<and> res_learner res = Some (Learn (tpl_Algorithm cfg))))"

lemma configuredE:
  assumes "configured res"
  obtains cfg alg where "res_config res = Some cfg" "GetAlgorithm (tpl_Algorithm cfg) = Inr alg"
    "res_algorithm res = Some alg" "res_learner res = Some (Learn (tpl_Algorithm cfg))"
  using assms by (auto simp: configured_def split: option.splits sum.splits)

lemma configured_store [simp]: "configured (res\<lparr>res_store := s\<rparr>) = configured res"
  by (simp add: configured_def split: option.split sum.split)

lemma configured_LoadConfig:
  "resource_LoadConfig res (Some cfg) t = Inr res' \<Longrightarrow> configured res'"
  by (auto simp: resource_LoadConfig_def configured_def ResourceTemplate_GetAlgorithm_def Let_def)

definition resource_wf :: "Resource \<Rightarrow> bool" where
  "resource_wf res = (configured res \<and> distinct_keys (ls_leases (res_store res)))"

text \<open>In addition the totals of the store may be right, and all its amounts finite.\<close>

definition resource_ok :: "Resource \<Rightarrow> bool" where
  "resource_ok res = (configured res \<and> store_ok (res_store res))"

lemma resource_ok_wf: "resource_ok res \<Longrightarrow> resource_wf res"
  by (simp add: resource_ok_def resource_wf_def impl.ok_distinct)

lemma resource_wf_Release: "resource_wf res \<Longrightarrow> resource_wf (resource_Release res c)"
  by (simp add: resource_wf_def resource_Release_def store_Release_leases distinct_keys_del)

lemma resource_ok_Release: "resource_ok res \<Longrightarrow> resource_ok (resource_Release res c)"
  by (simp add: resource_ok_def resource_Release_def impl.ok_release)

text \<open>\<open>live now es\<close> is what \<open>Clean\<close> leaves.\<close>

definition live :: "time \<Rightarrow> (string \<times> Lease) list \<Rightarrow> (string \<times> Lease) list" where
  "live now es = filter (\<lambda>(c, l). \<not> After now (lease_Expiry l)) es"

lemma clean_live:
  "distinct_keys (ls_leases s) \<Longrightarrow> ls_leases (fst (store_Clean s now)) = live now (ls_leases s)"
  by (simp add: live_def store_Clean_leases)

lemma distinct_keys_live: "distinct_keys es \<Longrightarrow> distinct_keys (live now es)"
  by (simp add: live_def distinct_map_filter)

lemma int_subclients_filter_le:
  "list_all (\<lambda>(c, l). 1 \<le> n_of l) es \<Longrightarrow> int_subclients (filter P es) \<le> int_subclients es"
  by (induction es) auto

lemma counts_ok_clean:
  assumes "store_ok s" and "counts_ok s r"
  shows "counts_ok (fst (store_Clean s now)) r"
proof -
  have all: "list_all (\<lambda>(c, l). 1 \<le> n_of l) (ls_leases s)" using assms(2) by (simp add: counts_ok_def)
  then have "list_all (\<lambda>(c, l). 1 \<le> n_of l) (live now (ls_leases s))"
    by (auto simp: live_def list_all_iff)
  moreover have "int_subclients (live now (ls_leases s)) \<le> int_subclients (ls_leases s)"
    unfolding live_def using all by (rule int_subclients_filter_le)
  ultimately show ?thesis using assms by (auto simp: counts_ok_def clean_live impl.ok_distinct)
qed

text \<open>Whatever algorithm is in force, \<open>Decide\<close> cleans and then assigns one lease.\<close>

lemma Decide_assign:
  assumes "configured res"
  obtains alg cfg h where "res_config res = Some cfg"
    "alg = (if in_learning_mode res (at_mode clk) then Learn (tpl_Algorithm cfg) else the (res_algorithm res))"
    "resource_Decide res clk r =
      (let (s, lease) = store_Assign (fst (store_Clean (res_store res) (at_clean clk))) (at_assign clk)
          (req_Client r) (seconds (Algorithm_GetLeaseLength (tpl_Algorithm cfg)))
          (seconds (Algorithm_GetRefreshInterval (tpl_Algorithm cfg))) h (req_Wants r) (req_Subclients r)
       in Inr (res\<lparr>res_store := s\<rparr>, lease))"
    "h = lease_Has (snd (alg (fst (store_Clean (res_store res) (at_clean clk))) (at_assign clk)
      (resource_capacity res (at_capacity clk)) r))"
proof -
  obtain cfg alg where c: "res_config res = Some cfg" "GetAlgorithm (tpl_Algorithm cfg) = Inr alg"
    "res_algorithm res = Some alg" "res_learner res = Some (Learn (tpl_Algorithm cfg))"
    using assms by (rule configuredE)
  let ?s = "fst (store_Clean (res_store res) (at_clean clk))" and ?c = "resource_capacity res (at_capacity clk)"
  show thesis
  proof (cases "in_learning_mode res (at_mode clk)")
    case True
    show thesis
      by (rule that [OF c(1) refl _ refl])
        (use c True learn.alg_assign [of "tpl_Algorithm cfg" ?s "at_assign clk" ?c r]
         in \<open>simp add: resource_Decide_def Let_def\<close>)
  next
    case False
    show thesis
      by (rule that [OF c(1) refl _ refl])
        (use c False GetAlgorithm_assign [OF c(2), of ?s "at_assign clk" ?c r]
         in \<open>simp add: resource_Decide_def Let_def\<close>)
  qed
qed

end
