(* ===== verification/Resource_Props.thy ===== *)
theory Resource_Props
  imports Resource_Model
begin

text \<open>
  Properties of one resource: the effect of \<open>Decide\<close> on the store, the capacity bound after a
  decision, what learning mode recovers, and when grants are not negative.
\<close>

section \<open>Lemmas\<close>

lemma map_of_live:
  assumes "distinct_keys es"
  shows "map_of (live now es) c =
    (case map_of es c of None \<Rightarrow> None | Some l \<Rightarrow> if After now (lease_Expiry l) then None else Some l)"
  using assms
proof (induction es)
  case (Cons e es)
  then show ?case
    by (cases e) (auto simp: live_def map_of_eq_None_iff split: option.splits)
qed (simp add: live_def)

lemma Decide_sharing:
  assumes "resource_ok res" and "\<not> in_learning_mode res (at_mode clk)"
    and "res_config res = Some cfg" and "res_algorithm res = Some alg"
    and "alg = FairShare (tpl_Algorithm cfg) \<or> alg = ProportionalShare (tpl_Algorithm cfg)"
    and "counts_ok (res_store res) r" and "isFinite (req_Wants r)"
    and "resource_capacity res (at_capacity clk) = Fin cap" and "0 \<le> cap"
  shows "\<exists>s lease. resource_Decide res clk r = Inr (res\<lparr>res_store := s\<rparr>, lease) \<and>
     (s, lease) = alg (fst (store_Clean (res_store res) (at_clean clk))) (at_assign clk) (Fin cap) r \<and>
     store_ok s \<and> store_SumHas s \<le> Fin cap"
proof -
  let ?s = "fst (store_Clean (res_store res) (at_clean clk))"
  let ?r = "alg ?s (at_assign clk) (Fin cap) r"
  have s: "store_ok (res_store res)" using assms(1) by (simp add: resource_ok_def)
  note pre = impl.ok_clean [OF s, of "at_clean clk"] counts_ok_clean [OF s assms(6), of "at_clean clk"]
    assms(7,9)
  have "store_ok (fst ?r) \<and> store_SumHas (fst ?r) \<le> Fin cap"
    using assms(5) fair_share.capped_ok [OF pre] fair_share.within_capacity [OF pre]
      proportional_share.capped_ok [OF pre] proportional_share.within_capacity [OF pre] by auto
  then show ?thesis
    using assms(2,4,8) by (auto simp: resource_Decide_def split: prod.split)
qed

text \<open>A resource serving a run of requests.\<close>

fun run_resource :: "Resource \<Rightarrow> (decide_clock \<times> Request) list \<Rightarrow> panic + Resource" where
  "run_resource res [] = Inr res"
| "run_resource res ((clk, r) # rs) =
     bind_panic (resource_Decide res clk r) (\<lambda>(res', lease). run_resource res' rs)"

text \<open>The lease a request gets in learning mode: what the client says it has.\<close>

definition learned_lease :: "pb_Algorithm option \<Rightarrow> decide_clock \<times> Request \<Rightarrow> string \<times> Lease" where
  "learned_lease algo = (\<lambda>(clk, r). (req_Client r,
     \<lparr>lease_Expiry = time_Add (at_assign clk) (seconds (Algorithm_GetLeaseLength algo)),
      lease_RefreshInterval = seconds (Algorithm_GetRefreshInterval algo),
      lease_Has = req_Has r, lease_Wants = req_Wants r, lease_Subclients = req_Subclients r\<rparr>))"

lemma Decide_learning:
  assumes "resource_ok res" and "in_learning_mode res (at_mode clk)" and "res_config res = Some cfg"
    and "isFinite (req_Has r)" and "isFinite (req_Wants r)"
    and "req_Client r \<notin> fst ` set (ls_leases (res_store res))"
    and "\<forall>(c, l) \<in> set (ls_leases (res_store res)). \<not> After (at_clean clk) (lease_Expiry l)"
  shows "\<exists>s. resource_Decide res clk r = Inr (res\<lparr>res_store := s\<rparr>, snd (learned_lease (tpl_Algorithm cfg) (clk, r)))
     \<and> store_ok s \<and> ls_leases s = ls_leases (res_store res) @ [learned_lease (tpl_Algorithm cfg) (clk, r)]"
proof -
  let ?s = "fst (store_Clean (res_store res) (at_clean clk))"
  let ?a = "Learn (tpl_Algorithm cfg) ?s (at_assign clk) (resource_capacity res (at_capacity clk)) r"
  have l: "res_learner res = Some (Learn (tpl_Algorithm cfg))" and s: "store_ok (res_store res)"
    using assms(1,3) by (auto simp: resource_ok_def elim: configuredE)
  have es: "ls_leases ?s = ls_leases (res_store res)"
    unfolding clean_live [OF impl.ok_distinct [OF s]] live_def using assms(7) by (auto intro: filter_True)
  have lease: "snd ?a = snd (learned_lease (tpl_Algorithm cfg) (clk, r))"
    by (simp add: Learn_def getAlgorithmParams_def learned_lease_def store_Assign_lease)
  have put: "map_put (ls_leases (res_store res)) (req_Client r) v = ls_leases (res_store res) @ [(req_Client r, v)]" for v
    by (rule map_put_fresh) (use assms(6) in \<open>simp add: map_of_eq_None_iff\<close>)
  have "ls_leases (fst ?a) = ls_leases (res_store res) @ [learned_lease (tpl_Algorithm cfg) (clk, r)]"
    unfolding learn.alg_entries es put lease by (simp add: learned_lease_def)
  moreover have "store_ok (fst ?a)"
    by (rule learn.alg_ok [OF impl.ok_clean [OF s] assms(5)])
      (use assms(4) in \<open>simp add: lease learned_lease_def\<close>)
  ultimately show ?thesis
    using assms(2) l lease
    by (intro exI [of _ "fst ?a"]) (simp add: resource_Decide_def Let_def case_prod_unfold)
qed

text \<open>The conditions under which learning mode sees every client: each reports once, finite
  amounts, while the mode lasts and before any lease it granted expires.\<close>

definition learning_run :: "Resource \<Rightarrow> duration \<Rightarrow> (decide_clock \<times> Request) list \<Rightarrow> bool" where
  "learning_run res len rs = (distinct (map (\<lambda>(clk, r). req_Client r) rs)
     \<and> list_all (\<lambda>(clk, r). in_learning_mode res (at_mode clk) \<and> isFinite (req_Has r) \<and> isFinite (req_Wants r)) rs
     \<and> list_all (\<lambda>(clk, r). list_all (\<lambda>(clk', r'). \<not> After (at_clean clk') (time_Add (at_assign clk) len)) rs) rs)"

lemma learning_fresh:
  assumes "learning_run res (seconds (Algorithm_GetLeaseLength (tpl_Algorithm cfg))) ((clk, r) # rs)"
    and "\<forall>(clk, r) \<in> set rs. req_Client r \<notin> fst ` set ls \<and> (\<forall>(c, l) \<in> set ls. \<not> After (at_clean clk) (lease_Expiry l))"
    and "(clk', r') \<in> set rs"
  shows "req_Client r' \<notin> fst ` set (ls @ [learned_lease (tpl_Algorithm cfg) (clk, r)])"
    and "(c, l) \<in> set (ls @ [learned_lease (tpl_Algorithm cfg) (clk, r)]) \<Longrightarrow> \<not> After (at_clean clk') (lease_Expiry l)"
proof -
  have "req_Client r' \<noteq> req_Client r"
  proof
    assume "req_Client r' = req_Client r"
    moreover have "(\<lambda>(clk, r). req_Client r) (clk', r') \<in> (\<lambda>(clk, r). req_Client r) ` set rs"
      using assms(3) by (rule imageI)
    ultimately show False using assms(1) by (simp add: learning_run_def)
  qed
  with assms(2,3) show "req_Client r' \<notin> fst ` set (ls @ [learned_lease (tpl_Algorithm cfg) (clk, r)])"
    by (fastforce simp: learned_lease_def)
  show "\<not> After (at_clean clk') (lease_Expiry l)" if "(c, l) \<in> set (ls @ [learned_lease (tpl_Algorithm cfg) (clk, r)])"
  proof (cases "(c, l) \<in> set ls")
    case True
    then show ?thesis using assms(2,3) by blast
  next
    case False
    with that have l: "lease_Expiry l = time_Add (at_assign clk) (seconds (Algorithm_GetLeaseLength (tpl_Algorithm cfg)))"
      by (simp add: learned_lease_def)
    from assms(1,3) show ?thesis unfolding l by (auto simp: learning_run_def list_all_iff)
  qed
qed

lemma run_learning:
  assumes "resource_ok res" and "res_config res = Some cfg"
    and "learning_run res (seconds (Algorithm_GetLeaseLength (tpl_Algorithm cfg))) rs"
    and "\<forall>(clk, r) \<in> set rs. req_Client r \<notin> fst ` set (ls_leases (res_store res)) \<and>
      (\<forall>(c, l) \<in> set (ls_leases (res_store res)). \<not> After (at_clean clk) (lease_Expiry l))"
  shows "\<exists>s. run_resource res rs = Inr (res\<lparr>res_store := s\<rparr>) \<and> store_ok s \<and>
     ls_leases s = ls_leases (res_store res) @ map (learned_lease (tpl_Algorithm cfg)) rs"
  using assms
proof (induction rs arbitrary: res)
  case Nil
  then show ?case by (intro exI [of _ "res_store res"]) (simp add: resource_ok_def)
next
  case (Cons e rs)
  obtain clk r where e: "e = (clk, r)" by force
  let ?l = "learned_lease (tpl_Algorithm cfg)"
  have "in_learning_mode res (at_mode clk)" "isFinite (req_Has r)" "isFinite (req_Wants r)"
    "req_Client r \<notin> fst ` set (ls_leases (res_store res))"
    "\<forall>(c, l) \<in> set (ls_leases (res_store res)). \<not> After (at_clean clk) (lease_Expiry l)"
    using Cons.prems(3,4) by (auto simp: learning_run_def e)
  from Decide_learning [OF Cons.prems(1) this(1) Cons.prems(2) this(2-5)]
  obtain s where s: "resource_Decide res clk r = Inr (res\<lparr>res_store := s\<rparr>, snd (?l (clk, r)))"
    "store_ok s" "ls_leases s = ls_leases (res_store res) @ [?l (clk, r)]" by blast
  let ?res = "res\<lparr>res_store := s\<rparr>"
  have "resource_ok ?res" using Cons.prems(1) s(2) by (simp add: resource_ok_def)
  moreover have "learning_run ?res (seconds (Algorithm_GetLeaseLength (tpl_Algorithm cfg))) rs"
    using Cons.prems(3) by (auto simp: learning_run_def e list_all_iff in_learning_mode_def)
  moreover have "\<forall>(clk, r) \<in> set rs. req_Client r \<notin> fst ` set (ls_leases s) \<and>
      (\<forall>(c, l) \<in> set (ls_leases s). \<not> After (at_clean clk) (lease_Expiry l))"
  proof -
    have "\<forall>(clk, r) \<in> set rs. req_Client r \<notin> fst ` set (ls_leases (res_store res)) \<and>
        (\<forall>(c, l) \<in> set (ls_leases (res_store res)). \<not> After (at_clean clk) (lease_Expiry l))"
      using Cons.prems(4) by simp
    note fresh = learning_fresh [OF Cons.prems(3) [unfolded e] this]
    show ?thesis unfolding s(3) by (intro ballI, clarify) (intro conjI fresh(1) ballI, assumption, clarify, rule fresh(2) [THEN notE], assumption+)
  qed
  ultimately obtain s' where "run_resource ?res rs = Inr (?res\<lparr>res_store := s'\<rparr>)" "store_ok s'"
    "ls_leases s' = ls_leases s @ map ?l rs"
    using Cons.IH [of ?res] Cons.prems(2) by auto
  then show ?case by (intro exI [of _ s']) (simp add: e s(1,3))
qed

text \<open>The effect of \<open>Decide\<close> on a well-formed resource.\<close>

lemma Decide_effect:
  assumes "resource_wf res" and "res_config res = Some cfg"
  shows "\<exists>s lease. resource_Decide res clk r = Inr (res\<lparr>res_store := s\<rparr>, lease) \<and>
    distinct_keys (ls_leases s) \<and>
    ls_leases s = map_put (live (at_clean clk) (ls_leases (res_store res))) (req_Client r) lease \<and>
    lease_Expiry lease = time_Add (at_assign clk) (seconds (Algorithm_GetLeaseLength (tpl_Algorithm cfg))) \<and>
    lease_RefreshInterval lease = seconds (Algorithm_GetRefreshInterval (tpl_Algorithm cfg)) \<and>
    lease_Wants lease = req_Wants r \<and> lease_Subclients lease = req_Subclients r"
proof -
  have c: "configured res" and s: "distinct_keys (ls_leases (res_store res))"
    using assms(1) by (simp_all add: resource_wf_def)
  obtain alg cfg' h where d: "res_config res = Some cfg'"
    "resource_Decide res clk r =
      (let (s, lease) = store_Assign (fst (store_Clean (res_store res) (at_clean clk))) (at_assign clk)
          (req_Client r) (seconds (Algorithm_GetLeaseLength (tpl_Algorithm cfg')))
          (seconds (Algorithm_GetRefreshInterval (tpl_Algorithm cfg'))) h (req_Wants r) (req_Subclients r)
       in Inr (res\<lparr>res_store := s\<rparr>, lease))"
    by (rule Decide_assign [OF c])
  let ?a = "store_Assign (fst (store_Clean (res_store res) (at_clean clk))) (at_assign clk)
          (req_Client r) (seconds (Algorithm_GetLeaseLength (tpl_Algorithm cfg)))
          (seconds (Algorithm_GetRefreshInterval (tpl_Algorithm cfg))) h (req_Wants r) (req_Subclients r)"
  have eq: "resource_Decide res clk r = Inr (res\<lparr>res_store := fst ?a\<rparr>, snd ?a)"
    using d assms(2) by (simp add: case_prod_unfold Let_def)
  show ?thesis unfolding eq
    by (intro exI [of _ "fst ?a"] exI [of _ "snd ?a"])
      (simp add: store_Assign_leases store_Assign_lease clean_live [OF s] distinct_keys_put distinct_keys_live s)
qed

section \<open>A concrete resource\<close>

definition example_template :: "Algorithm_Kind \<Rightarrow> ResourceTemplate" where
  "example_template k = \<lparr>tpl_IdentifierGlob = Some ''r'', tpl_Capacity = Some (Fin 100),
     tpl_Algorithm = example_config k, tpl_SafeCapacity = None, tpl_Description = None\<rparr>"

definition example_resource :: "leaseStoreImpl \<Rightarrow> time \<Rightarrow> Resource" where
  "example_resource s t = \<lparr>res_ID = ''r'', res_store = s,
     res_algorithm = Some (FairShare (example_config Algorithm_FAIR_SHARE)),
     res_learner = Some (Learn (example_config Algorithm_FAIR_SHARE)),
     res_learningModeEndTime = t, res_config = Some (example_template Algorithm_FAIR_SHARE),
     res_expiryTime = None\<rparr>"

definition example_clock :: "time \<Rightarrow> decide_clock" where
  "example_clock t = \<lparr>at_clean = t, at_mode = t, at_capacity = t, at_assign = t\<rparr>"

lemma example_resource_ok: "store_ok s \<Longrightarrow> resource_ok (example_resource s t)"
  by (simp add: resource_ok_def configured_def example_resource_def example_template_def example_fair)

section \<open>Properties\<close>

text \<open>C15. The effect of \<open>Decide\<close>: on a configured resource it never panics, changes only the
  store, gives the requesting client a lease for the configured length and refresh interval,
  drops exactly the leases of other clients that had expired when the store was cleaned, and
  leaves every other lease as it was.\<close>

theorem decide_effect:
  assumes "resource_wf res" and "res_config res = Some cfg"
  shows "\<exists>s lease. resource_Decide res clk r = Inr (res\<lparr>res_store := s\<rparr>, lease) \<and>
    lease_Expiry lease = time_Add (at_assign clk) (seconds (Algorithm_GetLeaseLength (tpl_Algorithm cfg))) \<and>
    lease_RefreshInterval lease = seconds (Algorithm_GetRefreshInterval (tpl_Algorithm cfg)) \<and>
    lease_Wants lease = req_Wants r \<and> lease_Subclients lease = req_Subclients r \<and>
    (\<forall>c. map_of (ls_leases s) c =
       (if c = req_Client r then Some lease
        else case map_of (ls_leases (res_store res)) c of None \<Rightarrow> None
          | Some l \<Rightarrow> if After (at_clean clk) (lease_Expiry l) then None else Some l))"
proof -
  have s: "distinct_keys (ls_leases (res_store res))" using assms(1) by (simp add: resource_wf_def)
  obtain s lease where "resource_Decide res clk r = Inr (res\<lparr>res_store := s\<rparr>, lease)"
    "ls_leases s = map_put (live (at_clean clk) (ls_leases (res_store res))) (req_Client r) lease"
    "lease_Expiry lease = time_Add (at_assign clk) (seconds (Algorithm_GetLeaseLength (tpl_Algorithm cfg)))"
    "lease_RefreshInterval lease = seconds (Algorithm_GetRefreshInterval (tpl_Algorithm cfg))"
    "lease_Wants lease = req_Wants r" "lease_Subclients lease = req_Subclients r"
    using Decide_effect [OF assms, of clk r] by blast
  then show ?thesis
    by (intro exI [of _ s] exI [of _ lease]) (simp add: map_of_put map_of_live [OF s])
qed

theorem decide_effect_witness:
  "\<exists>s lease. resource_Decide (example_resource example_store 0) (example_clock 120) example_request =
      Inr ((example_resource example_store 0)\<lparr>res_store := s\<rparr>, lease) \<and> map_of (ls_leases s) ''a'' = None"
  using decide_effect [OF resource_ok_wf [OF example_resource_ok [OF example_store_ok]],
      of 0 "example_template Algorithm_FAIR_SHARE" "example_clock 120" example_request]
  by (auto simp: example_resource_def example_clock_def example_defs After_def)

text \<open>The capacity bound: outside learning mode, a decision of a resource with one of the
  sharing algorithms leaves the capacity handed out within the resource's current capacity
  (nothing, once the parent's grant has expired), however much was handed out before.\<close>

lemma decide_within_capacity:
  assumes "resource_ok res" and "\<not> in_learning_mode res (at_mode clk)"
    and "res_config res = Some cfg"
    and "Algorithm_GetKind (tpl_Algorithm cfg) \<in> {Algorithm_FAIR_SHARE, Algorithm_PROPORTIONAL_SHARE}"
    and "counts_ok (res_store res) r" and "isFinite (req_Wants r)"
    and "resource_capacity res (at_capacity clk) = Fin cap" and "0 \<le> cap"
  shows "\<exists>res' lease. resource_Decide res clk r = Inr (res', lease) \<and> resource_ok res' \<and>
     store_SumHas (res_store res') \<le> Fin cap"
proof -
  obtain cfg' alg where c: "res_config res = Some cfg'" "GetAlgorithm (tpl_Algorithm cfg') = Inr alg"
    "res_algorithm res = Some alg"
    using assms(1) unfolding resource_ok_def by (blast elim: configuredE)
  from c(2) have "alg = FairShare (tpl_Algorithm cfg) \<or> alg = ProportionalShare (tpl_Algorithm cfg)"
    by (cases rule: GetAlgorithm_cases) (use assms(3,4) c(1) in \<open>simp_all add: Algorithm_Kind_defs\<close>)
  from Decide_sharing [OF assms(1-3) c(3) this assms(5-8)] assms(1) show ?thesis
    by (fastforce simp: resource_ok_def)
qed

lemma decide_within_capacity_witness:
  "\<exists>res' lease. resource_Decide (example_resource example_store 0) (example_clock 40) example_request =
      Inr (res', lease) \<and> resource_ok res' \<and> store_SumHas (res_store res') \<le> Fin 100"
  by (rule decide_within_capacity [OF example_resource_ok [OF example_store_ok],
      where cfg = "example_template Algorithm_FAIR_SHARE"])
    (simp_all add: example_resource_def example_template_def example_counts_ok example_wants
      in_learning_mode_def After_def example_clock_def resource_capacity_def
      ResourceTemplate_GetCapacity_def example_config_def Algorithm_GetKind_def)

text \<open>C16. Learning mode recovers the state a new master lost: if every client reports once while
  the mode lasts, a resource that started empty ends up with exactly one lease per client, each
  for the capacity the client said it has, and with the right total.\<close>

theorem learning_recovers:
  assumes "resource_ok res" and "res_config res = Some cfg" and "ls_leases (res_store res) = []"
    and "learning_run res (seconds (Algorithm_GetLeaseLength (tpl_Algorithm cfg))) rs"
  shows "\<exists>s. run_resource res rs = Inr (res\<lparr>res_store := s\<rparr>) \<and>
     map (\<lambda>(c, l). (c, lease_Has l)) (ls_leases s) = map (\<lambda>(clk, r). (req_Client r, req_Has r)) rs \<and>
     store_SumHas s = Fin (sum_list (map (\<lambda>(clk, r). fval (req_Has r)) rs))"
proof -
  obtain s where s: "run_resource res rs = Inr (res\<lparr>res_store := s\<rparr>)" "store_ok s"
    "ls_leases s = map (learned_lease (tpl_Algorithm cfg)) rs"
    using run_learning [OF assms(1,2,4)] assms(3) by auto
  have "store_SumHas s = Fin (sum_list (map (\<lambda>(clk, r). fval (req_Has r)) rs))"
    using impl.ok_sumHas [OF s(2)]
    by (simp add: s(3) total_has_def learned_lease_def case_prod_unfold comp_def)
  then show ?thesis
    using s(1) by (intro exI [of _ s]) (simp add: s(3) learned_lease_def case_prod_unfold)
qed

theorem learning_recovers_witness:
  "\<exists>s. run_resource (example_resource (NewLeaseStore ''r'') 90)
      [(example_clock 40, example_request), (example_clock 41, example_request\<lparr>req_Client := ''a'', req_Has := Fin 60\<rparr>)]
      = Inr ((example_resource (NewLeaseStore ''r'') 90)\<lparr>res_store := s\<rparr>) \<and> store_SumHas s = Fin 80"
  using learning_recovers [OF example_resource_ok [OF store_ok_New], of "''r''" 90 "example_template Algorithm_FAIR_SHARE"
      "[(example_clock 40, example_request), (example_clock 41, example_request\<lparr>req_Client := ''a'', req_Has := Fin 60\<rparr>)]"]
  by (auto simp: example_resource_def NewLeaseStore_def learning_run_def in_learning_mode_def example_clock_def
      example_defs After_def time_Add_def example_template_def Algorithm_GetLeaseLength_def sint_seconds)

end
