(* ===== verification/Server_Model.thy ===== *)
theory Server_Model
  imports Resource_Props
begin

text \<open>
  The server's own state (\<open>go/server/doorman/server.go\<close>): its configuration, the map of
  resources, mastership, and the operations that maintain them. A \<open>*Resource\<close> is an address
  into the server's heap, because the code shares it: a handler keeps the pointer while the map
  may be thrown away by a lost election. Each function below is one critical section of the
  server's mutex. The remote procedure calls are in \<open>Server_Rpc\<close>, the connection to a parent
  server in \<open>Server_Update\<close>.
\<close>

section \<open>State\<close>

record Server =
  srv_ID :: string
  srv_isConfigured :: bool                          \<comment> \<open>whether the channel is closed\<close>
  srv_resources :: "(string \<times> nat) list option"     \<comment> \<open>nil map, or addresses by resource id\<close>
  srv_isMaster :: bool
  srv_becameMasterAt :: time
  srv_currentMaster :: string
  srv_config :: "ResourceRepository option"
  srv_updater :: bool                               \<comment> \<open>whether there is an updater\<close>
  srv_conn :: "duration option"                     \<comment> \<open>the connection's minimum refresh interval\<close>
  srv_handlers :: nat                               \<comment> \<open>how often the election handlers were started\<close>
  srv_heap :: "Resource list"                       \<comment> \<open>every resource ever allocated\<close>

text \<open>Reading the map; a nil map reads as empty.\<close>

definition srv_lookup :: "Server \<Rightarrow> string \<Rightarrow> nat option" where
  "srv_lookup srv i = (case srv_resources srv of None \<Rightarrow> None | Some m \<Rightarrow> map_of m i)"

definition heap_write :: "Server \<Rightarrow> nat \<Rightarrow> Resource \<Rightarrow> Server" where
  "heap_write srv a res = srv\<lparr>srv_heap := (srv_heap srv)[a := res]\<rparr>"

definition defaultPriority :: int64 where "defaultPriority = 1"
definition defaultInterval :: duration where "defaultInterval = Second"

definition defaultResourceTemplate :: ResourceTemplate where
  "defaultResourceTemplate = \<lparr>tpl_IdentifierGlob = Some ''*'', tpl_Capacity = Some (Fin 0),
     tpl_Algorithm = Some \<lparr>alg_Kind = Some Algorithm_FAIR_SHARE, alg_LeaseLength = Some 20,
       alg_RefreshInterval = Some 1, alg_Parameters = [], alg_LearningModeDuration = Some 20\<rparr>,
     tpl_SafeCapacity = Some (Fin 0), tpl_Description = None\<rparr>"

section \<open>Configuration\<close>

text \<open>The check of the algorithm of an entry: an error message, or \<open>None\<close>.\<close>

definition validateAlgorithm :: "pb_Algorithm \<Rightarrow> string option" where
  "validateAlgorithm algo = (case (alg_RefreshInterval algo, alg_LeaseLength algo) of
       (Some refresh, Some lease) \<Rightarrow>
         if sint refresh < 1 then Some ''invalid refresh interval, must be at least 1 second''
         else if sint lease < 1 then Some ''Invalid lease length, must be at least 1 second''
         else if sint lease < sint refresh then Some ''Lease length must be larger than the refresh interval''
         else None
     | _ \<Rightarrow> Some ''must have a refresh interval and a lease length'')"

text \<open>The loop of \<open>validateResourceRepository\<close>: \<open>n\<close> entries in all, at index \<open>i\<close>.\<close>

fun validate_loop :: "nat \<Rightarrow> nat \<Rightarrow> bool \<Rightarrow> ResourceTemplate list \<Rightarrow> string option" where
  "validate_loop n i starFound [] =
     (if \<not> starFound then Some ''the resource respository must contain at least an entry for \"*\"'' else None)"
| "validate_loop n i starFound (res # rest) =
     (let glob = ResourceTemplate_GetIdentifierGlob (Some res) in
      if glob_match glob '' '' = None then Some ''syntax error in pattern''
      else (case (case tpl_Algorithm res of None \<Rightarrow> None | Some algo \<Rightarrow> validateAlgorithm algo) of
          Some err \<Rightarrow> Some err
        | None \<Rightarrow>
            if glob = ''*'' then
              if tpl_Algorithm res = None then Some ''the entry for \"*\" must specify an algorithm''
              else if i + 1 \<noteq> n then Some ''the entry for \"*\" must be the last one''
              else validate_loop n (i + 1) True rest
            else validate_loop n (i + 1) starFound rest))"

definition validateResourceRepository :: "ResourceRepository \<Rightarrow> string option" where
  "validateResourceRepository p = validate_loop (length (repo_Resources p)) 0 False (repo_Resources p)"

definition validateResourceRequest :: "ResourceRequest \<Rightarrow> string option" where
  "validateResourceRequest p =
     (if ResourceRequest_GetResourceId (Some p) = '''' then Some ''resource_id cannot be empty''
      else if ResourceRequest_GetWants (Some p) < Fin 0 then Some ''capacity must be positive''
      else None)"

fun validate_requests :: "ResourceRequest list \<Rightarrow> string option" where
  "validate_requests [] = None"
| "validate_requests (r # rs) =
     (case validateResourceRequest r of Some err \<Rightarrow> Some err | None \<Rightarrow> validate_requests rs)"

definition validateGetCapacityRequest :: "GetCapacityRequest \<Rightarrow> string option" where
  "validateGetCapacityRequest p =
     (if GetCapacityRequest_GetClientId (Some p) = '''' then Some ''client_id cannot be empty''
      else validate_requests (gcq_Resource p))"

text \<open>A literal match first, then the first pattern that matches; otherwise a panic.\<close>

definition findConfigForResource :: "Server \<Rightarrow> string \<Rightarrow> panic + ResourceTemplate" where
  "findConfigForResource srv i = (case srv_config srv of
       None \<Rightarrow> Inl NilDereference
     | Some config \<Rightarrow>
         (case find (\<lambda>tpl. ResourceTemplate_GetIdentifierGlob (Some tpl) = i) (repo_Resources config) of
            Some tpl \<Rightarrow> Inr tpl
          | None \<Rightarrow>
              (case find (\<lambda>tpl. glob_match (ResourceTemplate_GetIdentifierGlob (Some tpl)) i = Some True)
                  (repo_Resources config) of
                 Some tpl \<Rightarrow> Inr tpl
               | None \<Rightarrow> Inl (PanicCall i))))"

section \<open>Resources\<close>

definition GetLearningModeEndTime :: "Server \<Rightarrow> duration \<Rightarrow> time" where
  "GetLearningModeEndTime srv learningModeDuration =
     (if Seconds learningModeDuration \<le> Fin 0 then Unix 0
      else time_Add (srv_becameMasterAt srv) learningModeDuration)"

definition newResource :: "Server \<Rightarrow> string \<Rightarrow> ResourceTemplate option \<Rightarrow> panic + Resource" where
  "newResource srv i cfg =
     bind_panic (resource_LoadConfig
       \<lparr>res_ID = i, res_store = NewLeaseStore i, res_algorithm = None, res_learner = None,
        res_learningModeEndTime = zero_time, res_config = None, res_expiryTime = None\<rparr> cfg None)
     (\<lambda>res. case ResourceTemplate_GetAlgorithm (res_config res) of
          None \<Rightarrow> Inl NilDereference
        | Some algo \<Rightarrow>
            (let learningModeDuration =
               (if alg_LearningModeDuration algo \<noteq> None
                then seconds (Algorithm_GetLearningModeDuration (Some algo))
                else seconds (Algorithm_GetLeaseLength (Some algo)))
             in Inr (res\<lparr>res_learningModeEndTime := GetLearningModeEndTime srv learningModeDuration\<rparr>)))"

definition getOrCreateResource :: "Server \<Rightarrow> string \<Rightarrow> panic + Server \<times> nat" where
  "getOrCreateResource srv i = (case srv_lookup srv i of
       Some a \<Rightarrow> Inr (srv, a)
     | None \<Rightarrow>
         bind_panic (findConfigForResource srv i) (\<lambda>tpl.
         bind_panic (newResource srv i (Some tpl)) (\<lambda>resource.
         (case srv_resources srv of
            None \<Rightarrow> Inl NilMapWrite
          | Some m \<Rightarrow>
              (let a = length (srv_heap srv)
               in Inr (srv\<lparr>srv_heap := srv_heap srv @ [resource], srv_resources := Some (map_put m i a)\<rparr>, a))))))"

text \<open>
  \<open>triggerElection\<close> starts the election and, if that works, the two goroutines that follow it.
  The result of \<open>Election.Run\<close> is an argument.
\<close>

definition triggerElection :: "string option \<Rightarrow> Server \<Rightarrow> Server \<times> string option" where
  "triggerElection run_err srv = (case run_err of
       Some err \<Rightarrow> (srv, Some err)
     | None \<Rightarrow> (srv\<lparr>srv_handlers := srv_handlers srv + 1\<rparr>, None))"

text \<open>The loop of \<open>LoadConfig\<close> over the resources the server already has.\<close>

fun reload_loop :: "(string \<times> time) list \<Rightarrow> (string \<times> nat) list \<Rightarrow> Server \<Rightarrow> panic + Server" where
  "reload_loop expiryTimes [] srv = Inr srv"
| "reload_loop expiryTimes ((i, a) # rest) srv =
     bind_panic (findConfigForResource srv i) (\<lambda>tpl.
     bind_panic (resource_LoadConfig (srv_heap srv ! a) (Some tpl) (map_of expiryTimes i)) (\<lambda>res.
     reload_loop expiryTimes rest (heap_write srv a res)))"

definition server_LoadConfig :: "string option \<Rightarrow> Server \<Rightarrow> ResourceRepository \<Rightarrow> (string \<times> time) list
    \<Rightarrow> panic + Server \<times> string option" where
  "server_LoadConfig run_err srv config expiryTimes = (case validateResourceRepository config of
       Some err \<Rightarrow> Inr (srv, Some err)
     | None \<Rightarrow>
         (let firstTime = (srv_config srv = None);
              srv' = srv\<lparr>srv_config := Some config\<rparr>
          in if firstTime
             then (if srv_isConfigured srv' then Inl ClosedChannel
                   else Inr (triggerElection run_err (srv'\<lparr>srv_isConfigured := True\<rparr>)))
             else bind_panic
               (reload_loop expiryTimes (case srv_resources srv' of None \<Rightarrow> [] | Some m \<Rightarrow> m) srv')
               (\<lambda>srv''. Inr (srv'', None))))"

section \<open>Elections\<close>

definition IsMaster :: "Server \<Rightarrow> bool" where
  "IsMaster srv = srv_isMaster srv"

definition CurrentMaster :: "Server \<Rightarrow> string" where
  "CurrentMaster srv = srv_currentMaster srv"

text \<open>The body of the loop of \<open>handleElectionOutcome\<close>, for one value read from the channel.\<close>

definition handleElectionOutcome :: "time \<Rightarrow> bool \<Rightarrow> Server \<Rightarrow> Server" where
  "handleElectionOutcome now isMaster srv =
     (let srv = srv\<lparr>srv_isMaster := isMaster\<rparr>
      in if isMaster then srv\<lparr>srv_becameMasterAt := now, srv_resources := Some []\<rparr>
         else srv\<lparr>srv_becameMasterAt := Unix 0, srv_resources := None\<rparr>)"

definition handleMasterID :: "string \<Rightarrow> Server \<Rightarrow> Server" where
  "handleMasterID newMaster srv =
     (if newMaster \<noteq> srv_currentMaster srv then srv\<lparr>srv_currentMaster := newMaster\<rparr> else srv)"

section \<open>Creation\<close>

text \<open>
  \<open>NewIntermediate\<close>. The connection to the parent is an argument: \<open>Inl\<close> the error, or the
  minimum refresh interval among the options it was made with. A root server has no parent
  (\<open>addr\<close> is empty) and gets its configuration later. The metrics descriptions are left out.
\<close>

definition NewIntermediate :: "string \<Rightarrow> string \<Rightarrow> (string + duration) \<Rightarrow> string option
    \<Rightarrow> panic + (string + Server)" where
  "NewIntermediate i addr dial run_err =
     (let isRootServer = (addr = '''');
          server = (\<lambda>conn upd. \<lparr>srv_ID = i, srv_isConfigured = False, srv_resources = Some [],
            srv_isMaster = False, srv_becameMasterAt = Unix 0, srv_currentMaster = '''',
            srv_config = None, srv_updater = upd, srv_conn = conn, srv_handlers = 0, srv_heap = []\<rparr>)
      in if isRootServer then Inr (Inr (server None False))
         else (case dial of
             Inl err \<Rightarrow> Inr (Inl err)
           | Inr conn \<Rightarrow>
               bind_panic (server_LoadConfig run_err (server (Some conn) True)
                   \<lparr>repo_Resources = [defaultResourceTemplate]\<rparr> [])
                 (\<lambda>(srv, err). Inr (case err of Some e \<Rightarrow> Inl e | None \<Rightarrow> Inr srv))))"

section \<open>Reports\<close>

record ServerStatus =
  sst_IsMaster :: bool
  sst_CurrentMaster :: string
  sst_Resources :: "(string \<times> ResourceStatus) list"
  sst_Config :: "ResourceRepository option"

fun status_loop :: "time \<Rightarrow> time \<Rightarrow> Server \<Rightarrow> (string \<times> nat) list \<Rightarrow> panic + (string \<times> ResourceStatus) list" where
  "status_loop now1 now2 srv [] = Inr []"
| "status_loop now1 now2 srv ((k, a) # rest) =
     bind_panic (resource_Status (srv_heap srv ! a) now1 now2) (\<lambda>st.
     bind_panic (status_loop now1 now2 srv rest) (\<lambda>sts. Inr ((k, st) # sts)))"

text \<open>\<open>Status\<close>; the configuration is reported as the message itself, not as its text.\<close>

definition server_Status :: "Server \<Rightarrow> time \<Rightarrow> time \<Rightarrow> panic + ServerStatus" where
  "server_Status srv now1 now2 =
     bind_panic (status_loop now1 now2 srv (case srv_resources srv of None \<Rightarrow> [] | Some m \<Rightarrow> m))
       (\<lambda>resources. Inr \<lparr>sst_IsMaster = srv_isMaster srv, sst_CurrentMaster = srv_currentMaster srv,
          sst_Resources = resources, sst_Config = srv_config srv\<rparr>)"

definition server_ResourceLeaseStatus :: "Server \<Rightarrow> string \<Rightarrow> ResourceLeaseStatus" where
  "server_ResourceLeaseStatus srv i = (case srv_lookup srv i of
       None \<Rightarrow> \<lparr>rls_ID = '''', rls_SumHas = Fin 0, rls_SumWants = Fin 0, rls_Leases = []\<rparr>
     | Some a \<Rightarrow> resource_ResourceLeaseStatus (srv_heap srv ! a))"

end
