(* ===== verification/Server_Config.thy ===== *)
theory Server_Config
  imports Server_Model
begin

text \<open>
  What the server's configuration code guarantees: a declarative account of the validation, which
  template a resource gets, the invariant \<open>server_ok\<close> of the server's state, and its
  preservation by the loading of a configuration, by elections and by the creation of resources.
\<close>

section \<open>Validation\<close>

definition algorithm_valid :: "pb_Algorithm \<Rightarrow> bool" where
  "algorithm_valid algo = (case (alg_RefreshInterval algo, alg_LeaseLength algo) of
       (Some refresh, Some lease) \<Rightarrow> 1 \<le> sint refresh \<and> sint refresh \<le> sint lease
     | _ \<Rightarrow> False)"

abbreviation glob_of :: "ResourceTemplate \<Rightarrow> string" where
  "glob_of tpl \<equiv> ResourceTemplate_GetIdentifierGlob (Some tpl)"

definition template_valid :: "ResourceTemplate \<Rightarrow> bool" where
  "template_valid tpl = (glob_match (glob_of tpl) '' '' \<noteq> None
     \<and> (case tpl_Algorithm tpl of None \<Rightarrow> True | Some algo \<Rightarrow> algorithm_valid algo))"

definition repo_valid :: "ResourceRepository \<Rightarrow> bool" where
  "repo_valid p = (let ts = repo_Resources p in
     list_all template_valid ts \<and> ts \<noteq> [] \<and> glob_of (last ts) = ''*'' \<and> tpl_Algorithm (last ts) \<noteq> None
     \<and> list_all (\<lambda>tpl. glob_of tpl \<noteq> ''*'') (butlast ts))"

lemma validateAlgorithm_None: "validateAlgorithm algo = None \<longleftrightarrow> algorithm_valid algo"
  by (auto simp: validateAlgorithm_def algorithm_valid_def split: option.splits)

lemma template_valid_iff:
  "template_valid tpl \<longleftrightarrow> glob_match (glob_of tpl) '' '' \<noteq> None \<and>
     (case tpl_Algorithm tpl of None \<Rightarrow> None | Some algo \<Rightarrow> validateAlgorithm algo) = None"
  by (auto simp: template_valid_def validateAlgorithm_None split: option.splits)

lemma validate_loop_None:
  "i + length ts = n \<Longrightarrow> validate_loop n i False ts = None \<longleftrightarrow>
     list_all template_valid ts \<and> ts \<noteq> [] \<and> glob_of (last ts) = ''*'' \<and> tpl_Algorithm (last ts) \<noteq> None
     \<and> list_all (\<lambda>tpl. glob_of tpl \<noteq> ''*'') (butlast ts)"
proof (induction ts arbitrary: i)
  case (Cons tpl ts)
  show ?case
  proof (cases "template_valid tpl")
    case False
    then show ?thesis by (auto simp: template_valid_iff Let_def split: option.splits)
  next
    case True
    then obtain b where v: "glob_match (glob_of tpl) '' '' = Some b"
      "(case tpl_Algorithm tpl of None \<Rightarrow> None | Some algo \<Rightarrow> validateAlgorithm algo) = None"
      by (auto simp: template_valid_iff)
    show ?thesis
    proof (cases "glob_of tpl = ''*''")
      case star: True
      have "validate_loop n i False (tpl # ts) = None \<longleftrightarrow> tpl_Algorithm tpl \<noteq> None \<and> ts = []"
        using v star Cons.prems by (cases ts) (simp_all add: Let_def glob_match_star)
      with star True show ?thesis by (auto simp: glob_match_star)
    next
      case False
      have "validate_loop n i False (tpl # ts) = validate_loop n (i + 1) False ts"
        using v False by (simp add: Let_def)
      with Cons.IH [of "i + 1"] Cons.prems False True show ?thesis by auto
    qed
  qed
qed simp

lemma repo_valid_iff: "repo_valid p \<longleftrightarrow> validateResourceRepository p = None"
  unfolding repo_valid_def validateResourceRepository_def Let_def by (simp add: validate_loop_None)

section \<open>The template of a resource\<close>

definition literal_match :: "string \<Rightarrow> ResourceTemplate \<Rightarrow> bool" where
  "literal_match i tpl = (glob_of tpl = i)"

definition pattern_match :: "string \<Rightarrow> ResourceTemplate \<Rightarrow> bool" where
  "pattern_match i tpl = (glob_match (glob_of tpl) i = Some True)"

text \<open>The template at position \<open>k\<close> is the one that applies to \<open>i\<close>.\<close>

definition selected :: "ResourceTemplate list \<Rightarrow> string \<Rightarrow> nat \<Rightarrow> bool" where
  "selected ts i k = (k < length ts \<and>
     (literal_match i (ts ! k) \<and> list_all (\<lambda>t. \<not> literal_match i t) (take k ts)
      \<or> list_all (\<lambda>t. \<not> literal_match i t) ts \<and> pattern_match i (ts ! k)
        \<and> list_all (\<lambda>t. \<not> pattern_match i t) (take k ts)))"

definition covered :: "ResourceTemplate list \<Rightarrow> string \<Rightarrow> bool" where
  "covered ts i = list_ex (\<lambda>t. literal_match i t \<or> pattern_match i t) ts"

lemma find_Some_nth:
  "find P xs = Some x \<Longrightarrow> \<exists>k < length xs. xs ! k = x \<and> P x \<and> list_all (\<lambda>y. \<not> P y) (take k xs)"
proof -
  assume "find P xs = Some x"
  then obtain k where k: "k < length xs" "P (xs ! k)" "x = xs ! k" "\<forall>j<k. \<not> P (xs ! j)"
    by (auto simp: find_Some_iff)
  then have "list_all (\<lambda>y. \<not> P y) (take k xs)" by (auto simp: list_all_iff in_set_conv_nth)
  with k show ?thesis by blast
qed

lemma findConfig_eq:
  "srv_config srv = Some config \<Longrightarrow> findConfigForResource srv i =
     (case find (literal_match i) (repo_Resources config) of Some tpl \<Rightarrow> Inr tpl
      | None \<Rightarrow> (case find (pattern_match i) (repo_Resources config) of Some tpl \<Rightarrow> Inr tpl
        | None \<Rightarrow> Inl (PanicCall i)))"
  by (simp add: findConfigForResource_def literal_match_def [abs_def] pattern_match_def [abs_def] split: option.split)

lemma findConfig_selected:
  assumes "srv_config srv = Some config" and "findConfigForResource srv i = Inr tpl"
  shows "\<exists>k. selected (repo_Resources config) i k \<and> repo_Resources config ! k = tpl"
proof (cases "find (literal_match i) (repo_Resources config)")
  case None
  then have "find (pattern_match i) (repo_Resources config) = Some tpl"
    using assms by (simp add: findConfig_eq split: option.splits)
  from find_Some_nth [OF this] None show ?thesis
    unfolding selected_def by (fastforce simp: find_None_iff list_all_iff)
next
  case (Some t)
  then have "t = tpl" using assms by (simp add: findConfig_eq)
  with find_Some_nth [OF Some] show ?thesis unfolding selected_def by auto
qed

lemma findConfig_covered:
  assumes "srv_config srv = Some config"
  shows "covered (repo_Resources config) i \<longleftrightarrow> (\<exists>tpl. findConfigForResource srv i = Inr tpl)"
proof (cases "find (literal_match i) (repo_Resources config)")
  case None
  have l: "\<forall>t \<in> set (repo_Resources config). \<not> literal_match i t"
    using None by (auto simp: find_None_iff)
  show ?thesis
  proof (cases "find (pattern_match i) (repo_Resources config)")
    case p: None
    then have "\<forall>t \<in> set (repo_Resources config). \<not> pattern_match i t" by (auto simp: find_None_iff)
    with l show ?thesis using assms None p by (auto simp: findConfig_eq covered_def list_ex_iff)
  next
    case p: (Some t)
    from find_Some_nth [OF this] show ?thesis
      using assms None p by (auto simp: findConfig_eq covered_def list_ex_iff)
  qed
next
  case (Some t)
  with find_Some_nth [OF Some] assms show ?thesis
    by (auto simp: findConfig_eq covered_def list_ex_iff)
qed

lemma covered_no_separator:
  assumes "repo_valid config" and "CHR ''/'' \<notin> set i"
  shows "covered (repo_Resources config) i"
proof -
  have "repo_Resources config \<noteq> []" "glob_of (last (repo_Resources config)) = ''*''"
    using assms(1) by (simp_all add: repo_valid_def Let_def)
  then show ?thesis
    using assms(2) unfolding covered_def list_ex_iff
    by (intro bexI [of _ "last (repo_Resources config)"]) (simp_all add: pattern_match_def glob_match_star)
qed

end
