(* ===== verification/Server_State.thy ===== *)
theory Server_State
  imports Server_Config
begin

text \<open>
  The invariant of the server's state, and its preservation: by the creation of resources, by
  elections, and by the loading of a configuration that is \<open>serviceable\<close>.
\<close>

section \<open>The invariant\<close>

definition addresses_ok :: "(string \<times> nat) list \<Rightarrow> Resource list \<Rightarrow> bool" where
  "addresses_ok m heap = (distinct_keys m \<and> distinct (map snd m)
     \<and> list_all (\<lambda>(i, a). a < length heap \<and> res_ID (heap ! a) = i) m)"

definition server_ok :: "Server \<Rightarrow> bool" where
  "server_ok srv =
     ((srv_isConfigured srv \<longleftrightarrow> srv_config srv \<noteq> None)
      \<and> (0 < srv_handlers srv \<longrightarrow> srv_config srv \<noteq> None)
      \<and> (srv_isMaster srv \<longrightarrow> 0 < srv_handlers srv \<and> srv_resources srv \<noteq> None)
      \<and> (case srv_config srv of None \<Rightarrow> srv_resources srv = Some [] | Some config \<Rightarrow> repo_valid config)
      \<and> (case srv_resources srv of None \<Rightarrow> True | Some m \<Rightarrow> addresses_ok m (srv_heap srv))
      \<and> list_all resource_wf (srv_heap srv))"

text \<open>
  Validation lets through entries that the rest of the server cannot work with. An entry is
  \<open>serviceable\<close> if it has an algorithm of a known kind and a capacity (or a safe capacity).
\<close>

definition known_kind :: "Algorithm_Kind \<Rightarrow> bool" where
  "known_kind k = (k \<in> {Algorithm_NO_ALGORITHM, Algorithm_STATIC, Algorithm_PROPORTIONAL_SHARE, Algorithm_FAIR_SHARE})"

definition serviceable :: "ResourceTemplate \<Rightarrow> bool" where
  "serviceable tpl = (tpl_Algorithm tpl \<noteq> None \<and> known_kind (Algorithm_GetKind (tpl_Algorithm tpl))
     \<and> (tpl_Capacity tpl \<noteq> None \<or> tpl_SafeCapacity tpl \<noteq> None))"

definition repo_serviceable :: "ResourceRepository \<Rightarrow> bool" where
  "repo_serviceable config = list_all serviceable (repo_Resources config)"

lemma GetAlgorithm_known: "known_kind (Algorithm_GetKind config) \<Longrightarrow> \<exists>alg. GetAlgorithm config = Inr alg"
  using algorithms_unknown [of "Algorithm_GetKind config"]
  by (auto simp: GetAlgorithm_def known_kind_def split: option.split)

lemma LoadConfig_serviceable:
  assumes "serviceable tpl"
  shows "\<exists>res'. resource_LoadConfig res (Some tpl) t = Inr res' \<and> configured res' \<and>
     res_config res' = Some tpl \<and> res_expiryTime res' = t \<and>
     res_store res' = res_store res \<and> res_ID res' = res_ID res \<and>
     res_learningModeEndTime res' = res_learningModeEndTime res"
proof -
  obtain alg where "GetAlgorithm (tpl_Algorithm tpl) = Inr alg"
    using assms GetAlgorithm_known unfolding serviceable_def by blast
  then show ?thesis
    by (simp add: resource_LoadConfig_def ResourceTemplate_GetAlgorithm_def configured_def)
qed

lemma server_ok_addresses:
  "server_ok srv \<Longrightarrow> srv_resources srv = Some m \<Longrightarrow> addresses_ok m (srv_heap srv)"
  by (simp add: server_ok_def)

lemma server_ok_lookup:
  assumes "server_ok srv" and "srv_lookup srv i = Some a"
  shows "a < length (srv_heap srv)" "res_ID (srv_heap srv ! a) = i" "resource_wf (srv_heap srv ! a)"
proof -
  obtain m where m: "srv_resources srv = Some m" "map_of m i = Some a"
    using assms(2) by (auto simp: srv_lookup_def split: option.splits)
  then have "(i, a) \<in> set m" by (simp add: map_of_SomeD)
  with server_ok_addresses [OF assms(1) m(1)] show a: "a < length (srv_heap srv)" "res_ID (srv_heap srv ! a) = i"
    by (auto simp: addresses_ok_def list_all_iff)
  show "resource_wf (srv_heap srv ! a)"
    using assms(1) a by (simp add: server_ok_def list_all_iff)
qed

lemma addresses_ok_heap_write:
  assumes "addresses_ok m heap" and "res_ID res = res_ID (heap ! a)"
  shows "addresses_ok m (heap[a := res])"
proof -
  have "res_ID (heap[a := res] ! b) = res_ID (heap ! b)" if "b < length heap" for b
    using assms(2) that by (cases "a = b") simp_all
  with assms(1) show ?thesis by (auto simp: addresses_ok_def list_all_iff)
qed

lemma server_ok_heap_write:
  assumes "server_ok srv" and "resource_wf res" and "res_ID res = res_ID (srv_heap srv ! a)"
  shows "server_ok (heap_write srv a res)"
proof -
  have "list_all resource_wf ((srv_heap srv)[a := res])"
    using assms(1,2) set_update_subset_insert [of "srv_heap srv" a res]
    by (auto simp: server_ok_def list_all_iff)
  then show ?thesis
    using assms(1) addresses_ok_heap_write [OF _ assms(3)]
    by (auto simp: server_ok_def heap_write_def split: option.splits)
qed

lemma heap_write_simps [simp]:
  "srv_lookup (heap_write srv a res) = srv_lookup srv"
  "srv_resources (heap_write srv a res) = srv_resources srv"
  "srv_config (heap_write srv a res) = srv_config srv"
  "srv_isMaster (heap_write srv a res) = srv_isMaster srv"
  "srv_becameMasterAt (heap_write srv a res) = srv_becameMasterAt srv"
  "srv_currentMaster (heap_write srv a res) = srv_currentMaster srv"
  "srv_heap (heap_write srv a res) = (srv_heap srv)[a := res]"
  by (simp_all add: heap_write_def srv_lookup_def fun_eq_iff)

section \<open>Creating resources\<close>

definition learning_duration :: "pb_Algorithm option \<Rightarrow> duration" where
  "learning_duration algo = (case algo of None \<Rightarrow> 0
     | Some a \<Rightarrow> (case alg_LearningModeDuration a of Some d \<Rightarrow> seconds d
         | None \<Rightarrow> seconds (Algorithm_GetLeaseLength algo)))"

lemma newResource_serviceable:
  assumes "serviceable tpl"
  shows "\<exists>res. newResource srv i (Some tpl) = Inr res \<and> resource_wf res \<and> res_ID res = i \<and>
     res_store res = NewLeaseStore i \<and> res_config res = Some tpl \<and> res_expiryTime res = None \<and>
     res_learningModeEndTime res = GetLearningModeEndTime srv (learning_duration (tpl_Algorithm tpl))"
proof -
  obtain algo where a: "tpl_Algorithm tpl = Some algo" using assms by (auto simp: serviceable_def)
  let ?blank = "\<lparr>res_ID = i, res_store = NewLeaseStore i, res_algorithm = None, res_learner = None,
        res_learningModeEndTime = zero_time, res_config = None, res_expiryTime = None\<rparr>"
  obtain res where res: "resource_LoadConfig ?blank (Some tpl) None = Inr res" "configured res"
    "res_config res = Some tpl" "res_expiryTime res = None" "res_store res = NewLeaseStore i" "res_ID res = i"
    using LoadConfig_serviceable [OF assms, of ?blank None] by auto
  let ?t = "GetLearningModeEndTime srv (learning_duration (tpl_Algorithm tpl))"
  have "newResource srv i (Some tpl) = Inr (res\<lparr>res_learningModeEndTime := ?t\<rparr>)"
    using res(1,3) a
    by (auto simp: newResource_def ResourceTemplate_GetAlgorithm_def learning_duration_def
        Algorithm_GetLearningModeDuration_def split: option.split)
  moreover have "resource_wf (res\<lparr>res_learningModeEndTime := ?t\<rparr>)"
    using res by (auto simp: resource_wf_def configured_def NewLeaseStore_def split: option.splits sum.splits)
  ultimately show ?thesis using res by simp
qed

text \<open>What a step of a request handler may do to the server: add resources, nothing else.\<close>

definition extends :: "Server \<Rightarrow> Server \<Rightarrow> bool" where
  "extends srv srv' = (\<exists>heap m. srv' = srv\<lparr>srv_heap := srv_heap srv @ heap, srv_resources := m\<rparr>
     \<and> (srv_resources srv = None \<longleftrightarrow> m = None)
     \<and> (\<forall>i a. srv_lookup srv i = Some a \<longrightarrow> srv_lookup srv' i = Some a))"

lemma extends_refl [simp]: "extends srv srv"
  unfolding extends_def by (intro exI [of _ "[]"] exI [of _ "srv_resources srv"]) simp

lemma extends_trans: "extends s1 s2 \<Longrightarrow> extends s2 s3 \<Longrightarrow> extends s1 s3"
  unfolding extends_def by (elim exE conjE) (intro exI conjI, auto)

lemma extendsD:
  assumes "extends srv srv'"
  shows "srv_lookup srv i = Some a \<Longrightarrow> srv_lookup srv' i = Some a"
    and "a < length (srv_heap srv) \<Longrightarrow> srv_heap srv' ! a = srv_heap srv ! a"
    and "length (srv_heap srv) \<le> length (srv_heap srv')"
    and "srv_config srv' = srv_config srv" "srv_isMaster srv' = srv_isMaster srv"
    and "srv_becameMasterAt srv' = srv_becameMasterAt srv"
    and "(srv_resources srv' = None) = (srv_resources srv = None)"
  using assms by (auto simp: extends_def nth_append)

lemma addresses_ok_snoc:
  assumes "addresses_ok m heap" and "map_of m i = None" and "res_ID res = i"
  shows "addresses_ok (m @ [(i, length heap)]) (heap @ [res])"
  using assms by (fastforce simp: addresses_ok_def list_all_iff map_of_eq_None_iff nth_append)

lemma getOrCreate_ok:
  assumes "server_ok srv" and "srv_resources srv \<noteq> None" and "srv_config srv = Some config"
    and "repo_serviceable config" and "covered (repo_Resources config) i"
  shows "\<exists>srv' a. getOrCreateResource srv i = Inr (srv', a) \<and> server_ok srv' \<and> extends srv srv' \<and>
     srv_lookup srv' i = Some a \<and>
     (srv_lookup srv i = None \<longrightarrow> (\<exists>k. selected (repo_Resources config) i k \<and>
        res_config (srv_heap srv' ! a) = Some (repo_Resources config ! k) \<and>
        res_learningModeEndTime (srv_heap srv' ! a) =
          GetLearningModeEndTime srv (learning_duration (tpl_Algorithm (repo_Resources config ! k)))) \<and>
        res_store (srv_heap srv' ! a) = NewLeaseStore i)"
proof (cases "srv_lookup srv i")
  case (Some a)
  then show ?thesis using assms(1) by (simp add: getOrCreateResource_def)
next
  case None
  obtain m where m: "srv_resources srv = Some m" using assms(2) by blast
  obtain tpl where tpl: "findConfigForResource srv i = Inr tpl"
    using assms(5) findConfig_covered [OF assms(3)] by blast
  obtain k where k: "selected (repo_Resources config) i k" "repo_Resources config ! k = tpl"
    using findConfig_selected [OF assms(3) tpl] by blast
  have s: "serviceable tpl"
    using assms(4) k by (auto simp: repo_serviceable_def list_all_iff selected_def)
  obtain res where res: "newResource srv i (Some tpl) = Inr res" "resource_wf res" "res_ID res = i"
    "res_store res = NewLeaseStore i" "res_config res = Some tpl"
    "res_learningModeEndTime res = GetLearningModeEndTime srv (learning_duration (tpl_Algorithm tpl))"
    using newResource_serviceable [OF s] by blast
  let ?a = "length (srv_heap srv)"
  let ?m = "m @ [(i, ?a)]"
  let ?srv = "srv\<lparr>srv_heap := srv_heap srv @ [res], srv_resources := Some ?m\<rparr>"
  have mi: "map_of m i = None" using None m by (simp add: srv_lookup_def)
  have e: "getOrCreateResource srv i = Inr (?srv, ?a)"
    using None tpl res(1) m by (simp add: getOrCreateResource_def map_put_fresh [OF mi] Let_def)
  have ok: "server_ok ?srv"
    using assms(1,3) addresses_ok_snoc [OF server_ok_addresses [OF assms(1) m] mi res(3)] res(2)
    by (simp add: server_ok_def)
  have "extends srv ?srv"
    unfolding extends_def by (intro exI [of _ "[res]"] exI [of _ "Some ?m"])
      (auto simp: m srv_lookup_def map_add_def)
  moreover have "srv_lookup ?srv i = Some ?a" using mi by (simp add: srv_lookup_def map_add_def)
  moreover have "srv_heap ?srv ! ?a = res" by simp
  ultimately show ?thesis using e ok k res(4-6) by (intro exI [of _ ?srv] exI [of _ ?a]) auto
qed

section \<open>Loading a configuration\<close>

text \<open>What \<open>LoadConfig\<close> does to one resource: it gets the template that applies and the expiry
  time for its id, and keeps its leases and the end of its learning mode.\<close>

definition reloaded :: "ResourceRepository \<Rightarrow> (string \<times> time) list \<Rightarrow> string \<Rightarrow> Resource \<Rightarrow> Resource \<Rightarrow> bool" where
  "reloaded config expiryTimes i res res' =
     (list_ex (\<lambda>k. selected (repo_Resources config) i k \<and> res_config res' = Some (repo_Resources config ! k))
        [0..<length (repo_Resources config)]
      \<and> configured res' \<and> res_ID res' = res_ID res
      \<and> res_expiryTime res' = map_of expiryTimes i \<and> res_store res' = res_store res
      \<and> res_learningModeEndTime res' = res_learningModeEndTime res)"

lemma reload_one:
  assumes "srv_config srv = Some config" and "repo_serviceable config"
    and "covered (repo_Resources config) i"
  shows "\<exists>tpl res'. findConfigForResource srv i = Inr tpl \<and>
     resource_LoadConfig res (Some tpl) (map_of expiryTimes i) = Inr res' \<and> reloaded config expiryTimes i res res'"
proof -
  obtain tpl where tpl: "findConfigForResource srv i = Inr tpl"
    using assms(3) findConfig_covered [OF assms(1)] by blast
  obtain k where k: "selected (repo_Resources config) i k" "repo_Resources config ! k = tpl"
    using findConfig_selected [OF assms(1) tpl] by blast
  then have k': "k < length (repo_Resources config)" by (simp add: selected_def)
  with k have "serviceable tpl" using assms(2) by (auto simp: repo_serviceable_def list_all_iff)
  from LoadConfig_serviceable [OF this, of res "map_of expiryTimes i"] tpl k k' show ?thesis
    by (fastforce simp: reloaded_def list_ex_iff)
qed

lemma reload_loop_ok:
  assumes "server_ok srv" and "srv_config srv = Some config" and "repo_serviceable config"
    and "list_all (\<lambda>(i, a). covered (repo_Resources config) i \<and> a < length (srv_heap srv)) es"
    and "distinct (map snd es)"
  shows "\<exists>heap. reload_loop ex es srv = Inr (srv\<lparr>srv_heap := heap\<rparr>) \<and> server_ok (srv\<lparr>srv_heap := heap\<rparr>) \<and>
     (\<forall>a. a \<notin> snd ` set es \<longrightarrow> heap ! a = srv_heap srv ! a) \<and>
     (\<forall>(i, a) \<in> set es. reloaded config ex i (srv_heap srv ! a) (heap ! a))"
  using assms
proof (induction es arbitrary: srv)
  case Nil
  then show ?case by (intro exI [of _ "srv_heap srv"]) simp
next
  case (Cons e es)
  obtain i a where e: "e = (i, a)" by force
  have cov: "covered (repo_Resources config) i" and a: "a < length (srv_heap srv)"
    and rest: "a \<notin> snd ` set es" "distinct (map snd es)"
    using Cons.prems(4,5) by (simp_all add: e)
  let ?res = "srv_heap srv ! a"
  obtain tpl res' where r: "findConfigForResource srv i = Inr tpl"
    "resource_LoadConfig ?res (Some tpl) (map_of ex i) = Inr res'" "reloaded config ex i ?res res'"
    using reload_one [OF Cons.prems(2,3) cov] by blast
  let ?srv = "heap_write srv a res'"
  have "resource_wf ?res" using Cons.prems(1) a by (simp add: server_ok_def list_all_iff)
  then have "resource_wf res'" "res_ID res' = res_ID ?res"
    using r(3) by (simp_all add: reloaded_def resource_wf_def)
  then have "server_ok ?srv" by (rule server_ok_heap_write [OF Cons.prems(1)])
  from Cons.IH [OF this _ Cons.prems(3) _ rest(2)] Cons.prems(2,4)
  obtain heap where h: "reload_loop ex es ?srv = Inr (?srv\<lparr>srv_heap := heap\<rparr>)"
    "server_ok (?srv\<lparr>srv_heap := heap\<rparr>)" "\<forall>b. b \<notin> snd ` set es \<longrightarrow> heap ! b = (srv_heap srv)[a := res'] ! b"
    "\<forall>(j, b) \<in> set es. reloaded config ex j ((srv_heap srv)[a := res'] ! b) (heap ! b)"
    by (auto simp: e)
  have eq: "?srv\<lparr>srv_heap := heap\<rparr> = srv\<lparr>srv_heap := heap\<rparr>" by (simp add: heap_write_def)
  have "reload_loop ex (e # es) srv = Inr (srv\<lparr>srv_heap := heap\<rparr>)"
    using h(1) r(1,2) by (simp add: e eq)
  moreover have "heap ! a = res'" using h(3) rest(1) a by simp
  moreover have "reloaded config ex j (srv_heap srv ! b) (heap ! b)" if jb: "(j, b) \<in> set es" for j b
  proof -
    have "b \<noteq> a" using jb rest(1) by force
    then show ?thesis using h(4) jb by auto
  qed
  moreover have "heap ! b = srv_heap srv ! b" if "b \<notin> snd ` set (e # es)" for b
    using h(3) that by (simp add: e)
  ultimately show ?case
    using r(3) h(2) unfolding eq by (intro exI [of _ heap]) (auto simp: e)
qed

lemma server_LoadConfig_first:
  assumes "server_ok srv" and "srv_config srv = None" and "repo_valid config"
  shows "server_LoadConfig run_err srv config ex =
      Inr (srv\<lparr>srv_config := Some config, srv_isConfigured := True,
             srv_handlers := srv_handlers srv + (if run_err = None then 1 else 0)\<rparr>, run_err)"
  using assms(1,2) assms(3) [unfolded repo_valid_iff]
  by (cases run_err) (simp_all add: server_LoadConfig_def Let_def server_ok_def triggerElection_def)

lemma server_LoadConfig_next:
  assumes "server_ok srv" and "srv_config srv \<noteq> None" and "repo_valid config" and "repo_serviceable config"
    and "\<And>m. srv_resources srv = Some m \<Longrightarrow> list_all (\<lambda>(i, a). covered (repo_Resources config) i) m"
  shows "\<exists>heap. server_LoadConfig run_err srv config ex =
      Inr (srv\<lparr>srv_config := Some config, srv_heap := heap\<rparr>, None) \<and>
      server_ok (srv\<lparr>srv_config := Some config, srv_heap := heap\<rparr>) \<and>
      (\<forall>i a. srv_lookup srv i = Some a \<longrightarrow> reloaded config ex i (srv_heap srv ! a) (heap ! a))"
proof -
  let ?srv = "srv\<lparr>srv_config := Some config\<rparr>"
  let ?m = "case srv_resources srv of None \<Rightarrow> [] | Some m \<Rightarrow> m"
  have "server_ok ?srv" using assms(1-3) by (auto simp: server_ok_def split: option.splits)
  moreover have "list_all (\<lambda>(i, a). covered (repo_Resources config) i \<and> a < length (srv_heap ?srv)) ?m"
  proof (cases "srv_resources srv")
    case (Some m)
    with assms(5) [OF Some] server_ok_addresses [OF assms(1) Some] show ?thesis
      by (auto simp: list_all_iff addresses_ok_def)
  qed simp
  moreover have "distinct (map snd ?m)"
    using server_ok_addresses [OF assms(1)] by (auto simp: addresses_ok_def split: option.split)
  ultimately obtain heap where h: "reload_loop ex ?m ?srv = Inr (?srv\<lparr>srv_heap := heap\<rparr>)"
    "server_ok (?srv\<lparr>srv_heap := heap\<rparr>)"
    "\<forall>(i, a) \<in> set ?m. reloaded config ex i (srv_heap srv ! a) (heap ! a)"
    using reload_loop_ok [of ?srv config ?m ex] assms(4) by auto
  have "reloaded config ex i (srv_heap srv ! a) (heap ! a)" if "srv_lookup srv i = Some a" for i a
    using h(3) that by (auto simp: srv_lookup_def dest: map_of_SomeD split: option.splits)
  moreover have "server_LoadConfig run_err srv config ex = Inr (?srv\<lparr>srv_heap := heap\<rparr>, None)"
    using assms(2,3) h(1) by (auto simp: server_LoadConfig_def repo_valid_iff Let_def)
  ultimately show ?thesis using h(2) by auto
qed

section \<open>Elections\<close>

lemma server_ok_election:
  assumes "server_ok srv" and "0 < srv_handlers srv"
  shows "server_ok (handleElectionOutcome now b srv)"
  using assms
  by (auto simp: server_ok_def handleElectionOutcome_def Let_def addresses_ok_def split: option.splits)

lemma server_ok_master_id: "server_ok srv \<Longrightarrow> server_ok (handleMasterID i srv)"
  by (auto simp: server_ok_def handleMasterID_def split: option.splits)

end
