(* ===== verification/Server_Rpc.thy ===== *)
theory Server_Rpc
  imports Server_State
begin

text \<open>
  The remote procedure calls of the server (\<open>go/server/doorman/server.go\<close>). A capacity request
  starts one goroutine per resource; each decides and sends its item on a buffered channel, and
  the handler collects as many items as there are resources. What the scheduler does is a list
  of events: \<open>Run k clk\<close> lets the \<open>k\<close>-th goroutine that has not decided yet do so at the clock
  readings \<open>clk\<close>, \<open>Recv k\<close> lets the handler receive the \<open>k\<close>-th item in flight. Decisions and
  receptions interleave freely and items arrive in any order, as goroutines may be preempted
  between deciding and sending.
\<close>

section \<open>Requests for capacity\<close>

record item =
  item_id :: string
  item_lease :: Lease

record clientRequest =
  cr_client :: string
  cr_resID :: string
  cr_has :: f64
  cr_wants :: f64
  cr_subclients :: int64

text \<open>The loop of \<open>getCapacity\<close>: the resources are looked up, the goroutines created.\<close>

fun getCapacity :: "Server \<Rightarrow> clientRequest list \<Rightarrow> panic + Server \<times> (nat \<times> Request) list" where
  "getCapacity srv [] = Inr (srv, [])"
| "getCapacity srv (creq # crequests) =
     bind_panic (getOrCreateResource srv (cr_resID creq)) (\<lambda>(srv', a).
     bind_panic (getCapacity srv' crequests) (\<lambda>(srv'', goroutines).
       Inr (srv'', (a, \<lparr>req_Client = cr_client creq, req_Has = cr_has creq, req_Wants = cr_wants creq,
         req_Subclients = cr_subclients creq\<rparr>) # goroutines)))"

definition run_goroutine :: "Server \<Rightarrow> decide_clock \<Rightarrow> nat \<times> Request \<Rightarrow> panic + Server \<times> item" where
  "run_goroutine srv clk = (\<lambda>(a, req).
     bind_panic (resource_Decide (srv_heap srv ! a) clk req) (\<lambda>(res, lease).
       Inr (heap_write srv a res, \<lparr>item_id = res_ID (srv_heap srv ! a), item_lease = lease\<rparr>)))"

definition lease_to_pb :: "Lease \<Rightarrow> pb_Lease" where
  "lease_to_pb l = \<lparr>pbl_ExpiryTime = Some (to_unix (lease_Expiry l)),
     pbl_RefreshInterval = Some (the (float_to_int64 (Seconds (lease_RefreshInterval l)))),
     pbl_Capacity = Some (lease_Has l)\<rparr>"

text \<open>What \<open>GetCapacity\<close> does with an item it has received.\<close>

definition collect_item :: "Server \<Rightarrow> item \<Rightarrow> panic + Server \<times> ResourceResponse" where
  "collect_item srv it =
     (let resp = \<lparr>rrsp_ResourceId = Some (item_id it), rrsp_Gets = Some (lease_to_pb (item_lease it)),
            rrsp_SafeCapacity = None\<rparr>
      in bind_panic (getOrCreateResource srv (item_id it)) (\<lambda>(srv', a).
         bind_panic (SetSafeCapacity (srv_heap srv' ! a) resp) (\<lambda>resp'. Inr (srv', resp'))))"

text \<open>
  What \<open>GetServerCapacity\<close> does: \<open>server.resources[item.id]\<close> is a nil pointer when the resource
  is not there (any more), and reading its configuration panics.
\<close>

definition collect_server_item :: "Server \<Rightarrow> item \<Rightarrow> panic + Server \<times> ServerCapacityResourceResponse" where
  "collect_server_item srv it = (case srv_lookup srv (item_id it) of
       None \<Rightarrow> Inl NilDereference
     | Some a \<Rightarrow> Inr (srv, \<lparr>scp_ResourceId = Some (item_id it),
         scp_Gets = Some (lease_to_pb (item_lease it)),
         scp_Algorithm = ResourceTemplate_GetAlgorithm (res_config (srv_heap srv ! a)),
         scp_SafeCapacity = Some (ResourceTemplate_GetSafeCapacity (res_config (srv_heap srv ! a)))\<rparr>))"

datatype rpc_event = Run nat decide_clock | Recv nat

text \<open>A call in progress: goroutines still to decide, items in flight, responses so far.\<close>

record 'resp call =
  call_pool :: "(nat \<times> Request) list"
  call_items :: "item list"
  call_out :: "'resp list"

definition drop_nth :: "nat \<Rightarrow> 'a list \<Rightarrow> 'a list" where
  "drop_nth k xs = take k xs @ drop (Suc k) xs"

fun call_step :: "(Server \<Rightarrow> item \<Rightarrow> panic + Server \<times> 'resp) \<Rightarrow> rpc_event \<Rightarrow> Server \<times> 'resp call
    \<Rightarrow> panic + Server \<times> 'resp call" where
  "call_step collect (Run k clk) (srv, c) =
     (if k < length (call_pool c)
      then bind_panic (run_goroutine srv clk (call_pool c ! k)) (\<lambda>(srv', it).
        Inr (srv', c\<lparr>call_pool := drop_nth k (call_pool c), call_items := call_items c @ [it]\<rparr>))
      else Inr (srv, c))"
| "call_step collect (Recv k) (srv, c) =
     (if k < length (call_items c)
      then bind_panic (collect srv (call_items c ! k)) (\<lambda>(srv', resp).
        Inr (srv', c\<lparr>call_items := drop_nth k (call_items c), call_out := call_out c @ [resp]\<rparr>))
      else Inr (srv, c))"

fun call_run :: "(Server \<Rightarrow> item \<Rightarrow> panic + Server \<times> 'resp) \<Rightarrow> rpc_event list \<Rightarrow> Server \<times> 'resp call
    \<Rightarrow> panic + Server \<times> 'resp call" where
  "call_run collect [] sc = Inr sc"
| "call_run collect (e # es) sc = bind_panic (call_step collect e sc) (call_run collect es)"

definition call_returned :: "'resp call \<Rightarrow> bool" where
  "call_returned c = (call_pool c = [] \<and> call_items c = [])"

text \<open>The answer of a server that is not the master.\<close>

definition redirect :: "Server \<Rightarrow> Mastership" where
  "redirect srv =
     (let master = CurrentMaster srv
      in \<lparr>ms_MasterAddress = (if master \<noteq> '''' then Some master else None)\<rparr>)"

text \<open>
  \<open>GetCapacity\<close>, under a schedule. The second component is the response, \<open>None\<close> while the
  handler still waits for items.
\<close>

definition client_requests :: "GetCapacityRequest \<Rightarrow> clientRequest list" where
  "client_requests q = map (\<lambda>req. \<lparr>cr_client = GetCapacityRequest_GetClientId (Some q),
       cr_resID = ResourceRequest_GetResourceId (Some req),
       cr_has = Lease_GetCapacity (ResourceRequest_GetHas (Some req)),
       cr_wants = ResourceRequest_GetWants (Some req), cr_subclients = 1\<rparr>) (gcq_Resource q)"

definition GetCapacity :: "rpc_event list \<Rightarrow> Server \<Rightarrow> GetCapacityRequest
    \<Rightarrow> panic + Server \<times> GetCapacityResponse option" where
  "GetCapacity schedule srv q =
     (if \<not> IsMaster srv then Inr (srv, Some \<lparr>gcp_Response = [], gcp_Mastership = Some (redirect srv)\<rparr>)
      else
        bind_panic (getCapacity srv (client_requests q)) (\<lambda>(srv', goroutines).
        bind_panic (call_run collect_item schedule
            (srv', \<lparr>call_pool = goroutines, call_items = [], call_out = []\<rparr>)) (\<lambda>(srv'', c).
          Inr (srv'', if call_returned c
            then Some \<lparr>gcp_Response = call_out c, gcp_Mastership = None\<rparr> else None))))"

text \<open>The totals of a server's request for one resource; \<open>None\<close> is the \<open>InvalidArgument\<close> error.\<close>

fun wants_loop :: "PriorityBandAggregate list \<Rightarrow> f64 \<Rightarrow> int64 \<Rightarrow> (f64 \<times> int64) option" where
  "wants_loop [] wantsTotal subclientsTotal = Some (wantsTotal, subclientsTotal)"
| "wants_loop (w # ws) wantsTotal subclientsTotal =
     (if sint (PriorityBandAggregate_GetNumClients (Some w)) < 1 then None
      else wants_loop ws (wantsTotal + PriorityBandAggregate_GetWants (Some w))
        (subclientsTotal + PriorityBandAggregate_GetNumClients (Some w)))"

fun server_requests :: "string \<Rightarrow> ServerCapacityResourceRequest list \<Rightarrow> clientRequest list option" where
  "server_requests client [] = Some []"
| "server_requests client (req # reqs) = (case wants_loop (scq_Wants req) (Fin 0) 0 of
       None \<Rightarrow> None
     | Some (wantsTotal, subclientsTotal) \<Rightarrow>
         (case server_requests client reqs of
            None \<Rightarrow> None
          | Some requests \<Rightarrow> Some (\<lparr>cr_client = client,
              cr_resID = ServerCapacityResourceRequest_GetResourceId (Some req),
              cr_has = Lease_GetCapacity (ServerCapacityResourceRequest_GetHas (Some req)),
              cr_wants = wantsTotal, cr_subclients = subclientsTotal\<rparr> # requests)))"

definition GetServerCapacity :: "rpc_event list \<Rightarrow> Server \<Rightarrow> GetServerCapacityRequest
    \<Rightarrow> panic + Server \<times> (string + GetServerCapacityResponse option)" where
  "GetServerCapacity schedule srv q =
     (if \<not> IsMaster srv
      then Inr (srv, Inr (Some \<lparr>gsp_Response = [], gsp_Mastership = Some (redirect srv)\<rparr>))
      else (case server_requests (GetServerCapacityRequest_GetServerId (Some q)) (gsq_Resource q) of
          None \<Rightarrow> Inr (srv, Inl ''subclients should be > 0'')
        | Some requests \<Rightarrow>
            bind_panic (getCapacity srv requests) (\<lambda>(srv', goroutines).
            bind_panic (call_run collect_server_item schedule
                (srv', \<lparr>call_pool = goroutines, call_items = [], call_out = []\<rparr>)) (\<lambda>(srv'', c).
              Inr (srv'', Inr (if call_returned c
                then Some \<lparr>gsp_Response = call_out c, gsp_Mastership = None\<rparr> else None))))))"

section \<open>The other calls\<close>

text \<open>\<open>ReleaseCapacity\<close> goes to the store directly, without the resource's mutex.\<close>

fun release_loop :: "string \<Rightarrow> string list \<Rightarrow> Server \<Rightarrow> Server" where
  "release_loop client [] srv = srv"
| "release_loop client (resourceID # rest) srv =
     release_loop client rest
       (case srv_lookup srv resourceID of
          None \<Rightarrow> srv
        | Some a \<Rightarrow> (let res = srv_heap srv ! a
                   in heap_write srv a (res\<lparr>res_store := store_Release (res_store res) client\<rparr>)))"

definition ReleaseCapacity :: "Server \<Rightarrow> ReleaseCapacityRequest \<Rightarrow> Server \<times> ReleaseCapacityResponse" where
  "ReleaseCapacity srv q =
     (if \<not> IsMaster srv then (srv, \<lparr>rcp_Mastership = Some (redirect srv)\<rparr>)
      else (release_loop (ReleaseCapacityRequest_GetClientId (Some q)) (rcq_ResourceId q) srv,
        \<lparr>rcp_Mastership = None\<rparr>))"

definition Discovery :: "Server \<Rightarrow> DiscoveryResponse" where
  "Discovery srv = \<lparr>dsp_Mastership = Some (redirect srv), dsp_IsMaster = Some (srv_isMaster srv)\<rparr>"

end
