(* ===== verification/Server_Calls.thy ===== *)
theory Server_Calls
  imports Server_Rpc
begin

text \<open>
  Lemmas about the calls in progress: on a serving master no step of a capacity request panics,
  every step keeps the server serving, and a call under any schedule produces one response for
  each resource asked for.
\<close>

section \<open>Serving masters\<close>

definition serviceable_resource :: "Resource \<Rightarrow> bool" where
  "serviceable_resource res = (case res_config res of None \<Rightarrow> False | Some tpl \<Rightarrow> serviceable tpl)"

definition serving :: "Server \<Rightarrow> ResourceRepository \<Rightarrow> bool" where
  "serving srv config = (server_ok srv \<and> IsMaster srv \<and> srv_config srv = Some config
     \<and> repo_serviceable config \<and> list_all serviceable_resource (srv_heap srv))"

lemma serving_resources: "serving srv config \<Longrightarrow> srv_resources srv \<noteq> None"
  by (auto simp: serving_def server_ok_def IsMaster_def)

lemma serving_lookup:
  assumes "serving srv config" and "srv_lookup srv i = Some a"
  shows "a < length (srv_heap srv)" "res_ID (srv_heap srv ! a) = i" "resource_wf (srv_heap srv ! a)"
    "serviceable_resource (srv_heap srv ! a)"
  using assms server_ok_lookup [of srv i a] by (auto simp: serving_def list_all_iff)

lemma getOrCreate_serving:
  assumes "serving srv config" and "covered (repo_Resources config) i"
  shows "\<exists>srv' a. getOrCreateResource srv i = Inr (srv', a) \<and> serving srv' config \<and> extends srv srv' \<and>
     srv_lookup srv' i = Some a"
proof -
  have s: "server_ok srv" "srv_config srv = Some config" "repo_serviceable config" "IsMaster srv"
    and h: "list_all serviceable_resource (srv_heap srv)"
    using assms(1) by (simp_all add: serving_def)
  obtain srv' a where g: "getOrCreateResource srv i = Inr (srv', a)" "server_ok srv'" "extends srv srv'"
    "srv_lookup srv' i = Some a"
    and new: "srv_lookup srv i = None \<Longrightarrow> \<exists>k. selected (repo_Resources config) i k \<and>
        res_config (srv_heap srv' ! a) = Some (repo_Resources config ! k)"
    using getOrCreate_ok [OF s(1) serving_resources [OF assms(1)] s(2,3) assms(2)]
    by (elim exE conjE) (rule that, assumption+, blast)
  have "serving srv' config"
  proof (cases "srv_lookup srv i")
    case (Some b)
    with g(1) assms(1) show ?thesis by (simp add: getOrCreateResource_def)
  next
    case None
    then obtain res where h': "srv_heap srv' = srv_heap srv @ [res]" "a = length (srv_heap srv)"
      using g(1) by (auto simp: getOrCreateResource_def Let_def split: option.splits)
    obtain k where k: "selected (repo_Resources config) i k" "res_config res = Some (repo_Resources config ! k)"
      using new [OF None] h' by auto
    then have "serviceable (repo_Resources config ! k)"
      using s(3) by (auto simp: repo_serviceable_def list_all_iff selected_def)
    then show ?thesis
      using g(2) s h h' k(2) extendsD(4,5) [OF g(3)]
      by (simp add: serving_def serviceable_resource_def IsMaster_def)
  qed
  with g show ?thesis by blast
qed

definition request_of :: "clientRequest \<Rightarrow> Request" where
  "request_of creq = \<lparr>req_Client = cr_client creq, req_Has = cr_has creq, req_Wants = cr_wants creq,
     req_Subclients = cr_subclients creq\<rparr>"

lemma getCapacity_serving:
  assumes "serving srv config" and "list_all (\<lambda>creq. covered (repo_Resources config) (cr_resID creq)) creqs"
  shows "\<exists>srv' gs. getCapacity srv creqs = Inr (srv', gs) \<and> serving srv' config \<and> extends srv srv' \<and>
     list_all2 (\<lambda>creq (a, r). srv_lookup srv' (cr_resID creq) = Some a \<and> r = request_of creq) creqs gs"
  using assms
proof (induction creqs arbitrary: srv)
  case (Cons creq creqs)
  obtain srv1 a where 1: "getOrCreateResource srv (cr_resID creq) = Inr (srv1, a)" "serving srv1 config"
    "extends srv srv1" "srv_lookup srv1 (cr_resID creq) = Some a"
    using getOrCreate_serving [OF Cons.prems(1), of "cr_resID creq"] Cons.prems(2) by auto
  obtain srv2 gs where 2: "getCapacity srv1 creqs = Inr (srv2, gs)" "serving srv2 config" "extends srv1 srv2"
    "list_all2 (\<lambda>creq (a, r). srv_lookup srv2 (cr_resID creq) = Some a \<and> r = request_of creq) creqs gs"
    using Cons.IH [OF 1(2)] Cons.prems(2) by auto
  have "srv_lookup srv2 (cr_resID creq) = Some a" using extendsD(1) [OF 2(3) 1(4)] .
  moreover have "extends srv srv2" using 1(3) 2(3) by (rule extends_trans)
  ultimately show ?case using 1(1) 2 by (simp add: request_of_def)
qed simp

section \<open>One goroutine\<close>

lemma run_goroutine_serving:
  assumes "serving srv config" and "srv_lookup srv i = Some a" and "res_config (srv_heap srv ! a) = Some tpl"
  shows "\<exists>s lease. run_goroutine srv clk (a, r) =
       Inr (heap_write srv a ((srv_heap srv ! a)\<lparr>res_store := s\<rparr>), \<lparr>item_id = i, item_lease = lease\<rparr>) \<and>
     resource_Decide (srv_heap srv ! a) clk r = Inr ((srv_heap srv ! a)\<lparr>res_store := s\<rparr>, lease) \<and>
     serving (heap_write srv a ((srv_heap srv ! a)\<lparr>res_store := s\<rparr>)) config \<and>
     ls_leases s = map_put (live (at_clean clk) (ls_leases (res_store (srv_heap srv ! a)))) (req_Client r) lease"
proof -
  let ?res = "srv_heap srv ! a"
  note l = serving_lookup [OF assms(1,2)]
  obtain s lease where d: "resource_Decide ?res clk r = Inr (?res\<lparr>res_store := s\<rparr>, lease)"
    "distinct_keys (ls_leases s)"
    "ls_leases s = map_put (live (at_clean clk) (ls_leases (res_store ?res))) (req_Client r) lease"
    using Decide_effect [OF l(3) assms(3), of clk r] by blast
  have wf: "resource_wf (?res\<lparr>res_store := s\<rparr>)" using l(3) d(2) by (simp add: resource_wf_def)
  have ok: "server_ok (heap_write srv a (?res\<lparr>res_store := s\<rparr>))"
    by (rule server_ok_heap_write [OF _ wf]) (use assms(1) in \<open>simp_all add: serving_def\<close>)
  have "list_all serviceable_resource ((srv_heap srv)[a := ?res\<lparr>res_store := s\<rparr>])"
    using assms(1) l(4) set_update_subset_insert [of "srv_heap srv" a "?res\<lparr>res_store := s\<rparr>"]
    by (auto simp: serving_def list_all_iff serviceable_resource_def)
  then have "serving (heap_write srv a (?res\<lparr>res_store := s\<rparr>)) config"
    using ok assms(1) by (simp add: serving_def IsMaster_def)
  then show ?thesis using d l(2) by (auto simp: run_goroutine_def)
qed

section \<open>Calls\<close>

text \<open>The clock readings of a schedule.\<close>

definition clocks_of :: "rpc_event list \<Rightarrow> decide_clock set" where
  "clocks_of es = {clk. \<exists>k. Run k clk \<in> set es}"

text \<open>
  What holds of a call for the resource ids \<open>ids\<close>: goroutines and items belong to resources of
  the map, and the ids still to come together with those answered are the ids asked for.
\<close>

definition pool_ids :: "Server \<Rightarrow> (nat \<times> Request) list \<Rightarrow> string list" where
  "pool_ids srv gs = map (\<lambda>(a, r). res_ID (srv_heap srv ! a)) gs"

definition call_ok :: "('resp \<Rightarrow> string) \<Rightarrow> string multiset \<Rightarrow> Server \<times> 'resp call \<Rightarrow> bool" where
  "call_ok resp_id ids = (\<lambda>(srv, c).
     list_all (\<lambda>(a, r). srv_lookup srv (res_ID (srv_heap srv ! a)) = Some a) (call_pool c)
     \<and> list_all (\<lambda>it. srv_lookup srv (item_id it) \<noteq> None) (call_items c)
     \<and> mset (pool_ids srv (call_pool c)) + mset (map item_id (call_items c))
         + mset (map resp_id (call_out c)) = ids)"

lemma mset_drop_nth: "k < length xs \<Longrightarrow> mset xs = add_mset (xs ! k) (mset (drop_nth k xs))"
  unfolding drop_nth_def by (subst id_take_nth_drop, assumption) simp

lemma set_drop_nth: "set (drop_nth k xs) \<subseteq> set xs"
  unfolding drop_nth_def using set_take_subset [of k xs] set_drop_subset [of "Suc k" xs] by auto

lemma list_all_drop_nth: "list_all P xs \<Longrightarrow> list_all P (drop_nth k xs)"
  using set_drop_nth [of k xs] by (auto simp: list_all_iff)

lemma length_drop_nth: "k < length xs \<Longrightarrow> length (drop_nth k xs) = length xs - 1"
  by (simp add: drop_nth_def)

lemma map_drop_nth: "map f (drop_nth k xs) = drop_nth k (map f xs)"
  by (simp add: drop_nth_def take_map drop_map)

text \<open>
  The contract between a call and the handler that collects its items: on a serving master
  collecting an item of a known resource succeeds, keeps the server as it is, and answers with
  the item's id and lease.
\<close>

locale collector =
  fixes collect :: "Server \<Rightarrow> item \<Rightarrow> panic + Server \<times> 'resp"
    and resp_id :: "'resp \<Rightarrow> string"
    and resp_gets :: "'resp \<Rightarrow> pb_Lease option"
  assumes collect_known: "serving srv config \<Longrightarrow> srv_lookup srv (item_id it) = Some a \<Longrightarrow>
      \<exists>resp. collect srv it = Inr (srv, resp) \<and> resp_id resp = item_id it \<and>
        resp_gets resp = Some (lease_to_pb (item_lease it))"
begin

lemma step_ok:
  assumes "serving srv config" and "call_ok resp_id ids (srv, c)"
  shows "\<exists>srv' c'. call_step collect e (srv, c) = Inr (srv', c') \<and> serving srv' config \<and>
    call_ok resp_id ids (srv', c') \<and> srv_lookup srv' = srv_lookup srv"
proof (cases e)
  case (Run k clk)
  show ?thesis
  proof (cases "k < length (call_pool c)")
    case False
    with assms Run show ?thesis by simp
  next
    case k: True
    obtain a r where g: "call_pool c ! k = (a, r)" by force
    let ?res = "srv_heap srv ! a"
    have l: "srv_lookup srv (res_ID ?res) = Some a"
      using assms(2) k g nth_mem [OF k] by (auto simp: call_ok_def list_all_iff)
    obtain tpl where tpl: "res_config ?res = Some tpl"
      using serving_lookup(4) [OF assms(1) l] by (auto simp: serviceable_resource_def split: option.splits)
    obtain s lease where r: "run_goroutine srv clk (a, r) =
        Inr (heap_write srv a (?res\<lparr>res_store := s\<rparr>), \<lparr>item_id = res_ID ?res, item_lease = lease\<rparr>)"
      "serving (heap_write srv a (?res\<lparr>res_store := s\<rparr>)) config"
      using run_goroutine_serving [OF assms(1) l tpl, of clk r] by blast
    let ?srv = "heap_write srv a (?res\<lparr>res_store := s\<rparr>)"
    let ?c = "c\<lparr>call_pool := drop_nth k (call_pool c),
      call_items := call_items c @ [\<lparr>item_id = res_ID ?res, item_lease = lease\<rparr>]\<rparr>"
    have id: "res_ID ((srv_heap srv)[a := ?res\<lparr>res_store := s\<rparr>] ! b) = res_ID (srv_heap srv ! b)" for b
      by (cases "b = a"; cases "a < length (srv_heap srv)") (simp_all add: list_update_beyond)
    have "pool_ids ?srv gs = pool_ids srv gs" for gs by (simp add: pool_ids_def id)
    moreover have "mset (pool_ids srv (call_pool c)) =
        add_mset (res_ID ?res) (mset (pool_ids srv (drop_nth k (call_pool c))))"
      unfolding pool_ids_def map_drop_nth using mset_drop_nth [of k "map (\<lambda>(a, r). res_ID (srv_heap srv ! a)) (call_pool c)"] k g
      by simp
    ultimately have "call_ok resp_id ids (?srv, ?c)"
      using assms(2) l by (auto simp: call_ok_def id intro: list_all_drop_nth)
    then show ?thesis using r k g Run by simp
  qed
next
  case (Recv k)
  show ?thesis
  proof (cases "k < length (call_items c)")
    case False
    with assms Recv show ?thesis by simp
  next
    case k: True
    let ?it = "call_items c ! k"
    obtain a where "srv_lookup srv (item_id ?it) = Some a"
      using assms(2) nth_mem [OF k] by (auto simp: call_ok_def list_all_iff)
    then obtain resp where r: "collect srv ?it = Inr (srv, resp)" "resp_id resp = item_id ?it"
      using collect_known [OF assms(1)] by blast
    have "mset (map item_id (call_items c)) = add_mset (item_id ?it) (mset (map item_id (drop_nth k (call_items c))))"
      unfolding map_drop_nth using mset_drop_nth [of k "map item_id (call_items c)"] k by simp
    then have "call_ok resp_id ids (srv, c\<lparr>call_items := drop_nth k (call_items c), call_out := call_out c @ [resp]\<rparr>)"
      using assms(2) r(2) by (auto simp: call_ok_def intro: list_all_drop_nth)
    then show ?thesis using r k Recv assms(1) by simp
  qed
qed

lemma run_ok:
  assumes "serving srv config" and "call_ok resp_id ids (srv, c)"
  shows "\<exists>srv' c'. call_run collect es (srv, c) = Inr (srv', c') \<and> serving srv' config \<and>
    call_ok resp_id ids (srv', c') \<and> srv_lookup srv' = srv_lookup srv"
  using assms
proof (induction es arbitrary: srv c)
  case (Cons e es)
  obtain srv1 c1 where 1: "call_step collect e (srv, c) = Inr (srv1, c1)" "serving srv1 config"
    "call_ok resp_id ids (srv1, c1)" "srv_lookup srv1 = srv_lookup srv"
    using step_ok [OF Cons.prems, of e] by blast
  from Cons.IH [OF 1(2,3)] 1(1,4) show ?case by auto
qed simp

text \<open>A call can always be completed: run what is left to run, then receive what is in flight.\<close>

lemma call_run_append: "call_run collect (es @ fs) sc = bind_panic (call_run collect es sc) (call_run collect fs)"
proof (induction es arbitrary: sc)
  case (Cons e es)
  then show ?case by (cases "call_step collect e sc") simp_all
qed simp

lemma can_return:
  assumes "serving srv config" and "call_ok resp_id ids (srv, c)"
  shows "\<exists>es srv' c'. call_run collect es (srv, c) = Inr (srv', c') \<and> call_returned c'"
  using assms
proof (induction "2 * length (call_pool c) + length (call_items c)" arbitrary: srv c rule: less_induct)
  case less
  show ?case
  proof (cases "call_returned c")
    case True
    then show ?thesis by (intro exI [of _ "[]"]) simp
  next
    case False
    define e where "e = (if call_pool c = [] then Recv 0 else Run 0 \<lparr>at_clean = 0, at_mode = 0, at_capacity = 0, at_assign = 0\<rparr>)"
    obtain srv1 c1 where 1: "call_step collect e (srv, c) = Inr (srv1, c1)" "serving srv1 config"
      "call_ok resp_id ids (srv1, c1)"
      using step_ok [OF less.prems, of e] by blast
    have "2 * length (call_pool c1) + length (call_items c1) < 2 * length (call_pool c) + length (call_items c)"
      using 1(1) False
      by (auto simp: e_def call_returned_def length_drop_nth split: if_splits) (cases "call_pool c"; simp)
    from less.hyps [OF this 1(2,3)] obtain es srv' c' where
      "call_run collect es (srv1, c1) = Inr (srv', c')" "call_returned c'" by blast
    then show ?thesis using 1(1) by (intro exI [of _ "e # es"]) simp
  qed
qed

end

text \<open>
  What the decisions of a call establish survives the rest of the call, when the resource ids
  are distinct: each resource is decided on once. \<open>P res l\<close> relates a resource to the lease it
  has just granted; \<open>srv0\<close> is the server when the goroutines were created.
\<close>

context collector
begin

definition results_ok :: "(Resource \<Rightarrow> Lease \<Rightarrow> bool) \<Rightarrow> Server \<Rightarrow> Server \<times> 'resp call \<Rightarrow> bool" where
  "results_ok P srv0 = (\<lambda>(srv, c).
     list_all (\<lambda>(a, r). srv_heap srv ! a = srv_heap srv0 ! a) (call_pool c)
     \<and> list_all (\<lambda>it. \<exists>a. srv_lookup srv (item_id it) = Some a \<and> P (srv_heap srv ! a) (item_lease it)) (call_items c)
     \<and> list_all (\<lambda>resp. \<exists>a l. srv_lookup srv (resp_id resp) = Some a \<and> P (srv_heap srv ! a) l
          \<and> resp_gets resp = Some (lease_to_pb l)) (call_out c))"

text \<open>The id of a goroutine that is to run belongs to no other goroutine, item or response.\<close>

lemma call_ok_fresh:
  assumes "call_ok resp_id ids (srv, c)" and "\<And>i. count ids i \<le> 1" and k: "k < length (call_pool c)" and g: "call_pool c ! k = (a, r)"
  shows "res_ID (srv_heap srv ! a) \<notin> set (pool_ids srv (drop_nth k (call_pool c)))" (is "?i \<notin> _")
    and "res_ID (srv_heap srv ! a) \<notin> set (map item_id (call_items c))"
    and "res_ID (srv_heap srv ! a) \<notin> set (map resp_id (call_out c))"
proof -
  have ids: "mset (pool_ids srv (call_pool c)) + mset (map item_id (call_items c)) + mset (map resp_id (call_out c)) = ids"
    using assms(1) by (simp add: call_ok_def)
  have pi: "mset (pool_ids srv (call_pool c)) = add_mset ?i (mset (pool_ids srv (drop_nth k (call_pool c))))"
    unfolding pool_ids_def map_drop_nth using mset_drop_nth [of k "map (\<lambda>(a, r). res_ID (srv_heap srv ! a)) (call_pool c)"] k g
    by simp
  have "count (mset (pool_ids srv (drop_nth k (call_pool c)))) ?i + count (mset (map item_id (call_items c))) ?i
      + count (mset (map resp_id (call_out c))) ?i = 0"
    using assms(2) [of ?i] pi by (simp flip: ids)
  then show "?i \<notin> set (pool_ids srv (drop_nth k (call_pool c)))" "?i \<notin> set (map item_id (call_items c))"
    "?i \<notin> set (map resp_id (call_out c))"
    unfolding add_is_0 count_mset_0_iff by blast+
qed

lemma step_results:
  assumes "serving srv config" and "call_ok resp_id ids (srv, c)"
    and "\<And>i. count ids i \<le> 1" and "results_ok P srv0 (srv, c)"
    and decide: "\<And>a r clk res' l. e = Run k clk \<Longrightarrow> (a, r) \<in> set (call_pool c) \<Longrightarrow>
        resource_Decide (srv_heap srv0 ! a) clk r = Inr (res', l) \<Longrightarrow> P res' l"
    and e: "e = Run k clk"
    and step: "call_step collect e (srv, c) = Inr (srv', c')"
  shows "results_ok P srv0 (srv', c')"
proof (cases "k < length (call_pool c)")
  case False
  with assms(4) step e show ?thesis by simp
next
  case k: True
  obtain a r where g: "call_pool c ! k = (a, r)" by force
  let ?res = "srv_heap srv ! a" and ?i = "res_ID (srv_heap srv ! a)"
  have gp: "(a, r) \<in> set (call_pool c)" using g k nth_mem [OF k] by simp
  then have l: "srv_lookup srv ?i = Some a" and h0: "?res = srv_heap srv0 ! a"
    using assms(2,4) by (auto simp: call_ok_def results_ok_def list_all_iff)
  have len: "a < length (srv_heap srv)" using serving_lookup(1) [OF assms(1) l] .
  obtain tpl where tpl: "res_config ?res = Some tpl"
    using serving_lookup(4) [OF assms(1) l] by (auto simp: serviceable_resource_def split: option.splits)
  obtain s lease where r: "run_goroutine srv clk (a, r) =
      Inr (heap_write srv a (?res\<lparr>res_store := s\<rparr>), \<lparr>item_id = ?i, item_lease = lease\<rparr>)"
    "resource_Decide ?res clk r = Inr (?res\<lparr>res_store := s\<rparr>, lease)"
    using run_goroutine_serving [OF assms(1) l tpl, of clk r] by blast
  let ?h = "(srv_heap srv)[a := ?res\<lparr>res_store := s\<rparr>]"
  have new: "P (?res\<lparr>res_store := s\<rparr>) lease" using decide [OF e gp] r(2) h0 by simp
  have eq: "srv' = heap_write srv a (?res\<lparr>res_store := s\<rparr>)"
    "c' = c\<lparr>call_pool := drop_nth k (call_pool c), call_items := call_items c @ [\<lparr>item_id = ?i, item_lease = lease\<rparr>]\<rparr>"
    using step e k g r(1) by auto
  note notin = call_ok_fresh [OF assms(2,3) k g]
  have other: "?h ! b = srv_heap srv ! b" if "srv_lookup srv j = Some b" "j \<noteq> ?i" for j b
  proof -
    have "b \<noteq> a" using that serving_lookup(2) [OF assms(1) that(1)] by auto
    then show ?thesis by simp
  qed
  have pool: "?h ! b = srv_heap srv0 ! b" if "(b, q) \<in> set (drop_nth k (call_pool c))" for b q
  proof -
    have "(b, q) \<in> set (call_pool c)" using that set_drop_nth [of k "call_pool c"] by blast
    then have "srv_lookup srv (res_ID (srv_heap srv ! b)) = Some b" "srv_heap srv ! b = srv_heap srv0 ! b"
      using assms(2,4) by (auto simp: call_ok_def results_ok_def list_all_iff)
    moreover have "res_ID (srv_heap srv ! b) \<noteq> ?i" using notin(1) that by (force simp: pool_ids_def)
    ultimately show ?thesis using other by metis
  qed
  have items: "\<exists>b. srv_lookup srv (item_id it) = Some b \<and> P (?h ! b) (item_lease it)"
    if "it \<in> set (call_items c)" for it
  proof -
    obtain b where "srv_lookup srv (item_id it) = Some b" "P (srv_heap srv ! b) (item_lease it)"
      using assms(4) \<open>it \<in> set (call_items c)\<close> by (auto simp: results_ok_def list_all_iff)
    moreover have "item_id it \<noteq> ?i" using notin(2) imageI [OF that, of item_id] by auto
    ultimately show ?thesis using other by metis
  qed
  have outs: "\<exists>b l. srv_lookup srv (resp_id resp) = Some b \<and> P (?h ! b) l \<and> resp_gets resp = Some (lease_to_pb l)"
    if "resp \<in> set (call_out c)" for resp
  proof -
    obtain b l where "srv_lookup srv (resp_id resp) = Some b" "P (srv_heap srv ! b) l"
      "resp_gets resp = Some (lease_to_pb l)"
      using assms(4) \<open>resp \<in> set (call_out c)\<close> by (auto simp: results_ok_def list_all_iff)
    moreover have "resp_id resp \<noteq> ?i" using notin(3) imageI [OF that, of resp_id] by auto
    ultimately show ?thesis using other by metis
  qed
  show ?thesis
    unfolding eq results_ok_def using pool items outs l new len by (auto simp: list_all_iff)
qed

lemma recv_results:
  assumes "serving srv config" and "results_ok P srv0 (srv, c)"
    and "call_step collect (Recv k) (srv, c) = Inr (srv', c')"
  shows "results_ok P srv0 (srv', c')"
proof (cases "k < length (call_items c)")
  case False
  with assms show ?thesis by simp
next
  case k: True
  obtain a where a: "srv_lookup srv (item_id (call_items c ! k)) = Some a"
    "P (srv_heap srv ! a) (item_lease (call_items c ! k))"
    using assms(2) nth_mem [OF k] by (auto simp: results_ok_def list_all_iff)
  obtain resp where r: "collect srv (call_items c ! k) = Inr (srv, resp)"
    "resp_id resp = item_id (call_items c ! k)" "resp_gets resp = Some (lease_to_pb (item_lease (call_items c ! k)))"
    using collect_known [OF assms(1) a(1)] by blast
  then show ?thesis
    using assms(2,3) k a by (auto simp: results_ok_def intro: list_all_drop_nth)
qed

lemma call_step_pool:
  "call_step collect e (srv, c) = Inr (srv', c') \<Longrightarrow> set (call_pool c') \<subseteq> set (call_pool c)"
  using set_drop_nth by (cases e) (fastforce split: if_splits)+

lemma run_results:
  assumes "serving srv config" and "call_ok resp_id ids (srv, c)"
    and "\<And>i. count ids i \<le> 1" and "results_ok P srv0 (srv, c)"
    and "\<And>a r clk res' l. clk \<in> clocks_of es \<Longrightarrow> (a, r) \<in> set (call_pool c) \<Longrightarrow>
        resource_Decide (srv_heap srv0 ! a) clk r = Inr (res', l) \<Longrightarrow> P res' l"
    and "call_run collect es (srv, c) = Inr (srv', c')"
  shows "results_ok P srv0 (srv', c')"
  using assms
proof (induction es arbitrary: srv c)
  case (Cons e es)
  obtain srv1 c1 where 1: "call_step collect e (srv, c) = Inr (srv1, c1)" "serving srv1 config"
    "call_ok resp_id ids (srv1, c1)"
    using step_ok [OF Cons.prems(1,2), of e] by blast
  have "results_ok P srv0 (srv1, c1)"
  proof (cases e)
    case (Run k clk)
    have "clk \<in> clocks_of (e # es)" using Run by (auto simp: clocks_of_def)
    then show ?thesis
      by (intro step_results [OF Cons.prems(1-4) _ Run 1(1)]) (use Run Cons.prems(5) in blast)
  next
    case (Recv k)
    show ?thesis by (rule recv_results [OF Cons.prems(1,4) 1(1) [unfolded Recv]])
  qed
  moreover have "P res' l" if "clk \<in> clocks_of es" "(a, r) \<in> set (call_pool c1)"
    "resource_Decide (srv_heap srv0 ! a) clk r = Inr (res', l)" for a r clk res' l
    using Cons.prems(5) [of clk a r res' l] that call_step_pool [OF 1(1)] by (auto simp: clocks_of_def)
  moreover have "call_run collect es (srv1, c1) = Inr (srv', c')" using Cons.prems(6) 1(1) by simp
  ultimately show ?case using Cons.IH [OF 1(2,3) Cons.prems(3)] by blast
qed simp

end

text \<open>Both handlers meet the contract.\<close>

lemma collect_item_known:
  assumes "serving srv config" and "srv_lookup srv (item_id it) = Some a"
  shows "\<exists>resp. collect_item srv it = Inr (srv, resp) \<and>
    ResourceResponse_GetResourceId (Some resp) = item_id it \<and> rrsp_Gets resp = Some (lease_to_pb (item_lease it))"
proof -
  obtain tpl where "res_config (srv_heap srv ! a) = Some tpl" "serviceable tpl"
    using serving_lookup(4) [OF assms] by (auto simp: serviceable_resource_def split: option.splits)
  then show ?thesis
    using assms(2)
    by (auto simp: collect_item_def getOrCreateResource_def SetSafeCapacity_def serviceable_def
        ResourceResponse_GetResourceId_def Let_def split: option.split)
qed

interpretation client_call: collector collect_item "\<lambda>resp. ResourceResponse_GetResourceId (Some resp)"
    rrsp_Gets
  by unfold_locales (rule collect_item_known)

interpretation server_call: collector collect_server_item
    "\<lambda>resp. ServerCapacityResourceResponse_GetResourceId (Some resp)" scp_Gets
  by unfold_locales
    (simp add: collect_server_item_def ServerCapacityResourceResponse_GetResourceId_def)

end
