(* ===== verification/Server_Props.thy ===== *)
theory Server_Props
  imports Server_Calls
begin

text \<open>
  Properties of the server: its configuration, mastership, and the calls of its clients.
\<close>

section \<open>Lemmas on capacity requests\<close>

definition requested :: "GetCapacityRequest \<Rightarrow> string list" where
  "requested q = map (\<lambda>req. ResourceRequest_GetResourceId (Some req)) (gcq_Resource q)"

lemma requested_client_requests: "map cr_resID (client_requests q) = requested q"
  by (simp add: client_requests_def requested_def)

definition covers :: "ResourceRepository \<Rightarrow> string list \<Rightarrow> bool" where
  "covers config ids = list_all (covered (repo_Resources config)) ids"

definition new_call :: "(nat \<times> Request) list \<Rightarrow> 'resp call" where
  "new_call gs = \<lparr>call_pool = gs, call_items = [], call_out = []\<rparr>"

lemma call_ok_new:
  assumes "serving srv config"
    and "list_all2 (\<lambda>creq (a, r). srv_lookup srv (cr_resID creq) = Some a \<and> r = request_of creq) creqs gs"
  shows "call_ok resp_id (mset (map cr_resID creqs)) (srv, new_call gs)"
proof -
  have "pool_ids srv gs = map cr_resID creqs \<and>
      list_all (\<lambda>(a, r). srv_lookup srv (res_ID (srv_heap srv ! a)) = Some a) gs"
    using assms(2)
    by (induction rule: list_all2_induct) (auto simp: pool_ids_def serving_lookup(2) [OF assms(1)])
  then show ?thesis by (simp add: call_ok_def new_call_def)
qed

lemma GetCapacity_unfold:
  assumes "serving srv config" and "covers config (requested q)"
  obtains srv0 gs where "getCapacity srv (client_requests q) = Inr (srv0, gs)" "serving srv0 config"
    "extends srv srv0"
    "list_all2 (\<lambda>creq (a, r). srv_lookup srv0 (cr_resID creq) = Some a \<and> r = request_of creq) (client_requests q) gs"
    "call_ok (\<lambda>resp. ResourceResponse_GetResourceId (Some resp)) (mset (requested q)) (srv0, new_call gs)"
    "\<And>schedule. GetCapacity schedule srv q =
        bind_panic (call_run collect_item schedule (srv0, new_call gs)) (\<lambda>(srv', c).
          Inr (srv', if call_returned c then Some \<lparr>gcp_Response = call_out c, gcp_Mastership = None\<rparr> else None))"
proof -
  have "list_all (\<lambda>creq. covered (repo_Resources config) (cr_resID creq)) (client_requests q)"
    using assms(2) by (simp add: covers_def list_all_iff flip: requested_client_requests)
  from getCapacity_serving [OF assms(1) this] obtain srv0 gs where
    g: "getCapacity srv (client_requests q) = Inr (srv0, gs)" "serving srv0 config" "extends srv srv0"
    "list_all2 (\<lambda>creq (a, r). srv_lookup srv0 (cr_resID creq) = Some a \<and> r = request_of creq) (client_requests q) gs"
    by blast
  have m: "IsMaster srv" using assms(1) by (simp add: serving_def)
  show thesis
    by (rule that [OF g])
      (use call_ok_new [OF g(2,4)] m g(1) in \<open>simp_all add: requested_client_requests GetCapacity_def new_call_def\<close>)
qed

lemma GetCapacity_results:
  assumes "serving srv config" and "covers config (requested q)" and "distinct (requested q)"
    and "GetCapacity schedule srv q = Inr (srv', Some resp)"
    and P: "\<And>srv0 creq a clk res' l. extends srv srv0 \<Longrightarrow> serving srv0 config \<Longrightarrow>
        creq \<in> set (client_requests q) \<Longrightarrow> srv_lookup srv0 (cr_resID creq) = Some a \<Longrightarrow>
        clk \<in> clocks_of schedule \<Longrightarrow>
        resource_Decide (srv_heap srv0 ! a) clk (request_of creq) = Inr (res', l) \<Longrightarrow> P res' l"
  shows "list_all (\<lambda>r. \<exists>a l. srv_lookup srv' (ResourceResponse_GetResourceId (Some r)) = Some a \<and>
      P (srv_heap srv' ! a) l \<and> rrsp_Gets r = Some (lease_to_pb l)) (gcp_Response resp)"
proof -
  obtain srv0 gs where g: "serving srv0 config" "extends srv srv0"
    "list_all2 (\<lambda>creq (a, r). srv_lookup srv0 (cr_resID creq) = Some a \<and> r = request_of creq) (client_requests q) gs"
    "call_ok (\<lambda>resp. ResourceResponse_GetResourceId (Some resp)) (mset (requested q)) (srv0, new_call gs)"
    and G: "GetCapacity schedule srv q = bind_panic (call_run collect_item schedule (srv0, new_call gs))
      (\<lambda>(srv', c). Inr (srv', if call_returned c then Some \<lparr>gcp_Response = call_out c, gcp_Mastership = None\<rparr> else None))"
    by (rule GetCapacity_unfold [OF assms(1,2)]) blast
  obtain c where c: "call_run collect_item schedule (srv0, new_call gs) = Inr (srv', c)"
    "gcp_Response resp = call_out c"
    using assms(4) unfolding G by (auto split: if_splits)
  have one: "count (mset (requested q)) i \<le> 1" for i using assms(3) by (simp add: distinct_count_atmost_1)
  have new: "client_call.results_ok P srv0 (srv0, new_call gs)"
    by (simp add: client_call.results_ok_def new_call_def list_all_iff case_prod_unfold)
  have P': "P res' l" if clk: "clk \<in> clocks_of schedule" and gs: "(a, r) \<in> set (call_pool (new_call gs))"
    and d: "resource_Decide (srv_heap srv0 ! a) clk r = Inr (res', l)" for a r clk res' l
  proof -
    obtain creq where "creq \<in> set (client_requests q)" "srv_lookup srv0 (cr_resID creq) = Some a" "r = request_of creq"
      using g(3) gs by (fastforce simp: new_call_def list_all2_conv_all_nth in_set_conv_nth)
    then show ?thesis using P [OF g(2,1)] clk d by blast
  qed
  have "client_call.results_ok P srv0 (srv', c)"
    by (rule client_call.run_results [OF g(1,4) one new _ c(1)]) (rule P')
  then show ?thesis by (simp add: client_call.results_ok_def c(2))
qed

section \<open>A concrete server\<close>

text \<open>A root server that has just become the master, with one entry for \<open>r\<close> and the default.\<close>

definition example_repo :: ResourceRepository where
  "example_repo = \<lparr>repo_Resources = [example_template Algorithm_FAIR_SHARE, defaultResourceTemplate]\<rparr>"

definition example_server :: "Resource list \<Rightarrow> Server" where
  "example_server heap = \<lparr>srv_ID = ''s'', srv_isConfigured = True,
     srv_resources = Some (map (\<lambda>a. (res_ID (heap ! a), a)) [0..<length heap]), srv_isMaster = True,
     srv_becameMasterAt = 10, srv_currentMaster = ''s'', srv_config = Some example_repo,
     srv_updater = False, srv_conn = None, srv_handlers = 1, srv_heap = heap\<rparr>"

definition ask :: "string \<Rightarrow> rat \<Rightarrow> ResourceRequest" where
  "ask i w = \<lparr>rreq_ResourceId = Some i, rreq_Priority = Some 1, rreq_Has = None, rreq_Wants = Some (Fin w)\<rparr>"

definition example_query :: GetCapacityRequest where
  "example_query = \<lparr>gcq_ClientId = Some ''b'', gcq_Resource = [ask ''r'' 80]\<rparr>"

lemma example_repo_ok: "repo_valid example_repo" "repo_serviceable example_repo"
  by (simp_all add: example_repo_def repo_valid_def repo_serviceable_def template_valid_def algorithm_valid_def
      serviceable_def known_kind_def example_template_def example_config_def defaultResourceTemplate_def
      ResourceTemplate_GetIdentifierGlob_def Algorithm_GetKind_def glob_match_star glob_match_literal plain_def)

lemma example_covered: "sep_char \<notin> set i \<Longrightarrow> covered (repo_Resources example_repo) i"
  by (rule covered_no_separator [OF example_repo_ok(1)])

lemma example_server_serving:
  "serving (example_server []) example_repo"
  "serving (example_server [example_resource example_store 0]) example_repo"
  using example_repo_ok resource_ok_wf [OF example_resource_ok [OF example_store_ok]]
  by (simp_all add: serving_def server_ok_def example_server_def addresses_ok_def IsMaster_def
      serviceable_resource_def)
    (simp_all add: example_resource_def serviceable_def known_kind_def example_template_def example_config_def
      Algorithm_GetKind_def)

lemma example_query_covered: "covers example_repo (requested example_query)"
  by (simp add: covers_def requested_def example_query_def ask_def ResourceRequest_GetResourceId_def example_covered)

section \<open>Configuration\<close>

text \<open>C24. The validation of a configuration accepts exactly the repositories whose globs are well
  formed, whose algorithms have a refresh interval of at least a second and a lease at least as
  long, and that have an entry for \<open>*\<close>, with an algorithm, in the last place and nowhere else.\<close>

theorem validate_exact: "validateResourceRepository p = None \<longleftrightarrow> repo_valid p"
  by (simp add: repo_valid_iff)

text \<open>The template of a resource: under a valid configuration every id without a slash has
  one, and it is the first entry whose glob is literally the id, or, when there is none, the first
  entry whose glob matches it.\<close>

lemma find_config_selects:
  assumes "srv_config srv = Some config" and "repo_valid config" and "CHR ''/'' \<notin> set i"
  shows "\<exists>k. selected (repo_Resources config) i k \<and>
    findConfigForResource srv i = Inr (repo_Resources config ! k)"
  using findConfig_covered [OF assms(1)] covered_no_separator [OF assms(2,3)]
    findConfig_selected [OF assms(1), of i] by metis

lemma find_config_selects_witness:
  "\<exists>k. selected (repo_Resources example_repo) ''other'' k \<and>
    findConfigForResource (example_server []) ''other'' = Inr (repo_Resources example_repo ! k)"
  by (rule find_config_selects [OF _ example_repo_ok(1)]) (simp_all add: example_server_def)

text \<open>Loading another configuration into a running server: each resource of the server gets
  the template selected for its id and the expiry time given for it, and keeps its leases and the
  end of its learning mode. The invariant is preserved and no error is reported.\<close>

lemma load_config_reloads:
  assumes "server_ok srv" and "srv_config srv \<noteq> None" and "repo_valid config" and "repo_serviceable config"
    and "\<And>m. srv_resources srv = Some m \<Longrightarrow> covers config (map fst m)"
  shows "\<exists>heap. server_LoadConfig run_err srv config ex =
      Inr (srv\<lparr>srv_config := Some config, srv_heap := heap\<rparr>, None) \<and>
      server_ok (srv\<lparr>srv_config := Some config, srv_heap := heap\<rparr>) \<and>
      (\<forall>i a. srv_lookup srv i = Some a \<longrightarrow> reloaded config ex i (srv_heap srv ! a) (heap ! a))"
  by (rule server_LoadConfig_next [OF assms(1-4)])
    (use assms(5) in \<open>auto simp: covers_def list_all_iff\<close>)

lemma load_config_reloads_witness:
  "\<exists>heap. server_LoadConfig None (example_server [example_resource example_store 0]) example_repo [] =
      Inr ((example_server [example_resource example_store 0])\<lparr>srv_config := Some example_repo, srv_heap := heap\<rparr>, None) \<and>
     reloaded example_repo [] ''r'' (example_resource example_store 0) (heap ! 0)"
proof -
  let ?s = "example_server [example_resource example_store 0]"
  have ok: "server_ok ?s" using example_server_serving(2) by (simp add: serving_def)
  have "srv_lookup ?s ''r'' = Some 0" by (simp add: srv_lookup_def example_server_def example_resource_def)
  moreover have "srv_config ?s \<noteq> None" "srv_heap ?s ! 0 = example_resource example_store 0"
    "\<And>m. srv_resources ?s = Some m \<Longrightarrow> covers example_repo (map fst m)"
    by (auto simp: example_server_def covers_def example_covered example_resource_def)
  ultimately show ?thesis
    using load_config_reloads [OF ok _ example_repo_ok, of None "[]"] by metis
qed

section \<open>Mastership\<close>

text \<open>C17. A server that becomes the master at \<open>t\<close> starts with no resources, and every resource it
  then creates starts empty, with the selected template, in learning mode until the configured
  duration after \<open>t\<close> (by default the length of a lease).\<close>

theorem new_master_learns:
  assumes "server_ok srv" and "0 < srv_handlers srv" and "srv_config srv = Some config"
    and "repo_serviceable config" and "covered (repo_Resources config) i"
  shows "\<exists>srv' a k. getOrCreateResource (handleElectionOutcome t True srv) i = Inr (srv', a) \<and>
    srv_resources srv' = Some [(i, a)] \<and> selected (repo_Resources config) i k \<and>
    ls_leases (res_store (srv_heap srv' ! a)) = [] \<and>
    res_config (srv_heap srv' ! a) = Some (repo_Resources config ! k) \<and>
    (let d = learning_duration (tpl_Algorithm (repo_Resources config ! k)) in
     \<forall>now. in_learning_mode (srv_heap srv' ! a) now =
       (if 0 < sint d then now < t + sint d else now < 0))"
proof -
  let ?s = "handleElectionOutcome t True srv"
  have s: "server_ok ?s" by (rule server_ok_election [OF assms(1,2)])
  have r: "srv_resources ?s = Some []" "srv_config ?s = Some config" "srv_becameMasterAt ?s = t"
    using assms(3) by (simp_all add: handleElectionOutcome_def)
  then have none: "srv_lookup ?s i = None" by (simp add: srv_lookup_def)
  obtain srv' a k where g: "getOrCreateResource ?s i = Inr (srv', a)" "selected (repo_Resources config) i k"
    "res_config (srv_heap srv' ! a) = Some (repo_Resources config ! k)"
    "res_learningModeEndTime (srv_heap srv' ! a) =
          GetLearningModeEndTime ?s (learning_duration (tpl_Algorithm (repo_Resources config ! k)))"
    "res_store (srv_heap srv' ! a) = NewLeaseStore i"
    using getOrCreate_ok [OF s _ r(2) assms(4,5)] none r(1) by auto
  have "srv_resources srv' = Some [(i, a)]"
    using g(1) none r(1) by (auto simp: getOrCreateResource_def Let_def split: option.splits)
  then show ?thesis
    using g r(3) by (intro exI [of _ srv'] exI [of _ a] exI [of _ k])
      (auto simp: NewLeaseStore_def Let_def in_learning_mode_def After_def GetLearningModeEndTime_def
        Seconds_def time_Add_def Unix_def)
qed

theorem new_master_learns_witness:
  "\<exists>srv' a. getOrCreateResource (handleElectionOutcome 7 True (example_server [])) ''r'' = Inr (srv', a) \<and>
    srv_resources srv' = Some [(''r'', a)] \<and> ls_leases (res_store (srv_heap srv' ! a)) = []"
proof -
  have "server_ok (example_server [])" using example_server_serving(1) by (simp add: serving_def)
  from new_master_learns [OF this _ _ example_repo_ok(2) example_covered, of "''r''" 7] show ?thesis
    by (auto simp: example_server_def)
qed

end
