(* ===== verification/Server_Rpc_Props.thy ===== *)
theory Server_Rpc_Props
  imports Server_Props
begin

text \<open>
  Properties of the remote procedure calls: what a serving master answers under every schedule
  of its goroutines, what it records, how much it hands out; the other calls; and inputs that
  bring the server down or spoil its totals.
\<close>

section \<open>Lemmas\<close>

text \<open>A resource of a root server that is past learning mode, with a sharing algorithm.\<close>

definition sharing_resource :: "Resource \<Rightarrow> bool" where
  "sharing_resource res = (case res_config res of None \<Rightarrow> False
     | Some tpl \<Rightarrow> Algorithm_GetKind (tpl_Algorithm tpl) \<in> {Algorithm_FAIR_SHARE, Algorithm_PROPORTIONAL_SHARE}
         \<and> res_expiryTime res = None
         \<and> (case ResourceTemplate_GetCapacity (Some tpl) of Fin cap \<Rightarrow> 0 \<le> cap | _ \<Rightarrow> False))"

definition within_capacity :: "Resource \<Rightarrow> bool" where
  "within_capacity res = (store_SumHas (res_store res) \<le> ResourceTemplate_GetCapacity (res_config res))"

lemma Decide_within:
  assumes "resource_ok res" and "sharing_resource res" and "\<not> in_learning_mode res (at_mode clk)"
    and "counts_ok (res_store res) r" and "isFinite (req_Wants r)"
    and "resource_Decide res clk r = Inr (res', l)"
  shows "within_capacity res'"
proof -
  obtain tpl cap where tpl: "res_config res = Some tpl"
    "Algorithm_GetKind (tpl_Algorithm tpl) \<in> {Algorithm_FAIR_SHARE, Algorithm_PROPORTIONAL_SHARE}"
    "res_expiryTime res = None" "ResourceTemplate_GetCapacity (Some tpl) = Fin cap" "0 \<le> cap"
    using assms(2) by (auto simp: sharing_resource_def split: option.splits f64.splits)
  obtain alg where alg: "GetAlgorithm (tpl_Algorithm tpl) = Inr alg" "res_algorithm res = Some alg"
    using assms(1) tpl(1) by (auto simp: resource_ok_def elim: configuredE)
  from alg(1) have "alg = FairShare (tpl_Algorithm tpl) \<or> alg = ProportionalShare (tpl_Algorithm tpl)"
    by (cases rule: GetAlgorithm_cases) (use tpl(2) in \<open>simp_all add: Algorithm_Kind_defs\<close>)
  moreover have "resource_capacity res (at_capacity clk) = Fin cap"
    using tpl by (simp add: resource_capacity_def)
  ultimately obtain s where "resource_Decide res clk r = Inr (res\<lparr>res_store := s\<rparr>, l)" "store_SumHas s \<le> Fin cap"
    using Decide_sharing [OF assms(1,3) tpl(1) alg(2) _ assms(4,5) _ tpl(5)] assms(6) by force
  then show ?thesis using assms(6) tpl(1,4) by (simp add: within_capacity_def)
qed

text \<open>Releasing a client's leases: one resource after another.\<close>

definition released :: "string \<Rightarrow> Resource \<Rightarrow> Resource" where
  "released client res = res\<lparr>res_store := store_Release (res_store res) client\<rparr>"

lemma store_Release_twice: "store_Release (store_Release s c) c = store_Release s c"
  by (auto simp: store_Release_def map_of_del split: option.split)

lemma release_loop_effect:
  assumes "server_ok srv"
  shows "srv_lookup (release_loop client ids srv) = srv_lookup srv \<and> server_ok (release_loop client ids srv) \<and>
    (\<forall>i a. srv_lookup srv i = Some a \<longrightarrow> srv_heap (release_loop client ids srv) ! a =
      (if i \<in> set ids then released client (srv_heap srv ! a) else srv_heap srv ! a))"
  using assms
proof (induction client ids srv rule: release_loop.induct)
  case (2 client i ids srv)
  show ?case
  proof (cases "srv_lookup srv i")
    case None
    with 2 show ?thesis by auto
  next
    case (Some a)
    let ?srv = "heap_write srv a (released client (srv_heap srv ! a))"
    note l = server_ok_lookup [OF "2.prems" Some]
    have "resource_wf (released client (srv_heap srv ! a))"
      using resource_wf_Release [OF l(3), of client] by (simp add: resource_Release_def released_def)
    then have ok: "server_ok ?srv"
      by (rule server_ok_heap_write [OF "2.prems"]) (simp add: released_def)
    have e: "release_loop client (i # ids) srv = release_loop client ids ?srv"
      using Some by (simp add: Let_def released_def)
    have inj: "j = i" if "srv_lookup srv j = Some a" for j
      using server_ok_lookup(2) [OF "2.prems" that] l(2) by simp
    have IH: "srv_lookup (release_loop client ids ?srv) = srv_lookup ?srv"
      "server_ok (release_loop client ids ?srv)"
      "\<And>j b. srv_lookup ?srv j = Some b \<Longrightarrow> srv_heap (release_loop client ids ?srv) ! b =
         (if j \<in> set ids then released client (srv_heap ?srv ! b) else srv_heap ?srv ! b)"
      using "2.IH" ok Some by (simp_all add: Let_def released_def)
    have rr: "released client (released client res) = released client res" for res
      by (simp add: released_def store_Release_twice)
    have "srv_heap (release_loop client ids ?srv) ! b =
      (if j \<in> set (i # ids) then released client (srv_heap srv ! b) else srv_heap srv ! b)"
      if jb: "srv_lookup srv j = Some b" for j b
    proof (cases "b = a")
      case True
      then have "j = i" using inj jb by blast
      with IH(3) [of j b] jb True l(1) show ?thesis by (simp add: rr)
    next
      case False
      then have "j \<noteq> i" using jb Some by auto
      with IH(3) [of j b] jb False show ?thesis by simp
    qed
    then show ?thesis unfolding e using IH(1,2) by simp
  qed
qed simp

lemma GetCapacity_ok:
  assumes "serving srv config" and "covers config (requested q)"
  shows "\<exists>srv' out. GetCapacity schedule srv q = Inr (srv', out) \<and> serving srv' config \<and>
    (case out of None \<Rightarrow> True
     | Some resp \<Rightarrow> gcp_Mastership resp = None \<and>
         mset (map (\<lambda>r. ResourceResponse_GetResourceId (Some r)) (gcp_Response resp)) = mset (requested q))"
proof -
  obtain srv0 gs where g: "serving srv0 config"
    "call_ok (\<lambda>resp. ResourceResponse_GetResourceId (Some resp)) (mset (requested q)) (srv0, new_call gs)"
    and G: "GetCapacity schedule srv q = bind_panic (call_run collect_item schedule (srv0, new_call gs))
      (\<lambda>(srv', c). Inr (srv', if call_returned c then Some \<lparr>gcp_Response = call_out c, gcp_Mastership = None\<rparr> else None))"
    by (rule GetCapacity_unfold [OF assms]) blast
  obtain srv' c where c: "call_run collect_item schedule (srv0, new_call gs) = Inr (srv', c)" "serving srv' config"
    "call_ok (\<lambda>resp. ResourceResponse_GetResourceId (Some resp)) (mset (requested q)) (srv', c)"
    using client_call.run_ok [OF g] by blast
  then show ?thesis
    unfolding G by (auto simp: call_ok_def call_returned_def pool_ids_def)
qed

lemma GetCapacity_recorded:
  assumes "serving srv config" and "covers config (requested q)" and "distinct (requested q)"
    and "GetCapacity schedule srv q = Inr (srv', Some resp)"
  shows "list_all (\<lambda>r. \<exists>a l. srv_lookup srv' (ResourceResponse_GetResourceId (Some r)) = Some a \<and>
      map_of (ls_leases (res_store (srv_heap srv' ! a))) (GetCapacityRequest_GetClientId (Some q)) = Some l \<and>
      rrsp_Gets r = Some (lease_to_pb l)) (gcp_Response resp)"
proof (rule GetCapacity_results [OF assms], goal_cases)
  case (1 srv0 creq a clk res' l)
  have client: "req_Client (request_of creq) = GetCapacityRequest_GetClientId (Some q)"
    using 1(3) by (auto simp: client_requests_def request_of_def)
  obtain tpl where "res_config (srv_heap srv0 ! a) = Some tpl"
    using serving_lookup(4) [OF 1(2,4)] by (auto simp: serviceable_resource_def split: option.splits)
  from Decide_effect [OF serving_lookup(3) [OF 1(2,4)] this, of clk "request_of creq"] 1(6)
  show ?case by (auto simp: map_of_put client)
qed

text \<open>A concrete call: one request, one goroutine, one item.\<close>

abbreviation (input) example_master :: Server where
  "example_master \<equiv> example_server [example_resource example_store 0]"

lemma example_call:
  "\<exists>srv' resp. GetCapacity [Run 0 (example_clock 40), Recv 0] example_master example_query = Inr (srv', Some resp) \<and>
     gcp_Response resp \<noteq> []"
proof -
  let ?r = "\<lparr>req_Client = ''b'', req_Has = Fin 0, req_Wants = Fin 80, req_Subclients = 1\<rparr>"
  have res: "res_ID (example_resource s t) = ''r''"
    "res_config (example_resource s t) = Some (example_template Algorithm_FAIR_SHARE)"
    "(example_resource s' t)\<lparr>res_store := s\<rparr> = example_resource s t" for s s' t
    by (simp_all add: example_resource_def)
  have tpl: "tpl_SafeCapacity (example_template k) = None" "tpl_Capacity (example_template k) = Some (Fin 100)" for k
    by (simp_all add: example_template_def)
  obtain s lease where d: "resource_Decide (example_resource example_store 0) (example_clock 40) ?r =
      Inr (example_resource s 0, lease)"
    using Decide_effect [OF resource_ok_wf [OF example_resource_ok [OF example_store_ok]] res(2)] unfolding res(3) by blast
  have q: "client_requests example_query = [\<lparr>cr_client = ''b'', cr_resID = ''r'', cr_has = Fin 0, cr_wants = Fin 80,
      cr_subclients = 1\<rparr>]"
    by (simp add: client_requests_def example_query_def ask_def getter_defs)
  have srv: "getOrCreateResource (example_server [example_resource s t]) ''r'' =
        Inr (example_server [example_resource s t], 0)"
    "heap_write (example_server [example_resource s' t]) 0 (example_resource s t) = example_server [example_resource s t]"
    "srv_heap (example_server [example_resource s t]) = [example_resource s t]"
    "IsMaster (example_server [example_resource s t])" for s s' t
    by (simp_all add: getOrCreateResource_def srv_lookup_def example_server_def heap_write_def IsMaster_def res)
  show ?thesis
    by (simp add: GetCapacity_def q d srv res tpl run_goroutine_def collect_item_def SetSafeCapacity_def drop_nth_def
        call_returned_def Let_def)
qed

section \<open>Requests for capacity\<close>

text \<open>What a serving master answers to \<open>GetCapacity\<close>, under every schedule of its goroutines:
  nothing panics, it keeps serving, and if the call returns, the response is not a redirection
  and has exactly one entry for each resource of the request.\<close>

lemma get_capacity_answers:
  assumes "serving srv config" and "covers config (requested q)"
  shows "\<exists>srv' out. GetCapacity schedule srv q = Inr (srv', out) \<and> serving srv' config \<and>
    (case out of None \<Rightarrow> True
     | Some resp \<Rightarrow> gcp_Mastership resp = None \<and>
         mset (map (\<lambda>r. ResourceResponse_GetResourceId (Some r)) (gcp_Response resp)) = mset (requested q))"
  by (rule GetCapacity_ok [OF assms])

lemma get_capacity_answers_witness:
  "\<exists>srv' out. GetCapacity [Run 0 (example_clock 40), Recv 0] (example_server []) example_query = Inr (srv', out) \<and>
    serving srv' example_repo"
  using get_capacity_answers [OF example_server_serving(1) example_query_covered] by blast

text \<open>A capacity request never gets stuck: whatever the schedule did so far, it can be
  continued so that the call returns.\<close>

lemma get_capacity_returns:
  assumes "serving srv config" and "covers config (requested q)"
  shows "\<exists>more srv' resp. GetCapacity (schedule @ more) srv q = Inr (srv', Some resp)"
proof -
  obtain srv0 gs where g: "serving srv0 config"
    "call_ok (\<lambda>resp. ResourceResponse_GetResourceId (Some resp)) (mset (requested q)) (srv0, new_call gs)"
    and G: "\<And>schedule. GetCapacity schedule srv q = bind_panic (call_run collect_item schedule (srv0, new_call gs))
      (\<lambda>(srv', c). Inr (srv', if call_returned c then Some \<lparr>gcp_Response = call_out c, gcp_Mastership = None\<rparr> else None))"
    by (rule GetCapacity_unfold [OF assms]) blast
  obtain srv1 c1 where 1: "call_run collect_item schedule (srv0, new_call gs) = Inr (srv1, c1)"
    "serving srv1 config" "call_ok (\<lambda>resp. ResourceResponse_GetResourceId (Some resp)) (mset (requested q)) (srv1, c1)"
    using client_call.run_ok [OF g] by blast
  obtain more srv' c' where "call_run collect_item more (srv1, c1) = Inr (srv', c')" "call_returned c'"
    using client_call.can_return [OF 1(2,3)] by blast
  then show ?thesis
    unfolding G client_call.call_run_append 1(1) by (intro exI [of _ more]) simp
qed

lemma get_capacity_returns_witness:
  "\<exists>more srv' resp. GetCapacity ([Recv 0, Run 0 (example_clock 40)] @ more) (example_server []) example_query =
     Inr (srv', Some resp)"
  by (rule get_capacity_returns [OF example_server_serving(1) example_query_covered])

text \<open>What the client is told is what the server has recorded: when the call returns, each
  entry of the response is the lease of this client in the resource of that name. The ids of the
  request are distinct; the interleaving is arbitrary.\<close>

lemma get_capacity_recorded:
  assumes "serving srv config" and "covers config (requested q)" and "distinct (requested q)"
    and "GetCapacity schedule srv q = Inr (srv', Some resp)"
  shows "list_all (\<lambda>r. \<exists>a l. srv_lookup srv' (ResourceResponse_GetResourceId (Some r)) = Some a \<and>
      map_of (ls_leases (res_store (srv_heap srv' ! a))) (GetCapacityRequest_GetClientId (Some q)) = Some l \<and>
      rrsp_Gets r = Some (lease_to_pb l)) (gcp_Response resp)"
  by (rule GetCapacity_recorded [OF assms])

lemma get_capacity_recorded_witness:
  "\<exists>srv' resp r a l. GetCapacity [Run 0 (example_clock 40), Recv 0] example_master example_query = Inr (srv', Some resp) \<and>
     r \<in> set (gcp_Response resp) \<and>
     map_of (ls_leases (res_store (srv_heap srv' ! a))) ''b'' = Some l \<and> rrsp_Gets r = Some (lease_to_pb l)"
proof -
  obtain srv' resp where c: "GetCapacity [Run 0 (example_clock 40), Recv 0] example_master example_query = Inr (srv', Some resp)"
    "gcp_Response resp \<noteq> []"
    using example_call by blast
  have "distinct (requested example_query)" by (simp add: requested_def example_query_def)
  from get_capacity_recorded [OF example_server_serving(2) example_query_covered this c(1)] c show ?thesis
    by (cases "gcp_Response resp") (auto simp: example_query_def GetCapacityRequest_GetClientId_def)
qed

text \<open>The capacity bound of a root server: when a capacity request for existing resources with
  sharing algorithms returns, none of these resources has handed out more than its capacity.
  The resources are past learning mode when they decide, their totals are right and the number
  of subclients cannot overflow.\<close>

lemma get_capacity_bound:
  assumes "serving srv config" and "covers config (requested q)" and "distinct (requested q)"
    and "GetCapacity schedule srv q = Inr (srv', Some resp)"
    and "\<And>creq. creq \<in> set (client_requests q) \<Longrightarrow> \<exists>a. srv_lookup srv (cr_resID creq) = Some a \<and>
      resource_ok (srv_heap srv ! a) \<and> sharing_resource (srv_heap srv ! a) \<and>
      (\<forall>clk \<in> clocks_of schedule. \<not> in_learning_mode (srv_heap srv ! a) (at_mode clk)) \<and>
      counts_ok (res_store (srv_heap srv ! a)) (request_of creq) \<and> isFinite (cr_wants creq)"
  shows "list_all (\<lambda>r. \<exists>a. srv_lookup srv' (ResourceResponse_GetResourceId (Some r)) = Some a \<and>
      within_capacity (srv_heap srv' ! a)) (gcp_Response resp)"
proof -
  have "list_all (\<lambda>r. \<exists>a l. srv_lookup srv' (ResourceResponse_GetResourceId (Some r)) = Some a \<and>
      within_capacity (srv_heap srv' ! a) \<and> rrsp_Gets r = Some (lease_to_pb l)) (gcp_Response resp)"
  proof (rule GetCapacity_results [OF assms(1-4)], goal_cases)
    case (1 srv0 creq a clk res' l)
    obtain b where b: "srv_lookup srv (cr_resID creq) = Some b"
      "resource_ok (srv_heap srv ! b)" "sharing_resource (srv_heap srv ! b)"
      "\<not> in_learning_mode (srv_heap srv ! b) (at_mode clk)"
      "counts_ok (res_store (srv_heap srv ! b)) (request_of creq)" "isFinite (cr_wants creq)"
      using assms(5) [OF 1(3)] 1(5) by blast
    have "b = a" using extendsD(1) [OF 1(1) b(1)] 1(4) by simp
    moreover have "srv_heap srv0 ! b = srv_heap srv ! b"
      using extendsD(2) [OF 1(1)] serving_lookup(1) [OF assms(1) b(1)] by blast
    ultimately show ?case
      using Decide_within [OF b(2-5), of res' l] b(6) 1(6) by (simp add: request_of_def)
  qed
  then show ?thesis by (auto simp: list_all_iff)
qed

lemma get_capacity_bound_witness:
  "\<exists>srv' resp r a. GetCapacity [Run 0 (example_clock 40), Recv 0] example_master example_query = Inr (srv', Some resp) \<and>
     r \<in> set (gcp_Response resp) \<and> within_capacity (srv_heap srv' ! a)"
proof -
  obtain srv' resp where c: "GetCapacity [Run 0 (example_clock 40), Recv 0] example_master example_query = Inr (srv', Some resp)"
    "gcp_Response resp \<noteq> []"
    using example_call by blast
  have d: "distinct (requested example_query)" by (simp add: requested_def example_query_def)
  have l: "srv_lookup example_master ''r'' = Some 0" "srv_heap example_master = [example_resource example_store 0]"
    by (simp_all add: srv_lookup_def example_server_def example_resource_def)
  have s: "sharing_resource (example_resource example_store 0)"
    by (simp add: sharing_resource_def example_resource_def example_template_def example_config_def Algorithm_GetKind_def
        ResourceTemplate_GetCapacity_def)
  have n: "\<not> in_learning_mode (example_resource example_store 0) (at_mode (example_clock 40))"
    "res_store (example_resource example_store 0) = example_store"
    by (simp_all add: in_learning_mode_def example_resource_def example_clock_def After_def)
  have "list_all (\<lambda>r. \<exists>a. srv_lookup srv' (ResourceResponse_GetResourceId (Some r)) = Some a \<and>
      within_capacity (srv_heap srv' ! a)) (gcp_Response resp)"
    by (rule get_capacity_bound [OF example_server_serving(2) example_query_covered d c(1)])
      (use l s n example_resource_ok [OF example_store_ok] example_counts_ok in
        \<open>auto simp: client_requests_def example_query_def ask_def getter_defs clocks_of_def request_of_def
          counts_ok_def example_request_def\<close>)
  with c show ?thesis by (cases "gcp_Response resp") auto
qed

section \<open>The other calls\<close>

text \<open>A server that is not the master changes nothing on any call: it answers with a
  mastership entry, which carries the master's address exactly if the server knows it.\<close>

lemma not_master_redirects:
  assumes "\<not> IsMaster srv"
  shows "GetCapacity schedule srv q1 = Inr (srv, Some \<lparr>gcp_Response = [], gcp_Mastership = Some (redirect srv)\<rparr>) \<and>
    GetServerCapacity schedule srv q2 =
      Inr (srv, Inr (Some \<lparr>gsp_Response = [], gsp_Mastership = Some (redirect srv)\<rparr>)) \<and>
    ReleaseCapacity srv q3 = (srv, \<lparr>rcp_Mastership = Some (redirect srv)\<rparr>) \<and>
    (ms_MasterAddress (redirect srv) = None \<longleftrightarrow> srv_currentMaster srv = '''') \<and>
    Mastership_GetMasterAddress (Some (redirect srv)) = srv_currentMaster srv"
  using assms
  by (simp add: GetCapacity_def GetServerCapacity_def ReleaseCapacity_def redirect_def CurrentMaster_def
      Mastership_GetMasterAddress_def Let_def)

lemma not_master_redirects_witness:
  "GetCapacity [] (example_master\<lparr>srv_isMaster := False\<rparr>) example_query =
     Inr (example_master\<lparr>srv_isMaster := False\<rparr>,
       Some \<lparr>gcp_Response = [], gcp_Mastership = Some (redirect (example_master\<lparr>srv_isMaster := False\<rparr>))\<rparr>)"
  using not_master_redirects [of "example_master\<lparr>srv_isMaster := False\<rparr>"] by (simp add: IsMaster_def)

text \<open>C25. \<open>ReleaseCapacity\<close> takes the client's lease out of every named resource the server knows,
  leaves the leases of other clients, and all other resources, as they were, ignores unknown
  names, and gives the capacity back: where the totals were right they still are.\<close>

theorem release_capacity_effect:
  assumes "server_ok srv" and "IsMaster srv"
    and "ReleaseCapacity srv q = (srv', resp)" and "srv_lookup srv i = Some a"
  defines "old \<equiv> srv_heap srv ! a" and "new \<equiv> srv_heap srv' ! a"
    and "client \<equiv> ReleaseCapacityRequest_GetClientId (Some q)"
  shows "rcp_Mastership resp = None \<and> server_ok srv' \<and> srv_lookup srv' = srv_lookup srv \<and>
    (i \<notin> set (rcq_ResourceId q) \<longrightarrow> new = old) \<and>
    (i \<in> set (rcq_ResourceId q) \<longrightarrow>
       new = old\<lparr>res_store := res_store new\<rparr> \<and>
       map_of (ls_leases (res_store new)) = (map_of (ls_leases (res_store old)))(client := None) \<and>
       (store_ok (res_store old) \<longrightarrow> store_ok (res_store new) \<and>
          store_SumHas (res_store new) =
            store_SumHas (res_store old) - lease_Has (store_Get (res_store old) client)))"
proof -
  have r: "srv' = release_loop client (rcq_ResourceId q) srv" "rcp_Mastership resp = None"
    using assms(2,3) by (auto simp: ReleaseCapacity_def client_def)
  note e = release_loop_effect [OF assms(1), of client "rcq_ResourceId q", folded r(1)]
  have "new = (if i \<in> set (rcq_ResourceId q) then released client old else old)"
    using e assms(4) unfolding new_def old_def by blast
  then show ?thesis
    using e r(2)
    by (auto simp: released_def store_Release_leases map_of_del fun_eq_iff impl.ok_release
        impl.sumHas_release store_Get_lease_of)
qed

theorem release_capacity_effect_witness:
  "map_of (ls_leases (res_store (srv_heap (fst (ReleaseCapacity example_master
     \<lparr>rcq_ClientId = Some ''a'', rcq_ResourceId = [''x'', ''r'']\<rparr>)) ! 0))) ''a'' = None"
proof -
  let ?q = "\<lparr>rcq_ClientId = Some ''a'', rcq_ResourceId = [''x'', ''r'']\<rparr>"
  have "server_ok example_master" "IsMaster example_master"
    using example_server_serving(2) by (simp_all add: serving_def)
  moreover have "srv_lookup example_master ''r'' = Some 0"
    by (simp add: srv_lookup_def example_server_def example_resource_def)
  ultimately show ?thesis
    using release_capacity_effect [of example_master ?q "fst (ReleaseCapacity example_master ?q)"
        "snd (ReleaseCapacity example_master ?q)" "''r''" 0]
    by (simp add: ReleaseCapacityRequest_GetClientId_def)
qed

text \<open>A request of another server in which some priority band has no subclients is rejected
  as a whole, before anything is created or decided.\<close>

lemma server_capacity_rejects:
  assumes "IsMaster srv" and "req \<in> set (gsq_Resource q)" and "w \<in> set (scq_Wants req)"
    and "sint (PriorityBandAggregate_GetNumClients (Some w)) < 1"
  shows "GetServerCapacity schedule srv q = Inr (srv, Inl ''subclients should be > 0'')"
proof -
  have "wants_loop ws t n = None" if "w \<in> set ws" for ws t n
    using that assms(4) by (induction ws arbitrary: t n) auto
  then have none: "wants_loop (scq_Wants req) t n = None" for t n using assms(3) by blast
  have "server_requests client reqs = None" if "req \<in> set reqs" for client reqs
    using that none by (induction reqs) (auto split: option.split)
  then show ?thesis using assms(1,2) by (simp add: GetServerCapacity_def)
qed

text \<open>A request for one resource by a server with one band.\<close>

definition server_query :: "PriorityBandAggregate list \<Rightarrow> GetServerCapacityRequest" where
  "server_query bands = \<lparr>gsq_ServerId = Some ''t'', gsq_Resource =
     [\<lparr>scq_ResourceId = Some ''r'', scq_Has = None, scq_Wants = bands\<rparr>]\<rparr>"

definition band :: "int64 \<Rightarrow> rat \<Rightarrow> PriorityBandAggregate" where
  "band n w = \<lparr>pba_Priority = Some 1, pba_NumClients = Some n, pba_Wants = Some (Fin w)\<rparr>"

lemma server_capacity_rejects_witness:
  "GetServerCapacity [] example_master (server_query [band 2 10, band 0 5]) =
     Inr (example_master, Inl ''subclients should be > 0'')"
  by (rule server_capacity_rejects
      [where req = "hd (gsq_Resource (server_query [band 2 10, band 0 5]))" and w = "band 0 5"])
    (simp_all add: example_server_def IsMaster_def PriorityBandAggregate_GetNumClients_def server_query_def band_def)

text \<open>The parts of a call of \<open>GetServerCapacity\<close>.\<close>

abbreviation server_requested :: "GetServerCapacityRequest \<Rightarrow> string list" where
  "server_requested q \<equiv> map (\<lambda>req. ServerCapacityResourceRequest_GetResourceId (Some req)) (gsq_Resource q)"

abbreviation bands_valid :: "GetServerCapacityRequest \<Rightarrow> bool" where
  "bands_valid q \<equiv>
     list_all (\<lambda>req. list_all (\<lambda>w. 1 \<le> sint (PriorityBandAggregate_GetNumClients (Some w))) (scq_Wants req)) (gsq_Resource q)"

lemma server_requests_valid:
  "list_all (\<lambda>req. list_all (\<lambda>w. 1 \<le> sint (PriorityBandAggregate_GetNumClients (Some w))) (scq_Wants req)) reqs \<Longrightarrow>
     \<exists>creqs. server_requests client reqs = Some creqs \<and>
       map cr_resID creqs = map (\<lambda>req. ServerCapacityResourceRequest_GetResourceId (Some req)) reqs \<and>
       list_all (\<lambda>creq. cr_client creq = client) creqs"
proof (induction reqs)
  case (Cons req reqs)
  have wl: "\<exists>t n. wants_loop ws t0 n0 = Some (t, n)"
    if "list_all (\<lambda>w. 1 \<le> sint (PriorityBandAggregate_GetNumClients (Some w))) ws" for ws t0 n0
    using that by (induction ws arbitrary: t0 n0) auto
  from Cons.prems wl [of "scq_Wants req" "Fin 0" 0] obtain t n where "wants_loop (scq_Wants req) (Fin 0) 0 = Some (t, n)"
    by auto
  with Cons show ?case by auto
qed simp

lemma GetServerCapacity_unfold:
  assumes "serving srv config" and "covers config (server_requested q)" and "bands_valid q"
  obtains creqs srv0 gs where "list_all (\<lambda>creq. cr_client creq = GetServerCapacityRequest_GetServerId (Some q)) creqs"
    "map cr_resID creqs = server_requested q" "serving srv0 config" "extends srv srv0" "getCapacity srv creqs = Inr (srv0, gs)"
    "list_all2 (\<lambda>creq (a, r). srv_lookup srv0 (cr_resID creq) = Some a \<and> r = request_of creq) creqs gs"
    "call_ok (\<lambda>resp. ServerCapacityResourceResponse_GetResourceId (Some resp)) (mset (server_requested q)) (srv0, new_call gs)"
    "\<And>schedule. GetServerCapacity schedule srv q =
        bind_panic (call_run collect_server_item schedule (srv0, new_call gs)) (\<lambda>(srv', c).
          Inr (srv', Inr (if call_returned c then Some \<lparr>gsp_Response = call_out c, gsp_Mastership = None\<rparr> else None)))"
proof -
  obtain creqs where creqs: "server_requests (GetServerCapacityRequest_GetServerId (Some q)) (gsq_Resource q) = Some creqs"
    "map cr_resID creqs = server_requested q" "list_all (\<lambda>creq. cr_client creq = GetServerCapacityRequest_GetServerId (Some q)) creqs"
    using server_requests_valid [OF assms(3)] by blast
  have "list_all (\<lambda>creq. covered (repo_Resources config) (cr_resID creq)) creqs"
    using assms(2) unfolding covers_def creqs(2) [symmetric] by (simp add: list_all_iff)
  from getCapacity_serving [OF assms(1) this] obtain srv0 gs where
    g: "getCapacity srv creqs = Inr (srv0, gs)" "serving srv0 config" "extends srv srv0"
    "list_all2 (\<lambda>creq (a, r). srv_lookup srv0 (cr_resID creq) = Some a \<and> r = request_of creq) creqs gs"
    by blast
  have m: "IsMaster srv" using assms(1) by (simp add: serving_def)
  show thesis
    by (rule that [OF creqs(3,2) g(2,3,1,4)])
      (use call_ok_new [OF g(2,4)] m g(1) creqs(1) in \<open>simp_all add: creqs(2) GetServerCapacity_def new_call_def\<close>)
qed

lemma GetServerCapacity_answers:
  assumes "serving srv config" and "covers config (server_requested q)" and "bands_valid q"
  shows "\<exists>srv' out. GetServerCapacity schedule srv q = Inr (srv', Inr out) \<and> serving srv' config \<and>
    (case out of None \<Rightarrow> True
     | Some resp \<Rightarrow> gsp_Mastership resp = None \<and>
         mset (map (\<lambda>r. ServerCapacityResourceResponse_GetResourceId (Some r)) (gsp_Response resp)) = mset (server_requested q))"
proof -
  obtain srv0 gs where g: "serving srv0 config"
    "call_ok (\<lambda>resp. ServerCapacityResourceResponse_GetResourceId (Some resp)) (mset (server_requested q)) (srv0, new_call gs)"
    "\<And>schedule. GetServerCapacity schedule srv q =
        bind_panic (call_run collect_server_item schedule (srv0, new_call gs)) (\<lambda>(srv', c).
          Inr (srv', Inr (if call_returned c then Some \<lparr>gsp_Response = call_out c, gsp_Mastership = None\<rparr> else None)))"
    by (rule GetServerCapacity_unfold [OF assms]) blast
  obtain srv' c where c: "call_run collect_server_item schedule (srv0, new_call gs) = Inr (srv', c)" "serving srv' config"
    "call_ok (\<lambda>resp. ServerCapacityResourceResponse_GetResourceId (Some resp)) (mset (server_requested q)) (srv', c)"
    using server_call.run_ok [OF g(1,2)] by blast
  then show ?thesis
    by (auto simp: g(3) call_ok_def call_returned_def pool_ids_def)
qed

text \<open>What the decisions establish of each response, as for the calls of clients.\<close>

lemma GetServerCapacity_results:
  assumes "serving srv config" and "covers config (server_requested q)" and "bands_valid q" and "distinct (server_requested q)"
    and "GetServerCapacity schedule srv q = Inr (srv', Inr (Some resp))"
    and P: "\<And>srv0 creq a clk res' l. extends srv srv0 \<Longrightarrow> serving srv0 config \<Longrightarrow>
        cr_client creq = GetServerCapacityRequest_GetServerId (Some q) \<Longrightarrow> srv_lookup srv0 (cr_resID creq) = Some a \<Longrightarrow>
        clk \<in> clocks_of schedule \<Longrightarrow>
        resource_Decide (srv_heap srv0 ! a) clk (request_of creq) = Inr (res', l) \<Longrightarrow> P res' l"
  shows "list_all (\<lambda>r. \<exists>a l. srv_lookup srv' (ServerCapacityResourceResponse_GetResourceId (Some r)) = Some a \<and>
      P (srv_heap srv' ! a) l \<and> scp_Gets r = Some (lease_to_pb l)) (gsp_Response resp)"
proof -
  obtain creqs srv0 gs where g: "list_all (\<lambda>creq. cr_client creq = GetServerCapacityRequest_GetServerId (Some q)) creqs"
    "serving srv0 config" "extends srv srv0"
    "list_all2 (\<lambda>creq (a, r). srv_lookup srv0 (cr_resID creq) = Some a \<and> r = request_of creq) creqs gs"
    "call_ok (\<lambda>resp. ServerCapacityResourceResponse_GetResourceId (Some resp)) (mset (server_requested q)) (srv0, new_call gs)"
    and G: "\<And>schedule. GetServerCapacity schedule srv q =
        bind_panic (call_run collect_server_item schedule (srv0, new_call gs)) (\<lambda>(srv', c).
          Inr (srv', Inr (if call_returned c then Some \<lparr>gsp_Response = call_out c, gsp_Mastership = None\<rparr> else None)))"
    by (rule GetServerCapacity_unfold [OF assms(1-3)]) blast
  obtain c where c: "call_run collect_server_item schedule (srv0, new_call gs) = Inr (srv', c)"
    "gsp_Response resp = call_out c"
    using assms(5) unfolding G by (auto split: if_splits)
  have one: "count (mset (server_requested q)) i \<le> 1" for i using assms(4) by (simp only: distinct_count_atmost_1) simp
  have new: "server_call.results_ok P srv0 (srv0, new_call gs)"
    by (simp add: server_call.results_ok_def new_call_def list_all_iff case_prod_unfold)
  have P': "P res' l" if clk: "clk \<in> clocks_of schedule" and gs: "(a, r) \<in> set (call_pool (new_call gs))"
    and d: "resource_Decide (srv_heap srv0 ! a) clk r = Inr (res', l)" for a r clk res' l
  proof -
    obtain creq where "creq \<in> set creqs" "srv_lookup srv0 (cr_resID creq) = Some a" "r = request_of creq"
      using g(4) gs by (fastforce simp: new_call_def list_all2_conv_all_nth in_set_conv_nth)
    then show ?thesis using P [OF g(3,2)] clk d g(1) by (auto simp: list_all_iff)
  qed
  have "server_call.results_ok P srv0 (srv', c)"
    by (rule server_call.run_results [OF g(2,5) one new _ c(1)]) (rule P')
  then show ?thesis by (simp add: server_call.results_ok_def c(2))
qed

text \<open>What a serving master answers to another server whose bands all have subclients, under
  every schedule: nothing panics, it keeps serving, and if the call returns the response has
  exactly one entry for each resource of the request.\<close>

lemma get_server_capacity_answers:
  assumes "serving srv config"
    and "covers config (map (\<lambda>req. ServerCapacityResourceRequest_GetResourceId (Some req)) (gsq_Resource q))"
    and "list_all (\<lambda>req. list_all (\<lambda>w. 1 \<le> sint (PriorityBandAggregate_GetNumClients (Some w))) (scq_Wants req)) (gsq_Resource q)"
  shows "\<exists>srv' out. GetServerCapacity schedule srv q = Inr (srv', Inr out) \<and> serving srv' config \<and>
    (case out of None \<Rightarrow> True
     | Some resp \<Rightarrow> gsp_Mastership resp = None \<and>
         mset (map (\<lambda>r. ServerCapacityResourceResponse_GetResourceId (Some r)) (gsp_Response resp)) =
         mset (map (\<lambda>req. ServerCapacityResourceRequest_GetResourceId (Some req)) (gsq_Resource q)))"
  by (rule GetServerCapacity_answers [OF assms])

lemma get_server_capacity_answers_witness:
  "\<exists>srv' out. GetServerCapacity [Run 0 (example_clock 40)] example_master (server_query [band 3 10]) =
      Inr (srv', Inr out) \<and> serving srv' example_repo"
  using get_server_capacity_answers [OF example_server_serving(2), of "server_query [band 3 10]" "[Run 0 (example_clock 40)]"]
  by (auto simp: covers_def example_covered getter_defs server_query_def band_def)

end
