(* ===== verification/Server_Limits.thy ===== *)
theory Server_Limits
  imports Server_Rpc_Props
begin

text \<open>
  What lies outside the conditions of the server's properties: configurations that pass the
  validation and requests that are accepted, and nevertheless end the process or spoil the totals
  of a resource. Every statement is about a concrete server in a state that satisfies the
  invariant.
\<close>

section \<open>Panics\<close>

text \<open>A server with only the default entry.\<close>

definition default_server :: Server where
  "default_server = (example_server [])\<lparr>srv_config := Some \<lparr>repo_Resources = [defaultResourceTemplate]\<rparr>\<rparr>"

lemma default_server_serving: "serving default_server \<lparr>repo_Resources = [defaultResourceTemplate]\<rparr>"
  using example_server_serving(1) example_repo_ok
  by (auto simp: serving_def server_ok_def default_server_def example_server_def repo_valid_def repo_serviceable_def
      example_repo_def IsMaster_def addresses_ok_def)

text \<open>A configuration whose globs have neither a slash nor a class covers no id with a slash.\<close>

lemma slash_not_covered:
  assumes "\<forall>tpl \<in> set ts. classless (glob_of tpl)" and "sep_char \<in> set i"
  shows "\<not> covered ts i"
  using assms glob_match_classless
  by (auto simp: covered_def list_ex_iff literal_match_def pattern_match_def classless_def)

lemma getOrCreate_elsewhere:
  "getOrCreateResource srv i = Inr (srv', a) \<Longrightarrow> j \<noteq> i \<Longrightarrow> srv_lookup srv' j = srv_lookup srv j"
  by (auto simp: getOrCreateResource_def srv_lookup_def Let_def map_of_put split: option.splits)

text \<open>The loop over the requested ids panics at the first new one that is not covered.\<close>

lemma getCapacity_uncovered:
  assumes "serving srv config"
    and "find (\<lambda>j. \<not> covered (repo_Resources config) j \<and> srv_lookup srv j = None) (map cr_resID creqs) = Some i"
  shows "getCapacity srv creqs = Inl (PanicCall i)"
  using assms
proof (induction creqs arbitrary: srv)
  case (Cons creq creqs)
  let ?j = "cr_resID creq"
  have c: "srv_config srv = Some config" using Cons.prems(1) by (simp add: serving_def)
  show ?case
  proof (cases "\<not> covered (repo_Resources config) ?j \<and> srv_lookup srv ?j = None")
    case True
    then have "findConfigForResource srv ?j = Inl (PanicCall ?j)"
      using findConfig_covered [OF c, of ?j] by (auto simp: findConfig_eq [OF c] split: option.splits)
    with True Cons.prems(2) show ?thesis by (simp add: getOrCreateResource_def)
  next
    case False
    have "\<exists>srv1 a. getOrCreateResource srv ?j = Inr (srv1, a) \<and> serving srv1 config"
    proof (cases "srv_lookup srv ?j")
      case None
      with False getOrCreate_serving [OF Cons.prems(1), of ?j] show ?thesis by auto
    qed (use Cons.prems(1) in \<open>simp add: getOrCreateResource_def\<close>)
    then obtain srv1 a where 1: "getOrCreateResource srv ?j = Inr (srv1, a)" "serving srv1 config" by blast
    have "(\<not> covered (repo_Resources config) k \<and> srv_lookup srv1 k = None) =
        (\<not> covered (repo_Resources config) k \<and> srv_lookup srv k = None)" for k
    proof (cases "k = ?j")
      case True
      have "srv_lookup srv1 ?j = srv_lookup srv ?j" if "\<not> covered (repo_Resources config) ?j"
        using False that 1(1) by (auto simp: getOrCreateResource_def)
      with True show ?thesis by auto
    qed (use getOrCreate_elsewhere [OF 1(1)] in simp)
    with Cons.prems(2) False
    have "find (\<lambda>j. \<not> covered (repo_Resources config) j \<and> srv_lookup srv1 j = None) (map cr_resID creqs) = Some i"
      by simp
    with Cons.IH [OF 1(2)] 1(1) show ?thesis by simp
  qed
qed simp

lemma find_cong_set: "(\<And>x. x \<in> set xs \<Longrightarrow> P x = Q x) \<Longrightarrow> find P xs = find Q xs"
  by (induction xs) auto

text \<open>C33. A valid configuration does not keep a master from panicking. If none of its globs has a slash or a
  character class, it covers no id with a slash, although its last entry is the star: a call that
  asks for such an id that is new to the server panics at the first one of them, whatever else it
  asks for (the ids without a slash are all covered), and under every schedule.\<close>

theorem uncovered_id_panics:
  assumes "serving srv config"
    and "\<forall>tpl \<in> set (repo_Resources config). CHR ''/'' \<notin> set (glob_of tpl) \<and> CHR ''['' \<notin> set (glob_of tpl)"
    and "find (\<lambda>j. CHR ''/'' \<in> set j \<and> srv_lookup srv j = None) (requested q) = Some i"
  shows "validateResourceRepository config = None \<and> \<not> covered (repo_Resources config) i \<and>
    (\<forall>j. CHR ''/'' \<notin> set j \<longrightarrow> covered (repo_Resources config) j) \<and>
    GetCapacity schedule srv q = Inl (PanicCall i)"
proof -
  have valid: "repo_valid config" using assms(1) by (auto simp: serving_def server_ok_def)
  have un: "covered (repo_Resources config) j = (sep_char \<notin> set j)" for j
    using slash_not_covered [of "repo_Resources config" j] covered_no_separator [OF valid, of j] assms(2)
    by (auto simp: classless_def)
  have "sep_char \<in> set i" using assms(3) by (auto simp: find_Some_iff)
  moreover have "find (\<lambda>j. \<not> covered (repo_Resources config) j \<and> srv_lookup srv j = None) (map cr_resID (client_requests q)) = Some i"
    using assms(3) by (simp add: un requested_client_requests)
  then have "GetCapacity schedule srv q = Inl (PanicCall i)"
    using getCapacity_uncovered [OF assms(1)] assms(1) by (simp add: GetCapacity_def serving_def)
  ultimately show ?thesis using un valid by (simp add: repo_valid_iff)
qed

theorem uncovered_id_panics_witness:
  "validateResourceRepository (the (srv_config default_server)) = None \<and>
   GetCapacity [] default_server \<lparr>gcq_ClientId = Some ''c'', gcq_Resource = [ask ''r'' 1, ask ''a/b'' 5]\<rparr> = Inl (PanicCall ''a/b'')"
proof -
  let ?q = "\<lparr>gcq_ClientId = Some ''c'', gcq_Resource = [ask ''r'' 1, ask ''a/b'' 5]\<rparr>"
  have c: "srv_config default_server = Some \<lparr>repo_Resources = [defaultResourceTemplate]\<rparr>"
    by (simp add: default_server_def)
  have g: "\<forall>tpl \<in> set (repo_Resources \<lparr>repo_Resources = [defaultResourceTemplate]\<rparr>).
      CHR ''/'' \<notin> set (glob_of tpl) \<and> CHR ''['' \<notin> set (glob_of tpl)"
    by (simp add: defaultResourceTemplate_def ResourceTemplate_GetIdentifierGlob_def)
  have "find (\<lambda>j. CHR ''/'' \<in> set j \<and> srv_lookup default_server j = None) (requested ?q) = Some ''a/b''"
    by (simp add: requested_def ask_def ResourceRequest_GetResourceId_def srv_lookup_def default_server_def example_server_def)
  from uncovered_id_panics [OF default_server_serving g this, of "[]"] c show ?thesis by simp
qed

text \<open>An entry other than the last one may lack an algorithm, or have one of an unknown kind: the
  validation accepts it, and the first request for such a resource panics.\<close>

definition flawed_server :: "pb_Algorithm option \<Rightarrow> Server" where
  "flawed_server algo = (example_server [])\<lparr>srv_config := Some \<lparr>repo_Resources =
     [(example_template Algorithm_FAIR_SHARE)\<lparr>tpl_Algorithm := algo\<rparr>, defaultResourceTemplate]\<rparr>\<rparr>"

lemma flawed_findConfig:
  "findConfigForResource (flawed_server algo) ''r'' = Inr ((example_template Algorithm_FAIR_SHARE)\<lparr>tpl_Algorithm := algo\<rparr>)"
  by (simp add: findConfigForResource_def flawed_server_def example_server_def example_template_def
      ResourceTemplate_GetIdentifierGlob_def)

lemma flawed_query:
  "GetCapacity schedule (flawed_server algo) example_query =
     bind_panic (bind_panic (getOrCreateResource (flawed_server algo) ''r'') (\<lambda>(srv, a).
        Inr (srv, [(a, \<lparr>req_Client = ''b'', req_Has = Fin 0, req_Wants = Fin 80, req_Subclients = 1\<rparr>)])))
     (\<lambda>(srv', gs). bind_panic (call_run collect_item schedule (srv', new_call gs)) (\<lambda>(srv'', c).
        Inr (srv'', if call_returned c then Some \<lparr>gcp_Response = call_out c, gcp_Mastership = None\<rparr> else None)))"
  by (simp add: GetCapacity_def client_requests_def example_query_def ask_def getter_defs flawed_server_def
      example_server_def IsMaster_def new_call_def)

lemma missing_algorithm_panics:
  "validateResourceRepository (the (srv_config (flawed_server None))) = None \<and>
   GetCapacity schedule (flawed_server None) example_query = Inl NilDereference"
proof -
  have "repo_valid (the (srv_config (flawed_server None)))"
    using example_repo_ok(1)
    by (simp add: flawed_server_def example_repo_def repo_valid_def template_valid_def example_template_def
        ResourceTemplate_GetIdentifierGlob_def glob_match_star)
  moreover have "getOrCreateResource (flawed_server None) ''r'' = Inl NilDereference"
    unfolding getOrCreateResource_def flawed_findConfig
    by (simp add: srv_lookup_def flawed_server_def example_server_def newResource_def resource_LoadConfig_def
        ResourceTemplate_GetAlgorithm_def GetAlgorithm_def Algorithm_GetKind_def)
  ultimately show ?thesis by (simp add: repo_valid_iff flawed_query)
qed

lemma unknown_kind_panics:
  "validateResourceRepository (the (srv_config (flawed_server (example_config 9)))) = None \<and>
   GetCapacity schedule (flawed_server (example_config 9)) example_query = Inl NilFunctionCall"
proof -
  have "repo_valid (the (srv_config (flawed_server (example_config 9))))"
    using example_repo_ok(1)
    by (simp add: flawed_server_def example_repo_def repo_valid_def template_valid_def example_template_def
        ResourceTemplate_GetIdentifierGlob_def algorithm_valid_def example_config_def glob_match_star)
  moreover have "map_of algorithms (9 :: Algorithm_Kind) = None"
    by (simp add: algorithms_unknown Algorithm_Kind_defs)
  then have "getOrCreateResource (flawed_server (example_config 9)) ''r'' = Inl NilFunctionCall"
    unfolding getOrCreateResource_def flawed_findConfig
    by (simp add: srv_lookup_def flawed_server_def example_server_def newResource_def resource_LoadConfig_def
        ResourceTemplate_GetAlgorithm_def GetAlgorithm_def Algorithm_GetKind_def example_config_def)
  ultimately show ?thesis by (simp add: repo_valid_iff flawed_query)
qed

text \<open>The validation accepts configurations the server cannot work with: an entry before the
  last one without an algorithm, or with an algorithm of an unknown kind, passes, and the first
  request for a resource it applies to panics.\<close>

lemma validated_config_panics:
  "(validateResourceRepository (the (srv_config (flawed_server None))) = None \<and>
    GetCapacity schedule (flawed_server None) example_query = Inl NilDereference) \<and>
   (validateResourceRepository (the (srv_config (flawed_server (example_config 9)))) = None \<and>
    GetCapacity schedule (flawed_server (example_config 9)) example_query = Inl NilFunctionCall)"
  by (rule conjI [OF missing_algorithm_panics unknown_kind_panics])

text \<open>The check of mastership and the look-up of the resource are separate critical sections: if
  the server loses its mastership in between, creating the resource writes to a nil map.\<close>

lemma lost_mastership_panics:
  assumes "srv_config srv = Some config" and "repo_serviceable config" and "covered (repo_Resources config) i"
  shows "getOrCreateResource (handleElectionOutcome now False srv) i = Inl NilMapWrite"
proof -
  let ?srv = "handleElectionOutcome now False srv"
  have c: "srv_config ?srv = Some config" using assms(1) by (simp add: handleElectionOutcome_def)
  obtain tpl where f: "findConfigForResource ?srv i = Inr tpl"
    using assms(3) findConfig_covered [OF c] by blast
  from findConfig_selected [OF c f] have "serviceable tpl"
    using assms(2) by (auto simp: repo_serviceable_def list_all_iff selected_def)
  from newResource_serviceable [OF this, of ?srv i] f show ?thesis
    by (auto simp: getOrCreateResource_def srv_lookup_def handleElectionOutcome_def)
qed

section \<open>Requests the code accepts\<close>

text \<open>\<open>validateGetCapacityRequest\<close> is not called: a request it would refuse is served.\<close>

lemma invalid_request_served:
  "validateGetCapacityRequest \<lparr>gcq_ClientId = None, gcq_Resource = [ask ''r'' (- 5)]\<rparr> \<noteq> None \<and>
   (\<exists>srv' out. GetCapacity schedule (example_server []) \<lparr>gcq_ClientId = None, gcq_Resource = [ask ''r'' (- 5)]\<rparr> = Inr (srv', out))"
proof -
  let ?q = "\<lparr>gcq_ClientId = None, gcq_Resource = [ask ''r'' (- 5)]\<rparr>"
  have "covers example_repo (requested ?q)"
    by (simp add: covers_def requested_def ask_def ResourceRequest_GetResourceId_def example_covered)
  from GetCapacity_ok [OF example_server_serving(1) this, of schedule] show ?thesis
    by (auto simp: validateGetCapacityRequest_def GetCapacityRequest_GetClientId_def)
qed

text \<open>A request of another server with an empty list of bands passes the check, which looks at each
  band, and asks with no subclients. On a fresh fair-share resource past its learning mode, the
  share is zero times infinity: the lease and the total become NaN, for good
  (\<open>nan_total_permanent\<close>).
\<close>

lemma no_bands_spoil_total:
  "wants_loop [] (Fin 0) 0 = Some (Fin 0, 0) \<and>
   (\<exists>s lease. resource_Decide (example_resource (NewLeaseStore ''r'') 0) (example_clock 40)
       \<lparr>req_Client = ''t'', req_Has = Fin 0, req_Wants = Fin 0, req_Subclients = 0\<rparr> =
       Inr ((example_resource (NewLeaseStore ''r'') 0)\<lparr>res_store := s\<rparr>, lease) \<and>
     lease_Has lease = NaN \<and> store_SumHas s = NaN)"
proof -
  let ?r = "\<lparr>req_Client = ''t'', req_Has = Fin 0, req_Wants = Fin 0, req_Subclients = 0\<rparr>"
  have c: "fst (store_Clean (NewLeaseStore ''r'') 40) = NewLeaseStore ''r''"
    by (simp add: store_Clean_def NewLeaseStore_def)
  have f: "FairShare (example_config Algorithm_FAIR_SHARE) (NewLeaseStore ''r'') 40 (Fin 100) ?r =
      store_Assign (NewLeaseStore ''r'') 40 ''t'' (seconds 60) (seconds 5) NaN (Fin 0) 0"
    by (simp add: FairShare_def getAlgorithmParams_def example_config_def getter_defs store_Get_def
        NewLeaseStore_def store_Count_def store_SumHas_def store_Map_def float64_def minF_def Let_def)
  let ?a = "store_Assign (NewLeaseStore ''r'') 40 ''t'' (seconds 60) (seconds 5) NaN (Fin 0) 0"
  have res: "\<not> in_learning_mode (example_resource s 0) 40" "resource_capacity (example_resource s 0) 40 = Fin 100"
    "res_store (example_resource s 0) = s"
    "res_algorithm (example_resource s 0) = Some (FairShare (example_config Algorithm_FAIR_SHARE))" for s
    by (simp_all add: in_learning_mode_def example_resource_def After_def resource_capacity_def
        example_template_def ResourceTemplate_GetCapacity_def)
  have "resource_Decide (example_resource (NewLeaseStore ''r'') 0) (example_clock 40) ?r =
      Inr ((example_resource (NewLeaseStore ''r'') 0)\<lparr>res_store := fst ?a\<rparr>, snd ?a)"
    by (simp add: resource_Decide_def example_clock_def res c f case_prod_unfold Let_def)
  moreover have "lease_Has (snd ?a) = NaN" "store_SumHas (fst ?a) = NaN"
    by (simp_all add: store_Assign_def store_SumHas_def Let_def)
  ultimately show ?thesis by auto
qed

end
