(* ===== verification/Timeutil.thy ===== *)
theory Timeutil
  imports Go_Time
begin

text \<open>
  Exponential backoff (\<open>go/timeutil/timeutil.go\<close>), which the connection, the client and the
  intermediate server use between retries. The locale \<open>backoff_policy\<close> is what they rely on.
\<close>

section \<open>The code\<close>

definition factor :: f64 where
  "factor = Fin (13 / 10)"

text \<open>The loop: multiply until the maximum is reached or the retries are used up.\<close>

fun backoff_loop :: "nat \<Rightarrow> f64 \<Rightarrow> f64 \<Rightarrow> f64" where
  "backoff_loop 0 backoff mx = backoff"
| "backoff_loop (Suc retries) backoff mx =
     (if backoff < mx then backoff_loop retries (backoff * factor) mx else backoff)"

text \<open>
  \<open>retries\<close> is an \<open>int\<close>; the loop runs while it is positive. The final conversion to a duration
  is partial (\<open>None\<close> where Go leaves the value to the implementation).
\<close>

definition Backoff :: "duration \<Rightarrow> duration \<Rightarrow> int64 \<Rightarrow> duration option" where
  "Backoff baseDelay maxDelay retries =
     (let backoff = backoff_loop (nat (sint retries)) (float64 baseDelay) (float64 maxDelay);
          backoff' = (if float64 maxDelay < backoff then float64 maxDelay else backoff)
      in float_to_int64 backoff')"

section \<open>What the callers rely on\<close>

locale backoff_policy =
  fixes delay :: "int64 \<Rightarrow> duration option" and lo hi :: duration
  assumes delay_defined: "0 \<le> sint n \<Longrightarrow> \<exists>d. delay n = Some d"
    and delay_bounds: "0 \<le> sint n \<Longrightarrow> delay n = Some d \<Longrightarrow> sint lo \<le> sint d \<and> sint d \<le> sint hi"
    and delay_mono: "0 \<le> sint m \<Longrightarrow> sint m \<le> sint n \<Longrightarrow> delay m = Some d \<Longrightarrow> delay n = Some e \<Longrightarrow>
      sint d \<le> sint e"
begin

text \<open>Sleeping after each of the retries in a list takes at most \<open>hi\<close> per retry.\<close>

lemma total_delay:
  assumes "\<forall>n \<in> set ns. 0 \<le> sint n"
  shows "\<exists>ds. map delay ns = map Some ds \<and> sum_list (map sint ds) \<le> int (length ns) * sint hi
    \<and> int (length ns) * sint lo \<le> sum_list (map sint ds)"
  using assms
proof (induction ns)
  case Nil
  then show ?case by simp
next
  case (Cons n ns)
  from Cons obtain ds where ds: "map delay ns = map Some ds"
    "sum_list (map sint ds) \<le> int (length ns) * sint hi"
    "int (length ns) * sint lo \<le> sum_list (map sint ds)" by auto
  obtain d where d: "delay n = Some d" using delay_defined Cons.prems by auto
  then have "sint lo \<le> sint d" and "sint d \<le> sint hi" using delay_bounds Cons.prems by auto
  with ds d show ?case by (intro exI [of _ "d # ds"]) (simp add: algebra_simps)
qed

end

section \<open>The loop in closed form\<close>

lemma backoff_loop_closed:
  assumes "0 < b"
  shows "(if Fin m < backoff_loop n (Fin b) (Fin m) then Fin m else backoff_loop n (Fin b) (Fin m)) =
    Fin (min m (b * (13 / 10) ^ n))"
  using assms
proof (induction n arbitrary: b)
  case 0
  then show ?case by (auto simp: min_def)
next
  case (Suc n)
  show ?case
  proof (cases "b < m")
    case True
    then have step: "backoff_loop (Suc n) (Fin b) (Fin m) = backoff_loop n (Fin (b * (13 / 10))) (Fin m)"
      by (simp add: factor_def)
    have pow: "b * (13 / 10) ^ Suc n = b * (13 / 10) * (13 / 10) ^ n" by simp
    show ?thesis unfolding step pow by (rule Suc.IH) (use Suc.prems in simp)
  next
    case False
    have "1 \<le> (13 / 10 :: rat) ^ Suc n" by (rule one_le_power) simp
    then have "b \<le> b * (13 / 10) ^ Suc n"
      using Suc.prems by (metis mult.right_neutral mult_left_mono less_imp_le)
    with False show ?thesis by (auto simp: min_def)
  qed
qed

definition backoff_value :: "int \<Rightarrow> int \<Rightarrow> nat \<Rightarrow> rat" where
  "backoff_value base mx n = min (of_int mx) (of_int base * (13 / 10) ^ n)"

lemma Backoff_closed:
  assumes "0 < sint base"
  shows "Backoff base mx retries = float_to_int64 (Fin (backoff_value (sint base) (sint mx) (nat (sint retries))))"
proof -
  have "0 < (of_int (sint base) :: rat)" using assms by simp
  then show ?thesis
    unfolding Backoff_def Let_def float64_def backoff_value_def by (simp only: backoff_loop_closed)
qed

lemma float_to_int64_floor:
  assumes "0 \<le> q" and "q < 2 ^ 63"
  shows "float_to_int64 (Fin q) = Some (word_of_int \<lfloor>q\<rfloor>)" and "sint (word_of_int \<lfloor>q\<rfloor> :: int64) = \<lfloor>q\<rfloor>"
proof -
  have f: "0 \<le> \<lfloor>q\<rfloor>" "\<lfloor>q\<rfloor> < 2 ^ 63" using assms by (simp_all add: floor_less_iff)
  then show "float_to_int64 (Fin q) = Some (word_of_int \<lfloor>q\<rfloor>)"
    using assms by (simp add: float_to_int64_def trunc_rat_def)
  show "sint (word_of_int \<lfloor>q\<rfloor> :: int64) = \<lfloor>q\<rfloor>" using f by (simp add: sint64_of_int)
qed

lemma Backoff_value:
  assumes "0 < sint base" and "0 \<le> sint mx"
  obtains d where "Backoff base mx retries = Some d"
    and "sint d = \<lfloor>backoff_value (sint base) (sint mx) (nat (sint retries))\<rfloor>"
proof -
  let ?q = "backoff_value (sint base) (sint mx) (nat (sint retries))"
  have q0: "0 \<le> ?q" using assms by (simp add: backoff_value_def)
  have "(of_int (sint mx) :: rat) < of_int (2 ^ 63)"
    using sint64_upper [of mx] by (simp only: of_int_less_iff)
  then have q1: "?q < 2 ^ 63" by (simp add: backoff_value_def min_less_iff_disj)
  show thesis
    using float_to_int64_floor [OF q0 q1] Backoff_closed [OF assms(1), of mx retries] by (auto intro: that)
qed

lemma backoff_value_ge: "0 < base \<Longrightarrow> base \<le> mx \<Longrightarrow> base \<le> \<lfloor>backoff_value base mx n\<rfloor>"
proof -
  assume a: "0 < base" "base \<le> mx"
  have "(1 :: rat) \<le> (13 / 10) ^ n" by (rule one_le_power) simp
  then have "(of_int base :: rat) * 1 \<le> of_int base * (13 / 10) ^ n"
    using a(1) by (intro mult_left_mono) auto
  with a(2) show ?thesis by (simp add: le_floor_iff backoff_value_def)
qed

lemma backoff_value_le: "\<lfloor>backoff_value base mx n\<rfloor> \<le> mx"
  by (simp add: floor_le_iff backoff_value_def min_less_iff_disj)

lemma backoff_value_mono: "0 < base \<Longrightarrow> m \<le> n \<Longrightarrow> backoff_value base mx m \<le> backoff_value base mx n"
proof -
  assume a: "0 < base" "m \<le> n"
  have "(13 / 10 :: rat) ^ m \<le> (13 / 10) ^ n" using a(2) by (intro power_increasing) auto
  then have "(of_int base :: rat) * (13 / 10) ^ m \<le> of_int base * (13 / 10) ^ n"
    using a(1) by (intro mult_left_mono) auto
  then show ?thesis unfolding backoff_value_def by (rule min.mono [OF order_refl])
qed

lemma Backoff_policy:
  assumes "0 < sint base" and "sint base \<le> sint mx"
  shows "backoff_policy (Backoff base mx) base mx"
proof unfold_locales
  have mx: "0 \<le> sint mx" using assms by linarith
  fix m n :: int64 and d e :: duration
  obtain dn where n: "Backoff base mx n = Some dn"
    "sint dn = \<lfloor>backoff_value (sint base) (sint mx) (nat (sint n))\<rfloor>"
    using Backoff_value [OF assms(1) mx] by blast
  obtain dm where m: "Backoff base mx m = Some dm"
    "sint dm = \<lfloor>backoff_value (sint base) (sint mx) (nat (sint m))\<rfloor>"
    using Backoff_value [OF assms(1) mx] by blast
  show "\<exists>d. Backoff base mx n = Some d" using n(1) by blast
  show "sint base \<le> sint d \<and> sint d \<le> sint mx" if "Backoff base mx n = Some d"
    using that n backoff_value_ge [OF assms] backoff_value_le by simp
  show "sint d \<le> sint e"
    if "sint m \<le> sint n" "Backoff base mx m = Some d" "Backoff base mx n = Some e"
    using that m n floor_mono [OF backoff_value_mono [OF assms(1) nat_mono [OF that(1)]]] by simp
qed

text \<open>The policy all callers use: from one second up to one minute.\<close>

interpretation std: backoff_policy "Backoff Second Minute" Second Minute
  by (rule Backoff_policy) (simp_all add: Minute_def)

end
