(* ===== verification/Connection.thy ===== *)
theory Connection
  imports Timeutil Messages
begin

text \<open>
  The connection to a server (\<open>go/connection/connection.go\<close>): remote calls that follow
  redirections to the master and retry until they succeed. The network is a parameter: \<open>dial n a\<close>
  says whether the \<open>n\<close>-th interaction with it, dialling the address \<open>a\<close>, works, and \<open>rpc n a\<close>
  is the outcome of the call made as the \<open>n\<close>-th interaction to the server at \<open>a\<close>. The loop of
  \<open>runMasterAware\<close> need not end, so it runs on fuel, one unit for every call or failed dial.
\<close>

section \<open>The code\<close>

definition minBackoff :: duration where "minBackoff = Second"
definition maxBackoff :: duration where "maxBackoff = Minute"

record Options =
  opt_MinimumRefreshInterval :: duration

type_synonym Option = "Options \<Rightarrow> Options"

definition getOptions :: "Option list \<Rightarrow> Options" where
  "getOptions options = fold (\<lambda>opt opts. opt opts) options
     \<lparr>opt_MinimumRefreshInterval = seconds 5\<rparr>"

definition MinimumRefreshInterval :: "duration \<Rightarrow> Option" where
  "MinimumRefreshInterval t = (\<lambda>opts. opts\<lparr>opt_MinimumRefreshInterval := t\<rparr>)"

record Connection =
  cn_addr :: string
  cn_currentMaster :: string
  cn_conn :: bool                    \<comment> \<open>whether \<open>conn\<close> is not nil\<close>
  cn_Opts :: Options

definition connection_Close :: "Connection \<Rightarrow> Connection" where
  "connection_Close c = (if cn_conn c then c\<lparr>cn_conn := False, cn_currentMaster := ''''\<rparr> else c)"

text \<open>\<open>connect\<close>: the connection, and whether it worked. \<open>ok\<close> is the outcome of the dial.\<close>

definition connect :: "bool \<Rightarrow> string \<Rightarrow> Connection \<Rightarrow> Connection \<times> bool" where
  "connect ok addr c =
     (let c = connection_Close c
      in if \<not> ok then (c, False) else (c\<lparr>cn_conn := True, cn_currentMaster := addr\<rparr>, True))"

definition connection_New :: "bool \<Rightarrow> string \<Rightarrow> Option list \<Rightarrow> Connection option" where
  "connection_New ok addr options =
     (let (c, worked) = connect ok addr
        \<lparr>cn_addr = addr, cn_currentMaster = '''', cn_conn = False, cn_Opts = getOptions options\<rparr>
      in if worked then Some c else None)"

datatype 'out reply = RpcError | RpcReply (reply_out: 'out)

type_synonym 'out network = "(nat \<Rightarrow> string \<Rightarrow> bool) \<times> (nat \<Rightarrow> string \<Rightarrow> 'out reply)"

text \<open>
  The state of the loop: the connection, the number of interactions with the network so far, the
  retry counter, the sleeps so far, and whether the loop continues at \<open>RetryNoSleep\<close>.
\<close>

record loop =
  lp_conn :: Connection
  lp_net :: nat
  lp_retries :: int64
  lp_sleeps :: "duration option list"
  lp_noSleep :: bool

text \<open>What precedes the label \<open>RetryNoSleep\<close>.\<close>

definition before_retry :: "loop \<Rightarrow> loop" where
  "before_retry s =
     (if lp_noSleep s then s\<lparr>lp_noSleep := False\<rparr>
      else s\<lparr>lp_sleeps := (if 0 < sint (lp_retries s)
               then lp_sleeps s @ [Backoff minBackoff maxBackoff (lp_retries s)] else lp_sleeps s),
             lp_retries := lp_retries s + 1\<rparr>)"

text \<open>One pass from there: \<open>Inl\<close> what is returned, a response or an error, or the state to continue with.
  \<open>mastership\<close> is the method \<open>GetMastership\<close> of the response. No pass returns an error.\<close>

definition loop_step :: "('out \<Rightarrow> Mastership option) \<Rightarrow> 'out network \<Rightarrow> loop \<Rightarrow> 'out reply \<times> loop + loop" where
  "loop_step mastership = (\<lambda>(dial, rpc) s.
     let s = before_retry s;
         (c, connected) =
           (if \<not> cn_conn (lp_conn s) then connect (dial (lp_net s) (cn_addr (lp_conn s))) (cn_addr (lp_conn s)) (lp_conn s)
            else (lp_conn s, True));
         s = s\<lparr>lp_conn := c, lp_net := (if \<not> cn_conn (lp_conn s) then lp_net s + 1 else lp_net s)\<rparr>
     in if \<not> connected then Inr s
        else
          let answer = rpc (lp_net s) (cn_currentMaster c);
              s = s\<lparr>lp_net := lp_net s + 1\<rparr>
          in (case answer of
                RpcError \<Rightarrow> Inr (s\<lparr>lp_conn := connection_Close c\<rparr>)
              | RpcReply out \<Rightarrow>
                  (case mastership out of
                     None \<Rightarrow> Inl (RpcReply out, s)
                   | Some ms \<Rightarrow>
                       (case ms_MasterAddress ms of
                          None \<Rightarrow> Inr s
                        | Some newMaster \<Rightarrow>
                            if newMaster = '''' then Inr s
                            else Inr (s\<lparr>lp_conn := fst (connect (dial (lp_net s) newMaster) newMaster c),
                                   lp_net := lp_net s + 1, lp_noSleep := True\<rparr>)))))"

fun loop_run :: "('out \<Rightarrow> Mastership option) \<Rightarrow> 'out network \<Rightarrow> nat \<Rightarrow> loop \<Rightarrow> 'out reply \<times> loop + loop" where
  "loop_run mastership net 0 s = Inr s"
| "loop_run mastership net (Suc fuel) s = (case loop_step mastership net s of
       Inl r \<Rightarrow> Inl r | Inr s' \<Rightarrow> loop_run mastership net fuel s')"

text \<open>\<open>runMasterAware\<close>, which is also \<open>ExecuteRPC\<close>.\<close>

definition runMasterAware :: "('out \<Rightarrow> Mastership option) \<Rightarrow> 'out network \<Rightarrow> nat \<Rightarrow> Connection \<Rightarrow> nat
    \<Rightarrow> 'out reply \<times> loop + loop" where
  "runMasterAware mastership net fuel c n = loop_run mastership net fuel
     \<lparr>lp_conn = c, lp_net = n, lp_retries = 0, lp_sleeps = [], lp_noSleep = False\<rparr>"

section \<open>Lemmas\<close>

lemma connect_simps [simp]:
  "connect False a c = (connection_Close c, False)"
  "connect True a c = ((connection_Close c)\<lparr>cn_conn := True, cn_currentMaster := a\<rparr>, True)"
  "snd (connect ok a c) = ok"
  "cn_conn (fst (connect ok a c)) = ok"
  "cn_addr (fst (connect ok a c)) = cn_addr c"
  "cn_currentMaster (fst (connect True a c)) = a"
  by (simp_all add: connect_def connection_Close_def Let_def)

lemma before_retry_simps [simp]:
  "lp_conn (before_retry s) = lp_conn s" "lp_net (before_retry s) = lp_net s"
  by (simp_all add: before_retry_def)

text \<open>The sleeps of the loop: the \<open>k\<close>-th is the backoff for \<open>k\<close> retries.\<close>

definition sleeps_ok :: "loop \<Rightarrow> bool" where
  "sleeps_ok s = (sint (lp_retries s) = int (length (lp_sleeps s)) + (if lp_retries s = 0 then 0 else 1)
     \<and> lp_sleeps s = map (\<lambda>k. Backoff minBackoff maxBackoff (word_of_int (int k))) [1..<Suc (length (lp_sleeps s))]
     \<and> (lp_retries s = 0 \<longrightarrow> lp_sleeps s = []))"

lemma retries_nonneg: "sleeps_ok s \<Longrightarrow> 0 \<le> sint (lp_retries s)"
  by (auto simp: sleeps_ok_def)

lemma before_retry_sleeps:
  assumes "sleeps_ok s" and "sint (lp_retries s) < 2 ^ 63 - 1"
  shows "sleeps_ok (before_retry s)" and "sint (lp_retries (before_retry s)) \<le> sint (lp_retries s) + 1"
proof -
  have n: "0 \<le> sint (lp_retries s)" using assms(1) by (rule retries_nonneg)
  have one: "sint (lp_retries s + 1) = sint (lp_retries s) + 1"
    using n assms(2) by (subst sint64_add) auto
  then have nz: "lp_retries s + 1 \<noteq> 0" using n by (metis add_cancel_right_left less_add_one not_less signed_0)
  show "sint (lp_retries (before_retry s)) \<le> sint (lp_retries s) + 1"
    using one by (simp add: before_retry_def)
  show "sleeps_ok (before_retry s)"
  proof (cases "lp_noSleep s")
    case True
    with assms(1) show ?thesis by (simp add: before_retry_def sleeps_ok_def)
  next
    case False
    show ?thesis
    proof (cases "lp_retries s = 0")
      case z: True
      with False assms(1) show ?thesis by (simp add: before_retry_def sleeps_ok_def)
    next
      case nz': False
      then have pos: "0 < sint (lp_retries s)"
        using n by (metis order_le_less signed_0 signed_word_eqI)
      have len: "sint (lp_retries s) = int (length (lp_sleeps s)) + 1"
        using assms(1) nz' by (simp add: sleeps_ok_def)
      then have w: "lp_retries s = word_of_int (int (Suc (length (lp_sleeps s))))"
        by (metis add.commute of_nat_Suc word_of_int_sint64)
      have "lp_sleeps (before_retry s) = lp_sleeps s @ [Backoff minBackoff maxBackoff (lp_retries s)]"
        using False pos by (simp add: before_retry_def)
      also have "\<dots> = map (\<lambda>k. Backoff minBackoff maxBackoff (word_of_int (int k))) [1..<Suc (Suc (length (lp_sleeps s)))]"
        using assms(1) w by (simp add: sleeps_ok_def)
      finally show ?thesis
        using False pos one len nz by (simp add: sleeps_ok_def before_retry_def)
    qed
  qed
qed

text \<open>What one pass does: a response that is returned carries no mastership and comes from the
  server the connection is at; otherwise the network has been used at least once more.\<close>

lemma loop_step_return:
  assumes "loop_step mastership (dial, rpc) s = Inl (answer, s')"
  shows "\<exists>out. answer = RpcReply out \<and> mastership out = None \<and> (\<exists>n. rpc n (cn_currentMaster (lp_conn s')) = answer)"
    and "lp_sleeps s' = lp_sleeps (before_retry s)" and "lp_retries s' = lp_retries (before_retry s)"
proof -
  have "(\<exists>out. answer = RpcReply out \<and> mastership out = None)" and "\<exists>n. answer = rpc n (cn_currentMaster (lp_conn s'))"
    using assms by (auto simp: loop_step_def Let_def split: prod.splits if_splits reply.splits option.splits) metis+
  then show "\<exists>out. answer = RpcReply out \<and> mastership out = None \<and> (\<exists>n. rpc n (cn_currentMaster (lp_conn s')) = answer)" by metis
qed (use assms in \<open>auto simp: loop_step_def Let_def split: prod.splits if_splits reply.splits option.splits\<close>)

lemma loop_step_continue:
  assumes "loop_step mastership (dial, rpc) s = Inr s'"
  shows "lp_net s < lp_net s'"
    and "lp_sleeps s' = lp_sleeps (before_retry s)" and "lp_retries s' = lp_retries (before_retry s)"
  using assms by (auto simp: loop_step_def Let_def split: prod.splits if_splits reply.splits option.splits)

lemma sleeps_ok_cong:
  "sleeps_ok s \<Longrightarrow> lp_sleeps s' = lp_sleeps s \<Longrightarrow> lp_retries s' = lp_retries s \<Longrightarrow> sleeps_ok s'"
  by (simp add: sleeps_ok_def)

lemma loop_run_return:
  assumes "loop_run mastership (dial, rpc) fuel s = Inl (answer, s')"
    and "sleeps_ok s" and "sint (lp_retries s) + int fuel < 2 ^ 63"
  shows "(\<exists>out. answer = RpcReply out \<and> mastership out = None \<and> (\<exists>n. rpc n (cn_currentMaster (lp_conn s')) = answer)) \<and> sleeps_ok s'
    \<and> sint (lp_retries s') \<le> sint (lp_retries s) + int fuel"
  using assms
proof (induction fuel arbitrary: s)
  case (Suc fuel)
  have lt: "sint (lp_retries s) < 2 ^ 63 - 1" using Suc.prems(3) by simp
  note b = before_retry_sleeps [OF Suc.prems(2) lt]
  show ?case
  proof (cases "loop_step mastership (dial, rpc) s")
    case (Inl r)
    with Suc.prems(1) have "loop_step mastership (dial, rpc) s = Inl (answer, s')" by simp
    from loop_step_return [OF this] b sleeps_ok_cong [OF b(1)] show ?thesis by auto
  next
    case (Inr s1)
    note c = loop_step_continue [OF Inr]
    have "sleeps_ok s1" using sleeps_ok_cong [OF b(1) c(2,3)] .
    moreover have "sint (lp_retries s1) + int fuel < 2 ^ 63" using b(2) c(3) Suc.prems(3) by simp
    moreover have "loop_run mastership (dial, rpc) fuel s1 = Inl (answer, s')" using Suc.prems(1) Inr by simp
    ultimately have "(\<exists>out. answer = RpcReply out \<and> mastership out = None \<and> (\<exists>n. rpc n (cn_currentMaster (lp_conn s')) = answer)) \<and> sleeps_ok s'
      \<and> sint (lp_retries s') \<le> sint (lp_retries s1) + int fuel"
      using Suc.IH by blast
    then show ?thesis using b(2) c(3) by auto
  qed
qed simp

lemma loop_run_no_error: "loop_run mastership net fuel s \<noteq> Inl (RpcError, s')"
proof (induction fuel arbitrary: s)
  case (Suc fuel)
  obtain dial rpc where net: "net = (dial, rpc)" by force
  from Suc loop_step_return(1) [of mastership dial rpc s RpcError s'] show ?case by (auto simp: net split: sum.split)
qed simp

lemma loop_run_add:
  "loop_run mastership net (a + b) s = (case loop_run mastership net a s of
     Inl r \<Rightarrow> Inl r | Inr s' \<Rightarrow> loop_run mastership net b s')"
  by (induction a arbitrary: s) (auto split: sum.split)

lemma loop_run_net: "loop_run mastership (dial, rpc) fuel s = Inr s' \<Longrightarrow> lp_net s + fuel \<le> lp_net s'"
proof (induction fuel arbitrary: s)
  case (Suc fuel)
  then obtain s1 where 1: "loop_step mastership (dial, rpc) s = Inr s1" "loop_run mastership (dial, rpc) fuel s1 = Inr s'"
    by (auto split: sum.splits)
  from Suc.IH [OF 1(2)] loop_step_continue(1) [OF 1(1)] show ?case by simp
qed simp

text \<open>
  From interaction \<open>N\<close> on the network is good: every dial works, the server at \<open>m\<close> answers, and
  every other one redirects to \<open>m\<close>.
\<close>

definition good_net :: "('out \<Rightarrow> Mastership option) \<Rightarrow> 'out network \<Rightarrow> nat \<Rightarrow> string \<Rightarrow> bool" where
  "good_net mastership = (\<lambda>(dial, rpc) N m. m \<noteq> '''' \<and> (\<forall>n \<ge> N. \<forall>a. dial n a \<and>
     (\<exists>out. rpc n a = RpcReply out \<and>
        mastership out = (if a = m then None else Some \<lparr>ms_MasterAddress = Some m\<rparr>))))"

lemma good_step_at_master:
  assumes "good_net mastership (dial, rpc) N m" and "N \<le> lp_net s"
    and "cn_conn (lp_conn s)" and "cn_currentMaster (lp_conn s) = m"
  shows "\<exists>r. loop_step mastership (dial, rpc) s = Inl r"
proof -
  obtain out where "rpc (lp_net s) m = RpcReply out" "mastership out = None"
    using assms(1,2) by (fastforce simp: good_net_def)
  then show ?thesis using assms(3,4) by (simp add: loop_step_def Let_def)
qed

lemma good_step:
  assumes "good_net mastership (dial, rpc) N m" and "N \<le> lp_net s"
  shows "(\<exists>r. loop_step mastership (dial, rpc) s = Inl r) \<or>
    (\<exists>s'. loop_step mastership (dial, rpc) s = Inr s' \<and> N \<le> lp_net s' \<and> cn_conn (lp_conn s') \<and>
       cn_currentMaster (lp_conn s') = m)"
proof -
  have m: "m \<noteq> ''''" using assms(1) by (simp add: good_net_def)
  have d: "dial n a" if "N \<le> n" for n a using assms(1) that by (simp add: good_net_def)
  have c: "\<exists>out. rpc n a = RpcReply out \<and> mastership out = (if a = m then None else Some \<lparr>ms_MasterAddress = Some m\<rparr>)"
    if "N \<le> n" for n a using assms(1) that by (simp add: good_net_def)
  let ?c = "lp_conn s"
  define a where "a = (if cn_conn ?c then cn_currentMaster ?c else cn_addr ?c)"
  define n where "n = (if cn_conn ?c then lp_net s else lp_net s + 1)"
  have n: "N \<le> n" using assms(2) by (simp add: n_def)
  obtain out where out: "rpc n a = RpcReply out" "mastership out = (if a = m then None else Some \<lparr>ms_MasterAddress = Some m\<rparr>)"
    using c [OF n, of a] by blast
  show ?thesis
    using out m n d assms(2)
    by (cases "cn_conn ?c"; cases "a = m") (auto simp: loop_step_def Let_def a_def n_def)
qed

lemma good_run:
  assumes "good_net mastership (dial, rpc) N m"
  shows "\<exists>r. loop_run mastership (dial, rpc) (N + 2) s = Inl r"
proof (cases "loop_run mastership (dial, rpc) N s")
  case (Inl r)
  then show ?thesis by (simp only: loop_run_add) simp
next
  case (Inr s')
  then have n: "N \<le> lp_net s'" using loop_run_net by fastforce
  have two: "\<exists>r. loop_run mastership (dial, rpc) 2 s' = Inl r"
    using good_step [OF assms n] good_step_at_master [OF assms]
    by (auto simp: numeral_2_eq_2) (metis sum.simps(5))
  with Inr show ?thesis by (simp only: loop_run_add) simp
qed

lemma loop_run_spin:
  assumes "\<And>n a. a \<in> S \<Longrightarrow> dial n a \<and> (\<exists>out b. rpc n a = RpcReply out \<and>
      mastership out = Some \<lparr>ms_MasterAddress = Some b\<rparr> \<and> b \<in> S \<and> b \<noteq> '''')"
    and "cn_conn (lp_conn s)" and "cn_currentMaster (lp_conn s) \<in> S" and "lp_sleeps s = []"
    and "lp_noSleep s \<or> lp_retries s = 0"
  shows "\<exists>s'. loop_run mastership (dial, rpc) fuel s = Inr s' \<and> lp_sleeps s' = []"
  using assms(2-)
proof (induction fuel arbitrary: s)
  case (Suc fuel)
  obtain out b where b: "rpc (lp_net s) (cn_currentMaster (lp_conn s)) = RpcReply out"
    "mastership out = Some \<lparr>ms_MasterAddress = Some b\<rparr>" "b \<in> S" "b \<noteq> ''''"
    using assms(1) [OF Suc.prems(2)] by blast
  have d: "dial n b" for n using assms(1) [OF b(3)] by blast
  have sl: "lp_sleeps (before_retry s) = []"
    using Suc.prems(3,4) by (auto simp: before_retry_def)
  obtain s1 where 1: "loop_step mastership (dial, rpc) s = Inr s1" "cn_conn (lp_conn s1)"
    "cn_currentMaster (lp_conn s1) = b" "lp_sleeps s1 = []" "lp_noSleep s1"
    using b d sl Suc.prems(1) by (simp add: loop_step_def Let_def)
  from Suc.IH [of s1] 1 b(3) show ?case by simp
qed simp

section \<open>A concrete network\<close>

text \<open>Server \<open>b\<close> is the master; \<open>a\<close>, where the connection starts, redirects to it, after an
  error on the first call. Responses are mastership fields.\<close>

definition example_net :: "(Mastership option) network" where
  "example_net = (\<lambda>n a. True,
     \<lambda>n a. if n = 0 then RpcError else RpcReply (if a = ''b'' then None else Some \<lparr>ms_MasterAddress = Some ''b''\<rparr>))"

definition example_connection :: Connection where
  "example_connection = the (connection_New True ''a'' [])"

lemma example_good_net: "good_net (\<lambda>out. out) example_net 1 ''b''"
  by (simp add: good_net_def example_net_def)

section \<open>Properties\<close>

text \<open>What \<open>runMasterAware\<close> returns, when it returns: a response without a mastership field,
  received from the server the connection is at, never an error; and every sleep on the way was
  between the minimum and the maximum backoff. (The loop has no other exit: the limit on retries
  in the file is not used and the error result at its end is never reached.)\<close>

lemma run_master_aware_result:
  assumes "runMasterAware mastership (dial, rpc) fuel c n = Inl (answer, s)" and "fuel < 2 ^ 63 - 1"
  shows "(\<exists>out. answer = RpcReply out \<and> mastership out = None \<and> (\<exists>k. rpc k (cn_currentMaster (lp_conn s)) = answer)) \<and>
    (\<forall>d \<in> set (lp_sleeps s). \<exists>t. d = Some t \<and> sint Second \<le> sint t \<and> sint t \<le> sint Minute)"
proof -
  let ?s = "\<lparr>lp_conn = c, lp_net = n, lp_retries = 0, lp_sleeps = [], lp_noSleep = False\<rparr>"
  have ok: "sleeps_ok ?s" by (simp add: sleeps_ok_def)
  have f: "sint (lp_retries ?s) + int fuel < 2 ^ 63" using assms(2) by simp
  note r = loop_run_return [OF assms(1) [unfolded runMasterAware_def] ok f]
  have len: "int (length (lp_sleeps s)) < 2 ^ 63 - 1" using r assms(2) by (auto simp: sleeps_ok_def split: if_splits)
  have "\<exists>t. d = Some t \<and> sint Second \<le> sint t \<and> sint t \<le> sint Minute" if d: "d \<in> set (lp_sleeps s)" for d
  proof -
    have sl: "lp_sleeps s = map (\<lambda>k. Backoff minBackoff maxBackoff (word_of_int (int k))) [1..<Suc (length (lp_sleeps s))]"
      using r by (simp add: sleeps_ok_def)
    have "d \<in> (\<lambda>k. Backoff minBackoff maxBackoff (word_of_int (int k))) ` {1..<Suc (length (lp_sleeps s))}"
      using d by (subst (asm) sl) (simp only: set_map set_upt)
    then obtain k where k: "k \<le> length (lp_sleeps s)" "d = Backoff Second Minute (word_of_int (int k))"
      by (elim imageE) (rule that, auto simp: minBackoff_def maxBackoff_def)
    have "sint (word_of_int (int k) :: int64) = int k" by (rule sint64_of_int) (use k(1) len in simp_all)
    then have "0 \<le> sint (word_of_int (int k) :: int64)" by (simp only: of_nat_0_le_iff)
    with std.delay_defined std.delay_bounds k(2) show ?thesis by metis
  qed
  with r show ?thesis by blast
qed

lemma run_master_aware_result_witness:
  "\<exists>out s. runMasterAware (\<lambda>out. out) example_net 3 example_connection 0 = Inl (RpcReply out, s) \<and> out = None"
proof -
  obtain answer s where "runMasterAware (\<lambda>out. out) example_net (1 + 2) example_connection 0 = Inl (answer, s)"
    using good_run [of "\<lambda>out. out" "fst example_net" "snd example_net" 1 "''b''"] example_good_net
    by (fastforce simp: runMasterAware_def)
  then have "runMasterAware (\<lambda>out. out) (fst example_net, snd example_net) 3 example_connection 0 = Inl (answer, s)"
    by (simp add: numeral_3_eq_3)
  from run_master_aware_result [OF this] this show ?thesis by auto
qed

text \<open>C30. \<open>runMasterAware\<close> finds the master: whatever the network did before, and wherever the
  connection is, if from some point on every server can be reached and every server but the
  master redirects to the master, the call returns, after at most two more passes of the loop.\<close>

theorem run_master_aware_finds_master:
  assumes "good_net mastership net N m"
  shows "\<exists>out s. runMasterAware mastership net (N + 2) c n = Inl (RpcReply out, s) \<and> mastership out = None"
proof -
  obtain dial rpc where net: "net = (dial, rpc)" by force
  obtain answer s where r: "runMasterAware mastership net (N + 2) c n = Inl (answer, s)"
    using good_run [OF assms [unfolded net]] unfolding runMasterAware_def net by (metis surj_pair)
  have "\<exists>out. answer = RpcReply out \<and> mastership out = None" if "loop_run mastership (dial, rpc) fuel s0 = Inl (answer, s)" for fuel s0
    using that by (induction fuel arbitrary: s0) (auto split: sum.splits dest: loop_step_return(1))
  from this [OF r [unfolded runMasterAware_def net]] show ?thesis using r by blast
qed

theorem run_master_aware_finds_master_witness:
  "\<exists>out s. runMasterAware (\<lambda>out. out) example_net (1 + 2) example_connection 0 = Inl (RpcReply out, s) \<and> out = None"
  by (rule run_master_aware_finds_master [OF example_good_net])

text \<open>Redirections are followed without sleeping, so servers that only redirect among
  themselves, such as a server that names itself as the master before it acts as one, keep a
  client busy: the loop never returns and never sleeps.\<close>

lemma run_master_aware_spins:
  assumes "\<And>n a. a \<in> S \<Longrightarrow> dial n a \<and> (\<exists>out b. rpc n a = RpcReply out \<and>
      mastership out = Some \<lparr>ms_MasterAddress = Some b\<rparr> \<and> b \<in> S \<and> b \<noteq> '''')"
    and "cn_conn c" and "cn_currentMaster c \<in> S"
  shows "\<exists>s. runMasterAware mastership (dial, rpc) fuel c n = Inr s \<and> lp_sleeps s = []"
  unfolding runMasterAware_def by (rule loop_run_spin [OF assms(1)]) (simp_all add: assms(2,3))

lemma run_master_aware_spins_witness:
  "\<exists>s. runMasterAware (\<lambda>out. out) (\<lambda>n a. True, \<lambda>n a. RpcReply (Some \<lparr>ms_MasterAddress = Some ''a''\<rparr>)) fuel
     example_connection 0 = Inr s \<and> lp_sleeps s = []"
  by (rule run_master_aware_spins [where S = "{''a''}"])
    (simp_all add: example_connection_def connection_New_def Let_def)

end
