(* ===== verification/Server_Update.thy ===== *)
theory Server_Update
  imports Server_Rpc_Props Connection
begin

text \<open>
  The intermediate server as a client of its parent (\<open>performRequests\<close> and \<open>run\<close> in
  \<open>go/server/doorman/server.go\<close>): it asks for the capacity its own clients want, and loads what
  it is given as its configuration. The request and the handling of the reply are two functions,
  because the server keeps serving while the call to the parent is under way.
\<close>

section \<open>The code\<close>

definition veryLongTime :: duration where "veryLongTime = 60 * Minute"

definition defaultServerCapacityResourceRequest :: ServerCapacityResourceRequest where
  "defaultServerCapacityResourceRequest = \<lparr>scq_ResourceId = Some ''*'', scq_Has = None,
     scq_Wants = [\<lparr>pba_Priority = Some defaultPriority, pba_NumClients = Some 1, pba_Wants = Some (Fin 0)\<rparr>]\<rparr>"

text \<open>The loop over the resources: those for which some capacity is wanted are asked for.\<close>

fun update_requests :: "time \<Rightarrow> time \<Rightarrow> Server \<Rightarrow> (string \<times> nat) list
    \<Rightarrow> panic + ServerCapacityResourceRequest list" where
  "update_requests now1 now2 srv [] = Inr []"
| "update_requests now1 now2 srv ((i, a) # rest) =
     bind_panic (resource_Status (srv_heap srv ! a) now1 now2) (\<lambda>status.
     bind_panic (update_requests now1 now2 srv rest) (\<lambda>reqs.
       Inr (if Fin 0 < rst_SumWants status
            then \<lparr>scq_ResourceId = Some i, scq_Has = None,
                   scq_Wants = [\<lparr>pba_Priority = Some defaultPriority, pba_NumClients = Some (rst_Count status),
                     pba_Wants = Some (rst_SumWants status)\<rparr>]\<rparr> # reqs
            else reqs)))"

definition update_request :: "time \<Rightarrow> time \<Rightarrow> Server \<Rightarrow> panic + GetServerCapacityRequest" where
  "update_request now1 now2 srv =
     (let resources = (case srv_resources srv of None \<Rightarrow> [] | Some m \<Rightarrow> m)
      in bind_panic (update_requests now1 now2 srv resources) (\<lambda>reqs.
           Inr \<lparr>gsq_ServerId = Some (srv_ID srv),
             gsq_Resource = (if resources = [] then reqs @ [defaultServerCapacityResourceRequest] else reqs)\<rparr>))"

text \<open>The loop over the responses: templates, expiry times and the shortest refresh interval.\<close>

definition granted_template :: "ServerCapacityResourceResponse \<Rightarrow> ResourceTemplate" where
  "granted_template pr = \<lparr>tpl_IdentifierGlob = Some (ServerCapacityResourceResponse_GetResourceId (Some pr)),
     tpl_Capacity = Some (Lease_GetCapacity (ServerCapacityResourceResponse_GetGets (Some pr))),
     tpl_Algorithm = ServerCapacityResourceResponse_GetAlgorithm (Some pr),
     tpl_SafeCapacity = Some (ServerCapacityResourceResponse_GetSafeCapacity (Some pr)),
     tpl_Description = None\<rparr>"

fun reply_loop :: "Server \<Rightarrow> ServerCapacityResourceResponse list
    \<Rightarrow> ResourceTemplate list \<times> (string \<times> time) list \<times> duration
    \<Rightarrow> ResourceTemplate list \<times> (string \<times> time) list \<times> duration" where
  "reply_loop srv [] acc = acc"
| "reply_loop srv (pr # rest) (templates, expiryTimes, interval) =
     (let i = ServerCapacityResourceResponse_GetResourceId (Some pr);
          gets = ServerCapacityResourceResponse_GetGets (Some pr);
          refresh = seconds (Lease_GetRefreshInterval gets)
      in if srv_lookup srv i = None then reply_loop srv rest (templates, expiryTimes, interval)
         else reply_loop srv rest (templates @ [granted_template pr],
           map_put expiryTimes i (Unix (Lease_GetExpiryTime gets)),
           if sint refresh < sint interval then refresh else interval))"

text \<open>
  The handling of the reply (\<open>None\<close> is an error of the call): the server, the interval until the
  next request and the next retry number. \<open>run_err\<close> is the result of starting an election, which
  only the first configuration does.
\<close>

definition handle_reply :: "string option \<Rightarrow> Server \<Rightarrow> int64 \<Rightarrow> GetServerCapacityResponse option
    \<Rightarrow> panic + Server \<times> duration option \<times> int64" where
  "handle_reply run_err srv retryNumber reply =
     (let failed = (\<lambda>srv. Inr (srv, Backoff minBackoff maxBackoff retryNumber, retryNumber + 1))
      in (case reply of
            None \<Rightarrow> failed srv
          | Some out \<Rightarrow>
              (let (templates, expiryTimes, interval) = reply_loop srv (gsp_Response out) ([], [], veryLongTime)
               in bind_panic (server_LoadConfig run_err srv
                      \<lparr>repo_Resources = templates @ [defaultResourceTemplate]\<rparr> expiryTimes) (\<lambda>(srv', err).
                    (case err of
                       Some _ \<Rightarrow> failed srv'
                     | None \<Rightarrow> (case srv_conn srv' of
                         None \<Rightarrow> Inl NilDereference
                       | Some minimum \<Rightarrow>
                           Inr (srv', Some (if sint interval < sint minimum \<or> interval = veryLongTime
                             then minimum else interval), 0)))))))"

text \<open>One round of \<open>run\<close> of an intermediate server; a root server has no updater and only waits to
  be closed (\<open>None\<close>).\<close>

datatype run_event = Quit | UpdateDue "GetServerCapacityResponse option"

definition server_round :: "string option \<Rightarrow> run_event \<Rightarrow> Server \<times> int64
    \<Rightarrow> (panic + Server \<times> duration option \<times> int64) option" where
  "server_round run_err event = (\<lambda>(srv, retryNumber).
     (case event of
        Quit \<Rightarrow> None
      | UpdateDue reply \<Rightarrow> if \<not> srv_updater srv then None else Some (handle_reply run_err srv retryNumber reply)))"

section \<open>Lemmas\<close>

text \<open>A response the server can use: a known resource whose id is plain text, a known algorithm
  with valid times.\<close>

definition usable :: "Server \<Rightarrow> ServerCapacityResourceResponse \<Rightarrow> bool" where
  "usable srv pr = (let i = ServerCapacityResourceResponse_GetResourceId (Some pr) in
     list_all plain i \<and> i \<noteq> ''*'' \<and> srv_lookup srv i \<noteq> None
     \<and> (case scp_Algorithm pr of None \<Rightarrow> False
        | Some algo \<Rightarrow> algorithm_valid algo \<and> known_kind (Algorithm_GetKind (Some algo))))"

lemma plain_star: "list_all plain i \<Longrightarrow> i \<noteq> ''*''"
  by (auto simp: plain_def)

lemma reply_loop_usable:
  assumes "list_all (usable srv) prs"
  shows "\<exists>d. reply_loop srv prs (ts, ex, interval) =
      (ts @ map granted_template prs,
       fold (\<lambda>pr ex. map_put ex (ServerCapacityResourceResponse_GetResourceId (Some pr))
         (Unix (Lease_GetExpiryTime (scp_Gets pr)))) prs ex, d) \<and>
    sint d = Min (insert (sint interval) ((\<lambda>pr. sint (seconds (Lease_GetRefreshInterval (scp_Gets pr)))) ` set prs))"
  using assms
proof (induction prs arbitrary: ts ex interval)
  case (Cons pr prs)
  let ?r = "seconds (Lease_GetRefreshInterval (scp_Gets pr))"
  have k: "srv_lookup srv (ServerCapacityResourceResponse_GetResourceId (Some pr)) \<noteq> None"
    using Cons.prems by (simp add: usable_def Let_def)
  have p: "list_all (usable srv) prs" using Cons.prems by simp
  obtain d where d: "reply_loop srv prs (ts @ [granted_template pr],
       map_put ex (ServerCapacityResourceResponse_GetResourceId (Some pr)) (Unix (Lease_GetExpiryTime (scp_Gets pr))),
       if sint ?r < sint interval then ?r else interval) =
      ((ts @ [granted_template pr]) @ map granted_template prs,
       fold (\<lambda>pr ex. map_put ex (ServerCapacityResourceResponse_GetResourceId (Some pr))
         (Unix (Lease_GetExpiryTime (scp_Gets pr)))) prs
        (map_put ex (ServerCapacityResourceResponse_GetResourceId (Some pr)) (Unix (Lease_GetExpiryTime (scp_Gets pr)))), d)"
    "sint d = Min (insert (sint (if sint ?r < sint interval then ?r else interval))
       ((\<lambda>pr. sint (seconds (Lease_GetRefreshInterval (scp_Gets pr)))) ` set prs))"
    using Cons.IH [OF p] by blast
  have "sint (if sint ?r < sint interval then ?r else interval) = min (sint interval) (sint ?r)"
    by (simp add: min_def)
  then have "sint d = Min (insert (sint interval) ((\<lambda>pr. sint (seconds (Lease_GetRefreshInterval (scp_Gets pr)))) ` set (pr # prs)))"
    unfolding d(2) by (cases "prs = []") (simp_all add: min.assoc)
  moreover have "reply_loop srv (pr # prs) (ts, ex, interval) =
      (ts @ map granted_template (pr # prs),
       fold (\<lambda>pr ex. map_put ex (ServerCapacityResourceResponse_GetResourceId (Some pr))
         (Unix (Lease_GetExpiryTime (scp_Gets pr)))) (pr # prs) ex, d)"
    using k d(1) by (auto simp: Let_def ServerCapacityResourceResponse_GetGets_def)
  ultimately show ?case by blast
qed simp

lemma fold_put_lookup:
  assumes "distinct (map f prs)"
  shows "map_of (fold (\<lambda>pr ex. map_put ex (f pr) (g pr)) prs ex) i =
    (case find (\<lambda>pr. f pr = i) prs of None \<Rightarrow> map_of ex i | Some pr \<Rightarrow> Some (g pr))"
  using assms
proof (induction prs arbitrary: ex)
  case (Cons pr prs)
  show ?case
  proof (cases "f pr = i")
    case True
    then have "find (\<lambda>pr. f pr = i) prs = None" using Cons.prems by (auto simp: find_None_iff image_iff)
    with True Cons show ?thesis by (simp add: map_of_put)
  next
    case False
    with Cons show ?thesis by (auto simp: map_of_put split: option.split)
  qed
qed simp

lemma granted_repo_ok:
  assumes "list_all (usable srv) prs"
  shows "repo_valid \<lparr>repo_Resources = map granted_template prs @ [defaultResourceTemplate]\<rparr>"
    and "repo_serviceable \<lparr>repo_Resources = map granted_template prs @ [defaultResourceTemplate]\<rparr>"
proof -
  have d: "template_valid defaultResourceTemplate" "serviceable defaultResourceTemplate"
    "glob_of defaultResourceTemplate = ''*''" "tpl_Algorithm defaultResourceTemplate \<noteq> None"
    using example_repo_ok
    by (simp_all add: example_repo_def repo_valid_def repo_serviceable_def defaultResourceTemplate_def
        ResourceTemplate_GetIdentifierGlob_def)
  have g: "template_valid (granted_template pr) \<and> serviceable (granted_template pr) \<and> glob_of (granted_template pr) \<noteq> ''*''"
    if "usable srv pr" for pr
  proof -
    have "glob_match (ServerCapacityResourceResponse_GetResourceId (Some pr)) '' '' \<noteq> None"
      using that glob_match_literal [of "ServerCapacityResourceResponse_GetResourceId (Some pr)" "'' ''"]
      by (auto simp: usable_def list_all_iff Let_def)
    with that show ?thesis
      by (auto simp: usable_def granted_template_def template_valid_def serviceable_def Let_def
          ResourceTemplate_GetIdentifierGlob_def ServerCapacityResourceResponse_GetAlgorithm_def split: option.splits)
  qed
  show "repo_valid \<lparr>repo_Resources = map granted_template prs @ [defaultResourceTemplate]\<rparr>"
    using assms d g by (auto simp: repo_valid_def list_all_iff)
  show "repo_serviceable \<lparr>repo_Resources = map granted_template prs @ [defaultResourceTemplate]\<rparr>"
    using assms d g by (auto simp: repo_serviceable_def list_all_iff)
qed

text \<open>The template of an id that was granted is the grant; any other id without a slash gets the
  default.\<close>

lemma granted_selected:
  assumes "list_all (usable srv) prs" and "distinct (map (\<lambda>pr. ServerCapacityResourceResponse_GetResourceId (Some pr)) prs)"
    and "selected (map granted_template prs @ [defaultResourceTemplate]) i k" and "i \<noteq> ''*''"
  shows "(map granted_template prs @ [defaultResourceTemplate]) ! k =
    (case find (\<lambda>pr. ServerCapacityResourceResponse_GetResourceId (Some pr) = i) prs of
       None \<Rightarrow> defaultResourceTemplate | Some pr \<Rightarrow> granted_template pr)"
proof -
  let ?id = "\<lambda>pr. ServerCapacityResourceResponse_GetResourceId (Some pr)"
  let ?ts = "map granted_template prs @ [defaultResourceTemplate]"
  have glob: "glob_of (granted_template pr) = ?id pr" for pr
    by (simp add: granted_template_def ResourceTemplate_GetIdentifierGlob_def)
  have star: "glob_of defaultResourceTemplate = ''*''"
    by (simp add: defaultResourceTemplate_def ResourceTemplate_GetIdentifierGlob_def)
  have pat: "pattern_match i (granted_template pr) = (?id pr = i)" if "pr \<in> set prs" for pr
    using that assms(1) glob_match_literal [of "?id pr" i]
    by (auto simp: pattern_match_def glob usable_def list_all_iff Let_def)
  have k: "k < length ?ts" using assms(3) by (simp add: selected_def)
  show ?thesis
  proof (cases "find (\<lambda>pr. ?id pr = i) prs")
    case None
    then have no: "?id pr \<noteq> i" if "pr \<in> set prs" for pr using that by (auto simp: find_None_iff)
    have "k = length prs"
    proof (rule ccontr)
      assume "k \<noteq> length prs"
      then have "k < length prs" using k by simp
      then have "?ts ! k = granted_template (prs ! k)" "prs ! k \<in> set prs" by (simp_all add: nth_append)
      then show False using assms(3) no [of "prs ! k"] pat [of "prs ! k"]
        by (auto simp: selected_def literal_match_def glob)
    qed
    with None show ?thesis by (simp add: nth_append)
  next
    case (Some pr)
    then have pr: "pr \<in> set prs" "?id pr = i" using find_Some_nth [OF Some] by auto
    then have "list_ex (literal_match i) ?ts" by (auto simp: list_ex_iff literal_match_def glob)
    then have "\<not> list_all (\<lambda>t. \<not> literal_match i t) ?ts" by (auto simp: list_ex_iff list_all_iff)
    then have "literal_match i (?ts ! k)" using assms(3) unfolding selected_def by blast
    then have "k < length prs" "?id (prs ! k) = i"
      using k assms(4) star by (auto simp: literal_match_def nth_append glob less_Suc_eq split: if_splits)
    moreover have "prs ! k = pr"
      using assms(2) pr \<open>k < length prs\<close> \<open>?id (prs ! k) = i\<close>
      by (metis (mono_tags, lifting) distinct_map inj_on_contraD nth_mem)
    ultimately show ?thesis using Some by (simp add: nth_append)
  qed
qed

lemma update_requests_ok:
  assumes "list_all (\<lambda>(i, a). a < length (srv_heap srv)) es" and "list_all resource_wf (srv_heap srv)"
  shows "update_requests now1 now2 srv es = Inr (map (\<lambda>(i, a).
      \<lparr>scq_ResourceId = Some i, scq_Has = None, scq_Wants = [\<lparr>pba_Priority = Some defaultPriority,
         pba_NumClients = Some (store_Count (res_store (srv_heap srv ! a))),
         pba_Wants = Some (store_SumWants (res_store (srv_heap srv ! a)))\<rparr>]\<rparr>)
      (filter (\<lambda>(i, a). Fin 0 < store_SumWants (res_store (srv_heap srv ! a))) es))"
  using assms(1)
proof (induction es)
  case (Cons e es)
  obtain i a where e: "e = (i, a)" by force
  have "resource_wf (srv_heap srv ! a)" using Cons.prems assms(2) by (simp add: e list_all_iff)
  then obtain cfg where "res_config (srv_heap srv ! a) = Some cfg" by (auto simp: resource_wf_def elim: configuredE)
  with Cons show ?case by (simp add: e resource_Status_def)
qed simp

lemma reply_loop_mono: "set ts \<subseteq> set (fst (reply_loop srv prs (ts, ex, d)))"
proof (induction prs arbitrary: ts ex d)
  case (Cons pr prs)
  show ?case
  proof (cases "srv_lookup srv (ServerCapacityResourceResponse_GetResourceId (Some pr)) = None")
    case True
    then show ?thesis using Cons.IH [of ts ex d] by (simp add: Let_def)
  next
    case False
    then obtain b where b: "srv_lookup srv (ServerCapacityResourceResponse_GetResourceId (Some pr)) = Some b" by blast
    let ?g = "ServerCapacityResourceResponse_GetGets (Some pr)"
    let ?r = "seconds (Lease_GetRefreshInterval ?g)"
    have "set (ts @ [granted_template pr]) \<subseteq> set (fst (reply_loop srv (pr # prs) (ts, ex, d)))"
      using b Cons.IH [of "ts @ [granted_template pr]"
          "map_put ex (ServerCapacityResourceResponse_GetResourceId (Some pr)) (Unix (Lease_GetExpiryTime ?g))"
          "if sint ?r < sint d then ?r else d"] by (simp add: Let_def)
    then show ?thesis by auto
  qed
qed simp

lemma reply_loop_in:
  assumes "pr \<in> set prs" and "srv_lookup srv (ServerCapacityResourceResponse_GetResourceId (Some pr)) \<noteq> None"
  shows "granted_template pr \<in> set (fst (reply_loop srv prs (ts, ex, d)))"
  using assms(1)
proof (induction prs arbitrary: ts ex d)
  case (Cons p prs)
  let ?i = "ServerCapacityResourceResponse_GetResourceId (Some p)" and ?g = "ServerCapacityResourceResponse_GetGets (Some p)"
  let ?r = "seconds (Lease_GetRefreshInterval ?g)"
  show ?case
  proof (cases "p = pr")
    case True
    have "granted_template p \<in> set (ts @ [granted_template p])" by simp
    then have "granted_template p \<in> set (fst (reply_loop srv prs (ts @ [granted_template p],
        map_put ex ?i (Unix (Lease_GetExpiryTime ?g)), if sint ?r < sint d then ?r else d)))"
      by (rule rev_subsetD [OF _ reply_loop_mono])
    with True assms(2) show ?thesis by (auto simp: Let_def)
  next
    case False
    then have "pr \<in> set prs" using Cons.prems by simp
    then show ?thesis using Cons.IH by (simp add: Let_def)
  qed
qed simp

section \<open>A concrete reply\<close>

definition example_grant :: "string \<Rightarrow> ServerCapacityResourceResponse" where
  "example_grant i = \<lparr>scp_ResourceId = Some i, scp_Gets = Some \<lparr>pbl_ExpiryTime = Some 100,
     pbl_RefreshInterval = Some 7, pbl_Capacity = Some (Fin 55)\<rparr>,
     scp_Algorithm = example_config Algorithm_FAIR_SHARE, scp_SafeCapacity = Some (Fin 5)\<rparr>"

definition example_child :: "string \<Rightarrow> Server" where
  "example_child i = (example_server [(example_resource example_store 0)\<lparr>res_ID := i\<rparr>])\<lparr>srv_updater := True,
     srv_conn := Some (seconds 5)\<rparr>"

lemma example_child_ok: "server_ok (example_child i)"
proof -
  have "resource_wf ((example_resource example_store 0)\<lparr>res_ID := i\<rparr>)"
    using resource_ok_wf [OF example_resource_ok [OF example_store_ok, of 0]]
    by (auto simp: resource_wf_def configured_def split: option.splits sum.splits)
  then show ?thesis
    using example_repo_ok(1)
    by (simp add: example_child_def server_ok_def example_server_def addresses_ok_def)
qed

lemma example_child_lookup: "srv_lookup (example_child i) j = (if j = i then Some 0 else None)"
  by (simp add: srv_lookup_def example_child_def example_server_def)

lemma example_grant_usable: "list_all plain i \<Longrightarrow> usable (example_child i) (example_grant i)"
  using plain_star [of i]
  by (simp add: usable_def example_grant_def example_config_def algorithm_valid_def known_kind_def Algorithm_GetKind_def
      ServerCapacityResourceResponse_GetResourceId_def example_child_lookup Let_def)

section \<open>Properties\<close>

text \<open>What an intermediate server asks its parent for: for every resource its clients want some
  of, in one band, the total of their wants and the number of their subclients; and, while it has
  no resources at all, the default request.\<close>

lemma update_request_asks:
  assumes "server_ok srv" and "srv_resources srv = Some m"
  shows "update_request now1 now2 srv = Inr \<lparr>gsq_ServerId = Some (srv_ID srv),
    gsq_Resource = (if m = [] then [defaultServerCapacityResourceRequest] else
      map (\<lambda>(i, a). \<lparr>scq_ResourceId = Some i, scq_Has = None, scq_Wants = [\<lparr>pba_Priority = Some defaultPriority,
           pba_NumClients = Some (store_Count (res_store (srv_heap srv ! a))),
           pba_Wants = Some (store_SumWants (res_store (srv_heap srv ! a)))\<rparr>]\<rparr>)
        (filter (\<lambda>(i, a). Fin 0 < store_SumWants (res_store (srv_heap srv ! a))) m))\<rparr>"
proof -
  have l: "list_all (\<lambda>(i, a). a < length (srv_heap srv)) m"
    using server_ok_addresses [OF assms] by (auto simp: addresses_ok_def list_all_iff)
  have w: "list_all resource_wf (srv_heap srv)" using assms(1) by (simp add: server_ok_def)
  show ?thesis using update_requests_ok [OF l w, of now1 now2] assms(2) by (auto simp: update_request_def)
qed

lemma update_request_asks_witness:
  "update_request 40 40 (example_child ''r'') = Inr \<lparr>gsq_ServerId = Some ''s'',
    gsq_Resource = [\<lparr>scq_ResourceId = Some ''r'', scq_Has = None, scq_Wants = [\<lparr>pba_Priority = Some 1,
      pba_NumClients = Some 2, pba_Wants = Some (Fin 140)\<rparr>]\<rparr>]\<rparr>"
  using update_request_asks [OF example_child_ok, of "''r''" "[(''r'', 0)]" 40 40]
  by (simp add: example_child_def example_server_def example_resource_def example_store_def store_Count_def
      store_SumWants_def defaultPriority_def)

text \<open>A good reply is loaded.\<close>

lemma handle_reply_grants:
  assumes "server_ok srv" and "srv_config srv \<noteq> None" and "srv_conn srv = Some minimum"
    and "list_all (usable srv) (gsp_Response out)"
    and "distinct (map (\<lambda>pr. ServerCapacityResourceResponse_GetResourceId (Some pr)) (gsp_Response out))"
    and "\<forall>i a. srv_lookup srv i = Some a \<longrightarrow> CHR ''/'' \<notin> set i \<and> i \<noteq> ''*''"
  shows "\<exists>srv' interval. handle_reply run_err srv retryNumber (Some out) = Inr (srv', Some interval, 0) \<and>
    server_ok srv' \<and> srv_lookup srv' = srv_lookup srv \<and> srv_resources srv' = srv_resources srv \<and>
    srv_conn srv' = srv_conn srv \<and> srv_config srv' \<noteq> None \<and>
    (\<forall>i a. srv_lookup srv i = Some a \<longrightarrow>
       (let res = srv_heap srv ! a; res' = srv_heap srv' ! a;
            grant = find (\<lambda>pr. ServerCapacityResourceResponse_GetResourceId (Some pr) = i) (gsp_Response out) in
        res_config res' = Some (case grant of None \<Rightarrow> defaultResourceTemplate | Some pr \<Rightarrow> granted_template pr) \<and>
        res_expiryTime res' = map_option (\<lambda>pr. Unix (Lease_GetExpiryTime (scp_Gets pr))) grant \<and>
        res_store res' = res_store res \<and> res_learningModeEndTime res' = res_learningModeEndTime res)) \<and>
    (let d = Min (insert (sint veryLongTime)
         ((\<lambda>pr. sint (seconds (Lease_GetRefreshInterval (scp_Gets pr)))) ` set (gsp_Response out))) in
     sint interval = (if d < sint minimum \<or> d = sint veryLongTime then sint minimum else d))"
proof -
  let ?id = "\<lambda>pr. ServerCapacityResourceResponse_GetResourceId (Some pr)"
  let ?prs = "gsp_Response out"
  let ?config = "\<lparr>repo_Resources = map granted_template ?prs @ [defaultResourceTemplate]\<rparr>"
  let ?ex = "fold (\<lambda>pr ex. map_put ex (?id pr) (Unix (Lease_GetExpiryTime (scp_Gets pr)))) ?prs []"
  obtain d where d: "reply_loop srv ?prs ([], [], veryLongTime) = (map granted_template ?prs, ?ex, d)"
    "sint d = Min (insert (sint veryLongTime) ((\<lambda>pr. sint (seconds (Lease_GetRefreshInterval (scp_Gets pr)))) ` set ?prs))"
    using reply_loop_usable [OF assms(4), of "[]" "[]" veryLongTime] by auto
  note ok = granted_repo_ok [OF assms(4)]
  have cov: "list_all (\<lambda>(i, a). covered (repo_Resources ?config) i) m" if m: "srv_resources srv = Some m" for m
  proof -
    have "covered (repo_Resources ?config) i" if ia: "(i, a) \<in> set m" for i a
    proof -
      have "distinct_keys m" using server_ok_addresses [OF assms(1) m] by (simp add: addresses_ok_def)
      then have "srv_lookup srv i = Some a" using m ia by (simp add: srv_lookup_def)
      then show ?thesis using assms(6) covered_no_separator [OF ok(1)] by blast
    qed
    then show ?thesis by (auto simp: list_all_iff)
  qed
  obtain heap where h: "server_LoadConfig run_err srv ?config ?ex =
      Inr (srv\<lparr>srv_config := Some ?config, srv_heap := heap\<rparr>, None)"
    "server_ok (srv\<lparr>srv_config := Some ?config, srv_heap := heap\<rparr>)"
    "\<And>i a. srv_lookup srv i = Some a \<Longrightarrow> reloaded ?config ?ex i (srv_heap srv ! a) (heap ! a)"
    using server_LoadConfig_next [OF assms(1,2) ok cov, of run_err ?ex] by blast
  let ?srv = "srv\<lparr>srv_config := Some ?config, srv_heap := heap\<rparr>"
  let ?i = "if sint d < sint minimum \<or> d = veryLongTime then minimum else d"
  have r: "handle_reply run_err srv retryNumber (Some out) = Inr (?srv, Some ?i, 0)"
    using d(1) h(1) assms(3) by (simp add: handle_reply_def)
  have i: "sint ?i = (if sint d < sint minimum \<or> sint d = sint veryLongTime then sint minimum else sint d)"
    by (auto intro: signed_word_eqI)
  have "res_config (heap ! a) = Some (case find (\<lambda>pr. ?id pr = i) ?prs of None \<Rightarrow> defaultResourceTemplate | Some pr \<Rightarrow> granted_template pr) \<and>
      res_expiryTime (heap ! a) = map_option (\<lambda>pr. Unix (Lease_GetExpiryTime (scp_Gets pr))) (find (\<lambda>pr. ?id pr = i) ?prs) \<and>
      res_store (heap ! a) = res_store (srv_heap srv ! a) \<and>
      res_learningModeEndTime (heap ! a) = res_learningModeEndTime (srv_heap srv ! a)"
    if ia: "srv_lookup srv i = Some a" for i a
  proof -
    obtain k where k: "selected (repo_Resources ?config) i k" "res_config (heap ! a) = Some (repo_Resources ?config ! k)"
      using h(3) [OF ia] by (auto simp: reloaded_def list_ex_iff)
    have "i \<noteq> ''*''" using assms(6) ia by blast
    from granted_selected [OF assms(4,5) _ this] k
      fold_put_lookup [OF assms(5), of "\<lambda>pr. Unix (Lease_GetExpiryTime (scp_Gets pr))" "[]" i] h(3) [OF ia]
    show ?thesis by (auto simp: reloaded_def split: option.splits)
  qed
  note R = this
  have lk: "srv_lookup ?srv = srv_lookup srv" by (simp add: srv_lookup_def fun_eq_iff)
  show ?thesis
    unfolding Let_def d(2) [symmetric]
    by (intro exI [of _ ?srv] exI [of _ ?i] conjI r h(2) lk allI impI i) (use R in simp_all)
qed

text \<open>What a good reply does: every resource the parent granted gets the granted capacity, safe
  capacity and algorithm, until the granted time; every other resource falls back to the default
  template, whose capacity is zero; leases and learning mode stay. The next request is due after
  the shortest refresh interval, but not before the minimum, which also stands in for an hour.\<close>

lemma reply_loads_grants:
  assumes "server_ok srv" and "srv_config srv \<noteq> None" and "srv_conn srv = Some minimum"
    and "list_all (usable srv) (gsp_Response out)"
    and "distinct (map (\<lambda>pr. ServerCapacityResourceResponse_GetResourceId (Some pr)) (gsp_Response out))"
    and "\<And>i a. srv_lookup srv i = Some a \<Longrightarrow> CHR ''/'' \<notin> set i \<and> i \<noteq> ''*''"
  shows "\<exists>srv' interval. handle_reply run_err srv retryNumber (Some out) = Inr (srv', Some interval, 0) \<and>
    server_ok srv' \<and> srv_lookup srv' = srv_lookup srv \<and>
    (\<forall>i a. srv_lookup srv i = Some a \<longrightarrow>
       (let res = srv_heap srv ! a; res' = srv_heap srv' ! a;
            grant = find (\<lambda>pr. ServerCapacityResourceResponse_GetResourceId (Some pr) = i) (gsp_Response out) in
        res_config res' = Some (case grant of None \<Rightarrow> defaultResourceTemplate | Some pr \<Rightarrow> granted_template pr) \<and>
        res_expiryTime res' = map_option (\<lambda>pr. Unix (Lease_GetExpiryTime (scp_Gets pr))) grant \<and>
        res_store res' = res_store res \<and> res_learningModeEndTime res' = res_learningModeEndTime res)) \<and>
    (let d = Min (insert (sint veryLongTime)
         ((\<lambda>pr. sint (seconds (Lease_GetRefreshInterval (scp_Gets pr)))) ` set (gsp_Response out))) in
     sint interval = (if d < sint minimum \<or> d = sint veryLongTime then sint minimum else d))"
  using handle_reply_grants [OF assms(1-5)] assms(6) by blast

lemma reply_loads_grants_witness:
  "\<exists>srv' interval. handle_reply None (example_child ''r'') 3 (Some \<lparr>gsp_Response = [example_grant ''r''], gsp_Mastership = None\<rparr>) =
      Inr (srv', Some interval, 0) \<and> res_config (srv_heap srv' ! 0) = Some (granted_template (example_grant ''r''))"
proof -
  let ?out = "\<lparr>gsp_Response = [example_grant ''r''], gsp_Mastership = None\<rparr>"
  have "list_all (usable (example_child ''r'')) (gsp_Response ?out)"
    using example_grant_usable [of "''r''"] by (simp add: plain_def)
  from reply_loads_grants [OF example_child_ok _ _ this, of "seconds 5" None 3] example_child_lookup [of "''r''"]
  show ?thesis
    by (fastforce simp: example_child_def example_server_def Let_def example_grant_def
        ServerCapacityResourceResponse_GetResourceId_def split: if_splits)
qed

text \<open>A failed call changes nothing, and is repeated after a backoff between one second and
  one minute that does not shrink as the retries mount.\<close>

lemma failed_reply_backs_off:
  assumes "0 \<le> sint m" and "sint m \<le> sint n"
  shows "\<exists>d e. handle_reply run_err srv m None = Inr (srv, Some d, m + 1) \<and>
    handle_reply run_err srv n None = Inr (srv, Some e, n + 1) \<and>
    sint Second \<le> sint d \<and> sint d \<le> sint e \<and> sint e \<le> sint Minute"
proof -
  have n: "0 \<le> sint n" using assms by linarith
  obtain d e where de: "Backoff Second Minute m = Some d" "Backoff Second Minute n = Some e"
    using std.delay_defined [OF assms(1)] std.delay_defined [OF n] by blast
  then show ?thesis
    using std.delay_bounds [OF assms(1) de(1)] std.delay_bounds [OF n de(2)] std.delay_mono [OF assms de]
    by (simp add: handle_reply_def minBackoff_def maxBackoff_def)
qed

lemma failed_reply_backs_off_witness:
  "\<exists>d e. handle_reply None (example_child ''r'') 2 None = Inr (example_child ''r'', Some d, 3) \<and>
    handle_reply None (example_child ''r'') 5 None = Inr (example_child ''r'', Some e, 6) \<and> sint d \<le> sint e"
  using failed_reply_backs_off [of 2 5 None "example_child ''r''"] by auto

text \<open>A resource id that is not a well-formed pattern stops all updates: the id becomes a
  glob of the configuration, the validation refuses it, and nothing of the reply is loaded.\<close>

lemma malformed_id_stops_updates:
  assumes "pr \<in> set (gsp_Response out)"
    and "srv_lookup srv (ServerCapacityResourceResponse_GetResourceId (Some pr)) \<noteq> None"
    and "glob_match (ServerCapacityResourceResponse_GetResourceId (Some pr)) '' '' = None"
  shows "handle_reply run_err srv retryNumber (Some out) =
    Inr (srv, Backoff minBackoff maxBackoff retryNumber, retryNumber + 1)"
proof -
  obtain ts ex d where r: "reply_loop srv (gsp_Response out) ([], [], veryLongTime) = (ts, ex, d)"
    by (metis prod_cases3)
  have "granted_template pr \<in> set ts" using reply_loop_in [OF assms(1,2), of "[]" "[]" veryLongTime] by (simp add: r)
  moreover have "\<not> template_valid (granted_template pr)"
    using assms(3) by (simp add: template_valid_def granted_template_def ResourceTemplate_GetIdentifierGlob_def)
  ultimately have "\<not> repo_valid \<lparr>repo_Resources = ts @ [defaultResourceTemplate]\<rparr>"
    by (auto simp: repo_valid_def list_all_iff)
  then obtain err where "validateResourceRepository \<lparr>repo_Resources = ts @ [defaultResourceTemplate]\<rparr> = Some err"
    unfolding repo_valid_iff by blast
  then show ?thesis by (simp add: handle_reply_def r server_LoadConfig_def)
qed

lemma malformed_id_stops_updates_witness:
  "handle_reply None (example_child ''['') 0 (Some \<lparr>gsp_Response = [example_grant ''[''], gsp_Mastership = None\<rparr>) =
     Inr (example_child ''['', Backoff minBackoff maxBackoff 0, 1)"
proof -
  have "glob_match ''['' '' '' = None"
    by (simp add: glob_match.simps scanChunk_def matchChunk_def class_loop.simps getEsc_def)
  then show ?thesis
    using malformed_id_stops_updates [of "example_grant ''[''" "\<lparr>gsp_Response = [example_grant ''[''], gsp_Mastership = None\<rparr>"
        "example_child ''[''" None 0]
    by (simp add: example_grant_def ServerCapacityResourceResponse_GetResourceId_def example_child_lookup)
qed

end
