(* ===== verification/Registry.thy ===== *)
theory Registry
  imports Server_Props
begin

text \<open>
  The vectors of metrics of the server (\<open>go/server/doorman/server.go\<close>) and of the client
  (\<open>go/client/doorman/client.go\<close>), their registration, and \<open>New\<close>, which makes a server and registers it as
  a collector of its own. The registry is the list of names it has.
\<close>

section \<open>The vectors\<close>

record CounterOpts =
  co_Namespace :: string
  co_Subsystem :: string
  co_Name :: string
  co_labels :: "string list"

datatype metric_vec = Requests | RequestErrors | RequestDurations

definition server_vecs :: "metric_vec \<Rightarrow> CounterOpts" where
  "server_vecs v = \<lparr>co_Namespace = ''doorman'', co_Subsystem = ''server'',
     co_Name = (case v of Requests \<Rightarrow> ''requests'' | RequestErrors \<Rightarrow> ''request_errors'' | RequestDurations \<Rightarrow> ''request_durations''),
     co_labels = [''method'']\<rparr>"

definition client_vecs :: "metric_vec \<Rightarrow> CounterOpts" where
  "client_vecs v = \<lparr>co_Namespace = ''doorman'', co_Subsystem = ''client'',
     co_Name = (case v of Requests \<Rightarrow> ''requests'' | RequestErrors \<Rightarrow> ''request_errors'' | RequestDurations \<Rightarrow> ''request_durations''),
     co_labels = [''server'', ''method'']\<rparr>"

text \<open>The names under which vectors and the collector of a server are registered.\<close>

definition BuildFQName :: "CounterOpts \<Rightarrow> string" where
  "BuildFQName opts = co_Namespace opts @ ''_'' @ co_Subsystem opts @ ''_'' @ co_Name opts"

definition Describe :: "string list" where
  "Describe = map (\<lambda>name. BuildFQName \<lparr>co_Namespace = ''doorman'', co_Subsystem = ''server'', co_Name = name, co_labels = []\<rparr>)
     [''has'', ''wants'', ''subclients'', ''test'']"

text \<open>A registry takes names that it does not have yet. \<open>MustRegister\<close> panics if it is refused.\<close>

definition Register :: "string list \<Rightarrow> string list \<Rightarrow> string list option" where
  "Register names registry =
     (if distinct names \<and> list_all (\<lambda>n. n \<notin> set registry) names then Some (registry @ names) else None)"

fun MustRegister :: "string list list \<Rightarrow> string list \<Rightarrow> panic + string list" where
  "MustRegister [] registry = Inr registry"
| "MustRegister (names # rest) registry = (case Register names registry of
       None \<Rightarrow> Inl (PanicCall ''MustRegister'')
     | Some registry' \<Rightarrow> MustRegister rest registry')"

definition server_init :: "string list \<Rightarrow> panic + string list" where
  "server_init = MustRegister (map (\<lambda>v. [BuildFQName (server_vecs v)]) [Requests, RequestErrors, RequestDurations])"

definition client_init :: "string list \<Rightarrow> panic + string list" where
  "client_init = MustRegister (map (\<lambda>v. [BuildFQName (client_vecs v)]) [Requests, RequestErrors, RequestDurations])"

text \<open>\<open>New\<close>: the server, and an error if its collector could not be registered.\<close>

definition server_New :: "string \<Rightarrow> string \<Rightarrow> (string + duration) \<Rightarrow> string option \<Rightarrow> string list
    \<Rightarrow> panic + (string + Server \<times> bool \<times> string list)" where
  "server_New i parentAddr dial run_err registry =
     bind_panic (NewIntermediate i parentAddr dial run_err) (\<lambda>r. Inr (case r of
         Inl err \<Rightarrow> Inl err
       | Inr s \<Rightarrow> (case Register Describe registry of
             None \<Rightarrow> Inr (s, False, registry)
           | Some registry' \<Rightarrow> Inr (s, True, registry'))))"

section \<open>Lemmas\<close>

text \<open>No two registrations of a program that has both packages and one server collide.\<close>

lemma registrations:
  "\<exists>r1 r2 r3. server_init [] = Inr r1 \<and> client_init r1 = Inr r2 \<and> Register Describe r2 = Some r3 \<and> Register Describe r3 = None"
  by (simp add: server_init_def client_init_def Register_def BuildFQName_def server_vecs_def client_vecs_def Describe_def)

end
