(* ===== verification/Election.thy ===== *)
theory Election
  imports Server_Model
begin

text \<open>
  Master elections (\<open>go/server/election/election.go\<close>). etcd is not part of the program: the
  outcome of every call to it is a parameter, and what its documentation promises about a key
  with a time to live is the predicate \<open>etcd_allows\<close>. The candidate's goroutine is a state
  machine over the outcomes of its calls, the watcher's a state machine over the updates it
  receives; \<open>election_run\<close> lets any number of candidates share one lock, with calls that take time.
\<close>

section \<open>The trivial election\<close>

text \<open>Its two channels have room for one value. A second \<open>Run\<close> waits (\<open>None\<close>) unless the first
  values have been received.\<close>

record trivial =
  tr_isMaster :: "bool list"
  tr_current :: "string list"

definition Trivial :: trivial where
  "Trivial = \<lparr>tr_isMaster = [], tr_current = []\<rparr>"

definition trivial_Run :: "string \<Rightarrow> trivial \<Rightarrow> trivial option" where
  "trivial_Run i e =
     (if tr_isMaster e \<noteq> [] then None
      else if tr_current e \<noteq> [] then None
      else Some (e\<lparr>tr_isMaster := [True], tr_current := [i]\<rparr>))"

section \<open>The etcd election\<close>

record etcd =
  et_endpoints :: "string list"
  et_delay :: duration
  et_lock :: string

definition Etcd :: "string list \<Rightarrow> string \<Rightarrow> duration \<Rightarrow> etcd" where
  "Etcd endpoints lock delay = \<lparr>et_endpoints = endpoints, et_delay = delay, et_lock = lock\<rparr>"

text \<open>What a candidate asks of etcd: to create the lock with its id, or, as the master, to keep it.\<close>

datatype candidate = Contender | Holder

record set_options =
  so_TTL :: duration
  so_PrevExist :: bool
  so_PrevValue :: "string option"

definition set_request :: "etcd \<Rightarrow> string \<Rightarrow> candidate \<Rightarrow> set_options" where
  "set_request e i c = (case c of
       Contender \<Rightarrow> \<lparr>so_TTL = et_delay e, so_PrevExist = False, so_PrevValue = None\<rparr>
     | Holder \<Rightarrow> \<lparr>so_TTL = et_delay e, so_PrevExist = True, so_PrevValue = Some i\<rparr>)"

text \<open>The next state, what is sent on \<open>isMaster\<close>, and the sleep before the next call.\<close>

definition third :: "duration \<Rightarrow> duration" where
  "third d = word_of_int (quot (sint d) 3)"

definition candidate_step :: "etcd \<Rightarrow> candidate \<Rightarrow> bool \<Rightarrow> candidate \<times> bool option \<times> duration" where
  "candidate_step e c ok = (case c of
       Contender \<Rightarrow> if \<not> ok then (Contender, None, et_delay e) else (Holder, Some True, third (et_delay e))
     | Holder \<Rightarrow> if \<not> ok then (Contender, Some False, 0) else (Holder, None, third (et_delay e)))"

text \<open>The watcher: the last value it announced, what it sends on \<open>current\<close>, and its sleep.\<close>

datatype watch_result = WatchError bool | WatchValue string

definition watcher_step :: "etcd \<Rightarrow> string \<Rightarrow> watch_result \<Rightarrow> string \<times> string option \<times> duration" where
  "watcher_step e prev r = (case r of
       WatchError keyNotFound \<Rightarrow> (prev, Some '''', et_delay e)
     | WatchValue v \<Rightarrow> if prev \<noteq> v then (v, Some v, 0) else (prev, None, 0))"

text \<open>A run of the watcher: the values it sends.\<close>

fun watcher_run :: "etcd \<Rightarrow> string \<Rightarrow> watch_result list \<Rightarrow> string list" where
  "watcher_run e prev [] = []"
| "watcher_run e prev (r # rs) =
     (let (prev', sent, _) = watcher_step e prev r
      in (case sent of None \<Rightarrow> [] | Some v \<Rightarrow> [v]) @ watcher_run e prev' rs)"

section \<open>Candidates that share a lock\<close>

text \<open>The time to live that a call carries: the client library of etcd sends whole seconds
  (\<open>uint64(TTL.Seconds())\<close> in \<open>keys.go\<close>), in nanoseconds here.\<close>

definition sent_TTL :: "set_options \<Rightarrow> int" where
  "sent_TTL opts = sint (so_TTL opts) div 1000000000 * 1000000000"

text \<open>
  etcd orders the calls for the lock. It remembers the last call that succeeded: when, and whose
  id it stored. The documentation of a key with a time to live promises that a call to create
  the key succeeds only when the last value has expired, and a call to keep it only when the
  value is still there and is the caller's.
\<close>

type_synonym lock_state = "(time \<times> string) option"

definition etcd_allows :: "etcd \<Rightarrow> lock_state \<Rightarrow> time \<Rightarrow> string \<Rightarrow> candidate \<Rightarrow> bool" where
  "etcd_allows e prev t i c = (let opts = set_request e i c in
     if so_PrevExist opts then
       (case prev of None \<Rightarrow> False | Some (s, j) \<Rightarrow> (so_PrevValue opts = None \<or> so_PrevValue opts = Some j) \<and> t < s + sent_TTL opts)
     else (case prev of None \<Rightarrow> True | Some (s, j) \<Rightarrow> s + sent_TTL opts \<le> t))"

text \<open>
  A candidate has a state, the time from which its next call is due, the call it waits for (when it
  was made, and whether etcd has carried it out), and the time at which it made the last call that
  succeeded. A call takes time, and may be made late. It fails, or it succeeds after etcd has carried it
  out; etcd may also carry out a call that has failed for its caller, at any later time.
\<close>

record election =
  el_time :: time
  el_lock :: lock_state
  el_state :: "string \<Rightarrow> candidate"
  el_due :: "string \<Rightarrow> time"
  el_call :: "string \<Rightarrow> (time \<times> bool) option"
  el_asked :: "string \<Rightarrow> time"

inductive election_run :: "etcd \<Rightarrow> election \<Rightarrow> bool" for e where
  election_start: "election_run e \<lparr>el_time = t, el_lock = None, el_state = (\<lambda>_. Contender), el_due = (\<lambda>_. t),
    el_call = (\<lambda>_. None), el_asked = (\<lambda>_. t)\<rparr>"
| election_call: "election_run e s \<Longrightarrow> el_call s i = None \<Longrightarrow> el_due s i \<le> el_time s \<Longrightarrow>
    election_run e (s\<lparr>el_call := (el_call s)(i \<mapsto> (el_time s, False))\<rparr>)"
| election_applied: "election_run e s \<Longrightarrow> el_call s i = Some (t, applied) \<Longrightarrow>
    etcd_allows e (el_lock s) (el_time s) i (el_state s i) \<Longrightarrow>
    election_run e (s\<lparr>el_lock := Some (el_time s, i), el_call := (el_call s)(i \<mapsto> (t, True))\<rparr>)"
| election_stray: "election_run e s \<Longrightarrow> etcd_allows e (el_lock s) (el_time s) i c \<Longrightarrow>
    election_run e (s\<lparr>el_lock := Some (el_time s, i)\<rparr>)"
| election_return: "election_run e s \<Longrightarrow> el_call s i = Some (t, applied) \<Longrightarrow> (ok \<Longrightarrow> applied) \<Longrightarrow>
    candidate_step e (el_state s i) ok = (c, sent, sleep) \<Longrightarrow>
    election_run e (s\<lparr>el_state := (el_state s)(i := c), el_due := (el_due s)(i := el_time s + sint sleep),
      el_call := (el_call s)(i := None), el_asked := (if ok then (el_asked s)(i := t) else el_asked s)\<rparr>)"
| election_wait: "election_run e s \<Longrightarrow> el_time s \<le> t \<Longrightarrow> election_run e (s\<lparr>el_time := t\<rparr>)"

section \<open>Lemmas\<close>

lemma sint_third: "0 \<le> sint d \<Longrightarrow> sint (third d) = sint d div 3"
proof -
  assume d: "0 \<le> sint d"
  have "sint d div 3 \<le> sint d div 1" using d by (intro zdiv_mono2) auto
  moreover have "sint d < 2 ^ 63" by (rule sint64_upper)
  ultimately show ?thesis using d by (simp add: third_def quot_nonneg sint64_of_nonneg)
qed

text \<open>The lock's time to live, which is the same for both kinds of call.\<close>

definition lock_TTL :: "etcd \<Rightarrow> int" where
  "lock_TTL e = sint (et_delay e) div 1000000000 * 1000000000"

lemma etcd_allows_iff:
  "etcd_allows e prev t i c = (case c of
       Contender \<Rightarrow> (case prev of None \<Rightarrow> True | Some (s, j) \<Rightarrow> s + lock_TTL e \<le> t)
     | Holder \<Rightarrow> (case prev of None \<Rightarrow> False | Some (s, j) \<Rightarrow> j = i \<and> t < s + lock_TTL e))"
  by (auto simp: etcd_allows_def Let_def set_request_def sent_TTL_def lock_TTL_def split: candidate.split option.split)

text \<open>
  The invariant, of a call made at time \<open>t\<close> that etcd has carried out: what is in the lock has been stored by the
  same candidate, not before \<open>t\<close>, or by another, when what the call had stored was expired.
\<close>

definition secured :: "etcd \<Rightarrow> lock_state \<Rightarrow> time \<Rightarrow> string \<Rightarrow> time \<Rightarrow> bool" where
  "secured e lock now i t = (\<exists>l j. lock = Some (l, j) \<and> l \<le> now \<and> (j = i \<and> t \<le> l \<or> t + lock_TTL e \<le> l))"

lemma secured_later: "secured e lock now i t \<Longrightarrow> now \<le> now' \<Longrightarrow> secured e lock now' i t"
  by (auto simp: secured_def)

lemma secured_stored:
  assumes "secured e lock now i t" and "etcd_allows e lock now j c"
  shows "secured e (Some (now, j)) now i t"
  using assms by (auto simp: secured_def etcd_allows_iff split: candidate.splits)

definition election_ok :: "etcd \<Rightarrow> election \<Rightarrow> bool" where
  "election_ok e s = ((\<forall>i. el_state s i = Holder \<longrightarrow> secured e (el_lock s) (el_time s) i (el_asked s i)) \<and>
     (\<forall>i t. el_call s i = Some (t, True) \<longrightarrow> secured e (el_lock s) (el_time s) i t) \<and>
     (\<forall>i t b. el_call s i = Some (t, b) \<longrightarrow> t \<le> el_time s))"

lemma election_run_ok:
  assumes "election_run e s"
  shows "election_ok e s"
  using assms
proof (induction rule: election_run.induct)
  case (election_applied s i t applied)
  have "t \<le> el_time s" using election_applied.IH election_applied.hyps(2) unfolding election_ok_def by blast
  moreover from this have "secured e (Some (el_time s, i)) (el_time s) i t" by (simp add: secured_def)
  ultimately show ?case
    using election_applied.IH secured_stored [OF _ election_applied.hyps(3)] by (auto simp: election_ok_def)
next
  case (election_stray s i c)
  then show ?case using secured_stored [OF _ election_stray.hyps(2)] by (auto simp: election_ok_def)
next
  case (election_return s i t applied ok c sent sleep)
  then show ?case
    by (cases "el_state s i"; cases ok) (auto simp: election_ok_def candidate_step_def)
next
  case (election_wait s t)
  then show ?case using secured_later by (fastforce simp: election_ok_def)
qed (auto simp: election_ok_def)

section \<open>Properties\<close>

text \<open>C18. There is at most one prompt master. The lock lives for the whole seconds of the delay. While the time to
  live has not passed since a master made its last successful call, it has passed for every other
  candidate that still takes itself for the master since that one made its own, however
  long the calls and their answers take, on a clock that all share with etcd.\<close>

theorem election_exclusive:
  assumes "election_run e s" and "i \<noteq> j" and "el_state s i = Holder" and "el_time s < el_asked s i + lock_TTL e"
    and "el_state s j = Holder"
  shows "el_asked s j + lock_TTL e \<le> el_time s"
proof -
  have "secured e (el_lock s) (el_time s) i (el_asked s i)" "secured e (el_lock s) (el_time s) j (el_asked s j)"
    using election_run_ok [OF assms(1)] assms(3,5) by (simp_all add: election_ok_def)
  then show ?thesis using assms(2,4) by (auto simp: secured_def)
qed

text \<open>Two candidates and a delay of three seconds: the first wins, and is late to renew; the
  second wins when the lock has expired. Each is alone while prompt.\<close>

definition example_etcd :: etcd where
  "example_etcd = Etcd [''http://etcd:2379''] ''/master'' (seconds 3)"

lemma example_delay [simp]: "sint (et_delay example_etcd) = 3000000000" "sint (third (et_delay example_etcd)) = 1000000000"
  "lock_TTL example_etcd = 3000000000"
proof -
  show d: "sint (et_delay example_etcd) = 3000000000"
    by (simp add: example_etcd_def Etcd_def sint_seconds)
  show "sint (third (et_delay example_etcd)) = 1000000000" by (subst sint_third) (simp_all add: d)
  show "lock_TTL example_etcd = 3000000000" by (simp add: lock_TTL_def d)
qed

definition one_master :: election where
  "one_master = \<lparr>el_time = 10, el_lock = Some (10, ''a''), el_state = (\<lambda>_. Contender)(''a'' := Holder),
     el_due = (\<lambda>_. 0)(''a'' := 10 + 1000000000), el_call = (\<lambda>_. None), el_asked = (\<lambda>_. 0)\<rparr>"

text \<open>A call that is made, carried out by etcd, and returns.\<close>

lemma election_success:
  assumes "election_run e s" and "el_call s = (\<lambda>_. None)" and "el_due s i \<le> el_time s" and "el_time s \<le> t"
    and "etcd_allows e (el_lock s) t i (el_state s i)" and "candidate_step e (el_state s i) True = (c, sent, sleep)"
  shows "election_run e (s\<lparr>el_time := t, el_lock := Some (t, i), el_state := (el_state s)(i := c),
    el_due := (el_due s)(i := t + sint sleep), el_asked := (el_asked s)(i := el_time s)\<rparr>)"
proof -
  let ?s = "s\<lparr>el_call := [i \<mapsto> (el_time s, False)], el_time := t\<rparr>"
  have "election_run e (s\<lparr>el_call := [i \<mapsto> (el_time s, False)]\<rparr>)"
    using election_call [OF assms(1) _ assms(3)] assms(2) by simp
  from election_wait [OF this, of t] assms(4) have "election_run e ?s" by simp
  from election_applied [OF this, of i "el_time s" False] assms(5)
  have "election_run e (?s\<lparr>el_lock := Some (t, i), el_call := [i \<mapsto> (el_time s, True)]\<rparr>)" by simp
  from election_return [OF this, of i "el_time s" True True c sent sleep] assms(2,6) show ?thesis
    by (cases s) (simp add: fun_upd_def cong: if_cong)
qed

lemma one_master_run: "election_run example_etcd one_master"
proof -
  have "election_run example_etcd \<lparr>el_time = 0, el_lock = None, el_state = (\<lambda>_. Contender), el_due = (\<lambda>_. 0),
      el_call = (\<lambda>_. None), el_asked = (\<lambda>_. 0)\<rparr>"
    by (rule election_start)
  from election_success [OF this, of "''a''" 10] show ?thesis
    by (simp add: etcd_allows_iff candidate_step_def one_master_def fun_upd_def cong: if_cong)
qed

definition two_masters :: election where
  "two_masters = one_master\<lparr>el_time := 3000000010, el_lock := Some (3000000010, ''b''),
     el_state := (el_state one_master)(''b'' := Holder), el_due := (el_due one_master)(''b'' := 4000000010),
     el_asked := (el_asked one_master)(''b'' := 3000000000)\<rparr>"

lemma two_masters_run: "election_run example_etcd two_masters"
proof -
  have "election_run example_etcd (one_master\<lparr>el_time := 3000000000\<rparr>)"
    by (rule election_wait [OF one_master_run]) (simp add: one_master_def)
  from election_success [OF this, of "''b''" 3000000010] show ?thesis
    by (simp add: etcd_allows_iff candidate_step_def one_master_def two_masters_def fun_upd_def cong: if_cong)
qed

theorem election_exclusive_witness: "el_asked two_masters ''a'' + 3000000000 \<le> el_time two_masters"
  using election_exclusive [OF two_masters_run, of "''b''" "''a''"] by (simp add: two_masters_def one_master_def)

text \<open>Without promptness two servers act as the master at the same time: the first is told only
  when its late renewal fails.\<close>

lemma election_overlap:
  "\<exists>s. election_run example_etcd s \<and> el_state s ''a'' = Holder \<and> el_state s ''b'' = Holder"
  using two_masters_run by (intro exI [of _ two_masters] conjI) (simp_all add: two_masters_def one_master_def)

text \<open>With a delay of a second and a half the lock lives for one second, two thirds of the time that a master is promised
  to have: a master that makes its next call after a second, in time for its delay, has lost it.\<close>

lemma fraction_shortens_lock: "lock_TTL (Etcd endpoints lock 1500000000) = 1000000000"
  by (simp add: lock_TTL_def Etcd_def)

text \<open>After a failure to read the lock the watcher announces that the master is unknown, but keeps
  the last master in mind: when the same master goes on renewing its lease, the watcher says nothing
  more, and its server keeps telling clients that there is no known master.\<close>

lemma watcher_forgets_master:
  "fold handleMasterID (watcher_run e '''' (WatchValue m # WatchError keyNotFound # replicate n (WatchValue m))) srv =
     srv\<lparr>srv_currentMaster := ''''\<rparr>"
proof -
  have quiet: "watcher_run e v (replicate n (WatchValue v)) = []" for v
    by (induction n) (simp_all add: watcher_step_def)
  show ?thesis by (cases "m = ''''") (auto simp: watcher_step_def quiet handleMasterID_def)
qed

end
