(* ===== verification/Config_Source.thy ===== *)
theory Config_Source
  imports Timeutil
begin

text \<open>
  Where the configuration comes from (\<open>go/configuration/configuration.go\<close>) and flags from the
  environment (\<open>go/flagenv/flagenv.go\<close>). The contents of files, of etcd and of the environment
  are parameters. The etcd source is a goroutine and a caller that meet on two channels.
\<close>

section \<open>Strings\<close>

text \<open>\<open>strings.SplitN(text, sep, 2)\<close> for a separator of one byte.\<close>

definition SplitN2 :: "char \<Rightarrow> string \<Rightarrow> string list" where
  "SplitN2 sep text =
     (case dropWhile (\<lambda>c. c \<noteq> sep) text of
        [] \<Rightarrow> [text]
      | _ # rest \<Rightarrow> [takeWhile (\<lambda>c. c \<noteq> sep) text, rest])"

text \<open>\<open>strings.ToUpper\<close> and \<open>strings.Replace(name, "-", "_", -1)\<close>, on bytes of ASCII.\<close>

definition upper_char :: "char \<Rightarrow> char" where
  "upper_char c = (if 97 \<le> (of_char c :: nat) \<and> (of_char c :: nat) \<le> 122 then char_of (of_char c - 32 :: nat) else c)"

definition ToUpper :: "string \<Rightarrow> string" where
  "ToUpper s = map upper_char s"

definition replace_dash :: "string \<Rightarrow> string" where
  "replace_dash s = map (\<lambda>c. if c = CHR ''-'' then CHR ''_'' else c) s"

section \<open>ParseSource\<close>

definition ParseSource :: "string \<Rightarrow> string \<times> string" where
  "ParseSource text =
     (let parts = SplitN2 (CHR '':'') text
      in if length parts = 1 then (''file'', text)
         else if parts ! 0 = ''etcd'' then (''etcd'', parts ! 1)
         else if parts ! 0 = ''file'' then (''file'', parts ! 1)
         else (''file'', text))"

section \<open>The etcd source\<close>

text \<open>An update is the data, or an error (\<open>None\<close>). The goroutine's next action: to connect for the
  \<open>i\<close>-th time, to send the error of that and sleep, to wait for the first request, to send an
  update, or to wait for a request and then watch.\<close>

type_synonym update = "string option"

datatype src_pc = Connecting nat | SendError nat | AwaitFirst | SendUpdate update nat | Watching nat

datatype caller = Resting | Requesting | Receiving

record source =
  sc_pc :: src_pc
  sc_updates :: "update list"     \<comment> \<open>the buffered channel, of capacity one\<close>
  sc_caller :: caller
  sc_results :: "update list"     \<comment> \<open>what the calls of the source have returned\<close>

definition source_start :: source where
  "source_start = \<lparr>sc_pc = Connecting 0, sc_updates = [], sc_caller = Resting, sc_results = []\<rparr>"

text \<open>\<open>connects i\<close> says whether the \<open>i\<close>-th attempt to connect works; what etcd returns is open.\<close>

inductive source_step :: "(nat \<Rightarrow> bool) \<Rightarrow> source \<Rightarrow> source \<Rightarrow> bool" for connects where
  connected: "sc_pc s = Connecting i \<Longrightarrow> connects i \<Longrightarrow> source_step connects s (s\<lparr>sc_pc := AwaitFirst\<rparr>)"
| connect_failed: "sc_pc s = Connecting i \<Longrightarrow> \<not> connects i \<Longrightarrow> source_step connects s (s\<lparr>sc_pc := SendError i\<rparr>)"
| error_sent: "sc_pc s = SendError i \<Longrightarrow> sc_updates s = [] \<Longrightarrow>
    source_step connects s (s\<lparr>sc_updates := [None], sc_pc := Connecting (i + 1)\<rparr>)"
| first_request: "sc_pc s = AwaitFirst \<Longrightarrow> sc_caller s = Requesting \<Longrightarrow>
    source_step connects s (s\<lparr>sc_caller := Receiving, sc_pc := SendUpdate u 0\<rparr>)"
| update_sent: "sc_pc s = SendUpdate u i \<Longrightarrow> sc_updates s = [] \<Longrightarrow>
    source_step connects s (s\<lparr>sc_updates := [u], sc_pc := Watching i\<rparr>)"
| watch_request: "sc_pc s = Watching i \<Longrightarrow> sc_caller s = Requesting \<Longrightarrow>
    source_step connects s (s\<lparr>sc_caller := Receiving, sc_pc := SendUpdate u (i + 1)\<rparr>)"
| call: "sc_caller s = Resting \<Longrightarrow> source_step connects s (s\<lparr>sc_caller := Requesting\<rparr>)"
| return: "sc_caller s = Receiving \<Longrightarrow> sc_updates s = [u] \<Longrightarrow>
    source_step connects s (s\<lparr>sc_updates := [], sc_caller := Resting, sc_results := sc_results s @ [u]\<rparr>)"

inductive source_reach :: "(nat \<Rightarrow> bool) \<Rightarrow> source \<Rightarrow> bool" for connects where
  source_init: "source_reach connects source_start"
| source_next: "source_reach connects s \<Longrightarrow> source_step connects s s' \<Longrightarrow> source_reach connects s'"

inductive_cases source_stepE: "source_step connects s s'"

text \<open>How long the goroutine sleeps after the \<open>i\<close>-th failure.\<close>

definition source_backoff :: "nat \<Rightarrow> duration option" where
  "source_backoff i = Backoff Second (60 * Second) (word_of_int (int i))"

section \<open>Flags from the environment\<close>

definition flagToEnv :: "string \<Rightarrow> string \<Rightarrow> string" where
  "flagToEnv prefix name =
     (let rest = ToUpper (replace_dash name)
      in if prefix \<noteq> '''' then prefix @ ''_'' @ rest else rest)"

text \<open>
  A set of flags is a list of names and values, \<open>given\<close> the names set on the command line,
  \<open>env\<close> the environment (the empty string for what is absent), and \<open>valid\<close> whether a flag accepts
  a value. The result is the flags, and the key of the last value that was refused.
\<close>

fun populate_loop :: "string \<Rightarrow> (string \<Rightarrow> bool) \<Rightarrow> (string \<Rightarrow> string) \<Rightarrow> (string \<Rightarrow> string \<Rightarrow> bool)
    \<Rightarrow> (string \<times> string) list \<Rightarrow> string option \<Rightarrow> (string \<times> string) list \<times> string option" where
  "populate_loop prefix given env valid [] err = ([], err)"
| "populate_loop prefix given env valid ((name, value) # rest) err =
     (let key = flagToEnv prefix name;
          val = env key;
          (value', err') =
            (if val = '''' then (value, err)
             else if given name then (value, err)
             else if \<not> valid name val then (value, Some key)
             else (val, err));
          (flags, e) = populate_loop prefix given env valid rest err'
      in ((name, value') # flags, e))"

definition Populate :: "(string \<times> string) list \<Rightarrow> (string \<Rightarrow> bool) \<Rightarrow> (string \<Rightarrow> string)
    \<Rightarrow> (string \<Rightarrow> string \<Rightarrow> bool) \<Rightarrow> string \<Rightarrow> (string \<times> string) list \<times> string option" where
  "Populate flags given env valid prefix = populate_loop prefix given env valid flags None"

section \<open>Lemmas\<close>

lemma SplitN2_found: "sep \<notin> set a \<Longrightarrow> SplitN2 sep (a @ sep # b) = [a, b]"
  by (simp add: SplitN2_def dropWhile_append takeWhile_append)

lemma SplitN2_absent: "sep \<notin> set a \<Longrightarrow> SplitN2 sep a = [a]"
proof -
  assume "sep \<notin> set a"
  then have d: "dropWhile (\<lambda>c. c \<noteq> sep) a = []" by auto
  show "SplitN2 sep a = [a]" unfolding SplitN2_def d by simp
qed

lemma SplitN2_cases:
  obtains "sep \<notin> set text" "SplitN2 sep text = [text]"
  | a b where "text = a @ sep # b" "sep \<notin> set a" "SplitN2 sep text = [a, b]"
proof (cases "sep \<in> set text")
  case True
  then obtain a b where "text = a @ sep # b" "sep \<notin> set a" by (meson split_list_first)
  with SplitN2_found that(2) show ?thesis by blast
qed (use SplitN2_absent that(1) in blast)

section \<open>Properties\<close>

text \<open>A source is its kind, a colon and its path: a text that starts with a known kind and a
  colon is parsed into the kind and the rest, and any other text is the path of a file.\<close>

lemma parse_source_roundtrip:
  "ParseSource (''etcd:'' @ path) = (''etcd'', path) \<and> ParseSource (''file:'' @ path) = (''file'', path) \<and>
   ParseSource text = (if take 5 text = ''etcd:'' then (''etcd'', drop 5 text)
     else if take 5 text = ''file:'' then (''file'', drop 5 text) else (''file'', text))"
proof -
  have kind: "ParseSource (k @ CHR '':'' # p) = (if k = ''etcd'' then (''etcd'', p) else if k = ''file'' then (''file'', p)
      else (''file'', k @ CHR '':'' # p))" if "CHR '':'' \<notin> set k" for k p
    using that by (simp add: ParseSource_def SplitN2_found)
  have known: "ParseSource (''etcd:'' @ p) = (''etcd'', p)" "ParseSource (''file:'' @ p) = (''file'', p)" for p
    using kind [of "''etcd''" p] kind [of "''file''" p] by simp_all
  have five: "text = take 5 text @ drop 5 text" by simp
  have "ParseSource text = (''file'', text)" if "take 5 text \<noteq> ''etcd:''" "take 5 text \<noteq> ''file:''"
  proof (rule SplitN2_cases [of "CHR '':''" "text"])
    fix a b
    assume "text = a @ CHR '':'' # b" "CHR '':'' \<notin> set a"
    with kind [of a b] that show ?thesis by auto
  qed (simp add: ParseSource_def)
  then show ?thesis using known by (metis five)
qed

text \<open>A flag is set from the environment exactly if its variable is not empty, it was not given on
  the command line, and it accepts the value; an error names the last variable that was refused.\<close>

lemma populate_sets:
  "Populate flags given env valid prefix =
     (map (\<lambda>(name, value). let val = env (flagToEnv prefix name) in
        (name, if val \<noteq> '''' \<and> \<not> given name \<and> valid name val then val else value)) flags,
      let refused = filter (\<lambda>(name, value). let val = env (flagToEnv prefix name) in
        val \<noteq> '''' \<and> \<not> given name \<and> \<not> valid name val) flags
      in if refused = [] then None else Some (flagToEnv prefix (fst (last refused))))"
proof -
  have "populate_loop prefix given env valid flags err =
     (map (\<lambda>(name, value). let val = env (flagToEnv prefix name) in
        (name, if val \<noteq> '''' \<and> \<not> given name \<and> valid name val then val else value)) flags,
      let refused = filter (\<lambda>(name, value). let val = env (flagToEnv prefix name) in
        val \<noteq> '''' \<and> \<not> given name \<and> \<not> valid name val) flags
      in if refused = [] then err else Some (flagToEnv prefix (fst (last refused))))" for err
    by (induction flags arbitrary: err) (auto simp: Let_def split: prod.splits if_splits)
  then show ?thesis by (simp only: Populate_def)
qed

section \<open>The etcd source, as a state machine\<close>

lemma stuck_invariant:
  assumes "source_reach connects s" and "\<not> connects 0" and "\<not> connects 1"
  shows "sc_results s = [] \<and> sc_caller s \<noteq> Receiving \<and>
    ((sc_pc s = Connecting 0 \<or> sc_pc s = SendError 0) \<and> sc_updates s = [] \<or>
     (sc_pc s = Connecting 1 \<or> sc_pc s = SendError 1) \<and> sc_updates s \<noteq> [])"
  using assms
proof (induction rule: source_reach.induct)
  case source_init
  then show ?case by (simp add: source_start_def)
next
  case (source_next s s')
  then show ?case by (auto elim!: source_stepE)
qed

text \<open>When the connection to etcd fails twice in a row, as it does for a malformed endpoint, the
  source is dead: no call of it ever returns, not even with the error. The second error waits for
  the first to be received, and the caller waits for its request to be taken.\<close>

lemma etcd_source_deadlock:
  assumes "source_reach connects s" and "\<not> connects 0" and "\<not> connects 1"
  shows "sc_results s = []"
  using stuck_invariant [OF assms] by blast

lemma etcd_source_deadlock_witness:
  "sc_results (source_start\<lparr>sc_caller := Requesting, sc_pc := SendError 0\<rparr>) = []"
proof -
  have "source_reach (\<lambda>_. False) (source_start\<lparr>sc_caller := Requesting\<rparr>)"
    by (rule source_next [OF source_init call]) (simp add: source_start_def)
  then have "source_reach (\<lambda>_. False) (source_start\<lparr>sc_caller := Requesting\<rparr>\<lparr>sc_pc := SendError 0\<rparr>)"
    by (rule source_next [OF _ connect_failed]) (simp_all add: source_start_def)
  from etcd_source_deadlock [OF this] show ?thesis by simp
qed

text \<open>The invariant when the first attempt connects: the channel holds an update exactly between its
  being sent and received.\<close>

definition source_ok :: "source \<Rightarrow> bool" where
  "source_ok s = (case sc_pc s of
       Connecting i \<Rightarrow> i = 0 \<and> sc_updates s = [] \<and> sc_caller s \<noteq> Receiving
     | SendError i \<Rightarrow> False
     | AwaitFirst \<Rightarrow> sc_updates s = [] \<and> sc_caller s \<noteq> Receiving
     | SendUpdate u i \<Rightarrow> sc_updates s = [] \<and> sc_caller s = Receiving
     | Watching i \<Rightarrow> (if sc_caller s = Receiving then \<exists>u. sc_updates s = [u] else sc_updates s = []))"

lemma source_step_ok: "source_step connects s s' \<Longrightarrow> source_ok s \<Longrightarrow> connects 0 \<Longrightarrow> source_ok s'"
proof (induction rule: source_step.induct)
  case (call s)
  then show ?case by (cases "sc_pc s") (simp_all add: source_ok_def)
next
  case (return s u)
  then show ?case by (cases "sc_pc s") (simp_all add: source_ok_def)
qed (auto simp: source_ok_def)

lemma source_reach_ok: "source_reach connects s \<Longrightarrow> connects 0 \<Longrightarrow> source_ok s"
proof (induction rule: source_reach.induct)
  case source_init
  show ?case by (simp add: source_ok_def source_start_def)
next
  case (source_next s s')
  from source_step_ok [OF source_next.hyps(2)] source_next.IH source_next.prems show ?case by blast
qed

text \<open>When the first attempt connects, every call of the source can return: from each state it can
  reach, steps lead to one in which the call has returned one more update.\<close>

lemma etcd_source_answers:
  assumes "source_reach connects s" and "connects 0" and "sc_caller s \<noteq> Resting"
  shows "\<exists>s' u. (source_step connects)\<^sup>*\<^sup>* s s' \<and> sc_caller s' = Resting \<and> sc_results s' = sc_results s @ [u]"
proof -
  have ok: "source_ok s" by (rule source_reach_ok [OF assms(1,2)])
  have ret: "\<exists>s' u. (source_step connects)\<^sup>*\<^sup>* t s' \<and> sc_caller s' = Resting \<and> sc_results s' = sc_results t @ [u]"
    if "sc_caller t = Receiving" "sc_updates t = [u]" for t u
    using source_step.return [OF that] by (intro exI conjI r_into_rtranclp) auto
  have send: "\<exists>s' u. (source_step connects)\<^sup>*\<^sup>* t s' \<and> sc_caller s' = Resting \<and> sc_results s' = sc_results t @ [u]"
    if "sc_pc t = SendUpdate u i" "sc_updates t = []" "sc_caller t = Receiving" for t u i
    using ret [of "t\<lparr>sc_updates := [u], sc_pc := Watching i\<rparr>" u] update_sent [OF that(1,2), of connects] that(3)
    by (auto intro: converse_rtranclp_into_rtranclp)
  have ask: "\<exists>s' u. (source_step connects)\<^sup>*\<^sup>* t s' \<and> sc_caller s' = Resting \<and> sc_results s' = sc_results t @ [u]"
    if "sc_pc t = AwaitFirst" "sc_updates t = []" "sc_caller t = Requesting" for t
    using send [of "t\<lparr>sc_caller := Receiving, sc_pc := SendUpdate None 0\<rparr>" None 0]
      first_request [OF that(1,3), of connects None] that(2)
    by (auto intro: converse_rtranclp_into_rtranclp)
  show ?thesis
  proof (cases "sc_pc s")
    case (Connecting i)
    with ok assms(2,3) have "i = 0" "sc_updates s = []" "sc_caller s = Requesting"
      by (auto simp: source_ok_def) (metis caller.exhaust)
    with ask [of "s\<lparr>sc_pc := AwaitFirst\<rparr>"] connected [OF Connecting] assms(2) show ?thesis
      by (auto intro: converse_rtranclp_into_rtranclp)
  next
    case AwaitFirst
    with ok assms(3) have "sc_updates s = []" "sc_caller s = Requesting"
      by (auto simp: source_ok_def) (metis caller.exhaust)
    with ask AwaitFirst show ?thesis by blast
  next
    case (SendUpdate u i)
    with ok send show ?thesis by (auto simp: source_ok_def)
  next
    case (Watching i)
    show ?thesis
    proof (cases "sc_caller s = Receiving")
      case True
      with ok Watching ret show ?thesis by (auto simp: source_ok_def)
    next
      case False
      with ok assms(3) Watching have "sc_updates s = []" "sc_caller s = Requesting"
        by (auto simp: source_ok_def) (metis caller.exhaust)
      with send [of "s\<lparr>sc_caller := Receiving, sc_pc := SendUpdate None (i + 1)\<rparr>" None "i + 1"]
        watch_request [OF Watching, of connects None] show ?thesis
        by (auto intro: converse_rtranclp_into_rtranclp)
    qed
  qed (use ok in \<open>simp add: source_ok_def\<close>)
qed

lemma etcd_source_answers_witness:
  "\<exists>s' u. (source_step (\<lambda>_. True))\<^sup>*\<^sup>* (source_start\<lparr>sc_caller := Requesting\<rparr>) s' \<and> sc_results s' = [u]"
proof -
  have "source_reach (\<lambda>_. True) (source_start\<lparr>sc_caller := Requesting\<rparr>)"
    by (rule source_next [OF source_init call]) (simp add: source_start_def)
  from etcd_source_answers [OF this] show ?thesis by (fastforce simp: source_start_def)
qed

end
