(* ===== verification/Server_Main.thy ===== *)
theory Server_Main
  imports Registry Election Config_Source Go_Strings
begin

text \<open>
  The server program (\<open>go/cmd/doorman/doorman_server.go\<close>): what it makes of its flags, and the loop
  that loads the configurations its source delivers. The connection to a parent, the host name,
  the TLS credentials and the decoding of a configuration (a YAML library) are arguments.
\<close>

section \<open>Start\<close>

record main_flags =
  mf_port :: int
  mf_parent :: string
  mf_hostname :: string
  mf_config :: string
  mf_tls :: bool
  mf_etcdEndpoints :: string
  mf_masterDelay :: duration
  mf_masterElectionLock :: string

datatype main_election = TrivialElection trivial | EtcdElection etcd

datatype config_source = LocalFile string | EtcdConfig string "string list"

definition getServerID :: "main_flags \<Rightarrow> string option \<Rightarrow> string" where
  "getServerID flags kernel_hostname =
     (if mf_hostname flags \<noteq> '''' then mf_hostname flags @ CHR '':'' # show_int (mf_port flags)
      else (case kernel_hostname of None \<Rightarrow> ''unknown.localhost'' | Some hn \<Rightarrow> hn) @ CHR '':'' # show_int (mf_port flags))"

text \<open>\<open>main\<close>, up to the start of its loop: the message with which it exits, or the server, the
  election it was made with, and the source of its configuration.\<close>

definition server_main :: "main_flags \<Rightarrow> string option \<Rightarrow> (string + duration) \<Rightarrow> string option \<Rightarrow> bool
    \<Rightarrow> string list \<Rightarrow> panic + (string + Server \<times> main_election \<times> config_source)" where
  "server_main flags kernel_hostname dial run_err credentials_ok registry =
     (if mf_config flags = '''' then Inr (Inl ''--config cannot be empty'')
      else
        let endpoints = split_on (CHR '','') (mf_etcdEndpoints flags);
            noEndpoints = (length endpoints = 1 \<and> endpoints ! 0 = '''');
            start = (\<lambda>election.
              bind_panic (server_New (getServerID flags kernel_hostname) (mf_parent flags) dial run_err registry) (\<lambda>r. case r of
                Inl err \<Rightarrow> Inr (Inl err)
              | Inr (dm, registered, _) \<Rightarrow>
                  if \<not> registered then Inr (Inl ''doorman.NewIntermediate'')
                  else if mf_tls flags \<and> \<not> credentials_ok then Inr (Inl ''Failed to generate credentials'')
                  else (case ParseSource (mf_config flags) of (kind, path) \<Rightarrow>
                    if kind = ''file'' then Inr (Inr (dm, election, LocalFile path))
                    else if kind = ''etcd'' then
                      (if noEndpoints then Inr (Inl ''-etcd_endpoints cannot be empty if a config source etcd is provided'')
                       else Inr (Inr (dm, election, EtcdConfig path endpoints)))
                    else Inl (PanicCall ''unreachable''))))
        in if mf_masterElectionLock flags \<noteq> '''' then
             (if noEndpoints then Inr (Inl ''-etcd_endpoints cannot be empty if -master_election_lock is provided'')
              else start (EtcdElection (Etcd endpoints (mf_masterElectionLock flags) (mf_masterDelay flags))))
           else start (TrivialElection Trivial))"

section \<open>The configuration loop\<close>

text \<open>One pass: an error of the source, or data that cannot be decoded, is skipped; an error of
  \<open>LoadConfig\<close> is only logged. \<open>run_err\<close> is what the election answers when it is started.\<close>

definition config_step :: "(string \<Rightarrow> ResourceRepository option) \<Rightarrow> string option \<Rightarrow> Server \<Rightarrow> string option
    \<Rightarrow> panic + Server" where
  "config_step unmarshal run_err dm update = (case update of
       None \<Rightarrow> Inr dm
     | Some data \<Rightarrow> (case unmarshal data of
         None \<Rightarrow> Inr dm
       | Some cfg \<Rightarrow> bind_panic (server_LoadConfig run_err dm cfg []) (\<lambda>(dm', err). Inr dm')))"

fun config_loop :: "(string \<Rightarrow> ResourceRepository option) \<Rightarrow> string option \<Rightarrow> string option list \<Rightarrow> Server
    \<Rightarrow> panic + Server" where
  "config_loop unmarshal run_err [] dm = Inr dm"
| "config_loop unmarshal run_err (u # us) dm =
     bind_panic (config_step unmarshal run_err dm u) (config_loop unmarshal run_err us)"

section \<open>Lemmas\<close>

text \<open>The configurations that the loop should load, in order.\<close>

definition valid_updates :: "(string \<Rightarrow> ResourceRepository option) \<Rightarrow> string option list \<Rightarrow> ResourceRepository list" where
  "valid_updates unmarshal us =
     filter repo_valid (List.map_filter (\<lambda>u. Option.bind u unmarshal) us)"

lemma valid_updates_Cons:
  "valid_updates unmarshal (u # us) =
     (case Option.bind u unmarshal of
        Some cfg \<Rightarrow> if repo_valid cfg then cfg # valid_updates unmarshal us else valid_updates unmarshal us
      | None \<Rightarrow> valid_updates unmarshal us)"
  by (simp add: valid_updates_def List.map_filter_simps split: option.split)

text \<open>What must hold of a configuration that is loaded into a server that has resources.\<close>

definition loadable :: "Server \<Rightarrow> ResourceRepository \<Rightarrow> bool" where
  "loadable dm cfg = (repo_serviceable cfg \<and>
     (case srv_resources dm of None \<Rightarrow> True | Some m \<Rightarrow> list_all (\<lambda>(i, a). covered (repo_Resources cfg) i) m))"

lemma config_step_skip:
  assumes "\<And>cfg. Option.bind u unmarshal = Some cfg \<Longrightarrow> \<not> repo_valid cfg"
  shows "config_step unmarshal run_err dm u = Inr dm"
proof (cases "Option.bind u unmarshal")
  case None
  then show ?thesis by (auto simp: config_step_def split: option.split)
next
  case (Some cfg)
  then have "validateResourceRepository cfg \<noteq> None" using assms by (simp add: repo_valid_iff)
  with Some show ?thesis by (auto simp: config_step_def server_LoadConfig_def split: option.split)
qed

lemma server_ok_configure:
  "server_ok dm \<Longrightarrow> srv_config dm = None \<Longrightarrow> repo_valid cfg \<Longrightarrow>
    server_ok (dm\<lparr>srv_config := Some cfg, srv_isConfigured := True, srv_handlers := n\<rparr>)"
  by (auto simp: server_ok_def addresses_ok_def)

lemma config_step_load:
  assumes "Option.bind u unmarshal = Some cfg" and "repo_valid cfg" and "server_ok dm" and "loadable dm cfg"
  shows "\<exists>heap. config_step unmarshal run_err dm u =
      Inr (dm\<lparr>srv_config := Some cfg, srv_isConfigured := True, srv_heap := heap,
        srv_handlers := srv_handlers dm + (if srv_config dm = None \<and> run_err = None then 1 else 0)\<rparr>) \<and>
    server_ok (dm\<lparr>srv_config := Some cfg, srv_isConfigured := True, srv_heap := heap,
        srv_handlers := srv_handlers dm + (if srv_config dm = None \<and> run_err = None then 1 else 0)\<rparr>)"
proof -
  obtain data where d: "u = Some data" "unmarshal data = Some cfg" using assms(1) by (auto simp: bind_eq_Some_conv)
  have step: "config_step unmarshal run_err dm u = bind_panic (server_LoadConfig run_err dm cfg []) (\<lambda>(dm', err). Inr dm')"
    by (simp add: config_step_def d)
  show ?thesis
  proof (cases "srv_config dm = None")
    case True
    show ?thesis
      unfolding step server_LoadConfig_first [OF assms(3) True assms(2)]
      using server_ok_configure [OF assms(3) True assms(2)] True by (intro exI [of _ "srv_heap dm"]) simp
  next
    case False
    then have conf: "srv_isConfigured dm" using assms(3) by (simp add: server_ok_def)
    have eq: "dm\<lparr>srv_config := Some cfg, srv_isConfigured := True, srv_heap := heap,
        srv_handlers := srv_handlers dm + (if srv_config dm = None \<and> run_err = None then 1 else 0)\<rparr> =
        dm\<lparr>srv_config := Some cfg, srv_heap := heap\<rparr>" for heap
      using conf False by simp
    have serv: "repo_serviceable cfg" using assms(4) by (simp add: loadable_def)
    have cov: "list_all (\<lambda>(i, a). covered (repo_Resources cfg) i) m" if "srv_resources dm = Some m" for m
      using assms(4) that by (simp add: loadable_def)
    obtain heap where
      "server_LoadConfig run_err dm cfg [] = Inr (dm\<lparr>srv_config := Some cfg, srv_heap := heap\<rparr>, None)"
      "server_ok (dm\<lparr>srv_config := Some cfg, srv_heap := heap\<rparr>)"
      using server_LoadConfig_next [OF assms(3) False assms(2) serv cov, of run_err "[]"] by blast
    then show ?thesis unfolding step eq by auto
  qed
qed

lemma config_loop_ok:
  assumes "server_ok dm" and "list_all (loadable dm) (valid_updates unmarshal us)"
  shows "\<exists>dm'. config_loop unmarshal run_err us dm = Inr dm' \<and> server_ok dm' \<and>
    srv_config dm' = (if valid_updates unmarshal us = [] then srv_config dm else Some (last (valid_updates unmarshal us))) \<and>
    srv_resources dm' = srv_resources dm \<and> srv_handlers dm' = srv_handlers dm +
      (if srv_config dm = None \<and> valid_updates unmarshal us \<noteq> [] \<and> run_err = None then 1 else 0)"
  using assms
proof (induction us arbitrary: dm)
  case (Cons u us)
  let ?v = "valid_updates unmarshal us"
  show ?case
  proof (cases "\<exists>cfg. Option.bind u unmarshal = Some cfg \<and> repo_valid cfg")
    case False
    then have "config_step unmarshal run_err dm u = Inr dm" by (intro config_step_skip) blast
    moreover have "valid_updates unmarshal (u # us) = ?v"
      using False by (auto simp: valid_updates_Cons split: option.split)
    ultimately show ?thesis
      using Cons.IH [OF Cons.prems(1)] Cons.prems(2) unfolding config_loop.simps by (simp only: bind_panic_simps)
  next
    case True
    then obtain cfg where cfg: "Option.bind u unmarshal = Some cfg" "repo_valid cfg" by blast
    then have v: "valid_updates unmarshal (u # us) = cfg # ?v" by (simp add: valid_updates_Cons)
    let ?n = "srv_handlers dm + (if srv_config dm = None \<and> run_err = None then 1 else 0)"
    obtain dm1 where dm1: "config_step unmarshal run_err dm u = Inr dm1" "server_ok dm1" "srv_config dm1 = Some cfg"
      "srv_resources dm1 = srv_resources dm" "srv_handlers dm1 = ?n"
      using config_step_load [OF cfg Cons.prems(1), of run_err] Cons.prems(2) by (fastforce simp: v)
    have "loadable dm1 = loadable dm" by (intro ext) (simp add: loadable_def dm1(4))
    with Cons.prems(2) have "list_all (loadable dm1) ?v" by (simp add: v)
    from Cons.IH [OF dm1(2) this] show ?thesis by (auto simp: v dm1(1,3-5))
  qed
qed (simp add: valid_updates_def List.map_filter_simps)

end
