(* ===== verification/Server_Life.thy ===== *)
theory Server_Life
  imports Server_Main Server_Rpc_Props
begin

text \<open>
  The life of a root server: configurations that its source delivers, outcomes of the election,
  new masters, and remote calls, in any order. Every event is handled in one go, except that the
  goroutines of a call for capacity are scheduled freely; what can happen when an election is
  lost inside a call is \<open>lost_mastership_panics\<close> of \<open>Server_Limits\<close>.
\<close>

section \<open>Events\<close>

datatype server_event =
    Update "string option"
  | Outcome time bool
  | MasterID string
  | CapacityCall "rpc_event list" GetCapacityRequest
  | ServerCapacityCall "rpc_event list" GetServerCapacityRequest
  | ReleaseCall ReleaseCapacityRequest

text \<open>The goroutines that follow the election run once it has been started.\<close>

definition life_step :: "(string \<Rightarrow> ResourceRepository option) \<Rightarrow> string option \<Rightarrow> server_event \<Rightarrow> Server
    \<Rightarrow> panic + Server" where
  "life_step unmarshal run_err e srv = (case e of
       Update u \<Rightarrow> config_step unmarshal run_err srv u
     | Outcome now isMaster \<Rightarrow> Inr (if 0 < srv_handlers srv then handleElectionOutcome now isMaster srv else srv)
     | MasterID i \<Rightarrow> Inr (if 0 < srv_handlers srv then handleMasterID i srv else srv)
     | CapacityCall schedule q \<Rightarrow> bind_panic (GetCapacity schedule srv q) (\<lambda>(srv', out). Inr srv')
     | ServerCapacityCall schedule q \<Rightarrow> bind_panic (GetServerCapacity schedule srv q) (\<lambda>(srv', out). Inr srv')
     | ReleaseCall q \<Rightarrow> Inr (fst (ReleaseCapacity srv q)))"

fun life_run :: "(string \<Rightarrow> ResourceRepository option) \<Rightarrow> string option \<Rightarrow> server_event list \<Rightarrow> Server
    \<Rightarrow> panic + Server" where
  "life_run unmarshal run_err [] srv = Inr srv"
| "life_run unmarshal run_err (e # es) srv =
     bind_panic (life_step unmarshal run_err e srv) (life_run unmarshal run_err es)"

text \<open>The configurations are serviceable, and no resource has a slash in its id.\<close>

definition plain_ids :: "string list \<Rightarrow> bool" where
  "plain_ids ids = list_all (\<lambda>i. sep_char \<notin> set i) ids"

definition event_ok :: "(string \<Rightarrow> ResourceRepository option) \<Rightarrow> server_event \<Rightarrow> bool" where
  "event_ok unmarshal e = (case e of
       Update u \<Rightarrow> (case Option.bind u unmarshal of None \<Rightarrow> True | Some cfg \<Rightarrow> repo_valid cfg \<longrightarrow> repo_serviceable cfg)
     | CapacityCall schedule q \<Rightarrow> plain_ids (requested q)
     | ServerCapacityCall schedule q \<Rightarrow>
         plain_ids (map (\<lambda>req. ServerCapacityResourceRequest_GetResourceId (Some req)) (gsq_Resource q))
     | _ \<Rightarrow> True)"

fun updates_of :: "server_event list \<Rightarrow> string option list" where
  "updates_of [] = []"
| "updates_of (e # es) = (case e of Update u \<Rightarrow> u # updates_of es | _ \<Rightarrow> updates_of es)"

section \<open>The invariant\<close>

definition life_ok :: "Server \<Rightarrow> bool" where
  "life_ok srv = (server_ok srv \<and> (\<forall>config. srv_config srv = Some config \<longrightarrow> repo_serviceable config) \<and>
     list_all serviceable_resource (srv_heap srv) \<and> (\<forall>i. srv_lookup srv i \<noteq> None \<longrightarrow> sep_char \<notin> set i))"

lemma life_ok_serving:
  assumes "life_ok srv" and "IsMaster srv"
  obtains config where "srv_config srv = Some config" "serving srv config" "repo_valid config"
  using assms by (auto simp: life_ok_def serving_def server_ok_def IsMaster_def split: option.splits)

lemma serving_life_ok:
  "serving srv config \<Longrightarrow> \<forall>i. srv_lookup srv i \<noteq> None \<longrightarrow> sep_char \<notin> set i \<Longrightarrow> life_ok srv"
  by (simp add: serving_def life_ok_def)

lemma plain_ids_covered: "repo_valid config \<Longrightarrow> plain_ids ids \<Longrightarrow> covers config ids"
  using covered_no_separator by (auto simp: plain_ids_def covers_def list_all_iff)

lemma getOrCreate_lookup:
  "getOrCreateResource srv i = Inr (srv', a) \<Longrightarrow> srv_lookup srv' j \<noteq> None \<Longrightarrow> srv_lookup srv j \<noteq> None \<or> j = i"
  by (auto simp: getOrCreateResource_def srv_lookup_def Let_def map_of_put split: option.splits if_splits)

lemma getCapacity_lookup:
  "getCapacity srv creqs = Inr (srv', gs) \<Longrightarrow> srv_lookup srv' j \<noteq> None \<Longrightarrow>
    srv_lookup srv j \<noteq> None \<or> j \<in> cr_resID ` set creqs"
proof (induction creqs arbitrary: srv gs)
  case (Cons creq creqs)
  then obtain srv1 a gs' where "getOrCreateResource srv (cr_resID creq) = Inr (srv1, a)"
    "getCapacity srv1 creqs = Inr (srv', gs')" by auto
  with Cons.IH Cons.prems(2) getOrCreate_lookup show ?case by fastforce
qed simp

section \<open>Every event keeps the invariant\<close>

text \<open>What a call may change.\<close>

definition same_setup :: "Server \<Rightarrow> Server \<Rightarrow> bool" where
  "same_setup srv srv' = (srv_config srv' = srv_config srv \<and> srv_handlers srv' = srv_handlers srv)"

lemma same_setup_refl [simp]: "same_setup srv srv"
  by (simp add: same_setup_def)

lemma same_setup_trans: "same_setup s1 s2 \<Longrightarrow> same_setup s2 s3 \<Longrightarrow> same_setup s1 s3"
  by (simp add: same_setup_def)

lemma getOrCreate_setup: "getOrCreateResource srv i = Inr (srv', a) \<Longrightarrow> same_setup srv srv'"
  by (auto simp: getOrCreateResource_def same_setup_def Let_def split: option.splits)

lemma getCapacity_setup: "getCapacity srv creqs = Inr (srv', gs) \<Longrightarrow> same_setup srv srv'"
proof (induction creqs arbitrary: srv gs)
  case (Cons creq creqs)
  then obtain srv1 a gs' where "getOrCreateResource srv (cr_resID creq) = Inr (srv1, a)"
    "getCapacity srv1 creqs = Inr (srv', gs')" by auto
  with Cons.IH getOrCreate_setup same_setup_trans show ?case by blast
qed simp

lemma call_run_setup:
  assumes "\<And>srv it srv' resp. collect srv it = Inr (srv', resp) \<Longrightarrow> same_setup srv srv'"
    and "call_run collect es (srv, c) = Inr (srv', c')"
  shows "same_setup srv srv'"
  using assms(2)
proof (induction es arbitrary: srv c)
  case (Cons e es)
  have "same_setup srv srv1" if "call_step collect e (srv, c) = Inr (srv1, c1)" for srv1 c1
    using that assms(1) by (cases e) (auto simp: run_goroutine_def same_setup_def heap_write_def split: if_splits prod.splits)
  with Cons same_setup_trans show ?case by fastforce
qed simp

lemma collect_item_setup: "collect_item srv it = Inr (srv', resp) \<Longrightarrow> same_setup srv srv'"
  using getOrCreate_setup by (auto simp: collect_item_def Let_def)

lemma collect_server_item_setup: "collect_server_item srv it = Inr (srv', resp) \<Longrightarrow> same_setup srv srv'"
  by (auto simp: collect_server_item_def split: option.splits)

lemma call_life:
  assumes "life_ok srv" and "plain_ids (map cr_resID creqs)"
    and "getCapacity srv creqs = Inr (srv0, gs)" and "call_run collect es (srv0, c) = Inr (srv', c')"
    and "\<And>srv it srv' resp. collect srv it = Inr (srv', resp) \<Longrightarrow> same_setup srv srv'"
    and "serving srv' config" and "srv_lookup srv' = srv_lookup srv0"
  shows "life_ok srv' \<and> same_setup srv srv'"
proof -
  have "sep_char \<notin> set i" if "srv_lookup srv' i \<noteq> None" for i
  proof -
    have "srv_lookup srv i \<noteq> None \<or> i \<in> set (map cr_resID creqs)"
      using getCapacity_lookup [OF assms(3), of i] that assms(7) by simp
    with assms(1,2) show ?thesis unfolding life_ok_def plain_ids_def list_all_iff by blast
  qed
  moreover have "same_setup srv srv'"
    by (rule same_setup_trans [OF getCapacity_setup [OF assms(3)] call_run_setup [OF _ assms(4)]]) (rule assms(5))
  ultimately show ?thesis using serving_life_ok [OF assms(6)] by blast
qed

lemma GetCapacity_life:
  assumes "life_ok srv" and "plain_ids (requested q)"
  shows "\<exists>srv' out. GetCapacity schedule srv q = Inr (srv', out) \<and> life_ok srv' \<and> same_setup srv srv'"
proof (cases "IsMaster srv")
  case False
  with assms(1) show ?thesis by (simp add: GetCapacity_def)
next
  case True
  obtain config where c: "serving srv config" "repo_valid config" by (rule life_ok_serving [OF assms(1) True])
  obtain srv0 gs where g: "getCapacity srv (client_requests q) = Inr (srv0, gs)" "serving srv0 config"
    "call_ok (\<lambda>resp. ResourceResponse_GetResourceId (Some resp)) (mset (requested q)) (srv0, new_call gs)"
    "GetCapacity schedule srv q = bind_panic (call_run collect_item schedule (srv0, new_call gs)) (\<lambda>(srv', c).
       Inr (srv', if call_returned c then Some \<lparr>gcp_Response = call_out c, gcp_Mastership = None\<rparr> else None))"
    by (rule GetCapacity_unfold [OF c(1) plain_ids_covered [OF c(2) assms(2)]]) blast
  obtain srv' c' where r: "call_run collect_item schedule (srv0, new_call gs) = Inr (srv', c')" "serving srv' config"
    "srv_lookup srv' = srv_lookup srv0"
    using client_call.run_ok [OF g(2,3)] by blast
  have "life_ok srv' \<and> same_setup srv srv'"
    by (rule call_life [OF assms(1) _ g(1) r(1) collect_item_setup r(2,3)])
      (use assms(2) in \<open>simp_all add: requested_client_requests\<close>)
  then show ?thesis using g(4) r(1) by simp
qed

lemma server_requests_ids:
  "server_requests client reqs = Some creqs \<Longrightarrow>
    map cr_resID creqs = map (\<lambda>req. ServerCapacityResourceRequest_GetResourceId (Some req)) reqs"
  by (induction reqs arbitrary: creqs) (auto split: option.splits prod.splits)

lemma GetServerCapacity_life:
  assumes "life_ok srv"
    and "plain_ids (map (\<lambda>req. ServerCapacityResourceRequest_GetResourceId (Some req)) (gsq_Resource q))"
  shows "\<exists>srv' out. GetServerCapacity schedule srv q = Inr (srv', out) \<and> life_ok srv' \<and> same_setup srv srv'"
proof (cases "IsMaster srv \<and> server_requests (GetServerCapacityRequest_GetServerId (Some q)) (gsq_Resource q) \<noteq> None")
  case False
  with assms(1) show ?thesis by (auto simp: GetServerCapacity_def)
next
  case True
  obtain config where c: "serving srv config" "repo_valid config" by (rule life_ok_serving [OF assms(1)]) (use True in auto)
  obtain creqs where creqs: "server_requests (GetServerCapacityRequest_GetServerId (Some q)) (gsq_Resource q) = Some creqs"
    using True by auto
  have plain: "plain_ids (map cr_resID creqs)" unfolding server_requests_ids [OF creqs] by (rule assms(2))
  have "list_all (\<lambda>creq. covered (repo_Resources config) (cr_resID creq)) creqs"
    using plain_ids_covered [OF c(2) plain] by (simp add: covers_def list_all_iff)
  from getCapacity_serving [OF c(1) this] obtain srv0 gs where
    g: "getCapacity srv creqs = Inr (srv0, gs)" "serving srv0 config"
    "list_all2 (\<lambda>creq (a, r). srv_lookup srv0 (cr_resID creq) = Some a \<and> r = request_of creq) creqs gs"
    by blast
  obtain srv' c' where r: "call_run collect_server_item schedule (srv0, new_call gs) = Inr (srv', c')" "serving srv' config"
    "srv_lookup srv' = srv_lookup srv0"
    using server_call.run_ok [OF g(2) call_ok_new [OF g(2,3)]] by blast
  have "life_ok srv' \<and> same_setup srv srv'"
    by (rule call_life [OF assms(1) plain g(1) r(1) collect_server_item_setup r(2,3)])
  then show ?thesis using True creqs g(1) r(1) by (simp add: GetServerCapacity_def new_call_def)
qed


lemma ReleaseCapacity_life:
  assumes "life_ok srv"
  shows "life_ok (fst (ReleaseCapacity srv q)) \<and> same_setup srv (fst (ReleaseCapacity srv q))"
proof -
  let ?loop = "\<lambda>ids. release_loop (ReleaseCapacityRequest_GetClientId (Some q)) ids srv"
  have ok: "server_ok srv" and l: "srv_lookup srv i \<noteq> None \<Longrightarrow> sep_char \<notin> set i" for i
    using assms by (simp_all add: life_ok_def)
  have frame: "srv_config (release_loop c ids s) = srv_config s \<and> srv_handlers (release_loop c ids s) = srv_handlers s \<and>
      (list_all serviceable_resource (srv_heap s) \<longrightarrow> list_all serviceable_resource (srv_heap (release_loop c ids s)))"
    for c ids s
  proof (induction c ids s rule: release_loop.induct)
    case (2 c i ids s)
    show ?case
    proof (cases "srv_lookup s i")
      case (Some a)
      have "list_all serviceable_resource ((srv_heap s)[a := (srv_heap s ! a)\<lparr>res_store := st\<rparr>])"
        if "list_all serviceable_resource (srv_heap s)" for st
        using that by (cases "a < length (srv_heap s)")
          (auto simp: list_all_length nth_list_update serviceable_resource_def list_update_beyond)
      with 2 Some show ?thesis by (simp add: heap_write_def Let_def)
    qed (use 2 in simp)
  qed simp
  show ?thesis
    using assms frame release_loop_effect [OF ok] l
    by (auto simp: ReleaseCapacity_def life_ok_def same_setup_def)
qed

lemma Outcome_life:
  assumes "life_ok srv" and "0 < srv_handlers srv"
  shows "life_ok (handleElectionOutcome now b srv) \<and> same_setup srv (handleElectionOutcome now b srv)"
  using assms server_ok_election [of srv now b]
  by (auto simp: life_ok_def same_setup_def handleElectionOutcome_def srv_lookup_def Let_def)

lemma MasterID_life:
  "life_ok srv \<Longrightarrow> life_ok (handleMasterID i srv) \<and> same_setup srv (handleMasterID i srv)"
  using server_ok_master_id [of srv i]
  by (auto simp: life_ok_def same_setup_def handleMasterID_def srv_lookup_def)


lemma reload_loop_serviceable:
  assumes "repo_serviceable config"
  shows "reload_loop ex es srv = Inr srv' \<Longrightarrow> srv_config srv = Some config \<Longrightarrow>
    list_all serviceable_resource (srv_heap srv) \<Longrightarrow> list_all serviceable_resource (srv_heap srv')"
proof (induction ex es srv rule: reload_loop.induct)
  case (2 ex i a rest srv)
  then obtain tpl res where f: "findConfigForResource srv i = Inr tpl"
    and r: "resource_LoadConfig (srv_heap srv ! a) (Some tpl) (map_of ex i) = Inr res"
    and l: "reload_loop ex rest (heap_write srv a res) = Inr srv'" by auto
  have "serviceable tpl"
    using findConfig_selected [OF "2.prems"(2) f] assms by (auto simp: repo_serviceable_def list_all_iff selected_def)
  with r have "serviceable_resource res"
    by (auto simp: resource_LoadConfig_def serviceable_resource_def Let_def)
  then have "list_all serviceable_resource (srv_heap (heap_write srv a res))"
    using "2.prems"(3) set_update_subset_insert [of "srv_heap srv" a res] by (auto simp: list_all_iff)
  with "2.IH" [OF l] "2.prems"(2) show ?case by simp
qed simp

lemma server_LoadConfig_serviceable:
  assumes "server_LoadConfig run_err srv cfg ex = Inr (srv', err)" and "repo_serviceable cfg"
    and "list_all serviceable_resource (srv_heap srv)"
  shows "list_all serviceable_resource (srv_heap srv')"
  using assms reload_loop_serviceable [OF assms(2), of ex _ "srv\<lparr>srv_config := Some cfg\<rparr>"]
  by (fastforce simp: server_LoadConfig_def triggerElection_def Let_def split: option.splits if_splits)

lemma life_ok_loadable:
  assumes "life_ok srv" and "repo_valid cfg" and "repo_serviceable cfg"
  shows "loadable srv cfg"
proof -
  have "covered (repo_Resources cfg) i" if "srv_resources srv = Some m" "(i, a) \<in> set m" for m i a
  proof -
    have "map_of m i \<noteq> None" using that(2) weak_map_of_SomeI by fastforce
    with that(1) assms(1) have "sep_char \<notin> set i" by (simp add: life_ok_def srv_lookup_def)
    with covered_no_separator [OF assms(2)] show ?thesis by blast
  qed
  with assms(3) show ?thesis by (auto simp: loadable_def list_all_iff split: option.split)
qed

lemma Update_life:
  assumes "life_ok srv" and "Option.bind u unmarshal = Some cfg" and "repo_valid cfg" and "repo_serviceable cfg"
  shows "\<exists>srv'. config_step unmarshal run_err srv u = Inr srv' \<and> life_ok srv' \<and> srv_config srv' = Some cfg \<and>
    srv_handlers srv' = srv_handlers srv + (if srv_config srv = None \<and> run_err = None then 1 else 0)"
proof -
  have ok: "server_ok srv" using assms(1) by (simp add: life_ok_def)
  let ?srv = "\<lambda>heap. srv\<lparr>srv_config := Some cfg, srv_isConfigured := True, srv_heap := heap,
    srv_handlers := srv_handlers srv + (if srv_config srv = None \<and> run_err = None then 1 else 0)\<rparr>"
  obtain heap where h: "config_step unmarshal run_err srv u = Inr (?srv heap)" "server_ok (?srv heap)"
    using config_step_load [OF assms(2,3) ok life_ok_loadable [OF assms(1,3,4)]] by blast
  obtain data where "u = Some data" "unmarshal data = Some cfg" using assms(2) by (auto simp: bind_eq_Some_conv)
  with h(1) obtain err where "server_LoadConfig run_err srv cfg [] = Inr (?srv heap, err)"
    by (auto simp: config_step_def)
  from server_LoadConfig_serviceable [OF this assms(4)] have "list_all serviceable_resource heap"
    using assms(1) by (simp add: life_ok_def)
  then have "life_ok (?srv heap)" using h(2) assms(1,4) by (simp add: life_ok_def srv_lookup_def)
  with h(1) show ?thesis by simp
qed

section \<open>The whole life\<close>

lemma life_step_other:
  assumes "life_ok srv" and "event_ok unmarshal e" and "\<And>u. e \<noteq> Update u"
  shows "\<exists>srv'. life_step unmarshal run_err e srv = Inr srv' \<and> life_ok srv' \<and> same_setup srv srv'"
proof (cases e)
  case (CapacityCall schedule q)
  then show ?thesis using GetCapacity_life [OF assms(1)] assms(2) by (fastforce simp: life_step_def event_ok_def)
next
  case (ServerCapacityCall schedule q)
  then show ?thesis using GetServerCapacity_life [OF assms(1)] assms(2) by (fastforce simp: life_step_def event_ok_def)
qed (use assms Outcome_life MasterID_life ReleaseCapacity_life in \<open>auto simp: life_step_def\<close>)

lemma life_run_ok:
  assumes "life_ok srv" and "list_all (event_ok unmarshal) es"
  shows "\<exists>srv'. life_run unmarshal run_err es srv = Inr srv' \<and> life_ok srv' \<and>
    srv_config srv' = (let loaded = valid_updates unmarshal (updates_of es)
      in if loaded = [] then srv_config srv else Some (last loaded)) \<and>
    srv_handlers srv' = srv_handlers srv +
      (if srv_config srv = None \<and> valid_updates unmarshal (updates_of es) \<noteq> [] \<and> run_err = None then 1 else 0)"
  using assms
proof (induction es arbitrary: srv)
  case Nil
  then show ?case by (simp add: valid_updates_def List.map_filter_simps)
next
  case (Cons e es)
  have rest: "list_all (event_ok unmarshal) es" using Cons.prems(2) by simp
  have same: ?case if step: "life_step unmarshal run_err e srv = Inr srv1" "life_ok srv1" "same_setup srv srv1"
    and u: "valid_updates unmarshal (updates_of (e # es)) = valid_updates unmarshal (updates_of es)" for srv1
    using Cons.IH [OF step(2) rest] step(1,3) unfolding u same_setup_def life_run.simps by (simp only: bind_panic_simps)
  show ?case
  proof (cases "\<exists>u. e = Update u")
    case False
    then obtain srv1 where "life_step unmarshal run_err e srv = Inr srv1" "life_ok srv1" "same_setup srv srv1"
      using life_step_other [OF Cons.prems(1), of unmarshal e run_err] Cons.prems(2) by auto
    moreover have "updates_of (e # es) = updates_of es" using False by (cases e) simp_all
    ultimately show ?thesis using same by simp
  next
    case True
    then obtain u where u: "e = Update u" by blast
    show ?thesis
    proof (cases "\<exists>cfg. Option.bind u unmarshal = Some cfg \<and> repo_valid cfg")
      case False
      then have "config_step unmarshal run_err srv u = Inr srv" by (intro config_step_skip) blast
      then have "life_step unmarshal run_err e srv = Inr srv" by (simp add: life_step_def u)
      moreover have "valid_updates unmarshal (updates_of (e # es)) = valid_updates unmarshal (updates_of es)"
        using False by (auto simp: u valid_updates_Cons split: option.split)
      ultimately show ?thesis using same Cons.prems(1) by simp
    next
      case True
      then obtain cfg where cfg: "Option.bind u unmarshal = Some cfg" "repo_valid cfg" by blast
      then have s: "repo_serviceable cfg" using Cons.prems(2) by (simp add: event_ok_def u)
      obtain srv1 where 1: "config_step unmarshal run_err srv u = Inr srv1" "life_ok srv1" "srv_config srv1 = Some cfg"
        "srv_handlers srv1 = srv_handlers srv + (if srv_config srv = None \<and> run_err = None then 1 else 0)"
        using Update_life [OF Cons.prems(1) cfg s] by blast
      have v: "valid_updates unmarshal (updates_of (e # es)) = cfg # valid_updates unmarshal (updates_of es)"
        using cfg by (simp add: u valid_updates_Cons)
      from Cons.IH [OF 1(2) rest] 1 show ?thesis unfolding v by (auto simp: life_step_def u Let_def)
    qed
  qed
qed

section \<open>Properties\<close>

text \<open>C6. A root server that is made and lives through a sequence of configurations, elections and calls in
  which every valid configuration is serviceable (each entry has a capacity or a safe capacity and an
  algorithm of a known kind) and no
  requested id has a slash. Such a sequence does not make it panic, and other sequences can
  (\<open>Server_Limits\<close>). At its end the server's invariant holds, its
  configuration is the last valid one it was given, and it is no master without one. If joining the
  election works (\<open>run_err\<close> is \<open>None\<close>), it has joined exactly once if it was ever given a valid configuration
  and never otherwise; if joining fails, it has never joined.\<close>

theorem server_life_safe:
  assumes "list_all (event_ok unmarshal) es"
  shows "\<exists>dm srv. NewIntermediate i '''' dial run_err = Inr (Inr dm) \<and> life_run unmarshal run_err es dm = Inr srv \<and>
    server_ok srv \<and> (IsMaster srv \<longrightarrow> srv_config srv \<noteq> None) \<and>
    srv_config srv = (let loaded = valid_updates unmarshal (updates_of es) in if loaded = [] then None else Some (last loaded)) \<and>
    srv_handlers srv = (if valid_updates unmarshal (updates_of es) \<noteq> [] \<and> run_err = None then 1 else 0)"
proof -
  obtain dm where dm: "NewIntermediate i '''' dial run_err = Inr (Inr dm)" "srv_config dm = None" "srv_handlers dm = 0"
    "life_ok dm"
    by (simp add: NewIntermediate_def life_ok_def server_ok_def addresses_ok_def srv_lookup_def)
  from life_run_ok [OF dm(4) assms, of run_err] obtain srv where
    srv: "life_run unmarshal run_err es dm = Inr srv" "life_ok srv"
    "srv_config srv = (let loaded = valid_updates unmarshal (updates_of es) in if loaded = [] then None else Some (last loaded))"
    "srv_handlers srv = (if valid_updates unmarshal (updates_of es) \<noteq> [] \<and> run_err = None then 1 else 0)"
    unfolding dm(2,3) by auto
  have "IsMaster srv \<longrightarrow> srv_config srv \<noteq> None" using life_ok_serving [OF srv(2)] by blast
  then show ?thesis using dm(1) srv by (auto simp: life_ok_def)
qed

text \<open>A life: an unreadable configuration, the first one, a won election, a request, a lost election.\<close>

definition example_unmarshal :: "string \<Rightarrow> ResourceRepository option" where
  "example_unmarshal data = (if data = ''good'' then Some example_repo else None)"

theorem server_life_safe_witness:
  "\<exists>dm srv. NewIntermediate ''s'' '''' (Inl '''') None = Inr (Inr dm) \<and>
     life_run example_unmarshal None [Update None, Update (Some ''bad''), Update (Some ''good''), Outcome 10 True,
       CapacityCall [Run 0 (example_clock 20), Recv 0] example_query, Outcome 30 False] dm = Inr srv \<and>
     srv_config srv = Some example_repo \<and> srv_handlers srv = 1"
proof -
  let ?es = "[Update None, Update (Some ''bad''), Update (Some ''good''), Outcome 10 True,
    CapacityCall [Run 0 (example_clock 20), Recv 0] example_query, Outcome 30 False]"
  have "list_all (event_ok example_unmarshal) ?es"
    using example_repo_ok
    by (simp add: event_ok_def example_unmarshal_def plain_ids_def requested_def example_query_def ask_def
        ResourceRequest_GetResourceId_def)
  moreover have "valid_updates example_unmarshal (updates_of ?es) = [example_repo]"
    using example_repo_ok by (simp add: valid_updates_Cons example_unmarshal_def) (simp add: valid_updates_def List.map_filter_simps)
  ultimately show ?thesis
    using server_life_safe [of example_unmarshal ?es "''s''" "Inl ''''" None] by (auto simp: Let_def)
qed


end
