(* ===== verification/Mastership.thy ===== *)
theory Mastership
  imports Server_Life Election
begin

text \<open>
  A server and its election together (\<open>handleElectionOutcome\<close> and \<open>handleMasterID\<close> in
  \<open>go/server/doorman/server.go\<close>, the interface \<open>Election\<close> in \<open>go/server/election/election.go\<close>). A
  server that reads \<open>true\<close> from \<open>IsMaster\<close> forgets all its resources, so it relies on elections to
  announce only changes. That is the contract of the locale \<open>election_contract\<close>; both elections of
  the program fulfil it.
\<close>

section \<open>The announcements of a candidate\<close>

text \<open>What the goroutine of a candidate sends on \<open>isMaster\<close>, for the outcomes of its calls.\<close>

fun candidate_run :: "etcd \<Rightarrow> candidate \<Rightarrow> bool list \<Rightarrow> bool list" where
  "candidate_run e c [] = []"
| "candidate_run e c (ok # oks) =
     (let (c', sent, _) = candidate_step e c ok
      in (case sent of None \<Rightarrow> [] | Some b \<Rightarrow> [b]) @ candidate_run e c' oks)"

text \<open>What the trivial election sends when it is run once.\<close>

definition trivial_outcomes :: "string \<Rightarrow> bool list" where
  "trivial_outcomes i = (case trivial_Run i Trivial of None \<Rightarrow> [] | Some e \<Rightarrow> tr_isMaster e)"

section \<open>What events other than elections keep\<close>

fun outcomes_of :: "server_event list \<Rightarrow> bool list" where
  "outcomes_of [] = []"
| "outcomes_of (e # es) = (case e of Outcome now b \<Rightarrow> b # outcomes_of es | _ \<Rightarrow> outcomes_of es)"

lemma outcomes_of_append [simp]: "outcomes_of (es @ es') = outcomes_of es @ outcomes_of es'"
  by (induction es) (simp_all split: server_event.split)

lemma life_run_append:
  "life_run unmarshal run_err (es @ es') srv = bind_panic (life_run unmarshal run_err es srv) (life_run unmarshal run_err es')"
  by (induction es arbitrary: srv) (auto simp: bind_panic_def split: sum.split)

definition keeps :: "Server \<Rightarrow> Server \<Rightarrow> bool" where
  "keeps srv srv' = (srv_isMaster srv' = srv_isMaster srv \<and> srv_becameMasterAt srv' = srv_becameMasterAt srv \<and>
     srv_handlers srv \<le> srv_handlers srv' \<and> (\<forall>i a. srv_lookup srv i = Some a \<longrightarrow> srv_lookup srv' i = Some a))"

lemma keeps_refl [simp, intro]: "keeps srv srv"
  by (simp add: keeps_def)

lemma keeps_trans: "keeps s1 s2 \<Longrightarrow> keeps s2 s3 \<Longrightarrow> keeps s1 s3"
  by (auto simp: keeps_def)

lemma keeps_heap_write [simp, intro]: "keeps srv (heap_write srv a res)"
  by (simp add: keeps_def heap_write_def srv_lookup_def)

lemma getOrCreate_keeps: "getOrCreateResource srv i = Inr (srv', a) \<Longrightarrow> keeps srv srv'"
  by (auto simp: getOrCreateResource_def keeps_def srv_lookup_def Let_def map_of_put split: option.splits)

lemma getCapacity_keeps: "getCapacity srv creqs = Inr (srv', gs) \<Longrightarrow> keeps srv srv'"
proof (induction creqs arbitrary: srv gs)
  case (Cons creq creqs)
  then obtain srv1 a gs' where "getOrCreateResource srv (cr_resID creq) = Inr (srv1, a)"
    "getCapacity srv1 creqs = Inr (srv', gs')" by auto
  with Cons.IH getOrCreate_keeps keeps_trans show ?case by blast
qed simp

lemma collect_item_keeps: "collect_item srv it = Inr (srv', resp) \<Longrightarrow> keeps srv srv'"
  using getOrCreate_keeps by (auto simp: collect_item_def Let_def)

lemma collect_server_item_keeps: "collect_server_item srv it = Inr (srv', resp) \<Longrightarrow> keeps srv srv'"
  by (auto simp: collect_server_item_def split: option.splits)

lemma call_run_keeps:
  assumes "\<And>srv it srv' resp. collect srv it = Inr (srv', resp) \<Longrightarrow> keeps srv srv'"
    and "call_run collect es (srv, c) = Inr (srv', c')"
  shows "keeps srv srv'"
  using assms(2)
proof (induction es arbitrary: srv c)
  case (Cons e es)
  have "keeps srv srv1" if "call_step collect e (srv, c) = Inr (srv1, c1)" for srv1 c1
    using that assms(1) by (cases e) (auto simp: run_goroutine_def split: if_splits prod.splits)
  with Cons keeps_trans show ?case by fastforce
qed simp

lemma release_loop_keeps: "keeps srv (release_loop c ids srv)"
proof (induction c ids srv rule: release_loop.induct)
  case (2 c i ids srv)
  then show ?case
    using keeps_trans [OF keeps_heap_write] by (cases "srv_lookup srv i") (simp_all add: Let_def)
qed simp

lemma reload_loop_keeps: "reload_loop ex es srv = Inr srv' \<Longrightarrow> keeps srv srv'"
proof (induction ex es srv rule: reload_loop.induct)
  case (2 ex i a rest srv)
  then show ?case using keeps_trans [OF keeps_heap_write] by fastforce
qed simp

lemma keeps_config [simp]: "keeps (srv\<lparr>srv_config := c\<rparr>) srv' = keeps srv srv'"
  by (simp add: keeps_def srv_lookup_def)

lemma server_LoadConfig_keeps:
  assumes "server_LoadConfig run_err srv cfg ex = Inr (srv', err)"
  shows "keeps srv srv'"
proof -
  have "keeps srv srv'" if "reload_loop ex m (srv\<lparr>srv_config := Some cfg\<rparr>) = Inr srv'" for m
    using reload_loop_keeps [OF that] by simp
  with assms show ?thesis
    by (auto simp: server_LoadConfig_def triggerElection_def keeps_def srv_lookup_def Let_def
        split: option.splits if_splits)
qed

lemma call_keeps:
  assumes "bind_panic (getCapacity srv creqs) (\<lambda>(srv1, gs).
      bind_panic (call_run collect es (srv1, new gs)) (\<lambda>(srv2, c). Inr (srv2, out c))) = Inr (srv', out')"
    and "\<And>srv it srv' resp. collect srv it = Inr (srv', resp) \<Longrightarrow> keeps srv srv'"
  shows "keeps srv srv'"
proof -
  from assms(1) obtain srv1 gs where 1: "getCapacity srv creqs = Inr (srv1, gs)"
    "bind_panic (call_run collect es (srv1, new gs)) (\<lambda>(srv2, c). Inr (srv2, out c)) = Inr (srv', out')"
    by auto
  then obtain c where "call_run collect es (srv1, new gs) = Inr (srv', c)" by auto
  from keeps_trans [OF getCapacity_keeps [OF 1(1)] call_run_keeps [OF assms(2) this]] show ?thesis .
qed

lemma GetCapacity_keeps: "GetCapacity schedule srv q = Inr (srv', out) \<Longrightarrow> keeps srv srv'"
  using call_keeps [OF _ collect_item_keeps] by (auto simp: GetCapacity_def simp del: bind_panic_Inr split: if_splits)

lemma GetServerCapacity_keeps: "GetServerCapacity schedule srv q = Inr (srv', out) \<Longrightarrow> keeps srv srv'"
  using call_keeps [OF _ collect_server_item_keeps]
  by (auto simp: GetServerCapacity_def simp del: bind_panic_Inr split: if_splits option.splits)

lemma MasterID_keeps: "keeps srv (handleMasterID i srv)"
  by (simp add: handleMasterID_def keeps_def srv_lookup_def)

lemma ReleaseCapacity_keeps: "keeps srv (fst (ReleaseCapacity srv q))"
  by (simp add: ReleaseCapacity_def release_loop_keeps)

lemma life_step_keeps:
  assumes "life_step unmarshal run_err e srv = Inr srv'" and "outcomes_of [e] = []"
  shows "keeps srv srv'"
proof (cases e)
  case (Update u)
  then show ?thesis
    using assms(1) server_LoadConfig_keeps by (auto simp: life_step_def config_step_def split: option.splits)
next
  case (CapacityCall schedule q)
  then show ?thesis
    using assms(1) GetCapacity_keeps by (auto simp: life_step_def)
next
  case (ServerCapacityCall schedule q)
  then show ?thesis
    using assms(1) GetServerCapacity_keeps by (auto simp: life_step_def)
qed (use assms MasterID_keeps ReleaseCapacity_keeps in \<open>auto simp: life_step_def\<close>)

lemma life_run_keeps:
  "life_run unmarshal run_err es srv = Inr srv' \<Longrightarrow> outcomes_of es = [] \<Longrightarrow> keeps srv srv'"
proof (induction es arbitrary: srv)
  case (Cons e es)
  then have o: "outcomes_of [e] = []" "outcomes_of es = []" by (auto split: server_event.splits)
  from Cons.prems(1) obtain srv1 where "life_step unmarshal run_err e srv = Inr srv1"
    "life_run unmarshal run_err es srv1 = Inr srv'" by auto
  with Cons.IH life_step_keeps [OF _ o(1)] keeps_trans o(2) show ?case by blast
qed simp

text \<open>A server is the master only after it has been told so, and was told nothing else since.\<close>

lemma master_told:
  assumes "life_run unmarshal run_err es dm = Inr srv" and "\<not> IsMaster dm" and "IsMaster srv"
  shows "outcomes_of es \<noteq> [] \<and> last (outcomes_of es) \<and> 0 < srv_handlers srv"
  using assms(1,3)
proof (induction es arbitrary: srv rule: rev_induct)
  case (snoc e es)
  then obtain srv1 where 1: "life_run unmarshal run_err es dm = Inr srv1" "life_step unmarshal run_err e srv1 = Inr srv"
    by (auto simp: life_run_append)
  note IH = snoc.IH [OF 1(1)]
  show ?case
  proof (cases "outcomes_of [e] = []")
    case True
    from life_step_keeps [OF 1(2) True] have "IsMaster srv1" "srv_handlers srv1 \<le> srv_handlers srv"
      using snoc.prems(2) by (simp_all add: keeps_def IsMaster_def)
    with IH True show ?thesis by simp
  next
    case False
    then obtain now b where e: "e = Outcome now b" by (cases e) simp_all
    with 1(2) snoc.prems(2) IH show ?thesis
      by (auto simp: life_step_def handleElectionOutcome_def IsMaster_def Let_def split: if_splits)
  qed
qed (use assms(2) in simp)

section \<open>The contract of an election\<close>

text \<open>Every announcement is a change; the first one announces mastership.\<close>

locale election_contract =
  fixes outcomes :: "'run \<Rightarrow> bool list"
  assumes changes: "outcomes r = xs @ b # ys \<Longrightarrow> b = (xs = [] \<or> \<not> last xs)"
begin

lemma never_told_twice:
  assumes "outcomes r = xs @ ys @ zs" and "xs \<noteq> []" and "last xs" and "False \<notin> set ys"
  shows "ys = []"
proof (cases ys)
  case (Cons b bs)
  with changes [of r xs b "bs @ zs"] assms show ?thesis by (cases b) auto
qed simp

text \<open>As long as no loss is announced, a master stays the master and keeps every resource it has.\<close>

lemma master_kept:
  assumes "outcomes r = outcomes_of (es @ es') @ rest" and "life_run unmarshal run_err es dm = Inr srv"
    and "\<not> IsMaster dm" and "IsMaster srv"
    and "life_run unmarshal run_err es' srv = Inr srv'" and "False \<notin> set (outcomes_of es')"
  shows "keeps srv srv'"
proof -
  have "outcomes_of es' = []"
    using never_told_twice [of r "outcomes_of es" "outcomes_of es'" rest] assms(1,6) master_told [OF assms(2-4)] by simp
  with life_run_keeps [OF assms(5)] show ?thesis by simp
qed

end

lemma candidate_changes:
  "candidate_run e c oks = xs @ b # ys \<Longrightarrow> b = (if xs = [] then c = Contender else \<not> last xs)"
proof (induction oks arbitrary: c xs)
  case (Cons ok oks)
  obtain c' sent sleep where s: "candidate_step e c ok = (c', sent, sleep)" by (metis prod_cases3)
  show ?case
  proof (cases sent)
    case None
    with s have "(c' = Contender) = (c = Contender)" by (cases c; cases ok) (auto simp: candidate_step_def)
    with Cons.IH [of c' xs] Cons.prems s None show ?thesis by simp
  next
    case (Some b')
    have step: "candidate_step e c ok = (c', Some b', sleep)" using s Some by simp
    have b': "b' = (c = Contender)" using step by (cases c; cases ok) (simp_all add: candidate_step_def)
    have "(c' = Contender) = (\<not> b')" using step by (cases c; cases ok) (auto simp: candidate_step_def)
    note b' = b' this
    show ?thesis
    proof (cases xs)
      case Nil
      with Cons.prems s Some b' show ?thesis by simp
    next
      case (Cons x xs')
      with Cons.prems s Some have "x = b'" "candidate_run e c' oks = xs' @ b # ys" by simp_all
      with Cons.IH [of c' xs'] b' Cons show ?thesis by auto
    qed
  qed
qed simp

interpretation etcd_election: election_contract "\<lambda>(e, oks). candidate_run e Contender oks"
proof unfold_locales
  fix r :: "etcd \<times> bool list" and xs b ys
  assume "(case r of (e, oks) \<Rightarrow> candidate_run e Contender oks) = xs @ b # ys"
  then show "b = (xs = [] \<or> \<not> last xs)"
    using candidate_changes [of "fst r" Contender "snd r" xs b ys] by (cases r) auto
qed

interpretation trivial_election: election_contract trivial_outcomes
  by unfold_locales (auto simp: trivial_outcomes_def trivial_Run_def Trivial_def Cons_eq_append_conv)

section \<open>Properties\<close>

text \<open>C19. A master keeps what it has granted: while its election has announced no loss, whatever
  configurations are loaded and whatever calls it serves, it stays the master since the same time
  and never forgets or replaces a resource. This rests on the election announcing changes only,
  because a server that is told a second time that it is the master drops all its resources.\<close>

theorem master_keeps_resources:
  assumes "candidate_run e Contender oks = outcomes_of (es @ es') @ rest"
    and "life_run unmarshal run_err es dm = Inr srv" and "\<not> IsMaster dm" and "IsMaster srv"
    and "life_run unmarshal run_err es' srv = Inr srv'" and "False \<notin> set (outcomes_of es')"
  shows "IsMaster srv' \<and> srv_becameMasterAt srv' = srv_becameMasterAt srv \<and>
    (\<forall>i a. srv_lookup srv i = Some a \<longrightarrow> srv_lookup srv' i = Some a)"
  using etcd_election.master_kept [where r = "(e, oks)", OF _ assms(2-6)] assms(1,4)
  by (auto simp: keeps_def IsMaster_def)

text \<open>A server is configured, wins the election at time 10 and gets a request; then the configuration is
  loaded again, and the goroutine of another request decides.\<close>

theorem master_keeps_resources_witness:
  "\<exists>dm srv srv'. NewIntermediate ''s'' '''' (Inl '''') None = Inr (Inr dm) \<and>
     life_run example_unmarshal None [Update (Some ''good''), Outcome 10 True, CapacityCall [] example_query] dm = Inr srv \<and>
     life_run example_unmarshal None [Update (Some ''good''), CapacityCall [Run 0 (example_clock 20)] example_query] srv = Inr srv' \<and>
     IsMaster srv' \<and> (\<forall>i a. srv_lookup srv i = Some a \<longrightarrow> srv_lookup srv' i = Some a)"
proof -
  let ?u = "[Update (Some ''good'')]" and ?c = "[CapacityCall [] example_query]"
  let ?es = "[Update (Some ''good''), Outcome 10 True, CapacityCall [] example_query]"
  let ?es' = "[Update (Some ''good''), CapacityCall [Run 0 (example_clock 20)] example_query]"
  obtain dm where dm: "NewIntermediate ''s'' '''' (Inl '''') None = Inr (Inr dm)" "srv_config dm = None"
    "srv_handlers dm = 0" "\<not> IsMaster dm" "life_ok dm"
    by (simp add: NewIntermediate_def life_ok_def server_ok_def addresses_ok_def srv_lookup_def IsMaster_def)
  have ok: "list_all (event_ok example_unmarshal) (?es @ ?es')"
    using example_repo_ok
    by (simp add: event_ok_def example_unmarshal_def plain_ids_def requested_def example_query_def ask_def
        ResourceRequest_GetResourceId_def)
  have one: "valid_updates example_unmarshal (updates_of ?u) \<noteq> []"
    using example_repo_ok by (simp add: valid_updates_Cons example_unmarshal_def)
  obtain srv1 where 1: "life_run example_unmarshal None ?u dm = Inr srv1" "life_ok srv1" "srv_handlers srv1 = 1"
    using life_run_ok [OF dm(5), of example_unmarshal ?u None] ok one dm(2,3) by auto
  define srv2 where "srv2 = handleElectionOutcome 10 True srv1"
  have 2: "life_step example_unmarshal None (Outcome 10 True) srv1 = Inr srv2" "IsMaster srv2" "life_ok srv2"
    using Outcome_life [OF 1(2), of 10 True] 1(3)
    by (simp_all add: srv2_def life_step_def handleElectionOutcome_def IsMaster_def Let_def)
  obtain srv where 3: "life_run example_unmarshal None ?c srv2 = Inr srv" "life_ok srv"
    using life_run_ok [OF 2(3), of example_unmarshal ?c None] ok by auto
  have m: "IsMaster srv" using life_run_keeps [OF 3(1)] 2(2) by (simp add: keeps_def IsMaster_def)
  have run: "life_run example_unmarshal None ?es dm = Inr srv"
    using 1(1) 2(1) 3(1) by auto
  obtain srv' where 4: "life_run example_unmarshal None ?es' srv = Inr srv'"
    using life_run_ok [OF 3(2), of example_unmarshal ?es' None] ok by auto
  have c: "candidate_run example_etcd Contender [True] = outcomes_of (?es @ ?es') @ []"
    by (simp add: candidate_step_def)
  have f: "False \<notin> set (outcomes_of ?es')" by simp
  from master_keeps_resources [OF c run dm(4) m 4 f] dm(1) run 4 show ?thesis by blast
qed

text \<open>The same server, told twice, forgets.\<close>

lemma told_twice_forgets:
  "0 < srv_handlers srv \<Longrightarrow> \<exists>srv'. life_step unmarshal run_err (Outcome now True) srv = Inr srv' \<and> IsMaster srv' \<and>
     srv_lookup srv' i = None"
  by (simp add: life_step_def handleElectionOutcome_def IsMaster_def srv_lookup_def Let_def)

end
