(* ===== verification/Client.thy ===== *)
theory Client
  imports Connection
begin

text \<open>
  The client library (\<open>go/client/doorman/client.go\<close>). Resources are shared between the
  program that claims them and the client's goroutine, so a \<open>*resourceImpl\<close> is an address into
  a heap. The channel on which a resource announces its capacity is a buffer of at most
  \<open>capacityChannelSize\<close> values and a flag that says whether it is closed. The goroutine handles
  one event at a time; the remote calls it makes are arguments (requests) and results
  (responses) of its operations.
\<close>

section \<open>State\<close>

definition capacityChannelSize :: nat where "capacityChannelSize = 32"
definition veryLongTime :: duration where "veryLongTime = 60 * Minute"

record resourceImpl =
  ri_id :: string
  ri_priority :: int64
  ri_capacity :: "f64 list"
  ri_closed :: bool
  ri_lease :: "pb_Lease option"
  ri_wants :: f64

record Client =
  cl_id :: string
  cl_Opts :: Options
  cl_resources :: "(string \<times> nat) list"
  cl_heap :: "resourceImpl list"

definition cl_write :: "Client \<Rightarrow> nat \<Rightarrow> resourceImpl \<Rightarrow> Client" where
  "cl_write client a res = client\<lparr>cl_heap := (cl_heap client)[a := res]\<rparr>"

definition NewWithID :: "string \<Rightarrow> Options \<Rightarrow> Client" where
  "NewWithID i opts = \<lparr>cl_id = i, cl_Opts = opts, cl_resources = [], cl_heap = []\<rparr>"

section \<open>Claiming and releasing resources\<close>

datatype client_error = ErrDuplicateResourceID | ErrInvalidWants

definition addResource :: "Client \<Rightarrow> nat \<Rightarrow> Client \<times> client_error option" where
  "addResource client a =
     (let i = ri_id (cl_heap client ! a)
      in if map_of (cl_resources client) i \<noteq> None then (client, Some ErrDuplicateResourceID)
         else (client\<lparr>cl_resources := map_put (cl_resources client) i a\<rparr>, None))"

definition close_capacity :: "resourceImpl \<Rightarrow> panic + resourceImpl" where
  "close_capacity res = (if ri_closed res then Inl ClosedChannel else Inr (res\<lparr>ri_closed := True\<rparr>))"

text \<open>\<open>removeResource\<close>: the client and the request to send, if any. It looks the resource up by
  its id, and closes the channel of the resource it was given.\<close>

definition removeResource :: "Client \<Rightarrow> nat \<Rightarrow> panic + Client \<times> ReleaseCapacityRequest option" where
  "removeResource client a =
     (let res = cl_heap client ! a
      in if map_of (cl_resources client) (ri_id res) = None then Inr (client, None)
         else
           let client = client\<lparr>cl_resources := map_del (cl_resources client) (ri_id res)\<rparr>
           in bind_panic (close_capacity res) (\<lambda>res'.
                Inr (cl_write client a res',
                  Some \<lparr>rcq_ClientId = Some (cl_id client), rcq_ResourceId = [ri_id res]\<rparr>)))"

text \<open>\<open>ResourceWithPriority\<close> hands out the new resource even when the client refuses it.\<close>

definition ResourceWithPriority :: "Client \<Rightarrow> string \<Rightarrow> f64 \<Rightarrow> int64 \<Rightarrow> Client \<times> nat \<times> client_error option" where
  "ResourceWithPriority client i capacity priority =
     (let a = length (cl_heap client);
          client = client\<lparr>cl_heap := cl_heap client @
            [\<lparr>ri_id = i, ri_priority = priority, ri_capacity = [], ri_closed = False, ri_lease = None,
              ri_wants = capacity\<rparr>]\<rparr>;
          (client, err) = addResource client a
      in (client, a, err))"

definition Ask :: "Client \<Rightarrow> nat \<Rightarrow> f64 \<Rightarrow> Client \<times> client_error option" where
  "Ask client a wants =
     (if wants \<le> Fin 0 then (client, Some ErrInvalidWants)
      else (cl_write client a ((cl_heap client ! a)\<lparr>ri_wants := wants\<rparr>), None))"

section \<open>Requests\<close>

definition expires :: "resourceImpl \<Rightarrow> time" where
  "expires res = Unix (Lease_GetExpiryTime (ri_lease res))"

text \<open>The request: one entry for each claimed resource.\<close>

definition capacity_request :: "Client \<Rightarrow> GetCapacityRequest" where
  "capacity_request client = \<lparr>gcq_ClientId = Some (cl_id client),
     gcq_Resource = map (\<lambda>(i, a). let res = cl_heap client ! a in
       \<lparr>rreq_ResourceId = Some i, rreq_Priority = Some (ri_priority res), rreq_Has = ri_lease res,
        rreq_Wants = Some (ri_wants res)\<rparr>) (cl_resources client)\<rparr>"

text \<open>A send on the capacity channel waits when the buffer is full: \<open>None\<close>.\<close>

definition send_capacity :: "resourceImpl \<Rightarrow> f64 \<Rightarrow> panic + resourceImpl option" where
  "send_capacity res x =
     (if ri_closed res then Inl ClosedChannel
      else if capacityChannelSize \<le> length (ri_capacity res) then Inr None
      else Inr (Some (res\<lparr>ri_capacity := ri_capacity res @ [x]\<rparr>)))"

text \<open>After an error: leases that have expired are dropped, and a capacity of zero is announced.
  \<open>None\<close> is a client that waits for the program to read from a full channel.\<close>

fun expire_loop :: "time \<Rightarrow> (string \<times> nat) list \<Rightarrow> Client \<Rightarrow> panic + Client option" where
  "expire_loop now [] client = Inr (Some client)"
| "expire_loop now ((i, a) # rest) client =
     (let res = cl_heap client ! a in
      if Before (expires res) now then
        bind_panic (send_capacity (res\<lparr>ri_lease := None\<rparr>) (Fin 0)) (\<lambda>r. case r of
            None \<Rightarrow> Inr None
          | Some res' \<Rightarrow> expire_loop now rest (cl_write client a res'))
      else expire_loop now rest client)"

text \<open>After a response: each resource in it gets its lease; a change of capacity is announced,
  unless the channel is full (the \<open>select\<close> has a default branch).\<close>

definition accept_lease :: "resourceImpl \<Rightarrow> pb_Lease option \<Rightarrow> panic + resourceImpl" where
  "accept_lease res gets =
     (let oldCapacity = (case ri_lease res of None \<Rightarrow> Fin (- 1) | Some l \<Rightarrow> Lease_GetCapacity (Some l));
          res = res\<lparr>ri_lease := gets\<rparr>
      in if \<not> feq (Lease_GetCapacity gets) oldCapacity
         then bind_panic (send_capacity res (Lease_GetCapacity gets))
           (\<lambda>r. Inr (case r of None \<Rightarrow> res | Some res' \<Rightarrow> res'))
         else Inr res)"

fun response_loop :: "ResourceResponse list \<Rightarrow> Client \<Rightarrow> panic + Client" where
  "response_loop [] client = Inr client"
| "response_loop (pr # rest) client =
     (case map_of (cl_resources client) (ResourceResponse_GetResourceId (Some pr)) of
        None \<Rightarrow> response_loop rest client
      | Some a \<Rightarrow> bind_panic (accept_lease (cl_heap client ! a) (ResourceResponse_GetGets (Some pr)))
          (\<lambda>res. response_loop rest (cl_write client a res)))"

text \<open>The shortest refresh interval of the claimed resources.\<close>

fun interval_loop :: "Client \<Rightarrow> (string \<times> nat) list \<Rightarrow> duration \<Rightarrow> duration" where
  "interval_loop client [] interval = interval"
| "interval_loop client ((i, a) # rest) interval =
     (let refresh = seconds (Lease_GetRefreshInterval (ri_lease (cl_heap client ! a)))
      in interval_loop client rest (if sint refresh < sint interval then refresh else interval))"

text \<open>
  \<open>performRequests\<close>, given the result of the remote call (\<open>None\<close> an error): the client, the
  interval until the next request (itself \<open>None\<close> where Go leaves the backoff's conversion open)
  and the next retry number. The outer option is \<open>None\<close> while the client waits on a channel.
\<close>

definition performRequests :: "time \<Rightarrow> Client \<Rightarrow> int64 \<Rightarrow> GetCapacityResponse option
    \<Rightarrow> panic + (Client \<times> duration option \<times> int64) option" where
  "performRequests now client retryNumber reply = (case reply of
       None \<Rightarrow>
         bind_panic (expire_loop now (cl_resources client) client) (\<lambda>r. Inr (case r of
             None \<Rightarrow> None
           | Some client' \<Rightarrow> Some (client', Backoff minBackoff maxBackoff retryNumber, retryNumber + 1)))
     | Some out \<Rightarrow>
         bind_panic (response_loop (gcp_Response out) client) (\<lambda>client'.
           let interval = interval_loop client' (cl_resources client') veryLongTime;
               interval = (if sint interval < sint (opt_MinimumRefreshInterval (cl_Opts client'))
                 then opt_MinimumRefreshInterval (cl_Opts client') else interval)
           in Inr (Some (client', Some interval, 0))))"

section \<open>Closing\<close>

text \<open>The loop of \<open>Close\<close> over the claimed resources: their channels are closed. The list of ids
  to release starts with as many empty strings as there are resources, and the ids are appended.\<close>

fun close_loop :: "(string \<times> nat) list \<Rightarrow> Client \<Rightarrow> string list \<Rightarrow> panic + Client \<times> string list" where
  "close_loop [] client ids = Inr (client, ids)"
| "close_loop ((i, a) # rest) client ids =
     bind_panic (close_capacity (cl_heap client ! a)) (\<lambda>res.
       close_loop rest (cl_write client a res) (ids @ [i]))"

definition client_Close :: "Client \<Rightarrow> panic + Client \<times> ReleaseCapacityRequest" where
  "client_Close client =
     bind_panic (close_loop (cl_resources client) client (replicate (length (cl_resources client)) ''''))
       (\<lambda>(client', ids). Inr (client', \<lparr>rcq_ClientId = Some (cl_id client), rcq_ResourceId = ids\<rparr>))"

section \<open>The main loop\<close>

text \<open>
  One round of \<open>run\<close>: an action of the program or the timer, and, except after a release, a
  request, for which the result of the call and the clock are given. A release makes no request
  and leaves the timer alone; otherwise the timer is set to the interval.
\<close>

datatype client_event = NewResource nat | ReleaseResource nat | WakeUp

datatype timer = KeepTimer | SetTimer "duration option"

definition run_round :: "time \<Rightarrow> GetCapacityResponse option \<Rightarrow> client_event \<Rightarrow> Client \<times> int64
    \<Rightarrow> panic + (Client \<times> int64 \<times> timer) option" where
  "run_round now reply event = (\<lambda>(client, retryCount).
     let request = (\<lambda>client'. bind_panic (performRequests now client' retryCount reply)
           (\<lambda>r. Inr (case r of None \<Rightarrow> None
              | Some (client'', interval, retryCount') \<Rightarrow> Some (client'', retryCount', SetTimer interval))))
     in (case event of
           NewResource a \<Rightarrow> request (fst (addResource client a))
         | ReleaseResource a \<Rightarrow>
             bind_panic (removeResource client a) (\<lambda>(client', req). Inr (Some (client', retryCount, KeepTimer)))
         | WakeUp \<Rightarrow> request client))"

end
