(* ===== verification/Client_Props.thy ===== *)
theory Client_Props
  imports Client Server_Rpc_Props
begin

text \<open>
  Properties of the client: its invariant, what a request and its response do to the claimed
  resources, the interval until the next request, closing, and the agreement of the client and
  the server about the leases.
\<close>

section \<open>The invariant\<close>

text \<open>The claimed resources are distinct objects with open channels, known under their own ids.\<close>

definition open_resource :: "resourceImpl \<Rightarrow> bool" where
  "open_resource res = (\<not> ri_closed res \<and> length (ri_capacity res) \<le> capacityChannelSize)"

definition client_ok :: "Client \<Rightarrow> bool" where
  "client_ok client = (distinct_keys (cl_resources client) \<and> distinct (map snd (cl_resources client))
     \<and> list_all (\<lambda>(i, a). a < length (cl_heap client) \<and> ri_id (cl_heap client ! a) = i
          \<and> open_resource (cl_heap client ! a)) (cl_resources client))"

lemma client_ok_lookup:
  assumes "client_ok client" and "map_of (cl_resources client) i = Some a"
  shows "a < length (cl_heap client)" "ri_id (cl_heap client ! a) = i" "open_resource (cl_heap client ! a)"
  using assms map_of_SomeD [OF assms(2)] by (auto simp: client_ok_def list_all_iff)

lemma client_ok_inj:
  "client_ok client \<Longrightarrow> map_of (cl_resources client) i = Some a \<Longrightarrow> map_of (cl_resources client) j = Some a \<Longrightarrow> i = j"
  using client_ok_lookup(2) by metis

lemma cl_write_simps [simp]:
  "cl_resources (cl_write client a res) = cl_resources client"
  "cl_heap (cl_write client a res) = (cl_heap client)[a := res]"
  "cl_Opts (cl_write client a res) = cl_Opts client"
  "cl_id (cl_write client a res) = cl_id client"
  by (simp_all add: cl_write_def)

lemma client_ok_write:
  assumes "client_ok client" and "ri_id res = ri_id (cl_heap client ! a)" and "open_resource res"
  shows "client_ok (cl_write client a res)"
proof -
  have "(cl_heap client)[a := res] ! b = (if b = a \<and> b < length (cl_heap client) then res else cl_heap client ! b)" for b
    by (cases "b = a"; cases "a < length (cl_heap client)") (simp_all add: list_update_beyond)
  with assms show ?thesis by (auto simp: client_ok_def list_all_iff)
qed

section \<open>Responses\<close>

lemma accept_lease_open:
  assumes "open_resource res"
  shows "\<exists>res'. accept_lease res gets = Inr res' \<and> open_resource res' \<and> ri_id res' = ri_id res \<and>
    ri_lease res' = gets \<and> ri_wants res' = ri_wants res \<and>
    ri_capacity res' = ri_capacity res @
      (if feq (Lease_GetCapacity gets) (case ri_lease res of None \<Rightarrow> Fin (- 1) | Some l \<Rightarrow> Lease_GetCapacity (Some l))
         \<or> length (ri_capacity res) = capacityChannelSize then [] else [Lease_GetCapacity gets])"
  using assms by (auto simp: accept_lease_def open_resource_def send_capacity_def Let_def)

text \<open>What the client keeps of a lease it is given, written out: the lease, and its capacity at the end of
  the channel, unless it is the old one (minus one when there was no lease) or the channel is full.\<close>

definition with_lease :: "pb_Lease option \<Rightarrow> resourceImpl \<Rightarrow> resourceImpl" where
  "with_lease gets res =
     (let old = (case ri_lease res of None \<Rightarrow> Fin (- 1) | Some l \<Rightarrow> Lease_GetCapacity (Some l));
          new = Lease_GetCapacity gets
      in res\<lparr>ri_lease := gets, ri_capacity := (if feq new old \<or> length (ri_capacity res) = 32
           then ri_capacity res else ri_capacity res @ [new])\<rparr>)"

lemma accept_lease_eq: "open_resource res \<Longrightarrow> accept_lease res gets = Inr (with_lease gets res)"
  by (auto simp: accept_lease_def with_lease_def open_resource_def send_capacity_def capacityChannelSize_def Let_def)

text \<open>What the responses with distinct ids do to a claimed resource.\<close>

definition answered :: "ResourceResponse list \<Rightarrow> string \<Rightarrow> resourceImpl \<Rightarrow> resourceImpl \<Rightarrow> bool" where
  "answered prs i res res' =
     (case find (\<lambda>pr. ResourceResponse_GetResourceId (Some pr) = i) prs of
        None \<Rightarrow> res' = res
      | Some pr \<Rightarrow> accept_lease res (rrsp_Gets pr) = Inr res')"

lemma response_loop_ok:
  assumes "client_ok client" and "distinct (map (\<lambda>pr. ResourceResponse_GetResourceId (Some pr)) prs)"
  shows "\<exists>client'. response_loop prs client = Inr client' \<and> client_ok client' \<and>
    cl_resources client' = cl_resources client \<and> cl_Opts client' = cl_Opts client \<and> cl_id client' = cl_id client \<and>
    (\<forall>i a. map_of (cl_resources client) i = Some a \<longrightarrow> answered prs i (cl_heap client ! a) (cl_heap client' ! a))"
  using assms
proof (induction prs arbitrary: client)
  case Nil
  then show ?case by (simp add: answered_def)
next
  case (Cons pr prs)
  let ?i = "ResourceResponse_GetResourceId (Some pr)"
  have nin: "find (\<lambda>pr. ResourceResponse_GetResourceId (Some pr) = ?i) prs = None"
    using Cons.prems(2) by (auto simp: find_None_iff image_iff)
  have dist: "distinct (map (\<lambda>pr. ResourceResponse_GetResourceId (Some pr)) prs)" using Cons.prems(2) by simp
  show ?case
  proof (cases "map_of (cl_resources client) ?i")
    case None
    from Cons.IH [OF Cons.prems(1) dist] None show ?thesis by (auto simp: answered_def)
  next
    case (Some a)
    note l = client_ok_lookup [OF Cons.prems(1) Some]
    obtain res where res: "accept_lease (cl_heap client ! a) (rrsp_Gets pr) = Inr res" "open_resource res"
      "ri_id res = ri_id (cl_heap client ! a)"
      using accept_lease_open [OF l(3)] by blast
    let ?c = "cl_write client a res"
    have "client_ok ?c" by (rule client_ok_write [OF Cons.prems(1) res(3,2)])
    from Cons.IH [OF this dist] obtain client' where c:
      "response_loop prs ?c = Inr client'" "client_ok client'" "cl_resources client' = cl_resources client"
      "cl_Opts client' = cl_Opts client" "cl_id client' = cl_id client"
      "\<And>j b. map_of (cl_resources client) j = Some b \<Longrightarrow> answered prs j ((cl_heap client)[a := res] ! b) (cl_heap client' ! b)"
      by auto
    have "answered (pr # prs) j (cl_heap client ! b) (cl_heap client' ! b)"
      if jb: "map_of (cl_resources client) j = Some b" for j b
    proof (cases "j = ?i")
      case True
      then have "b = a" using jb Some by simp
      with c(6) [OF jb] True res(1) nin l(1) show ?thesis by (simp add: answered_def)
    next
      case False
      then have "b \<noteq> a" using jb Some client_ok_inj [OF Cons.prems(1)] by blast
      with c(6) [OF jb] False show ?thesis by (simp add: answered_def)
    qed
    moreover have "response_loop (pr # prs) client = Inr client'"
      using Some res(1) c(1) by (simp add: ResourceResponse_GetGets_def)
    ultimately show ?thesis using c(2-5) by blast
  qed
qed

text \<open>The interval loop computes a minimum.\<close>

definition refresh_of :: "Client \<Rightarrow> nat \<Rightarrow> int" where
  "refresh_of client a = sint (seconds (Lease_GetRefreshInterval (ri_lease (cl_heap client ! a))))"

lemma interval_loop_Min:
  "sint (interval_loop client es d) = Min (insert (sint d) ((\<lambda>(i, a). refresh_of client a) ` set es))"
proof (induction client es d rule: interval_loop.induct)
  case (2 client i a rest d)
  let ?r = "seconds (Lease_GetRefreshInterval (ri_lease (cl_heap client ! a)))"
  have "sint (interval_loop client ((i, a) # rest) d) =
      Min (insert (sint (if sint ?r < sint d then ?r else d)) ((\<lambda>(i, a). refresh_of client a) ` set rest))"
    using "2.IH" by (simp add: Let_def)
  also have "sint (if sint ?r < sint d then ?r else d) = min (sint d) (refresh_of client a)"
    by (simp add: refresh_of_def min_def)
  also have "Min (insert (min (sint d) (refresh_of client a)) ((\<lambda>(i, a). refresh_of client a) ` set rest)) =
      Min (insert (sint d) (insert (refresh_of client a) ((\<lambda>(i, a). refresh_of client a) ` set rest)))"
    by (cases "rest = []") (simp_all add: min.assoc)
  finally show ?case by simp
qed simp

section \<open>Expiry\<close>

definition has_expired :: "time \<Rightarrow> resourceImpl \<Rightarrow> bool" where
  "has_expired now res = Before (expires res) now"

definition full :: "resourceImpl \<Rightarrow> bool" where
  "full res = (length (ri_capacity res) = capacityChannelSize)"

text \<open>What an error does to a claimed resource.\<close>

definition after_error :: "time \<Rightarrow> resourceImpl \<Rightarrow> resourceImpl" where
  "after_error now res = (if has_expired now res
     then res\<lparr>ri_lease := None, ri_capacity := ri_capacity res @ [Fin 0]\<rparr> else res)"

definition blocked :: "time \<Rightarrow> resourceImpl list \<Rightarrow> (string \<times> nat) list \<Rightarrow> bool" where
  "blocked now heap = list_ex (\<lambda>(i, a). has_expired now (heap ! a) \<and> full (heap ! a))"

lemma blocked_write: "a \<notin> snd ` set es \<Longrightarrow> blocked now (heap[a := x]) es = blocked now heap es"
  unfolding blocked_def by (rule list_ex_update_rest)

lemma expire_one:
  assumes "open_resource (cl_heap client ! a)" and "a < length (cl_heap client)"
  shows "expire_loop now ((i, a) # rest) client =
    (if has_expired now (cl_heap client ! a) \<and> full (cl_heap client ! a) then Inr None
     else expire_loop now rest (cl_write client a (after_error now (cl_heap client ! a))))"
  using assms by (auto simp: has_expired_def full_def after_error_def send_capacity_def open_resource_def Let_def cl_write_def)

lemma expire_loop_ok:
  assumes "list_all (\<lambda>(i, a). a < length (cl_heap client) \<and> open_resource (cl_heap client ! a)) es"
    and "distinct (map snd es)"
  shows "if blocked now (cl_heap client) es then expire_loop now es client = Inr None
    else \<exists>heap. expire_loop now es client = Inr (Some (client\<lparr>cl_heap := heap\<rparr>)) \<and>
      length heap = length (cl_heap client) \<and>
      (\<forall>a < length heap. heap ! a = (if a \<in> snd ` set es then after_error now (cl_heap client ! a) else cl_heap client ! a))"
  using assms
proof (induction es arbitrary: client)
  case Nil
  then show ?case by (auto simp: blocked_def intro: exI [of _ "cl_heap client"])
next
  case (Cons e es)
  obtain i a where e: "e = (i, a)" by force
  let ?res = "cl_heap client ! a" and ?new = "after_error now (cl_heap client ! a)"
  let ?c = "cl_write client a ?new"
  have o: "open_resource ?res" "a < length (cl_heap client)" and a: "a \<notin> snd ` set es" "distinct (map snd es)"
    using Cons.prems by (simp_all add: e)
  show ?case
  proof (cases "has_expired now ?res \<and> full ?res")
    case True
    then show ?thesis unfolding e expire_one [OF o] by (simp add: blocked_def)
  next
    case False
    have "list_all (\<lambda>(i, b). b < length (cl_heap ?c) \<and> open_resource (cl_heap ?c ! b)) es"
      using Cons.prems(1)
        list_all_update_rest [OF a(1), of "\<lambda>k b r. b < length (cl_heap client) \<and> open_resource r" "cl_heap client" ?new]
      by (simp add: e)
    from Cons.IH [OF this a(2)] have IH: "if blocked now (cl_heap client) es then expire_loop now es ?c = Inr None
      else \<exists>heap. expire_loop now es ?c = Inr (Some (?c\<lparr>cl_heap := heap\<rparr>)) \<and> length heap = length (cl_heap client) \<and>
        (\<forall>b < length heap. heap ! b = (if b \<in> snd ` set es then after_error now ((cl_heap client)[a := ?new] ! b)
           else (cl_heap client)[a := ?new] ! b))"
      unfolding cl_write_simps blocked_write [OF a(1)] length_list_update .
    have b: "blocked now (cl_heap client) (e # es) = blocked now (cl_heap client) es"
      using False by (auto simp: blocked_def e)
    have step: "expire_loop now (e # es) client = expire_loop now es ?c"
      unfolding e expire_one [OF o] using False by auto
    have eq: "?c\<lparr>cl_heap := heap\<rparr> = client\<lparr>cl_heap := heap\<rparr>" for heap by (simp add: cl_write_def)
    have val: "(if b \<in> snd ` set es then after_error now ((cl_heap client)[a := ?new] ! b) else (cl_heap client)[a := ?new] ! b) =
        (if b \<in> snd ` set (e # es) then after_error now (cl_heap client ! b) else cl_heap client ! b)" for b
      using a(1) o(2) by (cases "b = a") (simp_all add: e)
    show ?thesis unfolding b step using IH unfolding eq val .
  qed
qed

section \<open>Closing and releasing\<close>

lemma close_loop_ok:
  assumes "list_all (\<lambda>(i, a). a < length (cl_heap client) \<and> \<not> ri_closed (cl_heap client ! a)) es"
    and "distinct (map snd es)"
  shows "\<exists>client'. close_loop es client ids = Inr (client', ids @ map fst es) \<and>
    length (cl_heap client') = length (cl_heap client) \<and>
    (\<forall>a < length (cl_heap client). cl_heap client' ! a =
      (if a \<in> snd ` set es then (cl_heap client ! a)\<lparr>ri_closed := True\<rparr> else cl_heap client ! a))"
  using assms
proof (induction es arbitrary: client ids)
  case (Cons e es)
  obtain i a where e: "e = (i, a)" by force
  let ?c = "cl_write client a ((cl_heap client ! a)\<lparr>ri_closed := True\<rparr>)"
  have a: "a \<notin> snd ` set es" "distinct (map snd es)" "a < length (cl_heap client)" "\<not> ri_closed (cl_heap client ! a)"
    using Cons.prems by (simp_all add: e)
  have "list_all (\<lambda>(i, b). b < length (cl_heap ?c) \<and> \<not> ri_closed (cl_heap ?c ! b)) es"
    using Cons.prems(1)
      list_all_update_rest [OF a(1), of "\<lambda>k b r. b < length (cl_heap client) \<and> \<not> ri_closed r" "cl_heap client"]
    by (simp add: e)
  from Cons.IH [OF this a(2), of "ids @ [i]"] obtain client' where c:
    "close_loop es ?c (ids @ [i]) = Inr (client', (ids @ [i]) @ map fst es)"
    "length (cl_heap client') = length (cl_heap client)"
    "\<And>b. b < length (cl_heap client) \<Longrightarrow> cl_heap client' ! b =
      (if b \<in> snd ` set es then (cl_heap ?c ! b)\<lparr>ri_closed := True\<rparr> else cl_heap ?c ! b)"
    by auto
  have "cl_heap client' ! b = (if b \<in> snd ` set (e # es) then (cl_heap client ! b)\<lparr>ri_closed := True\<rparr> else cl_heap client ! b)"
    if "b < length (cl_heap client)" for b
    using c(3) [OF that] a(1,3) by (cases "b = a") (simp_all add: e)
  then show ?case using c(1,2) a(4) by (simp add: e close_capacity_def)
qed simp

text \<open>The client after a claimed resource has been released.\<close>

definition released :: "Client \<Rightarrow> string \<Rightarrow> nat \<Rightarrow> Client" where
  "released client i a = client\<lparr>cl_resources := map_del (cl_resources client) i,
     cl_heap := (cl_heap client)[a := (cl_heap client ! a)\<lparr>ri_closed := True\<rparr>]\<rparr>"

lemma removeResource_claimed:
  assumes "client_ok client" and "map_of (cl_resources client) i = Some a"
  shows "removeResource client a =
      Inr (released client i a, Some \<lparr>rcq_ClientId = Some (cl_id client), rcq_ResourceId = [i]\<rparr>) \<and>
    client_ok (released client i a) \<and> removeResource (released client i a) a = Inr (released client i a, None)"
proof -
  note l = client_ok_lookup [OF assms]
  let ?res = "(cl_heap client ! a)\<lparr>ri_closed := True\<rparr>"
  let ?c = "released client i a"
  have c: "?c = cl_write (client\<lparr>cl_resources := map_del (cl_resources client) i\<rparr>) a ?res"
    by (simp add: released_def cl_write_def)
  have r: "removeResource client a = Inr (?c, Some \<lparr>rcq_ClientId = Some (cl_id client), rcq_ResourceId = [i]\<rparr>)"
    using l assms(2) by (simp add: c removeResource_def close_capacity_def open_resource_def Let_def cl_write_def)
  have d: "distinct_keys (cl_resources client)" "distinct (map snd (cl_resources client))"
    using assms(1) by (simp_all add: client_ok_def)
  have sub: "set (map_del (cl_resources client) i) \<subseteq> set (cl_resources client)" by (rule set_map_del)
  have nin: "a \<notin> snd ` set (map_del (cl_resources client) i)"
  proof
    assume "a \<in> snd ` set (map_del (cl_resources client) i)"
    then obtain j where j: "(j, a) \<in> set (map_del (cl_resources client) i)" by auto
    then have "j \<noteq> i" "(j, a) \<in> set (cl_resources client)" using in_map_del_iff [OF d(1)] by auto
    then show False using assms d by (metis client_ok_inj map_of_is_SomeI)
  qed
  have "list_all (\<lambda>(j, b). b < length (cl_heap client) \<and> ri_id ((cl_heap client)[a := ?res] ! b) = j
      \<and> open_resource ((cl_heap client)[a := ?res] ! b)) (map_del (cl_resources client) i)"
    unfolding list_all_update_rest [OF nin, of "\<lambda>j b r. b < length (cl_heap client) \<and> ri_id r = j \<and> open_resource r"]
    using assms(1) sub by (auto simp: client_ok_def list_all_iff)
  moreover have "distinct (map snd (map_del (cl_resources client) i))"
    unfolding map_del_filter using d(2) by (simp add: distinct_map_filter)
  ultimately have "client_ok ?c" using d(1) by (simp add: client_ok_def distinct_keys_del released_def)
  moreover have "removeResource ?c a = Inr (?c, None)"
    using l(1,2) by (simp add: removeResource_def map_of_del Let_def released_def)
  ultimately show ?thesis using r l(1) by (auto simp: released_def)
qed

section \<open>A concrete client\<close>

definition example_client :: "f64 list \<Rightarrow> Client" where
  "example_client buffer = \<lparr>cl_id = ''b'', cl_Opts = getOptions [], cl_resources = [(''r'', 0)],
     cl_heap = [\<lparr>ri_id = ''r'', ri_priority = 1, ri_capacity = buffer, ri_closed = False, ri_lease = None,
       ri_wants = Fin 80\<rparr>]\<rparr>"

lemma example_client_ok: "length buffer \<le> 32 \<Longrightarrow> client_ok (example_client buffer)"
  by (simp add: client_ok_def example_client_def open_resource_def capacityChannelSize_def)

definition example_response :: GetCapacityResponse where
  "example_response = \<lparr>gcp_Response = [\<lparr>rrsp_ResourceId = Some ''r'',
     rrsp_Gets = Some \<lparr>pbl_ExpiryTime = Some 100, pbl_RefreshInterval = Some 7, pbl_Capacity = Some (Fin 40)\<rparr>,
     rrsp_SafeCapacity = None\<rparr>], gcp_Mastership = None\<rparr>"

lemma example_response_distinct:
  "distinct (map (\<lambda>pr. ResourceResponse_GetResourceId (Some pr)) (gcp_Response example_response))"
  by (simp add: example_response_def)

section \<open>Properties\<close>

text \<open>C26. What a response does: each claimed resource in it holds the lease it was given, and its
  new capacity is announced if it differs from the old one and the channel has room; the other
  resources are as before; the invariant is kept and nothing panics or waits. The next request is
  due after the shortest refresh interval, at most an hour, but not before the minimum interval. This
  is for a client whose invariant holds and a response in which no resource appears twice.\<close>

theorem perform_requests_response:
  assumes "client_ok client"
    and "distinct (map (\<lambda>pr. ResourceResponse_GetResourceId (Some pr)) (gcp_Response out))"
  shows "\<exists>client' interval. performRequests now client retryNumber (Some out) = Inr (Some (client', Some interval, 0)) \<and>
    client_ok client' \<and> cl_resources client' = cl_resources client \<and>
    (\<forall>i a. map_of (cl_resources client) i = Some a \<longrightarrow>
       cl_heap client' ! a =
         (let res = cl_heap client ! a in
          case find (\<lambda>pr. ResourceResponse_GetResourceId (Some pr) = i) (gcp_Response out) of
            None \<Rightarrow> res
          | Some pr \<Rightarrow>
              let old = (case ri_lease res of None \<Rightarrow> Fin (- 1) | Some l \<Rightarrow> Lease_GetCapacity (Some l));
                  new = Lease_GetCapacity (rrsp_Gets pr)
              in res\<lparr>ri_lease := rrsp_Gets pr, ri_capacity := (if feq new old \<or> length (ri_capacity res) = 32
                   then ri_capacity res else ri_capacity res @ [new])\<rparr>)) \<and>
    sint interval = max (sint (opt_MinimumRefreshInterval (cl_Opts client)))
      (Min (insert (sint veryLongTime) ((\<lambda>(i, a). refresh_of client' a) ` set (cl_resources client))))"
proof -
  obtain client' where c: "response_loop (gcp_Response out) client = Inr client'" "client_ok client'"
    "cl_resources client' = cl_resources client" "cl_Opts client' = cl_Opts client"
    "\<forall>i a. map_of (cl_resources client) i = Some a \<longrightarrow> answered (gcp_Response out) i (cl_heap client ! a) (cl_heap client' ! a)"
    using response_loop_ok [OF assms] by blast
  have h: "cl_heap client' ! a = (case find (\<lambda>pr. ResourceResponse_GetResourceId (Some pr) = i) (gcp_Response out) of
      None \<Rightarrow> cl_heap client ! a | Some pr \<Rightarrow> with_lease (rrsp_Gets pr) (cl_heap client ! a))"
    if "map_of (cl_resources client) i = Some a" for i a
    using c(5) [rule_format, OF that] accept_lease_eq [OF client_ok_lookup(3) [OF assms(1) that]]
    by (simp add: answered_def split: option.splits)
  let ?i = "interval_loop client' (cl_resources client') veryLongTime"
  let ?m = "opt_MinimumRefreshInterval (cl_Opts client)"
  have "sint (if sint ?i < sint ?m then ?m else ?i) = max (sint ?m) (sint ?i)" by (simp add: max_def)
  then show ?thesis
    using c(1-4) h unfolding with_lease_def Let_def by (auto simp: performRequests_def Let_def interval_loop_Min)
qed

theorem perform_requests_response_witness:
  "\<exists>client' interval. performRequests 50 (example_client []) 0 (Some example_response) =
      Inr (Some (client', Some interval, 0)) \<and> client_ok client' \<and>
    ri_lease (cl_heap client' ! 0) = Some \<lparr>pbl_ExpiryTime = Some 100, pbl_RefreshInterval = Some 7, pbl_Capacity = Some (Fin 40)\<rparr> \<and>
    ri_capacity (cl_heap client' ! 0) = [Fin 40]"
proof -
  have m: "map_of (cl_resources (example_client [])) ''r'' = Some 0" by (simp add: example_client_def)
  obtain client' interval where c: "performRequests 50 (example_client []) 0 (Some example_response) =
      Inr (Some (client', Some interval, 0))" "client_ok client'"
    "\<forall>i a. map_of (cl_resources (example_client [])) i = Some a \<longrightarrow> cl_heap client' ! a =
         (let res = cl_heap (example_client []) ! a in
          case find (\<lambda>pr. ResourceResponse_GetResourceId (Some pr) = i) (gcp_Response example_response) of
            None \<Rightarrow> res
          | Some pr \<Rightarrow>
              let old = (case ri_lease res of None \<Rightarrow> Fin (- 1) | Some l \<Rightarrow> Lease_GetCapacity (Some l));
                  new = Lease_GetCapacity (rrsp_Gets pr)
              in res\<lparr>ri_lease := rrsp_Gets pr, ri_capacity := (if feq new old \<or> length (ri_capacity res) = 32
                   then ri_capacity res else ri_capacity res @ [new])\<rparr>)"
    using perform_requests_response [OF example_client_ok example_response_distinct, of "[]" 50 0] by auto
  from c(3) [rule_format, OF m] c(1,2) show ?thesis
    by (simp add: example_response_def example_client_def ResourceResponse_GetResourceId_def Lease_GetCapacity_def Let_def)
qed

text \<open>What an error does: the leases that have expired are dropped and a capacity of zero is
  announced for them, everything else stays, and the next request is due after a backoff between
  one second and one minute. The client's goroutine waits, instead, exactly if the channel of a
  resource with an expired lease is full.\<close>

lemma perform_requests_error:
  assumes "client_ok client" and "0 \<le> sint retryNumber"
  shows "if blocked now (cl_heap client) (cl_resources client)
    then performRequests now client retryNumber None = Inr None
    else \<exists>heap interval. performRequests now client retryNumber None =
        Inr (Some (client\<lparr>cl_heap := heap\<rparr>, Some interval, retryNumber + 1)) \<and>
      (\<forall>i a. map_of (cl_resources client) i = Some a \<longrightarrow> heap ! a = after_error now (cl_heap client ! a)) \<and>
      sint Second \<le> sint interval \<and> sint interval \<le> sint Minute"
proof -
  have l: "list_all (\<lambda>(i, a). a < length (cl_heap client) \<and> open_resource (cl_heap client ! a)) (cl_resources client)"
    and d: "distinct (map snd (cl_resources client))"
    using assms(1) by (auto simp: client_ok_def list_all_iff)
  obtain interval where b: "Backoff minBackoff maxBackoff retryNumber = Some interval"
    "sint Second \<le> sint interval" "sint interval \<le> sint Minute"
    using std.delay_defined [OF assms(2)] std.delay_bounds [OF assms(2)]
    unfolding minBackoff_def maxBackoff_def by blast
  show ?thesis
  proof (cases "blocked now (cl_heap client) (cl_resources client)")
    case True
    with expire_loop_ok [OF l d, of now] show ?thesis by (simp add: performRequests_def)
  next
    case False
    with expire_loop_ok [OF l d, of now] obtain heap where
      h: "expire_loop now (cl_resources client) client = Inr (Some (client\<lparr>cl_heap := heap\<rparr>))"
      "length heap = length (cl_heap client)"
      "\<forall>a < length heap. heap ! a = (if a \<in> snd ` set (cl_resources client) then after_error now (cl_heap client ! a) else cl_heap client ! a)"
      by auto
    have "heap ! a = after_error now (cl_heap client ! a)" if "map_of (cl_resources client) i = Some a" for i a
      using h(2,3) client_ok_lookup(1) [OF assms(1) that] map_of_SomeD [OF that] by force
    with False h(1) b show ?thesis by (auto simp: performRequests_def)
  qed
qed

lemma perform_requests_error_witness:
  "performRequests 50 (example_client (replicate 32 (Fin 1))) 3 None = Inr None"
  using perform_requests_error [OF example_client_ok, of "replicate 32 (Fin 1)" 3 50]
  by (simp add: blocked_def example_client_def has_expired_def full_def capacityChannelSize_def expires_def
      Lease_GetExpiryTime_def Unix_def Before_def)

text \<open>Client and server agree: when the client's request is served by a master, under any
  schedule of the server's goroutines, and the response arrives, every resource the client has
  claimed holds exactly the lease that the server has recorded for this client.\<close>

lemma client_server_agree:
  assumes "client_ok client" and "serving srv config"
    and "covers config (map fst (cl_resources client))"
    and "GetCapacity schedule srv (capacity_request client) = Inr (srv', Some out)"
  shows "\<exists>client' interval. performRequests now client retryNumber (Some out) = Inr (Some (client', Some interval, 0)) \<and>
    (\<forall>i a. map_of (cl_resources client) i = Some a \<longrightarrow>
       (\<exists>b l. srv_lookup srv' i = Some b \<and>
          map_of (ls_leases (res_store (srv_heap srv' ! b))) (cl_id client) = Some l \<and>
          ri_lease (cl_heap client' ! a) = Some (lease_to_pb l)))"
proof -
  let ?id = "\<lambda>pr. ResourceResponse_GetResourceId (Some pr)"
  have req: "requested (capacity_request client) = map fst (cl_resources client)"
    by (simp add: requested_def capacity_request_def ResourceRequest_GetResourceId_def case_prod_unfold Let_def)
  have cov: "covers config (requested (capacity_request client))" and dist: "distinct (requested (capacity_request client))"
    using assms(1,3) by (simp_all add: req client_ok_def)
  have ids: "mset (map ?id (gcp_Response out)) = mset (map fst (cl_resources client))"
    using GetCapacity_ok [OF assms(2) cov, of schedule] assms(4) by (simp add: req)
  then have dist': "distinct (map ?id (gcp_Response out))"
    using assms(1) by (metis client_ok_def mset_eq_imp_distinct_iff)
  obtain client' interval where c: "performRequests now client retryNumber (Some out) = Inr (Some (client', Some interval, 0))"
    "\<And>i a. map_of (cl_resources client) i = Some a \<Longrightarrow> answered (gcp_Response out) i (cl_heap client ! a) (cl_heap client' ! a)"
  proof -
    obtain client' where "response_loop (gcp_Response out) client = Inr client'"
      "\<forall>i a. map_of (cl_resources client) i = Some a \<longrightarrow> answered (gcp_Response out) i (cl_heap client ! a) (cl_heap client' ! a)"
      using response_loop_ok [OF assms(1) dist'] by blast
    then show thesis by (intro that) (auto simp: performRequests_def Let_def)
  qed
  have P: "list_all (\<lambda>r. \<exists>b l. srv_lookup srv' (?id r) = Some b \<and>
      map_of (ls_leases (res_store (srv_heap srv' ! b))) (cl_id client) = Some l \<and>
      rrsp_Gets r = Some (lease_to_pb l)) (gcp_Response out)"
    using GetCapacity_recorded [OF assms(2) cov dist assms(4)]
    by (simp add: capacity_request_def GetCapacityRequest_GetClientId_def)
  have "\<exists>b l. srv_lookup srv' i = Some b \<and> map_of (ls_leases (res_store (srv_heap srv' ! b))) (cl_id client) = Some l \<and>
      ri_lease (cl_heap client' ! a) = Some (lease_to_pb l)" if ia: "map_of (cl_resources client) i = Some a" for i a
  proof -
    have "i \<in> set (map ?id (gcp_Response out))"
      using map_of_SomeD [OF ia] mset_eq_setD [OF ids] by force
    then obtain pr where pr: "find (\<lambda>pr. ?id pr = i) (gcp_Response out) = Some pr"
      by (auto simp: find_None_iff dest!: not_Some_eq [THEN iffD1, rotated] intro: ccontr)
        (metis (mono_tags, lifting) find_None_iff option.exhaust)
    then have "pr \<in> set (gcp_Response out)" "?id pr = i" by (auto dest: find_Some_nth simp: find_Some_iff)
    then obtain b l where "srv_lookup srv' i = Some b"
      "map_of (ls_leases (res_store (srv_heap srv' ! b))) (cl_id client) = Some l" "rrsp_Gets pr = Some (lease_to_pb l)"
      using P by (auto simp: list_all_iff)
    moreover have "ri_lease (cl_heap client' ! a) = rrsp_Gets pr"
      using c(2) [OF ia] pr accept_lease_open [OF client_ok_lookup(3) [OF assms(1) ia], of "rrsp_Gets pr"]
      by (auto simp: answered_def)
    ultimately show ?thesis by auto
  qed
  with c(1) show ?thesis by blast
qed

text \<open>Releasing a claimed resource: it is no longer claimed, its channel is closed, and the
  server is asked to release exactly this resource for this client. Releasing it again, before
  its id is claimed anew, has no effect.\<close>

lemma release_once:
  assumes "client_ok client" and "map_of (cl_resources client) i = Some a"
  shows "\<exists>client'. removeResource client a =
      Inr (client', Some \<lparr>rcq_ClientId = Some (cl_id client), rcq_ResourceId = [i]\<rparr>) \<and>
    client_ok client' \<and> cl_resources client' = map_del (cl_resources client) i \<and>
    ri_closed (cl_heap client' ! a) \<and> removeResource client' a = Inr (client', None)"
  using removeResource_claimed [OF assms] client_ok_lookup(1) [OF assms] by (auto simp: released_def)

lemma release_once_witness:
  "\<exists>client'. removeResource (example_client []) 0 =
     Inr (client', Some \<lparr>rcq_ClientId = Some ''b'', rcq_ResourceId = [''r'']\<rparr>) \<and> cl_resources client' = []"
  using release_once [OF example_client_ok, of "[]" "''r''" 0] by (auto simp: example_client_def)

text \<open>But a resource object that was released stays usable, and releasing it once more after
  its id has been claimed again closes its channel for the second time: the client panics. Here
  the program releases a resource, claims the id again and releases the first object again.\<close>

lemma release_twice_panics:
  "\<exists>client1 client2 a2. removeResource (example_client []) 0 =
      Inr (client1, Some \<lparr>rcq_ClientId = Some ''b'', rcq_ResourceId = [''r'']\<rparr>) \<and>
     ResourceWithPriority client1 ''r'' (Fin 10) 0 = (client2, a2, None) \<and>
     removeResource client2 0 = Inl ClosedChannel"
  by (simp add: removeResource_def example_client_def close_capacity_def ResourceWithPriority_def addResource_def
      cl_write_def Let_def)

text \<open>Closing the client closes the channel of every claimed resource and asks the server to
  release them all; the list of ids in the request starts with one empty id per resource.\<close>

lemma close_releases_all:
  assumes "client_ok client"
  shows "\<exists>client'. client_Close client = Inr (client', \<lparr>rcq_ClientId = Some (cl_id client),
      rcq_ResourceId = replicate (length (cl_resources client)) '''' @ map fst (cl_resources client)\<rparr>) \<and>
    (\<forall>i a. map_of (cl_resources client) i = Some a \<longrightarrow> ri_closed (cl_heap client' ! a))"
proof -
  have l: "list_all (\<lambda>(i, a). a < length (cl_heap client) \<and> \<not> ri_closed (cl_heap client ! a)) (cl_resources client)"
    and d: "distinct (map snd (cl_resources client))"
    using assms by (auto simp: client_ok_def list_all_iff open_resource_def)
  let ?e = "replicate (length (cl_resources client)) ''''"
  obtain client' where c: "close_loop (cl_resources client) client ?e = Inr (client', ?e @ map fst (cl_resources client))"
    "\<And>a. a < length (cl_heap client) \<Longrightarrow> cl_heap client' ! a =
      (if a \<in> snd ` set (cl_resources client) then (cl_heap client ! a)\<lparr>ri_closed := True\<rparr> else cl_heap client ! a)"
    using close_loop_ok [OF l d, of ?e] by blast
  have "ri_closed (cl_heap client' ! a)" if "map_of (cl_resources client) i = Some a" for i a
    using c(2) [OF client_ok_lookup(1) [OF assms that]] map_of_SomeD [OF that] by force
  then show ?thesis using c(1) by (auto simp: client_Close_def)
qed

lemma close_releases_all_witness:
  "\<exists>client'. client_Close (example_client []) = Inr (client', \<lparr>rcq_ClientId = Some ''b'', rcq_ResourceId = ['''', ''r'']\<rparr>)"
  using close_releases_all [OF example_client_ok, of "[]"] by (auto simp: example_client_def)

end
