(* ===== verification/Cluster.thy ===== *)
theory Cluster
  imports Client_Props
begin

text \<open>
  Clients, connections and servers together: the remote calls of the client and of an
  intermediate server (\<open>getCapacity\<close> and \<open>releaseCapacity\<close> in \<open>go/client/doorman/client.go\<close>,
  \<open>getCapacityRPC\<close> in \<open>go/server/doorman/server.go\<close>) go through \<open>ExecuteRPC\<close> to whichever server
  is at the other end. A cluster says which server, in which state and under which schedule of
  its goroutines, answers the \<open>n\<close>-th interaction at an address.
\<close>

section \<open>The calls\<close>

type_synonym cluster = "nat \<Rightarrow> string \<Rightarrow> Server \<times> rpc_event list"

text \<open>A server that panics, or whose handler never returns, gives an error.\<close>

definition rpc_answer :: "panic + Server \<times> 'out option \<Rightarrow> 'out reply" where
  "rpc_answer r = (case r of Inr (srv, Some out) \<Rightarrow> RpcReply out | _ \<Rightarrow> RpcError)"

definition client_getCapacity :: "(nat \<Rightarrow> string \<Rightarrow> bool) \<Rightarrow> cluster \<Rightarrow> nat \<Rightarrow> Connection \<Rightarrow> nat \<Rightarrow> GetCapacityRequest
    \<Rightarrow> GetCapacityResponse reply \<times> loop + loop" where
  "client_getCapacity dial cluster fuel c n q =
     runMasterAware gcp_Mastership
       (dial, \<lambda>k a. rpc_answer (case cluster k a of (srv, schedule) \<Rightarrow> GetCapacity schedule srv q)) fuel c n"

definition client_releaseCapacity :: "(nat \<Rightarrow> string \<Rightarrow> bool) \<Rightarrow> cluster \<Rightarrow> nat \<Rightarrow> Connection \<Rightarrow> nat \<Rightarrow> ReleaseCapacityRequest
    \<Rightarrow> ReleaseCapacityResponse reply \<times> loop + loop" where
  "client_releaseCapacity dial cluster fuel c n q =
     runMasterAware rcp_Mastership (dial, \<lambda>k a. RpcReply (snd (ReleaseCapacity (fst (cluster k a)) q))) fuel c n"

definition getCapacityRPC :: "(nat \<Rightarrow> string \<Rightarrow> bool) \<Rightarrow> cluster \<Rightarrow> nat \<Rightarrow> Connection \<Rightarrow> nat \<Rightarrow> GetServerCapacityRequest
    \<Rightarrow> GetServerCapacityResponse reply \<times> loop + loop" where
  "getCapacityRPC dial cluster fuel c n q =
     runMasterAware gsp_Mastership
       (dial, \<lambda>k a. case cluster k a of (srv, schedule) \<Rightarrow>
          (case GetServerCapacity schedule srv q of
             Inr (srv', Inr (Some out)) \<Rightarrow> RpcReply out
           | _ \<Rightarrow> RpcError)) fuel c n"

section \<open>Stable clusters\<close>

text \<open>From interaction \<open>N\<close> on: every dial works, the server at \<open>m\<close> serves and its handlers return, and
  every other server knows that \<open>m\<close> is the master.\<close>

definition stable :: "(nat \<Rightarrow> string \<Rightarrow> bool) \<Rightarrow> cluster \<Rightarrow> nat \<Rightarrow> string \<Rightarrow> ResourceRepository \<Rightarrow> GetCapacityRequest \<Rightarrow> bool" where
  "stable dial cluster N m config q = (m \<noteq> '''' \<and> (\<forall>n \<ge> N. \<forall>a. dial n a \<and>
     (if a = m then serving (fst (cluster n a)) config \<and>
        (\<exists>srv' out. GetCapacity (snd (cluster n a)) (fst (cluster n a)) q = Inr (srv', Some out))
      else \<not> IsMaster (fst (cluster n a)) \<and> CurrentMaster (fst (cluster n a)) = m)))"

lemma stable_master:
  assumes "stable dial cluster N m config q" and "N \<le> n"
  shows "serving (fst (cluster n m)) config"
    and "\<exists>srv' out. GetCapacity (snd (cluster n m)) (fst (cluster n m)) q = Inr (srv', Some out)"
  using assms unfolding stable_def by (metis (no_types, lifting))+

lemma stable_other:
  assumes "stable dial cluster N m config q" and "N \<le> n" and "a \<noteq> m"
  shows "\<not> IsMaster (fst (cluster n a)) \<and> CurrentMaster (fst (cluster n a)) = m"
  using assms unfolding stable_def by (metis (no_types, lifting))

lemma stable_good:
  assumes "stable dial cluster N m config q" and "covers config (requested q)"
  shows "good_net gcp_Mastership
    (dial, \<lambda>k a. rpc_answer (case cluster k a of (srv, schedule) \<Rightarrow> GetCapacity schedule srv q)) N m"
  unfolding good_net_def prod.case
proof (intro conjI allI impI)
  show m: "m \<noteq> ''''" using assms(1) by (simp add: stable_def)
  fix n a assume n: "N \<le> n"
  obtain srv schedule where c: "cluster n a = (srv, schedule)" by force
  show "dial n a" using assms(1) n by (simp add: stable_def)
  show "\<exists>out. rpc_answer (case cluster n a of (srv, schedule) \<Rightarrow> GetCapacity schedule srv q) = RpcReply out \<and>
      gcp_Mastership out = (if a = m then None else Some \<lparr>ms_MasterAddress = Some m\<rparr>)"
  proof (cases "a = m")
    case True
    with stable_master [OF assms(1) n] c obtain srv' out where
      s: "serving srv config" "GetCapacity schedule srv q = Inr (srv', Some out)" by fastforce
    obtain out' where "Inr (srv', Some out) = Inr (srv', out')" "case out' of None \<Rightarrow> True | Some resp \<Rightarrow> gcp_Mastership resp = None"
      using GetCapacity_ok [OF s(1) assms(2), of schedule] unfolding s(2) by (auto split: option.splits)
    then have "gcp_Mastership out = None" by auto
    with s(2) True c show ?thesis by (simp add: rpc_answer_def)
  next
    case False
    have "\<not> IsMaster srv" "CurrentMaster srv = m" using stable_other [OF assms(1) n False] c by simp_all
    with False c m show ?thesis by (simp add: GetCapacity_def rpc_answer_def redirect_def Let_def)
  qed
qed

lemma good_run_direct:
  assumes "good_net mastership (dial, rpc) N m" and "N \<le> n"
  shows "\<exists>out s k. runMasterAware mastership (dial, rpc) 2 c n = Inl (RpcReply out, s) \<and> n \<le> k \<and> rpc k m = RpcReply out \<and>
    mastership out = None \<and> lp_sleeps s = [] \<and> cn_currentMaster (lp_conn s) = m"
proof -
  have m: "m \<noteq> ''''" using assms(1) by (simp add: good_net_def)
  have d: "dial k a" if "n \<le> k" for k a using assms that by (simp add: good_net_def)
  have c: "\<exists>out. rpc k a = RpcReply out \<and> mastership out = (if a = m then None else Some \<lparr>ms_MasterAddress = Some m\<rparr>)"
    if "n \<le> k" for k a using assms that by (simp add: good_net_def)
  define a where "a = (if cn_conn c then cn_currentMaster c else cn_addr c)"
  define k where "k = (if cn_conn c then n else n + 1)"
  obtain out where out: "rpc k a = RpcReply out" "mastership out = (if a = m then None else Some \<lparr>ms_MasterAddress = Some m\<rparr>)"
    using c [of k a] unfolding k_def by (cases "cn_conn c") auto
  let ?s = "\<lparr>lp_conn = c, lp_net = n, lp_retries = 0, lp_sleeps = [], lp_noSleep = False\<rparr>"
  have dk: "dial n (cn_addr c)" "dial (Suc k) m" "dial k m" by (auto intro!: d simp: k_def)
  show ?thesis
  proof (cases "a = m")
    case True
    obtain s where s: "loop_step mastership (dial, rpc) ?s = Inl (RpcReply out, s)" "lp_sleeps s = []" "cn_currentMaster (lp_conn s) = m"
      using True out dk
      by (cases "cn_conn c") (auto simp: loop_step_def before_retry_def Let_def a_def k_def)
    moreover have "n \<le> k" by (simp add: k_def)
    moreover have "runMasterAware mastership (dial, rpc) 2 c n = Inl (RpcReply out, s)"
      using s(1) by (simp add: runMasterAware_def numeral_2_eq_2)
    ultimately show ?thesis using out True by auto
  next
    case False
    obtain s1 where 1: "loop_step mastership (dial, rpc) ?s = Inr s1" "cn_conn (lp_conn s1)" "cn_currentMaster (lp_conn s1) = m"
      "lp_noSleep s1" "lp_sleeps s1 = []" "n \<le> lp_net s1"
      using False out dk m
      by (cases "cn_conn c") (auto simp: loop_step_def before_retry_def Let_def a_def k_def)
    obtain out1 where o1: "rpc (lp_net s1) m = RpcReply out1" "mastership out1 = None" using c [OF 1(6), of m] by auto
    with 1 have "\<exists>s. loop_step mastership (dial, rpc) s1 = Inl (RpcReply out1, s) \<and> lp_sleeps s = [] \<and> cn_currentMaster (lp_conn s) = m"
      by (simp add: loop_step_def before_retry_def Let_def)
    with 1(1,6) o1 show ?thesis
      by (intro exI [of _ out1] exI [of _ "lp_net s1"]) (auto simp: runMasterAware_def numeral_2_eq_2)
  qed
qed

lemma requested_capacity_request: "requested (capacity_request client) = map fst (cl_resources client)"
  by (simp add: requested_def capacity_request_def ResourceRequest_GetResourceId_def case_prod_unfold Let_def)

section \<open>Properties\<close>

text \<open>C4. From the client's request to the server's books: on a stable cluster, wherever the client is
  connected, its request is answered after at most two passes and without a sleep by the master,
  and afterwards every resource that the client claims holds exactly the lease that the master
  has recorded for it.\<close>

theorem cluster_round:
  assumes "client_ok client" and "covers config (map fst (cl_resources client))"
    and "stable dial cluster N m config (capacity_request client)" and "N \<le> n"
  shows "\<exists>out s k srv' client' interval.
    client_getCapacity dial cluster 2 c n (capacity_request client) = Inl (RpcReply out, s) \<and> lp_sleeps s = [] \<and>
    cn_currentMaster (lp_conn s) = m \<and> n \<le> k \<and>
    GetCapacity (snd (cluster k m)) (fst (cluster k m)) (capacity_request client) = Inr (srv', Some out) \<and>
    performRequests now client retryNumber (Some out) = Inr (Some (client', Some interval, 0)) \<and>
    (\<forall>i a. map_of (cl_resources client) i = Some a \<longrightarrow>
       (\<exists>b l. srv_lookup srv' i = Some b \<and>
          map_of (ls_leases (res_store (srv_heap srv' ! b))) (cl_id client) = Some l \<and>
          ri_lease (cl_heap client' ! a) = Some (lease_to_pb l)))"
proof -
  have cov: "covers config (requested (capacity_request client))"
    using assms(2) by (simp only: requested_capacity_request)
  obtain out s k where r: "client_getCapacity dial cluster 2 c n (capacity_request client) = Inl (RpcReply out, s)" "lp_sleeps s = []"
    "cn_currentMaster (lp_conn s) = m" "n \<le> k"
    "rpc_answer (case cluster k m of (srv, schedule) \<Rightarrow> GetCapacity schedule srv (capacity_request client)) = RpcReply out"
    using good_run_direct [OF stable_good [OF assms(3) cov] assms(4), of c] unfolding client_getCapacity_def by blast
  obtain srv' where g: "GetCapacity (snd (cluster k m)) (fst (cluster k m)) (capacity_request client) = Inr (srv', Some out)"
    using r(5) unfolding rpc_answer_def case_prod_unfold
    by (cases "GetCapacity (snd (cluster k m)) (fst (cluster k m)) (capacity_request client)") (auto split: option.splits)
  have "serving (fst (cluster k m)) config"
    using stable_master(1) [OF assms(3)] assms(4) r(4) by simp
  from client_server_agree [OF assms(1) this assms(2) g, of now retryNumber] obtain client' interval where
    "performRequests now client retryNumber (Some out) = Inr (Some (client', Some interval, 0))"
    "\<forall>i a. map_of (cl_resources client) i = Some a \<longrightarrow>
       (\<exists>b l. srv_lookup srv' i = Some b \<and> map_of (ls_leases (res_store (srv_heap srv' ! b))) (cl_id client) = Some l \<and>
          ri_lease (cl_heap client' ! a) = Some (lease_to_pb l))"
    by (elim exE conjE)
  with r(1-4) g show ?thesis by (intro exI conjI)
qed

text \<open>Two servers; the client is connected to the one that is not the master.\<close>

definition example_cluster :: cluster where
  "example_cluster = (\<lambda>n a. if a = ''m'' then (example_master, [Run 0 (example_clock 40), Recv 0])
     else (example_master\<lparr>srv_isMaster := False, srv_currentMaster := ''m''\<rparr>, []))"

lemma example_cluster_stable:
  "stable (\<lambda>n a. True) example_cluster 0 ''m'' example_repo (capacity_request (example_client []))"
proof -
  have q: "capacity_request (example_client []) = example_query"
    by (simp add: capacity_request_def example_client_def example_query_def ask_def)
  show ?thesis
    unfolding q stable_def using example_server_serving(2) example_call
    by (auto simp: example_cluster_def IsMaster_def CurrentMaster_def)
qed

theorem cluster_round_witness:
  "\<exists>out s k srv' client' b l.
     client_getCapacity (\<lambda>n a. True) example_cluster 2 example_connection 7 (capacity_request (example_client [])) = Inl (RpcReply out, s) \<and>
     cn_currentMaster (lp_conn s) = ''m'' \<and> (7 :: nat) \<le> k \<and>
     map_of (ls_leases (res_store (srv_heap (srv' :: Server) ! b))) ''b'' = Some l \<and> ri_lease (cl_heap (client' :: Client) ! 0) = Some (lease_to_pb l)"
proof -
  have cov: "covers example_repo (map fst (cl_resources (example_client [])))"
    by (simp add: covers_def example_client_def example_covered)
  have m: "map_of (cl_resources (example_client [])) ''r'' = Some 0" "cl_id (example_client []) = ''b''"
    by (simp_all add: example_client_def)
  have ok: "client_ok (example_client [])" by (rule example_client_ok) simp
  have le: "0 \<le> (7 :: nat)" by simp
  obtain out s k srv' client' where r:
    "client_getCapacity (\<lambda>n a. True) example_cluster 2 example_connection 7 (capacity_request (example_client [])) = Inl (RpcReply out, s)"
    "cn_currentMaster (lp_conn s) = ''m''" "(7 :: nat) \<le> k"
    "\<forall>i a. map_of (cl_resources (example_client [])) i = Some a \<longrightarrow>
       (\<exists>b l. srv_lookup srv' i = Some b \<and>
          map_of (ls_leases (res_store (srv_heap srv' ! b))) (cl_id (example_client [])) = Some l \<and>
          ri_lease (cl_heap (client' :: Client) ! a) = Some (lease_to_pb l))"
    using cluster_round [OF ok cov example_cluster_stable le, of example_connection 50 0] by blast
  with m show ?thesis by (metis (no_types, lifting))
qed

end
