(* ===== verification/Client_Api.thy ===== *)
theory Client_Api
  imports Client_Props Go_Strings
begin

text \<open>
  What a program calls of the client library (\<open>go/client/doorman/client.go\<close>): \<open>New\<close>, which makes up
  an id for the client, and the methods that only read the client's state. The host name, the
  number of the process and the outcome of the dial are arguments. The id is meant to be unique,
  but it only identifies the process, and \<open>shared_id_overcommits\<close> shows what the server makes of
  two clients with one id.
\<close>

section \<open>The code\<close>

text \<open>The counter is a package variable that nothing assigns to.\<close>

definition idCount :: int where "idCount = 0"

definition getClientID :: "string option \<Rightarrow> nat \<Rightarrow> panic + string" where
  "getClientID hostname pid = (case hostname of
       None \<Rightarrow> Inl (PanicCall ''Can't determine hostname'')
     | Some h \<Rightarrow> Inr (h @ '':'' @ show_int (int pid) @ '':'' @ show_int idCount))"

text \<open>A new client and its connection; \<open>None\<close> is the error of the dial.\<close>

definition client_New :: "string option \<Rightarrow> nat \<Rightarrow> bool \<Rightarrow> string \<Rightarrow> Option list \<Rightarrow> panic + (Client \<times> Connection) option" where
  "client_New hostname pid ok addr opts =
     bind_panic (getClientID hostname pid) (\<lambda>i. Inr (case connection_New ok addr opts of
         None \<Rightarrow> None
       | Some conn \<Rightarrow> Some (NewWithID i (cn_Opts conn), conn)))"

definition connection_String :: "Connection \<Rightarrow> string" where
  "connection_String c = cn_currentMaster c"

text \<open>\<open>GetMaster\<close>: a client without a connection has no master.\<close>

definition client_GetMaster :: "Connection option \<Rightarrow> string" where
  "client_GetMaster conn = (case conn of None \<Rightarrow> '''' | Some c \<Rightarrow> connection_String c)"

text \<open>\<open>Resource\<close> claims a resource with the lowest priority, \<open>Wants\<close> reads what was last asked for.\<close>

definition client_Resource :: "Client \<Rightarrow> string \<Rightarrow> f64 \<Rightarrow> Client \<times> nat \<times> client_error option" where
  "client_Resource client i capacity = ResourceWithPriority client i capacity 0"

definition resourceImpl_Wants :: "Client \<Rightarrow> nat \<Rightarrow> f64" where
  "resourceImpl_Wants client a = ri_wants (cl_heap client ! a)"

section \<open>Lemmas\<close>

lemma client_New_id:
  "client_New (Some h) pid ok addr opts = Inr (Some (c, conn)) \<Longrightarrow>
     getClientID (Some h) pid = Inr (cl_id c) \<and> cl_resources c = [] \<and> client_GetMaster (Some conn) = addr"
  by (auto simp: client_New_def getClientID_def NewWithID_def connection_New_def connect_def connection_Close_def
      client_GetMaster_def connection_String_def Let_def split: if_splits)

text \<open>The id identifies the host and the process.\<close>

lemma digits_of_inject: "digits_of m = digits_of n \<Longrightarrow> m = n"
  by (metis digits_value_of)

lemma colon_digits: "CHR '':'' \<notin> set (digits_of n)"
  using digits_of_chars [of "CHR '':''" n] by (auto simp: is_digit_def)

lemma id_identifies_process:
  "getClientID (Some h) p = getClientID (Some h') p' \<longleftrightarrow> h = h' \<and> p = p'"
proof -
  have "h = h' \<and> p = p'" if eq: "h @ CHR '':'' # digits_of p = h' @ CHR '':'' # digits_of p'"
  proof -
    have "rev (digits_of p) @ CHR '':'' # rev h = rev (digits_of p') @ CHR '':'' # rev h'"
      using arg_cong [OF eq, of rev] by simp
    then have "split_on CHR '':'' (rev (digits_of p) @ CHR '':'' # rev h) =
        split_on CHR '':'' (rev (digits_of p') @ CHR '':'' # rev h')" by simp
    then have "rev (digits_of p) = rev (digits_of p')"
      using colon_digits [of p] colon_digits [of p'] by (simp add: split_on_append)
    then show ?thesis using eq digits_of_inject by auto
  qed
  then show ?thesis by (auto simp: getClientID_def show_int_def)
qed

text \<open>A program that asks for a capacity reads it back, and other resources keep theirs.\<close>

lemma wants_after_ask:
  "a < length (cl_heap c) \<Longrightarrow> Ask c a w = (c', None) \<Longrightarrow>
     resourceImpl_Wants c' b = (if b = a then w else resourceImpl_Wants c b)"
  by (auto simp: Ask_def resourceImpl_Wants_def split: if_splits)

text \<open>A resource is claimed at most once: a second claim is refused and changes no claim.\<close>

lemma claim_once:
  assumes "client_Resource c i w = (c1, a, None)"
  shows "map_of (cl_resources c1) i = Some a"
    and "\<exists>c2 b. client_Resource c1 i w' = (c2, b, Some ErrDuplicateResourceID) \<and> cl_resources c2 = cl_resources c1"
  using assms
  by (auto simp: client_Resource_def ResourceWithPriority_def addResource_def Let_def nth_append map_of_put
      split: if_splits)

text \<open>A client that has its resource to itself gets what it wants, up to the capacity, whatever lease it
  held before.\<close>

definition lone :: "Resource \<Rightarrow> string \<Rightarrow> bool" where
  "lone res i = (resource_ok res \<and> list_all (\<lambda>(c, l). c = i \<and> n_of l = 1) (ls_leases (res_store res)))"

lemma lone_live: "list_all (\<lambda>(c, l). c = i \<and> n_of l = 1) es \<Longrightarrow> list_all (\<lambda>(c, l). c = i \<and> n_of l = 1) (live now es)"
  by (auto simp: live_def list_all_iff)

lemma lone_cases:
  assumes "list_all (\<lambda>(c, l). c = i \<and> n_of l = 1) es" and "distinct_keys es"
  obtains "es = []" | l where "es = [(i, l)]"
proof (cases es)
  case (Cons e rest)
  with assms have "rest = []" by (cases rest) auto
  with Cons assms(1) that(2) show ?thesis by (cases e) simp
qed (use that(1) in simp)

lemma lone_del: "list_all (\<lambda>(c, l). c = i \<and> P l) es \<Longrightarrow> map_del es i = []"
  by (induction es) auto

lemma lone_grant:
  assumes "lone res i" and "\<not> in_learning_mode res (at_mode clk)"
    and "res_config res = Some cfg" and "Algorithm_GetKind (tpl_Algorithm cfg) = Algorithm_FAIR_SHARE"
    and "resource_capacity res (at_capacity clk) = Fin cap"
    and "req_Client r = i" and "req_Subclients r = 1" and "req_Wants r = Fin w" and "0 \<le> w" and "w \<le> cap"
  shows "\<exists>s lease. resource_Decide res clk r = Inr (res\<lparr>res_store := s\<rparr>, lease) \<and> lone (res\<lparr>res_store := s\<rparr>) i \<and>
    lease_Has lease = Fin w \<and> ls_leases s = [(i, lease)] \<and> store_SumHas s = Fin w"
proof -
  let ?es = "ls_leases (res_store res)" and ?clean = "fst (store_Clean (res_store res) (at_clean clk))"
  have ok: "resource_ok res" and all: "list_all (\<lambda>(c, l). c = i \<and> n_of l = 1) ?es"
    using assms(1) by (simp_all add: lone_def)
  have s: "store_ok (res_store res)" using ok by (simp add: resource_ok_def)
  have d: "distinct_keys ?es" using s by (rule impl.ok_distinct)
  from lone_cases [OF all d] have one: "int_subclients ?es \<le> 1"
    by cases (use all in \<open>auto simp: list_all_iff\<close>)
  have cnt: "counts_ok (res_store res) r" using all one assms(7) by (auto simp: counts_ok_def list_all_iff)
  obtain alg where alg: "res_algorithm res = Some alg" "alg = FairShare (tpl_Algorithm cfg)"
    using ok assms(3,4) by (auto simp: resource_ok_def GetAlgorithm_def elim!: configuredE)
  obtain st lease where 1: "resource_Decide res clk r = Inr (res\<lparr>res_store := st\<rparr>, lease)"
    "(st, lease) = FairShare (tpl_Algorithm cfg) ?clean (at_assign clk) (Fin cap) r" "store_ok st"
    using Decide_sharing [OF ok assms(2,3) alg(1) _ cnt, of cap] alg(2) assms(5,8,9,10) by auto
  obtain st' lease' where "resource_Decide res clk r = Inr (res\<lparr>res_store := st'\<rparr>, lease')"
    "ls_leases st' = map_put (live (at_clean clk) ?es) i lease'" "lease_Subclients lease' = 1"
    using Decide_effect [OF resource_ok_wf [OF ok] assms(3), of clk r] assms(6,7) by auto
  then have 2: "ls_leases st = map_put (live (at_clean clk) ?es) i lease" "lease_Subclients lease = 1"
    using 1(1) by (auto dest!: arg_cong [of _ _ res_store])
  let ?live = "live (at_clean clk) ?es"
  have live: "list_all (\<lambda>(c, l). c = i \<and> n_of l = 1) ?live" using all by (rule lone_live)
  note cases = lone_cases [OF live distinct_keys_live [OF d]]
  have es: "ls_leases st = [(i, lease)]" by (rule cases) (simp_all add: 2(1))
  have os: "map_del (ls_leases ?clean) i = []" using live by (simp add: clean_live [OF d] lone_del)
  have "left_over ?clean cap i = cap"
    by (rule cases) (simp_all add: left_over_def clean_live [OF d] total_has_def lease_of_def)
  moreover have "lease_Has lease = Fin (fair_share_spec cap (map_del (ls_leases ?clean) i) w 1 (left_over ?clean cap i))"
    using fair_share_grant [OF impl.ok_clean [OF s, of "at_clean clk"] counts_ok_clean [OF s cnt, of "at_clean clk"] assms(8),
        where cap = cap and config = "tpl_Algorithm cfg" and now = "at_assign clk"]
    unfolding 1(2) [symmetric] using assms(6,7) by simp
  ultimately have has: "lease_Has lease = Fin w"
    using assms(9,10) by (simp add: os fair_share_spec_def fair_share_target_def)
  have "store_SumHas st = Fin w"
    using impl.ok_sumHas [OF 1(3)] has by (simp add: es total_has_def)
  moreover have "lone (res\<lparr>res_store := st\<rparr>) i" using ok 1(3) 2(2) es by (simp add: lone_def resource_ok_def)
  ultimately show ?thesis using 1(1) es has by blast
qed


section \<open>Properties\<close>

text \<open>C31. Two clients that a process makes with \<open>New\<close> have the same id, so the server keeps one lease for
  both: each of them is granted all it wants, together up to twice the capacity of the resource,
  while the server's books show the last grant only. When one of them releases the resource, the
  server forgets the lease of the other.\<close>

theorem shared_id_overcommits:
  assumes "client_New hostname pid ok1 addr1 opts1 = Inr (Some (c1, conn1))"
    and "client_New hostname pid ok2 addr2 opts2 = Inr (Some (c2, conn2))"
    and "resource_ok res" and "ls_leases (res_store res) = []" and "res_config res = Some cfg"
    and "Algorithm_GetKind (tpl_Algorithm cfg) = Algorithm_FAIR_SHARE"
    and "\<forall>clk \<in> {clk1, clk2}. \<not> in_learning_mode res (at_mode clk) \<and> resource_capacity res (at_capacity clk) = Fin cap"
    and "0 \<le> w1" and "w1 \<le> cap" and "0 \<le> w2" and "w2 \<le> cap"
  shows "\<exists>res1 lease1 res2 lease2.
    resource_Decide res clk1 \<lparr>req_Client = cl_id c1, req_Has = Fin 0, req_Wants = Fin w1, req_Subclients = 1\<rparr> = Inr (res1, lease1) \<and>
    resource_Decide res1 clk2 \<lparr>req_Client = cl_id c2, req_Has = Fin 0, req_Wants = Fin w2, req_Subclients = 1\<rparr> = Inr (res2, lease2) \<and>
    lease_Has lease1 = Fin w1 \<and> lease_Has lease2 = Fin w2 \<and> store_SumHas (res_store res2) = Fin w2 \<and>
    ls_leases (res_store (resource_Release res2 (cl_id c1))) = []"
proof -
  obtain h where h: "hostname = Some h" using assms(1) by (cases hostname) (auto simp: client_New_def getClientID_def)
  have id: "cl_id c2 = cl_id c1"
    using client_New_id [OF assms(1) [unfolded h]] client_New_id [OF assms(2) [unfolded h]] by simp
  have upd: "in_learning_mode (res\<lparr>res_store := s\<rparr>) t = in_learning_mode res t"
    "resource_capacity (res\<lparr>res_store := s\<rparr>) t = resource_capacity res t" for s t
    by (simp_all add: in_learning_mode_def resource_capacity_def)
  let ?r1 = "\<lparr>req_Client = cl_id c1, req_Has = Fin 0, req_Wants = Fin w1, req_Subclients = 1\<rparr>"
  let ?r2 = "\<lparr>req_Client = cl_id c2, req_Has = Fin 0, req_Wants = Fin w2, req_Subclients = 1\<rparr>"
  have "lone res (cl_id c1)" using assms(3,4) by (simp add: lone_def)
  from lone_grant [OF this _ assms(5,6), of clk1 cap ?r1 w1] assms(7-9) obtain s1 lease1 where 1:
    "resource_Decide res clk1 ?r1 = Inr (res\<lparr>res_store := s1\<rparr>, lease1)" "lone (res\<lparr>res_store := s1\<rparr>) (cl_id c1)"
    "lease_Has lease1 = Fin w1" by auto
  from lone_grant [OF 1(2) _ _ assms(6), of clk2 cap ?r2 w2] assms(5,7,10,11) id obtain s2 lease2 where 2:
    "resource_Decide (res\<lparr>res_store := s1\<rparr>) clk2 ?r2 = Inr (res\<lparr>res_store := s2\<rparr>, lease2)"
    "lease_Has lease2 = Fin w2" "ls_leases s2 = [(cl_id c1, lease2)]" "store_SumHas s2 = Fin w2"
    by (auto simp: upd)
  have "ls_leases (res_store (resource_Release (res\<lparr>res_store := s2\<rparr>) (cl_id c1))) = []"
    by (simp add: resource_Release_def store_Release_leases 2(3))
  with 1 2 show ?thesis by auto
qed

text \<open>Two clients on one host get 100 each of a resource with a capacity of 100.\<close>

theorem shared_id_overcommits_witness:
  "\<exists>c1 c2 conn1 conn2 res1 lease1 res2 lease2.
    client_New (Some ''host'') 42 True ''a:1'' [] = Inr (Some (c1, conn1)) \<and>
    client_New (Some ''host'') 42 True ''a:1'' [] = Inr (Some (c2, conn2)) \<and>
    resource_Decide (example_resource (NewLeaseStore ''r'') 0) (example_clock 40)
      \<lparr>req_Client = cl_id c1, req_Has = Fin 0, req_Wants = Fin 100, req_Subclients = 1\<rparr> = Inr (res1, lease1) \<and>
    resource_Decide res1 (example_clock 41)
      \<lparr>req_Client = cl_id c2, req_Has = Fin 0, req_Wants = Fin 100, req_Subclients = 1\<rparr> = Inr (res2, lease2) \<and>
    lease_Has lease1 = Fin 100 \<and> lease_Has lease2 = Fin 100"
proof -
  let ?res = "example_resource (NewLeaseStore ''r'') 0"
  obtain c conn where c: "client_New (Some ''host'') 42 True ''a:1'' [] = Inr (Some (c, conn))"
    by (simp add: client_New_def getClientID_def connection_New_def connect_def connection_Close_def Let_def)
  have ok: "resource_ok ?res" by (rule example_resource_ok [OF store_ok_New])
  have m: "\<forall>clk \<in> {example_clock 40, example_clock 41}.
      \<not> in_learning_mode ?res (at_mode clk) \<and> resource_capacity ?res (at_capacity clk) = Fin 100"
    by (simp add: example_resource_def example_template_def in_learning_mode_def After_def example_clock_def
        resource_capacity_def ResourceTemplate_GetCapacity_def)
  from shared_id_overcommits [OF c c ok _ _ _ m, of "example_template Algorithm_FAIR_SHARE" 100 100] c
  show ?thesis
    by (force simp: example_resource_def NewLeaseStore_def example_template_def example_config_def Algorithm_GetKind_def)
qed

end
