(* ===== verification/Client_Main.thy ===== *)
theory Client_Main
  imports Client_Props
begin

text \<open>
  The command line client (\<open>go/cmd/doorman_client/doorman_client.go\<close>): it claims one resource and
  then asks for a randomly changing capacity every five seconds. The random numbers are
  arguments: \<open>draw n\<close> is what \<open>rand.Intn(n)\<close> returns. At the end, the start of the sample program
  (\<open>go/zxrun/2207-1-doormanClient.go\<close>).
\<close>

section \<open>The code\<close>

record client_flags =
  cf_server :: string
  cf_resource :: string
  cf_wants :: f64
  cf_clientID :: string

text \<open>\<open>main\<close> up to its loop: the message with which it exits, or the client and the address of its
  resource. \<open>dial\<close> says whether the client can be made, and with which options.\<close>

definition client_main :: "client_flags \<Rightarrow> Options option \<Rightarrow> string + Client \<times> nat" where
  "client_main flags dial =
     (if cf_server flags = '''' \<or> cf_resource flags = '''' then Inl ''both --server and --resource must be specified''
      else if cf_clientID flags = '''' then Inl ''--client_id must be set''
      else (case dial of
          None \<Rightarrow> Inl ''could not create client''
        | Some opts \<Rightarrow>
            (case ResourceWithPriority (NewWithID (cf_clientID flags) opts) (cf_resource flags) (cf_wants flags) 0 of
               (c, a, Some err) \<Rightarrow> Inl ''could not acquire resource''
             | (c, a, None) \<Rightarrow> Inr (c, a))))"

text \<open>\<open>rand_float\<close>: a fraction in steps of a hundredth; \<open>None\<close> is the error.\<close>

definition rand_float :: "(int \<Rightarrow> int) \<Rightarrow> rat \<Rightarrow> rat \<Rightarrow> panic + rat option" where
  "rand_float draw lo hi =
     (if lo < 0 \<and> hi < 0 then Inr None
      else
        let begin_new = trunc_rat (lo * 100); end_new = trunc_rat (hi * 100)
        in if end_new - begin_new \<le> 0 then Inl (PanicCall ''invalid argument to Intn'')
           else Inr (Some (of_int (draw (end_new - begin_new) + begin_new) / 100)))"

definition rand_fector :: "(int \<Rightarrow> int) \<Rightarrow> int" where
  "rand_fector draw = (let x = draw 2 - 1 in if x = 0 then 1 else - 1)"

text \<open>One pass of the loop: the new wants, which are asked for; the error of \<open>Ask\<close> is ignored.\<close>

definition wants_step :: "(int \<Rightarrow> int) \<Rightarrow> (int \<Rightarrow> int) \<Rightarrow> Client \<Rightarrow> nat \<Rightarrow> f64 \<Rightarrow> panic + Client \<times> f64" where
  "wants_step draw1 draw2 c a wantValue =
     bind_panic (rand_float draw1 0 (1 / 5)) (\<lambda>r.
       let randValue = (case r of None \<Rightarrow> 0 | Some x \<Rightarrow> x);
           wantValue = wantValue + wantValue * Fin randValue * Fin (of_int (rand_fector draw2))
       in Inr (fst (Ask c a wantValue), wantValue))"

fun wants_run :: "((int \<Rightarrow> int) \<times> (int \<Rightarrow> int)) list \<Rightarrow> Client \<Rightarrow> nat \<Rightarrow> f64 \<Rightarrow> panic + Client \<times> f64" where
  "wants_run [] c a w = Inr (c, w)"
| "wants_run ((draw1, draw2) # draws) c a w =
     bind_panic (wants_step draw1 draw2 c a w) (\<lambda>(c', w'). wants_run draws c' a w')"

section \<open>Lemmas\<close>

definition draws_ok :: "((int \<Rightarrow> int) \<times> (int \<Rightarrow> int)) list \<Rightarrow> bool" where
  "draws_ok = list_all (\<lambda>(draw1, draw2). 0 \<le> draw1 20 \<and> draw1 20 < 20 \<and> draw2 2 \<in> {0, 1})"

lemma wants_step_bounds:
  assumes "0 \<le> draw1 20" and "draw1 20 < 20" and "draw2 2 \<in> {0, 1}" and "0 < w"
  shows "\<exists>w'. wants_step draw1 draw2 c a (Fin w) = Inr (cl_write c a ((cl_heap c ! a)\<lparr>ri_wants := Fin w'\<rparr>), Fin w') \<and>
    w * (81 / 100) \<le> w' \<and> w' \<le> w * (119 / 100)"
proof -
  have t: "trunc_rat 20 = 20" "trunc_rat 0 = 0" by (simp_all add: trunc_rat_def)
  let ?f = "of_int (rand_fector draw2) :: rat" and ?r = "of_int (draw1 20) / 100 :: rat"
  let ?w = "w + w * ?r * ?f"
  have f: "?f = 1 \<or> ?f = - 1" by (simp add: rand_fector_def Let_def)
  have "of_int (draw1 20) \<le> (of_int 19 :: rat)" using assms(2) by (simp only: of_int_le_iff)
  then have r: "0 \<le> ?r" "?r \<le> 19 / 100" using assms(1) by simp_all
  then have "w * ?r \<le> w * (19 / 100)" "0 \<le> w * ?r" using assms(4) by (auto intro: mult_left_mono)
  then have b: "w * (81 / 100) \<le> ?w" "?w \<le> w * (119 / 100)" using f by auto
  then have "0 < ?w" using assms(4) by (auto intro: less_le_trans [of 0 "w * (81 / 100)"])
  moreover have "rand_float draw1 0 (1 / 5) = Inr (Some ?r)" by (simp add: rand_float_def t Let_def)
  ultimately show ?thesis using b
    by (intro exI [of _ ?w]) (simp add: wants_step_def Ask_def Let_def)
qed

text \<open>The wants stay positive, so every capacity is asked for, and change by less than a fifth per pass.\<close>

lemma wants_run_bounds:
  assumes "draws_ok draws" and "0 < w" and "a < length (cl_heap c)"
  shows "\<exists>c' w'. wants_run draws c a (Fin w) = Inr (c', Fin w') \<and>
    w * (81 / 100) ^ length draws \<le> w' \<and> w' \<le> w * (119 / 100) ^ length draws \<and>
    (draws \<noteq> [] \<longrightarrow> ri_wants (cl_heap c' ! a) = Fin w')"
  using assms
proof (induction draws arbitrary: c w)
  case (Cons d draws)
  obtain draw1 draw2 where d: "d = (draw1, draw2)" by force
  from Cons.prems(1) have dr: "0 \<le> draw1 20" "draw1 20 < 20" "draw2 2 \<in> {0, 1}" "draws_ok draws"
    by (simp_all add: draws_ok_def d)
  obtain w1 where 1: "wants_step draw1 draw2 c a (Fin w) = Inr (cl_write c a ((cl_heap c ! a)\<lparr>ri_wants := Fin w1\<rparr>), Fin w1)"
    "w * (81 / 100) \<le> w1" "w1 \<le> w * (119 / 100)"
    using wants_step_bounds [of draw1 draw2 w c a] dr(1-3) Cons.prems(2) by blast
  let ?c = "cl_write c a ((cl_heap c ! a)\<lparr>ri_wants := Fin w1\<rparr>)"
  have pos: "0 < w1" using 1(2) Cons.prems(2) by (auto intro: less_le_trans [of 0 "w * (81 / 100)"])
  have "a < length (cl_heap ?c)" using Cons.prems(3) by simp
  from Cons.IH [OF dr(4) pos this] obtain c' w' where 2: "wants_run draws ?c a (Fin w1) = Inr (c', Fin w')"
    "w1 * (81 / 100) ^ length draws \<le> w'" "w' \<le> w1 * (119 / 100) ^ length draws"
    "draws \<noteq> [] \<longrightarrow> ri_wants (cl_heap c' ! a) = Fin w'" by blast
  have "w * (81 / 100) * (81 / 100) ^ length draws \<le> w1 * (81 / 100) ^ length draws"
    "w1 * (119 / 100) ^ length draws \<le> w * (119 / 100) * (119 / 100) ^ length draws"
    using 1(2,3) by (intro mult_right_mono; simp)+
  then have "w * (81 / 100) * (81 / 100) ^ length draws \<le> w'" "w' \<le> w * (119 / 100) * (119 / 100) ^ length draws"
    using 2(2,3) by (blast intro: order_trans)+
  then have "w * (81 / 100) ^ Suc (length draws) \<le> w'" "w' \<le> w * (119 / 100) ^ Suc (length draws)"
    unfolding power_Suc mult.assoc [symmetric] .
  moreover have "ri_wants (cl_heap c' ! a) = Fin w'"
    using 2 Cons.prems(3) by (cases "draws = []") auto
  ultimately show ?case using 1(1) 2(1) by (simp add: d)
qed simp

section \<open>The sample program\<close>

text \<open>\<open>main\<close> up to its limiter: an error of \<open>NewWithID\<close> is printed, and the nil client is used all the
  same; so is a resource that was not claimed.\<close>

definition sample_main :: "Options option \<Rightarrow> panic + string list \<times> Client \<times> nat" where
  "sample_main dial = (case dial of
       None \<Rightarrow> Inl NilDereference
     | Some opts \<Rightarrow>
         (case ResourceWithPriority (NewWithID ''test_client'' opts) ''proportional'' (Fin 20) 0 of
            (c, a, err) \<Rightarrow> Inr (if err = None then [] else [''Fail to get resource''], c, a)))"

text \<open>It gets its resource exactly if the client can be made.\<close>

lemma sample_main_claims:
  "case sample_main dial of
     Inl p \<Rightarrow> dial = None
   | Inr (printed, c, a) \<Rightarrow> printed = [] \<and> map_of (cl_resources c) ''proportional'' = Some a \<and> ri_wants (cl_heap c ! a) = Fin 20"
  by (auto simp: sample_main_def ResourceWithPriority_def NewWithID_def addResource_def Let_def map_of_put split: option.split)

end
