(* ===== verification/Shell.thy ===== *)
theory Shell
  imports Client_Props
begin

text \<open>
  The interactive shell (\<open>go/cmd/doorman_shell/doorman_shell.go\<close>): one command line drives many
  clients. For every resource it claims, a goroutine reads the announced capacities and, when the
  channel is closed, removes the resource from the shell's tables; \<open>poll\<close> is one step of it.
  Whether a new client can connect is the argument \<open>dial\<close>, and \<open>parse_float\<close> stands for
  \<open>strconv.ParseFloat\<close>. A call that needs the client's goroutine waits until the goroutine is at its
  \<open>select\<close> and the remote call it makes has returned; the loop around remote calls never gives up, so
  without a master the shell waits for ever. Which calls are answered is the argument \<open>answers\<close>.
\<close>

section \<open>State\<close>

record shell_key =
  sk_client :: string
  sk_resource :: string

record assignment =
  as_key :: shell_key
  as_capacity :: f64

record Multiclient =
  mc_clients :: "(string \<times> Client) list"
  mc_resources :: "(shell_key \<times> nat) list"      \<comment> \<open>an address in the heap of the key's client\<close>
  mc_capacities :: "(shell_key \<times> f64) list"

definition new_multiclient :: Multiclient where
  "new_multiclient = \<lparr>mc_clients = [], mc_resources = [], mc_capacities = []\<rparr>"

text \<open>What stops the shell's own goroutine: a panic, or a call that is never answered. A claim is answered
  when the client's goroutine is at its \<open>select\<close>; a release and a close also need their remote call.\<close>

datatype shell_call = Claiming | Releasing | Closing

datatype shell_stop = Panics panic | WaitsFor string shell_call

type_synonym answers = "string \<Rightarrow> shell_call \<Rightarrow> bool"

definition bind_stop :: "shell_stop + 'a \<Rightarrow> ('a \<Rightarrow> shell_stop + 'b) \<Rightarrow> shell_stop + 'b" where
  "bind_stop r f = (case r of Inl e \<Rightarrow> Inl e | Inr x \<Rightarrow> f x)"

definition panicking :: "panic + 'a \<Rightarrow> shell_stop + 'a" where
  "panicking r = (case r of Inl p \<Rightarrow> Inl (Panics p) | Inr x \<Rightarrow> Inr x)"

definition await :: "answers \<Rightarrow> string \<Rightarrow> shell_call \<Rightarrow> shell_stop + 'a \<Rightarrow> shell_stop + 'a" where
  "await answers i call r = (if answers i call then r else Inl (WaitsFor i call))"

lemma bind_stop_simps [simp]: "bind_stop (Inl e) f = Inl e" "bind_stop (Inr x) f = f x"
  by (simp_all add: bind_stop_def)

lemma bind_stop_Inr [simp]: "bind_stop r f = Inr y \<longleftrightarrow> (\<exists>x. r = Inr x \<and> f x = Inr y)"
  by (cases r) auto

lemma panicking_simps [simp]: "panicking (Inl p) = Inl (Panics p)" "panicking (Inr x) = Inr x"
  by (simp_all add: panicking_def)

section \<open>Showing\<close>

text \<open>Strings are compared byte by byte.\<close>

fun str_less :: "string \<Rightarrow> string \<Rightarrow> bool" where
  "str_less _ [] = False"
| "str_less [] (_ # _) = True"
| "str_less (a # as) (b # bs) = ((of_char a :: nat) < of_char b \<or> a = b \<and> str_less as bs)"

definition assignment_Less :: "assignment \<Rightarrow> assignment \<Rightarrow> bool" where
  "assignment_Less a b =
     (if sk_resource (as_key a) = sk_resource (as_key b)
      then str_less (sk_client (as_key a)) (sk_client (as_key b))
      else str_less (sk_resource (as_key a)) (sk_resource (as_key b)))"

text \<open>\<open>sort.Sort\<close>: the order of keys is total, so every sorting algorithm has the same result.\<close>

fun sort_insert :: "assignment \<Rightarrow> assignment list \<Rightarrow> assignment list" where
  "sort_insert a [] = [a]"
| "sort_insert a (b # bs) = (if assignment_Less b a then b # sort_insert a bs else a # b # bs)"

definition sort_Sort :: "assignment list \<Rightarrow> assignment list" where
  "sort_Sort as = foldr sort_insert as []"

definition show_capacities :: "Multiclient \<Rightarrow> assignment list" where
  "show_capacities m = sort_Sort (map (\<lambda>(k, v). \<lparr>as_key = k, as_capacity = v\<rparr>) (mc_capacities m))"

section \<open>Operations\<close>

datatype shell_error = ConnectFailed | ClientError client_error | Message string

definition getClient :: "(string \<Rightarrow> Options option) \<Rightarrow> Multiclient \<Rightarrow> string \<Rightarrow> shell_error + Multiclient \<times> Client" where
  "getClient dial m i = (case map_of (mc_clients m) i of
       Some c \<Rightarrow> Inr (m, c)
     | None \<Rightarrow> (case dial i of
         None \<Rightarrow> Inl ConnectFailed
       | Some opts \<Rightarrow> let c = NewWithID i opts in Inr (m\<lparr>mc_clients := map_put (mc_clients m) i c\<rparr>, c)))"

definition set_client :: "string \<Rightarrow> Client \<Rightarrow> Multiclient \<Rightarrow> Multiclient" where
  "set_client i c m = m\<lparr>mc_clients := map_put (mc_clients m) i c\<rparr>"

text \<open>\<open>getResource\<close>: also the state when it fails, because a client that was made stays. The goroutine
  of a client that was just made is at its \<open>select\<close>.\<close>

definition getResource :: "answers \<Rightarrow> (string \<Rightarrow> Options option) \<Rightarrow> Multiclient \<Rightarrow> string \<Rightarrow> string
    \<Rightarrow> shell_stop + Multiclient \<times> (shell_error + nat)" where
  "getResource answers dial m clientID resourceID =
     (let k = \<lparr>sk_client = clientID, sk_resource = resourceID\<rparr>;
          known = map_of (mc_clients m) clientID \<noteq> None in
      case map_of (mc_resources m) k of
        Some a \<Rightarrow> Inr (m, Inr a)
      | None \<Rightarrow> (case getClient dial m clientID of
            Inl e \<Rightarrow> Inr (m, Inl e)
          | Inr (m', c) \<Rightarrow>
              if known \<and> \<not> answers clientID Claiming then Inl (WaitsFor clientID Claiming)
              else let (c', a, err) = ResourceWithPriority c resourceID (Fin 0) 0;
                  m'' = set_client clientID c' m'
              in (case err of
                    Some e \<Rightarrow> Inr (m'', Inl (ClientError e))
                  | None \<Rightarrow> Inr (m''\<lparr>mc_resources := map_put (mc_resources m'') k a\<rparr>, Inr a))))"

text \<open>A client that is in the table.\<close>

definition the_client :: "Multiclient \<Rightarrow> string \<Rightarrow> Client" where
  "the_client m i = the (map_of (mc_clients m) i)"

definition shell_Get :: "answers \<Rightarrow> (string \<Rightarrow> Options option) \<Rightarrow> Multiclient \<Rightarrow> string \<Rightarrow> string \<Rightarrow> f64
    \<Rightarrow> shell_stop + Multiclient \<times> shell_error option" where
  "shell_Get answers dial m i resource wants = bind_stop (getResource answers dial m i resource) (\<lambda>(m', r). case r of
       Inl e \<Rightarrow> Inr (m', Some e)
     | Inr a \<Rightarrow>
         let (c, err) = Ask (the_client m' i) a wants in Inr (set_client i c m', map_option ClientError err))"

text \<open>\<open>Release\<close> waits for the goroutine and for its remote call, which has no error to return because the
  loop around it ends with a response only.\<close>

definition shell_Release :: "answers \<Rightarrow> (string \<Rightarrow> Options option) \<Rightarrow> Multiclient \<Rightarrow> string \<Rightarrow> string
    \<Rightarrow> shell_stop + Multiclient \<times> shell_error option" where
  "shell_Release answers dial m i resource = bind_stop (getResource answers dial m i resource) (\<lambda>(m', r). case r of
       Inl e \<Rightarrow> Inr (m', Some e)
     | Inr a \<Rightarrow> await answers i Releasing
         (bind_stop (panicking (removeResource (the_client m' i) a)) (\<lambda>(c, req). Inr (set_client i c m', None))))"

text \<open>One step of \<open>pollResource\<close> for the resource at address \<open>a\<close>: a capacity is received, or the
  channel is closed and drained and the goroutine ends (\<open>None\<close>), or it waits.\<close>

definition poll :: "shell_key \<Rightarrow> nat \<Rightarrow> Multiclient \<Rightarrow> Multiclient \<times> bool" where
  "poll k a m =
     (let c = the_client m (sk_client k); res = cl_heap c ! a
      in (case ri_capacity res of
            x # rest \<Rightarrow>
              ((set_client (sk_client k) (cl_write c a (res\<lparr>ri_capacity := rest\<rparr>)) m)
                 \<lparr>mc_capacities := map_put (mc_capacities m) k x\<rparr>, True)
          | [] \<Rightarrow>
              if ri_closed res
              then (m\<lparr>mc_capacities := map_del (mc_capacities m) k, mc_resources := map_del (mc_resources m) k\<rparr>, False)
              else (m, True)))"

section \<open>Commands\<close>

datatype shell_result =
    Done
  | Shown "assignment list"
  | Masters "(string \<times> Client) list"
  | Helped
  | Failed shell_error
  | EOF

definition shell_Eval :: "answers \<Rightarrow> (string \<Rightarrow> f64 option) \<Rightarrow> (string \<Rightarrow> Options option) \<Rightarrow> Multiclient \<Rightarrow> string list
    \<Rightarrow> shell_stop + Multiclient \<times> shell_result" where
  "shell_Eval answers parse_float dial m command = (case command of
       [] \<Rightarrow> Inr (m, Done)
     | head # tail \<Rightarrow>
         let report = (\<lambda>r. bind_stop r (\<lambda>(m', err). Inr (m', case err of None \<Rightarrow> Done | Some e \<Rightarrow> Failed e))) in
         if head = ''get'' then
           (if length tail \<noteq> 3 then Inr (m, Failed (Message (''syntax is: get CLIENT RESOURCE CAPACITY'' @ [CHR 0x22])))
            else (case parse_float (tail ! 2) of
                None \<Rightarrow> Inr (m, Failed (Message ''invalid syntax''))
              | Some capacity \<Rightarrow> report (shell_Get answers dial m (tail ! 0) (tail ! 1) capacity)))
         else if head = ''show'' then
           (if tail \<noteq> [] then Inr (m, Failed (Message ''show takes no arguments''))
            else Inr (m, Shown (show_capacities m)))
         else if head = ''release'' then
           (if length tail \<noteq> 2 then Inr (m, Failed (Message (''syntax is '' @ [CHR 0x22] @ ''release CLIENT RESOURCE'')))
            else report (shell_Release answers dial m (tail ! 0) (tail ! 1)))
         else if head = ''master'' then Inr (m, Masters (mc_clients m))
         else if head = ''help'' then Inr (m, Helped)
         else if head \<in> {''quit'', ''q'', ''bye''} then Inr (m, EOF)
         else Inr (m, Failed (Message ''unrecognized command'')))"

text \<open>The loop of \<open>main\<close> over the commands read, each with the calls that are answered while it runs: it
  ends at the end of the input or at \<open>quit\<close>.\<close>

fun shell_main :: "(string \<Rightarrow> f64 option) \<Rightarrow> (string \<Rightarrow> Options option) \<Rightarrow> Multiclient \<Rightarrow> (string list \<times> answers) list
    \<Rightarrow> shell_stop + Multiclient \<times> shell_result list" where
  "shell_main parse_float dial m [] = Inr (m, [])"
| "shell_main parse_float dial m ((command, answers) # rest) =
     bind_stop (shell_Eval answers parse_float dial m command) (\<lambda>(m', r).
       if r = EOF then Inr (m', [])
       else bind_stop (shell_main parse_float dial m' rest) (\<lambda>(m'', rs). Inr (m'', r # rs)))"

text \<open>\<open>Close\<close>: every resource in the table is released, then every client is closed, which waits for its
  goroutine to end and for the remote call. A client whose goroutine is in a remote call that no
  master answers keeps the shell here.\<close>

fun release_all :: "answers \<Rightarrow> (shell_key \<times> nat) list \<Rightarrow> Multiclient \<Rightarrow> shell_stop + Multiclient" where
  "release_all answers [] m = Inr m"
| "release_all answers ((k, a) # rest) m = await answers (sk_client k) Releasing
     (bind_stop (panicking (removeResource (the_client m (sk_client k)) a)) (\<lambda>(c, req).
       release_all answers rest (set_client (sk_client k) c m)))"

fun close_all :: "answers \<Rightarrow> (string \<times> Client) list \<Rightarrow> shell_stop + (string \<times> Client) list" where
  "close_all answers [] = Inr []"
| "close_all answers ((i, c) # rest) = await answers i Closing (bind_stop (panicking (client_Close c)) (\<lambda>(c', req).
     bind_stop (close_all answers rest) (\<lambda>cs. Inr ((i, c') # cs))))"

definition shell_Close :: "answers \<Rightarrow> Multiclient \<Rightarrow> shell_stop + Multiclient" where
  "shell_Close answers m = bind_stop (release_all answers (mc_resources m) m) (\<lambda>m'.
     bind_stop (close_all answers (mc_clients m')) (\<lambda>cs. Inr (m'\<lparr>mc_clients := cs\<rparr>)))"

end
