(* ===== verification/Shell_Props.thy ===== *)
theory Shell_Props
  imports Shell
begin

text \<open>
  Properties of the shell. A session is a sequence of commands, of rounds of the clients'
  goroutines, with any outcome of their remote calls, and of steps of the goroutines that read
  the capacities. A round stands where its request returns; one that meets a full channel waits for the
  goroutine that reads it, so the shell is left alone until a later round. The invariant ties the shell's tables to the clients: what a client claims is in
  the table, and what is in the table is claimed or has been closed.
\<close>

section \<open>Sessions\<close>

datatype shell_event =
    Command "string list" answers
  | Poll shell_key
  | Round string time int64 "GetCapacityResponse option"

definition shell_step :: "(string \<Rightarrow> f64 option) \<Rightarrow> (string \<Rightarrow> Options option) \<Rightarrow> shell_event \<Rightarrow> Multiclient
    \<Rightarrow> shell_stop + Multiclient" where
  "shell_step parse_float dial e m = (case e of
       Command command answers \<Rightarrow> bind_stop (shell_Eval answers parse_float dial m command) (\<lambda>(m', r). Inr m')
     | Poll k \<Rightarrow> (case map_of (mc_resources m) k of None \<Rightarrow> Inr m | Some a \<Rightarrow> Inr (fst (poll k a m)))
     | Round i now retryNumber reply \<Rightarrow> (case map_of (mc_clients m) i of
           None \<Rightarrow> Inr m
         | Some c \<Rightarrow> bind_stop (panicking (performRequests now c retryNumber reply)) (\<lambda>r. Inr (case r of
               None \<Rightarrow> m
             | Some (c', interval, retryNumber') \<Rightarrow> set_client i c' m))))"

fun shell_run :: "(string \<Rightarrow> f64 option) \<Rightarrow> (string \<Rightarrow> Options option) \<Rightarrow> shell_event list \<Rightarrow> Multiclient
    \<Rightarrow> shell_stop + Multiclient" where
  "shell_run parse_float dial [] m = Inr m"
| "shell_run parse_float dial (e # es) m = bind_stop (shell_step parse_float dial e m) (shell_run parse_float dial es)"

section \<open>What a client's operations leave in place\<close>

definition evolves :: "Client \<Rightarrow> Client \<Rightarrow> bool" where
  "evolves c c' = (cl_id c' = cl_id c \<and> cl_resources c' = cl_resources c \<and> length (cl_heap c') = length (cl_heap c) \<and>
     (\<forall>a < length (cl_heap c). ri_id (cl_heap c' ! a) = ri_id (cl_heap c ! a) \<and>
        ri_closed (cl_heap c' ! a) = ri_closed (cl_heap c ! a) \<and>
        (open_resource (cl_heap c ! a) \<longrightarrow> open_resource (cl_heap c' ! a))))"

lemma evolves_refl [simp, intro]: "evolves c c"
  by (simp add: evolves_def)

lemma evolves_trans: "evolves c c' \<Longrightarrow> evolves c' c'' \<Longrightarrow> evolves c c''"
  by (simp add: evolves_def)

lemma evolves_write:
  "ri_id res = ri_id (cl_heap c ! a) \<Longrightarrow> ri_closed res = ri_closed (cl_heap c ! a) \<Longrightarrow>
    (open_resource (cl_heap c ! a) \<Longrightarrow> open_resource res) \<Longrightarrow> evolves c (cl_write c a res)"
  by (cases "a < length (cl_heap c)") (auto simp: evolves_def nth_list_update list_update_beyond)

lemma evolves_ok: "evolves c c' \<Longrightarrow> client_ok c \<Longrightarrow> client_ok c'"
  by (auto simp: evolves_def client_ok_def list_all_iff)

lemma response_loop_evolves:
  "client_ok c \<Longrightarrow> \<exists>c'. response_loop prs c = Inr c' \<and> evolves c c'"
proof (induction prs arbitrary: c)
  case (Cons pr prs)
  show ?case
  proof (cases "map_of (cl_resources c) (ResourceResponse_GetResourceId (Some pr))")
    case None
    with Cons show ?thesis by simp
  next
    case (Some a)
    note l = client_ok_lookup [OF Cons.prems Some]
    obtain res where res: "accept_lease (cl_heap c ! a) (ResourceResponse_GetGets (Some pr)) = Inr res"
      "open_resource res" "ri_id res = ri_id (cl_heap c ! a)"
      using accept_lease_open [OF l(3)] by blast
    have e: "evolves c (cl_write c a res)"
      using res l(3) by (intro evolves_write) (auto simp: open_resource_def)
    from Cons.IH [OF evolves_ok [OF e Cons.prems]] evolves_trans [OF e] Some res(1) show ?thesis by fastforce
  qed
qed simp

lemma expire_loop_evolves:
  "list_all (\<lambda>(i, a). a < length (cl_heap c) \<and> open_resource (cl_heap c ! a)) es \<Longrightarrow>
    \<exists>r. expire_loop now es c = Inr r \<and> (\<forall>c'. r = Some c' \<longrightarrow> evolves c c')"
proof (induction es arbitrary: c)
  case (Cons e es)
  obtain i a where e: "e = (i, a)" by force
  have o: "open_resource (cl_heap c ! a)" "a < length (cl_heap c)" using Cons.prems by (simp_all add: e)
  show ?case
  proof (cases "has_expired now (cl_heap c ! a) \<and> full (cl_heap c ! a)")
    case True
    then show ?thesis unfolding e expire_one [OF o] by simp
  next
    case False
    let ?c = "cl_write c a (after_error now (cl_heap c ! a))"
    have ev: "evolves c ?c"
      using False o(1) by (intro evolves_write) (auto simp: after_error_def open_resource_def full_def)
    have "list_all (\<lambda>(i, a). a < length (cl_heap ?c) \<and> open_resource (cl_heap ?c ! a)) es"
      using Cons.prems ev by (auto simp: list_all_iff evolves_def)
    from Cons.IH [OF this] evolves_trans [OF ev] False show ?thesis unfolding e expire_one [OF o] by auto
  qed
qed simp

lemma performRequests_evolves:
  assumes "client_ok c"
  shows "\<exists>r. performRequests now c retryNumber reply = Inr r \<and> (\<forall>c' x. r = Some (c', x) \<longrightarrow> evolves c c')"
proof (cases reply)
  case None
  have "list_all (\<lambda>(i, a). a < length (cl_heap c) \<and> open_resource (cl_heap c ! a)) (cl_resources c)"
    using assms by (auto simp: client_ok_def list_all_iff)
  from expire_loop_evolves [OF this, of now] obtain r where
    "expire_loop now (cl_resources c) c = Inr r" "\<forall>c'. r = Some c' \<longrightarrow> evolves c c'" by blast
  with None show ?thesis by (cases r) (auto simp: performRequests_def)
next
  case (Some out)
  with response_loop_evolves [OF assms, of "gcp_Response out"] show ?thesis
    by (auto simp: performRequests_def Let_def)
qed

section \<open>The invariant\<close>

definition linked :: "Client \<Rightarrow> (string \<Rightarrow> nat option) \<Rightarrow> bool" where
  "linked c R = (client_ok c \<and> (\<forall>r a. map_of (cl_resources c) r = Some a \<longrightarrow> R r = Some a) \<and>
     (\<forall>r a. R r = Some a \<longrightarrow> a < length (cl_heap c) \<and> ri_id (cl_heap c ! a) = r \<and>
        (map_of (cl_resources c) r = Some a \<or> ri_closed (cl_heap c ! a))))"

definition resources_of :: "Multiclient \<Rightarrow> string \<Rightarrow> string \<Rightarrow> nat option" where
  "resources_of m i r = map_of (mc_resources m) \<lparr>sk_client = i, sk_resource = r\<rparr>"

definition shell_ok :: "Multiclient \<Rightarrow> bool" where
  "shell_ok m = (distinct_keys (mc_clients m) \<and> distinct_keys (mc_resources m) \<and> distinct_keys (mc_capacities m) \<and>
     (\<forall>i r. map_of (mc_clients m) i = None \<longrightarrow> resources_of m i r = None) \<and>
     (\<forall>i c. map_of (mc_clients m) i = Some c \<longrightarrow> cl_id c = i \<and> linked c (resources_of m i)))"

lemma shell_key_eta [simp]: "\<lparr>sk_client = sk_client k, sk_resource = sk_resource k\<rparr> = k"
  by (cases k) simp

lemma shell_ok_client:
  "shell_ok m \<Longrightarrow> map_of (mc_clients m) i = Some c \<Longrightarrow> cl_id c = i \<and> linked c (resources_of m i)"
  by (simp add: shell_ok_def)

lemma shell_ok_resource:
  assumes "shell_ok m" and "map_of (mc_resources m) k = Some a"
  obtains c where "map_of (mc_clients m) (sk_client k) = Some c" "cl_id c = sk_client k"
    "linked c (resources_of m (sk_client k))" "resources_of m (sk_client k) (sk_resource k) = Some a"
proof -
  have r: "resources_of m (sk_client k) (sk_resource k) = Some a" using assms(2) by (simp add: resources_of_def)
  then obtain c where "map_of (mc_clients m) (sk_client k) = Some c"
    using assms(1) by (cases "map_of (mc_clients m) (sk_client k)") (simp_all add: shell_ok_def)
  with shell_ok_client [OF assms(1)] r that show ?thesis by blast
qed

lemma resources_of_set_client [simp]: "resources_of (set_client i c m) = resources_of m"
  by (intro ext) (simp add: resources_of_def set_client_def)

lemma set_client_simps [simp]:
  "map_of (mc_clients (set_client i c m)) j = (if j = i then Some c else map_of (mc_clients m) j)"
  "mc_resources (set_client i c m) = mc_resources m"
  "mc_capacities (set_client i c m) = mc_capacities m"
  by (simp_all add: set_client_def map_of_put)

lemma shell_ok_capacities:
  assumes "shell_ok m" and "distinct_keys (mc_capacities m) \<Longrightarrow> distinct_keys cs"
  shows "shell_ok (m\<lparr>mc_capacities := cs\<rparr>)"
proof -
  have "resources_of (m\<lparr>mc_capacities := cs\<rparr>) = resources_of m" by (intro ext) (simp add: resources_of_def)
  then show ?thesis using assms by (simp add: shell_ok_def)
qed

lemma shell_ok_distinct:
  assumes "shell_ok m"
  shows "distinct_keys (mc_clients m)" "distinct_keys (mc_resources m)" "distinct_keys (mc_capacities m)"
  using assms by (simp_all add: shell_ok_def)

text \<open>A change of one client and of its resources.\<close>

lemma shell_ok_change:
  assumes "shell_ok m" and "distinct_keys (mc_clients m')" and "distinct_keys (mc_resources m')"
    and "distinct_keys (mc_capacities m')"
    and "\<And>j. j \<noteq> i \<Longrightarrow> map_of (mc_clients m') j = map_of (mc_clients m) j \<and> resources_of m' j = resources_of m j"
    and "map_of (mc_clients m') i = Some c" and "cl_id c = i" and "linked c (resources_of m' i)"
  shows "shell_ok m'"
proof -
  have "resources_of m' j r = None" if "map_of (mc_clients m') j = None" for j r
    using that assms(1,5,6) by (cases "j = i") (simp_all add: shell_ok_def)
  moreover have "cl_id d = j \<and> linked d (resources_of m' j)" if "map_of (mc_clients m') j = Some d" for j d
    using that assms(5-8) shell_ok_client [OF assms(1), of j d] by (cases "j = i") auto
  ultimately show ?thesis using assms(2-4) unfolding shell_ok_def by blast
qed

lemma shell_ok_set_client:
  assumes "shell_ok m" and "cl_id c = i" and "linked c (resources_of m i)"
  shows "shell_ok (set_client i c m)"
proof (rule shell_ok_change [OF assms(1), of _ i c])
  show "distinct_keys (mc_clients (set_client i c m))"
    using assms(1) by (simp add: shell_ok_def set_client_def distinct_keys_put)
qed (use assms in \<open>simp_all add: shell_ok_def\<close>)

lemma linked_evolves: "evolves c c' \<Longrightarrow> linked c R \<Longrightarrow> linked c' R"
  using evolves_ok [of c c'] by (auto simp: linked_def evolves_def)

lemma shell_ok_evolves:
  assumes "shell_ok m" and "map_of (mc_clients m) i = Some c" and "evolves c c'"
  shows "shell_ok (set_client i c' m)"
  using shell_ok_client [OF assms(1,2)] assms(3) linked_evolves
  by (intro shell_ok_set_client [OF assms(1)]) (auto simp: evolves_def)

lemma linked_released:
  assumes "linked c R" and "map_of (cl_resources c) r = Some a"
  shows "linked (released c r a) R"
proof -
  have ok: "client_ok c" and R: "R r = Some a" using assms by (auto simp: linked_def)
  have h: "cl_heap (released c r a) ! b = (if b = a then (cl_heap c ! a)\<lparr>ri_closed := True\<rparr> else cl_heap c ! b)" for b
    using client_ok_lookup(1) [OF ok assms(2)] by (simp add: released_def)
  have "length (cl_heap (released c r a)) = length (cl_heap c)"
    "map_of (cl_resources (released c r a)) s = (if s = r then None else map_of (cl_resources c) s)" for s
    by (simp_all add: released_def map_of_del)
  then show ?thesis
    using assms(1) R conjunct1 [OF conjunct2 [OF removeResource_claimed [OF ok assms(2)]]]
    unfolding linked_def h by (auto split: if_splits)
qed

section \<open>Every operation keeps the invariant\<close>

lemma removeResource_linked:
  assumes "linked c R" and "R r = Some a"
  shows "\<exists>c' req. removeResource c a = Inr (c', req) \<and> linked c' R \<and> cl_id c' = cl_id c \<and> map_of (cl_resources c') r = None"
proof (cases "map_of (cl_resources c) r")
  case None
  with assms show ?thesis by (auto simp: linked_def removeResource_def Let_def)
next
  case (Some b)
  have ok: "client_ok c" and b: "b = a" using assms Some by (auto simp: linked_def)
  from removeResource_claimed [OF ok Some] linked_released [OF assms(1) Some] show ?thesis
    by (auto simp: b released_def map_of_del)
qed

lemma linked_new: "linked (NewWithID i opts) (\<lambda>r. None)"
  by (simp add: linked_def NewWithID_def client_ok_def)

lemma getClient_ok:
  assumes "shell_ok m" and "getClient dial m i = Inr (m', c)"
  shows "shell_ok m' \<and> map_of (mc_clients m') i = Some c \<and> mc_resources m' = mc_resources m \<and> mc_capacities m' = mc_capacities m"
proof (cases "map_of (mc_clients m) i")
  case None
  then obtain opts where o: "dial i = Some opts" "c = NewWithID i opts" "m' = set_client i c m"
    using assms(2) by (auto simp: getClient_def set_client_def Let_def split: option.splits)
  have "resources_of m i = (\<lambda>r. None)" using assms(1) None by (intro ext) (simp add: shell_ok_def)
  then have "shell_ok (set_client i c m)"
    using linked_new by (intro shell_ok_set_client [OF assms(1)]) (simp_all add: o NewWithID_def)
  with o show ?thesis by simp
next
  case (Some d)
  with assms show ?thesis by (simp add: getClient_def)
qed

lemma linked_claim:
  assumes "linked c R" and "R r = None" and "ResourceWithPriority c r w p = (c', a, err)"
  shows "err = None \<and> cl_id c' = cl_id c \<and> linked c' (R(r := Some a)) \<and> map_of (cl_resources c') r = Some a"
proof -
  have n: "map_of (cl_resources c) r = None" using assms(1,2) by (cases "map_of (cl_resources c) r") (auto simp: linked_def)
  let ?res = "\<lparr>ri_id = r, ri_priority = p, ri_capacity = [], ri_closed = False, ri_lease = None, ri_wants = w\<rparr>"
  have c': "a = length (cl_heap c)" "err = None" "c' = c\<lparr>cl_heap := cl_heap c @ [?res], cl_resources := cl_resources c @ [(r, a)]\<rparr>"
    using assms(3) n by (auto simp: ResourceWithPriority_def addResource_def Let_def map_put_fresh)
  have lt: "b < a" if "(s, b) \<in> set (cl_resources c)" for s b
    using assms(1) that c'(1) by (auto simp: linked_def client_ok_def list_all_iff)
  have h: "cl_heap c' ! b = (if b < a then cl_heap c ! b else if b = a then ?res else [] ! (b - a - 1))" for b
    by (auto simp: c' nth_append nth_Cons')
  have m: "map_of (cl_resources c') s = (if s = r then Some a else map_of (cl_resources c) s)" for s
    using n by (simp add: c'(3) map_add_def split: option.split)
  have len: "length (cl_heap c') = Suc a" "cl_resources c' = cl_resources c @ [(r, a)]" "cl_id c' = cl_id c"
    by (simp_all add: c')
  have "client_ok c'"
    using assms(1) n unfolding client_ok_def len list_all_iff h
    by (auto simp: linked_def client_ok_def list_all_iff map_of_eq_None_iff open_resource_def dest: lt)
  then show ?thesis using assms(1,2) c'(1,2) unfolding linked_def m len(1,3) h by (auto simp: less_Suc_eq)
qed

definition only_waits :: "answers \<Rightarrow> shell_stop + 'a \<Rightarrow> bool" where
  "only_waits answers r = (\<forall>stop. r = Inl stop \<longrightarrow> (\<exists>i call. stop = WaitsFor i call \<and> \<not> answers i call))"

lemma only_waits_simps [simp]:
  "only_waits answers (Inr x)" "only_waits answers (Inl (WaitsFor i call)) = (\<not> answers i call)"
  by (simp_all add: only_waits_def)

lemma only_waits_bind:
  "only_waits answers r \<Longrightarrow> (\<And>x. r = Inr x \<Longrightarrow> only_waits answers (f x)) \<Longrightarrow> only_waits answers (bind_stop r f)"
  by (cases r) (simp_all add: only_waits_def)

lemma only_waits_await: "(answers i call \<Longrightarrow> only_waits answers r) \<Longrightarrow> only_waits answers (await answers i call r)"
  by (simp add: await_def)

lemma await_Inr [simp]: "await answers i call r = Inr x \<longleftrightarrow> answers i call \<and> r = Inr x"
  by (simp add: await_def)

lemma getResource_waits: "only_waits answers (getResource answers dial m i r)"
  by (simp add: getResource_def Let_def split_beta split: option.split sum.split)

lemma getResource_ok:
  assumes "shell_ok m" and "getResource answers dial m i r = Inr (m', x)"
  shows "shell_ok m' \<and> x \<noteq> Inl (ClientError ErrDuplicateResourceID) \<and>
    (\<forall>a. x = Inr a \<longrightarrow> resources_of m' i r = Some a)"
proof (cases "map_of (mc_resources m) \<lparr>sk_client = i, sk_resource = r\<rparr>")
  case (Some a)
  with assms show ?thesis by (auto simp: getResource_def resources_of_def Let_def)
next
  case None
  show ?thesis
  proof (cases "getClient dial m i")
    case (Inl e)
    then have "e = ConnectFailed" by (auto simp: getClient_def Let_def split: option.splits)
    with Inl None assms show ?thesis by (auto simp: getResource_def Let_def)
  next
    case (Inr q)
    obtain m1 c where q: "q = (m1, c)" by force
    note g = getClient_ok [OF assms(1) Inr [unfolded q]]
    obtain c' a err where claim: "ResourceWithPriority c r (Fin 0) 0 = (c', a, err)" by (metis prod_cases3)
    note l = shell_ok_client [of m1 i c]
    have "resources_of m1 i r = None" using g None by (simp add: resources_of_def)
    from linked_claim [OF conjunct2 [OF l] this claim] l g
    have k: "err = None" "cl_id c' = i" "linked c' ((resources_of m1 i)(r := Some a))" by auto
    have m': "m' = (set_client i c' m1)\<lparr>mc_resources := map_put (mc_resources m1) \<lparr>sk_client = i, sk_resource = r\<rparr> a\<rparr>"
      "x = Inr a"
      using assms(2) None Inr q claim k(1) by (simp_all add: getResource_def Let_def split: if_splits)
    have r: "resources_of m' j = (if j = i then (resources_of m1 i)(r := Some a) else resources_of m1 j)" for j
      by (intro ext) (simp add: resources_of_def m' map_of_put)
    have "distinct_keys (mc_clients (set_client i c' m1))" "distinct_keys (mc_resources m1)" "distinct_keys (mc_capacities m1)"
      using shell_ok_distinct [OF conjunct1 [OF g]] by (simp_all add: set_client_def distinct_keys_put)
    then have "shell_ok m'"
      using g k by (intro shell_ok_change [of m1 m' i c']) (simp_all add: r, simp_all add: m' distinct_keys_put)
    with r m' show ?thesis by simp
  qed
qed

lemma the_client_resource:
  assumes "shell_ok m" and "resources_of m i r = Some a"
  shows "map_of (mc_clients m) i = Some (the_client m i)" "cl_id (the_client m i) = i"
    "linked (the_client m i) (resources_of m i)"
proof -
  obtain c where "map_of (mc_clients m) i = Some c" "cl_id c = i" "linked c (resources_of m i)"
    using shell_ok_resource [OF assms(1) assms(2) [unfolded resources_of_def]] by auto
  then show "map_of (mc_clients m) i = Some (the_client m i)" "cl_id (the_client m i) = i"
    "linked (the_client m i) (resources_of m i)"
    by (simp_all add: the_client_def)
qed

lemma Ask_evolves: "evolves c (fst (Ask c a wants))"
  by (auto simp: Ask_def open_resource_def intro!: evolves_write)

text \<open>No error that a command reports says that the resource has been claimed already.\<close>

definition not_duplicate :: "shell_error option \<Rightarrow> bool" where
  "not_duplicate e = (e \<noteq> Some (ClientError ErrDuplicateResourceID))"

lemma shell_Get_ok:
  assumes "shell_ok m"
  shows "only_waits answers (shell_Get answers dial m i r wants)"
    and "shell_Get answers dial m i r wants = Inr (m', e) \<Longrightarrow> shell_ok m' \<and> not_duplicate e"
proof -
  show "only_waits answers (shell_Get answers dial m i r wants)"
    unfolding shell_Get_def by (intro only_waits_bind getResource_waits) (simp add: split_beta Let_def split: sum.split)
next
  assume r: "shell_Get answers dial m i r wants = Inr (m', e)"
  then obtain m1 x where g: "getResource answers dial m i r = Inr (m1, x)" by (auto simp: shell_Get_def)
  note k = getResource_ok [OF assms g]
  show "shell_ok m' \<and> not_duplicate e"
  proof (cases x)
    case (Inl err)
    with r g k show ?thesis by (auto simp: shell_Get_def not_duplicate_def)
  next
    case (Inr a)
    obtain c err where ask: "Ask (the_client m1 i) a wants = (c, err)" by force
    have "shell_ok (set_client i c m1)"
      using k Inr the_client_resource(1) [of m1 i r a] Ask_evolves [of "the_client m1 i" a wants]
      by (intro shell_ok_evolves) (auto simp: ask)
    moreover have "err \<noteq> Some ErrDuplicateResourceID" using ask by (auto simp: Ask_def split: if_splits)
    ultimately show ?thesis using r g Inr ask by (auto simp: shell_Get_def not_duplicate_def)
  qed
qed

lemma shell_Release_ok:
  assumes "shell_ok m"
  shows "only_waits answers (shell_Release answers dial m i r)"
    and "shell_Release answers dial m i r = Inr (m', e) \<Longrightarrow> shell_ok m' \<and> not_duplicate e"
proof -
  have step: "\<exists>c req. removeResource (the_client m1 i) a = Inr (c, req) \<and> shell_ok (set_client i c m1)"
    if g: "getResource answers dial m i r = Inr (m1, Inr a)" for m1 a
  proof -
    have k: "shell_ok m1" "resources_of m1 i r = Some a" using getResource_ok [OF assms g] by auto
    note t = the_client_resource [OF k]
    from removeResource_linked [OF t(3) k(2)] obtain c req where
      "removeResource (the_client m1 i) a = Inr (c, req)" "linked c (resources_of m1 i)" "cl_id c = i"
      using t(2) by auto
    with shell_ok_set_client [OF k(1), of c i] show ?thesis by blast
  qed
  show "only_waits answers (shell_Release answers dial m i r)"
    unfolding shell_Release_def
    by (intro only_waits_bind getResource_waits) (auto split: sum.split intro!: only_waits_await dest!: step)
  assume r: "shell_Release answers dial m i r = Inr (m', e)"
  then obtain m1 x where g: "getResource answers dial m i r = Inr (m1, x)" by (auto simp: shell_Release_def)
  note k = getResource_ok [OF assms g]
  show "shell_ok m' \<and> not_duplicate e"
  proof (cases x)
    case (Inl err)
    with r g k show ?thesis by (auto simp: shell_Release_def not_duplicate_def)
  next
    case (Inr a)
    with step [of m1 a] r g show ?thesis by (auto simp: shell_Release_def not_duplicate_def)
  qed
qed

lemma poll_ok:
  assumes "shell_ok m" and "map_of (mc_resources m) k = Some a"
  shows "shell_ok (fst (poll k a m))"
proof -
  have a: "resources_of m (sk_client k) (sk_resource k) = Some a" using assms(2) by (simp add: resources_of_def)
  let ?c = "the_client m (sk_client k)"
  note t = the_client_resource [OF assms(1) a]
  show ?thesis
  proof (cases "ri_capacity (cl_heap ?c ! a)")
    case (Cons x rest)
    have "evolves ?c (cl_write ?c a ((cl_heap ?c ! a)\<lparr>ri_capacity := rest\<rparr>))"
      by (rule evolves_write) (auto simp: open_resource_def Cons)
    from shell_ok_evolves [OF assms(1) t(1) this] show ?thesis
      unfolding poll_def Let_def Cons list.case fst_conv
      by (rule shell_ok_capacities) (simp add: distinct_keys_put)
  next
    case Nil
    show ?thesis
    proof (cases "ri_closed (cl_heap ?c ! a)")
      case False
      with Nil assms show ?thesis by (simp add: poll_def Let_def)
    next
      case True
      let ?m = "m\<lparr>mc_capacities := map_del (mc_capacities m) k, mc_resources := map_del (mc_resources m) k\<rparr>"
      have r: "resources_of ?m j = (if j = sk_client k then (resources_of m j)(sk_resource k := None) else resources_of m j)" for j
        by (intro ext) (cases k, auto simp: resources_of_def map_of_del)
      have un: "map_of (cl_resources ?c) (sk_resource k) = None"
        using t(3) a True client_ok_lookup(3) [of ?c "sk_resource k"]
        by (cases "map_of (cl_resources ?c) (sk_resource k)") (auto simp: linked_def open_resource_def)
      have "linked ?c ((resources_of m (sk_client k))(sk_resource k := None))"
        using t(3) un by (auto simp: linked_def)
      moreover have "distinct_keys (mc_clients m)" "distinct_keys (mc_resources m)" "distinct_keys (mc_capacities m)"
        by (rule shell_ok_distinct [OF assms(1)])+
      ultimately have "shell_ok ?m"
        using t by (intro shell_ok_change [OF assms(1), of ?m "sk_client k" ?c]) (simp_all add: r distinct_keys_del)
      with Nil True show ?thesis by (simp add: poll_def Let_def)
    qed
  qed
qed


definition eval_ok :: "shell_stop + Multiclient \<times> shell_result \<Rightarrow> bool" where
  "eval_ok r = (\<forall>m' x. r = Inr (m', x) \<longrightarrow> shell_ok m' \<and> x \<noteq> Failed (ClientError ErrDuplicateResourceID))"

lemma eval_ok_Inr [simp]: "eval_ok (Inr (m', x)) = (shell_ok m' \<and> x \<noteq> Failed (ClientError ErrDuplicateResourceID))"
  by (simp add: eval_ok_def)

lemma report_ok:
  assumes "only_waits answers r" and "\<And>m' e. r = Inr (m', e) \<Longrightarrow> shell_ok m' \<and> not_duplicate e"
  shows "only_waits answers (bind_stop r (\<lambda>(m', err). Inr (m', case err of None \<Rightarrow> Done | Some e \<Rightarrow> Failed e)))"
    and "eval_ok (bind_stop r (\<lambda>(m', err). Inr (m', case err of None \<Rightarrow> Done | Some e \<Rightarrow> Failed e)))"
proof -
  show "only_waits answers (bind_stop r (\<lambda>(m', err). Inr (m', case err of None \<Rightarrow> Done | Some e \<Rightarrow> Failed e)))"
    using assms(1) by (rule only_waits_bind) (simp add: split_beta)
  show "eval_ok (bind_stop r (\<lambda>(m', err). Inr (m', case err of None \<Rightarrow> Done | Some e \<Rightarrow> Failed e)))"
    using assms(2) by (cases r) (auto simp: eval_ok_def not_duplicate_def split: option.splits)
qed

lemma shell_Eval_ok:
  assumes "shell_ok m"
  shows "only_waits answers (shell_Eval answers parse_float dial m command)"
    and "eval_ok (shell_Eval answers parse_float dial m command)"
proof -
  note w = report_ok [OF shell_Get_ok [OF assms]] report_ok [OF shell_Release_ok [OF assms]]
  show "only_waits answers (shell_Eval answers parse_float dial m command)"
    unfolding shell_Eval_def Let_def using w(1,3) by (simp split: list.split option.split)
  show "eval_ok (shell_Eval answers parse_float dial m command)"
    unfolding shell_Eval_def Let_def using w(2,4) assms by (simp split: list.split option.split)
qed

text \<open>The calls that the commands of a session wait for and that are not answered.\<close>

definition unanswered :: "shell_event list \<Rightarrow> shell_stop \<Rightarrow> bool" where
  "unanswered es stop = list_ex (\<lambda>e. case e of
       Command command answers \<Rightarrow> (case stop of WaitsFor i call \<Rightarrow> \<not> answers i call | Panics p \<Rightarrow> False)
     | _ \<Rightarrow> False) es"

lemma shell_step_ok:
  assumes "shell_ok m"
  shows "case shell_step parse_float dial e m of Inl stop \<Rightarrow> unanswered [e] stop | Inr m' \<Rightarrow> shell_ok m'"
proof (cases e)
  case (Command command answers)
  with shell_Eval_ok [OF assms, of answers parse_float dial command] show ?thesis
    by (cases "shell_Eval answers parse_float dial m command") (auto simp: shell_step_def unanswered_def only_waits_def eval_ok_def)
next
  case (Poll k)
  then show ?thesis using assms poll_ok [OF assms] by (auto simp: shell_step_def split: option.split)
next
  case (Round i now n reply)
  show ?thesis
  proof (cases "map_of (mc_clients m) i")
    case (Some c)
    then have "client_ok c" using shell_ok_client [OF assms] by (simp add: linked_def)
    from performRequests_evolves [OF this, of now n reply] obtain r where
      r: "performRequests now c n reply = Inr r" "\<And>c' x. r = Some (c', x) \<Longrightarrow> evolves c c'" by blast
    show ?thesis
    proof (cases r)
      case None
      then show ?thesis using assms r(1) Some Round by (simp add: shell_step_def)
    next
      case (Some y)
      then show ?thesis using assms r \<open>map_of (mc_clients m) i = Some c\<close> Round
        by (cases y) (simp add: shell_step_def shell_ok_evolves)
    qed
  qed (use assms Round in \<open>simp add: shell_step_def\<close>)
qed

lemma shell_run_ok:
  "shell_ok m \<Longrightarrow> case shell_run parse_float dial es m of Inl stop \<Rightarrow> unanswered es stop | Inr m' \<Rightarrow> shell_ok m'"
proof (induction es arbitrary: m)
  case (Cons e es)
  show ?case
  proof (cases "shell_step parse_float dial e m")
    case (Inl stop)
    with shell_step_ok [OF Cons.prems, where e = e and parse_float = parse_float and dial = dial] show ?thesis
      by (simp add: unanswered_def)
  next
    case (Inr m1)
    with shell_step_ok [OF Cons.prems, where e = e and parse_float = parse_float and dial = dial] have "shell_ok m1" by simp
    from Cons.IH [OF this] Inr show ?thesis by (auto simp: unanswered_def split: sum.split)
  qed
qed simp

lemma shell_ok_new: "shell_ok new_multiclient"
  by (simp add: shell_ok_def new_multiclient_def resources_of_def)

section \<open>Closing\<close>

text \<open>No client claims the resource of the key.\<close>

definition unclaimed :: "Multiclient \<Rightarrow> shell_key \<Rightarrow> bool" where
  "unclaimed m k = (\<forall>c. map_of (mc_clients m) (sk_client k) = Some c \<longrightarrow> map_of (cl_resources c) (sk_resource k) = None)"

lemma removeResource_unclaimed:
  "removeResource c a = Inr (c', req) \<Longrightarrow> map_of (cl_resources c) r = None \<Longrightarrow> map_of (cl_resources c') r = None"
  by (auto simp: removeResource_def Let_def cl_write_def map_of_del split: if_splits)

lemma no_keys: "(\<And>s. map_of kvs s = None) \<Longrightarrow> kvs = []"
  by (cases kvs) (auto, metis option.distinct(1))

lemma release_all_ok:
  assumes "shell_ok m" and "\<forall>(k, a) \<in> set rs. map_of (mc_resources m) k = Some a"
  shows "only_waits answers (release_all answers rs m) \<and> (\<forall>m'. release_all answers rs m = Inr m' \<longrightarrow>
    shell_ok m' \<and> mc_resources m' = mc_resources m \<and> (\<forall>k. k \<in> fst ` set rs \<or> unclaimed m k \<longrightarrow> unclaimed m' k))"
  using assms
proof (induction rs arbitrary: m)
  case (Cons ka rs)
  obtain k a where ka: "ka = (k, a)" by force
  have a: "resources_of m (sk_client k) (sk_resource k) = Some a" using Cons.prems(2) by (simp add: ka resources_of_def)
  note t = the_client_resource [OF Cons.prems(1) a]
  obtain c req where c: "removeResource (the_client m (sk_client k)) a = Inr (c, req)"
    "linked c (resources_of m (sk_client k))" "cl_id c = sk_client k" "map_of (cl_resources c) (sk_resource k) = None"
    using removeResource_linked [OF t(3) a] t(2) by auto
  let ?m = "set_client (sk_client k) c m"
  have "shell_ok ?m" by (rule shell_ok_set_client [OF Cons.prems(1) c(3,2)])
  note IH = Cons.IH [OF this]
  have u: "unclaimed ?m k'" if "k' = k \<or> unclaimed m k'" for k'
    using that removeResource_unclaimed [OF c(1)] t(1) c(4) by (auto simp: unclaimed_def)
  show ?case
  proof (cases "answers (sk_client k) Releasing")
    case True
    have r: "release_all answers (ka # rs) m = release_all answers rs ?m" by (simp add: ka c(1) await_def True)
    show ?thesis unfolding r using IH Cons.prems(2) u by (auto simp: ka)
  qed (simp add: ka await_def)
qed simp

lemma close_all_ok:
  "\<forall>(i, c) \<in> set cs. cl_resources c = [] \<Longrightarrow> only_waits answers (close_all answers cs) \<and>
    (\<forall>cs'. close_all answers cs = Inr cs' \<longrightarrow> cs' = cs \<and> (\<forall>(i, c) \<in> set cs. answers i Closing))"
proof (induction cs)
  case (Cons e cs)
  obtain i c where e: "e = (i, c)" by force
  have c: "client_Close c = Inr (c, \<lparr>rcq_ClientId = Some (cl_id c), rcq_ResourceId = []\<rparr>)"
    using Cons.prems by (simp add: e client_Close_def)
  from Cons show ?case
    by (cases "answers i Closing"; cases "close_all answers cs") (auto simp: e c await_def only_waits_def)
qed simp

text \<open>When \<open>Close\<close> has returned, no client claims a resource and every channel that a goroutine of the
  shell reads has been closed.\<close>

definition shut :: "Multiclient \<Rightarrow> bool" where
  "shut m = (list_all (\<lambda>(i, c). cl_resources c = []) (mc_clients m) \<and>
     list_all (\<lambda>(k, a). ri_closed (cl_heap (the_client m (sk_client k)) ! a)) (mc_resources m))"

text \<open>After the loop over the table no client claims anything, because a claim is in the table.\<close>

lemma released_all:
  assumes "shell_ok m" and "shell_ok m1" and "mc_resources m1 = mc_resources m"
    and "\<forall>k. k \<in> fst ` set (mc_resources m) \<longrightarrow> unclaimed m1 k"
  shows "\<forall>(i, c) \<in> set (mc_clients m1). cl_resources c = []"
    and "(k, a) \<in> set (mc_resources m) \<Longrightarrow> ri_closed (cl_heap (the_client m1 (sk_client k)) ! a)"
proof -
  have none: "map_of (cl_resources c) s = None" if "map_of (mc_clients m1) i = Some c" for i c s
  proof (cases "map_of (cl_resources c) s")
    case (Some a)
    then have "map_of (mc_resources m) \<lparr>sk_client = i, sk_resource = s\<rparr> = Some a"
      using shell_ok_client [OF assms(2) that] by (simp add: linked_def resources_of_def assms(3))
    then have "\<lparr>sk_client = i, sk_resource = s\<rparr> \<in> fst ` set (mc_resources m)" by (metis fst_conv image_eqI map_of_SomeD)
    with assms(4) have "unclaimed m1 \<lparr>sk_client = i, sk_resource = s\<rparr>" by blast
    with that show ?thesis by (simp add: unclaimed_def)
  qed
  show "\<forall>(i, c) \<in> set (mc_clients m1). cl_resources c = []"
  proof clarify
    fix i c assume "(i, c) \<in> set (mc_clients m1)"
    then have "map_of (mc_clients m1) i = Some c" using shell_ok_distinct(1) [OF assms(2)] by simp
    from no_keys [OF none [OF this]] show "cl_resources c = []" .
  qed
  assume ka: "(k, a) \<in> set (mc_resources m)"
  then have "map_of (mc_resources m) k = Some a" using shell_ok_distinct(2) [OF assms(1)] by simp
  then have a: "resources_of m1 (sk_client k) (sk_resource k) = Some a" by (simp add: resources_of_def assms(3))
  note t = the_client_resource [OF assms(2) a]
  have "map_of (cl_resources (the_client m1 (sk_client k))) (sk_resource k) = None" using none [OF t(1)] .
  with t(3) a show "ri_closed (cl_heap (the_client m1 (sk_client k)) ! a)"
    unfolding linked_def by (metis option.distinct(1))
qed

lemma shell_Close_ok:
  assumes "shell_ok m"
  shows "only_waits answers (shell_Close answers m)"
    and "shell_Close answers m = Inr m' \<Longrightarrow> shut m'"
proof -
  have "\<forall>(k, a) \<in> set (mc_resources m). map_of (mc_resources m) k = Some a"
    using shell_ok_distinct(2) [OF assms] by auto
  note r = release_all_ok [OF assms this, of answers]
  have all: "\<forall>(i, c) \<in> set (mc_clients m1). cl_resources c = []" "mc_resources m1 = mc_resources m"
    "\<And>k a. (k, a) \<in> set (mc_resources m) \<Longrightarrow> ri_closed (cl_heap (the_client m1 (sk_client k)) ! a)"
    if "release_all answers (mc_resources m) m = Inr m1" for m1
  proof -
    have m1: "shell_ok m1" "mc_resources m1 = mc_resources m" "\<forall>k. k \<in> fst ` set (mc_resources m) \<longrightarrow> unclaimed m1 k"
      using r that by blast+
    from released_all [OF assms m1] m1(2)
    show "\<forall>(i, c) \<in> set (mc_clients m1). cl_resources c = []" "mc_resources m1 = mc_resources m"
      "\<And>k a. (k, a) \<in> set (mc_resources m) \<Longrightarrow> ri_closed (cl_heap (the_client m1 (sk_client k)) ! a)" by blast+
  qed
  have c: "only_waits answers (close_all answers (mc_clients m1))" "close_all answers (mc_clients m1) = Inr cs \<Longrightarrow> cs = mc_clients m1"
    if "release_all answers (mc_resources m) m = Inr m1" for m1 cs
    using close_all_ok [OF all(1) [OF that], of answers] by blast+
  show "only_waits answers (shell_Close answers m)"
    unfolding shell_Close_def by (intro only_waits_bind conjunct1 [OF r] c(1) only_waits_simps(1))
  assume "shell_Close answers m = Inr m'"
  then obtain m1 cs where m1: "release_all answers (mc_resources m) m = Inr m1" "close_all answers (mc_clients m1) = Inr cs"
    "m' = m1\<lparr>mc_clients := cs\<rparr>" unfolding shell_Close_def bind_stop_Inr by blast
  have "m' = m1" using c(2) [OF m1(1,2)] m1(3) by simp
  with all [OF m1(1)] show "shut m'" by (auto simp: shut_def list_all_iff)
qed

section \<open>The order of the output\<close>

lemma str_less_irrefl: "\<not> str_less s s"
  by (induction s) auto

lemma str_less_trans: "str_less r s \<Longrightarrow> str_less s t \<Longrightarrow> str_less r t"
proof (induction r s arbitrary: t rule: str_less.induct)
  case (3 a as b bs)
  then show ?case by (cases t) auto
qed (auto elim: str_less.elims)

lemma str_less_asym: "str_less s t \<Longrightarrow> \<not> str_less t s"
  using str_less_trans str_less_irrefl by blast

lemma str_less_total: "str_less s t \<or> s = t \<or> str_less t s"
proof (induction s t rule: str_less.induct)
  case (1 s)
  then show ?case by (cases s) auto
next
  case (3 a as b bs)
  have "of_char a < (of_char b :: nat) \<or> a = b \<or> of_char b < (of_char a :: nat)"
    by (metis linorder_neqE_nat of_char_eq_iff)
  with 3 show ?case by auto
qed auto

lemma assignment_Less_trans: "assignment_Less x y \<Longrightarrow> assignment_Less y z \<Longrightarrow> assignment_Less x z"
  by (auto simp: assignment_Less_def dest: str_less_trans str_less_asym split: if_splits)

lemma assignment_Less_total: "as_key x \<noteq> as_key y \<Longrightarrow> assignment_Less x y \<or> assignment_Less y x"
  using str_less_total by (cases "as_key x"; cases "as_key y") (auto simp: assignment_Less_def)

lemma mset_sort_insert: "mset (sort_insert a as) = add_mset a (mset as)"
  by (induction as) auto

lemma set_sort_insert: "set (sort_insert a as) = insert a (set as)"
  by (induction as) auto

lemma sorted_sort_insert:
  "sorted_wrt assignment_Less as \<Longrightarrow> as_key a \<notin> as_key ` set as \<Longrightarrow> sorted_wrt assignment_Less (sort_insert a as)"
proof (induction as)
  case (Cons b bs)
  then show ?case using assignment_Less_total [of a b] assignment_Less_trans [of a b] by (auto simp: set_sort_insert)
qed simp

lemma mset_sort_Sort: "mset (sort_Sort as) = mset as"
  unfolding sort_Sort_def by (induction as) (simp_all add: mset_sort_insert)

lemma sorted_sort_Sort: "distinct (map as_key as) \<Longrightarrow> sorted_wrt assignment_Less (sort_Sort as)"
proof (induction as)
  case (Cons a as)
  have "set (sort_Sort as) = set as" using mset_sort_Sort [of as] by (rule mset_eq_setD)
  with Cons show ?case unfolding sort_Sort_def by (simp add: sorted_sort_insert)
qed (simp add: sort_Sort_def)

lemma map_as_key: "map as_key (map (\<lambda>(k, v). \<lparr>as_key = k, as_capacity = v\<rparr>) kvs) = map fst kvs"
  by (induction kvs) auto

section \<open>Properties\<close>

text \<open>C23. In no session, whatever the servers answer and in whatever order the goroutines run, does the
  shell panic: a channel is never closed twice and nothing is sent on a closed one. All that can
  stop it is a command that waits for a client's goroutine and is never answered. No command fails
  because a client has claimed the resource already. Closing the shell at the end does not panic
  either: it waits for ever for some call that is not answered, or it returns with every resource
  released and the channel of every one in the table closed.\<close>

theorem shell_session_safe:
  "case shell_run parse_float dial es new_multiclient of
     Inl stop \<Rightarrow> (\<exists>i call. stop = WaitsFor i call \<and>
       list_ex (\<lambda>e. case e of Command command answers \<Rightarrow> \<not> answers i call | _ \<Rightarrow> False) es)
   | Inr m \<Rightarrow>
       list_all (\<lambda>(i, c). cl_id c = i \<and> client_ok c) (mc_clients m) \<and>
       (\<forall>answers command m'. shell_Eval answers parse_float dial m command \<noteq> Inr (m', Failed (ClientError ErrDuplicateResourceID))) \<and>
       (\<forall>answers. case shell_Close answers m of
          Inl stop \<Rightarrow> \<exists>i call. stop = WaitsFor i call \<and> \<not> answers i call
        | Inr m' \<Rightarrow> list_all (\<lambda>(i, c). cl_resources c = []) (mc_clients m') \<and>
            list_all (\<lambda>(k, a). ri_closed (cl_heap (the_client m' (sk_client k)) ! a)) (mc_resources m'))"
proof (cases "shell_run parse_float dial es new_multiclient")
  case (Inl stop)
  with shell_run_ok [OF shell_ok_new, where es = es and parse_float = parse_float and dial = dial] show ?thesis
    by (cases stop) (auto simp: unanswered_def list_ex_iff split: shell_event.splits, metis shell_event.exhaust)
next
  case (Inr m)
  with shell_run_ok [OF shell_ok_new, where es = es and parse_float = parse_float and dial = dial] have ok: "shell_ok m" by simp
  have "list_all (\<lambda>(i, c). cl_id c = i \<and> client_ok c) (mc_clients m)"
    using shell_ok_client [OF ok] shell_ok_distinct(1) [OF ok] by (auto simp: list_all_iff linked_def)
  moreover have "shell_Eval answers parse_float dial m command \<noteq> Inr (m', Failed (ClientError ErrDuplicateResourceID))"
    for answers command m' using shell_Eval_ok(2) [OF ok, of answers parse_float dial command] unfolding eval_ok_def by blast
  ultimately show ?thesis
    using shell_Close_ok [OF ok] by (simp add: Inr shut_def only_waits_def split: sum.split)
qed

text \<open>With a master the shell goes on: when every call is answered, every session runs to its end and the
  shell can be closed after it.\<close>

lemma shell_session_ends:
  assumes "list_all (\<lambda>e. case e of Command command answers \<Rightarrow> \<forall>i call. answers i call | _ \<Rightarrow> True) es"
  shows "\<exists>m m'. shell_run parse_float dial es new_multiclient = Inr m \<and> shell_Close (\<lambda>i call. True) m = Inr m' \<and> shut m'"
proof -
  have "\<not> unanswered es stop" for stop
    using assms by (auto simp: unanswered_def list_ex_iff list_all_iff split: shell_event.splits shell_stop.splits)
  with shell_run_ok [OF shell_ok_new, where es = es and parse_float = parse_float and dial = dial] obtain m where
    m: "shell_run parse_float dial es new_multiclient = Inr m" "shell_ok m" by (auto split: sum.splits)
  from shell_Close_ok [OF m(2), of "\<lambda>i call. True"] m(1) show ?thesis
    by (cases "shell_Close (\<lambda>i call. True) m") (auto simp: only_waits_def)
qed

text \<open>After every session \<open>show\<close> lists each capacity that the shell knows exactly once, in
  strictly increasing order of resource and client.\<close>

lemma show_sorted:
  assumes "shell_run parse_float dial es new_multiclient = Inr m"
  shows "\<exists>as. shell_Eval answers parse_float dial m [''show''] = Inr (m, Shown as) \<and> sorted_wrt assignment_Less as \<and>
     mset as = image_mset (\<lambda>(k, v). \<lparr>as_key = k, as_capacity = v\<rparr>) (mset (mc_capacities m))"
proof -
  have m: "shell_ok m" using shell_run_ok [OF shell_ok_new, where es = es and parse_float = parse_float and dial = dial] assms by simp
  have "sorted_wrt assignment_Less (show_capacities m)"
    unfolding show_capacities_def using shell_ok_distinct(3) [OF m]
    by (intro sorted_sort_Sort) (simp only: map_as_key)
  then show ?thesis by (auto simp: shell_Eval_def show_capacities_def mset_sort_Sort)
qed

text \<open>A \<open>get\<close> that follows a \<open>release\<close> before the shell has noticed that the channel is closed is
  lost: it reports no error, but no client claims the resource, and when the channel has been
  drained the resource leaves the table with its new wants.\<close>

lemma get_after_release_lost:
  assumes "shell_ok m" and "map_of (mc_resources m) \<lparr>sk_client = i, sk_resource = r\<rparr> = Some a" and "0 < w"
    and "answers i Releasing"
  shows "\<exists>m1 m2 c. shell_Release answers dial m i r = Inr (m1, None) \<and>
    shell_Get answers dial m1 i r (Fin w) = Inr (m2, None) \<and>
    map_of (mc_clients m2) i = Some c \<and> map_of (cl_resources c) r = None \<and> ri_closed (cl_heap c ! a) \<and>
    ri_wants (cl_heap c ! a) = Fin w"
proof -
  have a: "resources_of m i r = Some a" using assms(2) by (simp add: resources_of_def)
  note t = the_client_resource [OF assms(1) a]
  obtain c req where c: "removeResource (the_client m i) a = Inr (c, req)" "linked c (resources_of m i)"
    "map_of (cl_resources c) r = None"
    using removeResource_linked [OF t(3) a] by auto
  let ?c = "cl_write c a ((cl_heap c ! a)\<lparr>ri_wants := Fin w\<rparr>)"
  have "shell_Release answers dial m i r = Inr (set_client i c m, None)"
    using assms(2,4) c(1) by (simp add: shell_Release_def getResource_def Let_def)
  moreover have "shell_Get answers dial (set_client i c m) i r (Fin w) = Inr (set_client i ?c (set_client i c m), None)"
    using assms(2,3) by (simp add: shell_Get_def getResource_def Ask_def the_client_def Let_def)
  moreover have "a < length (cl_heap c)" "ri_closed (cl_heap c ! a)"
    using c(2,3) a unfolding linked_def by (metis option.distinct(1))+
  ultimately show ?thesis using c(3) by auto
qed

text \<open>A session of one client that claims one resource.\<close>

definition example_shell :: Multiclient where
  "example_shell = (case shell_Get (\<lambda>i call. True) (\<lambda>_. Some (getOptions [])) new_multiclient ''c'' ''r'' (Fin 10) of
     Inr (m, e) \<Rightarrow> m | Inl stop \<Rightarrow> new_multiclient)"

lemma example_shell_ok:
  "shell_ok example_shell" "map_of (mc_resources example_shell) \<lparr>sk_client = ''c'', sk_resource = ''r''\<rparr> = Some 0"
proof -
  show "shell_ok example_shell"
    unfolding example_shell_def using shell_Get_ok(2) [OF shell_ok_new] shell_ok_new by (auto split: sum.split)
  show "map_of (mc_resources example_shell) \<lparr>sk_client = ''c'', sk_resource = ''r''\<rparr> = Some 0"
    by (simp add: example_shell_def shell_Get_def getResource_def getClient_def new_multiclient_def ResourceWithPriority_def
        addResource_def NewWithID_def Ask_def the_client_def set_client_def map_of_put Let_def)
qed

lemma get_after_release_lost_witness:
  "\<exists>m1 m2 c. shell_Release (\<lambda>i call. True) (\<lambda>_. None) example_shell ''c'' ''r'' = Inr (m1, None) \<and>
     shell_Get (\<lambda>i call. True) (\<lambda>_. None) m1 ''c'' ''r'' (Fin 5) = Inr (m2, None) \<and>
     map_of (mc_clients m2) ''c'' = Some c \<and> map_of (cl_resources c) ''r'' = None"
  using get_after_release_lost [OF example_shell_ok, of 5 "\<lambda>i call. True" "\<lambda>_. None"] by fastforce

end
