(* ===== verification/Rate_Limiter.thy ===== *)
theory Rate_Limiter
  imports Go_Time
begin

text \<open>
  The rate limiter that turns the capacity of a resource into operations per second
  (\<open>go/ratelimiter/ratelimiter.go\<close>). Its goroutine handles one event at a time; \<open>limiter_step\<close>
  is one pass of its loop and \<open>limiter_reach\<close> are the states it can be in. A conversion of a
  float that Go leaves open makes a pass \<open>Unspecified\<close>.
\<close>

section \<open>The code\<close>

record qpsRateLimiter =
  rl_interval :: duration
  rl_rate :: int64
  rl_subintervals :: int64

definition milliseconds :: "int64 \<Rightarrow> duration" where
  "milliseconds n = n * Millisecond"

text \<open>\<open>recalculate\<close>: the limiter with its subintervals set, the new rate, the leftover rate and
  the new interval. \<open>None\<close> stands for a conversion that Go leaves open.\<close>

definition recalculate :: "qpsRateLimiter \<Rightarrow> int64 \<Rightarrow> int64
    \<Rightarrow> panic + (qpsRateLimiter \<times> int64 \<times> int64 \<times> duration) option" where
  "recalculate rl rate interval =
     (if 1 < sint rate \<and> 20 \<le> sint interval then
        bind_panic (div64 interval 20) (\<lambda>slots.
          case float_to_int64 (math_Min (float64 rate) (float64 slots)) of
            None \<Rightarrow> Inr None
          | Some subintervals \<Rightarrow>
              bind_panic (div64 rate subintervals) (\<lambda>newRate.
              bind_panic (mod64 rate subintervals) (\<lambda>leftoverRate.
                case float_to_int64 (float64 (newRate * interval) / float64 rate) of
                  None \<Rightarrow> Inr None
                | Some interval' \<Rightarrow>
                    Inr (Some (rl\<lparr>rl_subintervals := subintervals\<rparr>, newRate, leftoverRate, milliseconds interval')))))
      else Inr (Some (rl, rate, 0, milliseconds interval)))"

text \<open>\<open>update\<close>: the limiter and the leftover rate.\<close>

definition update_with :: "int64 option \<Rightarrow> (int64 \<Rightarrow> panic + (qpsRateLimiter \<times> int64 \<times> int64 \<times> duration) option)
    \<Rightarrow> panic + (qpsRateLimiter \<times> int64) option" where
  "update_with converted f = (case converted of
       None \<Rightarrow> Inr None
     | Some n \<Rightarrow> bind_panic (f n) (\<lambda>r. Inr (map_option (\<lambda>(rl, rate, leftoverRate, interval).
           (rl\<lparr>rl_rate := rate, rl_interval := interval\<rparr>, leftoverRate)) r)))"

definition limiter_update :: "qpsRateLimiter \<Rightarrow> f64 \<Rightarrow> panic + (qpsRateLimiter \<times> int64) option" where
  "limiter_update rl capacity =
     (if capacity < Fin 0 then Inr (Some (rl\<lparr>rl_rate := - 1\<rparr>, 0))
      else if feq capacity (Fin 0) then Inr (Some (rl\<lparr>rl_rate := 0\<rparr>, 0))
      else if capacity \<le> Fin 10 then
        update_with (float_to_int64 (Fin 1000 / capacity)) (\<lambda>interval. recalculate rl 1 interval)
      else update_with (float_to_int64 capacity) (\<lambda>rate. recalculate rl rate 1000))"

definition unlimited :: "qpsRateLimiter \<Rightarrow> bool" where
  "unlimited rl = (sint (rl_rate rl) < 0)"

definition rl_blocked :: "qpsRateLimiter \<Rightarrow> bool" where
  "rl_blocked rl = (rl_rate rl = 0)"

text \<open>The loop: the limiter and the local variables of \<open>run\<close>.\<close>

record limiter =
  lm_rl :: qpsRateLimiter
  lm_released :: int64
  lm_leftoverRate :: int64
  lm_leftoverRateOriginal :: int64

definition NewQPS :: limiter where
  "NewQPS = \<lparr>lm_rl = \<lparr>rl_interval = 0, rl_rate = 0, rl_subintervals = 0\<rparr>, lm_released = 0,
     lm_leftoverRate = 0, lm_leftoverRateOriginal = 0\<rparr>"

text \<open>
  The timer fires: the limiter and how many operations it lets through at most. It then tries
  that many sends; \<open>ready i\<close> says whether a goroutine is waiting at the \<open>i\<close>-th.
\<close>

definition wake_up :: "limiter \<Rightarrow> panic + limiter \<times> int64" where
  "wake_up lm =
     (let rate = rl_rate (lm_rl lm) in
      if sint (lm_released lm) < sint (rl_subintervals (lm_rl lm)) then
        if 0 < sint (lm_leftoverRate lm) then
          bind_panic (div64 (lm_leftoverRate lm) rate) (\<lambda>q.
            let stepLeftoverRate = q + 1
            in Inr (lm\<lparr>lm_leftoverRate := lm_leftoverRate lm - stepLeftoverRate, lm_released := lm_released lm + 1\<rparr>,
              rate + stepLeftoverRate))
        else Inr (lm\<lparr>lm_released := lm_released lm + 1\<rparr>, rate)
      else Inr (lm\<lparr>lm_released := 0, lm_leftoverRate := lm_leftoverRateOriginal lm\<rparr>, rate))"

definition unfreeze :: "int64 \<Rightarrow> (nat \<Rightarrow> bool) \<Rightarrow> nat" where
  "unfreeze mx ready = length (filter ready [0..<nat (sint mx)])"

text \<open>
  The events of the loop. A call of \<open>Wait\<close> on an unlimited limiter gets a channel of its own, on
  which the loop then sends; if the caller's context is done and it takes that branch of its
  \<open>select\<close>, the loop waits for ever (\<open>Hung\<close>).
\<close>

datatype limiter_event = LimiterClose | LimiterCapacity f64 | LimiterWait bool | LimiterWakeUp "nat \<Rightarrow> bool"

datatype limiter_outcome = Running limiter nat | Halted | Hung | Unspecified

definition limiter_step :: "limiter \<Rightarrow> limiter_event \<Rightarrow> panic + limiter_outcome" where
  "limiter_step lm event = (case event of
       LimiterClose \<Rightarrow> Inr Halted
     | LimiterCapacity capacity \<Rightarrow>
         bind_panic (limiter_update (lm_rl lm) capacity) (\<lambda>r. Inr (case r of
             None \<Rightarrow> Unspecified
           | Some (rl, leftoverRate) \<Rightarrow>
               Running (lm\<lparr>lm_rl := rl, lm_leftoverRateOriginal := leftoverRate, lm_released := 0,
                 lm_leftoverRate := leftoverRate\<rparr>) 0))
     | LimiterWait cancelled \<Rightarrow>
         Inr (if unlimited (lm_rl lm) then (if cancelled then Hung else Running lm 1) else Running lm 0)
     | LimiterWakeUp ready \<Rightarrow>
         bind_panic (wake_up lm) (\<lambda>(lm', mx). Inr (Running lm' (unfreeze mx ready))))"

text \<open>The timer runs only when the limiter is neither blocked nor unlimited.\<close>

definition enabled :: "limiter \<Rightarrow> limiter_event \<Rightarrow> bool" where
  "enabled lm event = (case event of
       LimiterWakeUp ready \<Rightarrow> \<not> rl_blocked (lm_rl lm) \<and> \<not> unlimited (lm_rl lm)
     | _ \<Rightarrow> True)"

inductive limiter_reach :: "limiter \<Rightarrow> bool" where
  start: "limiter_reach NewQPS"
| step: "limiter_reach lm \<Longrightarrow> enabled lm event \<Longrightarrow> limiter_step lm event = Inr (Running lm' n) \<Longrightarrow>
    limiter_reach lm'"

text \<open>
  The loop makes a new timer in every pass, so the timer fires only when nothing else has happened
  for an interval. A timed run is a list of events with their times and how many operations
  each lets through.
\<close>

inductive timed_run :: "limiter \<Rightarrow> time \<Rightarrow> (time \<times> limiter_event \<times> nat) list \<Rightarrow> bool" where
  timed_done: "timed_run lm t []"
| timed_step: "t \<le> t' \<Longrightarrow> enabled lm event \<Longrightarrow>
    (\<And>ready. event = LimiterWakeUp ready \<Longrightarrow> sint (rl_interval (lm_rl lm)) \<le> t' - t) \<Longrightarrow>
    limiter_step lm event = Inr (Running lm' n) \<Longrightarrow> timed_run lm' t' events \<Longrightarrow>
    timed_run lm t ((t', event, n) # events)"

inductive_simps timed_run_simps [simp]: "timed_run lm t []" "timed_run lm t ((t', event, n) # events)"

section \<open>Updates\<close>

text \<open>The numbers of a split rate: subintervals, rate, leftover and interval in milliseconds.\<close>

definition split_sub :: "int \<Rightarrow> int" where "split_sub R = min R 50"
definition split_rate :: "int \<Rightarrow> int" where "split_rate R = R div split_sub R"
definition split_left :: "int \<Rightarrow> int" where "split_left R = R mod split_sub R"
definition split_interval :: "int \<Rightarrow> int" where "split_interval R = split_rate R * 1000 div R"

lemma split_bounds:
  assumes "1 < R"
  shows "1 < split_sub R" "split_sub R \<le> 50" "0 < split_rate R" "split_rate R \<le> R" "0 \<le> split_left R"
    "split_left R < split_sub R" "0 \<le> split_interval R" "split_interval R \<le> 1000"
    "R = split_sub R * split_rate R + split_left R"
proof -
  show s: "1 < split_sub R" "split_sub R \<le> 50" using assms by (simp_all add: split_sub_def)
  have le: "split_sub R \<le> R" by (simp add: split_sub_def)
  show r: "0 < split_rate R" using s le by (simp add: split_rate_def pos_imp_zdiv_pos_iff)
  have "split_rate R \<le> R div 1" unfolding split_rate_def using s assms by (intro zdiv_mono2) auto
  then show rR: "split_rate R \<le> R" by simp
  show "0 \<le> split_left R" "split_left R < split_sub R" using s by (simp_all add: split_left_def)
  show "0 \<le> split_interval R" using assms r by (simp add: split_interval_def pos_imp_zdiv_nonneg_iff)
  have "split_rate R * 1000 div R \<le> R * 1000 div R" using rR assms by (intro zdiv_mono1) auto
  then show "split_interval R \<le> 1000" using assms by (simp add: split_interval_def)
  show "R = split_sub R * split_rate R + split_left R" by (simp add: split_rate_def split_left_def)
qed

lemma sint_Millisecond [simp]: "sint Millisecond = 1000000"
  by (simp add: Millisecond_def)

lemma sint_milliseconds:
  assumes "\<bar>sint n\<bar> \<le> 9223372036854"
  shows "sint (milliseconds n) = sint n * 1000000"
  using assms by (simp add: milliseconds_def sint64_mult)

lemma recalculate_one: "recalculate rl 1 interval = Inr (Some (rl, 1, 0, milliseconds interval))"
  by (simp add: recalculate_def)

lemma recalculate_parts:
  fixes rate :: int64
  assumes "1 < sint rate"
  shows "recalculate rl rate 1000 = Inr (map_option
    (\<lambda>interval. (rl\<lparr>rl_subintervals := word_of_int (split_sub (sint rate))\<rparr>, word_of_int (split_rate (sint rate)),
       word_of_int (split_left (sint rate)), milliseconds interval))
    (float_to_int64 (float64 (word_of_int (split_rate (sint rate)) * 1000) / float64 rate)))"
proof -
  let ?R = "sint rate"
  note b = split_bounds [OF assms]
  have d: "div64 1000 20 = Inr (50 :: int64)" by (simp add: div64_nonneg)
  have m: "math_Min (float64 rate) (float64 50) = Fin (of_int (split_sub ?R))"
    by (simp add: float64_def split_sub_def of_int_min)
  have sub: "sint (word_of_int (split_sub ?R) :: int64) = split_sub ?R"
    using b by (intro sint64_of_int) auto
  have c: "float_to_int64 (Fin (of_int (split_sub ?R))) = Some (word_of_int (split_sub ?R))"
    using b by (simp add: float_to_int64_def)
  have q: "div64 rate (word_of_int (split_sub ?R)) = Inr (word_of_int (split_rate ?R))"
    "mod64 rate (word_of_int (split_sub ?R)) = Inr (word_of_int (split_left ?R))"
    using b sub assms by (simp_all add: div64_nonneg mod64_nonneg split_rate_def split_left_def)
  show ?thesis unfolding recalculate_def using assms by (simp add: d m c q split: option.split)
qed

lemma recalculate_split:
  fixes rate :: int64
  assumes "1 < sint rate" and "sint rate \<le> 10 ^ 15"
  shows "recalculate rl rate 1000 = Inr (Some (rl\<lparr>rl_subintervals := word_of_int (split_sub (sint rate))\<rparr>,
    word_of_int (split_rate (sint rate)), word_of_int (split_left (sint rate)),
    milliseconds (word_of_int (split_interval (sint rate)))))"
proof -
  let ?R = "sint rate"
  note b = split_bounds [OF assms(1)]
  have r: "sint (word_of_int (split_rate ?R) :: int64) = split_rate ?R"
    using b assms by (intro sint64_of_int) auto
  have p: "sint (word_of_int (split_rate ?R) * 1000 :: int64) = split_rate ?R * 1000"
    using b assms r by (subst sint64_mult) auto
  have "float64 (word_of_int (split_rate ?R) * 1000) / float64 rate = Fin (of_int (split_rate ?R * 1000) / of_int ?R)"
    unfolding float64_def p using assms by simp
  moreover have t: "trunc_rat (of_int (split_rate ?R * 1000) / of_int ?R) = split_interval ?R"
    unfolding split_interval_def by (rule trunc_rat_quotient) (use b assms(1) in auto)
  have "float_to_int64 (Fin (of_int (split_rate ?R * 1000) / of_int ?R)) = Some (word_of_int (split_interval ?R))"
    using float_to_int64_trunc [of "of_int (split_rate ?R * 1000) / of_int ?R", unfolded t] b by simp
  ultimately show ?thesis unfolding recalculate_parts [OF assms(1)] by simp
qed

text \<open>What an update does, by the capacity.\<close>

lemma update_negative: "capacity < Fin 0 \<Longrightarrow> limiter_update rl capacity = Inr (Some (rl\<lparr>rl_rate := - 1\<rparr>, 0))"
  by (simp add: limiter_update_def)

lemma update_zero: "limiter_update rl (Fin 0) = Inr (Some (rl\<lparr>rl_rate := 0\<rparr>, 0))"
  by (simp add: limiter_update_def)

lemma update_slow:
  assumes "0 < c" and "c \<le> 10" and "1000 / c < 2 ^ 63"
  shows "limiter_update rl (Fin c) =
    Inr (Some (rl\<lparr>rl_rate := 1, rl_interval := milliseconds (word_of_int \<lfloor>1000 / c\<rfloor>)\<rparr>, 0))"
proof -
  have t: "trunc_rat (1000 / c) = \<lfloor>1000 / c\<rfloor>" using assms(1) by (simp add: trunc_rat_def)
  have u: "\<lfloor>1000 / c\<rfloor> < 2 ^ 63" using assms(3) by (simp add: floor_less_iff)
  have "0 \<le> \<lfloor>1000 / c\<rfloor>" using assms(1) by simp
  then have "- (2 ^ 63) \<le> \<lfloor>1000 / c\<rfloor>" by (rule order_trans [rotated]) simp
  from float_to_int64_trunc [of "1000 / c", unfolded t, OF this u] assms(1)
  have "float_to_int64 (Fin 1000 / Fin c) = Some (word_of_int \<lfloor>1000 / c\<rfloor>)" by simp
  then show ?thesis using assms by (simp add: limiter_update_def update_with_def recalculate_one)
qed

lemma update_split:
  assumes "10 < c" and "c \<le> 10 ^ 15"
  shows "limiter_update rl (Fin c) = Inr (Some (rl\<lparr>rl_subintervals := word_of_int (split_sub \<lfloor>c\<rfloor>),
      rl_rate := word_of_int (split_rate \<lfloor>c\<rfloor>), rl_interval := milliseconds (word_of_int (split_interval \<lfloor>c\<rfloor>))\<rparr>,
      word_of_int (split_left \<lfloor>c\<rfloor>)))"
proof -
  have lo: "10 \<le> \<lfloor>c\<rfloor>" using assms(1) by (simp add: le_floor_iff)
  have hi: "\<lfloor>c\<rfloor> \<le> 10 ^ 15" using assms(2) by (simp add: floor_le_iff)
  have s: "sint (word_of_int \<lfloor>c\<rfloor> :: int64) = \<lfloor>c\<rfloor>" using lo hi by (intro sint64_of_int) auto
  have "float_to_int64 (Fin c) = Some (word_of_int \<lfloor>c\<rfloor>)"
    using lo hi assms(1) by (simp add: float_to_int64_def trunc_rat_def)
  moreover have "recalculate rl (word_of_int \<lfloor>c\<rfloor>) 1000 = Inr (Some (rl\<lparr>rl_subintervals := word_of_int (split_sub \<lfloor>c\<rfloor>)\<rparr>,
      word_of_int (split_rate \<lfloor>c\<rfloor>), word_of_int (split_left \<lfloor>c\<rfloor>), milliseconds (word_of_int (split_interval \<lfloor>c\<rfloor>))))"
    using recalculate_split [of "word_of_int \<lfloor>c\<rfloor>" rl] lo hi unfolding s by simp
  ultimately show ?thesis using assms(1) by (simp add: limiter_update_def update_with_def)
qed

section \<open>Cycles\<close>

text \<open>Successive firings of the timer: the limiter and the total number of operations let through,
  if goroutines keep waiting.\<close>

fun wake_ups :: "nat \<Rightarrow> limiter \<Rightarrow> panic + limiter \<times> int" where
  "wake_ups 0 lm = Inr (lm, 0)"
| "wake_ups (Suc n) lm = bind_panic (wake_up lm) (\<lambda>(lm', mx).
     bind_panic (wake_ups n lm') (\<lambda>(lm'', total). Inr (lm'', sint mx + total)))"

lemma wake_ups_add:
  "wake_ups (m + n) lm = bind_panic (wake_ups m lm) (\<lambda>(lm', total).
     bind_panic (wake_ups n lm') (\<lambda>(lm'', total'). Inr (lm'', total + total')))"
proof (induction m arbitrary: lm)
  case 0
  then show ?case by (cases "wake_ups n lm") auto
next
  case (Suc m)
  then show ?case
    by (cases "wake_up lm") (auto simp: bind_panic_def split: sum.splits prod.splits)
qed

text \<open>A limiter in the middle of a cycle: \<open>s\<close> subintervals of rate \<open>r\<close>, \<open>k\<close> of them over, and \<open>l\<close>
  left over.\<close>

definition midcycle :: "limiter \<Rightarrow> int \<Rightarrow> int \<Rightarrow> int \<Rightarrow> int \<Rightarrow> limiter" where
  "midcycle lm s r k l = lm\<lparr>lm_rl := (lm_rl lm)\<lparr>rl_subintervals := word_of_int s, rl_rate := word_of_int r\<rparr>,
     lm_released := word_of_int k, lm_leftoverRate := word_of_int l\<rparr>"

lemma wake_up_rest:
  assumes s: "0 < s" "s \<le> 50" and r: "0 < r" "r \<le> 10 ^ 15"
    and "0 \<le> k" and "k < s" and "l \<le> 0" and "- 50 \<le> l"
  shows "wake_up (midcycle lm s r k l) = Inr (midcycle lm s r (k + 1) l, word_of_int r)"
proof -
  have w: "sint (word_of_int k :: int64) = k" "sint (word_of_int s :: int64) = s" "sint (word_of_int l :: int64) = l"
    using assms s by (simp_all add: sint64_of_int)
  show ?thesis using assms by (simp add: wake_up_def midcycle_def w)
qed

lemma wake_up_left:
  assumes s: "0 < s" "s \<le> 50" and r: "0 < r" "r \<le> 10 ^ 15"
    and "0 \<le> k" and "k < s" and "0 < l" and "l < 50"
  shows "wake_up (midcycle lm s r k l) =
    Inr (midcycle lm s r (k + 1) (l - (l div r + 1)), word_of_int (r + (l div r + 1)))"
proof -
  have w: "sint (word_of_int k :: int64) = k" "sint (word_of_int s :: int64) = s" "sint (word_of_int l :: int64) = l"
    "sint (word_of_int r :: int64) = r"
    using assms s r by (simp_all add: sint64_of_int)
  have "div64 (word_of_int l) (word_of_int r) = Inr (word_of_int (l div r))"
    using assms r by (subst div64_nonneg) (simp_all add: w)
  then show ?thesis using assms by (simp add: wake_up_def midcycle_def w Let_def algebra_simps)
qed

lemma wake_ups_rest:
  assumes s: "0 < s" "s \<le> 50" and r: "0 < r" "r \<le> 10 ^ 15"
    and "0 \<le> k" and "k + int n \<le> s" and "l \<le> 0" and "- 50 \<le> l"
  shows "wake_ups n (midcycle lm s r k l) = Inr (midcycle lm s r (k + int n) l, int n * r)"
  using assms(5-)
proof (induction n arbitrary: k)
  case (Suc n)
  have "wake_ups n (midcycle lm s r (k + 1) l) = Inr (midcycle lm s r (k + 1 + int n) l, int n * r)"
    by (rule Suc.IH) (use Suc.prems in simp_all)
  moreover have "sint (word_of_int r :: int64) = r" using r by (simp add: sint64_of_int)
  ultimately show ?case using Suc.prems by (simp add: wake_up_rest [OF s r] algebra_simps)
qed simp

text \<open>With a rate of at least two the leftover is spread over the subintervals.\<close>

lemma wake_ups_spread:
  assumes s: "0 < s" "s \<le> 50" and r: "0 < r" "r \<le> 10 ^ 15"
    and "0 \<le> k" and "k + int n \<le> s" and "0 \<le> l" and "l \<le> int n" and "l < 50" and "1 < r"
  shows "wake_ups n (midcycle lm s r k l) = Inr (midcycle lm s r (k + int n) 0, int n * r + l)"
  using assms(5-)
proof (induction n arbitrary: k l)
  case (Suc n)
  show ?case
  proof (cases "l = 0")
    case True
    then show ?thesis using wake_ups_rest [OF s r, of k "Suc n" 0] Suc.prems by simp
  next
    case False
    define q where "q = l div r + 1"
    have "l div r \<le> l div 2" using Suc.prems False by (intro zdiv_mono2) auto
    then have q: "1 \<le> q" "q \<le> l" using Suc.prems False r by (auto simp: q_def pos_imp_zdiv_nonneg_iff)
    have "wake_ups n (midcycle lm s r (k + 1) (l - q)) = Inr (midcycle lm s r (k + 1 + int n) 0, int n * r + (l - q))"
      by (rule Suc.IH) (use Suc.prems q in simp_all)
    moreover have "sint (word_of_int (r + q) :: int64) = r + q" using r q Suc.prems by (intro sint64_of_int) auto
    moreover have "wake_up (midcycle lm s r k l) = Inr (midcycle lm s r (k + 1) (l - q), word_of_int (r + q))"
      using wake_up_left [OF s r, of k l] Suc.prems False by (simp add: q_def)
    ultimately show ?thesis by (simp add: algebra_simps)
  qed
qed simp

text \<open>A full cycle: the subintervals, in which the leftover rate is let through in addition (and one
  more, if the rate of a subinterval is one), and one more firing that starts the next cycle.\<close>

lemma wake_ups_cycle:
  assumes s: "0 < s" "s \<le> 50" and r: "0 < r" "r \<le> 10 ^ 15" and l: "0 \<le> l" "l < s"
    and o: "lm_leftoverRateOriginal lm = word_of_int l"
  shows "wake_ups (Suc (nat s)) (midcycle lm s r 0 l) =
    Inr (midcycle lm s r 0 l, (s + 1) * r + l + (if r = 1 \<and> 0 < l then 1 else 0))"
proof -
  have last: "wake_ups 1 (midcycle lm s r s l') = Inr (midcycle lm s r 0 l, r)" for l'
    using o r by (simp add: wake_up_def midcycle_def Let_def sint64_of_int)
  have n: "int (nat s) = s" using s by simp
  obtain l' where "wake_ups (nat s) (midcycle lm s r 0 l) = Inr (midcycle lm s r s l', s * r + l + (if r = 1 \<and> 0 < l then 1 else 0))"
  proof (cases "r = 1 \<and> 0 < l")
    case False
    then have "l = 0 \<or> 1 < r" using l r by auto
    then have "wake_ups (nat s) (midcycle lm s r 0 l) = Inr (midcycle lm s r (0 + int (nat s)) 0, int (nat s) * r + l)"
    proof
      assume "1 < r"
      then show ?thesis by (intro wake_ups_spread [OF s r]) (use s l in auto)
    next
      assume z: "l = 0"
      show ?thesis using wake_ups_rest [OF s r, of 0 "nat s" 0 lm] s by (simp add: z)
    qed
    with False n show ?thesis by (intro that) auto
  next
    case True
    obtain m where m: "nat s = Suc m" using s by (cases "nat s") auto
    have "wake_up (midcycle lm s r 0 l) = Inr (midcycle lm s r 1 (- 1), word_of_int (l + 2))"
      using wake_up_left [OF s r, of 0 l lm] s l True by simp
    moreover have "wake_ups m (midcycle lm s r 1 (- 1)) = Inr (midcycle lm s r (1 + int m) (- 1), int m * r)"
      by (rule wake_ups_rest [OF s r]) (use m s in auto)
    moreover have "sint (word_of_int (l + 2) :: int64) = l + 2" using l s by (intro sint64_of_int) auto
    moreover have "1 + int m = s" using m s by auto
    ultimately have "wake_ups (nat s) (midcycle lm s r 0 l) = Inr (midcycle lm s r s (- 1), l + 2 + (s - 1) * r)"
      unfolding m using True by simp
    with True show ?thesis by (intro that [of "- 1"]) auto
  qed
  with last [of l'] show ?thesis
    by (simp only: Suc_eq_plus1 wake_ups_add) (simp add: algebra_simps)
qed

section \<open>The invariant\<close>

definition limiter_ok :: "limiter \<Rightarrow> bool" where
  "limiter_ok lm = (- 1 \<le> sint (rl_rate (lm_rl lm)) \<and> sint (rl_rate (lm_rl lm)) \<le> 2 ^ 60
     \<and> sint (rl_subintervals (lm_rl lm)) \<le> 50
     \<and> 0 \<le> sint (lm_released lm) \<and> sint (lm_released lm) \<le> sint (rl_subintervals (lm_rl lm))
     \<and> 0 \<le> sint (lm_leftoverRateOriginal lm) \<and> sint (lm_leftoverRateOriginal lm) < 50
     \<and> - 1 \<le> sint (lm_leftoverRate lm) \<and> sint (lm_leftoverRate lm) \<le> sint (lm_leftoverRateOriginal lm))"

lemma split_rate_le:
  assumes "10 \<le> R" and "R < 2 ^ 63"
  shows "split_rate R \<le> 2 ^ 60"
proof (cases "R \<le> 50")
  case True
  with assms have "split_rate R = 1" by (simp add: split_rate_def split_sub_def)
  then show ?thesis by simp
next
  case False
  then have "split_rate R = R div 50" by (simp add: split_rate_def split_sub_def)
  with assms(2) show ?thesis by simp
qed

text \<open>Every update leaves a rate, subintervals and a leftover that fit together.\<close>

lemma limiter_update_ok:
  assumes "0 \<le> sint (rl_subintervals rl)" and "sint (rl_subintervals rl) \<le> 50"
  obtains "limiter_update rl capacity = Inr None"
  | rl' left where "limiter_update rl capacity = Inr (Some (rl', left))"
    "- 1 \<le> sint (rl_rate rl')" "sint (rl_rate rl') \<le> 2 ^ 60" "0 \<le> sint (rl_subintervals rl')"
    "sint (rl_subintervals rl') \<le> 50" "0 \<le> sint left" "sint left < 50"
proof (cases "capacity < Fin 0 \<or> feq capacity (Fin 0)")
  case True
  with assms show ?thesis by (auto simp: limiter_update_def feq_def intro: that(2))
next
  case False
  show ?thesis
  proof (cases "capacity \<le> Fin 10")
    case True
    with False assms show ?thesis
      by (cases "float_to_int64 (Fin 1000 / capacity)")
        (auto simp: limiter_update_def update_with_def recalculate_one intro: that)
  next
    case fast: False
    show ?thesis
    proof (cases "float_to_int64 capacity")
      case None
      with False fast show ?thesis by (auto simp: limiter_update_def update_with_def intro: that(1))
    next
      case (Some rate)
      then obtain c where c: "capacity = Fin c" "- (2 ^ 63) \<le> trunc_rat c" "trunc_rat c < 2 ^ 63"
        "rate = word_of_int (trunc_rat c)"
        by (auto simp: float_to_int64_def split: f64.splits if_splits)
      have "10 \<le> trunc_rat c" using fast c(1) by (intro trunc_rat_lower) simp
      then have R: "10 \<le> sint rate" using c by (simp add: sint64_of_int)
      then have "1 < sint rate" by simp
      note b = split_bounds [OF this] and p = recalculate_parts [OF this, of rl]
      have "sint rate < 2 ^ 63" by (rule sint64_upper)
      from split_rate_le [OF R this] b have w: "sint (word_of_int (split_rate (sint rate)) :: int64) = split_rate (sint rate)"
        "split_rate (sint rate) \<le> 2 ^ 60"
        by (auto intro!: sint64_of_int)
      have v: "sint (word_of_int (split_sub (sint rate)) :: int64) = split_sub (sint rate)"
        "sint (word_of_int (split_left (sint rate)) :: int64) = split_left (sint rate)"
        using b by (auto intro!: sint64_of_int)
      show ?thesis
        using False fast Some p b w v
        by (cases "float_to_int64 (float64 (word_of_int (split_rate (sint rate)) * 1000) / float64 rate)")
          (auto simp: limiter_update_def update_with_def intro: that)
    qed
  qed
qed

lemma wake_up_ok:
  assumes "limiter_ok lm" and "0 < sint (rl_rate (lm_rl lm))"
  shows "\<exists>lm' mx. wake_up lm = Inr (lm', mx) \<and> limiter_ok lm' \<and> lm_rl lm' = lm_rl lm \<and>
    lm_leftoverRateOriginal lm' = lm_leftoverRateOriginal lm \<and> 0 < sint mx \<and>
    sint mx \<le> sint (rl_rate (lm_rl lm)) + sint (lm_leftoverRateOriginal lm) + 1"
proof -
  let ?r = "sint (rl_rate (lm_rl lm))" and ?l = "sint (lm_leftoverRate lm)"
  have rel: "sint (lm_released lm + 1) = sint (lm_released lm) + 1"
    using assms(1) by (subst sint64_add) (auto simp: limiter_ok_def)
  show ?thesis
  proof (cases "sint (lm_released lm) < sint (rl_subintervals (lm_rl lm)) \<and> 0 < ?l")
    case True
    define q where "q = ?l div ?r"
    have "?l div ?r \<le> ?l div 1" using True assms(2) by (intro zdiv_mono2) auto
    then have q: "0 \<le> q" "q \<le> ?l" using True assms(2) by (auto simp: q_def pos_imp_zdiv_nonneg_iff)
    have l: "?l < 50" using assms(1) by (simp add: limiter_ok_def)
    have d: "div64 (lm_leftoverRate lm) (rl_rate (lm_rl lm)) = Inr (word_of_int q)"
      using True assms(2) by (simp add: div64_nonneg q_def)
    have w: "sint (word_of_int q + 1 :: int64) = q + 1"
      using q l by (subst sint64_add) (auto simp: sint64_of_int)
    have "sint (lm_leftoverRate lm - (word_of_int q + 1)) = ?l - (q + 1)"
      using q l True by (subst sint64_diff) (auto simp: w)
    moreover have "sint (rl_rate (lm_rl lm) + (word_of_int q + 1)) = ?r + (q + 1)"
      using q l assms by (subst sint64_add) (auto simp: w limiter_ok_def)
    ultimately show ?thesis
      using True assms q rel d by (auto simp: wake_up_def limiter_ok_def Let_def)
  next
    case False
    then show ?thesis using assms rel by (auto simp: wake_up_def limiter_ok_def Let_def)
  qed
qed

lemma limiter_step_ok:
  assumes "limiter_ok lm" and "enabled lm event"
  shows "\<exists>out. limiter_step lm event = Inr out \<and> (\<forall>lm' n. out = Running lm' n \<longrightarrow> limiter_ok lm')"
proof (cases event)
  case (LimiterCapacity capacity)
  have "0 \<le> sint (rl_subintervals (lm_rl lm))" "sint (rl_subintervals (lm_rl lm)) \<le> 50"
    using assms(1) by (auto simp: limiter_ok_def)
  then show ?thesis
    by (rule limiter_update_ok [where capacity = capacity])
      (auto simp: LimiterCapacity limiter_step_def limiter_ok_def)
next
  case (LimiterWakeUp ready)
  then have "0 < sint (rl_rate (lm_rl lm))"
    using assms(2) by (auto simp: enabled_def rl_blocked_def unlimited_def not_less intro: sint64_pos)
  from wake_up_ok [OF assms(1) this] show ?thesis by (auto simp: LimiterWakeUp limiter_step_def)
qed (use assms(1) in \<open>auto simp: limiter_step_def\<close>)

lemma limiter_reach_ok: "limiter_reach lm \<Longrightarrow> limiter_ok lm"
proof (induction rule: limiter_reach.induct)
  case start
  show ?case by (simp add: limiter_ok_def NewQPS_def)
next
  case (step lm event lm' n)
  from limiter_step_ok [OF step.IH step.hyps(2)] step.hyps(3) show ?case by auto
qed

text \<open>The capacities whose conversion to an integer Go leaves open: no numbers, and numbers that are too large, or
  so small that the interval is.\<close>

definition rate_open :: "f64 \<Rightarrow> bool" where
  "rate_open capacity = (case capacity of
       Fin c \<Rightarrow> 0 < c \<and> c \<le> 10 \<and> 2 ^ 63 \<le> 1000 / c \<or> 2 ^ 63 \<le> c
     | NInf \<Rightarrow> False
     | _ \<Rightarrow> True)"

lemma trunc_rat_small: "\<bar>q\<bar> \<le> of_int n \<Longrightarrow> \<bar>trunc_rat q\<bar> \<le> n"
  by (cases "0 \<le> q") (simp_all add: trunc_rat_def floor_le_iff le_floor_iff ceiling_le_iff le_ceiling_iff, linarith+)

lemma recalculate_defined:
  fixes rate :: int64
  assumes "1 < sint rate"
  shows "recalculate rl rate 1000 \<noteq> Inr None"
proof -
  let ?w = "word_of_int (split_rate (sint rate)) * 1000 :: int64"
  have "\<bar>rat_of_int (sint ?w) / of_int (sint rate)\<bar> \<le> of_int (2 ^ 62)"
  proof -
    have "\<bar>sint ?w\<bar> \<le> 2 ^ 63" using sint64_lower [of ?w] sint64_upper [of ?w] by linarith
    also have "(2 :: int) ^ 63 \<le> 2 ^ 62 * sint rate" using assms by simp
    finally have "rat_of_int \<bar>sint ?w\<bar> \<le> of_int (2 ^ 62 * sint rate)" unfolding of_int_le_iff .
    then show ?thesis using assms by (simp add: abs_divide divide_le_eq)
  qed
  then have "\<bar>trunc_rat (of_int (sint ?w) / of_int (sint rate))\<bar> \<le> 2 ^ 62" by (rule trunc_rat_small)
  moreover have "- (2 ^ 63) \<le> x \<and> x < 2 ^ 63" if "\<bar>x\<bar> \<le> 2 ^ 62" for x :: int using that by auto
  ultimately have "- (2 ^ 63) \<le> trunc_rat (of_int (sint ?w) / of_int (sint rate)) \<and>
    trunc_rat (of_int (sint ?w) / of_int (sint rate)) < 2 ^ 63" by blast
  then have "float_to_int64 (float64 ?w / float64 rate) \<noteq> None"
    using assms by (simp add: float64_def float_to_int64_def)
  then show ?thesis unfolding recalculate_parts [OF assms] by auto
qed

lemma update_open:
  assumes "limiter_update rl capacity = Inr None"
  shows "rate_open capacity"
proof (rule ccontr)
  assume no: "\<not> rate_open capacity"
  then consider "capacity = NInf" | c where "capacity = Fin c" "\<not> (0 < c \<and> c \<le> 10 \<and> 2 ^ 63 \<le> 1000 / c)" "c < 2 ^ 63"
    by (cases capacity) (auto simp: rate_open_def not_le)
  then show False
  proof cases
    case 1
    with assms show False by (simp add: limiter_update_def)
  next
    case (2 c)
    consider "c < 0" | "c = 0" | "0 < c" "c \<le> 10" | "10 < c" by linarith
    then show False
    proof cases
      case 4
      have lo: "10 \<le> \<lfloor>c\<rfloor>" using 4 by (simp add: le_floor_iff)
      have hi: "\<lfloor>c\<rfloor> < 2 ^ 63" using 2(3) by (simp add: floor_less_iff)
      have s: "sint (word_of_int \<lfloor>c\<rfloor> :: int64) = \<lfloor>c\<rfloor>" using lo hi by (intro sint64_of_int) auto
      have "float_to_int64 (Fin c) = Some (word_of_int \<lfloor>c\<rfloor>)" using lo hi 4 by (simp add: float_to_int64_def trunc_rat_def)
      then have "limiter_update rl capacity = update_with (Some (word_of_int \<lfloor>c\<rfloor>)) (\<lambda>rate. recalculate rl rate 1000)"
        using 4 by (simp add: 2(1) limiter_update_def)
      moreover have "recalculate rl (word_of_int \<lfloor>c\<rfloor>) 1000 \<noteq> Inr None" using lo by (intro recalculate_defined) (simp add: s)
      ultimately show False
        using assms by (cases "recalculate rl (word_of_int \<lfloor>c\<rfloor>) 1000") (auto simp: update_with_def)
    qed (use assms 2 update_slow [of c rl] update_negative [of "Fin c" rl] update_zero [of rl] in auto)
  qed
qed

section \<open>Rates\<close>

text \<open>The numbers of a cycle, in milliseconds: at least the rate, at most about twice the rate.\<close>

definition cycle_total :: "int \<Rightarrow> int" where
  "cycle_total R = (split_sub R + 1) * split_rate R + split_left R + (if split_rate R = 1 \<and> 0 < split_left R then 1 else 0)"

lemma cycle_at_least:
  assumes "1 < R"
  shows "R * ((split_sub R + 1) * split_interval R) \<le> 1000 * cycle_total R"
proof -
  note b = split_bounds [OF assms]
  have "R * split_interval R = split_rate R * 1000 - split_rate R * 1000 mod R"
    by (simp add: split_interval_def minus_mod_eq_mult_div)
  moreover have "0 \<le> split_rate R * 1000 mod R" using assms by simp
  ultimately have "R * split_interval R \<le> split_rate R * 1000" by linarith
  then have "(split_sub R + 1) * (R * split_interval R) \<le> (split_sub R + 1) * (split_rate R * 1000)"
    using b by (intro mult_left_mono) auto
  moreover have "(split_sub R + 1) * split_rate R \<le> cycle_total R"
    using b by (simp add: cycle_total_def)
  ultimately show ?thesis by (simp add: algebra_simps)
qed

lemma cycle_at_most_small:
  "list_all (\<lambda>R. 100000 * cycle_total R \<le> 201 * (R * ((split_sub R + 1) * split_interval R))) [10..99]"
  by (simp add: upto.simps cycle_total_def split_sub_def split_rate_def split_left_def split_interval_def)

lemma cycle_at_most:
  assumes "10 \<le> R"
  shows "100000 * cycle_total R \<le> 201 * (R * ((split_sub R + 1) * split_interval R))"
proof (cases "R < 100")
  case True
  then have "R \<in> set [10..99]" using assms unfolding set_upto atLeastAtMost_iff by linarith
  with cycle_at_most_small show ?thesis unfolding list_all_iff by (rule bspec)
next
  case False
  then have R: "1 < R" "100 \<le> R" by simp_all
  note b = split_bounds [OF R(1)]
  have s: "split_sub R = 50" using R(2) by (simp add: split_sub_def)
  have r: "2 \<le> split_rate R" using R(2) by (simp add: split_rate_def s)
  have "R * split_interval R = split_rate R * 1000 - split_rate R * 1000 mod R"
    by (simp add: split_interval_def minus_mod_eq_mult_div)
  moreover have "split_rate R * 1000 mod R < R" using R by simp
  ultimately have i: "split_rate R * 1000 - R < R * split_interval R" by linarith
  have "cycle_total R = 51 * split_rate R + split_left R" using r s by (simp add: cycle_total_def)
  moreover have "R * (51 * split_interval R) = 51 * (R * split_interval R)" by simp
  ultimately show ?thesis using i r b s by simp
qed

section \<open>Properties\<close>

text \<open>C21. In every state it can reach, the limiter does not panic at any event that can happen, and goes on
  except in three cases: it is closed; the context of a caller is done while an unlimited limiter
  sends to it, and the loop waits for ever; or the capacity is one whose conversion to an integer
  Go leaves open. When it goes on, each firing of its timer lets at most the rate of a subinterval,
  the leftover rate and one more operation through, and a blocked limiter lets nothing through.\<close>

theorem limiter_safe:
  assumes "limiter_reach lm" and "enabled lm event"
  shows "case limiter_step lm event of
      Inl p \<Rightarrow> False
    | Inr (Running lm' n) \<Rightarrow> limiter_reach lm' \<and>
        (if rl_blocked (lm_rl lm) then n = 0
         else int n \<le> max 1 (sint (rl_rate (lm_rl lm)) + sint (lm_leftoverRateOriginal lm) + 1))
    | Inr Halted \<Rightarrow> event = LimiterClose
    | Inr Hung \<Rightarrow> unlimited (lm_rl lm) \<and> event = LimiterWait True
    | Inr Unspecified \<Rightarrow> (\<exists>capacity. event = LimiterCapacity capacity \<and> rate_open capacity)"
proof -
  note ok = limiter_reach_ok [OF assms(1)]
  obtain out where out: "limiter_step lm event = Inr out" using limiter_step_ok [OF ok assms(2)] by blast
  have "if rl_blocked (lm_rl lm) then n = 0
     else int n \<le> max 1 (sint (rl_rate (lm_rl lm)) + sint (lm_leftoverRateOriginal lm) + 1)"
    if n: "limiter_step lm event = Inr (Running lm' n)" for lm' n
  proof (cases event)
    case (LimiterWakeUp ready)
    then have nb: "\<not> rl_blocked (lm_rl lm)" and pos: "0 < sint (rl_rate (lm_rl lm))"
      using assms(2) by (auto simp: enabled_def rl_blocked_def unlimited_def not_less intro: sint64_pos)
    obtain mx where "n = unfreeze mx ready" "0 < sint mx"
      "sint mx \<le> sint (rl_rate (lm_rl lm)) + sint (lm_leftoverRateOriginal lm) + 1"
      using wake_up_ok [OF ok pos] n by (auto simp: LimiterWakeUp limiter_step_def)
    moreover have "unfreeze mx ready \<le> nat (sint mx)"
      unfolding unfreeze_def by (rule order_trans [OF length_filter_le]) simp
    ultimately show ?thesis using nb by auto
  next
    case (LimiterWait cancelled)
    then have "n = (if unlimited (lm_rl lm) then 1 else 0)"
      using n by (auto simp: limiter_step_def split: if_splits)
    then show ?thesis by (auto simp: unlimited_def rl_blocked_def)
  qed (use n in \<open>auto simp: limiter_step_def split: option.splits\<close>)
  moreover have "limiter_reach lm'" if "limiter_step lm event = Inr (Running lm' n)" for lm' n
    by (rule limiter_reach.step [OF assms that])
  moreover have "event = LimiterClose" if "out = Halted"
    using out that by (cases event) (auto simp: limiter_step_def bind_panic_def split: sum.splits option.splits if_splits)
  moreover have "unlimited (lm_rl lm) \<and> event = LimiterWait True" if "out = Hung"
    using out that by (cases event) (auto simp: limiter_step_def bind_panic_def split: sum.splits option.splits if_splits)
  moreover have "\<exists>capacity. event = LimiterCapacity capacity \<and> rate_open capacity" if "out = Unspecified"
    using out that update_open
    by (cases event) (auto simp: limiter_step_def bind_panic_def split: sum.splits option.splits if_splits)
  ultimately show ?thesis using out by (cases out) auto
qed

text \<open>C35. A capacity above ten is kept as a rate: the firings of the timer form a cycle, after which
  the limiter is as before, and which lets as many operations through as its length times the
  capacity (rounded down), or more: up to twice as many.\<close>

theorem limiter_cycle_rate:
  assumes "10 < c" and "c \<le> 10 ^ 15"
  shows "\<exists>lm' total. limiter_step lm (LimiterCapacity (Fin c)) = Inr (Running lm' 0) \<and>
    (let R = \<lfloor>c\<rfloor>; n = nat (min R 50) + 1; time = int n * sint (rl_interval (lm_rl lm')) in
     wake_ups n lm' = Inr (lm', total) \<and> 0 < time \<and>
     R * time \<le> sint Second * total \<and> 100 * (sint Second * total) \<le> 201 * (R * time))"
proof -
  define R where "R = \<lfloor>c\<rfloor>"
  have R: "10 \<le> R" "R \<le> 10 ^ 15" using assms by (simp_all add: R_def le_floor_iff floor_le_iff)
  then have R1: "1 < R" by simp
  note b = split_bounds [OF R1]
  obtain rl where u: "limiter_update (lm_rl lm) (Fin c) = Inr (Some (rl, word_of_int (split_left R)))"
    "rl = (lm_rl lm)\<lparr>rl_subintervals := word_of_int (split_sub R), rl_rate := word_of_int (split_rate R),
       rl_interval := milliseconds (word_of_int (split_interval R))\<rparr>"
    using update_split [OF assms] by (auto simp: R_def)
  define lm' where "lm' = lm\<lparr>lm_rl := rl, lm_leftoverRateOriginal := word_of_int (split_left R), lm_released := 0,
    lm_leftoverRate := word_of_int (split_left R)\<rparr>"
  have step: "limiter_step lm (LimiterCapacity (Fin c)) = Inr (Running lm' 0)"
    by (simp add: limiter_step_def u(1) lm'_def)
  have mid: "lm' = midcycle lm' (split_sub R) (split_rate R) 0 (split_left R)"
    by (simp add: midcycle_def lm'_def u(2))
  have cyc: "wake_ups (Suc (nat (split_sub R))) lm' = Inr (lm', cycle_total R)"
    unfolding cycle_total_def
    by (subst (1 2) mid, rule wake_ups_cycle) (use b R in \<open>auto simp: lm'_def\<close>)
  have i: "sint (rl_interval (lm_rl lm')) = split_interval R * 1000000"
    using b by (simp add: lm'_def u(2) sint_milliseconds sint64_of_int)
  have n: "int (Suc (nat (split_sub R))) = split_sub R + 1" using b by simp
  have pos: "0 < split_interval R"
  proof -
    have "0 < 100000 * cycle_total R" using b by (auto simp: cycle_total_def intro!: add_pos_nonneg mult_pos_pos)
    with cycle_at_most [OF R(1)] have "split_interval R \<noteq> 0" by auto
    with b show ?thesis by linarith
  qed
  have t: "R * (int (Suc (nat (split_sub R))) * sint (rl_interval (lm_rl lm'))) =
      1000000 * (R * ((split_sub R + 1) * split_interval R))"
    unfolding n i by simp
  have "R * (int (Suc (nat (split_sub R))) * sint (rl_interval (lm_rl lm'))) \<le> sint Second * cycle_total R"
    unfolding t sint_Second using cycle_at_least [OF R1] by linarith
  moreover have "100 * (sint Second * cycle_total R) \<le> 201 * (R * (int (Suc (nat (split_sub R))) * sint (rl_interval (lm_rl lm'))))"
    unfolding t sint_Second using cycle_at_most [OF R(1)] by linarith
  moreover have "0 < int (Suc (nat (split_sub R))) * sint (rl_interval (lm_rl lm'))"
    unfolding n i using b pos by simp
  ultimately show ?thesis
    using step cyc by (intro exI [of _ lm'] exI [of _ "cycle_total R"]) (simp add: Let_def R_def [symmetric] split_sub_def)
qed

text \<open>With a capacity of 99 the cycle is 51 firings of a timer of 10 milliseconds, and lets 101
  operations through: 198 per second.\<close>

theorem limiter_cycle_rate_witness:
  "\<exists>lm'. limiter_step NewQPS (LimiterCapacity (Fin 99)) = Inr (Running lm' 0) \<and>
     wake_ups 51 lm' = Inr (lm', 101) \<and> sint (rl_interval (lm_rl lm')) = 10 * 1000000"
proof -
  have n: "nat (min \<lfloor>99 :: rat\<rfloor> 50) + 1 = 51" by simp
  obtain lm' total where lm: "limiter_step NewQPS (LimiterCapacity (Fin 99)) = Inr (Running lm' 0)"
    "wake_ups 51 lm' = Inr (lm', total)"
    using limiter_cycle_rate [of 99 NewQPS] unfolding Let_def n by auto
  note u = update_split [of 99, simplified, unfolded split_sub_def split_rate_def split_left_def split_interval_def, simplified]
  have s: "lm' = midcycle lm' 50 1 0 49" "lm_leftoverRateOriginal lm' = 49"
    "sint (rl_interval (lm_rl lm')) = 10 * 1000000"
    using lm(1) by (auto simp: limiter_step_def u midcycle_def sint_milliseconds)
  have m: "Suc (nat 50) = 51" by simp
  have "wake_ups (Suc (nat 50)) (midcycle lm' 50 1 0 49) = Inr (midcycle lm' 50 1 0 49, (50 + 1) * 1 + 49 + 1)"
    using wake_ups_cycle [of 50 1 49 lm'] s(2) by (simp del: wake_ups.simps)
  then have "wake_ups 51 lm' = Inr (lm', (50 + 1) * 1 + 49 + 1)" unfolding m s(1) [symmetric] .
  then have "total = 101" using lm(2) by (simp del: wake_ups.simps)
  with lm s show ?thesis by blast
qed

text \<open>The capacity is five, and then the timer fires while nobody waits.\<close>

theorem limiter_safe_witness:
  "\<exists>lm lm'. limiter_step NewQPS (LimiterCapacity (Fin 5)) = Inr (Running lm 0) \<and>
     limiter_step lm (LimiterWakeUp (\<lambda>i. False)) = Inr (Running lm' 0) \<and> limiter_reach lm'"
proof -
  define lm where "lm = NewQPS\<lparr>lm_rl := (lm_rl NewQPS)\<lparr>rl_rate := 1, rl_interval := milliseconds 200\<rparr>\<rparr>"
  have up: "limiter_step NewQPS (LimiterCapacity (Fin 5)) = Inr (Running lm 0)"
    using update_slow [of 5 "lm_rl NewQPS"] by (simp add: limiter_step_def lm_def NewQPS_def)
  have reach: "limiter_reach lm" by (rule limiter_reach.step [OF limiter_reach.start _ up]) (simp add: enabled_def)
  have fire: "limiter_step lm (LimiterWakeUp (\<lambda>i. False)) = Inr (Running lm 0)"
    by (simp add: limiter_step_def wake_up_def lm_def NewQPS_def unfreeze_def)
  have "enabled lm (LimiterWakeUp (\<lambda>i. False))"
    by (simp add: enabled_def lm_def NewQPS_def rl_blocked_def unlimited_def)
  from limiter_safe [OF reach this] fire up show ?thesis by auto
qed

text \<open>A capacity of at most ten is kept as an interval: each firing lets one operation through,
  and the timer is set to the time one operation takes at that capacity, rounded down to
  milliseconds.\<close>

lemma limiter_slow_rate:
  assumes "0 < c" and "c \<le> 10" and "1 / 10 ^ 9 \<le> c" and "limiter_ok lm"
  shows "\<exists>lm'. limiter_step lm (LimiterCapacity (Fin c)) = Inr (Running lm' 0) \<and>
    (\<exists>ms. sint (rl_interval (lm_rl lm')) = ms * sint Millisecond \<and>
       c * of_int ms \<le> 1000 \<and> 1000 < c * of_int (ms + 1)) \<and>
    (\<forall>n. \<exists>lm''. wake_ups n lm' = Inr (lm'', int n))"
proof -
  have "1000 / c \<le> 10 ^ 12" using assms(1,3) by (simp add: field_simps)
  then have hi: "1000 / c < 2 ^ 63" "\<lfloor>1000 / c\<rfloor> \<le> 10 ^ 12" by (simp_all add: floor_le_iff)
  have lo: "0 \<le> \<lfloor>1000 / c\<rfloor>" using assms(1) by simp
  have w: "sint (milliseconds (word_of_int F)) = F * sint Millisecond" if "0 \<le> F" "F \<le> 10 ^ 12" for F
    using that by (simp add: sint_milliseconds sint64_of_int)
  define lm' where "lm' = lm\<lparr>lm_rl := (lm_rl lm)\<lparr>rl_rate := 1, rl_interval := milliseconds (word_of_int \<lfloor>1000 / c\<rfloor>)\<rparr>,
    lm_leftoverRateOriginal := 0, lm_released := 0, lm_leftoverRate := 0\<rparr>"
  have step: "limiter_step lm (LimiterCapacity (Fin c)) = Inr (Running lm' 0)"
    using update_slow [OF assms(1,2) hi(1)] by (simp add: limiter_step_def lm'_def)
  have i: "sint (rl_interval (lm_rl lm')) = \<lfloor>1000 / c\<rfloor> * sint Millisecond"
    using w [OF lo hi(2)] by (simp add: lm'_def)
  have "of_int \<lfloor>1000 / c\<rfloor> \<le> 1000 / c" "1000 / c < of_int (\<lfloor>1000 / c\<rfloor> + 1)" by (simp, linarith)
  then have c: "c * of_int \<lfloor>1000 / c\<rfloor> \<le> 1000" "1000 < c * of_int (\<lfloor>1000 / c\<rfloor> + 1)"
    using assms(1) by (simp_all only: pos_le_divide_eq pos_divide_less_eq mult.commute)
  have one: "\<exists>lm''. wake_ups n l = Inr (lm'', int n)"
    if "rl_rate (lm_rl l) = 1" "lm_leftoverRate l = 0" "lm_leftoverRateOriginal l = 0" for n l
    using that
  proof (induction n arbitrary: l)
    case (Suc n)
    obtain l' where "wake_up l = Inr (l', 1)" "rl_rate (lm_rl l') = 1" "lm_leftoverRate l' = 0"
      "lm_leftoverRateOriginal l' = 0"
      by (rule that [of "if sint (lm_released l) < sint (rl_subintervals (lm_rl l))
           then l\<lparr>lm_released := lm_released l + 1\<rparr> else l\<lparr>lm_released := 0\<rparr>"])
        (use Suc.prems in \<open>auto simp: wake_up_def\<close>)
    with Suc.IH [of l'] show ?case by auto
  qed simp
  show ?thesis using step i c one [of lm'] by (auto simp: lm'_def)
qed

lemma limiter_slow_rate_witness:
  "\<exists>lm'. limiter_step NewQPS (LimiterCapacity (Fin 3)) = Inr (Running lm' 0) \<and> (\<exists>lm''. wake_ups 7 lm' = Inr (lm'', 7))"
proof -
  from limiter_slow_rate [of 3 NewQPS] limiter_reach_ok [OF limiter_reach.start]
  obtain lm' where "limiter_step NewQPS (LimiterCapacity (Fin 3)) = Inr (Running lm' 0)"
    "\<forall>n. \<exists>lm''. wake_ups n lm' = Inr (lm'', int n)" by auto
  moreover from this(2) [rule_format, of 7] have "\<exists>lm''. wake_ups 7 lm' = Inr (lm'', 7)" by simp
  ultimately show ?thesis by blast
qed

text \<open>The timer is made anew in every pass of the loop, so calls of \<open>Wait\<close> that come more often
  than the interval keep it from firing: nothing is ever let through, whatever the capacity.\<close>

lemma limiter_starves:
  assumes "timed_run lm t events" and "\<not> unlimited (lm_rl lm)"
    and "list_all (\<lambda>(t', event, n). \<exists>cancelled. event = LimiterWait cancelled \<or> (\<exists>ready. event = LimiterWakeUp ready)) events"
    and "successively (\<lambda>a b. b - a < sint (rl_interval (lm_rl lm))) (t # map fst events)"
  shows "list_all (\<lambda>(t', event, n). n = 0) events"
  using assms
proof (induction rule: timed_run.induct)
  case (timed_step t t' lm event lm' n events)
  have "event \<noteq> LimiterWakeUp ready" for ready using timed_step.hyps(3) [of ready] timed_step.prems(3) by auto
  then obtain cancelled where e: "event = LimiterWait cancelled" using timed_step.prems(2) by auto
  then have "lm' = lm" "n = 0" using timed_step.hyps(4) timed_step.prems(1) by (auto simp: limiter_step_def)
  with timed_step.IH timed_step.prems show ?case by simp
qed simp

lemma limiter_starves_witness:
  "\<exists>lm. limiter_step NewQPS (LimiterCapacity (Fin 1)) = Inr (Running lm 0) \<and>
     timed_run lm 0 [(500000000, LimiterWait False, 0), (1000000000, LimiterWait False, 0), (1500000000, LimiterWait False, 0)] \<and>
     list_all (\<lambda>(t', event, n). n = 0) [(500000000 :: time, LimiterWait False, 0), (1000000000, LimiterWait False, 0),
       (1500000000, LimiterWait False, 0 :: nat)]"
proof -
  let ?es = "[(500000000 :: time, LimiterWait False, 0), (1000000000, LimiterWait False, 0), (1500000000, LimiterWait False, 0 :: nat)]"
  define lm where "lm = NewQPS\<lparr>lm_rl := (lm_rl NewQPS)\<lparr>rl_rate := 1, rl_interval := milliseconds 1000\<rparr>\<rparr>"
  have step: "limiter_step NewQPS (LimiterCapacity (Fin 1)) = Inr (Running lm 0)"
    using update_slow [of 1 "lm_rl NewQPS"] by (simp add: limiter_step_def lm_def NewQPS_def)
  have run: "timed_run lm 0 ?es"
    by (simp add: enabled_def limiter_step_def lm_def unlimited_def NewQPS_def)
  have "list_all (\<lambda>(t', event, n). n = 0) ?es"
    by (rule limiter_starves [OF run])
      (auto simp: lm_def unlimited_def NewQPS_def sint_milliseconds intro: exI [of _ False])
  with step run show ?thesis by blast
qed

end
