(* ===== verification/Go_Sort.thy ===== *)
theory Go_Sort
  imports Main
begin

text \<open>
  Go's \<open>sort.Search\<close>, binary search over a predicate. The predicates of the program read the
  clock, so the predicate gets the number of the probe, counted from \<open>k\<close>, next to the index.
\<close>

function search_loop :: "(nat \<Rightarrow> nat \<Rightarrow> bool) \<Rightarrow> nat \<Rightarrow> nat \<Rightarrow> nat \<Rightarrow> nat" where
  "search_loop f k i j =
     (if i < j then
        let h = (i + j) div 2
        in if \<not> f k h then search_loop f (k + 1) (h + 1) j else search_loop f (k + 1) i h
      else i)"
  by pat_completeness auto
termination by (relation "measure (\<lambda>(f, k, i, j). j - i)") auto

declare search_loop.simps [simp del]

definition sort_Search :: "nat \<Rightarrow> (nat \<Rightarrow> nat \<Rightarrow> bool) \<Rightarrow> nat" where
  "sort_Search n f = search_loop f 0 0 n"

text \<open>The predicate holds from some index on, and as time passes for no index that it did not hold for
  before. Then the search ends at an index before which the predicate fails in the end, and from
  which on it held in the beginning.\<close>

definition searchable :: "nat \<Rightarrow> (nat \<Rightarrow> nat \<Rightarrow> bool) \<Rightarrow> bool" where
  "searchable n f = ((\<forall>k h h'. h \<le> h' \<longrightarrow> h' < n \<longrightarrow> f k h \<longrightarrow> f k h') \<and>
     (\<forall>k k' h. k \<le> k' \<longrightarrow> h < n \<longrightarrow> f k' h \<longrightarrow> f k h))"

lemma searchableD:
  assumes "searchable n f"
  shows "h \<le> h' \<Longrightarrow> h' < n \<Longrightarrow> f k h \<Longrightarrow> f k h'" "k \<le> k' \<Longrightarrow> h < n \<Longrightarrow> f k' h \<Longrightarrow> f k h"
  using assms unfolding searchable_def by blast+

lemma search_loop_correct:
  assumes "searchable n f" and "j \<le> n" and "i \<le> j"
    and "\<exists>l. \<forall>h < i. \<not> f l h" and "\<forall>h. j \<le> h \<and> h < n \<longrightarrow> f 0 h"
  shows "search_loop f k i j \<le> n \<and> (\<exists>l. \<forall>h < search_loop f k i j. \<not> f l h) \<and>
    (\<forall>h. search_loop f k i j \<le> h \<and> h < n \<longrightarrow> f 0 h)"
  using assms
proof (induction f k i j rule: search_loop.induct)
  case (1 f k i j)
  note mono = searchableD [OF "1.prems"(1)]
  let ?h = "(i + j) div 2"
  show ?case
  proof (cases "i < j")
    case True
    then have h: "?h < j" "i \<le> ?h" "?h < n" using "1.prems"(2) by auto
    show ?thesis
    proof (cases "f k ?h")
      case yes: True
      have "f 0 h" if "?h \<le> h" "h < n" for h
        using mono(1) [OF that yes] mono(2) [of 0 k h] that by simp
      then have "search_loop f (k + 1) i ?h \<le> n \<and> (\<exists>l. \<forall>h < search_loop f (k + 1) i ?h. \<not> f l h) \<and>
          (\<forall>h. search_loop f (k + 1) i ?h \<le> h \<and> h < n \<longrightarrow> f 0 h)"
        using "1.IH"(2) [OF True refl] yes "1.prems" h by auto
      with True yes show ?thesis by (subst (1 2 3) search_loop.simps) (simp add: Let_def)
    next
      case no: False
      have "\<not> f k h" if "h < ?h + 1" for h
        using mono(1) [of h ?h k] that h no by auto
      then have "\<exists>l. \<forall>h < ?h + 1. \<not> f l h" by blast
      then have "search_loop f (k + 1) (?h + 1) j \<le> n \<and> (\<exists>l. \<forall>h < search_loop f (k + 1) (?h + 1) j. \<not> f l h) \<and>
          (\<forall>h. search_loop f (k + 1) (?h + 1) j \<le> h \<and> h < n \<longrightarrow> f 0 h)"
        using "1.IH"(1) [OF True refl] no "1.prems" h by auto
      with True no show ?thesis by (subst (1 2 3) search_loop.simps) (simp add: Let_def)
    qed
  next
    case False
    with "1.prems" show ?thesis by (subst (1 2 3) search_loop.simps) auto
  qed
qed

lemma sort_Search_correct:
  assumes "searchable n f"
  shows "sort_Search n f \<le> n" "\<exists>l. \<forall>h < sort_Search n f. \<not> f l h"
    "\<And>h. sort_Search n f \<le> h \<Longrightarrow> h < n \<Longrightarrow> f 0 h"
proof -
  have "sort_Search n f \<le> n \<and> (\<exists>l. \<forall>h < sort_Search n f. \<not> f l h) \<and> (\<forall>h. sort_Search n f \<le> h \<and> h < n \<longrightarrow> f 0 h)"
    unfolding sort_Search_def by (rule search_loop_correct [OF assms]) auto
  then show "sort_Search n f \<le> n" "\<exists>l. \<forall>h < sort_Search n f. \<not> f l h"
    "\<And>h. sort_Search n f \<le> h \<Longrightarrow> h < n \<Longrightarrow> f 0 h" by auto
qed

end
