(* ===== verification/Adaptive_Limiter.thy ===== *)
theory Adaptive_Limiter
  imports Rate_Limiter Go_Sort Client
begin

text \<open>
  The rate limiter that guesses how much capacity to ask for
  (\<open>go/ratelimiter/adaptive_ratelimiter.go\<close>). It records when \<open>Wait\<close> is called and once per
  window asks for a capacity that it computes from the record. The code reads the clock many
  times, so the clock is a function from the number of the reading to the time.
\<close>

section \<open>The code\<close>

type_synonym clock = "nat \<Rightarrow> time"

definition entries_Record :: "time list \<Rightarrow> time \<Rightarrow> time list" where
  "entries_Record ts entry = ts @ [entry]"

definition entries_Clear :: "clock \<Rightarrow> duration \<Rightarrow> time list \<Rightarrow> time list" where
  "entries_Clear clock window ts =
     drop (sort_Search (length ts) (\<lambda>k i. sint (time_Sub (clock k) (ts ! i)) < sint window)) ts"

text \<open>The map from a second before now to the number of entries in it.\<close>

definition lookup0 :: "(int64 \<times> int64) list \<Rightarrow> int64 \<Rightarrow> int64" where
  "lookup0 m k = (case map_of m k of None \<Rightarrow> 0 | Some v \<Rightarrow> v)"

fun frequency_loop :: "clock \<Rightarrow> nat \<Rightarrow> time list \<Rightarrow> (int64 \<times> int64) list \<Rightarrow> (int64 \<times> int64) list" where
  "frequency_loop clock k [] frequency = frequency"
| "frequency_loop clock k (entry # rest) frequency =
     (let second = whole_seconds (time_Sub (clock k) entry)
      in frequency_loop clock (k + 1) rest (map_put frequency second (lookup0 frequency second + 1)))"

definition weighted_sum :: "(int64 \<times> int64) list \<Rightarrow> int64 \<Rightarrow> int64" where
  "weighted_sum frequency n =
     fold (\<lambda>i sum. sum + lookup0 frequency (word_of_int i) * (n - word_of_int i)) [0..sint n - 1] 0"

text \<open>\<open>GetWants\<close>: the remaining entries and the wanted capacity. \<open>clock1\<close> is read while old entries
  are cleared and \<open>clock2\<close> afterwards.\<close>

definition wants_of :: "clock \<Rightarrow> duration \<Rightarrow> time list \<Rightarrow> f64" where
  "wants_of clock window ts =
     (let frequency = frequency_loop clock 0 ts [];
          sum = weighted_sum frequency (whole_seconds window);
          n = word_of_int (int (length ts)) :: int64
      in float64 sum / float64 (word_of_int (quot (sint (n * (n + 1))) 2)))"

definition entries_GetWants :: "clock \<Rightarrow> clock \<Rightarrow> duration \<Rightarrow> time list \<Rightarrow> time list \<times> f64" where
  "entries_GetWants clock1 clock2 window ts =
     (let ts' = entries_Clear clock1 window ts in (ts', wants_of clock2 window ts'))"

record adaptiveOptions =
  ao_window :: duration

type_synonym AdaptiveOption = "adaptiveOptions \<Rightarrow> adaptiveOptions"

definition Window :: "duration \<Rightarrow> AdaptiveOption" where
  "Window w = (\<lambda>opts. opts\<lparr>ao_window := w\<rparr>)"

definition getAdaptiveOptions :: "AdaptiveOption list \<Rightarrow> adaptiveOptions" where
  "getAdaptiveOptions options = fold (\<lambda>opt opts. opt opts) options \<lparr>ao_window = seconds 10\<rparr>"

text \<open>The goroutine of the limiter: it shares the resource at an address of the client's heap.\<close>

record AdaptiveQPS =
  ad_resource :: nat
  ad_opts :: adaptiveOptions
  ad_lastWants :: f64
  ad_times :: "time list"

definition NewAdaptiveQPS :: "nat \<Rightarrow> AdaptiveOption list \<Rightarrow> AdaptiveQPS" where
  "NewAdaptiveQPS a options = \<lparr>ad_resource = a, ad_opts = getAdaptiveOptions options, ad_lastWants = Fin (- 1),
     ad_times = []\<rparr>"

datatype adaptive_event = AdaptiveEntry time | AdaptiveTick clock clock

definition adaptive_step :: "AdaptiveQPS \<times> Client \<Rightarrow> adaptive_event \<Rightarrow> AdaptiveQPS \<times> Client" where
  "adaptive_step = (\<lambda>(arl, client) event. case event of
       AdaptiveEntry entry \<Rightarrow> (arl\<lparr>ad_times := entries_Record (ad_times arl) entry\<rparr>, client)
     | AdaptiveTick clock1 clock2 \<Rightarrow>
         let (ts, wants) = entries_GetWants clock1 clock2 (ao_window (ad_opts arl)) (ad_times arl)
         in (arl\<lparr>ad_times := ts, ad_lastWants := wants\<rparr>, fst (Ask client (ad_resource arl) wants)))"

section \<open>Clearing\<close>

text \<open>A clock that does not go back, and is within the range of durations of the entries.\<close>

definition monotone_clock :: "clock \<Rightarrow> bool" where
  "monotone_clock clock = (\<forall>j k. j \<le> k \<longrightarrow> clock j \<le> clock k)"

lemma clear_searchable:
  assumes "sorted ts" and "monotone_clock clock"
  shows "searchable (length ts) (\<lambda>k i. sint (time_Sub (clock k) (ts ! i)) < sint window)"
proof -
  have "sint (time_Sub (clock k) (ts ! h')) \<le> sint (time_Sub (clock k) (ts ! h))"
    if "h \<le> h'" "h' < length ts" for h h' k
    using assms(1) that by (intro time_Sub_mono) (simp add: sorted_nth_mono)
  moreover have "sint (time_Sub (clock k) (ts ! h)) \<le> sint (time_Sub (clock k') (ts ! h))" if "k \<le> k'" for k k' h
    using assms(2) that by (intro time_Sub_mono) (simp add: monotone_clock_def)
  ultimately show ?thesis unfolding searchable_def by (meson order_le_less_trans)
qed

lemma entries_Clear_split:
  assumes "sorted ts" and "monotone_clock clock"
  shows "\<exists>n l. n \<le> length ts \<and> entries_Clear clock window ts = drop n ts \<and>
    (\<forall>t \<in> set (take n ts). sint window \<le> sint (time_Sub (clock l) t)) \<and>
    (\<forall>t \<in> set (drop n ts). sint (time_Sub (clock 0) t) < sint window)"
proof -
  let ?f = "\<lambda>k i. sint (time_Sub (clock k) (ts ! i)) < sint window"
  let ?n = "sort_Search (length ts) ?f"
  note c = sort_Search_correct [OF clear_searchable [OF assms], of window]
  obtain l where l: "\<And>h. h < ?n \<Longrightarrow> \<not> ?f l h" using c(2) by blast
  have "sint window \<le> sint (time_Sub (clock l) t)" if t: "t \<in> set (take ?n ts)" for t
  proof -
    obtain h where "h < ?n" "t = ts ! h" using t by (auto simp: in_set_conv_nth)
    then show ?thesis using l by (simp add: not_less)
  qed
  moreover have "sint (time_Sub (clock 0) t) < sint window" if t: "t \<in> set (drop ?n ts)" for t
  proof -
    obtain h where "h < length ts - ?n" "t = ts ! (?n + h)" using t c(1) by (auto simp: in_set_conv_nth)
    then show ?thesis using c(3) [of "?n + h"] by simp
  qed
  ultimately show ?thesis using c(1) by (auto simp: entries_Clear_def)
qed

text \<open>When the clock stands still, exactly the entries within the window stay.\<close>

lemma entries_Clear_filter:
  assumes "sorted ts"
  shows "entries_Clear (\<lambda>_. now) window ts = filter (\<lambda>t. sint (time_Sub now t) < sint window) ts"
proof -
  have "monotone_clock (\<lambda>_. now)" by (simp add: monotone_clock_def)
  from entries_Clear_split [OF assms this, of window] obtain n where n:
    "entries_Clear (\<lambda>_. now) window ts = drop n ts"
    "\<forall>t \<in> set (take n ts). sint window \<le> sint (time_Sub now t)"
    "\<forall>t \<in> set (drop n ts). sint (time_Sub now t) < sint window" by blast
  have "filter (\<lambda>t. sint (time_Sub now t) < sint window) (take n ts @ drop n ts) = drop n ts"
    unfolding filter_append using n(2,3) by (simp add: filter_empty_conv filter_id_conv not_less)
  with n(1) show ?thesis by (simp only: append_take_drop_id)
qed

section \<open>The wanted capacity\<close>

text \<open>With the clock standing still, the wanted capacity in exact arithmetic. \<open>per_second\<close> counts the
  entries of a second before now.\<close>

definition per_second :: "time \<Rightarrow> time list \<Rightarrow> int \<Rightarrow> int" where
  "per_second now ts i = int (length (filter (\<lambda>t. (now - t) div 1000000000 = i) ts))"

definition recent :: "time \<Rightarrow> time list \<Rightarrow> bool" where
  "recent now ts = list_all (\<lambda>t. t \<le> now \<and> now - t < 2 ^ 63) ts"

lemma whole_seconds_since:
  assumes "t \<le> now" and "now - t < 2 ^ 63" and "0 \<le> i" and "i < 2 ^ 63"
  shows "whole_seconds (time_Sub now t) = word_of_int i \<longleftrightarrow> (now - t) div 1000000000 = i"
proof -
  have s: "sint (whole_seconds (time_Sub now t)) = (now - t) div 1000000000"
    using assms by (simp only: sint_whole_seconds sint_time_Sub)
  have i: "sint (word_of_int i :: int64) = i" using assms by (simp add: sint64_of_int)
  show ?thesis unfolding s [symmetric] using i by (metis word_of_int_sint64)
qed

lemma lookup0_Nil [simp]: "lookup0 [] k = 0"
  by (simp add: lookup0_def)

lemma lookup0_put: "lookup0 (map_put m k v) k' = (if k' = k then v else lookup0 m k')"
  by (simp add: lookup0_def map_of_put)

lemma frequency_loop_lookup:
  "lookup0 (frequency_loop (\<lambda>_. now) k es m) s =
     lookup0 m s + of_nat (length (filter (\<lambda>t. whole_seconds (time_Sub now t) = s) es))"
  by (induction es arbitrary: k m) (simp_all add: lookup0_put Let_def)

lemma frequency_per_second:
  assumes "recent now ts" and "0 \<le> i" and "i < 2 ^ 63"
  shows "lookup0 (frequency_loop (\<lambda>_. now) 0 ts []) (word_of_int i) = word_of_int (per_second now ts i)"
proof -
  have "filter (\<lambda>t. whole_seconds (time_Sub now t) = word_of_int i) ts = filter (\<lambda>t. (now - t) div 1000000000 = i) ts"
    using assms by (intro filter_cong) (auto simp: recent_def list_all_iff whole_seconds_since)
  then show ?thesis by (simp add: frequency_loop_lookup per_second_def)
qed

lemma fold_word_sum:
  assumes "\<And>i. i \<in> set is \<Longrightarrow> f i = word_of_int (g i)"
  shows "fold (\<lambda>i sum. sum + f i) is (a :: int64) = a + word_of_int (sum_list (map g is))"
  using assms by (induction "is" arbitrary: a) (simp_all add: algebra_simps)

lemma weighted_sum_exact:
  assumes "recent now ts" and "0 \<le> sint n"
  shows "weighted_sum (frequency_loop (\<lambda>_. now) 0 ts []) n =
    word_of_int (\<Sum>i \<leftarrow> [0..sint n - 1]. per_second now ts i * (sint n - i))"
proof -
  have "lookup0 (frequency_loop (\<lambda>_. now) 0 ts []) (word_of_int i) * (n - word_of_int i) =
      word_of_int (per_second now ts i * (sint n - i))" if "i \<in> set [0..sint n - 1]" for i
  proof -
    have "i < 2 ^ 63" using that sint64_upper [of n] by simp
    with that show ?thesis using frequency_per_second [OF assms(1), of i] by simp
  qed
  then show ?thesis unfolding weighted_sum_def by (subst fold_word_sum) auto
qed

text \<open>The same number of entries in every second of the window.\<close>

lemma sum_upto: "(\<Sum>i \<leftarrow> [0..int n - 1]. g i) = (\<Sum>i < n. g (int i))"
proof (induction n)
  case (Suc n)
  have "[0..int (Suc n) - 1] = [0..int n - 1] @ [int n]"
    using upto_rec2 [of 0 "int n"] by simp
  with Suc show ?case by simp
qed simp

lemma sum_countdown: "2 * (\<Sum>i < n. k * (int n - int i)) = k * (int n * (int n + 1))"
proof (induction n)
  case (Suc n)
  have "(\<Sum>i < Suc n. k * (int (Suc n) - int i)) = (\<Sum>i < n. k * (int n - int i) + k) + k"
    by (simp add: algebra_simps)
  also have "\<dots> = (\<Sum>i < n. k * (int n - int i)) + k * (int n + 1)"
    by (simp only: sum.distrib) (simp add: algebra_simps)
  finally show ?case using Suc by (simp add: algebra_simps)
qed simp

lemma double_of_int: "2 * a = b \<Longrightarrow> 2 * of_int a = (of_int b :: rat)"
  by auto

lemma length_per_second:
  assumes "list_all (\<lambda>t. t \<le> now \<and> (now - t) div 1000000000 < int n) ts"
  shows "int (length ts) = (\<Sum>i < n. per_second now ts (int i))"
  using assms
proof (induction ts)
  case (Cons t ts)
  define s where "s = nat ((now - t) div 1000000000)"
  have s: "(now - t) div 1000000000 = int s" "s < n"
    using Cons.prems by (auto simp: s_def pos_imp_zdiv_nonneg_iff)
  have "per_second now (t # ts) (int i) = per_second now ts (int i) + (if i = s then 1 else 0)" for i
    by (simp add: per_second_def s(1))
  then have "(\<Sum>i < n. per_second now (t # ts) (int i)) =
      (\<Sum>i < n. per_second now ts (int i)) + (\<Sum>i < n. if i = s then 1 else 0)"
    by (simp only: sum.distrib)
  with Cons s(2) show ?case by simp
qed (simp add: per_second_def)

text \<open>The wanted capacity of entries within the window, in exact arithmetic: the weighted sum over the
  seconds, divided by the sum of the first numbers up to the number of entries.\<close>

lemma wants_of_exact:
  assumes "list_all (\<lambda>t. t \<le> now \<and> (now - t) div 1000000000 < int n) ts"
    and "n \<le> 10 ^ 9" and "ts \<noteq> []" and "length ts \<le> 10 ^ 9"
    and "(\<Sum>i < n. per_second now ts (int i) * (int n - int i)) < 2 ^ 63"
  shows "wants_of (\<lambda>_. now) (seconds (word_of_int (int n))) ts =
    Fin (of_int (\<Sum>i < n. per_second now ts (int i) * (int n - int i)) /
      of_int (int (length ts) * (int (length ts) + 1) div 2))"
proof -
  let ?m = "int (length ts)" and ?S = "\<Sum>i < n. per_second now ts (int i) * (int n - int i)"
  have m: "1 \<le> ?m" "?m \<le> 10 ^ 9" using assms(3,4) by (cases ts; simp)+
  have n: "sint (word_of_int (int n) :: int64) = int n" using assms(2) by (intro sint64_of_int) auto
  have w: "whole_seconds (seconds (word_of_int (int n))) = word_of_int (int n)"
    using float_to_int64_Seconds [of "seconds (word_of_int (int n))"] assms(2) n
    by (subst (asm) Seconds_seconds) auto
  have r: "recent now ts"
  proof -
    have "now - t < 2 ^ 63" if "t \<in> set ts" for t
    proof -
      have "(now - t) div 1000000000 < 10 ^ 9" using assms(1,2) that by (auto simp: list_all_iff)
      then show ?thesis by simp
    qed
    with assms(1) show ?thesis by (auto simp: recent_def list_all_iff)
  qed
  have S: "0 \<le> ?S" by (intro sum_nonneg mult_nonneg_nonneg) (auto simp: per_second_def)
  have ws: "weighted_sum (frequency_loop (\<lambda>_. now) 0 ts []) (word_of_int (int n)) = word_of_int ?S"
    using weighted_sum_exact [OF r, of "word_of_int (int n)"] by (simp only: n sum_upto)
  have num: "float64 (word_of_int ?S) = Fin (of_int ?S)"
    by (rule float64_of_int [OF order_trans [OF _ S] assms(5)]) simp
  have prod: "?m * (?m + 1) \<le> 10 ^ 9 * (10 ^ 9 + 1)" using m by (intro mult_mono) auto
  have gen: "sint (word_of_int P :: int64) = P" if "0 \<le> P" "P \<le> 10 ^ 9 * (10 ^ 9 + 1)" for P
    using that by (intro sint64_of_int) auto
  have "0 \<le> ?m * (?m + 1)" by simp
  from gen [OF this prod] have "sint (word_of_int (?m * (?m + 1)) :: int64) = ?m * (?m + 1)" .
  moreover have "word_of_int ?m * (word_of_int ?m + 1) = (word_of_int (?m * (?m + 1)) :: int64)" by simp
  ultimately have p: "sint (word_of_int ?m * (word_of_int ?m + 1) :: int64) = ?m * (?m + 1)" by metis
  have q: "quot (?m * (?m + 1)) 2 = ?m * (?m + 1) div 2" by (rule quot_nonneg) simp_all
  have "?m * (?m + 1) div 2 \<le> ?m * (?m + 1) div 1" by (rule zdiv_mono2) simp_all
  then have le: "?m * (?m + 1) div 2 \<le> 10 ^ 9 * (10 ^ 9 + 1)" using prod unfolding div_by_1 by (rule order_trans)
  have "0 \<le> ?m * (?m + 1) div 2" by (rule div_int_pos_iff [THEN iffD2]) simp
  then have d: "float64 (word_of_int (?m * (?m + 1) div 2)) = Fin (of_int (?m * (?m + 1) div 2))"
    unfolding float64_def using gen le by (simp only:)
  have "1 * (1 + 1) \<le> ?m * (?m + 1)" using m by (intro mult_mono) auto
  then have pos: "0 < ?m * (?m + 1) div 2" by (simp add: pos_imp_zdiv_pos_iff)
  show ?thesis
    unfolding wants_of_def Let_def w ws num p q d using pos by (simp only: divide_f64.simps of_int_0_eq_iff) simp
qed

section \<open>Properties\<close>

text \<open>Clearing removes old entries: every entry it removes was at least a window old at some
  reading of the clock, and every entry it keeps was younger at the first, provided the entries
  are in order and the clock does not go back.\<close>

lemma clear_removes_old:
  assumes "sorted ts" and "monotone_clock clock"
  shows "\<exists>old. ts = old @ entries_Clear clock window ts \<and>
    (\<exists>l. list_all (\<lambda>t. sint window \<le> sint (time_Sub (clock l) t)) old) \<and>
    list_all (\<lambda>t. sint (time_Sub (clock 0) t) < sint window) (entries_Clear clock window ts)"
proof -
  obtain n l where n: "entries_Clear clock window ts = drop n ts"
    "\<forall>t \<in> set (take n ts). sint window \<le> sint (time_Sub (clock l) t)"
    "\<forall>t \<in> set (drop n ts). sint (time_Sub (clock 0) t) < sint window"
    using entries_Clear_split [OF assms] by blast
  then show ?thesis
    by (intro exI [of _ "take n ts"] conjI exI [of _ l]) (simp_all add: list_all_iff)
qed

lemma clear_removes_old_witness:
  "\<exists>old. [0, 1000000, 5000000] = old @ entries_Clear (\<lambda>k. 5000000 + int k) (milliseconds 2) [0, 1000000, 5000000]"
proof -
  have "sorted [0, 1000000, 5000000 :: time]" and "monotone_clock (\<lambda>k. 5000000 + int k)"
    by (simp_all add: monotone_clock_def)
  from clear_removes_old [OF this, of "milliseconds 2"] show ?thesis by blast
qed

text \<open>The more a program uses a resource, the less the limiter asks for: with \<open>k\<close> entries in each of
  the \<open>n\<close> seconds of the window it asks for \<open>(n + 1) / (k * n + 1)\<close>, which is at most one, while the
  weighted mean of the seconds is \<open>k\<close>. The code divides by the sum of the numbers up to the number of
  entries instead of the number of seconds.\<close>

lemma steady_wants:
  assumes "sorted ts" and "list_all (\<lambda>t. t \<le> now) ts" and "recent now ts"
    and "0 < n" and "0 < k" and "k * n \<le> 10 ^ 9"
    and "\<And>i. i < n \<Longrightarrow> per_second now ts (int i) = int k"
  shows "snd (entries_GetWants (\<lambda>_. now) (\<lambda>_. now) (seconds (word_of_int (int n))) ts) =
    Fin ((of_nat n + 1) / (of_nat k * of_nat n + 1))"
proof -
  let ?w = "seconds (word_of_int (int n))"
  let ?ts = "filter (\<lambda>t. sint (time_Sub now t) < sint ?w) ts"
  have n9: "n \<le> 10 ^ 9" using assms(4-6) by (metis One_nat_def Suc_leI le_trans mult_le_mono1 mult_1)
  have "sint (word_of_int (int n) :: int64) = int n" using n9 by (intro sint64_of_int) auto
  then have w: "sint ?w = int n * 1000000000" using n9 by (subst sint_seconds) auto
  have d: "sint (time_Sub now t) < sint ?w \<longleftrightarrow> (now - t) div 1000000000 < int n" if "t \<in> set ts" for t
    using assms(2,3) that unfolding w by (subst sint_time_Sub) (auto simp: recent_def list_all_iff)
  have ps: "per_second now ?ts (int i) = int k" if "i < n" for i
  proof -
    have "filter (\<lambda>t. (now - t) div 1000000000 = int i) ?ts = filter (\<lambda>t. (now - t) div 1000000000 = int i) ts"
      unfolding filter_filter by (rule filter_cong) (use d that in auto)
    with assms(7) [OF that] show ?thesis by (simp add: per_second_def)
  qed
  have win: "list_all (\<lambda>t. t \<le> now \<and> (now - t) div 1000000000 < int n) ?ts"
    using assms(2) d by (auto simp: list_all_iff)
  have "int (length ?ts) = (\<Sum>i < n. int k)" unfolding length_per_second [OF win] by (rule sum.cong) (simp_all only: lessThan_iff ps)
  then have len: "int (length ?ts) = int k * int n" by simp
  then have len': "length ?ts = k * n" by (metis of_nat_eq_iff of_nat_mult)
  have S: "(\<Sum>i < n. per_second now ?ts (int i) * (int n - int i)) = (\<Sum>i < n. int k * (int n - int i))"
    by (rule sum.cong) (simp_all only: lessThan_iff ps)
  let ?S = "\<Sum>i < n. int k * (int n - int i)"
  have S2: "2 * ?S = int k * (int n * (int n + 1))" by (rule sum_countdown)
  have kn: "int k * int n \<le> 10 ^ 9" using assms(6) by (metis of_nat_le_iff of_nat_mult of_nat_numeral of_nat_power)
  have "(int k * int n) * (int n + 1) \<le> 10 ^ 9 * (10 ^ 9 + 1)" using kn n9 by (intro mult_mono) auto
  with S2 have "?S < 2 ^ 63" by (simp add: mult.assoc)
  then have "wants_of (\<lambda>_. now) ?w ?ts = Fin (of_int ?S / of_int (int (length ?ts) * (int (length ?ts) + 1) div 2))"
    using wants_of_exact [OF win n9] len' assms(4-6) unfolding S by (metis length_0_conv mult_is_0 neq0_conv)
  moreover have "of_int ?S / of_int (int (length ?ts) * (int (length ?ts) + 1) div 2) =
      ((of_nat n + 1) / (of_nat k * of_nat n + 1) :: rat)"
  proof -
    have "2 * (int (length ?ts) * (int (length ?ts) + 1) div 2) = (int k * int n) * (int k * int n + 1)"
      unfolding len by (rule dvd_mult_div_cancel) auto
    then have D: "2 * of_int (int (length ?ts) * (int (length ?ts) + 1) div 2) =
        (of_int ((int k * int n) * (int k * int n + 1)) :: rat)" by (rule double_of_int)
    have N: "2 * of_int ?S = (of_int (int k * (int n * (int n + 1))) :: rat)" using S2 by (rule double_of_int)
    have "of_int ?S / of_int (int (length ?ts) * (int (length ?ts) + 1) div 2) =
        (2 * of_int ?S) / (2 * of_int (int (length ?ts) * (int (length ?ts) + 1) div 2) :: rat)" by simp
    also have "\<dots> = (of_nat n + 1) / (of_nat k * of_nat n + 1)"
      unfolding D N using assms(4,5) by (simp add: divide_simps)
    finally show ?thesis .
  qed
  ultimately show ?thesis
    unfolding entries_GetWants_def Let_def entries_Clear_filter [OF assms(1)] by simp
qed

text \<open>Three calls of \<open>Wait\<close> in each of two seconds: the limiter asks for three sevenths of an operation
  per second.\<close>

lemma steady_wants_witness:
  "snd (entries_GetWants (\<lambda>_. 2000000000) (\<lambda>_. 2000000000) (seconds 2)
     [500000000, 500000000, 500000000, 1500000000, 1500000000, 1500000000]) = Fin (3 / 7)"
proof -
  have "per_second 2000000000 [500000000, 500000000, 500000000, 1500000000, 1500000000, 1500000000] (int i) = int 3"
    if "i < 2" for i
  proof -
    have "i = 0 \<or> i = 1" using that by auto
    then show ?thesis by (auto simp: per_second_def)
  qed
  from steady_wants [where n = 2 and k = 3, OF _ _ _ _ _ _ this] show ?thesis by (simp add: recent_def)
qed

text \<open>A limiter that was idle for a window asks for NaN, and the client takes it: the check of \<open>Ask\<close>
  does not refuse it, so NaN becomes what the resource wants.\<close>

lemma idle_wants_nan:
  assumes "list_all (\<lambda>t. sint (ao_window (ad_opts arl)) \<le> sint (time_Sub now t)) (ad_times arl)"
    and "sorted (ad_times arl)"
  shows "adaptive_step (arl, client) (AdaptiveTick (\<lambda>_. now) clock2) =
      (arl\<lparr>ad_times := [], ad_lastWants := NaN\<rparr>,
       cl_write client (ad_resource arl) ((cl_heap client ! ad_resource arl)\<lparr>ri_wants := NaN\<rparr>))"
proof -
  have "filter (\<lambda>t. sint (time_Sub now t) < sint (ao_window (ad_opts arl))) (ad_times arl) = []"
    using assms(1) by (auto simp: filter_empty_conv list_all_iff not_less)
  then have c: "entries_Clear (\<lambda>_. now) (ao_window (ad_opts arl)) (ad_times arl) = []"
    unfolding entries_Clear_filter [OF assms(2)] .
  have ws: "fold (\<lambda>i sum. sum) is (0 :: int64) = 0" for "is" :: "int list"
    by (induction "is") simp_all
  have "wants_of clock2 w [] = NaN" for w
    by (simp add: wants_of_def weighted_sum_def ws float64_def quot_def)
  with c show ?thesis by (simp add: adaptive_step_def entries_GetWants_def Ask_def)
qed

lemma idle_wants_nan_witness:
  "adaptive_step (NewAdaptiveQPS 0 [], NewWithID ''c'' (getOptions [])) (AdaptiveTick (\<lambda>_. 0) (\<lambda>_. 0)) =
     ((NewAdaptiveQPS 0 [])\<lparr>ad_times := [], ad_lastWants := NaN\<rparr>, NewWithID ''c'' (getOptions []))"
  using idle_wants_nan [of "NewAdaptiveQPS 0 []" 0 "NewWithID ''c'' (getOptions [])"]
  by (simp add: NewAdaptiveQPS_def NewWithID_def cl_write_def)

end
