(* ===== verification/Token_Bucket.thy ===== *)
theory Token_Bucket
  imports Go_Time
begin

text \<open>
  The token bucket of \<open>go/zxratelimiter/ratelimiter.go\<close>: tokens are added by the quantum on each
  tick of the fill interval, up to the capacity. Where Go leaves the conversion of a float open
  the model uses a parameter \<open>conv\<close>, so the results hold for every choice of it.
\<close>

section \<open>The code\<close>

record Bucket =
  bk_startTime :: time
  bk_capacity :: int64
  bk_quantum :: int64
  bk_fillInterval :: duration
  bk_availableTokens :: int64
  bk_latestTick :: int64
  bk_timeRange :: duration

definition rateMargin :: f64 where "rateMargin = Fin (1 / 100)"

definition bucket_Rate :: "Bucket \<Rightarrow> f64" where
  "bucket_Rate tb = float64 (bk_timeRange tb) * float64 (bk_quantum tb) / float64 (bk_fillInterval tb)"

definition nextQuantum :: "int64 \<Rightarrow> int64" where
  "nextQuantum q = (let q1 = word_of_int (quot (sint (q * 11)) 10) in if q1 = q then q1 + 1 else q1)"

definition to_int64 :: "(f64 \<Rightarrow> int64) \<Rightarrow> f64 \<Rightarrow> int64" where
  "to_int64 conv x = (case float_to_int64 x of Some n \<Rightarrow> n | None \<Rightarrow> conv x)"

text \<open>The search for a quantum; a search that did not end would be \<open>None\<close>.\<close>

partial_function (option) quantum_loop :: "(f64 \<Rightarrow> int64) \<Rightarrow> f64 \<Rightarrow> duration \<Rightarrow> Bucket \<Rightarrow> int64
    \<Rightarrow> (panic + Bucket) option" where
  "quantum_loop conv rate timeRange tb quantum =
     (if sint quantum < 2 ^ 50 then
        let fillInterval = to_int64 conv (float64 timeRange / rate * float64 quantum) in
        if sint fillInterval \<le> 0 then quantum_loop conv rate timeRange tb (nextQuantum quantum)
        else
          let tb' = tb\<lparr>bk_fillInterval := fillInterval, bk_quantum := quantum\<rparr> in
          if math_Abs (bucket_Rate tb' - rate) / rate \<le> rateMargin then Some (Inr tb')
          else quantum_loop conv rate timeRange tb' (nextQuantum quantum)
      else Some (Inl (PanicCall ''cannot find suitable quantum'')))"

definition NewBucketWithRate :: "(f64 \<Rightarrow> int64) \<Rightarrow> time \<Rightarrow> f64 \<Rightarrow> int64 \<Rightarrow> duration \<Rightarrow> (panic + Bucket) option" where
  "NewBucketWithRate conv now rate capacity timeRange =
     (if sint capacity \<le> 0 then Some (Inl (PanicCall ''token bucket capacity must > 0''))
      else if rate < Fin 0 then Some (Inl (PanicCall ''token buket rate must >= 0 ''))
      else quantum_loop conv rate timeRange
        \<lparr>bk_startTime = now, bk_capacity = capacity, bk_quantum = 1, bk_fillInterval = 1,
         bk_availableTokens = 0, bk_latestTick = 0, bk_timeRange = timeRange\<rparr> 1)"

definition bucket_Capacity :: "Bucket \<Rightarrow> int64" where "bucket_Capacity tb = bk_capacity tb"

definition currentTick :: "Bucket \<Rightarrow> time \<Rightarrow> panic + int64" where
  "currentTick tb now = div64 (time_Sub now (bk_startTime tb)) (bk_fillInterval tb)"

definition adjustavailableTokens :: "Bucket \<Rightarrow> int64 \<Rightarrow> Bucket" where
  "adjustavailableTokens tb tick =
     (let tokens = bk_availableTokens tb + (tick - bk_latestTick tb) * bk_quantum tb;
          tokens = (if sint (bk_capacity tb) \<le> sint tokens then bk_capacity tb else tokens)
      in tb\<lparr>bk_availableTokens := tokens, bk_latestTick := tick\<rparr>)"

definition bucket_take :: "time \<Rightarrow> int64 \<Rightarrow> duration \<Rightarrow> Bucket \<Rightarrow> panic + Bucket \<times> duration \<times> bool" where
  "bucket_take now cnt maxWait tb =
     (if sint cnt \<le> 0 then Inr (tb, 0, True)
      else bind_panic (currentTick tb now) (\<lambda>tick.
        let tb = adjustavailableTokens tb tick;
            avail = bk_availableTokens tb - cnt
        in if 0 < sint avail then Inr (tb\<lparr>bk_availableTokens := avail\<rparr>, 0, True)
           else bind_panic (div64 (- avail - 1) (bk_quantum tb)) (\<lambda>q.
             let endTick = tick + q + 1;
                 endTime = time_Add (bk_startTime tb) (endTick * bk_fillInterval tb);
                 waitTime = time_Sub endTime now
             in if sint maxWait < sint waitTime then Inr (tb, 0, False)
                else Inr (tb\<lparr>bk_availableTokens := avail\<rparr>, waitTime, True))))"

text \<open>\<open>Take\<close>: at most 9999 hours of waiting; the flag is dropped. \<open>Wait\<close> sleeps that long.\<close>

definition Take :: "time \<Rightarrow> int64 \<Rightarrow> Bucket \<Rightarrow> panic + Bucket \<times> duration" where
  "Take now cnt tb = bind_panic (bucket_take now cnt (60 * Minute * 9999) tb) (\<lambda>(tb', d, _). Inr (tb', d))"

definition bucket_Wait :: "time \<Rightarrow> int64 \<Rightarrow> Bucket \<Rightarrow> panic + Bucket \<times> duration option" where
  "bucket_Wait now cnt tb = bind_panic (Take now cnt tb) (\<lambda>(tb', d).
     Inr (tb', if 0 < sint d then Some d else None))"

definition takeAvailable :: "time \<Rightarrow> int64 \<Rightarrow> Bucket \<Rightarrow> panic + Bucket \<times> int64" where
  "takeAvailable now cnt tb =
     (if sint cnt < 0 then Inr (tb, 0)
      else bind_panic (currentTick tb now) (\<lambda>tick.
        let tb = adjustavailableTokens tb tick
        in if sint (bk_availableTokens tb) \<le> 0 then Inr (tb, 0)
           else
             let cnt = (if sint (bk_availableTokens tb) < sint cnt then bk_availableTokens tb else cnt)
             in Inr (tb\<lparr>bk_availableTokens := bk_availableTokens tb - cnt\<rparr>, cnt)))"

definition timeNearEqual :: "time \<Rightarrow> time \<Rightarrow> bool" where
  "timeNearEqual time1 time2 =
     (if After time1 time2 then sint (time_Sub time1 time2) \<le> sint Millisecond
      else sint (time_Sub time2 time1) \<le> sint Millisecond)"

text \<open>Times that are near are at most a millisecond apart, in either order, also where \<open>Sub\<close> saturates.\<close>

lemma timeNearEqual_iff: "timeNearEqual a b \<longleftrightarrow> \<bar>a - b\<bar> \<le> 1000000"
proof -
  have "sint (time_Sub t u) \<le> sint Millisecond \<longleftrightarrow> t - u \<le> 1000000" if "u \<le> t" for t u
    using that unfolding time_Sub_def Millisecond_def by (subst sint64_of_int) auto
  from this [of a b] this [of b a] show ?thesis by (auto simp: timeNearEqual_def After_def not_le)
qed

section \<open>The search for a quantum\<close>

lemma sint_nextQuantum:
  assumes "1 \<le> sint q" and "sint q < 2 ^ 50"
  shows "sint (nextQuantum q) = (if sint q < 10 then sint q + 1 else sint q * 11 div 10)"
proof -
  have m: "sint (q * 11) = sint q * 11" using assms by (subst sint64_mult) auto
  have qq: "quot (sint q * 11) 10 = sint q * 11 div 10" using assms by (intro quot_nonneg) auto
  have s: "sint (word_of_int (sint q * 11 div 10) :: int64) = sint q * 11 div 10"
    using assms by (intro sint64_of_int) auto
  have eq: "word_of_int (sint q * 11 div 10) = q \<longleftrightarrow> sint q * 11 div 10 = sint q"
    using s by (metis word_of_int_sint64)
  show ?thesis
  proof (cases "sint q < 10")
    case True
    then have "sint q * 11 div 10 = sint q" using assms by simp
    then show ?thesis
      using True assms by (simp add: nextQuantum_def m qq Let_def sint64_add)
  next
    case False
    then have "sint q * 11 div 10 \<noteq> sint q" by simp
    with False show ?thesis by (simp add: nextQuantum_def m qq Let_def eq s)
  qed
qed

lemma nextQuantum_increases:
  assumes "1 \<le> sint q" and "sint q < 2 ^ 50"
  shows "sint q < sint (nextQuantum q)"
proof -
  have "x < (if x < 10 then x + 1 else x * 11 div 10)" if "1 \<le> x" for x :: int
  proof (cases "x < 10")
    case False
    then have "(x + 1) * 10 div 10 \<le> x * 11 div 10" by (intro zdiv_mono1) auto
    with False show ?thesis by simp
  qed simp
  from this [OF assms(1)] show ?thesis unfolding sint_nextQuantum [OF assms] .
qed

lemma quantum_loop_cases:
  assumes "1 \<le> sint q"
  shows "quantum_loop conv rate timeRange tb q = Some (Inl (PanicCall ''cannot find suitable quantum'')) \<or>
    (\<exists>tb'. quantum_loop conv rate timeRange tb q = Some (Inr tb') \<and>
       math_Abs (bucket_Rate tb' - rate) / rate \<le> rateMargin \<and> 0 < sint (bk_fillInterval tb') \<and> 1 \<le> sint (bk_quantum tb') \<and>
       tb' = tb\<lparr>bk_fillInterval := bk_fillInterval tb', bk_quantum := bk_quantum tb'\<rparr>)"
  using assms
proof (induction "nat (2 ^ 50 - sint q)" arbitrary: q tb rule: less_induct)
  case less
  show ?case
  proof (cases "sint q < 2 ^ 50")
    case False
    then show ?thesis by (subst (1 2) quantum_loop.simps) simp
  next
    case True
    note inc = nextQuantum_increases [OF less.prems True]
    then have "nat (2 ^ 50 - sint (nextQuantum q)) < nat (2 ^ 50 - sint q)" "1 \<le> sint (nextQuantum q)"
      using True less.prems by auto
    note IH = less.hyps [OF this]
    let ?f = "to_int64 conv (float64 timeRange / rate * float64 q)"
    show ?thesis
      using IH [of tb] IH [of "tb\<lparr>bk_fillInterval := ?f, bk_quantum := q\<rparr>"] True less.prems
      by (subst (1 2) quantum_loop.simps) (auto simp: Let_def)
  qed
qed

section \<open>Tokens\<close>

definition bucket_ticks :: "Bucket \<Rightarrow> time \<Rightarrow> int" where
  "bucket_ticks tb now = (now - bk_startTime tb) div sint (bk_fillInterval tb)"

text \<open>The invariant of a bucket.\<close>

definition bucket_ok :: "Bucket \<Rightarrow> bool" where
  "bucket_ok tb = (0 < sint (bk_quantum tb) \<and> 0 < sint (bk_fillInterval tb) \<and> 0 < sint (bk_capacity tb)
     \<and> sint (bk_availableTokens tb) \<le> sint (bk_capacity tb) \<and> 0 \<le> sint (bk_latestTick tb))"

text \<open>
  The moments at which a bucket is used: not before it was last used, and before any of its
  counters can overflow.
\<close>

definition bucket_now :: "Bucket \<Rightarrow> time \<Rightarrow> bool" where
  "bucket_now tb now = (bk_startTime tb \<le> now \<and> now - bk_startTime tb < 2 ^ 62
     \<and> sint (bk_latestTick tb) \<le> bucket_ticks tb now
     \<and> sint (bk_quantum tb) * bucket_ticks tb now < 2 ^ 61
     \<and> sint (bk_capacity tb) < 2 ^ 61 \<and> - (2 ^ 61) < sint (bk_availableTokens tb))"

text \<open>The tokens in the bucket at a moment, in exact arithmetic.\<close>

definition tokens_at :: "Bucket \<Rightarrow> time \<Rightarrow> int" where
  "tokens_at tb now = min (sint (bk_capacity tb))
     (sint (bk_availableTokens tb) + sint (bk_quantum tb) * (bucket_ticks tb now - sint (bk_latestTick tb)))"

lemma ticks_nonneg: "bucket_ok tb \<Longrightarrow> bucket_now tb now \<Longrightarrow> 0 \<le> bucket_ticks tb now"
  by (simp add: bucket_ok_def bucket_now_def)

lemma ticks_less: "bucket_ok tb \<Longrightarrow> bucket_now tb now \<Longrightarrow> bucket_ticks tb now < 2 ^ 61"
proof -
  assume a: "bucket_ok tb" "bucket_now tb now"
  have "1 * bucket_ticks tb now \<le> sint (bk_quantum tb) * bucket_ticks tb now"
    using a ticks_nonneg [OF a] by (intro mult_right_mono) (auto simp: bucket_ok_def)
  then show "bucket_ticks tb now < 2 ^ 61" using a by (simp add: bucket_now_def)
qed

lemma currentTick_ok:
  assumes "bucket_ok tb" and "bucket_now tb now"
  shows "currentTick tb now = Inr (word_of_int (bucket_ticks tb now))"
proof -
  have "sint (time_Sub now (bk_startTime tb)) = now - bk_startTime tb"
    using assms(2) by (intro sint_time_Sub) (auto simp: bucket_now_def)
  then show ?thesis
    using assms by (simp add: currentTick_def div64_nonneg bucket_ticks_def bucket_ok_def bucket_now_def)
qed

lemma adjust_ok:
  assumes "bucket_ok tb" and "bucket_now tb now"
  shows "sint (bk_availableTokens (adjustavailableTokens tb (word_of_int (bucket_ticks tb now)))) = tokens_at tb now"
    and "sint (bk_latestTick (adjustavailableTokens tb (word_of_int (bucket_ticks tb now)))) = bucket_ticks tb now"
proof -
  let ?t = "bucket_ticks tb now" and ?l = "sint (bk_latestTick tb)" and ?q = "sint (bk_quantum tb)"
  have t: "sint (word_of_int ?t :: int64) = ?t"
    using ticks_nonneg [OF assms] ticks_less [OF assms] by (intro sint64_of_int) auto
  have d: "sint (word_of_int ?t - bk_latestTick tb) = ?t - ?l"
    using assms ticks_less [OF assms] by (subst sint64_diff) (auto simp: t bucket_ok_def bucket_now_def)
  have "(?t - ?l) * ?q \<le> ?t * ?q" using assms by (intro mult_right_mono) (auto simp: bucket_ok_def)
  moreover have "?t * ?q < 2 ^ 61" using assms(2) by (simp add: bucket_now_def mult.commute)
  moreover have "0 \<le> (?t - ?l) * ?q" using assms by (intro mult_nonneg_nonneg) (auto simp: bucket_ok_def bucket_now_def)
  ultimately have p: "0 \<le> (?t - ?l) * ?q" "(?t - ?l) * ?q < 2 ^ 61" by linarith+
  have m: "sint ((word_of_int ?t - bk_latestTick tb) * bk_quantum tb) = (?t - ?l) * ?q"
    using p by (subst sint64_mult) (auto simp: d)
  have "sint (bk_availableTokens tb + (word_of_int ?t - bk_latestTick tb) * bk_quantum tb) =
      sint (bk_availableTokens tb) + (?t - ?l) * ?q"
  proof -
    have gen: "sint (a + w) = sint a + P"
      if "sint w = P" "0 \<le> P" "P < 2 ^ 61" "- (2 ^ 61) < sint a" "sint a < 2 ^ 61" for a w :: int64 and P
      using that by (subst sint64_add) auto
    show ?thesis by (rule gen [OF m p]) (use assms in \<open>auto simp: bucket_ok_def bucket_now_def\<close>)
  qed
  then show "sint (bk_availableTokens (adjustavailableTokens tb (word_of_int ?t))) = tokens_at tb now"
    by (auto simp: adjustavailableTokens_def Let_def tokens_at_def mult.commute)
  show "sint (bk_latestTick (adjustavailableTokens tb (word_of_int ?t))) = ?t"
    by (simp add: adjustavailableTokens_def Let_def t)
qed

lemma adjust_simps [simp]:
  "bk_startTime (adjustavailableTokens tb t) = bk_startTime tb"
  "bk_capacity (adjustavailableTokens tb t) = bk_capacity tb"
  "bk_quantum (adjustavailableTokens tb t) = bk_quantum tb"
  "bk_fillInterval (adjustavailableTokens tb t) = bk_fillInterval tb"
  "bk_timeRange (adjustavailableTokens tb t) = bk_timeRange tb"
  by (simp_all add: adjustavailableTokens_def Let_def)

lemma tokens_at_bounds:
  assumes "bucket_ok tb" and "bucket_now tb now"
  shows "tokens_at tb now \<le> sint (bk_capacity tb)" "sint (bk_availableTokens tb) \<le> tokens_at tb now"
    "- (2 ^ 61) < tokens_at tb now" "tokens_at tb now < 2 ^ 61"
proof -
  define P where "P = sint (bk_quantum tb) * (bucket_ticks tb now - sint (bk_latestTick tb))"
  have "0 \<le> P" using assms by (auto simp: P_def bucket_ok_def bucket_now_def)
  then show "tokens_at tb now \<le> sint (bk_capacity tb)" "sint (bk_availableTokens tb) \<le> tokens_at tb now"
    "- (2 ^ 61) < tokens_at tb now" "tokens_at tb now < 2 ^ 61"
    using assms by (auto simp: tokens_at_def P_def [symmetric] bucket_ok_def bucket_now_def)
qed

text \<open>What stays of a bucket when it is used.\<close>

definition same_bucket :: "Bucket \<Rightarrow> Bucket \<Rightarrow> bool" where
  "same_bucket tb tb' = (bk_startTime tb' = bk_startTime tb \<and> bk_capacity tb' = bk_capacity tb \<and>
     bk_quantum tb' = bk_quantum tb \<and> bk_fillInterval tb' = bk_fillInterval tb \<and> bk_timeRange tb' = bk_timeRange tb)"

lemma same_bucket_ticks: "same_bucket tb tb' \<Longrightarrow> bucket_ticks tb' = bucket_ticks tb"
  by (simp add: same_bucket_def bucket_ticks_def fun_eq_iff)

lemma takeAvailable_exact:
  assumes "bucket_ok tb" and "bucket_now tb now" and "0 \<le> sint cnt"
  shows "\<exists>tb' got. takeAvailable now cnt tb = Inr (tb', got) \<and> same_bucket tb tb' \<and> bucket_ok tb' \<and>
    sint got = max 0 (min (sint cnt) (tokens_at tb now)) \<and>
    sint (bk_availableTokens tb') = tokens_at tb now - sint got \<and>
    sint (bk_latestTick tb') = bucket_ticks tb now"
proof -
  let ?a = "adjustavailableTokens tb (word_of_int (bucket_ticks tb now))"
  note a = adjust_ok [OF assms(1,2)] and b = tokens_at_bounds [OF assms(1,2)]
  have nn: "0 \<le> bucket_ticks tb now" by (rule ticks_nonneg [OF assms(1,2)])
  have same: "same_bucket tb (?a\<lparr>bk_availableTokens := x\<rparr>)" for x by (simp add: same_bucket_def)
  have ok: "bucket_ok (?a\<lparr>bk_availableTokens := x\<rparr>)" if "sint x \<le> tokens_at tb now" for x
    using assms(1) a(2) nn b(1) that by (simp add: bucket_ok_def)
  have tk: "takeAvailable now cnt tb =
      (if tokens_at tb now \<le> 0 then Inr (?a, 0)
       else let c = (if tokens_at tb now < sint cnt then bk_availableTokens ?a else cnt)
         in Inr (?a\<lparr>bk_availableTokens := bk_availableTokens ?a - c\<rparr>, c))"
    using assms by (simp add: takeAvailable_def currentTick_ok Let_def a)
  show ?thesis
  proof (cases "tokens_at tb now \<le> 0")
    case True
    have "same_bucket tb ?a" by (simp add: same_bucket_def)
    with True assms(3) ok [of "bk_availableTokens ?a"] show ?thesis by (simp add: tk a)
  next
    case False
    define c where "c = (if tokens_at tb now < sint cnt then bk_availableTokens ?a else cnt)"
    have c: "sint c = min (sint cnt) (tokens_at tb now)" by (simp add: c_def a)
    have d: "sint (bk_availableTokens ?a - c) = tokens_at tb now - sint c"
      using c a(1) b assms(3) False by (subst sint64_diff) auto
    have "sint (bk_availableTokens ?a - c) \<le> tokens_at tb now" using d c assms(3) False by auto
    from ok [OF this] same [of "bk_availableTokens ?a - c"] show ?thesis
      unfolding tk c_def [symmetric] using False assms(3) c d a(2) by (auto simp: Let_def)
  qed
qed

text \<open>A run of calls of \<open>TakeAvailable\<close>, at the moments given: the bucket and the tokens taken.\<close>

fun take_run :: "Bucket \<Rightarrow> (time \<times> int64) list \<Rightarrow> panic + Bucket \<times> int" where
  "take_run tb [] = Inr (tb, 0)"
| "take_run tb ((now, cnt) # rest) = bind_panic (takeAvailable now cnt tb) (\<lambda>(tb', got).
     bind_panic (take_run tb' rest) (\<lambda>(tb'', total). Inr (tb'', sint got + total)))"

text \<open>The moments follow each other, the first not before the bucket was last used, and none of the
  bucket's counters overflows until the last.\<close>

definition run_moments :: "Bucket \<Rightarrow> (time \<times> int64) list \<Rightarrow> bool" where
  "run_moments tb calls = (sorted (map fst calls) \<and> list_all (\<lambda>(now, cnt). bucket_now tb now) calls)"

lemma takeAvailable_now:
  assumes "bucket_ok tb" and "bucket_now tb now" and "bucket_now tb later" and "now \<le> later"
    and "takeAvailable now cnt tb = Inr (tb', got)"
  shows "bucket_now tb' later \<and> bucket_ok tb' \<and> same_bucket tb tb' \<and> 0 \<le> sint got \<and>
    sint (bk_latestTick tb') \<le> bucket_ticks tb now \<and>
    sint got + sint (bk_availableTokens tb') - sint (bk_quantum tb) * sint (bk_latestTick tb') \<le>
      sint (bk_availableTokens tb) - sint (bk_quantum tb) * sint (bk_latestTick tb) \<and>
    (0 \<le> sint (bk_availableTokens tb) \<longrightarrow> 0 \<le> sint (bk_availableTokens tb'))"
proof (cases "sint cnt < 0")
  case True
  with assms show ?thesis by (auto simp: takeAvailable_def same_bucket_def bucket_now_def)
next
  case False
  then have c: "0 \<le> sint cnt" by simp
  from takeAvailable_exact [OF assms(1,2) c] assms(5) have t: "same_bucket tb tb'" "bucket_ok tb'"
    "sint got = max 0 (min (sint cnt) (tokens_at tb now))" "sint (bk_availableTokens tb') = tokens_at tb now - sint got"
    "sint (bk_latestTick tb') = bucket_ticks tb now" by auto
  note b = tokens_at_bounds [OF assms(1,2)]
  have mono: "bucket_ticks tb now \<le> bucket_ticks tb later"
    unfolding bucket_ticks_def using assms(1,4) by (intro zdiv_mono1) (auto simp: bucket_ok_def)
  have "bucket_now tb' later"
    using assms(3) t(1,3-5) b mono same_bucket_ticks [OF t(1)] c
    by (auto simp: bucket_now_def same_bucket_def)
  moreover have "tokens_at tb now \<le> sint (bk_availableTokens tb) +
      sint (bk_quantum tb) * (bucket_ticks tb now - sint (bk_latestTick tb))"
    by (simp add: tokens_at_def)
  ultimately show ?thesis
    using t b(2) c by (auto simp: algebra_simps)
qed

lemma take_run_bound:
  assumes "bucket_ok tb" and "run_moments tb calls" and "0 \<le> sint (bk_availableTokens tb)"
    and "list_all (\<lambda>(now, cnt). bucket_ticks tb now \<le> n) calls" and "sint (bk_latestTick tb) \<le> n"
  shows "\<exists>tb' total. take_run tb calls = Inr (tb', total) \<and> same_bucket tb tb' \<and> bucket_ok tb' \<and> 0 \<le> total \<and>
    total \<le> sint (bk_availableTokens tb) + sint (bk_quantum tb) * (n - sint (bk_latestTick tb))"
  using assms
proof (induction calls arbitrary: tb)
  case Nil
  have "0 \<le> sint (bk_quantum tb) * (n - sint (bk_latestTick tb))"
    using Nil by (intro mult_nonneg_nonneg) (auto simp: bucket_ok_def)
  with Nil show ?case by (simp add: same_bucket_def)
next
  case (Cons call calls)
  obtain now cnt where call: "call = (now, cnt)" by force
  have m: "bucket_now tb now" "sorted (map fst calls)"
    "\<And>later c. (later, c) \<in> set calls \<Longrightarrow> bucket_now tb later \<and> now \<le> later"
    using Cons.prems(2) by (auto simp: run_moments_def call list_all_iff)
  obtain tb1 got where 1: "takeAvailable now cnt tb = Inr (tb1, got)"
  proof (cases "sint cnt < 0")
    case True
    then show ?thesis by (intro that [of tb 0]) (simp add: takeAvailable_def)
  next
    case False
    then show ?thesis using takeAvailable_exact [OF Cons.prems(1) m(1), of cnt] that by auto
  qed
  note s = takeAvailable_now [OF Cons.prems(1) m(1) _ _ 1]
  have s0: "bucket_ok tb1" "same_bucket tb tb1" "0 \<le> sint got" "sint (bk_latestTick tb1) \<le> bucket_ticks tb now"
    "sint got + sint (bk_availableTokens tb1) - sint (bk_quantum tb) * sint (bk_latestTick tb1) \<le>
      sint (bk_availableTokens tb) - sint (bk_quantum tb) * sint (bk_latestTick tb)" "0 \<le> sint (bk_availableTokens tb1)"
    using s [OF m(1)] Cons.prems(3) by auto
  have r: "run_moments tb1 calls" using m(2,3) s by (auto simp: run_moments_def list_all_iff)
  have n: "list_all (\<lambda>(now, cnt). bucket_ticks tb1 now \<le> n) calls" "sint (bk_latestTick tb1) \<le> n"
    using Cons.prems(4) s0(4) same_bucket_ticks [OF s0(2)] by (auto simp: call)
  from Cons.IH [OF s0(1) r s0(6) n] obtain tb2 total where 2: "take_run tb1 calls = Inr (tb2, total)"
    "same_bucket tb1 tb2" "bucket_ok tb2" "0 \<le> total"
    "total \<le> sint (bk_availableTokens tb1) + sint (bk_quantum tb1) * (n - sint (bk_latestTick tb1))" by blast
  have "sint got + total \<le> sint (bk_availableTokens tb) + sint (bk_quantum tb) * (n - sint (bk_latestTick tb))"
    using 2(5) s0(2,5) by (simp add: same_bucket_def algebra_simps)
  with 1 2 s0 show ?case by (auto simp: call same_bucket_def)
qed

section \<open>Waiting\<close>

text \<open>Rounding up: the ticks after which a debt is paid.\<close>

lemma ticks_for_debt:
  fixes d q :: int
  assumes "0 < d" and "0 < q"
  shows "d \<le> ((d - 1) div q + 1) * q" and "((d - 1) div q) * q < d" and "1 \<le> (d - 1) div q + 1"
    and "(d - 1) div q + 1 \<le> d"
proof -
  have m: "(d - 1) div q * q + (d - 1) mod q = d - 1" by simp
  have r: "0 \<le> (d - 1) mod q" "(d - 1) mod q < q" using assms(2) by simp_all
  show "d \<le> ((d - 1) div q + 1) * q" using m r unfolding distrib_right mult_1 by linarith
  show "((d - 1) div q) * q < d" using m r by linarith
  show "1 \<le> (d - 1) div q + 1" using assms by (simp add: pos_imp_zdiv_nonneg_iff)
  have "(d - 1) div q \<le> (d - 1) div 1" using assms by (intro zdiv_mono2) auto
  then show "(d - 1) div q + 1 \<le> d" by simp
qed

text \<open>The moment \<open>m\<close> ticks from now is within the range of durations.\<close>

definition reachable_tick :: "Bucket \<Rightarrow> int \<Rightarrow> bool" where
  "reachable_tick tb n = (n * sint (bk_fillInterval tb) < 2 ^ 62)"

lemma quot_minus_one: "0 < q \<Longrightarrow> quot (- 1) q = (if q = 1 then - 1 else 0)"
  by (auto simp: quot_def)

text \<open>The arithmetic of a debt of \<open>d\<close> tokens: the quotient that \<open>take\<close> computes, and the time to wait.\<close>

lemma sint64_debt:
  fixes w :: int64
  assumes "sint w = - d" and "0 \<le> d" and "d < 2 ^ 62"
  shows "sint (- w - 1) = d - 1"
proof -
  have "w = word_of_int (- d)" using assms(1) by (metis word_of_int_sint64)
  then have "- w - 1 = word_of_int (d - 1)" by simp
  then show ?thesis using assms(2,3) by (simp only:) (rule sint64_of_int; simp)
qed

lemma div64_debt:
  assumes "sint w = d - 1" and "0 \<le> d" and "0 < sint q"
    and n: "n = (if 0 < d then (d - 1) div sint q + 1 else if sint q = 1 then 0 else 1)"
  shows "div64 w q = Inr (word_of_int (n - 1))"
proof (cases "d = 0")
  case True
  then show ?thesis using assms by (auto simp: div64_def quot_minus_one)
next
  case False
  then show ?thesis using assms by (subst div64_nonneg) auto
qed

lemma sint_wait_from:
  assumes "sint x = d" and "0 \<le> d" and "d < 2 ^ 62" and "s \<le> now" and "now - s < 2 ^ 62"
  shows "sint (time_Sub (time_Add s x) now) = s + d - now"
  unfolding time_Add_def assms(1) using assms by (intro sint_time_Sub) auto

text \<open>\<open>take\<close> when the tokens do not suffice, or just suffice: \<open>n\<close> is the number of ticks to wait for.\<close>

lemma take_short:
  assumes "bucket_ok tb" and "bucket_now tb now" and "0 < sint cnt" and "sint cnt < 2 ^ 61"
    and "tokens_at tb now \<le> sint cnt" and "reachable_tick tb (bucket_ticks tb now + n)"
    and n: "n = (if tokens_at tb now < sint cnt then (sint cnt - tokens_at tb now - 1) div sint (bk_quantum tb) + 1
      else if sint (bk_quantum tb) = 1 then 0 else 1)"
  shows "\<exists>tb' wait. (\<forall>maxWait. bucket_take now cnt maxWait tb =
      (if sint maxWait < sint wait then Inr (adjustavailableTokens tb (word_of_int (bucket_ticks tb now)), 0, False)
       else Inr (tb', wait, True))) \<and>
    sint wait = bk_startTime tb + (bucket_ticks tb now + n) * sint (bk_fillInterval tb) - now \<and>
    same_bucket tb tb' \<and> bucket_ok tb' \<and> sint (bk_latestTick tb') = bucket_ticks tb now \<and>
    sint (bk_availableTokens tb') = tokens_at tb now - sint cnt"
proof -
  let ?t = "bucket_ticks tb now" and ?a = "adjustavailableTokens tb (word_of_int (bucket_ticks tb now))"
  let ?f = "sint (bk_fillInterval tb)" and ?q = "sint (bk_quantum tb)" and ?D = "sint cnt - tokens_at tb now"
  note a = adjust_ok [OF assms(1,2)] and b = tokens_at_bounds [OF assms(1,2)]
  have t: "0 \<le> ?t" "?t < 2 ^ 61" using ticks_nonneg [OF assms(1,2)] ticks_less [OF assms(1,2)] by auto
  have q: "0 < ?q" and f: "0 < ?f" using assms(1) by (auto simp: bucket_ok_def)
  have D: "0 \<le> ?D" "?D < 2 ^ 62" using assms(4,5) b by auto
  have n0: "0 \<le> n" "n \<le> 2 ^ 62"
    using ticks_for_debt [of ?D ?q] q D unfolding n by (auto split: if_splits)
  have av: "sint (bk_availableTokens ?a - cnt) = - ?D"
    using D a(1) by (subst sint64_diff) auto
  have n': "n = (if 0 < ?D then (?D - 1) div ?q + 1 else if ?q = 1 then 0 else 1)" by (simp add: n)
  note dv = div64_debt [OF sint64_debt [OF av D] D(1) q n', unfolded minus_diff_eq]
  have "sint (word_of_int (?t + n) :: int64) = ?t + n" using t n0 by (intro sint64_of_int) auto
  moreover have nn: "0 \<le> (?t + n) * ?f" using t n0 f by simp
  moreover have lt: "(?t + n) * ?f < 2 ^ 62" using assms(6) by (simp add: reachable_tick_def)
  then have "(?t + n) * ?f < 2 ^ 63" by simp
  ultimately have ef: "sint (word_of_int (?t + n) * bk_fillInterval tb :: int64) = (?t + n) * ?f"
    using sint64_mult_nonneg by blast
  let ?w = "time_Sub (time_Add (bk_startTime tb) (word_of_int (?t + n) * bk_fillInterval tb)) now"
  have wait: "sint ?w = bk_startTime tb + (?t + n) * ?f - now"
    by (rule sint_wait_from [OF ef nn lt]) (use assms(2) in \<open>auto simp: bucket_now_def\<close>)
  have same: "same_bucket tb (?a\<lparr>bk_availableTokens := x\<rparr>)" for x by (simp add: same_bucket_def)
  have ok: "bucket_ok (?a\<lparr>bk_availableTokens := bk_availableTokens ?a - cnt\<rparr>)"
    using assms(1) a(2) t D av by (simp add: bucket_ok_def)
  show ?thesis
    by (rule exI [of _ "?a\<lparr>bk_availableTokens := bk_availableTokens ?a - cnt\<rparr>"], rule exI [of _ ?w])
      (use assms(1-3) D av wait same ok a(2) in
        \<open>simp add: bucket_take_def currentTick_ok Let_def dv\<close>)
qed

section \<open>A new bucket\<close>

definition new_bucket :: "time \<Rightarrow> int64 \<Rightarrow> duration \<Rightarrow> duration \<Rightarrow> int64 \<Rightarrow> Bucket" where
  "new_bucket now capacity timeRange fillInterval quantum =
     \<lparr>bk_startTime = now, bk_capacity = capacity, bk_quantum = quantum, bk_fillInterval = fillInterval,
      bk_availableTokens = 0, bk_latestTick = 0, bk_timeRange = timeRange\<rparr>"

lemma new_bucket_loop:
  "0 < sint capacity \<Longrightarrow> \<not> rate < Fin 0 \<Longrightarrow> NewBucketWithRate conv now rate capacity timeRange =
     quantum_loop conv rate timeRange (new_bucket now capacity timeRange 1 1) 1"
  by (simp add: NewBucketWithRate_def new_bucket_def)

lemma close_rate:
  assumes "0 < r" and "math_Abs (Fin x - Fin r) / Fin r \<le> rateMargin"
  shows "100 * \<bar>x - r\<bar> \<le> r"
  using assms by (simp add: rateMargin_def divide_simps mult.commute)

lemma bucket_Rate_Fin:
  assumes "0 < sint (bk_fillInterval tb)"
  shows "bucket_Rate tb = Fin (of_int (sint (bk_timeRange tb)) * of_int (sint (bk_quantum tb)) / of_int (sint (bk_fillInterval tb)))"
  using assms by (simp add: bucket_Rate_def float64_def)

text \<open>One tick per token works whenever a token takes at least a hundred nanoseconds.\<close>

lemma floor_close:
  fixes x :: rat
  assumes "100 \<le> x"
  shows "0 < \<lfloor>x\<rfloor>" and "100 * \<bar>x / of_int \<lfloor>x\<rfloor> - 1\<bar> \<le> 1"
proof -
  have f: "100 \<le> \<lfloor>x\<rfloor>" using assms by (simp add: le_floor_iff)
  then show pos: "0 < \<lfloor>x\<rfloor>" by simp
  have fr: "(100 :: rat) \<le> of_int \<lfloor>x\<rfloor>" using f by (metis of_int_le_iff of_int_numeral)
  have b: "of_int \<lfloor>x\<rfloor> \<le> x" "x < of_int \<lfloor>x\<rfloor> + 1" by linarith+
  have gen: "100 * \<bar>y - 1\<bar> \<le> 1" if "1 \<le> y" "y \<le> 1 + 1 / 100" for y :: rat using that by simp
  have "1 \<le> x / of_int \<lfloor>x\<rfloor>" using b(1) fr by (simp add: pos_le_divide_eq)
  moreover have "x / of_int \<lfloor>x\<rfloor> \<le> 1 + 1 / 100"
  proof -
    have "100 * x \<le> 101 * of_int \<lfloor>x\<rfloor>" using b(2) fr by linarith
    then show ?thesis using fr by (simp add: pos_divide_le_eq)
  qed
  ultimately show "100 * \<bar>x / of_int \<lfloor>x\<rfloor> - 1\<bar> \<le> 1" by (rule gen)
qed

section \<open>Properties\<close>

text \<open>C34. Making a bucket always ends: with a bucket that is empty, has the capacity, and fills at the
  rate up to one percent, or with a panic.\<close>

theorem new_bucket_terminates:
  "\<exists>result. NewBucketWithRate conv now (Fin r) capacity timeRange = Some result \<and>
    (\<forall>tb. result = Inr tb \<longrightarrow> 0 \<le> r \<and> 0 < sint capacity \<and> bucket_ok tb \<and> sint (bk_availableTokens tb) = 0 \<and>
       tb = new_bucket now capacity timeRange (bk_fillInterval tb) (bk_quantum tb) \<and>
       (0 < r \<longrightarrow> (\<exists>x. bucket_Rate tb = Fin x \<and> 100 * \<bar>x - r\<bar> \<le> r)))"
proof (cases "0 < sint capacity \<and> 0 \<le> r")
  case False
  then show ?thesis by (auto simp: NewBucketWithRate_def)
next
  case True
  then have l: "NewBucketWithRate conv now (Fin r) capacity timeRange =
      quantum_loop conv (Fin r) timeRange (new_bucket now capacity timeRange 1 1) 1"
    by (intro new_bucket_loop) auto
  have "(1 :: int) \<le> sint (1 :: int64)" by simp
  from quantum_loop_cases [OF this, of conv "Fin r" timeRange "new_bucket now capacity timeRange 1 1"]
  show ?thesis
  proof (elim disjE exE conjE)
    fix tb
    assume tb: "quantum_loop conv (Fin r) timeRange (new_bucket now capacity timeRange 1 1) 1 = Some (Inr tb)"
      "math_Abs (bucket_Rate tb - Fin r) / Fin r \<le> rateMargin" "0 < sint (bk_fillInterval tb)" "1 \<le> sint (bk_quantum tb)"
      "tb = new_bucket now capacity timeRange 1 1\<lparr>bk_fillInterval := bk_fillInterval tb, bk_quantum := bk_quantum tb\<rparr>"
    then have n: "tb = new_bucket now capacity timeRange (bk_fillInterval tb) (bk_quantum tb)"
      by (simp add: new_bucket_def)
    have a: "bk_availableTokens tb = 0" "bk_capacity tb = capacity" "bk_latestTick tb = 0"
      by (subst n; simp add: new_bucket_def)+
    have "\<exists>x. bucket_Rate tb = Fin x \<and> 100 * \<bar>x - r\<bar> \<le> r" if "0 < r"
      using close_rate [OF that] tb(2) unfolding bucket_Rate_Fin [OF tb(3)] by blast
    then show ?thesis
      using True tb(1,3,4) n a l by (auto simp: bucket_ok_def)
  qed (simp add: l)
qed

text \<open>When a token takes at least a hundred nanoseconds, the bucket gets one token per tick, and the
  interval between ticks is the time of one token, rounded down.\<close>

lemma new_bucket_succeeds:
  assumes "0 < sint capacity" and "0 < r" and "100 * r \<le> of_int (sint timeRange)" and "of_int (sint timeRange) / r < 2 ^ 63"
  shows "NewBucketWithRate conv now (Fin r) capacity timeRange =
    Some (Inr (new_bucket now capacity timeRange (word_of_int \<lfloor>of_int (sint timeRange) / r\<rfloor>) 1))"
proof -
  let ?x = "of_int (sint timeRange) / r :: rat"
  define F where "F = \<lfloor>?x\<rfloor>"
  have x: "100 \<le> ?x" using assms(2,3) by (simp add: pos_le_divide_eq)
  note fc = floor_close [OF x]
  have F: "0 < F" "F < 2 ^ 63" using fc(1) assms(4) by (simp_all add: F_def floor_less_iff)
  have t: "trunc_rat ?x = F" using x by (simp add: trunc_rat_def F_def)
  have "float_to_int64 (Fin ?x) = Some (word_of_int (trunc_rat ?x))"
    by (rule float_to_int64_trunc) (use F in \<open>simp_all add: t\<close>)
  then have conv: "to_int64 conv (float64 timeRange / Fin r * float64 1) = word_of_int F"
    using assms(2) by (simp add: to_int64_def float64_def t)
  have s: "sint (word_of_int F :: int64) = F" using F by (intro sint64_of_int) auto
  let ?tb = "new_bucket now capacity timeRange (word_of_int F) 1"
  have R: "bucket_Rate ?tb = Fin (of_int (sint timeRange) / of_int F)"
    using F by (simp add: bucket_Rate_def new_bucket_def float64_def s)
  have "100 * \<bar>?x / of_int F - 1\<bar> * r \<le> 1 * r"
    using fc(2) assms(2) unfolding F_def by (intro mult_right_mono) auto
  moreover have "\<bar>?x / of_int F - 1\<bar> * r = \<bar>of_int (sint timeRange) / of_int F - r\<bar>"
  proof -
    have "\<bar>?x / of_int F - 1\<bar> * r = \<bar>(?x / of_int F - 1) * r\<bar>" using assms(2) by (simp add: abs_mult)
    also have "(?x / of_int F - 1) * r = of_int (sint timeRange) / of_int F - r"
      using assms(2) by (simp add: left_diff_distrib)
    finally show ?thesis .
  qed
  ultimately have "100 * \<bar>of_int (sint timeRange) / of_int F - r\<bar> \<le> r" by (simp only: mult.assoc mult_1)
  then have "math_Abs (bucket_Rate ?tb - Fin r) / Fin r \<le> rateMargin"
    using assms(2) by (simp add: R rateMargin_def pos_divide_le_eq)
  then have "quantum_loop conv (Fin r) timeRange (new_bucket now capacity timeRange 1 1) 1 = Some (Inr ?tb)"
    using F by (subst quantum_loop.simps) (simp add: conv Let_def s new_bucket_def)
  then show ?thesis using assms(1,2) by (subst new_bucket_loop) (auto simp: F_def)
qed

lemma new_bucket_sixty:
  "NewBucketWithRate conv 0 (Fin 60) 1 Minute = Some (Inr (new_bucket 0 1 Minute 1000000000 1))"
proof -
  have s: "sint Minute = 60000000000" by (simp add: Minute_def)
  show ?thesis using new_bucket_succeeds [of 1 60 Minute conv 0, unfolded s] by simp
qed

text \<open>A rate of zero passes the check at the start, but no quantum suits it: the program panics,
  whatever the conversion of infinity to an integer gives.\<close>

lemma zero_rate_panics:
  "\<exists>msg. NewBucketWithRate conv now (Fin 0) capacity timeRange = Some (Inl (PanicCall msg))"
proof (cases "0 < sint capacity")
  case True
  have no: "\<not> math_Abs (bucket_Rate tb - Fin 0) / Fin 0 \<le> rateMargin" for tb
    by (cases "bucket_Rate tb") (auto simp: math_Abs_def rateMargin_def minus_f64_def)
  have "(1 :: int) \<le> sint (1 :: int64)" by simp
  from quantum_loop_cases [OF this, of conv "Fin 0" timeRange "new_bucket now capacity timeRange 1 1"] no True
  show ?thesis by (auto simp: new_bucket_loop)
qed (simp add: NewBucketWithRate_def)

text \<open>C20. The law of the token bucket: calls of \<open>TakeAvailable\<close> until tick \<open>n\<close> get no more tokens than
  the bucket held plus the quantum for each tick since it was last used.\<close>

theorem token_bucket_law:
  assumes "bucket_ok tb" and "run_moments tb calls" and "0 \<le> sint (bk_availableTokens tb)"
    and "list_all (\<lambda>(now, cnt). bucket_ticks tb now \<le> n) calls" and "sint (bk_latestTick tb) \<le> n"
  shows "\<exists>tb' total. take_run tb calls = Inr (tb', total) \<and> bucket_ok tb' \<and> 0 \<le> total \<and>
    total \<le> sint (bk_availableTokens tb) + sint (bk_quantum tb) * (n - sint (bk_latestTick tb))"
  using take_run_bound [OF assms] by blast

text \<open>A bucket of ten tokens, one per second, empty at the start.\<close>

definition example_bucket :: Bucket where
  "example_bucket = new_bucket 0 10 Minute Second 1"

lemma example_bucket_ok: "bucket_ok example_bucket"
  by (simp add: bucket_ok_def example_bucket_def new_bucket_def)

lemma example_bucket_now: "0 \<le> now \<Longrightarrow> now \<le> 10 ^ 15 \<Longrightarrow> bucket_now example_bucket now"
  by (auto simp: bucket_now_def example_bucket_def new_bucket_def bucket_ticks_def)

theorem token_bucket_law_witness:
  "\<exists>tb' total. take_run example_bucket [(3 * 10 ^ 9, 2), (3 * 10 ^ 9, 5), (7 * 10 ^ 9, 100)] = Inr (tb', total) \<and> total \<le> 7"
proof -
  let ?calls = "[(3 * 10 ^ 9 :: time, 2 :: int64), (3 * 10 ^ 9, 5), (7 * 10 ^ 9, 100)]"
  have "run_moments example_bucket ?calls" using example_bucket_now by (simp add: run_moments_def)
  from token_bucket_law [OF example_bucket_ok this, of 7] show ?thesis
    by (fastforce simp: example_bucket_def new_bucket_def bucket_ticks_def)
qed

text \<open>\<open>TakeAvailable\<close> takes what is asked for, as far as there are tokens, and never more.\<close>

lemma take_available_exact:
  assumes "bucket_ok tb" and "bucket_now tb now" and "0 \<le> sint cnt"
  shows "\<exists>tb' got. takeAvailable now cnt tb = Inr (tb', got) \<and> bucket_ok tb' \<and>
    sint got = max 0 (min (sint cnt) (tokens_at tb now)) \<and>
    sint (bk_availableTokens tb') = tokens_at tb now - sint got"
  using takeAvailable_exact [OF assms] by blast

lemma take_available_exact_witness:
  "\<exists>tb' got. takeAvailable (3 * 10 ^ 9) 5 example_bucket = Inr (tb', got) \<and> sint got = 3"
proof -
  have "tokens_at example_bucket (3 * 10 ^ 9) = 3"
    by (simp add: tokens_at_def example_bucket_def new_bucket_def bucket_ticks_def)
  with take_available_exact [OF example_bucket_ok example_bucket_now, of "3 * 10 ^ 9" 5] show ?thesis by auto
qed

text \<open>\<open>Take\<close> lends tokens: when there are too few it takes them anyway and waits for the first
  tick at which the debt is paid, provided that is within 9999 hours.\<close>

lemma take_waits_for_debt:
  assumes "bucket_ok tb" and "bucket_now tb now" and "sint cnt < 2 ^ 61" and "0 < sint cnt"
    and "tokens_at tb now < sint cnt"
    and "n = (sint cnt - tokens_at tb now - 1) div sint (bk_quantum tb) + 1"
    and "reachable_tick tb (bucket_ticks tb now + n)"
    and "bk_startTime tb + (bucket_ticks tb now + n) * sint (bk_fillInterval tb) - now \<le> 9999 * 3600 * 10 ^ 9"
  shows "\<exists>tb' wait. Take now cnt tb = Inr (tb', wait) \<and> bucket_ok tb' \<and> 0 < sint wait \<and>
    bucket_ticks tb (now + sint wait) = bucket_ticks tb now + n \<and>
    sint (bk_availableTokens tb') = tokens_at tb now - sint cnt \<and>
    0 \<le> sint (bk_availableTokens tb') + n * sint (bk_quantum tb) \<and>
    sint (bk_availableTokens tb') + (n - 1) * sint (bk_quantum tb) < 0"
proof -
  have q: "0 < sint (bk_quantum tb)" "0 < sint (bk_fillInterval tb)" using assms(1) by (auto simp: bucket_ok_def)
  from take_short [OF assms(1,2,4,3) _ assms(7)] assms(5,6) obtain tb' wait where t:
    "\<And>maxWait. bucket_take now cnt maxWait tb =
      (if sint maxWait < sint wait then Inr (adjustavailableTokens tb (word_of_int (bucket_ticks tb now)), 0, False)
       else Inr (tb', wait, True))"
    "sint wait = bk_startTime tb + (bucket_ticks tb now + n) * sint (bk_fillInterval tb) - now"
    "bucket_ok tb'" "sint (bk_availableTokens tb') = tokens_at tb now - sint cnt" by auto
  have "sint (60 * Minute * 9999) = 9999 * 3600 * 10 ^ 9" by (simp add: Minute_def)
  then have take: "Take now cnt tb = Inr (tb', wait)" using assms(8) by (simp add: Take_def t(1,2))
  have "now + sint wait - bk_startTime tb = (bucket_ticks tb now + n) * sint (bk_fillInterval tb)" by (simp add: t(2))
  then have ticks: "bucket_ticks tb (now + sint wait) = bucket_ticks tb now + n" using q by (simp add: bucket_ticks_def)
  have D: "0 < sint cnt - tokens_at tb now" using assms(5) by simp
  note d = ticks_for_debt [OF D q(1)]
  have "0 < sint wait"
  proof -
    have "now - bk_startTime tb < (bucket_ticks tb now + 1) * sint (bk_fillInterval tb)"
      using next_multiple(1) [OF q(2)] by (simp only: bucket_ticks_def)
    also have "\<dots> \<le> (bucket_ticks tb now + n) * sint (bk_fillInterval tb)"
      using d(3) q(2) assms(6) by (intro mult_right_mono) auto
    finally show ?thesis by (simp add: t(2))
  qed
  then show ?thesis
    using take t(3,4) ticks d(1,2) assms(6) by (intro exI [of _ tb'] exI [of _ wait]) simp
qed

lemma example_bucket_tokens: "tokens_at example_bucket (3000000000) = 3" "bucket_ticks example_bucket (3000000000) = 3"
  by (simp_all add: tokens_at_def example_bucket_def new_bucket_def bucket_ticks_def)

lemma take_waits_for_debt_witness:
  "\<exists>tb' wait. Take (3000000000) 5 example_bucket = Inr (tb', wait) \<and> bucket_ticks example_bucket (3000000000 + sint wait) = 5"
proof -
  let ?cnt = "5 :: int64"
  have f: "sint (bk_fillInterval example_bucket) = 10 ^ 9" "sint (bk_quantum example_bucket) = 1"
    "bk_startTime example_bucket = 0"
    by (simp_all add: example_bucket_def new_bucket_def)
  have h: "sint ?cnt < 2 ^ 61" "0 < sint ?cnt" "tokens_at example_bucket 3000000000 < sint ?cnt"
    "2 = (sint ?cnt - tokens_at example_bucket 3000000000 - 1) div sint (bk_quantum example_bucket) + 1"
    "reachable_tick example_bucket (bucket_ticks example_bucket 3000000000 + 2)"
    "bk_startTime example_bucket + (bucket_ticks example_bucket 3000000000 + 2) * sint (bk_fillInterval example_bucket) - 3000000000
       \<le> 9999 * 3600 * 10 ^ 9"
    by (simp_all add: example_bucket_tokens f reachable_tick_def)
  have m: "bucket_now example_bucket 3000000000" by (rule example_bucket_now) simp_all
  obtain tb' wait where "Take 3000000000 ?cnt example_bucket = Inr (tb', wait)"
    "bucket_ticks example_bucket (3000000000 + sint wait) = 3 + 2"
    using take_waits_for_debt [OF example_bucket_ok m h] unfolding example_bucket_tokens
    by (elim exE conjE) (erule (1) that)
  then show ?thesis by (intro exI [of _ tb'] exI [of _ wait] conjI) simp_all
qed

text \<open>A caller that takes exactly the tokens there are is made to wait for the next tick, if the
  quantum is more than one: the code lends only what is left over (\<open>avail > 0\<close>).\<close>

lemma take_exact_waits:
  assumes "bucket_ok tb" and "bucket_now tb now" and "0 < sint cnt" and "sint cnt < 2 ^ 61"
    and "tokens_at tb now = sint cnt" and "1 < sint (bk_quantum tb)"
    and "reachable_tick tb (bucket_ticks tb now + 1)" and "sint (bk_fillInterval tb) \<le> 9999 * 3600 * 10 ^ 9"
  shows "\<exists>tb' wait. Take now cnt tb = Inr (tb', wait) \<and> sint (bk_availableTokens tb') = 0 \<and> 0 < sint wait"
proof -
  have q: "0 < sint (bk_fillInterval tb)" using assms(1) by (simp add: bucket_ok_def)
  from take_short [OF assms(1-4) _ assms(7)] assms(5,6) obtain tb' wait where t:
    "\<And>maxWait. bucket_take now cnt maxWait tb =
      (if sint maxWait < sint wait then Inr (adjustavailableTokens tb (word_of_int (bucket_ticks tb now)), 0, False)
       else Inr (tb', wait, True))"
    "sint wait = bk_startTime tb + (bucket_ticks tb now + 1) * sint (bk_fillInterval tb) - now"
    "sint (bk_availableTokens tb') = 0" by auto
  have w: "0 < sint wait" "sint wait \<le> sint (bk_fillInterval tb)"
    using next_multiple [OF q, of "now - bk_startTime tb"] unfolding t(2) bucket_ticks_def by linarith+
  have "sint (60 * Minute * 9999) = 9999 * 3600 * 10 ^ 9" by (simp add: Minute_def)
  with w assms(8) t(1) have "Take now cnt tb = Inr (tb', wait)" by (simp add: Take_def)
  with w t(3) show ?thesis by blast
qed

lemma take_exact_waits_witness:
  "\<exists>tb' wait. Take (3000000000) 6 (example_bucket\<lparr>bk_quantum := 2\<rparr>) = Inr (tb', wait) \<and> 0 < sint wait"
proof -
  let ?tb = "example_bucket\<lparr>bk_quantum := 2\<rparr>" and ?cnt = "6 :: int64"
  have f: "bucket_ok ?tb" "bucket_now ?tb (3000000000)" "tokens_at ?tb (3000000000) = 6"
    "reachable_tick ?tb (bucket_ticks ?tb (3000000000) + 1)" "sint (bk_fillInterval ?tb) = 10 ^ 9"
    by (simp_all add: bucket_ok_def bucket_now_def example_bucket_def new_bucket_def bucket_ticks_def
        tokens_at_def reachable_tick_def)
  from take_exact_waits [OF f(1,2), of ?cnt] f(3-5) show ?thesis by auto
qed

text \<open>A caller whose tokens would take more than 9999 hours gets them at once and free of charge:
  \<open>take\<close> refuses with a wait of zero, and \<open>Take\<close> drops the refusal.\<close>

lemma take_too_long_is_free:
  assumes "bucket_ok tb" and "bucket_now tb now" and "sint cnt < 2 ^ 61" and "0 < sint cnt"
    and "tokens_at tb now < sint cnt"
    and "n = (sint cnt - tokens_at tb now - 1) div sint (bk_quantum tb) + 1"
    and "reachable_tick tb (bucket_ticks tb now + n)"
    and "9999 * 3600 * 10 ^ 9 < bk_startTime tb + (bucket_ticks tb now + n) * sint (bk_fillInterval tb) - now"
  shows "\<exists>tb'. bucket_Wait now cnt tb = Inr (tb', None) \<and> sint (bk_availableTokens tb') = tokens_at tb now"
proof -
  from take_short [OF assms(1,2,4,3) _ assms(7)] assms(5,6) obtain tb' wait where t:
    "\<And>maxWait. bucket_take now cnt maxWait tb =
      (if sint maxWait < sint wait then Inr (adjustavailableTokens tb (word_of_int (bucket_ticks tb now)), 0, False)
       else Inr (tb', wait, True))"
    "sint wait = bk_startTime tb + (bucket_ticks tb now + n) * sint (bk_fillInterval tb) - now" by auto
  have "sint (60 * Minute * 9999) = 9999 * 3600 * 10 ^ 9" by (simp add: Minute_def)
  then show ?thesis using assms(8) adjust_ok(1) [OF assms(1,2)] by (simp add: bucket_Wait_def Take_def t)
qed

lemma take_too_long_is_free_witness:
  "\<exists>tb'. bucket_Wait (3000000000) 50000000 example_bucket = Inr (tb', None) \<and> sint (bk_availableTokens tb') = 3"
proof -
  let ?cnt = "50000000 :: int64"
  have f: "sint (bk_fillInterval example_bucket) = 10 ^ 9" "sint (bk_quantum example_bucket) = 1"
    "bk_startTime example_bucket = 0"
    by (simp_all add: example_bucket_def new_bucket_def)
  from take_too_long_is_free [OF example_bucket_ok example_bucket_now, of "3000000000" ?cnt 49999997]
  show ?thesis by (auto simp: example_bucket_tokens f reachable_tick_def)
qed

text \<open>A bucket of sixty tokens a minute.\<close>

theorem new_bucket_terminates_witness:
  "\<exists>x. bucket_ok (new_bucket 0 1 Minute 1000000000 1) \<and> bucket_Rate (new_bucket 0 1 Minute 1000000000 1) = Fin x \<and>
    100 * \<bar>x - 60\<bar> \<le> 60"
  using new_bucket_terminates [of "\<lambda>_. 0" 0 60 1 Minute] new_bucket_sixty [of "\<lambda>_. 0"] by auto


end
