(* ===== verification/Adaptive_Bucket.thy ===== *)
theory Adaptive_Bucket
  imports Adaptive_Limiter Token_Bucket
begin

text \<open>
  The token bucket that watches its use (the second half of
  \<open>go/zxratelimiter/ratelimiter.go\<close>): every token asked for is recorded with its time, and
  periodically the peak use of a slot of the window is computed.
\<close>

section \<open>The code\<close>

record zx_entries =
  ze_times :: "time list"
  ze_timeRange :: duration
  ze_winSize :: int64

definition zx_Record :: "zx_entries \<Rightarrow> time \<Rightarrow> zx_entries" where
  "zx_Record e entry = e\<lparr>ze_times := ze_times e @ [entry]\<rparr>"

definition zx_Clear :: "clock \<Rightarrow> duration \<Rightarrow> zx_entries \<Rightarrow> zx_entries" where
  "zx_Clear clock window e = e\<lparr>ze_times :=
     drop (sort_Search (length (ze_times e)) (\<lambda>k i. sint (time_Sub (clock k) (ze_times e ! i)) < sint window)) (ze_times e)\<rparr>"

definition zx_max :: "int64 \<Rightarrow> int64 \<Rightarrow> int64" where
  "zx_max a b = (if sint b \<le> sint a then a else b)"

fun slot_loop :: "clock \<Rightarrow> nat \<Rightarrow> duration \<Rightarrow> time list \<Rightarrow> (int64 \<times> int64) list \<Rightarrow> panic + (int64 \<times> int64) list" where
  "slot_loop clock k timeRange [] frequency = Inr frequency"
| "slot_loop clock k timeRange (entry # rest) frequency =
     bind_panic (div64 (time_Sub (clock k) entry) timeRange) (\<lambda>slot.
       slot_loop clock (k + 1) timeRange rest (map_put frequency slot (lookup0 frequency slot + 1)))"

definition peak :: "(int64 \<times> int64) list \<Rightarrow> int64 \<Rightarrow> int64" where
  "peak frequency n = fold (\<lambda>i want. zx_max want (lookup0 frequency (word_of_int i))) [0..sint n - 1] 0"

definition zx_GetWants :: "clock \<Rightarrow> clock \<Rightarrow> zx_entries \<Rightarrow> panic + zx_entries \<times> f64" where
  "zx_GetWants clock1 clock2 e =
     (let e = zx_Clear clock1 (ze_winSize e * ze_timeRange e) e
      in bind_panic (slot_loop clock2 0 (ze_timeRange e) (ze_times e) []) (\<lambda>frequency.
           Inr (e, float64 (peak frequency (ze_winSize e)))))"

record zx_AdaptiveQPS =
  ab_bucket :: Bucket
  ab_stat :: zx_entries
  ab_LastWants :: f64

definition NewAdaptiveBucket :: "(f64 \<Rightarrow> int64) \<Rightarrow> time \<Rightarrow> f64 \<Rightarrow> int64 \<Rightarrow> duration \<Rightarrow> int64
    \<Rightarrow> (panic + zx_AdaptiveQPS) option" where
  "NewAdaptiveBucket conv now rate capacity timeRange winSize =
     map_option (\<lambda>r. bind_panic r (\<lambda>tb. Inr \<lparr>ab_bucket = tb,
         ab_stat = \<lparr>ze_times = [], ze_timeRange = timeRange, ze_winSize = winSize\<rparr>, ab_LastWants = Fin (- 1)\<rparr>))
       (NewBucketWithRate conv now rate capacity timeRange)"

definition record_tokens :: "time \<Rightarrow> int64 \<Rightarrow> zx_entries \<Rightarrow> zx_entries" where
  "record_tokens now cnt e = ((\<lambda>e. zx_Record e now) ^^ nat (sint cnt)) e"

text \<open>\<open>now\<close> is the time recorded, \<open>now'\<close> the one the bucket reads afterwards.\<close>

definition adaptive_Wait :: "time \<Rightarrow> time \<Rightarrow> int64 \<Rightarrow> zx_AdaptiveQPS \<Rightarrow> panic + zx_AdaptiveQPS \<times> duration option" where
  "adaptive_Wait now now' cnt arl =
     (let arl = arl\<lparr>ab_stat := record_tokens now cnt (ab_stat arl)\<rparr>
      in bind_panic (bucket_Wait now' cnt (ab_bucket arl)) (\<lambda>(tb, d). Inr (arl\<lparr>ab_bucket := tb\<rparr>, d)))"

definition adaptive_TakeAvailable :: "time \<Rightarrow> time \<Rightarrow> int64 \<Rightarrow> zx_AdaptiveQPS \<Rightarrow> panic + zx_AdaptiveQPS \<times> int64" where
  "adaptive_TakeAvailable now now' cnt arl =
     (let arl = arl\<lparr>ab_stat := record_tokens now cnt (ab_stat arl)\<rparr>
      in bind_panic (takeAvailable now' cnt (ab_bucket arl)) (\<lambda>(tb, got). Inr (arl\<lparr>ab_bucket := tb\<rparr>, got)))"

text \<open>One firing of the timer of \<open>run\<close>.\<close>

definition adaptive_tick :: "clock \<Rightarrow> clock \<Rightarrow> zx_AdaptiveQPS \<Rightarrow> panic + zx_AdaptiveQPS" where
  "adaptive_tick clock1 clock2 arl = bind_panic (zx_GetWants clock1 clock2 (ab_stat arl)) (\<lambda>(e, wants).
     Inr (arl\<lparr>ab_stat := e, ab_LastWants := wants\<rparr>))"

text \<open>The loop of \<open>run\<close>: a firing of the timer, or \<open>None\<close>, a message on \<open>quit\<close>, after which the channel
  \<open>entry\<close> is closed and the goroutine returns. The second component says whether it still runs.\<close>

fun adaptive_bucket_run :: "(clock \<times> clock) option list \<Rightarrow> zx_AdaptiveQPS \<Rightarrow> panic + zx_AdaptiveQPS \<times> bool" where
  "adaptive_bucket_run [] arl = Inr (arl, True)"
| "adaptive_bucket_run (None # es) arl = Inr (arl, False)"
| "adaptive_bucket_run (Some (clock1, clock2) # es) arl =
     bind_panic (adaptive_tick clock1 clock2 arl) (adaptive_bucket_run es)"

text \<open>The accesses that \<open>Record\<close> and \<open>Clear\<close> make to the slice of times. A call of \<open>Wait\<close> records while
  the goroutine clears, and no mutex protects the slice: each reads it and stores it in two steps.\<close>

record times_race =
  tr_times :: "time list"
  tr_recording :: "time list option"
  tr_clearing :: "time list option"

datatype times_access = RecordReads | RecordStores time | ClearReads | ClearStores nat

definition times_step :: "times_access \<Rightarrow> times_race \<Rightarrow> times_race option" where
  "times_step e r = (case e of
       RecordReads \<Rightarrow> (if tr_recording r = None then Some (r\<lparr>tr_recording := Some (tr_times r)\<rparr>) else None)
     | RecordStores now \<Rightarrow> (case tr_recording r of
           None \<Rightarrow> None | Some ts \<Rightarrow> Some (r\<lparr>tr_times := ts @ [now], tr_recording := None\<rparr>))
     | ClearReads \<Rightarrow> (if tr_clearing r = None then Some (r\<lparr>tr_clearing := Some (tr_times r)\<rparr>) else None)
     | ClearStores i \<Rightarrow> (case tr_clearing r of
           None \<Rightarrow> None | Some ts \<Rightarrow> Some (r\<lparr>tr_times := drop i ts, tr_clearing := None\<rparr>)))"

fun times_run :: "times_access list \<Rightarrow> times_race \<Rightarrow> times_race option" where
  "times_run [] r = Some r"
| "times_run (e # es) r = Option.bind (times_step e r) (times_run es)"

section \<open>Lemmas\<close>

text \<open>What the goroutine finds out has no effect on the tokens that are given out.\<close>

lemma statistics_inert: "adaptive_bucket_run es arl = Inr (arl', running) \<Longrightarrow> ab_bucket arl' = ab_bucket arl"
proof (induction es arl rule: adaptive_bucket_run.induct)
  case (3 clock1 clock2 es arl)
  then show ?case by (auto simp: adaptive_tick_def)
qed simp_all

text \<open>Between two accesses to the slice a recorded time is lost, or the cleared ones come back.\<close>

lemma times_race_loses:
  "times_run [ClearReads, RecordReads, RecordStores now, ClearStores i] \<lparr>tr_times = ts, tr_recording = None, tr_clearing = None\<rparr> =
     Some \<lparr>tr_times = drop i ts, tr_recording = None, tr_clearing = None\<rparr>"
  "times_run [RecordReads, ClearReads, ClearStores i, RecordStores now] \<lparr>tr_times = ts, tr_recording = None, tr_clearing = None\<rparr> =
     Some \<lparr>tr_times = ts @ [now], tr_recording = None, tr_clearing = None\<rparr>"
  by (simp_all add: times_step_def)

lemma zx_Clear_entries: "ze_times (zx_Clear clock window e) = entries_Clear clock window (ze_times e)"
  by (simp add: zx_Clear_def entries_Clear_def)

lemma record_tokens_times: "record_tokens now cnt e = e\<lparr>ze_times := ze_times e @ replicate (nat (sint cnt)) now\<rparr>"
proof -
  have "((\<lambda>e. zx_Record e now) ^^ n) e = e\<lparr>ze_times := ze_times e @ replicate n now\<rparr>" for n
    by (induction n) (simp_all add: zx_Record_def replicate_append_same)
  then show ?thesis by (simp add: record_tokens_def)
qed

text \<open>The entries of a slot before now.\<close>

definition per_slot :: "time \<Rightarrow> duration \<Rightarrow> time list \<Rightarrow> int \<Rightarrow> nat" where
  "per_slot now timeRange ts i = length (filter (\<lambda>t. (now - t) div sint timeRange = i) ts)"

lemma slot_loop_lookup:
  assumes "recent now ts" and "0 < sint timeRange"
  shows "\<exists>f. slot_loop (\<lambda>_. now) k timeRange ts m = Inr f \<and>
    (\<forall>i. 0 \<le> i \<longrightarrow> i < 2 ^ 63 \<longrightarrow>
       lookup0 f (word_of_int i) = lookup0 m (word_of_int i) + of_nat (per_slot now timeRange ts i))"
  using assms(1)
proof (induction ts arbitrary: k m)
  case (Cons t ts)
  let ?s = "(now - t) div sint timeRange"
  have r: "t \<le> now" "now - t < 2 ^ 63" "recent now ts" using Cons.prems by (auto simp: recent_def)
  have s: "sint (time_Sub now t) = now - t" using r by (intro sint_time_Sub) auto
  have "?s \<le> (now - t) div 1" using r assms(2) by (intro zdiv_mono2) auto
  then have sb: "0 \<le> ?s" "?s < 2 ^ 63" using r assms(2) by (auto simp: pos_imp_zdiv_nonneg_iff)
  have d: "div64 (time_Sub now t) timeRange = Inr (word_of_int ?s)"
    using r assms(2) by (simp add: div64_nonneg s)
  obtain f where f: "slot_loop (\<lambda>_. now) (k + 1) timeRange ts
      (map_put m (word_of_int ?s) (lookup0 m (word_of_int ?s) + 1)) = Inr f"
    "\<And>i. 0 \<le> i \<Longrightarrow> i < 2 ^ 63 \<Longrightarrow> lookup0 f (word_of_int i) =
       lookup0 (map_put m (word_of_int ?s) (lookup0 m (word_of_int ?s) + 1)) (word_of_int i) +
       of_nat (per_slot now timeRange ts i)"
    using Cons.IH [OF r(3)] by blast
  have "lookup0 f (word_of_int i) = lookup0 m (word_of_int i) + of_nat (per_slot now timeRange (t # ts) i)"
    if i: "0 \<le> i" "i < 2 ^ 63" for i
    unfolding f(2) [OF i] lookup0_put word_of_nonneg_inj [OF i sb] by (auto simp: per_slot_def)
  with f(1) d show ?case by auto
qed (simp add: per_slot_def)

lemma fold_zx_max:
  assumes "\<And>i. i \<in> set is \<Longrightarrow> f i = word_of_int (g i) \<and> 0 \<le> g i \<and> g i < 2 ^ 63" and "0 \<le> a" and "a < 2 ^ 63"
  shows "fold (\<lambda>i want. zx_max want (f i)) is (word_of_int a) = word_of_int (Max (insert a (g ` set is)))"
  using assms
proof (induction "is" arbitrary: a)
  case (Cons i "is")
  have fi: "f i = word_of_int (g i)" "0 \<le> g i" "g i < 2 ^ 63" using Cons.prems(1) [of i] by auto
  have s: "sint (word_of_int a :: int64) = a" "sint (word_of_int (g i) :: int64) = g i"
    using fi Cons.prems(2,3) by (auto intro!: sint64_of_int)
  have "zx_max (word_of_int a) (f i) = word_of_int (max a (g i))"
    by (simp add: zx_max_def fi(1) s max_def)
  moreover have "fold (\<lambda>i want. zx_max want (f i)) is (word_of_int (max a (g i))) =
      word_of_int (Max (insert (max a (g i)) (g ` set is)))"
    by (rule Cons.IH) (use Cons.prems fi in auto)
  moreover have "Max (insert (max a (g i)) (g ` set is)) = Max (insert a (g ` set (i # is)))"
    by (cases "is = []") (simp_all add: max.assoc)
  ultimately show ?case by simp
qed simp

section \<open>Properties\<close>

text \<open>The limiter computes the peak: the largest number of tokens asked for in one slot of the
  window, counted over the entries that are within it. Entries outside are forgotten.\<close>

lemma wants_is_peak:
  assumes "sorted (ze_times e)" and "recent now (ze_times e)" and "0 < sint (ze_timeRange e)"
    and "0 \<le> sint (ze_winSize e)" and "sint (ze_winSize e) * sint (ze_timeRange e) < 2 ^ 63"
    and "int (length (ze_times e)) < 2 ^ 63"
  shows "\<exists>e'. zx_GetWants (\<lambda>_. now) (\<lambda>_. now) e =
      Inr (e', Fin (of_int (Max (insert 0 ((\<lambda>i. int (per_slot now (ze_timeRange e) (ze_times e) i)) `
        {0..<sint (ze_winSize e)}))))) \<and>
    ze_times e' = filter (\<lambda>t. now - t < sint (ze_winSize e) * sint (ze_timeRange e)) (ze_times e)"
proof -
  let ?n = "sint (ze_winSize e)" and ?r = "sint (ze_timeRange e)"
  let ?g = "\<lambda>i. int (per_slot now (ze_timeRange e) (ze_times e) i)"
  have nr: "0 \<le> ?n * ?r" using assms(3,4) by simp
  have w: "sint (ze_winSize e * ze_timeRange e) = ?n * ?r"
    by (rule sint64_mult_nonneg [OF refl refl nr assms(5)])
  have since: "sint (time_Sub now t) = now - t" if "t \<in> set (ze_times e)" for t
    using assms(2) that by (intro sint_time_Sub) (auto simp: recent_def list_all_iff)
  let ?ts = "filter (\<lambda>t. now - t < ?n * ?r) (ze_times e)"
  let ?e = "zx_Clear (\<lambda>_. now) (ze_winSize e * ze_timeRange e) e"
  have ts: "ze_times ?e = ?ts"
    unfolding zx_Clear_entries entries_Clear_filter [OF assms(1)] w by (rule filter_cong) (simp_all add: since)
  have same: "ze_timeRange ?e = ze_timeRange e" "ze_winSize ?e = ze_winSize e" by (simp_all add: zx_Clear_def)
  have "recent now ?ts" using assms(2) by (auto simp: recent_def list_all_iff)
  from slot_loop_lookup [OF this assms(3), of 0 "[]"] obtain f where
    f: "slot_loop (\<lambda>_. now) 0 (ze_timeRange e) ?ts [] = Inr f"
    "\<And>i. 0 \<le> i \<Longrightarrow> i < 2 ^ 63 \<Longrightarrow> lookup0 f (word_of_int i) = of_nat (per_slot now (ze_timeRange e) ?ts i)"
    by auto
  have slot: "per_slot now (ze_timeRange e) ?ts i = per_slot now (ze_timeRange e) (ze_times e) i" if "i < ?n" for i
  proof -
    have "now - t < ?n * ?r" if "(now - t) div ?r = i" for t
    proof -
      have "((now - t) div ?r + 1) * ?r \<le> ?n * ?r" using that \<open>i < ?n\<close> assms(3) by (intro mult_right_mono) auto
      with next_multiple(1) [OF assms(3), of "now - t"] show ?thesis by linarith
    qed
    then show ?thesis unfolding per_slot_def filter_filter by (intro arg_cong [of _ _ length] filter_cong) auto
  qed
  have g: "lookup0 f (word_of_int i) = word_of_int (?g i) \<and> 0 \<le> ?g i \<and> ?g i < 2 ^ 63" if "i \<in> set [0..?n - 1]" for i
  proof -
    have i: "0 \<le> i" "i < ?n" using that by auto
    then have "i < 2 ^ 63" using sint64_upper [of "ze_winSize e"] by linarith
    moreover have "per_slot now (ze_timeRange e) (ze_times e) i \<le> length (ze_times e)" by (simp add: per_slot_def)
    ultimately show ?thesis using f(2) [OF i(1)] slot [OF i(2)] assms(6) by simp
  qed
  have pk: "peak f (ze_winSize e) = word_of_int (Max (insert 0 (?g ` set [0..?n - 1])))"
  proof -
    have "fold (\<lambda>i want. zx_max want (lookup0 f (word_of_int i))) [0..?n - 1] (word_of_int 0) =
        word_of_int (Max (insert 0 (?g ` set [0..?n - 1])))"
      by (rule fold_zx_max, erule g) simp_all
    then show ?thesis by (simp only: peak_def of_int_0)
  qed
  have st: "set [0..?n - 1] = {0..<?n}" by auto
  have M: "Max (insert 0 (?g ` {0..<?n})) \<in> insert 0 (?g ` {0..<?n})" by (rule Max_in) auto
  then have B: "0 \<le> Max (insert 0 (?g ` {0..<?n}))" "Max (insert 0 (?g ` {0..<?n})) < 2 ^ 63"
    using g unfolding st by fastforce+
  have "float64 (peak f (ze_winSize e)) = Fin (of_int (Max (insert 0 (?g ` {0..<?n}))))"
    unfolding pk st by (rule float64_of_int [OF order_trans [OF _ B(1)] B(2)]) simp
  with f(1) ts same show ?thesis by (simp add: zx_GetWants_def Let_def)
qed

text \<open>Three tokens asked for in the last second and one in the one before: the peak is three.\<close>

lemma wants_is_peak_witness:
  "\<exists>e'. zx_GetWants (\<lambda>_. 2000000000) (\<lambda>_. 2000000000)
     \<lparr>ze_times = [500000000, 1500000000, 1500000000, 1700000000], ze_timeRange = Second, ze_winSize = 2\<rparr> = Inr (e', Fin 3)"
proof -
  let ?e = "\<lparr>ze_times = [500000000, 1500000000, 1500000000, 1700000000], ze_timeRange = Second, ze_winSize = 2\<rparr>"
  have r: "{0..<2 :: int} = {0, 1}" by auto
  obtain e' where "zx_GetWants (\<lambda>_. 2000000000) (\<lambda>_. 2000000000) ?e =
      Inr (e', Fin (of_int (Max (insert 0 ((\<lambda>i. int (per_slot 2000000000 Second (ze_times ?e) i)) ` {0..<2})))))"
    using wants_is_peak [of ?e 2000000000] by (auto simp: recent_def)
  then show ?thesis by (simp add: r per_slot_def)
qed

end
