(* ===== verification/File_Source.thy ===== *)
theory File_Source
  imports Config_Source
begin

text \<open>
  A configuration in a local file (\<open>LocalFile\<close> in \<open>go/configuration/configuration.go\<close>): a goroutine
  reads the file once for every signal it takes, and sends what it has read on a channel with
  room for one; a call of the source receives it. The channel of signals has room for one too,
  and a signal that finds it full is dropped by the runtime. The file has a version that grows
  whenever it is written; \<open>v\<close> stands for the data, or the error, of a read at version \<open>v\<close>.
\<close>

section \<open>The code\<close>

record file_source =
  fs_now :: nat                  \<comment> \<open>the version of the file\<close>
  fs_signals :: bool             \<comment> \<open>whether a signal is pending\<close>
  fs_loader :: "nat option"      \<comment> \<open>what the goroutine has read and not sent yet\<close>
  fs_updates :: "nat list"
  fs_results :: "nat list"       \<comment> \<open>what the calls have returned\<close>

definition file_start :: file_source where
  "file_start = \<lparr>fs_now = 0, fs_signals = True, fs_loader = None, fs_updates = [], fs_results = []\<rparr>"

datatype file_event = FileWritten | SIGHUP | ReadFile | SendUpdate | SourceCall

text \<open>One step, \<open>None\<close> if it has to wait.\<close>

definition file_step :: "file_event \<Rightarrow> file_source \<Rightarrow> file_source option" where
  "file_step e s = (case e of
       FileWritten \<Rightarrow> Some (s\<lparr>fs_now := fs_now s + 1\<rparr>)
     | SIGHUP \<Rightarrow> Some (s\<lparr>fs_signals := True\<rparr>)
     | ReadFile \<Rightarrow> (if fs_signals s \<and> fs_loader s = None
         then Some (s\<lparr>fs_signals := False, fs_loader := Some (fs_now s)\<rparr>) else None)
     | SendUpdate \<Rightarrow> (case fs_loader s of
           None \<Rightarrow> None
         | Some v \<Rightarrow> if fs_updates s = [] then Some (s\<lparr>fs_loader := None, fs_updates := [v]\<rparr>) else None)
     | SourceCall \<Rightarrow> (case fs_updates s of
           [] \<Rightarrow> None
         | v # rest \<Rightarrow> Some (s\<lparr>fs_updates := rest, fs_results := fs_results s @ [v]\<rparr>)))"

fun file_run :: "file_event list \<Rightarrow> file_source \<Rightarrow> file_source option" where
  "file_run [] s = Some s"
| "file_run (e # es) s = Option.bind (file_step e s) (file_run es)"

section \<open>Lemmas\<close>

lemma file_step_buffer: "file_step e s = Some s' \<Longrightarrow> length (fs_updates s) \<le> 1 \<Longrightarrow> length (fs_updates s') \<le> 1"
  by (auto simp: file_step_def split: file_event.splits option.splits list.splits if_splits)

lemma file_run_buffer: "file_run es s = Some s' \<Longrightarrow> length (fs_updates s) \<le> 1 \<Longrightarrow> length (fs_updates s') \<le> 1"
proof (induction es arbitrary: s)
  case (Cons e es)
  then show ?case using file_step_buffer by (auto simp: bind_eq_Some_conv)
qed simp

text \<open>What is on its way to the callers, in order.\<close>

definition in_flight :: "file_source \<Rightarrow> nat list" where
  "in_flight s = fs_updates s @ (case fs_loader s of None \<Rightarrow> [] | Some v \<Rightarrow> [v])"

text \<open>All that has been returned and is on its way only grows at the end, by the version of the file;
  a pending signal is used up by that.\<close>

lemma file_step_flow:
  assumes "file_step e s = Some s'"
  shows "fs_now s \<le> fs_now s' \<and>
    (fs_results s' @ in_flight s' = fs_results s @ in_flight s \<and> (fs_signals s \<longrightarrow> fs_signals s') \<or>
     fs_results s' @ in_flight s' = fs_results s @ in_flight s @ [fs_now s])"
  using assms
  by (auto simp: file_step_def in_flight_def split: file_event.splits option.splits list.splits if_splits)

lemma file_run_flow:
  assumes "file_run es s = Some s'" and "v \<le> fs_now s"
  shows "\<exists>new. fs_results s' @ in_flight s' = fs_results s @ in_flight s @ new \<and> (\<forall>w \<in> set new. v \<le> w) \<and>
    (fs_signals s \<longrightarrow> fs_signals s' \<or> new \<noteq> []) \<and> (\<exists>old. fs_results s' = fs_results s @ old)"
  using assms
proof (induction es arbitrary: s)
  case Nil
  then show ?case by (intro exI [of _ "[]"]) auto
next
  case (Cons e es)
  then obtain s1 where 1: "file_step e s = Some s1" "file_run es s1 = Some s'" by (auto simp: bind_eq_Some_conv)
  note f = file_step_flow [OF 1(1)]
  have "v \<le> fs_now s1" using f Cons.prems(2) by linarith
  from Cons.IH [OF 1(2) this] obtain new old where new: "fs_results s' @ in_flight s' = fs_results s1 @ in_flight s1 @ new"
    "\<forall>w \<in> set new. v \<le> w" "fs_signals s1 \<longrightarrow> fs_signals s' \<or> new \<noteq> []" "fs_results s' = fs_results s1 @ old"
    by blast
  have old: "\<exists>old. fs_results s' = fs_results s @ old"
    using 1(1) new(4) by (auto simp: file_step_def split: file_event.splits option.splits list.splits if_splits)
  from f show ?case
  proof (elim conjE disjE)
    assume "fs_results s1 @ in_flight s1 = fs_results s @ in_flight s" "fs_signals s \<longrightarrow> fs_signals s1"
    with new old show ?thesis by (intro exI [of _ new]) (metis append_assoc)
  next
    assume "fs_results s1 @ in_flight s1 = fs_results s @ in_flight s @ [fs_now s]"
    then have "fs_results s' @ in_flight s' = fs_results s @ in_flight s @ (fs_now s # new)"
      using new(1) by (metis append_assoc append_Cons append_Nil)
    with new(2) old Cons.prems(2) show ?thesis by (intro exI [of _ "fs_now s # new"]) auto
  qed
qed

section \<open>Properties\<close>

text \<open>C38. A reload is never lost: whatever happened before and happens after a SIGHUP, at most two calls of
  the source return what the file held before the signal, every other call returns what it held
  then or later; and as long as no call has returned that, one of the goroutine's actions or a
  call can go on, so that calls get to it.\<close>

theorem sighup_reloads:
  assumes "file_run before file_start = Some s" and "file_run (SIGHUP # after) s = Some s'"
  shows "\<exists>stale fresh. fs_results s' = fs_results s @ stale @ fresh \<and> length stale \<le> 2 \<and>
    (\<forall>w \<in> set fresh. fs_now s \<le> w) \<and>
    (fresh = [] \<longrightarrow> (\<exists>e \<in> {ReadFile, SendUpdate, SourceCall}. file_step e s' \<noteq> None))"
proof -
  let ?s = "s\<lparr>fs_signals := True\<rparr>"
  have run: "file_run after ?s = Some s'" using assms(2) by (simp add: file_step_def)
  obtain new old where f: "fs_results s' @ in_flight s' = fs_results s @ in_flight s @ new"
    "\<forall>w \<in> set new. fs_now s \<le> w" "fs_signals s' \<or> new \<noteq> []" "fs_results s' = fs_results s @ old"
    using file_run_flow [OF run, of "fs_now s"] by (auto simp: in_flight_def)
  have flow: "old @ in_flight s' = in_flight s @ new" using f(1,4) by simp
  have "length (fs_updates s) \<le> 1" by (rule file_run_buffer [OF assms(1)]) (simp add: file_start_def)
  then have two: "length (in_flight s) \<le> 2" by (simp add: in_flight_def split: option.split)
  let ?stale = "take (length (in_flight s)) old" and ?fresh = "drop (length (in_flight s)) old"
  have "set ?fresh \<subseteq> set new"
  proof -
    have "drop (length (in_flight s)) (old @ in_flight s') = new" unfolding flow by simp
    then have "new = ?fresh @ drop (length (in_flight s) - length old) (in_flight s')" by simp
    then show ?thesis by (metis set_append sup_ge1)
  qed
  then have "\<forall>w \<in> set ?fresh. fs_now s \<le> w" using f(2) by blast
  moreover have "\<exists>e \<in> {ReadFile, SendUpdate, SourceCall}. file_step e s' \<noteq> None" if "?fresh = []"
  proof -
    have "fs_signals s' \<or> in_flight s' \<noteq> []"
    proof (rule ccontr)
      assume n: "\<not> (fs_signals s' \<or> in_flight s' \<noteq> [])"
      then have "old = in_flight s @ new" "new \<noteq> []" using flow f(3) by auto
      with that show False by simp
    qed
    then show ?thesis by (auto simp: file_step_def in_flight_def split: option.splits list.splits)
  qed
  moreover have "fs_results s' = fs_results s @ ?stale @ ?fresh" using f(4) by simp
  moreover have "length ?stale \<le> 2" using two by simp
  ultimately show ?thesis by blast
qed

text \<open>The file is written and reloaded twice while nobody calls: the first two calls return old versions.\<close>

definition busy_source :: file_source where
  "busy_source = \<lparr>fs_now = 2, fs_signals = False, fs_loader = Some 1, fs_updates = [0], fs_results = []\<rparr>"

definition busy_events :: "file_event list" where
  "busy_events = [ReadFile, SendUpdate, FileWritten, SIGHUP, ReadFile, FileWritten]"

definition later_events :: "file_event list" where
  "later_events = [SourceCall, SendUpdate, ReadFile, SourceCall, SendUpdate, SourceCall]"

lemma busy_run: "file_run busy_events file_start = Some busy_source"
  by (simp add: busy_events_def busy_source_def file_start_def file_step_def)

lemma later_run:
  "file_run (SIGHUP # later_events) busy_source = Some (busy_source\<lparr>fs_loader := None, fs_updates := [], fs_results := [0, 1, 2]\<rparr>)"
  by (simp add: later_events_def busy_source_def file_step_def)

theorem sighup_reloads_witness:
  "\<exists>stale fresh. [0, 1, 2] = stale @ fresh \<and> length stale \<le> 2 \<and> (\<forall>w \<in> set fresh. 2 \<le> (w :: nat))"
  using sighup_reloads [OF busy_run later_run] by (auto simp: busy_source_def)

end
