(* ===== verification/Recipe.thy ===== *)
theory Recipe
  imports Go_Time Go_Strings
begin

text \<open>
  Load recipes (\<open>go/client/recipe/recipe.go\<close>): \<open>5x100+fun(2)\<close> are five workers of 100 operations
  per second, changed by \<open>fun(2)\<close> in every interval and reset from time to time. The random number,
  the sine and the clock are arguments. A call that ends the process is the error \<open>Exits\<close>.
\<close>

section \<open>The code\<close>

datatype recipe_error = Exits | EmptyFlag | CannotParse string | UnknownFunction string

record Recipe =
  rc_name :: string
  rc_baseQPS :: f64
  rc_arg :: "f64 list"

record WorkerState =
  ws_OldQPS :: f64
  ws_CurrentQPS :: f64
  ws_Recipe :: Recipe
  ws_lastResetTime :: time
  ws_lastRecipeTime :: time
  ws_resetCount :: int64

text \<open>Numbers of the form that the regular expression lets through: digits, and perhaps a fraction. What
  would be rounded to a number of 1025 bits is out of range, and the program ends.\<close>

definition float_limit :: rat where
  "float_limit = 2 ^ 1024 - 2 ^ 970"

definition parseFloat :: "string \<Rightarrow> recipe_error + f64" where
  "parseFloat s =
     (let whole = takeWhile (\<lambda>c. c \<noteq> CHR ''.'') s; fraction = drop (length whole + 1) s;
          value = of_nat (digits_value whole) + of_nat (digits_value fraction) / 10 ^ length fraction
      in if value < float_limit then Inr (Fin value) else Inl Exits)"

fun parse_floats :: "string list \<Rightarrow> recipe_error + f64 list" where
  "parse_floats [] = Inr []"
| "parse_floats (n # ns) = (case parseFloat n of
       Inl e \<Rightarrow> Inl e
     | Inr x \<Rightarrow> (case parse_floats ns of Inl e \<Rightarrow> Inl e | Inr xs \<Rightarrow> Inr (x # xs)))"

definition parseListOfFloats :: "string \<Rightarrow> recipe_error + f64 list" where
  "parseListOfFloats s = parse_floats (split_on (CHR '','') s)"

definition parseInt :: "string \<Rightarrow> recipe_error + int" where
  "parseInt s = (if digits_value s < 2 ^ 31 then Inr (int (digits_value s)) else Inl Exits)"

text \<open>
  The regular expression: digits, \<open>x\<close>, digits, \<open>+\<close>, a word, and a number in parentheses. A recipe
  has no comma, as the flag was split at the commas, so the expression's further arguments are
  never there. The expression is not anchored: the first position at which it matches counts.
\<close>

definition take_class :: "(char \<Rightarrow> bool) \<Rightarrow> string \<Rightarrow> (string \<times> string) option" where
  "take_class P s = (let t = takeWhile P s in if t = [] then None else Some (t, drop (length t) s))"

definition take_char :: "char \<Rightarrow> string \<Rightarrow> string option" where
  "take_char c s = (case s of [] \<Rightarrow> None | d # rest \<Rightarrow> if d = c then Some rest else None)"

definition take_number :: "string \<Rightarrow> (string \<times> string) option" where
  "take_number s = Option.bind (take_class is_digit s) (\<lambda>(ds, rest).
     case Option.bind (take_char (CHR ''.'') rest) (take_class is_digit) of
       None \<Rightarrow> Some (ds, rest)
     | Some (fs, rest') \<Rightarrow> Some (ds @ CHR ''.'' # fs, rest'))"

definition match_at :: "string \<Rightarrow> (string \<times> string \<times> string \<times> string) option" where
  "match_at s =
     Option.bind (take_class is_digit s) (\<lambda>(workers, s).
     Option.bind (take_char (CHR ''x'') s) (\<lambda>s.
     Option.bind (take_class is_digit s) (\<lambda>(base, s).
     Option.bind (take_char (CHR ''+'') s) (\<lambda>s.
     Option.bind (take_class is_word_char s) (\<lambda>(name, s).
     Option.bind (take_char (CHR ''('') s) (\<lambda>s.
     Option.bind (take_number s) (\<lambda>(arg, s).
     Option.bind (take_char (CHR '')'') s) (\<lambda>_. Some (workers, base, name, arg)))))))))"

fun FindStringSubmatch :: "string \<Rightarrow> (string \<times> string \<times> string \<times> string) option" where
  "FindStringSubmatch [] = None"
| "FindStringSubmatch (c # cs) = (case match_at (c # cs) of Some m \<Rightarrow> Some m | None \<Rightarrow> FindStringSubmatch cs)"

definition qps_functions :: "string list" where
  "qps_functions = [''constant_increase'', ''random_change'', ''sin'', ''inc_sin'']"

definition parseQPSChangeFunc :: "Recipe \<Rightarrow> recipe_error + bool" where
  "parseQPSChangeFunc r =
     (if rc_name r \<in> set qps_functions then (if length (rc_arg r) \<noteq> 1 then Inl Exits else Inr True) else Inr False)"

definition new_worker :: "Recipe \<Rightarrow> WorkerState" where
  "new_worker r = \<lparr>ws_OldQPS = Fin 0, ws_CurrentQPS = rc_baseQPS r, ws_Recipe = r,
     ws_lastResetTime = zero_time, ws_lastRecipeTime = zero_time, ws_resetCount = 0\<rparr>"

text \<open>One recipe: its workers, or the error. Several of the calls can end the process.\<close>

definition parse_one :: "string \<times> string \<times> string \<times> string \<Rightarrow> recipe_error + WorkerState list" where
  "parse_one = (\<lambda>(workers, base, name, arg).
     case parseInt workers of
       Inl e \<Rightarrow> Inl e
     | Inr n \<Rightarrow> (case parseFloat base of
         Inl e \<Rightarrow> Inl e
       | Inr baseQPS \<Rightarrow> (case parseListOfFloats arg of
           Inl e \<Rightarrow> Inl e
         | Inr args \<Rightarrow>
             let recipe = \<lparr>rc_name = name, rc_baseQPS = baseQPS, rc_arg = args\<rparr>
             in (case parseQPSChangeFunc recipe of
                   Inl e \<Rightarrow> Inl e
                 | Inr False \<Rightarrow> Inl (UnknownFunction name)
                 | Inr True \<Rightarrow> Inr (replicate (nat n) (new_worker recipe))))))"

fun parse_loop :: "string list \<Rightarrow> recipe_error + WorkerState list" where
  "parse_loop [] = Inr []"
| "parse_loop (r # rest) = (case FindStringSubmatch r of
       None \<Rightarrow> Inl (CannotParse r)
     | Some m \<Rightarrow> (case parse_one m of
         Inl e \<Rightarrow> Inl e
       | Inr ws \<Rightarrow> (case parse_loop rest of Inl e \<Rightarrow> Inl e | Inr ws' \<Rightarrow> Inr (ws @ ws'))))"

definition ParseRecipes :: "string \<Rightarrow> recipe_error + WorkerState list" where
  "ParseRecipes recipes = (if recipes = [] then Inl EmptyFlag else parse_loop (split_on (CHR '','') recipes))"

text \<open>The functions. \<open>math_Sin\<close> and \<open>pi\<close> are \<open>math.Sin\<close> and \<open>math.Pi\<close>; \<open>math_Mod\<close> has the sign of its
  first argument.\<close>

definition math_Mod :: "f64 \<Rightarrow> f64 \<Rightarrow> f64" where
  "math_Mod x y = (case (x, y) of
       (Fin a, Fin b) \<Rightarrow> if b = 0 then NaN else Fin (a - b * of_int (trunc_rat (a / b)))
     | (Fin a, PInf) \<Rightarrow> Fin a
     | (Fin a, NInf) \<Rightarrow> Fin a
     | _ \<Rightarrow> NaN)"

record world =
  wd_rand :: f64
  wd_sin :: "f64 \<Rightarrow> f64"
  wd_pi :: f64
  wd_elapsed :: duration        \<comment> \<open>since the program started\<close>
  wd_reset :: duration          \<comment> \<open>\<open>--recipe_reset\<close>\<close>
  wd_interval :: duration       \<comment> \<open>\<open>--recipe_interval\<close>\<close>

definition sine_wave :: "world \<Rightarrow> f64" where
  "sine_wave wd = (let t = math_Mod (Seconds (wd_elapsed wd)) (Seconds (wd_reset wd))
     in wd_sin wd (t / Seconds (wd_reset wd) * wd_pi wd))"

definition qps_fun :: "world \<Rightarrow> WorkerState \<Rightarrow> WorkerState" where
  "qps_fun wd w =
     (let name = rc_name (ws_Recipe w); arg = rc_arg (ws_Recipe w) ! 0
      in w\<lparr>ws_CurrentQPS :=
        (if name = ''constant_increase'' then ws_CurrentQPS w + arg
         else if name = ''random_change'' then rc_baseQPS (ws_Recipe w) + arg * (Fin 1 - Fin 2 * wd_rand wd)
         else if name = ''sin'' then arg * sine_wave wd
         else float64 (ws_resetCount w) * arg * sine_wave wd)\<rparr>)"

definition IntervalExpired :: "world \<Rightarrow> time \<Rightarrow> WorkerState \<Rightarrow> WorkerState \<times> bool" where
  "IntervalExpired wd now w =
     (let resetExpired = Before (time_Add (ws_lastResetTime w) (wd_reset wd)) now;
          recipeExpired = Before (time_Add (ws_lastRecipeTime w) (wd_interval wd)) now
      in (if resetExpired then
            w\<lparr>ws_lastRecipeTime := now, ws_lastResetTime := now, ws_resetCount := ws_resetCount w + 1,
              ws_OldQPS := ws_CurrentQPS w, ws_CurrentQPS := rc_baseQPS (ws_Recipe w)\<rparr>
          else if recipeExpired then
            qps_fun wd (w\<lparr>ws_lastRecipeTime := now, ws_OldQPS := ws_CurrentQPS w\<rparr>)
          else w,
          resetExpired \<or> recipeExpired))"

section \<open>Printing\<close>

lemma take_class_append:
  assumes "list_all P a" and "a \<noteq> []" and "b = [] \<or> \<not> P (hd b)"
  shows "take_class P (a @ b) = Some (a, b)"
proof -
  have "takeWhile P (a @ b) = a" using assms(1,3) by (cases b) (auto simp: takeWhile_append list_all_iff)
  with assms(2) show ?thesis by (simp add: take_class_def)
qed

lemma take_char_Cons [simp]: "take_char c (c # s) = Some s"
  by (simp add: take_char_def)

lemma parseFloat_digits: "parseFloat (digits_of n) = (if of_nat n < float_limit then Inr (Fin (of_nat n)) else Inl Exits)"
proof -
  have t: "takeWhile (\<lambda>c. c \<noteq> CHR ''.'') (digits_of n) = digits_of n"
    using digits_of_chars digit_chars by (auto simp: takeWhile_eq_all_conv)
  show ?thesis unfolding parseFloat_def Let_def t by (simp add: digits_value_def [of "[]"])
qed

text \<open>A recipe in print: workers, base rate, function and argument.\<close>

type_synonym recipe_text = "nat \<times> nat \<times> string \<times> nat"

definition print_recipe :: "recipe_text \<Rightarrow> string" where
  "print_recipe = (\<lambda>(n, base, name, arg).
     digits_of n @ CHR ''x'' # digits_of base @ CHR ''+'' # name @ CHR ''('' # digits_of arg @ [CHR '')''])"

definition meant :: "recipe_text \<Rightarrow> WorkerState list" where
  "meant = (\<lambda>(n, base, name, arg). replicate n (new_worker
     \<lparr>rc_name = name, rc_baseQPS = Fin (of_nat base), rc_arg = [Fin (of_nat arg)]\<rparr>))"

lemma function_names:
  assumes "name \<in> set qps_functions"
  shows "list_all is_word_char name \<and> name \<noteq> [] \<and> CHR '','' \<notin> set name"
  using assms by (auto simp: qps_functions_def is_word_char_def)

lemma match_print:
  assumes "name \<in> set qps_functions"
  shows "match_at (print_recipe (n, base, name, arg)) = Some (digits_of n, digits_of base, name, digits_of arg)"
proof -
  have nd: "\<not> is_digit CHR ''x''" "\<not> is_digit CHR ''+''" "\<not> is_digit CHR '')''" "\<not> is_word_char CHR ''(''"
    by (simp_all add: is_digit_def is_word_char_def)
  have num: "take_number (digits_of arg @ [CHR '')'']) = Some (digits_of arg, [CHR '')''])"
    using take_class_append [OF digits_of_digit digits_of_nonempty, of "[CHR '')'']" arg] nd
    by (simp add: take_number_def take_char_def)
  show ?thesis
    using take_class_append [OF digits_of_digit digits_of_nonempty] take_class_append [of is_word_char name]
      function_names [OF assms] nd
    by (simp add: match_at_def print_recipe_def num)
qed

lemma find_print:
  assumes "name \<in> set qps_functions"
  shows "FindStringSubmatch (print_recipe (n, base, name, arg)) = Some (digits_of n, digits_of base, name, digits_of arg)"
  using match_print [OF assms, of n base arg] by (cases "print_recipe (n, base, name, arg)") (simp_all add: match_at_def take_class_def)

text \<open>The numbers that the parser takes.\<close>

definition in_range :: "recipe_text \<Rightarrow> bool" where
  "in_range = (\<lambda>(n, base, name, arg). n < 2 ^ 31 \<and> of_nat base < float_limit \<and> of_nat arg < float_limit)"

lemma parse_one_print:
  assumes "name \<in> set qps_functions"
  shows "parse_one (digits_of n, digits_of base, name, digits_of arg) =
    (if in_range (n, base, name, arg) then Inr (meant (n, base, name, arg)) else Inl Exits)"
proof -
  have "CHR '','' \<notin> set (digits_of arg)" using digits_of_chars digit_chars by blast
  then have "split_on (CHR '','') (digits_of arg) = [digits_of arg]" by (rule split_on_absent)
  with assms show ?thesis
    by (simp add: parse_one_def parseInt_def parseFloat_digits parseListOfFloats_def parseQPSChangeFunc_def meant_def
        in_range_def Let_def)
qed

lemma parse_loop_print:
  assumes "\<forall>(n, base, name, arg) \<in> set rs. name \<in> set qps_functions"
  shows "parse_loop (map print_recipe rs) = (if list_all in_range rs then Inr (concat (map meant rs)) else Inl Exits)"
  using assms
proof (induction rs)
  case (Cons r rs)
  obtain n base name arg where r: "r = (n, base, name, arg)" by (metis prod_cases4)
  with Cons show ?case by (simp add: find_print parse_one_print)
qed simp

section \<open>Workers\<close>

definition worker_ok :: "WorkerState \<Rightarrow> bool" where
  "worker_ok w = (rc_name (ws_Recipe w) \<in> set qps_functions \<and> length (rc_arg (ws_Recipe w)) = 1)"

lemma parse_one_worker_ok:
  "parse_one m = Inr ws \<Longrightarrow> list_all worker_ok ws \<and> list_all (\<lambda>w. ws_CurrentQPS w = rc_baseQPS (ws_Recipe w)) ws"
  by (auto simp: parse_one_def Let_def parseQPSChangeFunc_def worker_ok_def new_worker_def list_all_iff
      split: prod.splits sum.splits bool.splits if_splits)

lemma parse_loop_worker_ok: "parse_loop rs = Inr ws \<Longrightarrow> list_all worker_ok ws"
proof (induction rs arbitrary: ws)
  case (Cons r rs)
  then show ?case
    by (auto simp: list_all_append dest: parse_one_worker_ok split: option.splits sum.splits)
qed simp

text \<open>Successive calls of \<open>IntervalExpired\<close>, at the given times.\<close>

fun expire_run :: "world \<Rightarrow> time list \<Rightarrow> WorkerState \<Rightarrow> WorkerState" where
  "expire_run wd [] w = w"
| "expire_run wd (now # calls) w = expire_run wd calls (fst (IntervalExpired wd now w))"

text \<open>What the calls should do to a worker with \<open>constant_increase(x)\<close>: the number of increases since the
  last reset, next to the times of the last reset and of the last change.\<close>

fun increases :: "duration \<Rightarrow> duration \<Rightarrow> time list \<Rightarrow> time \<times> time \<times> nat \<Rightarrow> nat" where
  "increases reset interval [] (r, c, k) = k"
| "increases reset interval (now # calls) (r, c, k) =
     increases reset interval calls
       (if r + sint reset < now then (now, now, 0) else if c + sint interval < now then (r, now, k + 1) else (r, c, k))"

lemma expire_run_increases:
  assumes "rc_name (ws_Recipe w) = ''constant_increase''" and "rc_arg (ws_Recipe w) = [Fin x]"
    and "rc_baseQPS (ws_Recipe w) = Fin b" and "ws_CurrentQPS w = Fin (b + of_nat k * x)"
  shows "ws_CurrentQPS (expire_run wd calls w) = Fin (b + of_nat
    (increases (wd_reset wd) (wd_interval wd) calls (ws_lastResetTime w, ws_lastRecipeTime w, k)) * x)"
  using assms
proof (induction calls arbitrary: w k)
  case (Cons now calls)
  let ?w = "fst (IntervalExpired wd now w)"
  let ?k = "if ws_lastResetTime w + sint (wd_reset wd) < now then 0
      else if ws_lastRecipeTime w + sint (wd_interval wd) < now then k + 1 else k"
  have "ws_CurrentQPS ?w = Fin (b + of_nat ?k * x)" "ws_Recipe ?w = ws_Recipe w"
    using Cons.prems by (auto simp: IntervalExpired_def qps_fun_def Before_def time_Add_def Let_def algebra_simps)
  with Cons.IH [of ?w ?k] Cons.prems show ?case
    by (auto simp: IntervalExpired_def Before_def time_Add_def Let_def qps_fun_def split: if_splits)
qed simp

text \<open>What is parsed of printed recipes that are joined.\<close>

lemma parse_printed:
  assumes "rs \<noteq> []" and "\<forall>(n, base, name, arg) \<in> set rs. name \<in> set qps_functions"
  shows "ParseRecipes (join_with (CHR '','') (map print_recipe rs)) =
    (if list_all in_range rs then Inr (concat (map meant rs)) else Inl Exits)"
proof -
  have nc: "CHR '','' \<notin> set (print_recipe r)" if "r \<in> set rs" for r
  proof -
    obtain n base name arg where r: "r = (n, base, name, arg)" by (metis prod_cases4)
    have "CHR '','' \<notin> set (digits_of k)" for k using digits_of_chars digit_chars by blast
    moreover have "CHR '','' \<notin> set name" using assms(2) that function_names by (auto simp: r)
    ultimately show ?thesis by (simp add: r print_recipe_def)
  qed
  have "split_on (CHR '','') (join_with (CHR '','') (map print_recipe rs)) = map print_recipe rs"
    using assms(1) nc by (intro split_join) auto
  moreover have "join_with (CHR '','') (map print_recipe rs) \<noteq> []"
  proof -
    have ne: "print_recipe r \<noteq> []" for r by (cases r) (simp add: print_recipe_def)
    obtain r rest where "rs = r # rest" using assms(1) by (cases rs) auto
    then show ?thesis by (cases rest) (simp_all add: ne)
  qed
  ultimately show ?thesis using parse_loop_print [OF assms(2)] by (simp add: ParseRecipes_def)
qed

section \<open>Properties\<close>

text \<open>C36. Recipes that are printed and joined by commas, for the functions that there are, are parsed into the
  workers that were meant, in order, as long as there are less than two to the 31 workers in each and
  the base rate and the argument are at most two to the 53, so that they are floats. A number of workers
  that is larger, or a rate or an argument that is out of the range of floats, ends the program.\<close>

theorem recipes_roundtrip:
  assumes "rs \<noteq> []" and "\<forall>(n, base, name, arg) \<in> set rs. name \<in> set qps_functions"
  shows "((\<forall>(n, base, name, arg) \<in> set rs. n < 2 ^ 31 \<and> base \<le> 2 ^ 53 \<and> arg \<le> 2 ^ 53) \<longrightarrow>
      ParseRecipes (join_with (CHR '','') (map print_recipe rs)) = Inr (concat (map meant rs))) \<and>
    ((\<exists>(n, base, name, arg) \<in> set rs. 2 ^ 31 \<le> n \<or> float_limit \<le> of_nat base \<or> float_limit \<le> of_nat arg) \<longrightarrow>
      ParseRecipes (join_with (CHR '','') (map print_recipe rs)) = Inl Exits)"
proof -
  have p: "ParseRecipes (join_with (CHR '','') (map print_recipe rs)) =
      (if list_all in_range rs then Inr (concat (map meant rs)) else Inl Exits)"
    by (rule parse_printed [OF assms])
  have "(of_nat k :: rat) < float_limit" if "k \<le> 2 ^ 53" for k :: nat
  proof -
    have "(of_nat k :: rat) \<le> of_nat (2 ^ 53)" using that by (simp only: of_nat_le_iff)
    also have "(of_nat (2 ^ 53) :: rat) < float_limit" by (simp add: float_limit_def)
    finally show ?thesis .
  qed
  then have "list_all in_range rs" if "\<forall>(n, base, name, arg) \<in> set rs. n < 2 ^ 31 \<and> base \<le> 2 ^ 53 \<and> arg \<le> 2 ^ 53"
    using that by (fastforce simp: in_range_def list_all_iff)
  moreover have "\<not> list_all in_range rs"
    if "\<exists>(n, base, name, arg) \<in> set rs. 2 ^ 31 \<le> n \<or> float_limit \<le> of_nat base \<or> float_limit \<le> of_nat arg"
    using that by (fastforce simp: in_range_def list_all_iff not_less)
  ultimately show ?thesis unfolding p by auto
qed

theorem recipes_roundtrip_witness:
  "ParseRecipes (join_with (CHR '','') (map print_recipe [(2, 100, ''sin'', 7), (1, 5, ''inc_sin'', 3)])) =
     Inr (meant (2, 100, ''sin'', 7) @ meant (1, 5, ''inc_sin'', 3)) \<and>
   ParseRecipes (join_with (CHR '','') (map print_recipe [(1, 2 ^ 1024, ''sin'', 7)])) = Inl Exits"
proof
  show "ParseRecipes (join_with (CHR '','') (map print_recipe [(2, 100, ''sin'', 7), (1, 5, ''inc_sin'', 3)])) =
     Inr (meant (2, 100, ''sin'', 7) @ meant (1, 5, ''inc_sin'', 3))"
    using recipes_roundtrip [of "[(2, 100, ''sin'', 7), (1, 5, ''inc_sin'', 3)]"] by (simp add: qps_functions_def)
  have "float_limit \<le> of_nat (2 ^ 1024)" by (simp add: float_limit_def)
  then show "ParseRecipes (join_with (CHR '','') (map print_recipe [(1, 2 ^ 1024, ''sin'', 7)])) = Inl Exits"
    using conjunct2 [OF recipes_roundtrip [of "[(1, 2 ^ 1024, ''sin'', 7)]"]] by (auto simp: qps_functions_def)
qed

text \<open>A worker with \<open>constant_increase(x)\<close> does its base rate plus \<open>x\<close> for every interval that was
  found to have expired since the last reset.\<close>

lemma constant_increase_counts:
  "ws_CurrentQPS (expire_run wd calls
     (new_worker \<lparr>rc_name = ''constant_increase'', rc_baseQPS = Fin b, rc_arg = [Fin x]\<rparr>)) =
   Fin (b + of_nat (increases (wd_reset wd) (wd_interval wd) calls (zero_time, zero_time, 0)) * x)"
  using expire_run_increases [of "new_worker \<lparr>rc_name = ''constant_increase'', rc_baseQPS = Fin b, rc_arg = [Fin x]\<rparr>" x b 0 wd calls]
  by (simp add: new_worker_def)

lemma IntervalExpired_Recipe [simp]: "ws_Recipe (fst (IntervalExpired wd now w)) = ws_Recipe w"
  by (simp add: IntervalExpired_def qps_fun_def Let_def)

lemma expire_run_Recipe [simp]: "ws_Recipe (expire_run wd calls w) = ws_Recipe w"
  by (induction calls arbitrary: w) simp_all

text \<open>C37. Every worker that comes out of the parser is well formed, and stays so in every interval: its
  recipe is one of the known functions with exactly one argument, so its function is never nil
  and the argument it reads is always there.\<close>

theorem recipe_workers_typed:
  assumes "ParseRecipes text = Inr ws"
  shows "list_all (\<lambda>w. rc_name (ws_Recipe (expire_run wd calls w)) \<in> set qps_functions \<and>
    length (rc_arg (ws_Recipe (expire_run wd calls w))) = 1 \<and> ws_CurrentQPS w = rc_baseQPS (ws_Recipe w)) ws"
proof -
  have fresh: "list_all (\<lambda>w. ws_CurrentQPS w = rc_baseQPS (ws_Recipe w)) ws" if "parse_loop rs = Inr ws" for rs ws
    using that
  proof (induction rs arbitrary: ws)
    case (Cons r rs)
    then show ?case
      by (auto simp: list_all_append dest: parse_one_worker_ok split: option.splits sum.splits)
  qed simp
  have "parse_loop (split_on (CHR '','') text) = Inr ws"
    using assms by (simp add: ParseRecipes_def split: if_splits)
  with parse_loop_worker_ok fresh show ?thesis by (fastforce simp: worker_ok_def list_all_iff)
qed

theorem recipe_workers_typed_witness:
  "\<forall>wd calls. list_all (\<lambda>w. length (rc_arg (ws_Recipe (expire_run wd calls w))) = 1) (meant (2, 100, ''sin'', 7))"
proof -
  have "\<forall>(n, base, name, arg) \<in> set [(2 :: nat, 100 :: nat, ''sin'', 7 :: nat)]. name \<in> set qps_functions"
    by (simp add: qps_functions_def)
  from parse_loop_print [OF this] have "parse_loop [print_recipe (2, 100, ''sin'', 7)] = Inr (meant (2, 100, ''sin'', 7))"
    by (simp add: in_range_def float_limit_def)
  moreover have "CHR '','' \<notin> set (print_recipe (2, 100, ''sin'', 7))"
    using digits_of_chars digit_chars by (auto simp: print_recipe_def)
  ultimately have "ParseRecipes (print_recipe (2, 100, ''sin'', 7)) = Inr (meant (2, 100, ''sin'', 7))"
    by (simp add: ParseRecipes_def split_on_absent print_recipe_def)
  from recipe_workers_typed [OF this] show ?thesis by (simp add: list_all_iff)
qed


end
