(* ===== verification/Server_Overlap.thy ===== *)
theory Server_Overlap
  imports Mastership
begin

text \<open>
  Calls that overlap (\<open>go/server/doorman/server.go\<close>). Every remote call runs in a goroutine of its
  own, and every resource of a request for capacity is decided in a further one. A handler holds
  the lock of the server only for single actions: to see whether the server is the master, to
  read who is, to look a resource up, to release. Here a handler is a state machine whose steps are
  these actions, and a world is a server with any number of handlers. A run of a world is a list
  of events: a call arrives, a handler or one of its goroutines takes a step, a configuration is
  loaded, an election is won or lost, in any order. Here an action is one step, which is
  right as long as actions that use the same memory exclude each other. Three accesses do not take the
  mutex that they need (a release takes the lock of the server only, \<open>collect_server_item\<close> reads the
  map of resources and \<open>ReleaseCapacity\<close> the current master without it): \<open>Overlap_Races\<close> gives
  actions a duration and shows which of them race.
\<close>

section \<open>Handlers\<close>

datatype remote_call =
    OnGetCapacity GetCapacityRequest
  | OnGetServerCapacity GetServerCapacityRequest
  | OnRelease ReleaseCapacityRequest

datatype answer =
    Redirected Mastership
  | InvalidArgument
  | Leases "(ResourceResponse + ServerCapacityResourceResponse) list"
  | Released

text \<open>Where a handler is: at its check of mastership, about to read who is the master, looking up the
  resources of its requests one by one, collecting items (perhaps with a response whose safe
  capacity is still to be set from the resource at an address), releasing, or done.\<close>

datatype handler_pc =
    Entered
  | Redirecting
  | Looking "clientRequest list"
  | Collecting "(ResourceResponse \<times> nat) option"
  | Releasing
  | Finished answer

record handler =
  hd_call :: remote_call
  hd_pc :: handler_pc
  hd_pool :: "(nat \<times> Request) list"      \<comment> \<open>goroutines that have not decided\<close>
  hd_items :: "item list"                \<comment> \<open>the channel\<close>
  hd_out :: "(ResourceResponse + ServerCapacityResourceResponse) list"

definition new_handler :: "remote_call \<Rightarrow> handler" where
  "new_handler q = \<lparr>hd_call = q, hd_pc = Entered, hd_pool = [], hd_items = [], hd_out = []\<rparr>"

text \<open>What a master goes on with.\<close>

definition start_call :: "remote_call \<Rightarrow> handler_pc" where
  "start_call q = (case q of
       OnGetCapacity q \<Rightarrow> Looking (client_requests q)
     | OnGetServerCapacity q \<Rightarrow>
         (case server_requests (GetServerCapacityRequest_GetServerId (Some q)) (gsq_Resource q) of
            None \<Rightarrow> Finished InvalidArgument
          | Some creqs \<Rightarrow> Looking creqs)
     | OnRelease q \<Rightarrow> Releasing)"

definition release_call :: "remote_call \<Rightarrow> Server \<Rightarrow> Server" where
  "release_call q srv = (case q of
       OnRelease q \<Rightarrow> release_loop (ReleaseCapacityRequest_GetClientId (Some q)) (rcq_ResourceId q) srv
     | _ \<Rightarrow> srv)"

definition response_of :: "item \<Rightarrow> ResourceResponse" where
  "response_of it = \<lparr>rrsp_ResourceId = Some (item_id it), rrsp_Gets = Some (lease_to_pb (item_lease it)),
     rrsp_SafeCapacity = None\<rparr>"

text \<open>The next action of the handler itself; a handler that waits for items stays as it is.\<close>

definition handler_step :: "Server \<Rightarrow> handler \<Rightarrow> panic + Server \<times> handler" where
  "handler_step srv h = (case hd_pc h of
       Entered \<Rightarrow> Inr (srv, h\<lparr>hd_pc := if IsMaster srv then start_call (hd_call h) else Redirecting\<rparr>)
     | Redirecting \<Rightarrow> Inr (srv, h\<lparr>hd_pc := Finished (Redirected (redirect srv))\<rparr>)
     | Looking [] \<Rightarrow> Inr (srv, h\<lparr>hd_pc := Collecting None\<rparr>)
     | Looking (creq # creqs) \<Rightarrow>
         bind_panic (getOrCreateResource srv (cr_resID creq)) (\<lambda>(srv', a).
           Inr (srv', h\<lparr>hd_pc := Looking creqs, hd_pool := hd_pool h @ [(a, request_of creq)]\<rparr>))
     | Collecting None \<Rightarrow>
         Inr (srv, if hd_pool h = [] \<and> hd_items h = [] then h\<lparr>hd_pc := Finished (Leases (hd_out h))\<rparr> else h)
     | Collecting (Some (resp, a)) \<Rightarrow>
         bind_panic (SetSafeCapacity (srv_heap srv ! a) resp) (\<lambda>resp'.
           Inr (srv, h\<lparr>hd_pc := Collecting None, hd_out := hd_out h @ [Inl resp']\<rparr>))
     | Releasing \<Rightarrow> Inr (release_call (hd_call h) srv, h\<lparr>hd_pc := Finished Released\<rparr>)
     | Finished ans \<Rightarrow> Inr (srv, h))"

text \<open>A goroutine decides and sends its item.\<close>

definition goroutine_step :: "nat \<Rightarrow> decide_clock \<Rightarrow> Server \<Rightarrow> handler \<Rightarrow> panic + Server \<times> handler" where
  "goroutine_step j clk srv h =
     (if j < length (hd_pool h)
      then bind_panic (run_goroutine srv clk (hd_pool h ! j)) (\<lambda>(srv', it).
        Inr (srv', h\<lparr>hd_pool := drop_nth j (hd_pool h), hd_items := hd_items h @ [it]\<rparr>))
      else Inr (srv, h))"

text \<open>The handler receives an item; goroutines send in any order, so any item may be the next.\<close>

definition receive_step :: "nat \<Rightarrow> Server \<Rightarrow> handler \<Rightarrow> panic + Server \<times> handler" where
  "receive_step j srv h =
     (if hd_pc h = Collecting None \<and> j < length (hd_items h) then
        let it = hd_items h ! j; h = h\<lparr>hd_items := drop_nth j (hd_items h)\<rparr>
        in (case hd_call h of
              OnGetServerCapacity q \<Rightarrow>
                bind_panic (collect_server_item srv it) (\<lambda>(srv', resp).
                  Inr (srv', h\<lparr>hd_out := hd_out h @ [Inr resp]\<rparr>))
            | _ \<Rightarrow>
                bind_panic (getOrCreateResource srv (item_id it)) (\<lambda>(srv', a).
                  Inr (srv', h\<lparr>hd_pc := Collecting (Some (response_of it, a))\<rparr>)))
      else Inr (srv, h))"

section \<open>Worlds\<close>

record world =
  wd_srv :: Server
  wd_calls :: "handler list"

datatype world_event =
    Arrive remote_call
  | Proceed nat
  | Decides nat nat decide_clock
  | Receives nat nat
  | Background server_event

definition step_handler :: "(Server \<Rightarrow> handler \<Rightarrow> panic + Server \<times> handler) \<Rightarrow> nat \<Rightarrow> world \<Rightarrow> panic + world" where
  "step_handler f k w =
     (if k < length (wd_calls w)
      then bind_panic (f (wd_srv w) (wd_calls w ! k)) (\<lambda>(srv, h).
        Inr \<lparr>wd_srv = srv, wd_calls = (wd_calls w)[k := h]\<rparr>)
      else Inr w)"

definition world_step :: "(string \<Rightarrow> ResourceRepository option) \<Rightarrow> string option \<Rightarrow> world_event \<Rightarrow> world
    \<Rightarrow> panic + world" where
  "world_step unmarshal run_err e w = (case e of
       Arrive q \<Rightarrow> Inr (w\<lparr>wd_calls := wd_calls w @ [new_handler q]\<rparr>)
     | Proceed k \<Rightarrow> step_handler handler_step k w
     | Decides k j clk \<Rightarrow> step_handler (goroutine_step j clk) k w
     | Receives k j \<Rightarrow> step_handler (receive_step j) k w
     | Background e \<Rightarrow> bind_panic (life_step unmarshal run_err e (wd_srv w)) (\<lambda>srv. Inr (w\<lparr>wd_srv := srv\<rparr>)))"

fun world_run :: "(string \<Rightarrow> ResourceRepository option) \<Rightarrow> string option \<Rightarrow> world_event list \<Rightarrow> world
    \<Rightarrow> panic + world" where
  "world_run unmarshal run_err [] w = Inr w"
| "world_run unmarshal run_err (e # es) w =
     bind_panic (world_step unmarshal run_err e w) (world_run unmarshal run_err es)"

end
