(* ===== verification/Overlap_Props.thy ===== *)
theory Overlap_Props
  imports Server_Overlap Server_Limits
begin

text \<open>
  What can go wrong when calls overlap with each other, with elections and with the loading of
  configurations: nothing but the loss of mastership under the feet of a call.
\<close>

section \<open>The invariant\<close>

definition plain_id :: "string \<Rightarrow> bool" where
  "plain_id i = (sep_char \<notin> set i)"

lemma plain_ids_iff: "plain_ids ids = list_all plain_id ids"
  by (simp add: plain_ids_def plain_id_def [abs_def])

definition call_plain :: "remote_call \<Rightarrow> bool" where
  "call_plain q = (case q of
       OnGetCapacity q \<Rightarrow> plain_ids (requested q)
     | OnGetServerCapacity q \<Rightarrow>
         plain_ids (map (\<lambda>req. ServerCapacityResourceRequest_GetResourceId (Some req)) (gsq_Resource q))
     | OnRelease q \<Rightarrow> True)"

definition plain_heap :: "Server \<Rightarrow> bool" where
  "plain_heap srv = plain_ids (map res_ID (srv_heap srv))"

text \<open>Addresses are valid, ids are plain, and whoever looks resources up finds a configuration.\<close>

definition handler_ok :: "Server \<Rightarrow> handler \<Rightarrow> bool" where
  "handler_ok srv h =
     (list_all (\<lambda>(a, r). a < length (srv_heap srv)) (hd_pool h) \<and> plain_ids (map item_id (hd_items h)) \<and>
      (case hd_pc h of
         Entered \<Rightarrow> call_plain (hd_call h)
       | Looking creqs \<Rightarrow> srv_config srv \<noteq> None \<and> plain_ids (map cr_resID creqs)
       | Collecting cur \<Rightarrow> srv_config srv \<noteq> None \<and>
           (case cur of None \<Rightarrow> True | Some (resp, a) \<Rightarrow> a < length (srv_heap srv))
       | _ \<Rightarrow> True))"

definition world_ok :: "world \<Rightarrow> bool" where
  "world_ok w = (life_ok (wd_srv w) \<and> plain_heap (wd_srv w) \<and> list_all (handler_ok (wd_srv w)) (wd_calls w))"

text \<open>How a server may change under the others: resources are added, and it stays configured.\<close>

definition grows :: "Server \<Rightarrow> Server \<Rightarrow> bool" where
  "grows srv srv' = ((\<exists>ids. map res_ID (srv_heap srv') = map res_ID (srv_heap srv) @ ids \<and> plain_ids ids) \<and>
     (srv_config srv \<noteq> None \<longrightarrow> srv_config srv' \<noteq> None))"

lemma plain_ids_simps [simp]: "plain_ids []" "plain_ids (i # ids) = (plain_id i \<and> plain_ids ids)"
  "plain_ids (ids @ ids') = (plain_ids ids \<and> plain_ids ids')"
  by (simp_all add: plain_ids_iff)

lemma grows_refl [simp, intro]: "grows srv srv"
  by (simp add: grows_def)

lemma grows_trans: "grows s1 s2 \<Longrightarrow> grows s2 s3 \<Longrightarrow> grows s1 s3"
  by (fastforce simp: grows_def)

lemma grows_same_heap:
  "map res_ID (srv_heap srv') = map res_ID (srv_heap srv) \<Longrightarrow> (srv_config srv \<noteq> None \<Longrightarrow> srv_config srv' \<noteq> None) \<Longrightarrow>
     grows srv srv'"
  by (auto simp: grows_def)

lemma growsD:
  assumes "grows srv srv'"
  shows "length (srv_heap srv) \<le> length (srv_heap srv')"
    and "a < length (srv_heap srv) \<Longrightarrow> res_ID (srv_heap srv' ! a) = res_ID (srv_heap srv ! a)"
    and "plain_heap srv \<Longrightarrow> plain_heap srv'"
    and "srv_config srv \<noteq> None \<Longrightarrow> srv_config srv' \<noteq> None"
proof -
  obtain ids where ids: "map res_ID (srv_heap srv') = map res_ID (srv_heap srv) @ ids" "plain_ids ids"
    using assms by (auto simp: grows_def)
  from arg_cong [OF ids(1), of length] show l: "length (srv_heap srv) \<le> length (srv_heap srv')" by simp
  show "res_ID (srv_heap srv' ! a) = res_ID (srv_heap srv ! a)" if "a < length (srv_heap srv)"
    using arg_cong [OF ids(1), of "\<lambda>xs. xs ! a"] that l by (simp add: nth_append)
  show "plain_heap srv \<Longrightarrow> plain_heap srv'" using ids by (simp add: plain_heap_def)
  show "srv_config srv \<noteq> None \<Longrightarrow> srv_config srv' \<noteq> None" using assms by (simp add: grows_def)
qed

lemma handler_ok_grows: "grows srv srv' \<Longrightarrow> handler_ok srv h \<Longrightarrow> handler_ok srv' h"
  using growsD(1,4) [of srv srv']
  by (force simp: handler_ok_def list_all_iff split: handler_pc.splits option.splits)

text \<open>A handler is alive while nothing it has to do can fail: as long as it is busy the server is
  the master, and knows all resources of the handler's goroutines and items.\<close>

definition busy :: "handler \<Rightarrow> bool" where
  "busy h = (hd_pool h \<noteq> [] \<or> hd_items h \<noteq> [] \<or>
     (case hd_pc h of Looking _ \<Rightarrow> True | Collecting _ \<Rightarrow> True | _ \<Rightarrow> False))"

definition alive :: "Server \<Rightarrow> handler \<Rightarrow> bool" where
  "alive srv h = ((busy h \<longrightarrow> IsMaster srv) \<and>
     list_all (\<lambda>(a, r). srv_lookup srv (res_ID (srv_heap srv ! a)) \<noteq> None) (hd_pool h) \<and>
     list_all (\<lambda>it. srv_lookup srv (item_id it) \<noteq> None) (hd_items h))"

lemma alive_mono:
  assumes "keeps srv srv'" and "grows srv srv'" and "handler_ok srv h" and "alive srv h"
  shows "alive srv' h"
proof -
  have k: "srv_lookup srv i \<noteq> None \<Longrightarrow> srv_lookup srv' i \<noteq> None" "IsMaster srv' = IsMaster srv" for i
    using assms(1) by (auto simp: keeps_def IsMaster_def)
  have "srv_lookup srv' (res_ID (srv_heap srv' ! a)) \<noteq> None" if "(a, r) \<in> set (hd_pool h)" for a r
  proof -
    have "a < length (srv_heap srv)" "srv_lookup srv (res_ID (srv_heap srv ! a)) \<noteq> None"
      using that assms(3,4) by (auto simp: handler_ok_def alive_def list_all_iff)
    then show ?thesis using growsD(2) [OF assms(2)] k(1) by simp
  qed
  then show ?thesis using assms(4) k by (auto simp: alive_def list_all_iff)
qed

section \<open>Actions on the server\<close>

lemma getOrCreate_life:
  assumes "life_ok srv" and "srv_config srv \<noteq> None" and "plain_id i"
  shows "(\<exists>srv' a. getOrCreateResource srv i = Inr (srv', a) \<and> life_ok srv' \<and> grows srv srv' \<and> keeps srv srv' \<and>
       a < length (srv_heap srv') \<and> res_ID (srv_heap srv' ! a) = i \<and> srv_lookup srv' i = Some a) \<or>
     getOrCreateResource srv i = Inl NilMapWrite \<and> srv_resources srv = None"
proof -
  obtain config where c: "srv_config srv = Some config" "repo_serviceable config" "repo_valid config"
    using assms(1,2) by (auto simp: life_ok_def server_ok_def)
  have ok: "server_ok srv" using assms(1) by (simp add: life_ok_def)
  have cov: "covered (repo_Resources config) i"
    using covered_no_separator [OF c(3)] assms(3) by (simp add: plain_id_def)
  show ?thesis
  proof (cases "srv_lookup srv i")
    case (Some a)
    then show ?thesis
      using server_ok_lookup [OF ok Some] assms(1) by (auto simp: getOrCreateResource_def)
  next
    case None
    obtain tpl where tpl: "findConfigForResource srv i = Inr tpl"
      using cov findConfig_covered [OF c(1)] by blast
    have s: "serviceable tpl"
      using findConfig_selected [OF c(1) tpl] c(2) by (auto simp: repo_serviceable_def list_all_iff selected_def)
    obtain res where res: "newResource srv i (Some tpl) = Inr res" "res_ID res = i" "res_config res = Some tpl"
      using newResource_serviceable [OF s, of srv i] by blast
    show ?thesis
    proof (cases "srv_resources srv")
      case None
      with \<open>srv_lookup srv i = None\<close> tpl res(1) show ?thesis by (simp add: getOrCreateResource_def)
    next
      case (Some m)
      let ?srv = "srv\<lparr>srv_heap := srv_heap srv @ [res], srv_resources := Some (map_put m i (length (srv_heap srv)))\<rparr>"
      have g: "getOrCreateResource srv i = Inr (?srv, length (srv_heap srv))"
        using None tpl res(1) Some by (simp add: getOrCreateResource_def Let_def)
      have ok': "server_ok ?srv"
        using getOrCreate_ok [OF ok _ c(1,2) cov] Some g by auto
      have l: "srv_lookup ?srv j = (if j = i then Some (length (srv_heap srv)) else srv_lookup srv j)" for j
        using Some by (simp add: srv_lookup_def map_of_put)
      have "life_ok ?srv"
        using ok' assms(1,3) res(3) s
        by (simp add: life_ok_def l plain_id_def serviceable_resource_def)
      moreover have "grows srv ?srv" using res(2) assms(3) by (simp add: grows_def)
      ultimately show ?thesis using g getOrCreate_keeps [OF g] res(2) l by fastforce
    qed
  qed
qed

lemma heap_write_life:
  assumes "life_ok srv" and "a < length (srv_heap srv)" and "resource_wf res"
    and "res_ID res = res_ID (srv_heap srv ! a)" and "serviceable_resource res"
  shows "life_ok (heap_write srv a res)" and "grows srv (heap_write srv a res)"
proof -
  have "server_ok (heap_write srv a res)"
    by (rule server_ok_heap_write [OF _ assms(3,4)]) (use assms(1) in \<open>simp add: life_ok_def\<close>)
  then show "life_ok (heap_write srv a res)"
    using assms(1,5) set_update_subset_insert [of "srv_heap srv" a res]
    by (auto simp: life_ok_def list_all_iff)
  have "map res_ID ((srv_heap srv)[a := res]) = map res_ID (srv_heap srv)"
    using assms(2,4) by (simp add: map_update list_update_same_conv)
  then show "grows srv (heap_write srv a res)" by (intro grows_same_heap) simp_all
qed

lemma life_heap:
  assumes "life_ok srv" and "a < length (srv_heap srv)"
  shows "resource_wf (srv_heap srv ! a)" "serviceable_resource (srv_heap srv ! a)"
  using assms by (simp_all add: life_ok_def server_ok_def list_all_length)

lemma run_goroutine_life:
  assumes "life_ok srv" and "a < length (srv_heap srv)"
  shows "\<exists>srv' it. run_goroutine srv clk (a, r) = Inr (srv', it) \<and> life_ok srv' \<and> grows srv srv' \<and> keeps srv srv' \<and>
    item_id it = res_ID (srv_heap srv ! a)"
proof -
  let ?res = "srv_heap srv ! a"
  note wf = life_heap [OF assms]
  obtain tpl where tpl: "res_config ?res = Some tpl"
    using wf(2) by (auto simp: serviceable_resource_def split: option.splits)
  obtain s lease where d: "resource_Decide ?res clk r = Inr (?res\<lparr>res_store := s\<rparr>, lease)" "distinct_keys (ls_leases s)"
    using Decide_effect [OF wf(1) tpl, of clk r] by blast
  have "resource_wf (?res\<lparr>res_store := s\<rparr>)" using wf(1) d(2) by (simp add: resource_wf_def)
  from heap_write_life [OF assms this] wf(2) d(1) show ?thesis
    by (auto simp: run_goroutine_def serviceable_resource_def)
qed

lemma SetSafeCapacity_life:
  assumes "life_ok srv" and "a < length (srv_heap srv)"
  shows "\<exists>resp'. SetSafeCapacity (srv_heap srv ! a) resp = Inr resp' \<and> rrsp_ResourceId resp' = rrsp_ResourceId resp \<and>
    rrsp_Gets resp' = rrsp_Gets resp"
  using life_heap(2) [OF assms]
  by (auto simp: SetSafeCapacity_def serviceable_resource_def serviceable_def split: option.splits)

lemma release_loop_life:
  assumes "life_ok srv"
  shows "life_ok (release_loop c ids srv)" and "grows srv (release_loop c ids srv)"
proof -
  have "life_ok (release_loop c ids srv) \<and> grows srv (release_loop c ids srv)"
    using assms
  proof (induction c ids srv rule: release_loop.induct)
    case (2 c i ids srv)
    show ?case
    proof (cases "srv_lookup srv i")
      case (Some a)
      let ?res = "(srv_heap srv ! a)\<lparr>res_store := store_Release (res_store (srv_heap srv ! a)) c\<rparr>"
      have a: "a < length (srv_heap srv)" "resource_wf (srv_heap srv ! a)"
        using server_ok_lookup [OF _ Some] "2.prems" by (simp_all add: life_ok_def)
      have wf: "resource_wf ?res" using resource_wf_Release [OF a(2), of c] by (simp add: resource_Release_def)
      have s: "serviceable_resource ?res" using life_heap(2) [OF "2.prems" a(1)] by (simp add: serviceable_resource_def)
      note h = heap_write_life [OF "2.prems" a(1) wf _ s]
      have "release_loop c (i # ids) srv = release_loop c ids (heap_write srv a ?res)" by (simp add: Some Let_def)
      with 2 Some h grows_trans show ?thesis by (fastforce simp: Let_def)
    qed (use 2 in simp)
  qed simp
  then show "life_ok (release_loop c ids srv)" "grows srv (release_loop c ids srv)" by auto
qed

section \<open>Steps\<close>

text \<open>What every action must do: it panics only in a handler that is not alive, and it keeps what
  holds of the server, of its own handler, and of the others.\<close>

definition safe_step :: "Server \<Rightarrow> handler \<Rightarrow> panic + Server \<times> handler \<Rightarrow> bool" where
  "safe_step srv h r = (case r of
       Inl p \<Rightarrow> p \<in> {NilMapWrite, NilDereference} \<and> \<not> alive srv h
     | Inr (srv', h') \<Rightarrow> life_ok srv' \<and> grows srv srv' \<and> keeps srv srv' \<and> handler_ok srv' h' \<and>
         (alive srv h \<longrightarrow> alive srv' h'))"

lemma safe_step_Inr: "safe_step srv h (Inr (srv', h')) = (life_ok srv' \<and> grows srv srv' \<and> keeps srv srv' \<and>
    handler_ok srv' h' \<and> (alive srv h \<longrightarrow> alive srv' h'))"
  by (simp add: safe_step_def)

lemma master_config: "life_ok srv \<Longrightarrow> IsMaster srv \<Longrightarrow> srv_config srv \<noteq> None"
  by (rule life_ok_serving) auto

lemma master_resources: "life_ok srv \<Longrightarrow> IsMaster srv \<Longrightarrow> srv_resources srv \<noteq> None"
  by (auto simp: life_ok_def server_ok_def IsMaster_def)

lemma start_call_safe:
  assumes "life_ok srv" and "call_plain q" and "IsMaster srv"
  shows "case start_call q of
      Looking creqs \<Rightarrow> srv_config srv \<noteq> None \<and> plain_ids (map cr_resID creqs)
    | Releasing \<Rightarrow> True | Finished ans \<Rightarrow> True | _ \<Rightarrow> False"
  using assms(2) master_config [OF assms(1,3)] requested_client_requests
  by (auto simp: start_call_def call_plain_def server_requests_ids
      split: remote_call.splits option.splits)

lemma entered_safe:
  assumes "life_ok srv" and "handler_ok srv h" and "hd_pc h = Entered"
  shows "safe_step srv h (handler_step srv h)"
proof (cases "IsMaster srv")
  case True
  then show ?thesis
    using assms start_call_safe [OF assms(1) _ True, of "hd_call h"]
    by (cases "start_call (hd_call h)")
      (auto simp: handler_step_def safe_step_def handler_ok_def alive_def busy_def)
next
  case False
  then show ?thesis
    using assms by (auto simp: handler_step_def safe_step_def handler_ok_def alive_def busy_def)
qed

lemma looking_safe:
  assumes "life_ok srv" and "handler_ok srv h" and "hd_pc h = Looking creqs"
  shows "safe_step srv h (handler_step srv h)"
proof (cases creqs)
  case Nil
  then show ?thesis
    using assms by (auto simp: handler_step_def safe_step_def handler_ok_def alive_def busy_def)
next
  case (Cons creq rest)
  have c: "srv_config srv \<noteq> None" "plain_id (cr_resID creq)" "plain_ids (map cr_resID rest)"
    using assms(2,3) Cons by (auto simp: handler_ok_def)
  from getOrCreate_life [OF assms(1) c(1,2)] show ?thesis
  proof (elim disjE exE conjE)
    fix srv' a
    assume g: "getOrCreateResource srv (cr_resID creq) = Inr (srv', a)" "life_ok srv'" "grows srv srv'"
      "keeps srv srv'" "a < length (srv_heap srv')" "res_ID (srv_heap srv' ! a) = cr_resID creq"
      "srv_lookup srv' (cr_resID creq) = Some a"
    let ?h = "h\<lparr>hd_pc := Looking rest, hd_pool := hd_pool h @ [(a, request_of creq)]\<rparr>"
    have "handler_ok srv' ?h"
      using handler_ok_grows [OF g(3) assms(2)] g(5) c(3) assms(3) by (simp add: handler_ok_def)
    moreover have "alive srv h \<longrightarrow> alive srv' ?h"
      using alive_mono [OF g(4,3) assms(2)] g(6,7) assms(3) by (auto simp: alive_def busy_def)
    ultimately show ?thesis using g assms(3) Cons by (simp add: handler_step_def safe_step_Inr)
  next
    assume g: "getOrCreateResource srv (cr_resID creq) = Inl NilMapWrite" "srv_resources srv = None"
    then have "\<not> alive srv h"
      using master_resources [OF assms(1)] assms(3) by (auto simp: alive_def busy_def)
    then show ?thesis using g(1) assms(3) Cons by (simp add: handler_step_def safe_step_def)
  qed
qed

lemma collecting_safe:
  assumes "life_ok srv" and "handler_ok srv h" and "hd_pc h = Collecting cur"
  shows "safe_step srv h (handler_step srv h)"
proof (cases cur)
  case None
  then show ?thesis
    using assms by (auto simp: handler_step_def safe_step_def handler_ok_def alive_def busy_def)
next
  case (Some p)
  then obtain resp a where p: "cur = Some (resp, a)" by (cases p) auto
  then have "a < length (srv_heap srv)" using assms(2,3) by (simp add: handler_ok_def)
  from SetSafeCapacity_life [OF assms(1) this, of resp] p assms show ?thesis
    by (auto simp: handler_step_def safe_step_def handler_ok_def alive_def busy_def)
qed

lemma handler_step_safe:
  assumes "life_ok srv" and "handler_ok srv h"
  shows "safe_step srv h (handler_step srv h)"
proof (cases "hd_pc h")
  case Releasing
  let ?srv = "release_call (hd_call h) srv"
  have r: "life_ok ?srv" "grows srv ?srv" "keeps srv ?srv"
    using release_loop_life [OF assms(1)] release_loop_keeps assms(1) by (auto simp: release_call_def split: remote_call.split)
  then show ?thesis
    using handler_ok_grows [OF r(2) assms(2)] alive_mono [OF r(3,2) assms(2)] Releasing
    by (auto simp: handler_step_def safe_step_def handler_ok_def alive_def busy_def)
qed (use assms entered_safe looking_safe collecting_safe in
    \<open>auto simp: handler_step_def safe_step_def handler_ok_def alive_def busy_def\<close>)

lemma goroutine_step_safe:
  assumes "life_ok srv" and "plain_heap srv" and "handler_ok srv h"
  shows "safe_step srv h (goroutine_step j clk srv h)"
proof (cases "j < length (hd_pool h)")
  case False
  with assms show ?thesis by (simp add: goroutine_step_def safe_step_def)
next
  case True
  obtain a r where ar: "hd_pool h ! j = (a, r)" by force
  then have in_pool: "(a, r) \<in> set (hd_pool h)" using True nth_mem by metis
  then have a: "a < length (srv_heap srv)" using assms(3) by (auto simp: handler_ok_def list_all_iff)
  obtain srv' it where g: "run_goroutine srv clk (a, r) = Inr (srv', it)" "life_ok srv'" "grows srv srv'" "keeps srv srv'"
    "item_id it = res_ID (srv_heap srv ! a)"
    using run_goroutine_life [OF assms(1) a, of clk r] by blast
  let ?h = "h\<lparr>hd_pool := drop_nth j (hd_pool h), hd_items := hd_items h @ [it]\<rparr>"
  have "plain_id (item_id it)" using assms(2) a by (simp add: g(5) plain_heap_def plain_ids_iff list_all_length)
  then have "handler_ok srv' ?h"
    using handler_ok_grows [OF g(3) assms(3)] by (cases "hd_pc h") (simp_all add: handler_ok_def list_all_drop_nth)
  moreover have "alive srv' ?h" if al: "alive srv h"
  proof -
    have "alive srv' h" by (rule alive_mono [OF g(4,3) assms(3) al])
    moreover have "srv_lookup srv (item_id it) \<noteq> None"
      using al in_pool by (auto simp: g(5) alive_def list_all_iff)
    then have "srv_lookup srv' (item_id it) \<noteq> None" using g(4) by (auto simp: keeps_def)
    moreover have "hd_pool h \<noteq> []" using True by auto
    ultimately show ?thesis by (auto simp: alive_def busy_def list_all_drop_nth)
  qed
  ultimately show ?thesis using g True ar by (simp add: goroutine_step_def safe_step_Inr)
qed

lemma receive_step_safe:
  assumes "life_ok srv" and "handler_ok srv h"
  shows "safe_step srv h (receive_step j srv h)"
proof (cases "hd_pc h = Collecting None \<and> j < length (hd_items h)")
  case False
  with assms show ?thesis by (auto simp: receive_step_def safe_step_def)
next
  case True
  let ?it = "hd_items h ! j" and ?h = "h\<lparr>hd_items := drop_nth j (hd_items h)\<rparr>"
  have it: "?it \<in> set (hd_items h)" using True by simp
  have plain: "plain_id (item_id ?it)" "plain_ids (map item_id (drop_nth j (hd_items h)))"
    and conf: "srv_config srv \<noteq> None"
    using assms(2) it True by (auto simp: handler_ok_def plain_ids_iff list_all_iff dest!: set_drop_nth [THEN subsetD])
  have known: "alive srv h \<Longrightarrow> srv_lookup srv (item_id ?it) \<noteq> None \<and> IsMaster srv"
    using it True by (auto simp: alive_def busy_def list_all_iff)
  have rest: "alive srv h \<Longrightarrow> alive srv ?h" "handler_ok srv ?h"
    using assms(2) plain(2) True by (auto simp: alive_def busy_def handler_ok_def list_all_drop_nth)
  show ?thesis
  proof (cases "\<exists>q. hd_call h = OnGetServerCapacity q")
    case s: True
    show ?thesis
    proof (cases "srv_lookup srv (item_id ?it)")
      case None
      with s True known show ?thesis by (auto simp: receive_step_def collect_server_item_def safe_step_def Let_def)
    next
      case (Some a)
      with s True rest assms(1) show ?thesis
        by (auto simp: receive_step_def collect_server_item_def safe_step_def handler_ok_def alive_def busy_def Let_def)
    qed
  next
    case False
    then have step: "receive_step j srv h = bind_panic (getOrCreateResource srv (item_id ?it)) (\<lambda>(srv', a).
        Inr (srv', ?h\<lparr>hd_pc := Collecting (Some (response_of ?it, a))\<rparr>))"
      using True by (cases "hd_call h") (simp_all add: receive_step_def Let_def)
    from getOrCreate_life [OF assms(1) conf plain(1)] show ?thesis
    proof (elim disjE exE conjE)
      fix srv' a
      assume g: "getOrCreateResource srv (item_id ?it) = Inr (srv', a)" "life_ok srv'" "grows srv srv'"
        "keeps srv srv'" "a < length (srv_heap srv')"
      have "handler_ok srv' (?h\<lparr>hd_pc := Collecting (Some (response_of ?it, a))\<rparr>)"
        using handler_ok_grows [OF g(3) rest(2)] g(5) True by (simp add: handler_ok_def)
      moreover have "alive srv h \<longrightarrow> alive srv' (?h\<lparr>hd_pc := Collecting (Some (response_of ?it, a))\<rparr>)"
        using alive_mono [OF g(4,3) rest(2)] rest(1) True by (auto simp: alive_def busy_def)
      ultimately show ?thesis using g by (simp add: step safe_step_Inr)
    next
      assume g: "getOrCreateResource srv (item_id ?it) = Inl NilMapWrite" "srv_resources srv = None"
      with known master_resources [OF assms(1)] show ?thesis by (auto simp: step safe_step_def)
    qed
  qed
qed

section \<open>Configurations and elections\<close>

text \<open>What happens next to the calls: configurations, elections, and nothing else.\<close>

definition background_ok :: "(string \<Rightarrow> ResourceRepository option) \<Rightarrow> server_event \<Rightarrow> bool" where
  "background_ok unmarshal e = (event_ok unmarshal e \<and>
     (case e of Update u \<Rightarrow> True | Outcome now b \<Rightarrow> True | MasterID i \<Rightarrow> True | _ \<Rightarrow> False))"

lemma reload_loop_ids:
  "reload_loop ex es srv = Inr srv' \<Longrightarrow> list_all (\<lambda>(i, a). a < length (srv_heap srv)) es \<Longrightarrow>
     map res_ID (srv_heap srv') = map res_ID (srv_heap srv) \<and> srv_config srv' = srv_config srv"
proof (induction ex es srv rule: reload_loop.induct)
  case (2 ex i a rest srv)
  then obtain tpl res where r: "findConfigForResource srv i = Inr tpl"
    "resource_LoadConfig (srv_heap srv ! a) (Some tpl) (map_of ex i) = Inr res"
    "reload_loop ex rest (heap_write srv a res) = Inr srv'" by auto
  have "res_ID res = res_ID (srv_heap srv ! a)" using r(2) by (auto simp: resource_LoadConfig_def Let_def)
  then have "map res_ID ((srv_heap srv)[a := res]) = map res_ID (srv_heap srv)"
    by (metis list_update_id map_update)
  with "2.IH" [OF r(3)] "2.prems"(2) show ?case by (auto simp: list_all_iff)
qed simp

lemma server_LoadConfig_ids:
  assumes "server_ok srv" and "server_LoadConfig run_err srv cfg ex = Inr (srv', err)"
  shows "grows srv srv'"
proof -
  have "grows srv srv'"
    if r: "reload_loop ex m (srv\<lparr>srv_config := Some cfg\<rparr>) = Inr srv'"
      and m: "m = (case srv_resources srv of None \<Rightarrow> [] | Some m \<Rightarrow> m)" for m
  proof -
    have "list_all (\<lambda>(i, a). a < length (srv_heap srv)) m"
      using server_ok_addresses [OF assms(1)] m by (auto simp: addresses_ok_def list_all_iff split: option.splits)
    with reload_loop_ids [OF r] show ?thesis by (intro grows_same_heap) simp_all
  qed
  with assms(2) show ?thesis
    by (auto simp: server_LoadConfig_def triggerElection_def grows_def Let_def split: option.splits if_splits)
qed

lemma background_life:
  assumes "life_ok srv" and "background_ok unmarshal e"
  shows "\<exists>srv'. life_step unmarshal run_err e srv = Inr srv' \<and> life_ok srv' \<and> grows srv srv'"
proof -
  obtain srv' where s: "life_step unmarshal run_err e srv = Inr srv'" "life_ok srv'"
    using life_run_ok [OF assms(1), of unmarshal "[e]" run_err] assms(2) by (auto simp: background_ok_def)
  have ok: "server_ok srv" using assms(1) by (simp add: life_ok_def)
  have "grows srv srv'"
  proof (cases e)
    case (Update u)
    then show ?thesis
      using s(1) server_LoadConfig_ids [OF ok] by (auto simp: life_step_def config_step_def split: option.splits)
  qed (use s(1) assms(2) in \<open>auto simp: background_ok_def life_step_def grows_def handleElectionOutcome_def handleMasterID_def Let_def
      split: if_splits\<close>)
  with s show ?thesis by blast
qed

text \<open>The outcomes that the world's server is told, and when they announce no loss.\<close>

fun told :: "world_event list \<Rightarrow> bool list" where
  "told [] = []"
| "told (e # es) = (case e of Background b \<Rightarrow> outcomes_of [b] @ told es | _ \<Rightarrow> told es)"

definition no_loss :: "Server \<Rightarrow> bool list \<Rightarrow> bool" where
  "no_loss srv bs = (bs = [] \<or> bs = [True] \<and> \<not> IsMaster srv)"

lemma background_alive:
  assumes "background_ok unmarshal e" and "life_step unmarshal run_err e srv = Inr srv'"
    and "grows srv srv'" and "no_loss srv (outcomes_of [e])" and "handler_ok srv h" and "alive srv h"
  shows "alive srv' h"
proof (cases "outcomes_of [e] = []")
  case True
  from alive_mono [OF life_step_keeps [OF assms(2) True] assms(3,5,6)] show ?thesis .
next
  case False
  then have "\<not> IsMaster srv" using assms(4) by (simp add: no_loss_def)
  then have "\<not> busy h" using assms(6) by (auto simp: alive_def)
  then show ?thesis by (auto simp: alive_def busy_def)
qed

section \<open>Runs\<close>

lemma step_handler_safe:
  assumes "world_ok w" and "k < length (wd_calls w)"
    and "safe_step (wd_srv w) (wd_calls w ! k) (f (wd_srv w) (wd_calls w ! k))"
  shows "case step_handler f k w of
      Inl p \<Rightarrow> p \<in> {NilMapWrite, NilDereference} \<and> \<not> list_all (alive (wd_srv w)) (wd_calls w)
    | Inr w' \<Rightarrow> world_ok w' \<and> (list_all (alive (wd_srv w)) (wd_calls w) \<longrightarrow> list_all (alive (wd_srv w')) (wd_calls w')) \<and>
        IsMaster (wd_srv w') = IsMaster (wd_srv w)"
proof (cases "f (wd_srv w) (wd_calls w ! k)")
  case (Inl p)
  then show ?thesis using assms(2,3) by (auto simp: step_handler_def safe_step_def list_all_length)
next
  case (Inr p)
  obtain srv h where p: "p = (srv, h)" by force
  have s: "life_ok srv" "grows (wd_srv w) srv" "keeps (wd_srv w) srv" "handler_ok srv h"
    "alive (wd_srv w) (wd_calls w ! k) \<longrightarrow> alive srv h"
    using assms(3) by (simp_all add: Inr p safe_step_Inr)
  have ok: "handler_ok (wd_srv w) (wd_calls w ! i)" if "i < length (wd_calls w)" for i
    using assms(1) that by (simp add: world_ok_def list_all_length)
  have "list_all (handler_ok srv) ((wd_calls w)[k := h])"
    using handler_ok_grows [OF s(2) ok] s(4) assms(2) by (auto simp: list_all_length nth_list_update)
  moreover have "plain_heap srv" using growsD(3) [OF s(2)] assms(1) by (simp add: world_ok_def)
  moreover have "list_all (alive srv) ((wd_calls w)[k := h])" if "list_all (alive (wd_srv w)) (wd_calls w)"
    using that s(5) alive_mono [OF s(3,2) ok] assms(2) by (auto simp: list_all_length nth_list_update)
  ultimately show ?thesis
    using assms(2) s(1,3) by (simp add: step_handler_def Inr p world_ok_def keeps_def IsMaster_def)
qed

definition event_fine :: "(string \<Rightarrow> ResourceRepository option) \<Rightarrow> world_event \<Rightarrow> bool" where
  "event_fine unmarshal e = (case e of
       Arrive q \<Rightarrow> call_plain q
     | Background b \<Rightarrow> background_ok unmarshal b
     | _ \<Rightarrow> True)"

lemma step_handler_idle: "\<not> k < length (wd_calls w) \<Longrightarrow> step_handler f k w = Inr w"
  by (simp add: step_handler_def)

text \<open>One event: the induction step of the theorem on runs.\<close>

lemma world_step_safe:
  assumes "world_ok w" and "event_fine unmarshal e"
  shows "case world_step unmarshal run_err e w of
      Inl p \<Rightarrow> p \<in> {NilMapWrite, NilDereference} \<and> \<not> list_all (alive (wd_srv w)) (wd_calls w)
    | Inr w' \<Rightarrow> world_ok w' \<and>
        (list_all (alive (wd_srv w)) (wd_calls w) \<and> no_loss (wd_srv w) (told [e]) \<longrightarrow> list_all (alive (wd_srv w')) (wd_calls w')) \<and>
        (told [e] = [] \<longrightarrow> IsMaster (wd_srv w') = IsMaster (wd_srv w))"
proof -
  have l: "life_ok (wd_srv w)" "plain_heap (wd_srv w)" using assms(1) by (simp_all add: world_ok_def)
  have h: "handler_ok (wd_srv w) (wd_calls w ! k)" if "k < length (wd_calls w)" for k
    using assms(1) that by (simp add: world_ok_def list_all_length)
  show ?thesis
  proof (cases e)
    case (Arrive q)
    then show ?thesis
      using assms by (auto simp: world_step_def world_ok_def new_handler_def handler_ok_def alive_def busy_def event_fine_def)
  next
    case (Proceed k)
    then show ?thesis
      using step_handler_safe [where f = handler_step and k = k, OF assms(1) _ handler_step_safe [OF l(1) h]] step_handler_idle [of k w] assms(1)
      by (cases "k < length (wd_calls w)") (auto simp: world_step_def split: sum.splits)
  next
    case (Decides k j clk)
    then show ?thesis
      using step_handler_safe [where f = "goroutine_step j clk" and k = k, OF assms(1) _ goroutine_step_safe [OF l h]] step_handler_idle [of k w] assms(1)
      by (cases "k < length (wd_calls w)") (auto simp: world_step_def split: sum.splits)
  next
    case (Receives k j)
    then show ?thesis
      using step_handler_safe [where f = "receive_step j" and k = k, OF assms(1) _ receive_step_safe [OF l(1) h]] step_handler_idle [of k w] assms(1)
      by (cases "k < length (wd_calls w)") (auto simp: world_step_def split: sum.splits)
  next
    case (Background b)
    then have b: "background_ok unmarshal b" using assms(2) by (simp add: event_fine_def)
    obtain srv where s: "life_step unmarshal run_err b (wd_srv w) = Inr srv" "life_ok srv" "grows (wd_srv w) srv"
      using background_life [OF l(1) b] by blast
    have "list_all (handler_ok srv) (wd_calls w)" "plain_heap srv"
      using handler_ok_grows [OF s(3)] growsD(3) [OF s(3) l(2)] assms(1) by (auto simp: world_ok_def list_all_iff)
    moreover have "list_all (alive srv) (wd_calls w)"
      if "list_all (alive (wd_srv w)) (wd_calls w)" "no_loss (wd_srv w) (told [e])"
      using background_alive [OF b s(1,3)] that assms(1) Background by (auto simp: list_all_iff world_ok_def)
    moreover have "IsMaster srv = IsMaster (wd_srv w)" if "told [e] = []"
      using life_step_keeps [OF s(1)] that Background by (simp add: keeps_def IsMaster_def)
    ultimately show ?thesis using s(1,2) Background by (simp add: world_step_def world_ok_def)
  qed
qed

lemma told_Cons: "told (e # es) = told [e] @ told es"
  by (cases e) simp_all

lemma world_run_safe:
  assumes "world_ok w" and "list_all (event_fine unmarshal) es"
  shows "case world_run unmarshal run_err es w of
      Inl p \<Rightarrow> p \<in> {NilMapWrite, NilDereference} \<and>
        \<not> (list_all (alive (wd_srv w)) (wd_calls w) \<and> no_loss (wd_srv w) (told es))
    | Inr w' \<Rightarrow> world_ok w' \<and>
        (list_all (alive (wd_srv w)) (wd_calls w) \<and> no_loss (wd_srv w) (told es) \<longrightarrow> list_all (alive (wd_srv w')) (wd_calls w'))"
  using assms
proof (induction es arbitrary: w)
  case (Cons e es)
  have e: "event_fine unmarshal e" and es: "list_all (event_fine unmarshal) es" using Cons.prems(2) by simp_all
  note s = world_step_safe [OF Cons.prems(1) e, of run_err]
  have first: "no_loss (wd_srv w) (told (e # es)) \<Longrightarrow> no_loss (wd_srv w) (told [e])"
    unfolding told_Cons [of e es] by (auto simp: no_loss_def append_eq_Cons_conv)
  show ?case
  proof (cases "world_step unmarshal run_err e w")
    case (Inl p)
    then show ?thesis using s first by auto
  next
    case (Inr w1)
    have rest: "no_loss (wd_srv w1) (told es)" if "no_loss (wd_srv w) (told (e # es))"
      using s that unfolding Inr told_Cons [of e es] by (auto simp: no_loss_def append_eq_Cons_conv)
    have ok: "world_ok w1" using s by (simp add: Inr)
    from Cons.IH [OF ok es] s first rest show ?thesis
      by (auto simp: Inr split: sum.splits)
  qed
qed simp

section \<open>Properties\<close>

definition new_world :: "Server \<Rightarrow> world" where
  "new_world srv = \<lparr>wd_srv = srv, wd_calls = []\<rparr>"

lemma root_server_fresh:
  assumes "NewIntermediate i '''' dial run_err = Inr (Inr dm)"
  shows "life_ok dm" and "srv_heap dm = []" and "\<not> IsMaster dm" and "srv_config dm = None" and "srv_handlers dm = 0"
  using assms
  by (auto simp: NewIntermediate_def life_ok_def server_ok_def addresses_ok_def srv_lookup_def IsMaster_def)

lemma new_world_ok:
  "NewIntermediate i '''' dial run_err = Inr (Inr dm) \<Longrightarrow> world_ok (new_world dm)"
  using root_server_fresh [of i dial run_err dm] by (simp add: new_world_def world_ok_def plain_heap_def)

lemma election_losses:
  assumes "candidate_run e Contender oks = bs @ rest" and "bs \<noteq> []" and "bs \<noteq> [True]"
  shows "False \<in> set bs"
proof -
  obtain b cs where b: "bs = b # cs" using assms(2) by (cases bs) auto
  then have "b" using candidate_changes [of e Contender oks "[]" b "cs @ rest"] assms(1) by simp
  with b assms(3) obtain c ds where "cs = c # ds" by (cases cs) auto
  then show ?thesis
    using candidate_changes [of e Contender oks "[b]" c "ds @ rest"] assms(1) b \<open>b\<close> by auto
qed

lemma new_world_run:
  assumes "NewIntermediate i '''' dial run_err = Inr (Inr dm)" and "list_all (event_fine unmarshal) es"
    and "world_run unmarshal run_err es (new_world dm) = Inr w"
  shows "world_ok w" and "told es \<in> {[], [True]} \<Longrightarrow> list_all (alive (wd_srv w)) (wd_calls w)"
  using world_run_safe [OF new_world_ok [OF assms(1)] assms(2), of run_err] root_server_fresh(3) [OF assms(1)]
  unfolding assms(3) by (auto simp: new_world_def no_loss_def)

text \<open>However the actions of calls interleave with each other, with elections and with the loading of
  configurations, a new root server keeps its invariant, and nothing panics before its election has
  announced a loss of mastership; a panic after that is a write to the map of resources, or the use
  of a resource from it, that the loss has taken away from a call.\<close>

lemma world_panics:
  assumes "NewIntermediate i '''' dial run_err = Inr (Inr dm)" and "list_all (event_fine unmarshal) es"
    and "candidate_run etcd Contender oks = told es @ rest"
  shows "case world_run unmarshal run_err es (new_world dm) of
      Inl p \<Rightarrow> p \<in> {NilMapWrite, NilDereference} \<and> False \<in> set (told es)
    | Inr w \<Rightarrow> server_ok (wd_srv w) \<and> (IsMaster (wd_srv w) \<longrightarrow> srv_config (wd_srv w) \<noteq> None)"
proof -
  note run = world_run_safe [OF new_world_ok [OF assms(1)] assms(2), of run_err]
  have "no_loss (wd_srv (new_world dm)) (told es) \<or> False \<in> set (told es)"
    using election_losses [OF assms(3)] root_server_fresh(3) [OF assms(1)] by (auto simp: no_loss_def new_world_def)
  with run show ?thesis
    using master_config by (auto simp: new_world_def world_ok_def life_ok_def split: sum.splits)
qed

text \<open>A new server is configured, wins its election at time 10 and gets a call.\<close>

definition example_start :: "world_event list" where
  "example_start = [Background (Update (Some ''good'')), Background (Outcome 10 True), Arrive (OnGetCapacity example_query)]"

lemma example_start_fine: "list_all (event_fine example_unmarshal) example_start" "told example_start = [True]"
    "event_ok example_unmarshal (Update (Some ''good''))"
  using example_repo_ok
  by (simp_all add: example_start_def event_fine_def background_ok_def call_plain_def event_ok_def requested_def
      example_query_def ask_def ResourceRequest_GetResourceId_def plain_id_def example_unmarshal_def)

lemma example_start_run:
  obtains dm srv where "NewIntermediate ''s'' '''' (Inl '''') None = Inr (Inr dm)"
    "srv_config srv = Some example_repo" "0 < srv_handlers srv"
    "life_step example_unmarshal None (Update (Some ''good'')) dm = Inr srv"
    "world_run example_unmarshal None example_start (new_world dm) =
       Inr \<lparr>wd_srv = handleElectionOutcome 10 True srv, wd_calls = [new_handler (OnGetCapacity example_query)]\<rparr>"
proof -
  let ?up = "[Update (Some ''good'')]"
  obtain dm where dm: "NewIntermediate ''s'' '''' (Inl '''') None = Inr (Inr dm)" by (simp add: NewIntermediate_def)
  note f = root_server_fresh [OF dm]
  have loaded: "valid_updates example_unmarshal (updates_of ?up) = [example_repo]"
    using example_repo_ok by (simp add: valid_updates_Cons example_unmarshal_def) (simp add: valid_updates_def List.map_filter_simps)
  have up: "list_all (event_ok example_unmarshal) ?up" using example_start_fine(3) by simp
  from life_run_ok [OF f(1) up, of None] loaded f(4,5) obtain srv where
    s: "life_step example_unmarshal None (Update (Some ''good'')) dm = Inr srv" "srv_config srv = Some example_repo"
      "0 < srv_handlers srv"
    by (auto simp: Let_def)
  moreover have "life_step example_unmarshal None (Outcome 10 True) srv = Inr (handleElectionOutcome 10 True srv)"
    using s(3) by (simp add: life_step_def)
  ultimately have "world_run example_unmarshal None example_start (new_world dm) =
       Inr \<lparr>wd_srv = handleElectionOutcome 10 True srv, wd_calls = [new_handler (OnGetCapacity example_query)]\<rparr>"
    by (simp add: example_start_def world_step_def new_world_def)
  with that dm s show thesis by blast
qed

lemma world_run_append: "world_run unmarshal run_err (es @ es') w =
    bind_panic (world_run unmarshal run_err es w) (world_run unmarshal run_err es')"
  by (induction es arbitrary: w) (auto simp: bind_panic_def split: sum.splits)

text \<open>The call passes its check of mastership, the election is lost, and the lookup of its resource
  panics.\<close>

definition lost_in_call :: "world_event list" where
  "lost_in_call = example_start @ [Proceed 0, Background (Outcome 20 False), Proceed 0]"

lemma lost_in_call_run:
  obtains dm where "NewIntermediate ''s'' '''' (Inl '''') None = Inr (Inr dm)"
    "world_run example_unmarshal None lost_in_call (new_world dm) = Inl NilMapWrite"
    "list_all (event_fine example_unmarshal) lost_in_call" "told lost_in_call = [True, False]"
proof -
  let ?es = "lost_in_call"
  obtain dm srv where dm: "NewIntermediate ''s'' '''' (Inl '''') None = Inr (Inr dm)"
    and s: "srv_config srv = Some example_repo" "0 < srv_handlers srv"
    and run: "world_run example_unmarshal None example_start (new_world dm) =
       Inr \<lparr>wd_srv = handleElectionOutcome 10 True srv, wd_calls = [new_handler (OnGetCapacity example_query)]\<rparr>"
    by (rule example_start_run)
  let ?lost = "handleElectionOutcome 20 False (handleElectionOutcome 10 True srv)"
  have "getOrCreateResource ?lost ''r'' = Inl NilMapWrite"
    by (rule lost_mastership_panics [of _ example_repo])
      (use s example_repo_ok(2) example_covered [of "''r''"] in \<open>simp_all add: handleElectionOutcome_def Let_def\<close>)
  moreover have "srv_isMaster (handleElectionOutcome 10 True srv)"
    "srv_handlers (handleElectionOutcome 10 True srv) = srv_handlers srv"
    by (simp_all add: handleElectionOutcome_def Let_def)
  ultimately have panic: "world_run example_unmarshal None ?es (new_world dm) = Inl NilMapWrite"
    using s(2)
    by (simp add: lost_in_call_def world_run_append run world_step_def life_step_def step_handler_def handler_step_def new_handler_def
        start_call_def client_requests_def ResourceRequest_GetResourceId_def example_query_def ask_def IsMaster_def)
  have fine: "list_all (event_fine example_unmarshal) ?es"
    using example_start_fine(1) by (simp add: lost_in_call_def event_fine_def background_ok_def event_ok_def)
  have "told ?es = [True, False]" by (simp add: lost_in_call_def example_start_def)
  with that dm panic fine show thesis by blast
qed

end
