(* ===== verification/Overlap_Answers.thy ===== *)
theory Overlap_Answers
  imports Overlap_Props
begin

text \<open>
  What an overlapping call answers: every resource it was asked for once, whatever happens around
  it; and that it can always go on to its answer.
\<close>

section \<open>Accounts\<close>

text \<open>The resources a call still owes answers for, and those it has answered, are those it was asked for.\<close>

definition out_id :: "ResourceResponse + ServerCapacityResourceResponse \<Rightarrow> string" where
  "out_id r = (case r of
       Inl resp \<Rightarrow> ResourceResponse_GetResourceId (Some resp)
     | Inr resp \<Rightarrow> ServerCapacityResourceResponse_GetResourceId (Some resp))"

definition asked_ids :: "remote_call \<Rightarrow> string multiset" where
  "asked_ids q = (case q of
       OnGetCapacity q \<Rightarrow> mset (requested q)
     | OnGetServerCapacity q \<Rightarrow>
         mset (map (\<lambda>req. ServerCapacityResourceRequest_GetResourceId (Some req)) (gsq_Resource q))
     | OnRelease q \<Rightarrow> {#})"

definition owed :: "Server \<Rightarrow> handler \<Rightarrow> string multiset" where
  "owed srv h = mset (map (\<lambda>(a, r). res_ID (srv_heap srv ! a)) (hd_pool h)) + mset (map item_id (hd_items h)) +
     (case hd_pc h of
        Looking creqs \<Rightarrow> mset (map cr_resID creqs)
      | Collecting (Some (resp, a)) \<Rightarrow> {#ResourceResponse_GetResourceId (Some resp)#}
      | _ \<Rightarrow> {#})"

definition accounted :: "Server \<Rightarrow> handler \<Rightarrow> bool" where
  "accounted srv h = (case hd_pc h of
       Finished (Leases out) \<Rightarrow> image_mset out_id (mset out) = asked_ids (hd_call h)
     | Finished ans \<Rightarrow> True
     | Looking creqs \<Rightarrow> owed srv h + image_mset out_id (mset (hd_out h)) = asked_ids (hd_call h)
     | Collecting cur \<Rightarrow> owed srv h + image_mset out_id (mset (hd_out h)) = asked_ids (hd_call h)
     | _ \<Rightarrow> hd_pool h = [] \<and> hd_items h = [] \<and> hd_out h = [])"

lemma owed_grows:
  assumes "grows srv srv'" and "handler_ok srv h"
  shows "owed srv' h = owed srv h"
proof -
  have "map (\<lambda>(a, r). res_ID (srv_heap srv' ! a)) (hd_pool h) = map (\<lambda>(a, r). res_ID (srv_heap srv ! a)) (hd_pool h)"
    using assms(2) growsD(2) [OF assms(1)] by (auto simp: handler_ok_def list_all_iff)
  then show ?thesis unfolding owed_def by (simp only:)
qed

lemma accounted_grows: "grows srv srv' \<Longrightarrow> handler_ok srv h \<Longrightarrow> accounted srv h \<Longrightarrow> accounted srv' h"
  using owed_grows [of srv srv' h] by (cases "hd_pc h") (auto simp: accounted_def)

lemma start_call_ids:
  "start_call q = Looking creqs \<Longrightarrow> mset (map cr_resID creqs) = asked_ids q"
  by (cases q)
    (auto simp: start_call_def asked_ids_def requested_client_requests server_requests_ids simp del: mset_map
      split: option.splits)

lemma start_call_shape: "(\<exists>creqs. start_call q = Looking creqs) \<or> start_call q = Finished InvalidArgument \<or> start_call q = Releasing"
  by (simp add: start_call_def split: remote_call.split option.split)

lemma handler_step_accounted:
  assumes "life_ok srv" and "handler_ok srv h" and "accounted srv h" and "handler_step srv h = Inr (srv', h')"
  shows "accounted srv' h' \<and> hd_call h' = hd_call h"
proof (cases "hd_pc h")
  case Entered
  then show ?thesis
    using assms(3,4) start_call_shape [of "hd_call h"] start_call_ids [of "hd_call h"]
    by (auto simp: handler_step_def accounted_def owed_def split: if_splits)
next
  case (Looking creqs)
  show ?thesis
  proof (cases creqs)
    case (Cons creq rest)
    then obtain a where g: "getOrCreateResource srv (cr_resID creq) = Inr (srv', a)"
      "h' = h\<lparr>hd_pc := Looking rest, hd_pool := hd_pool h @ [(a, request_of creq)]\<rparr>"
      using assms(4) Looking by (auto simp: handler_step_def)
    have "srv_config srv \<noteq> None" "plain_id (cr_resID creq)"
      using assms(2) Looking Cons by (auto simp: handler_ok_def)
    from getOrCreate_life [OF assms(1) this] g(1) have "grows srv srv'" "res_ID (srv_heap srv' ! a) = cr_resID creq"
      by auto
    with owed_grows [OF this(1) assms(2)] assms(3) Looking Cons g(2) show ?thesis
      by (simp add: accounted_def owed_def)
  qed (use assms(3,4) Looking in \<open>auto simp: handler_step_def accounted_def owed_def\<close>)
next
  case (Collecting cur)
  show ?thesis
  proof (cases cur)
    case None
    with assms(3,4) Collecting show ?thesis
      by (auto simp: handler_step_def accounted_def owed_def split: if_splits)
  next
    case (Some p)
    then obtain resp a where p: "cur = Some (resp, a)" by (cases p) auto
    then have "a < length (srv_heap srv)" using assms(2) Collecting by (simp add: handler_ok_def)
    then obtain resp' where r: "SetSafeCapacity (srv_heap srv ! a) resp = Inr resp'"
      "rrsp_ResourceId resp' = rrsp_ResourceId resp"
      using SetSafeCapacity_life [OF assms(1)] by blast
    have "ResourceResponse_GetResourceId (Some resp') = ResourceResponse_GetResourceId (Some resp)"
      by (simp add: ResourceResponse_GetResourceId_def r(2) pb_get_def)
    with r(1) p assms(3,4) Collecting show ?thesis
      by (auto simp: handler_step_def accounted_def owed_def out_id_def)
  qed
qed (use assms(3,4) in \<open>auto simp: handler_step_def accounted_def\<close>)

lemma mset_map_drop_nth:
  "j < length xs \<Longrightarrow> mset (map f xs) = add_mset (f (xs ! j)) (mset (map f (drop_nth j xs)))"
  using mset_drop_nth [of j xs] by simp

lemma goroutine_step_accounted:
  assumes "life_ok srv" and "handler_ok srv h" and "accounted srv h" and "goroutine_step j clk srv h = Inr (srv', h')"
  shows "accounted srv' h' \<and> hd_call h' = hd_call h"
proof (cases "j < length (hd_pool h)")
  case True
  obtain a r where ar: "hd_pool h ! j = (a, r)" by force
  then have "a < length (srv_heap srv)" using assms(2) True by (auto simp: handler_ok_def list_all_length)
  from run_goroutine_life [OF assms(1) this, of clk r] obtain it where
    g: "run_goroutine srv clk (a, r) = Inr (srv', it)" "grows srv srv'" "item_id it = res_ID (srv_heap srv ! a)"
    "h' = h\<lparr>hd_pool := drop_nth j (hd_pool h), hd_items := hd_items h @ [it]\<rparr>"
    using assms(4) True ar by (auto simp: goroutine_step_def)
  have "owed srv' h' = owed srv' h"
    using mset_map_drop_nth [OF True, of "\<lambda>(a, r). res_ID (srv_heap srv' ! a)"] ar g(3,4)
      growsD(2) [OF g(2) \<open>a < length (srv_heap srv)\<close>]
    by (simp add: owed_def)
  with accounted_grows [OF g(2) assms(2,3)] True g(4) show ?thesis
    by (auto simp: accounted_def split: handler_pc.splits answer.splits)
qed (use assms(3,4) in \<open>simp add: goroutine_step_def\<close>)

lemma receive_step_accounted:
  assumes "life_ok srv" and "handler_ok srv h" and "accounted srv h" and "receive_step j srv h = Inr (srv', h')"
  shows "accounted srv' h' \<and> hd_call h' = hd_call h"
proof (cases "hd_pc h = Collecting None \<and> j < length (hd_items h)")
  case True
  let ?it = "hd_items h ! j"
  have ids: "mset (map item_id (hd_items h)) = add_mset (item_id ?it) (mset (map item_id (drop_nth j (hd_items h))))"
    using True mset_map_drop_nth by blast
  have resp: "ResourceResponse_GetResourceId (Some (response_of ?it)) = item_id ?it"
    by (simp add: response_of_def ResourceResponse_GetResourceId_def)
  have item: "srv_config srv \<noteq> None" "plain_id (item_id ?it)"
    using assms(2) True by (auto simp: handler_ok_def plain_ids_iff list_all_length)
  have client: ?thesis if b: "bind_panic (getOrCreateResource srv (item_id ?it)) (\<lambda>(srv', a).
      Inr (srv', h\<lparr>hd_items := drop_nth j (hd_items h), hd_pc := Collecting (Some (response_of ?it, a))\<rparr>)) = Inr (srv', h')"
  proof -
    obtain a where g: "getOrCreateResource srv (item_id ?it) = Inr (srv', a)"
      "h' = h\<lparr>hd_items := drop_nth j (hd_items h), hd_pc := Collecting (Some (response_of ?it, a))\<rparr>"
      using b by (cases "getOrCreateResource srv (item_id ?it)") (auto split: prod.splits)
    from getOrCreate_life [OF assms(1) item] g(1) have "grows srv srv'" by auto
    from owed_grows [OF this assms(2)] assms(3) True g(2) ids resp show ?thesis
      by (simp add: accounted_def owed_def)
  qed
  show ?thesis
  proof (cases "hd_call h")
    case (OnGetServerCapacity q)
    then obtain a where "srv_lookup srv (item_id ?it) = Some a" using assms(4) True
      by (cases "srv_lookup srv (item_id ?it)") (auto simp: receive_step_def collect_server_item_def Let_def)
    with OnGetServerCapacity assms(3,4) True ids show ?thesis
      by (auto simp: receive_step_def collect_server_item_def accounted_def owed_def out_id_def
          ServerCapacityResourceResponse_GetResourceId_def Let_def)
  qed (use client assms(4) True in \<open>simp_all add: receive_step_def Let_def\<close>)
qed (use assms(3,4) in \<open>auto simp: receive_step_def\<close>)

text \<open>All calls of a world, through one event and through a run.\<close>

definition all_accounted :: "world \<Rightarrow> bool" where
  "all_accounted w = list_all (accounted (wd_srv w)) (wd_calls w)"

fun arrivals :: "world_event list \<Rightarrow> remote_call list" where
  "arrivals [] = []"
| "arrivals (e # es) = (case e of Arrive q \<Rightarrow> q # arrivals es | _ \<Rightarrow> arrivals es)"

text \<open>The contract of an action of a call: it is safe, and it keeps the accounts of its handler. Whatever
  keeps it keeps the accounts of all calls of a world.\<close>

locale call_action =
  fixes f :: "Server \<Rightarrow> handler \<Rightarrow> panic + Server \<times> handler"
  assumes safe: "life_ok srv \<Longrightarrow> plain_heap srv \<Longrightarrow> handler_ok srv h \<Longrightarrow> safe_step srv h (f srv h)"
    and accounts: "life_ok srv \<Longrightarrow> handler_ok srv h \<Longrightarrow> accounted srv h \<Longrightarrow> f srv h = Inr (srv', h') \<Longrightarrow>
      accounted srv' h' \<and> hd_call h' = hd_call h"
begin

lemma step_accounted:
  assumes "world_ok w" and "all_accounted w" and "step_handler f k w = Inr w'"
  shows "all_accounted w' \<and> map hd_call (wd_calls w') = map hd_call (wd_calls w)"
proof (cases "k < length (wd_calls w)")
  case True
  then obtain srv h where f: "f (wd_srv w) (wd_calls w ! k) = Inr (srv, h)"
    and w': "w' = \<lparr>wd_srv = srv, wd_calls = (wd_calls w)[k := h]\<rparr>"
    using assms(3) by (auto simp: step_handler_def)
  have ok: "life_ok (wd_srv w)" "plain_heap (wd_srv w)" using assms(1) by (simp_all add: world_ok_def)
  have h: "handler_ok (wd_srv w) (wd_calls w ! i)" "accounted (wd_srv w) (wd_calls w ! i)" if "i < length (wd_calls w)" for i
    using assms(1,2) that by (simp_all add: world_ok_def all_accounted_def list_all_length)
  have g: "grows (wd_srv w) srv" using safe [OF ok h(1) [OF True]] by (simp add: f safe_step_Inr)
  have others: "accounted srv (wd_calls w ! i)" if "i < length (wd_calls w)" for i
    using accounted_grows [OF g h [OF that]] .
  note own = accounts [OF ok(1) h [OF True] f]
  have "map hd_call ((wd_calls w)[k := h]) = map hd_call (wd_calls w)"
    using own True by (simp add: map_update list_update_same_conv)
  then show ?thesis using own others True w' by (auto simp: all_accounted_def list_all_length nth_list_update)
qed (use assms(2,3) in \<open>simp add: step_handler_def\<close>)

end

interpretation own_step: call_action handler_step
  by unfold_locales (auto intro: handler_step_safe dest: handler_step_accounted)

interpretation goroutine: call_action "goroutine_step j clk" for j clk
  by unfold_locales (auto intro: goroutine_step_safe dest: goroutine_step_accounted)

interpretation receive: call_action "receive_step j" for j
  by unfold_locales (auto intro: receive_step_safe dest: receive_step_accounted)

lemma accounted_new: "accounted srv (new_handler q)" "hd_call (new_handler q) = q"
  by (simp_all add: accounted_def new_handler_def)

lemma world_step_accounted:
  assumes "world_ok w" and "event_fine unmarshal e" and "all_accounted w" and "world_step unmarshal run_err e w = Inr w'"
  shows "all_accounted w' \<and> map hd_call (wd_calls w') = map hd_call (wd_calls w) @ arrivals [e]"
proof -
  have l: "life_ok (wd_srv w)" "plain_heap (wd_srv w)" using assms(1) by (simp_all add: world_ok_def)
  show ?thesis
  proof (cases e)
    case (Arrive q)
    then have "w' = w\<lparr>wd_calls := wd_calls w @ [new_handler q]\<rparr>" using assms(4) by (simp add: world_step_def)
    with assms(3) Arrive show ?thesis by (simp add: all_accounted_def accounted_new)
  next
    case (Proceed k)
    with own_step.step_accounted [OF assms(1,3)] assms(4) show ?thesis by (simp add: world_step_def)
  next
    case (Decides k j clk)
    with goroutine.step_accounted [OF assms(1,3)] assms(4) show ?thesis by (simp add: world_step_def)
  next
    case (Receives k j)
    with receive.step_accounted [OF assms(1,3)] assms(4) show ?thesis by (simp add: world_step_def)
  next
    case (Background b)
    then have b: "background_ok unmarshal b" using assms(2) by (simp add: event_fine_def)
    obtain srv where s: "life_step unmarshal run_err b (wd_srv w) = Inr srv" "grows (wd_srv w) srv"
      using background_life [OF l(1) b] by blast
    then have "w' = w\<lparr>wd_srv := srv\<rparr>" using assms(4) Background by (simp add: world_step_def)
    moreover have "list_all (accounted srv) (wd_calls w)"
      using accounted_grows [OF s(2)] assms(1,3) by (simp add: world_ok_def all_accounted_def list_all_length)
    ultimately show ?thesis using Background by (simp add: all_accounted_def)
  qed
qed

lemma arrivals_Cons: "arrivals (e # es) = arrivals [e] @ arrivals es"
  by (cases e) simp_all

lemma world_run_accounted:
  "world_ok w \<Longrightarrow> list_all (event_fine unmarshal) es \<Longrightarrow> all_accounted w \<Longrightarrow> world_run unmarshal run_err es w = Inr w' \<Longrightarrow>
     all_accounted w' \<and> map hd_call (wd_calls w') = map hd_call (wd_calls w) @ arrivals es"
proof (induction es arbitrary: w)
  case (Cons e es)
  then obtain w1 where s: "world_step unmarshal run_err e w = Inr w1" "world_run unmarshal run_err es w1 = Inr w'"
    by auto
  from world_step_accounted [OF Cons.prems(1) _ Cons.prems(3) s(1)]
    world_step_safe [OF Cons.prems(1), of unmarshal e run_err] Cons.prems(2) s
    Cons.IH [of w1] show ?case by (cases e) simp_all
qed simp

section \<open>Progress\<close>

text \<open>The events of one call, and a measure of the work it has left.\<close>

definition event_of :: "nat \<Rightarrow> world_event \<Rightarrow> bool" where
  "event_of k e = (case e of Proceed i \<Rightarrow> i = k | Decides i j clk \<Rightarrow> i = k | Receives i j \<Rightarrow> i = k | _ \<Rightarrow> False)"

definition work_left :: "handler \<Rightarrow> nat" where
  "work_left h = 3 * length (hd_pool h) + 2 * length (hd_items h) +
     (case hd_pc h of
        Entered \<Rightarrow> 4 * size (asked_ids (hd_call h)) + 3
      | Looking creqs \<Rightarrow> 4 * length creqs + 2
      | Collecting None \<Rightarrow> 1
      | Collecting (Some _) \<Rightarrow> 2
      | Finished _ \<Rightarrow> 0
      | _ \<Rightarrow> 1)"

lemma safe_alive:
  assumes "safe_step srv h r" and "alive srv h"
  obtains srv' h' where "r = Inr (srv', h')" "alive srv' h'"
  using assms by (cases r) (auto simp: safe_step_def)

lemma start_call_work: "start_call q = Looking creqs \<Longrightarrow> length creqs = size (asked_ids q)"
  using start_call_ids [of q creqs] by (metis length_map size_mset)

text \<open>A call that has passed its check ends with leases.\<close>

definition granting :: "handler \<Rightarrow> bool" where
  "granting h = (case hd_pc h of Looking _ \<Rightarrow> True | Collecting _ \<Rightarrow> True | Finished (Leases _) \<Rightarrow> True | _ \<Rightarrow> False)"

lemma handler_granting:
  assumes "f \<in> {handler_step, goroutine_step j clk, receive_step i}" and "f srv h = Inr (srv', h')" and "granting h"
  shows "granting h'"
proof -
  have "handler_step srv h = Inr (srv', h') \<Longrightarrow> granting h'"
  proof (cases "hd_pc h")
    case (Looking creqs)
    then show "handler_step srv h = Inr (srv', h') \<Longrightarrow> granting h'"
      by (cases creqs) (auto simp: handler_step_def granting_def)
  next
    case (Collecting cur)
    then show "handler_step srv h = Inr (srv', h') \<Longrightarrow> granting h'"
      by (cases cur) (auto simp: handler_step_def granting_def)
  qed (use assms(3) in \<open>auto simp: handler_step_def granting_def\<close>)
  moreover have "goroutine_step j clk srv h = Inr (srv', h') \<Longrightarrow> granting h'"
    using assms(3) by (auto simp: goroutine_step_def granting_def split: if_splits)
  moreover have "receive_step i srv h = Inr (srv', h') \<Longrightarrow> granting h'"
    using assms(3) by (cases "hd_call h") (auto simp: receive_step_def granting_def Let_def split: if_splits)
  ultimately show ?thesis using assms(1,2) by auto
qed

lemma handler_progress:
  assumes "life_ok srv" and "plain_heap srv" and "handler_ok srv h" and "alive srv h" and "\<nexists>ans. hd_pc h = Finished ans"
  shows "\<exists>f srv' h'. f \<in> {handler_step, goroutine_step 0 clk, receive_step 0} \<and> f srv h = Inr (srv', h') \<and>
    work_left h' < work_left h"
proof -
  have "\<exists>srv' h'. goroutine_step 0 clk srv h = Inr (srv', h') \<and> work_left h' < work_left h"
    if "hd_pool h \<noteq> []"
  proof -
    obtain srv' h' where r: "goroutine_step 0 clk srv h = Inr (srv', h')"
      by (rule safe_alive [OF goroutine_step_safe [OF assms(1,2,3)] assms(4)])
    with that have "work_left h' < work_left h"
      by (cases "hd_pool h") (auto simp: goroutine_step_def drop_nth_def work_left_def split: handler_pc.splits option.splits)
    with r show ?thesis by blast
  qed
  moreover have "\<exists>srv' h'. receive_step 0 srv h = Inr (srv', h') \<and> work_left h' < work_left h"
    if i: "hd_pc h = Collecting None" "hd_items h \<noteq> []"
  proof -
    obtain srv' h' where r: "receive_step 0 srv h = Inr (srv', h')"
      by (rule safe_alive [OF receive_step_safe [OF assms(1,3)] assms(4)])
    with i have "work_left h' < work_left h"
      by (cases "hd_items h"; cases "hd_call h")
        (auto simp: receive_step_def drop_nth_def work_left_def Let_def split: sum.splits prod.splits)
    with r show ?thesis by blast
  qed
  moreover have "\<exists>srv' h'. handler_step srv h = Inr (srv', h') \<and> work_left h' < work_left h"
    if w: "hd_pc h = Collecting None \<longrightarrow> hd_pool h = [] \<and> hd_items h = []"
  proof -
    obtain srv' h' where r: "handler_step srv h = Inr (srv', h')"
      by (rule safe_alive [OF handler_step_safe [OF assms(1,3)] assms(4)])
    have "work_left h' < work_left h"
    proof (cases "hd_pc h")
      case Entered
      with r start_call_shape [of "hd_call h"] start_call_work [of "hd_call h"] show ?thesis
        by (auto simp: handler_step_def work_left_def split: if_splits)
    next
      case (Looking creqs)
      with r show ?thesis by (cases creqs) (auto simp: handler_step_def work_left_def)
    next
      case (Collecting cur)
      with r w show ?thesis by (cases cur) (auto simp: handler_step_def work_left_def)
    qed (use r assms(5) in \<open>auto simp: handler_step_def work_left_def\<close>)
    with r show ?thesis by blast
  qed
  ultimately show ?thesis by blast
qed

lemma event_of_fine: "event_of k e \<Longrightarrow> event_fine unmarshal e" "event_of k e \<Longrightarrow> told [e] = []"
  by (auto simp: event_of_def event_fine_def split: world_event.splits)

text \<open>One event of a call whose work is not done, with the others where they were.\<close>

lemma own_progress:
  assumes "world_ok w" and "list_all (alive (wd_srv w)) (wd_calls w)" and "k < length (wd_calls w)"
    and "\<nexists>ans. hd_pc (wd_calls w ! k) = Finished ans"
  obtains e w' h' where "event_of k e" "world_step unmarshal run_err e w = Inr w'" "wd_calls w' = (wd_calls w)[k := h']"
    "work_left h' < work_left (wd_calls w ! k)" "granting (wd_calls w ! k) \<longrightarrow> granting h'" "world_ok w'" "list_all (alive (wd_srv w')) (wd_calls w')"
proof -
  have ok: "life_ok (wd_srv w)" "plain_heap (wd_srv w)" "handler_ok (wd_srv w) (wd_calls w ! k)" "alive (wd_srv w) (wd_calls w ! k)"
    using assms(1-3) by (simp_all add: world_ok_def list_all_length)
  obtain f srv' h' where f: "f \<in> {handler_step, goroutine_step 0 clk, receive_step 0}"
    "f (wd_srv w) (wd_calls w ! k) = Inr (srv', h')" "work_left h' < work_left (wd_calls w ! k)"
    using handler_progress [OF ok assms(4)] by blast
  define w' where "w' = \<lparr>wd_srv = srv', wd_calls = (wd_calls w)[k := h']\<rparr>"
  have "step_handler f k w = Inr w'" using f(2) assms(3) by (simp add: step_handler_def w'_def)
  with f(1) have "\<exists>e. event_of k e \<and> world_step unmarshal run_err e w = Inr w'"
    by (auto intro: exI [of _ "Proceed k"] exI [of _ "Decides k 0 clk"] exI [of _ "Receives k 0"]
        simp: event_of_def world_step_def)
  then obtain e where e: "event_of k e" "world_step unmarshal run_err e w = Inr w'" by blast
  from world_step_safe [OF assms(1) event_of_fine(1) [OF e(1)], of unmarshal run_err] e(2) assms(2) event_of_fine(2) [OF e(1)]
  have "world_ok w'" "list_all (alive (wd_srv w')) (wd_calls w')" by (simp_all add: no_loss_def)
  with that e f(3) handler_granting [OF f(1,2)] show thesis by (simp add: w'_def)
qed

lemma call_returns:
  assumes "world_ok w" and "list_all (alive (wd_srv w)) (wd_calls w)" and "k < length (wd_calls w)"
  shows "\<exists>es w' h'. list_all (event_of k) es \<and> length es \<le> work_left (wd_calls w ! k) \<and>
    world_run unmarshal run_err es w = Inr w' \<and> wd_calls w' = (wd_calls w)[k := h'] \<and> (\<exists>ans. hd_pc h' = Finished ans) \<and>
    (granting (wd_calls w ! k) \<longrightarrow> granting h')"
  using assms
proof (induction "work_left (wd_calls w ! k)" arbitrary: w rule: less_induct)
  case less
  show ?case
  proof (cases "\<exists>ans. hd_pc (wd_calls w ! k) = Finished ans")
    case True
    then have "list_all (event_of k) [] \<and> length [] \<le> work_left (wd_calls w ! k) \<and> world_run unmarshal run_err [] w = Inr w \<and>
        wd_calls w = (wd_calls w)[k := wd_calls w ! k] \<and> (\<exists>ans. hd_pc (wd_calls w ! k) = Finished ans) \<and> (granting (wd_calls w ! k) \<longrightarrow> granting (wd_calls w ! k))" by simp
    then show ?thesis by blast
  next
    case False
    obtain e w1 h1 where 1: "event_of k e" "world_step unmarshal run_err e w = Inr w1" "wd_calls w1 = (wd_calls w)[k := h1]"
      "work_left h1 < work_left (wd_calls w ! k)" "granting (wd_calls w ! k) \<longrightarrow> granting h1" "world_ok w1" "list_all (alive (wd_srv w1)) (wd_calls w1)"
      using own_progress [OF less.prems False] by blast
    have w1: "wd_calls w1 ! k = h1" "k < length (wd_calls w1)" using 1(3) less.prems(3) by simp_all
    obtain es w' h' where "list_all (event_of k) es" "length es \<le> work_left h1" "world_run unmarshal run_err es w1 = Inr w'"
      "wd_calls w' = (wd_calls w)[k := h']" "\<exists>ans. hd_pc h' = Finished ans" "granting h1 \<longrightarrow> granting h'"
      using less.hyps [of w1] 1(3-7) w1 by auto
    with 1(1,2,4,5) have "list_all (event_of k) (e # es) \<and> length (e # es) \<le> work_left (wd_calls w ! k) \<and>
        world_run unmarshal run_err (e # es) w = Inr w' \<and> wd_calls w' = (wd_calls w)[k := h'] \<and> (\<exists>ans. hd_pc h' = Finished ans) \<and>
        (granting (wd_calls w ! k) \<longrightarrow> granting h')"
      by simp
    then show ?thesis by blast
  qed
qed

lemma work_bound:
  assumes "accounted srv h" and "\<nexists>ans. hd_pc h = Finished ans"
  shows "work_left h \<le> 4 * size (asked_ids (hd_call h)) + 3"
proof -
  have "size (asked_ids (hd_call h)) = length (hd_pool h) + length (hd_items h) + length (hd_out h) +
      (case hd_pc h of Looking creqs \<Rightarrow> length creqs | Collecting (Some p) \<Rightarrow> 1 | _ \<Rightarrow> 0)"
    if "case hd_pc h of Looking _ \<Rightarrow> True | Collecting _ \<Rightarrow> True | _ \<Rightarrow> False"
  proof -
    have "owed srv h + image_mset out_id (mset (hd_out h)) = asked_ids (hd_call h)"
      using that assms(1) by (simp add: accounted_def split: handler_pc.splits)
    from arg_cong [OF this, of size] show ?thesis
      using that by (simp add: owed_def split: handler_pc.splits option.splits prod.splits)
  qed
  then show ?thesis
    using assms by (cases "hd_pc h") (auto simp: work_left_def accounted_def split: option.splits)
qed

text \<open>The example's call gets to its answer.\<close>

lemma example_answer:
  obtains dm es w h out where "NewIntermediate ''s'' '''' (Inl '''') None = Inr (Inr dm)"
    "list_all (event_fine example_unmarshal) (example_start @ Proceed 0 # es)" "list_all (event_of 0) es"
    "world_run example_unmarshal None (example_start @ Proceed 0 # es) (new_world dm) = Inr w" "wd_calls w = [h]"
    "hd_pc h = Finished (Leases out)"
proof -
  obtain dm srv where dm: "NewIntermediate ''s'' '''' (Inl '''') None = Inr (Inr dm)"
    and run: "world_run example_unmarshal None example_start (new_world dm) =
       Inr \<lparr>wd_srv = handleElectionOutcome 10 True srv, wd_calls = [new_handler (OnGetCapacity example_query)]\<rparr>"
    by (rule example_start_run)
  let ?h = "(new_handler (OnGetCapacity example_query))\<lparr>hd_pc := Looking (client_requests example_query)\<rparr>"
  let ?w = "\<lparr>wd_srv = handleElectionOutcome 10 True srv, wd_calls = [?h]\<rparr>"
  have "srv_isMaster (handleElectionOutcome 10 True srv)" by (simp add: handleElectionOutcome_def)
  then have 1: "world_run example_unmarshal None (example_start @ [Proceed 0]) (new_world dm) = Inr ?w"
    by (simp add: world_run_append run world_step_def step_handler_def handler_step_def new_handler_def
        start_call_def IsMaster_def)
  have fine: "list_all (event_fine example_unmarshal) (example_start @ [Proceed 0])" "told (example_start @ [Proceed 0]) = [True]"
    using example_start_fine by (simp_all add: event_fine_def example_start_def)
  have "world_ok ?w" "list_all (alive (wd_srv ?w)) (wd_calls ?w)"
    using new_world_run [OF dm fine(1) 1] fine(2) by simp_all
  from call_returns [OF this, of 0 example_unmarshal None] obtain es w h ans where
    2: "list_all (event_of 0) es" "world_run example_unmarshal None es ?w = Inr w" "wd_calls w = [h]" "hd_pc h = Finished ans"
      "granting h"
    by (auto simp: granting_def)
  from 2(4,5) obtain out where "hd_pc h = Finished (Leases out)" by (auto simp: granting_def split: answer.splits)
  moreover from 2(1) have "list_all (event_fine example_unmarshal) (example_start @ Proceed 0 # es)"
    using fine(1) event_of_fine(1) by (auto simp: list_all_iff)
  moreover have "world_run example_unmarshal None (example_start @ Proceed 0 # es) (new_world dm) = Inr w"
    using 1 2(2) world_run_append [of _ _ "example_start @ [Proceed 0]" es] by simp
  ultimately show thesis using that [OF dm] 2(1,3) by blast
qed

section \<open>Properties\<close>

text \<open>C10. Whatever else goes on, a call that ends with leases has answered every resource that it was asked
  for exactly once: in a run from a new server that does not panic, handlers are the calls in the
  order of their arrival, and those that have finished with leases have answered what was asked.\<close>

theorem overlap_answers:
  assumes "NewIntermediate i '''' dial run_err = Inr (Inr dm)" and "list_all (event_fine unmarshal) es"
    and "world_run unmarshal run_err es (new_world dm) = Inr w"
  shows "map hd_call (wd_calls w) = arrivals es \<and>
    (\<forall>h out. h \<in> set (wd_calls w) \<longrightarrow> hd_pc h = Finished (Leases out) \<longrightarrow>
       image_mset out_id (mset out) = asked_ids (hd_call h))"
  using world_run_accounted [OF new_world_ok [OF assms(1)] assms(2) _ assms(3)]
  by (auto simp: new_world_def all_accounted_def accounted_def list_all_iff split: handler_pc.splits)

theorem overlap_answers_witness:
  "\<exists>dm es w h out. NewIntermediate ''s'' '''' (Inl '''') None = Inr (Inr dm) \<and> list_all (event_of 0) es \<and>
     world_run example_unmarshal None (example_start @ Proceed 0 # es) (new_world dm) = Inr w \<and> wd_calls w = [h] \<and>
     hd_pc h = Finished (Leases out) \<and> image_mset out_id (mset out) = {#''r''#}"
proof -
  obtain dm es w h out where e: "NewIntermediate ''s'' '''' (Inl '''') None = Inr (Inr dm)"
    "list_all (event_fine example_unmarshal) (example_start @ Proceed 0 # es)" "list_all (event_of 0) es"
    "world_run example_unmarshal None (example_start @ Proceed 0 # es) (new_world dm) = Inr w" "wd_calls w = [h]"
    "hd_pc h = Finished (Leases out)"
    by (rule example_answer)
  have "arrivals (example_start @ Proceed 0 # es) = [OnGetCapacity example_query]"
  proof -
    have "arrivals es = []" using e(3) by (induction es) (auto simp: event_of_def split: world_event.splits)
    then show ?thesis by (simp add: example_start_def)
  qed
  with overlap_answers [OF e(1,2,4)] e(5,6) have "image_mset out_id (mset out) = asked_ids (OnGetCapacity example_query)"
    by simp
  then have "image_mset out_id (mset out) = {#''r''#}"
    by (simp add: asked_ids_def requested_def example_query_def ask_def ResourceRequest_GetResourceId_def)
  with e show ?thesis by blast
qed

text \<open>C12. A call always gets to its answer while mastership is not lost: in every state reached without a
  loss, each call has a continuation, of its own events alone and at most four for each resource that
  it was asked for and three more, that ends it and leaves the others where they are.\<close>

theorem overlap_call_returns:
  assumes "NewIntermediate i '''' dial run_err = Inr (Inr dm)" and "list_all (event_fine unmarshal) es"
    and "world_run unmarshal run_err es (new_world dm) = Inr w" and "told es \<in> {[], [True]}" and "k < length (wd_calls w)"
  shows "\<exists>es' w' h. list_all (event_of k) es' \<and> length es' \<le> 4 * size (asked_ids (hd_call (wd_calls w ! k))) + 3 \<and>
    world_run unmarshal run_err (es @ es') (new_world dm) = Inr w' \<and> wd_calls w' = (wd_calls w)[k := h] \<and>
    (\<exists>ans. hd_pc h = Finished ans \<and> (granting (wd_calls w ! k) \<longrightarrow> (\<exists>out. ans = Leases out)))"
proof (cases "\<exists>ans. hd_pc (wd_calls w ! k) = Finished ans")
  case True
  then show ?thesis using assms(3)
    by (intro exI [of _ "[]"] exI [of _ w] exI [of _ "wd_calls w ! k"]) (auto simp: granting_def split: answer.splits)
next
  case False
  note ok = new_world_run [OF assms(1-3)]
  have "all_accounted w"
    using world_run_accounted [OF new_world_ok [OF assms(1)] assms(2) _ assms(3)]
    by (simp add: new_world_def all_accounted_def)
  then have "accounted (wd_srv w) (wd_calls w ! k)" using assms(5) by (simp add: all_accounted_def list_all_length)
  note bound = work_bound [OF this False]
  obtain es' w' h ans where "list_all (event_of k) es'" "length es' \<le> work_left (wd_calls w ! k)"
    "world_run unmarshal run_err es' w = Inr w'" "wd_calls w' = (wd_calls w)[k := h]" "hd_pc h = Finished ans"
    "granting (wd_calls w ! k) \<longrightarrow> granting h"
    using call_returns [OF ok(1) ok(2) [OF assms(4)] assms(5), of unmarshal run_err] by blast
  with bound show ?thesis
    by (intro exI [of _ es'] exI [of _ w'] exI [of _ h])
      (auto simp: world_run_append assms(3) granting_def split: answer.splits)
qed

theorem overlap_call_returns_witness:
  "\<exists>dm es' w'. NewIntermediate ''s'' '''' (Inl '''') None = Inr (Inr dm) \<and> list_all (event_of 0) es' \<and> length es' \<le> 7 \<and>
     world_run example_unmarshal None (example_start @ es') (new_world dm) = Inr w' \<and>
     (\<exists>ans. hd_pc (wd_calls w' ! 0) = Finished ans)"
proof -
  obtain dm srv where dm: "NewIntermediate ''s'' '''' (Inl '''') None = Inr (Inr dm)"
    and run: "world_run example_unmarshal None example_start (new_world dm) =
       Inr \<lparr>wd_srv = handleElectionOutcome 10 True srv, wd_calls = [new_handler (OnGetCapacity example_query)]\<rparr>"
    by (rule example_start_run)
  have asked: "size (asked_ids (hd_call (new_handler (OnGetCapacity example_query)))) = 1"
    by (simp add: new_handler_def asked_ids_def requested_def example_query_def)
  from overlap_call_returns [OF dm example_start_fine(1) run, of 0] example_start_fine(2) asked
  obtain es' w' h ans where "list_all (event_of 0) es'" "length es' \<le> 7"
    "world_run example_unmarshal None (example_start @ es') (new_world dm) = Inr w'" "wd_calls w' = [h]" "hd_pc h = Finished ans"
    by auto
  then show ?thesis using dm by (intro exI [of _ dm] exI [of _ es'] exI [of _ w']) simp
qed

end
