(* ===== verification/Overlap_Capacity.thy ===== *)
theory Overlap_Capacity
  imports Overlap_Answers Algorithm_Limits
begin

text \<open>
  The capacity bound when calls overlap: whatever the interleaving of calls, releases and elections,
  a resource with a sharing algorithm never hands out more than its capacity, once it is past its
  learning mode.
\<close>

section \<open>Sound resources\<close>

text \<open>The clients that may ask for capacity, with the most subclients that each of them may have:
  together they do not come near an overflow of the counters.\<close>

type_synonym population = "(string \<times> int) list"

definition population_ok :: "population \<Rightarrow> bool" where
  "population_ok u = (distinct_keys u \<and> list_all (\<lambda>(c, n). 1 \<le> n) u \<and> sum_list (map snd u) < 2 ^ 62)"

definition belongs :: "population \<Rightarrow> string \<Rightarrow> int \<Rightarrow> bool" where
  "belongs u c n = (case map_of u c of None \<Rightarrow> False | Some m \<Rightarrow> 1 \<le> n \<and> n \<le> m)"

text \<open>A lease of a client that belongs to the population, with an amount that is not negative.\<close>

definition sound_entry :: "population \<Rightarrow> string \<times> Lease \<Rightarrow> bool" where
  "sound_entry u e = (case e of (c, l) \<Rightarrow> belongs u c (n_of l) \<and> 0 \<le> fval (lease_Has l))"

definition sound :: "population \<Rightarrow> Resource \<Rightarrow> bool" where
  "sound u res = (resource_ok res \<and> list_all (sound_entry u) (ls_leases (res_store res)) \<and> within_capacity res)"

definition resource_sound :: "population \<Rightarrow> Resource \<Rightarrow> bool" where
  "resource_sound u res = (sharing_resource res \<longrightarrow> sound u res)"

definition fair_request :: "population \<Rightarrow> Request \<Rightarrow> bool" where
  "fair_request u r = (belongs u (req_Client r) (sint (req_Subclients r)) \<and>
     (case req_Wants r of Fin w \<Rightarrow> 0 \<le> w | _ \<Rightarrow> False))"

lemma population_nonneg: "list_all (\<lambda>(c, n). (1 :: int) \<le> n) u \<Longrightarrow> 0 \<le> sum_list (map snd u)"
  by (induction u) auto

lemma all_map_del: "list_all P m \<Longrightarrow> list_all P (map_del m k)"
  using set_map_del [of k m] by (auto simp: list_all_iff)

lemma population_bounds:
  assumes "population_ok u" and "map_of u c = Some n"
  shows "1 \<le> n" and "n < 2 ^ 62"
proof -
  have u: "distinct_keys u" "list_all (\<lambda>(c, n). 1 \<le> n) u" "sum_list (map snd u) < 2 ^ 62"
    using assms(1) by (simp_all add: population_ok_def)
  show "1 \<le> n" using u(2) map_of_SomeD [OF assms(2)] by (auto simp: list_all_iff)
  show "n < 2 ^ 62"
    using sum_map_del [OF u(1) assms(2), of snd] population_nonneg [OF all_map_del [OF u(2)], of c] u(3) by simp
qed

lemma subclients_le:
  "distinct_keys u \<Longrightarrow> list_all (\<lambda>(c, n). 1 \<le> n) u \<Longrightarrow> distinct_keys es \<Longrightarrow> list_all (\<lambda>(c, l). belongs u c (n_of l)) es \<Longrightarrow>
     int_subclients es \<le> sum_list (map snd u)"
proof (induction es arbitrary: u)
  case Nil
  then show ?case using population_nonneg by simp
next
  case (Cons e es)
  obtain c l where e: "e = (c, l)" by force
  obtain m where m: "map_of u c = Some m" "n_of l \<le> m"
    using Cons.prems(4) by (auto simp: e belongs_def split: option.splits)
  have "int_subclients es \<le> sum_list (map snd (map_del u c))"
  proof (rule Cons.IH)
    show "list_all (\<lambda>(d, l). belongs (map_del u c) d (n_of l)) es"
      using Cons.prems(1,3,4) by (force simp: e list_all_iff belongs_def map_of_del)
  qed (use Cons.prems in \<open>auto intro: distinct_keys_del all_map_del\<close>)
  with sum_map_del [OF Cons.prems(1) m(1), of snd] m(2) show ?case by (simp add: e int_subclients_def)
qed

lemma sound_counts:
  assumes "population_ok u" and "sound u res" and "fair_request u r"
  shows "counts_ok (res_store res) r"
proof -
  have d: "distinct_keys (ls_leases (res_store res))"
    using assms(2) by (auto simp: sound_def resource_ok_def intro: impl.ok_distinct)
  have b: "list_all (\<lambda>(c, l). belongs u c (n_of l)) (ls_leases (res_store res))"
    using assms(2) by (auto simp: sound_def sound_entry_def list_all_iff)
  have "int_subclients (ls_leases (res_store res)) < 2 ^ 62"
    using subclients_le [OF _ _ d b] assms(1) by (auto simp: population_ok_def)
  moreover have "1 \<le> sint (req_Subclients r) \<and> sint (req_Subclients r) < 2 ^ 62"
    using assms(3) population_bounds [OF assms(1)] by (fastforce simp: fair_request_def belongs_def split: option.splits)
  ultimately show ?thesis
    using b by (auto simp: counts_ok_def list_all_iff belongs_def split: option.splits)
qed

lemma sound_total:
  assumes "sound u res" and "ResourceTemplate_GetCapacity (res_config res) = Fin cap"
  shows "total_has (ls_leases (res_store res)) \<le> cap"
  using assms by (auto simp: sound_def within_capacity_def resource_ok_def store_ok_def store_SumHas_def)

lemma sharing_store [simp]: "sharing_resource (res\<lparr>res_store := s\<rparr>) = sharing_resource res"
  by (simp add: sharing_resource_def split: option.split f64.split)

lemma total_has_sublist:
  "list_all (sound_entry u) es \<Longrightarrow> total_has (filter P es) \<le> total_has es"
  by (induction es) (auto simp: total_has_def sound_entry_def)

lemma total_has_del_le:
  assumes "distinct_keys es" and "list_all (sound_entry u) es"
  shows "total_has (map_del es c) \<le> total_has es"
proof -
  have "0 \<le> fval (lease_Has (lease_of es c))"
    using assms(2) by (fastforce simp: lease_of_def list_all_iff sound_entry_def split: option.splits dest: map_of_SomeD)
  with total_has_del [OF assms(1)] show ?thesis by simp
qed

text \<open>A decision past learning mode, and a release, keep a resource sound.\<close>

lemma sound_Decide:
  assumes "population_ok u" and "sound u res" and "sharing_resource res" and "fair_request u r"
    and "\<not> in_learning_mode res (at_mode clk)" and "resource_Decide res clk r = Inr (res', l)"
  shows "sound u res'"
proof -
  obtain tpl cap where tpl: "res_config res = Some tpl"
    "Algorithm_GetKind (tpl_Algorithm tpl) \<in> {Algorithm_FAIR_SHARE, Algorithm_PROPORTIONAL_SHARE}"
    "res_expiryTime res = None" "ResourceTemplate_GetCapacity (Some tpl) = Fin cap" "0 \<le> cap"
    using assms(3) by (auto simp: sharing_resource_def split: option.splits f64.splits)
  have ok: "resource_ok res" and entries: "list_all (sound_entry u) (ls_leases (res_store res))"
    using assms(2) by (simp_all add: sound_def)
  obtain alg where alg: "GetAlgorithm (tpl_Algorithm tpl) = Inr alg" "res_algorithm res = Some alg"
    using ok tpl(1) by (auto simp: resource_ok_def elim: configuredE)
  from alg(1) have kind: "alg = FairShare (tpl_Algorithm tpl) \<or> alg = ProportionalShare (tpl_Algorithm tpl)"
    by (cases rule: GetAlgorithm_cases) (use tpl(2) in \<open>simp_all add: Algorithm_Kind_defs\<close>)
  have cap: "resource_capacity res (at_capacity clk) = Fin cap" using tpl by (simp add: resource_capacity_def)
  obtain w where w: "req_Wants r = Fin w" "0 \<le> w" using assms(4) by (auto simp: fair_request_def split: f64.splits)
  note counts = sound_counts [OF assms(1,2,4)]
  let ?s = "fst (store_Clean (res_store res) (at_clean clk))"
  have store: "store_ok (res_store res)" using ok by (simp add: resource_ok_def)
  note clean = impl.ok_clean [OF store, of "at_clean clk"] counts_ok_clean [OF store counts, of "at_clean clk"]
  obtain s where s: "res' = res\<lparr>res_store := s\<rparr>" "(s, l) = alg ?s (at_assign clk) (Fin cap) r" "store_ok s"
    "store_SumHas s \<le> Fin cap"
    using Decide_sharing [OF ok assms(5) tpl(1) alg(2) kind counts _ cap tpl(5)] w(1) assms(6) by auto
  have leases: "ls_leases s = map_put (live (at_clean clk) (ls_leases (res_store res))) (req_Client r) l"
    "lease_Subclients l = req_Subclients r"
    using Decide_effect [OF resource_ok_wf [OF ok] tpl(1), of clk r] assms(6) s(1)
    by (auto dest: arg_cong [where f = res_store])
  have d: "distinct_keys (ls_leases (res_store res))" using store by (rule impl.ok_distinct)
  have live: "list_all (sound_entry u) (live (at_clean clk) (ls_leases (res_store res)))"
    using entries by (auto simp: live_def list_all_iff)
  have "total_has (map_del (ls_leases ?s) (req_Client r)) \<le> total_has (live (at_clean clk) (ls_leases (res_store res)))"
    unfolding clean_live [OF d] by (rule total_has_del_le [OF distinct_keys_live [OF d] live])
  also have "\<dots> \<le> total_has (ls_leases (res_store res))"
    unfolding live_def by (rule total_has_sublist [OF entries])
  also have "\<dots> \<le> cap" by (rule sound_total [OF assms(2)]) (simp add: tpl(1,4))
  finally have "Fin 0 \<le> lease_Has (snd (alg ?s (at_assign clk) (Fin cap) r))"
    by (rule sharing_grant_nonneg [OF alg(1) tpl(2) clean w tpl(5)])
  then have "Fin 0 \<le> lease_Has l" by (simp flip: s(2))
  moreover have "isFinite (lease_Has l)"
  proof -
    have "map_of (ls_leases s) (req_Client r) = Some l" by (simp add: leases(1) map_of_put)
    from map_of_SomeD [OF this] s(3) show ?thesis by (auto simp: store_ok_def entries_ok_def list_all_iff finite_lease_def)
  qed
  ultimately have "sound_entry u (req_Client r, l)"
    using assms(4) leases(2) by (cases "lease_Has l") (auto simp: sound_entry_def fair_request_def)
  then have "list_all (sound_entry u) (ls_leases s)"
    using live set_map_put [of "req_Client r" l "live (at_clean clk) (ls_leases (res_store res))"]
    by (auto simp: leases list_all_iff)
  then show ?thesis using ok s tpl(1,4) by (simp add: sound_def resource_ok_def within_capacity_def)
qed

lemma sound_Release:
  assumes "sound u res" and "sharing_resource res"
  shows "sound u (res\<lparr>res_store := store_Release (res_store res) c\<rparr>)"
proof -
  have ok: "store_ok (res_store res)" "configured res" "list_all (sound_entry u) (ls_leases (res_store res))"
    using assms(1) by (simp_all add: sound_def resource_ok_def)
  have d: "distinct_keys (ls_leases (res_store res))" by (rule impl.ok_distinct [OF ok(1)])
  obtain cap where cap: "ResourceTemplate_GetCapacity (res_config res) = Fin cap"
    using assms(2) by (auto simp: sharing_resource_def split: option.splits f64.splits)
  let ?s = "store_Release (res_store res) c"
  have s: "store_ok ?s" by (rule impl.ok_release [OF ok(1)])
  have "total_has (ls_leases ?s) \<le> total_has (ls_leases (res_store res))"
    unfolding store_Release_leases by (rule total_has_del_le [OF d ok(3)])
  also have "\<dots> \<le> cap" by (rule sound_total [OF assms(1) cap])
  finally have "total_has (ls_leases ?s) \<le> cap" .
  then show ?thesis
    using s ok(2) all_map_del [OF ok(3)] cap d
    by (simp add: sound_def resource_ok_def within_capacity_def store_Release_leases)
      (simp add: store_ok_def store_SumHas_def store_Release_leases)
qed

section \<open>Sound worlds\<close>

definition call_fair :: "population \<Rightarrow> remote_call \<Rightarrow> bool" where
  "call_fair u q = (case start_call q of
       Looking creqs \<Rightarrow> list_all (\<lambda>creq. fair_request u (request_of creq)) creqs
     | _ \<Rightarrow> True)"

definition handler_fair :: "population \<Rightarrow> handler \<Rightarrow> bool" where
  "handler_fair u h = (list_all (\<lambda>(a, r). fair_request u r) (hd_pool h) \<and>
     (case hd_pc h of
        Entered \<Rightarrow> call_fair u (hd_call h)
      | Looking creqs \<Rightarrow> list_all (\<lambda>creq. fair_request u (request_of creq)) creqs
      | _ \<Rightarrow> True))"

definition heap_sound :: "population \<Rightarrow> Server \<Rightarrow> bool" where
  "heap_sound u srv = list_all (resource_sound u) (srv_heap srv)"

text \<open>The events of a run: no configuration is loaded any more, calls come from the population, and
  every decision is made when the resource is past its learning mode.\<close>

definition event_fair :: "population \<Rightarrow> world_event \<Rightarrow> bool" where
  "event_fair u e = (case e of Arrive q \<Rightarrow> call_fair u q | Background (Update up) \<Rightarrow> False | _ \<Rightarrow> True)"

definition ripe :: "world_event \<Rightarrow> world \<Rightarrow> bool" where
  "ripe e w = (case e of
       Decides k j clk \<Rightarrow> k < length (wd_calls w) \<longrightarrow> j < length (hd_pool (wd_calls w ! k)) \<longrightarrow>
         \<not> in_learning_mode (srv_heap (wd_srv w) ! fst (hd_pool (wd_calls w ! k) ! j)) (at_mode clk)
     | _ \<Rightarrow> True)"

fun ripe_run :: "(string \<Rightarrow> ResourceRepository option) \<Rightarrow> string option \<Rightarrow> world_event list \<Rightarrow> world \<Rightarrow> bool" where
  "ripe_run unmarshal run_err [] w = True"
| "ripe_run unmarshal run_err (e # es) w =
     (ripe e w \<and> (case world_step unmarshal run_err e w of Inl p \<Rightarrow> True | Inr w' \<Rightarrow> ripe_run unmarshal run_err es w'))"

lemma resource_sound_store:
  "resource_sound u res \<Longrightarrow> (sound u res \<Longrightarrow> sharing_resource res \<Longrightarrow> sound u (res\<lparr>res_store := s\<rparr>)) \<Longrightarrow>
     resource_sound u (res\<lparr>res_store := s\<rparr>)"
  by (simp add: resource_sound_def)

lemma heap_sound_write:
  "heap_sound u srv \<Longrightarrow> resource_sound u res \<Longrightarrow> heap_sound u (heap_write srv a res)"
  using set_update_subset_insert [of "srv_heap srv" a res] by (auto simp: heap_sound_def list_all_iff)

lemma fresh_sound:
  assumes "res_store res = NewLeaseStore i" and "resource_wf res"
  shows "resource_sound u res"
proof -
  have "store_ok (NewLeaseStore i)" by (rule store_ok_New)
  then show ?thesis
    using assms
    by (auto simp: resource_sound_def sound_def resource_ok_def resource_wf_def within_capacity_def NewLeaseStore_def
        sharing_resource_def store_SumHas_def split: option.splits f64.splits)
qed

lemma getOrCreate_sound:
  assumes "life_ok srv" and "srv_config srv \<noteq> None" and "heap_sound u srv" and "getOrCreateResource srv i = Inr (srv', a)"
  shows "heap_sound u srv'"
proof (cases "srv_lookup srv i")
  case None
  obtain config where c: "srv_config srv = Some config" "repo_serviceable config"
    using assms(1,2) by (auto simp: life_ok_def)
  from assms(4) None obtain tpl res m where t: "findConfigForResource srv i = Inr tpl" "newResource srv i (Some tpl) = Inr res"
    "srv_heap srv' = srv_heap srv @ [res]"
    by (auto simp: getOrCreateResource_def Let_def split: option.splits)
  have "serviceable tpl"
    using findConfig_selected [OF c(1) t(1)] c(2) by (auto simp: repo_serviceable_def list_all_iff selected_def)
  from newResource_serviceable [OF this, of srv i] t(2) have "resource_sound u res" by (auto intro: fresh_sound)
  with assms(3) t(3) show ?thesis by (simp add: heap_sound_def)
qed (use assms(3,4) in \<open>simp add: getOrCreateResource_def\<close>)

lemma release_loop_sound: "heap_sound u srv \<Longrightarrow> server_ok srv \<Longrightarrow> heap_sound u (release_loop c ids srv)"
proof (induction c ids srv rule: release_loop.induct)
  case (2 c i ids srv)
  show ?case
  proof (cases "srv_lookup srv i")
    case (Some a)
    let ?res = "(srv_heap srv ! a)\<lparr>res_store := store_Release (res_store (srv_heap srv ! a)) c\<rparr>"
    have a: "a < length (srv_heap srv)" "resource_wf (srv_heap srv ! a)"
      using server_ok_lookup [OF "2.prems"(2) Some] by auto
    have "resource_sound u (srv_heap srv ! a)" using "2.prems"(1) a(1) by (simp add: heap_sound_def list_all_length)
    then have "resource_sound u ?res" by (rule resource_sound_store) (rule sound_Release)
    from heap_sound_write [OF "2.prems"(1) this] have "heap_sound u (heap_write srv a ?res)" .
    moreover have "server_ok (heap_write srv a ?res)"
      using resource_wf_Release [OF a(2), of c]
      by (intro server_ok_heap_write [OF "2.prems"(2)]) (simp_all add: resource_Release_def)
    ultimately show ?thesis using "2.IH" Some by (simp add: Let_def)
  qed (use 2 in simp)
qed simp

section \<open>Runs\<close>

text \<open>What an action does to the resources and to its own handler.\<close>

definition fair_result :: "population \<Rightarrow> panic + Server \<times> handler \<Rightarrow> bool" where
  "fair_result u r = (case r of Inl p \<Rightarrow> True | Inr (srv, h) \<Rightarrow> heap_sound u srv \<and> handler_fair u h)"

lemma handler_step_fair:
  assumes "life_ok srv" and "handler_ok srv h" and "heap_sound u srv" and "handler_fair u h"
  shows "fair_result u (handler_step srv h)"
proof (cases "hd_pc h")
  case Entered
  then show ?thesis
    using assms(3,4) start_call_shape [of "hd_call h"]
    by (auto simp: fair_result_def handler_step_def handler_fair_def call_fair_def)
next
  case (Looking creqs)
  show ?thesis
  proof (cases creqs)
    case (Cons creq rest)
    have "srv_config srv \<noteq> None" using assms(2) Looking by (simp add: handler_ok_def)
    then show ?thesis
      using getOrCreate_sound [OF assms(1) _ assms(3), of "cr_resID creq"] Looking Cons assms(4)
      by (cases "getOrCreateResource srv (cr_resID creq)")
        (auto simp: fair_result_def handler_step_def handler_fair_def split: prod.splits)
  qed (use Looking assms(3,4) in \<open>simp add: fair_result_def handler_step_def handler_fair_def\<close>)
next
  case (Collecting cur)
  show ?thesis
  proof (cases cur)
    case (Some p)
    obtain resp a where p: "p = (resp, a)" by force
    show ?thesis
      using Collecting Some p assms(3,4)
      by (cases "SetSafeCapacity (srv_heap srv ! a) resp") (simp_all add: fair_result_def handler_step_def handler_fair_def)
  qed (use Collecting assms(3,4) in \<open>simp add: fair_result_def handler_step_def handler_fair_def\<close>)
next
  case Releasing
  then show ?thesis
    using assms(1,3,4) release_loop_sound
    by (auto simp: fair_result_def handler_step_def handler_fair_def release_call_def life_ok_def split: remote_call.split)
qed (use assms(3,4) in \<open>simp_all add: fair_result_def handler_step_def handler_fair_def\<close>)

lemma goroutine_step_fair:
  assumes "population_ok u" and "handler_ok srv h" and "heap_sound u srv" and "handler_fair u h"
    and "j < length (hd_pool h) \<Longrightarrow> \<not> in_learning_mode (srv_heap srv ! fst (hd_pool h ! j)) (at_mode clk)"
  shows "fair_result u (goroutine_step j clk srv h)"
proof (cases "j < length (hd_pool h)")
  case True
  obtain a r where ar: "hd_pool h ! j = (a, r)" by force
  have a: "a < length (srv_heap srv)" and r: "fair_request u r"
    using assms(2,4) True ar by (auto simp: handler_ok_def handler_fair_def list_all_length)
  have res: "resource_sound u (srv_heap srv ! a)" using assms(3) a by (simp add: heap_sound_def list_all_length)
  have fair: "handler_fair u (h\<lparr>hd_pool := drop_nth j (hd_pool h), hd_items := its\<rparr>)" for its
    using assms(4) by (cases "hd_pc h") (simp_all add: handler_fair_def list_all_drop_nth)
  show ?thesis
  proof (cases "resource_Decide (srv_heap srv ! a) clk r")
    case (Inr p)
    obtain res' l where p: "p = (res', l)" by force
    obtain s where s: "res' = (srv_heap srv ! a)\<lparr>res_store := s\<rparr>"
      using Inr p by (auto simp: resource_Decide_def Let_def split: option.splits prod.splits if_splits)
    have "resource_sound u res'"
      unfolding s by (rule resource_sound_store [OF res])
        (use sound_Decide [OF assms(1) _ _ r _ Inr [unfolded p]] assms(5) True ar s in auto)
    from heap_sound_write [OF assms(3) this] fair True ar Inr p show ?thesis
      by (simp add: fair_result_def goroutine_step_def run_goroutine_def)
  qed (use True ar in \<open>simp add: fair_result_def goroutine_step_def run_goroutine_def\<close>)
qed (use assms(3,4) in \<open>simp add: fair_result_def goroutine_step_def\<close>)

lemma receive_step_fair:
  assumes "life_ok srv" and "handler_ok srv h" and "heap_sound u srv" and "handler_fair u h"
  shows "fair_result u (receive_step j srv h)"
proof (cases "hd_pc h = Collecting None \<and> j < length (hd_items h)")
  case True
  have "srv_config srv \<noteq> None" using assms(2) True by (simp add: handler_ok_def)
  then have client: "fair_result u (bind_panic (getOrCreateResource srv i) (\<lambda>(srv', a).
      Inr (srv', h\<lparr>hd_items := its, hd_pc := Collecting (Some (resp, a))\<rparr>)))" for i its resp
    using getOrCreate_sound [OF assms(1) _ assms(3), of i] assms(4) True
    by (cases "getOrCreateResource srv i") (auto simp: fair_result_def handler_fair_def split: prod.splits)
  show ?thesis
    using client True assms(3,4)
    by (cases "hd_call h"; cases "srv_lookup srv (item_id (hd_items h ! j))")
      (simp_all add: receive_step_def collect_server_item_def fair_result_def handler_fair_def Let_def)
qed (use assms(3,4) in \<open>auto simp: fair_result_def receive_step_def\<close>)

definition world_fair :: "population \<Rightarrow> world \<Rightarrow> bool" where
  "world_fair u w = (heap_sound u (wd_srv w) \<and> list_all (handler_fair u) (wd_calls w))"

lemma step_handler_fair:
  assumes "world_fair u w" and "step_handler f k w = Inr w'"
    and "k < length (wd_calls w) \<Longrightarrow> fair_result u (f (wd_srv w) (wd_calls w ! k))"
  shows "world_fair u w'"
proof (cases "k < length (wd_calls w)")
  case True
  then obtain srv h where f: "f (wd_srv w) (wd_calls w ! k) = Inr (srv, h)" "w' = \<lparr>wd_srv = srv, wd_calls = (wd_calls w)[k := h]\<rparr>"
    using assms(2) by (auto simp: step_handler_def)
  with assms(1,3) True show ?thesis
    by (auto simp: world_fair_def fair_result_def list_all_length nth_list_update)
qed (use assms(1,2) in \<open>simp add: step_handler_def\<close>)

lemma life_step_heap:
  "life_step unmarshal run_err b srv = Inr srv' \<Longrightarrow> background_ok unmarshal b \<Longrightarrow> (\<nexists>up. b = Update up) \<Longrightarrow> srv_heap srv' = srv_heap srv"
  by (cases b) (auto simp: life_step_def background_ok_def handleElectionOutcome_def handleMasterID_def Let_def split: if_splits)

lemma world_step_fair:
  assumes "population_ok u" and "world_ok w" and "world_fair u w" and "event_fine unmarshal e" and "event_fair u e" and "ripe e w"
    and "world_step unmarshal run_err e w = Inr w'"
  shows "world_fair u w'"
proof -
  have l: "life_ok (wd_srv w)" "heap_sound u (wd_srv w)" using assms(2,3) by (simp_all add: world_ok_def world_fair_def)
  have h: "handler_ok (wd_srv w) (wd_calls w ! k)" "handler_fair u (wd_calls w ! k)" if "k < length (wd_calls w)" for k
    using assms(2,3) that by (simp_all add: world_ok_def world_fair_def list_all_length)
  show ?thesis
  proof (cases e)
    case (Arrive q)
    then have "handler_fair u (new_handler q)" "w' = w\<lparr>wd_calls := wd_calls w @ [new_handler q]\<rparr>"
      using assms(5,7) by (simp_all add: event_fair_def handler_fair_def new_handler_def world_step_def)
    with assms(3) show ?thesis by (simp add: world_fair_def)
  next
    case (Proceed k)
    have "step_handler handler_step k w = Inr w'" using assms(7) Proceed by (simp add: world_step_def)
    then show ?thesis by (rule step_handler_fair [OF assms(3)]) (rule handler_step_fair [OF l(1) h(1) l(2) h(2)])
  next
    case (Decides k j clk)
    have s: "step_handler (goroutine_step j clk) k w = Inr w'" using assms(7) Decides by (simp add: world_step_def)
    show ?thesis
      by (rule step_handler_fair [OF assms(3) s], rule goroutine_step_fair [OF assms(1) h(1) l(2) h(2)])
        (use assms(6) in \<open>simp_all add: ripe_def Decides\<close>)
  next
    case (Receives k j)
    have s: "step_handler (receive_step j) k w = Inr w'" using assms(7) Receives by (simp add: world_step_def)
    show ?thesis by (rule step_handler_fair [OF assms(3) s]) (rule receive_step_fair [OF l(1) h(1) l(2) h(2)])
  next
    case (Background b)
    with assms(7) obtain srv where s: "life_step unmarshal run_err b (wd_srv w) = Inr srv" "w' = w\<lparr>wd_srv := srv\<rparr>"
      by (cases "life_step unmarshal run_err b (wd_srv w)") (simp_all add: world_step_def)
    have "srv_heap srv = srv_heap (wd_srv w)"
      by (rule life_step_heap [OF s(1)]) (use assms(4,5) Background in \<open>auto simp: event_fine_def event_fair_def\<close>)
    with assms(3) s(2) show ?thesis by (simp add: world_fair_def heap_sound_def)
  qed
qed

lemma world_run_fair:
  "population_ok u \<Longrightarrow> world_ok w \<Longrightarrow> world_fair u w \<Longrightarrow> list_all (event_fine unmarshal) es \<Longrightarrow> list_all (event_fair u) es \<Longrightarrow>
     ripe_run unmarshal run_err es w \<Longrightarrow> world_run unmarshal run_err es w = Inr w' \<Longrightarrow> world_fair u w'"
proof (induction es arbitrary: w)
  case (Cons e es)
  then obtain w1 where s: "world_step unmarshal run_err e w = Inr w1" "world_run unmarshal run_err es w1 = Inr w'"
    by auto
  have e: "event_fine unmarshal e" "event_fair u e" "ripe e w" using Cons.prems(4-6) by simp_all
  have "world_ok w1" using world_step_safe [OF Cons.prems(2) e(1), of run_err] by (simp add: s(1))
  from Cons.IH [OF Cons.prems(1) this world_step_fair [OF Cons.prems(1-3) e s(1)] _ _ _ s(2)] Cons.prems(4-6) s(1)
  show ?case by simp
qed simp

section \<open>Properties\<close>

lemma first_config_fresh:
  assumes "life_step unmarshal run_err (Update up) dm = Inr srv" and "srv_config dm = None"
  shows "srv_heap srv = srv_heap dm"
  using assms
  by (auto simp: life_step_def config_step_def server_LoadConfig_def triggerElection_def Let_def
      split: option.splits if_splits prod.splits)

text \<open>The capacity bound under any interleaving of the actions: a root server loads a configuration, and
  then elections, calls and releases follow in whatever order. As long as the calls come from a
  population whose subclients cannot overflow the counters and ask for amounts that are not
  negative, and resources decide past their learning mode, every resource with a sharing
  algorithm has at every moment handed out no more than its capacity, and no lease is negative.\<close>

lemma world_within_capacity:
  assumes "NewIntermediate i '''' dial run_err = Inr (Inr dm)" and "event_ok unmarshal (Update up)"
    and "life_step unmarshal run_err (Update up) dm = Inr srv" and "population_ok u"
    and "list_all (event_fine unmarshal) es" and "list_all (event_fair u) es"
    and "ripe_run unmarshal run_err es (new_world srv)" and "world_run unmarshal run_err es (new_world srv) = Inr w"
    and "res \<in> set (srv_heap (wd_srv w))" and "sharing_resource res"
  shows "Fin (total_has (ls_leases (res_store res))) \<le> ResourceTemplate_GetCapacity (res_config res) \<and>
    within_capacity res \<and> list_all (\<lambda>(c, l). Fin 0 \<le> lease_Has l) (ls_leases (res_store res))"
proof -
  note fresh = root_server_fresh [OF assms(1)]
  have heap: "srv_heap srv = []" using first_config_fresh [OF assms(3) fresh(4)] fresh(2) by simp
  have "background_ok unmarshal (Update up)" using assms(2) by (simp add: background_ok_def)
  from background_life [OF fresh(1) this, of run_err] assms(3) have "life_ok srv" by auto
  then have "world_ok (new_world srv)" "world_fair u (new_world srv)"
    using heap by (simp_all add: new_world_def world_ok_def world_fair_def plain_heap_def heap_sound_def)
  from world_run_fair [OF assms(4) this assms(5-8)] have s: "sound u res"
    using assms(9,10) by (auto simp: world_fair_def heap_sound_def list_all_iff resource_sound_def)
  obtain cap where cap: "ResourceTemplate_GetCapacity (res_config res) = Fin cap"
    using assms(10) by (auto simp: sharing_resource_def split: option.splits f64.splits)
  have "Fin 0 \<le> lease_Has l" if "(c, l) \<in> set (ls_leases (res_store res))" for c l
  proof -
    have "isFinite (lease_Has l)"
      using s that by (auto simp: sound_def resource_ok_def store_ok_def entries_ok_def finite_lease_def list_all_iff)
    moreover have "0 \<le> fval (lease_Has l)" using s that by (auto simp: sound_def sound_entry_def list_all_iff)
    ultimately show ?thesis by (cases "lease_Has l") auto
  qed
  then show ?thesis using sound_total [OF s cap] s cap by (auto simp: sound_def list_all_iff)
qed

text \<open>A call is decided at the very end of the learning mode of the resource that it has created.\<close>

definition one_call :: "time \<Rightarrow> world_event list" where
  "one_call t = [Background (Outcome 10 True), Arrive (OnGetCapacity example_query), Proceed 0, Proceed 0, Decides 0 0 (example_clock t)]"

lemma one_call_run:
  obtains dm srv t w res where "NewIntermediate ''s'' '''' (Inl '''') None = Inr (Inr dm)"
    "life_step example_unmarshal None (Update (Some ''good'')) dm = Inr srv"
    "world_run example_unmarshal None (one_call t) (new_world srv) = Inr w"
    "list_all (event_fine example_unmarshal) (one_call t)" "list_all (event_fair [(''b'', 1)]) (one_call t)"
    "ripe_run example_unmarshal None (one_call t) (new_world srv)" "population_ok [(''b'', 1)]"
    "srv_heap (wd_srv w) = [res]" "sharing_resource res" "ResourceTemplate_GetCapacity (res_config res) = Fin 100"
proof -
  obtain dm srv where dm: "NewIntermediate ''s'' '''' (Inl '''') None = Inr (Inr dm)"
    and srv: "srv_config srv = Some example_repo" "0 < srv_handlers srv"
    and up: "life_step example_unmarshal None (Update (Some ''good'')) dm = Inr srv"
    by (rule example_start_run)
  define master where "master = handleElectionOutcome 10 True srv"
  have m: "srv_config master = Some example_repo" "srv_resources master = Some []" "srv_heap master = []" "srv_isMaster master"
    using srv first_config_fresh [OF up root_server_fresh(4) [OF dm]] root_server_fresh(2) [OF dm]
    by (simp_all add: master_def handleElectionOutcome_def)
  let ?tpl = "example_template Algorithm_FAIR_SHARE" and ?r = "\<lparr>req_Client = ''b'', req_Has = Fin 0, req_Wants = Fin 80, req_Subclients = 1\<rparr>"
  have find: "findConfigForResource master ''r'' = Inr ?tpl"
    by (simp add: findConfigForResource_def m(1) example_repo_def example_template_def ResourceTemplate_GetIdentifierGlob_def)
  have "serviceable ?tpl" using example_repo_ok(2) by (simp add: repo_serviceable_def example_repo_def)
  from newResource_serviceable [OF this, of master "''r''"] obtain res where
    res: "newResource master ''r'' (Some ?tpl) = Inr res" "resource_wf res" "res_ID res = ''r''" "res_config res = Some ?tpl"
      "res_expiryTime res = None"
    by blast
  define w0 where "w0 = master\<lparr>srv_heap := [res], srv_resources := Some [(''r'', 0)]\<rparr>"
  have create: "getOrCreateResource master ''r'' = Inr (w0, 0)"
    by (simp add: getOrCreateResource_def srv_lookup_def m find res(1) w0_def)
  let ?clk = "example_clock (res_learningModeEndTime res)"
  obtain s l where decide: "resource_Decide res ?clk ?r = Inr (res\<lparr>res_store := s\<rparr>, l)"
    using Decide_effect [OF res(2,4)] by blast
  let ?es = "one_call (res_learningModeEndTime res)"
  have req: "client_requests example_query = [\<lparr>cr_client = ''b'', cr_resID = ''r'', cr_has = Fin 0, cr_wants = Fin 80, cr_subclients = 1\<rparr>]"
    by (simp add: client_requests_def example_query_def ask_def getter_defs)
  have step: "life_step example_unmarshal None (Outcome 10 True) srv = Inr master"
    using srv(2) by (simp add: life_step_def master_def)
  have heap: "srv_heap w0 = [res]" by (simp add: w0_def)
  note run_simps = world_step_def step step_handler_def handler_step_def goroutine_step_def run_goroutine_def new_handler_def one_call_def
    start_call_def req create decide IsMaster_def m(4) request_of_def heap new_world_def
  obtain w where run: "world_run example_unmarshal None ?es (new_world srv) = Inr w"
    "srv_heap (wd_srv w) = [res\<lparr>res_store := s\<rparr>]"
    by (simp add: run_simps)
  have fine: "list_all (event_fine example_unmarshal) ?es"
    using example_start_fine(1) by (simp add: event_fine_def background_ok_def event_ok_def example_start_def one_call_def)
  have fair: "list_all (event_fair [(''b'', 1)]) ?es"
    by (simp add: one_call_def event_fair_def call_fair_def start_call_def req fair_request_def request_of_def belongs_def)
  have late: "\<not> in_learning_mode res (at_mode ?clk)" by (simp add: in_learning_mode_def After_def example_clock_def)
  have ripe: "ripe_run example_unmarshal None ?es (new_world srv)"
    by (simp add: run_simps ripe_def late)
  have share: "sharing_resource (res\<lparr>res_store := s\<rparr>)" "ResourceTemplate_GetCapacity (res_config res) = Fin 100"
    using res(4,5) by (simp_all add: sharing_resource_def example_template_def example_config_def Algorithm_GetKind_def
        ResourceTemplate_GetCapacity_def)
  have pop: "population_ok [(''b'', 1)]" by (simp add: population_ok_def)
  show thesis by (rule that [OF dm up run(1) fine fair ripe pop run(2) share(1)]) (simp add: share(2))
qed

end
