(* ===== verification/Server_Tree.thy ===== *)
theory Server_Tree
  imports Server_Update Overlap_Capacity
begin

text \<open>
  Trees of servers (\<open>go/server/doorman/server.go\<close>): an intermediate server asks its parent for what
  its clients want (\<open>update_request\<close>), the parent decides like for any client
  (\<open>GetServerCapacity\<close>), and the reply becomes the configuration of the intermediate server
  (\<open>handle_reply\<close>). The three are put together here: what a child may hand out is what its parent
  has on its books.
\<close>

section \<open>What the parent sends\<close>

definition same_templates :: "Server \<Rightarrow> Server \<Rightarrow> bool" where
  "same_templates srv srv' = (srv_lookup srv' = srv_lookup srv \<and>
     (\<forall>a. res_config (srv_heap srv' ! a) = res_config (srv_heap srv ! a)))"

definition templated :: "Server \<Rightarrow> ServerCapacityResourceResponse \<Rightarrow> bool" where
  "templated srv pr = (\<exists>a. srv_lookup srv (ServerCapacityResourceResponse_GetResourceId (Some pr)) = Some a \<and>
     scp_Algorithm pr = ResourceTemplate_GetAlgorithm (res_config (srv_heap srv ! a)))"

text \<open>Every resource has an entry of the configuration.\<close>

definition all_from :: "ResourceRepository \<Rightarrow> Server \<Rightarrow> bool" where
  "all_from config srv = (\<forall>i a. srv_lookup srv i = Some a \<longrightarrow>
     res_config (srv_heap srv ! a) \<in> Some ` set (repo_Resources config))"

lemma Decide_config: "resource_Decide res clk r = Inr (res', l) \<Longrightarrow> res_config res' = res_config res"
  by (auto simp: resource_Decide_def Let_def split: option.splits prod.splits if_splits)

lemma call_step_templates:
  assumes "call_step collect_server_item e (srv, c) = Inr (srv', c')" and "list_all (templated srv) (call_out c)"
  shows "same_templates srv srv' \<and> list_all (templated srv') (call_out c')"
proof (cases e)
  case (Run k clk)
  show ?thesis
  proof (cases "k < length (call_pool c)")
    case True
    obtain a r where ar: "call_pool c ! k = (a, r)" by force
    obtain res l where d: "resource_Decide (srv_heap srv ! a) clk r = Inr (res, l)"
      "srv' = heap_write srv a res" "call_out c' = call_out c"
      using assms(1) Run True ar by (auto simp: run_goroutine_def)
    have "same_templates srv srv'"
      using Decide_config [OF d(1)] d(2) by (auto simp: same_templates_def srv_lookup_def fun_eq_iff nth_list_update_eq
          list_update_beyond nth_list_update split: if_splits) (metis list_update_beyond not_le nth_list_update)
    moreover from this assms(2) have "list_all (templated srv') (call_out c')"
      by (simp add: d(3) list_all_iff templated_def same_templates_def)
    ultimately show ?thesis by blast
  qed (use assms Run in \<open>simp add: same_templates_def\<close>)
next
  case (Recv k)
  with assms show ?thesis
    by (auto simp: collect_server_item_def same_templates_def templated_def
        ServerCapacityResourceResponse_GetResourceId_def split: if_splits option.splits)
qed

lemma call_run_templates:
  "call_run collect_server_item es (srv, c) = Inr (srv', c') \<Longrightarrow> list_all (templated srv) (call_out c) \<Longrightarrow>
     same_templates srv srv' \<and> list_all (templated srv') (call_out c')"
proof (induction es arbitrary: srv c)
  case (Cons e es)
  then obtain srv1 c1 where 1: "call_step collect_server_item e (srv, c) = Inr (srv1, c1)"
    "call_run collect_server_item es (srv1, c1) = Inr (srv', c')"
    by (cases "call_step collect_server_item e (srv, c)") auto
  from call_step_templates [OF 1(1) Cons.prems(2)] Cons.IH [OF 1(2)] show ?case by (simp add: same_templates_def)
qed (simp add: same_templates_def)

lemma getOrCreate_from:
  assumes "serving srv config" and "all_from config srv" and "getOrCreateResource srv i = Inr (srv', a)"
  shows "all_from config srv'"
proof (cases "srv_lookup srv i")
  case None
  have c: "srv_config srv = Some config" using assms(1) by (simp add: serving_def)
  from assms(3) None obtain tpl res m where t: "findConfigForResource srv i = Inr tpl" "newResource srv i (Some tpl) = Inr res"
    "srv_resources srv = Some m" "srv' = srv\<lparr>srv_heap := srv_heap srv @ [res], srv_resources := Some (map_put m i (length (srv_heap srv)))\<rparr>"
    by (auto simp: getOrCreateResource_def Let_def split: option.splits)
  have s: "tpl \<in> set (repo_Resources config)"
    using findConfig_selected [OF c t(1)] by (auto simp: selected_def)
  then have "serviceable tpl" using assms(1) by (auto simp: serving_def repo_serviceable_def list_all_iff)
  from newResource_serviceable [OF this, of srv i] t(2) have "res_config res = Some tpl" by auto
  with s t(3,4) assms(2) serving_lookup(1) [OF assms(1)] show ?thesis
    by (auto simp: all_from_def srv_lookup_def map_of_put nth_append split: if_splits)
qed (use assms(2,3) in \<open>simp add: getOrCreateResource_def\<close>)

lemma getCapacity_from:
  "serving srv config \<Longrightarrow> list_all (\<lambda>creq. covered (repo_Resources config) (cr_resID creq)) creqs \<Longrightarrow> all_from config srv \<Longrightarrow>
     getCapacity srv creqs = Inr (srv', gs) \<Longrightarrow> all_from config srv'"
proof (induction creqs arbitrary: srv gs)
  case (Cons creq creqs)
  obtain srv1 a where 1: "getOrCreateResource srv (cr_resID creq) = Inr (srv1, a)" "serving srv1 config"
    using getOrCreate_serving [OF Cons.prems(1), of "cr_resID creq"] Cons.prems(2) by auto
  with Cons.prems(4) obtain gs' where "getCapacity srv1 creqs = Inr (srv', gs')" by auto
  with Cons.IH [OF 1(2) _ getOrCreate_from [OF Cons.prems(1,3) 1(1)]] Cons.prems(2) show ?case by simp
qed simp

lemma GetServerCapacity_templates:
  assumes "serving srv config" and "covers config (server_requested q)" and "bands_valid q" and "all_from config srv"
    and "GetServerCapacity schedule srv q = Inr (srv', Inr (Some resp))"
  shows "list_all (templated srv') (gsp_Response resp)" and "all_from config srv'"
proof -
  obtain creqs srv0 gs where g: "map cr_resID creqs = server_requested q" "serving srv0 config"
    "getCapacity srv creqs = Inr (srv0, gs)"
    and G: "\<And>schedule. GetServerCapacity schedule srv q =
        bind_panic (call_run collect_server_item schedule (srv0, new_call gs)) (\<lambda>(srv', c).
          Inr (srv', Inr (if call_returned c then Some \<lparr>gsp_Response = call_out c, gsp_Mastership = None\<rparr> else None)))"
    by (rule GetServerCapacity_unfold [OF assms(1-3)]) blast
  obtain c where c: "call_run collect_server_item schedule (srv0, new_call gs) = Inr (srv', c)" "gsp_Response resp = call_out c"
    using assms(5) unfolding G by (auto split: if_splits)
  have "list_all (\<lambda>creq. covered (repo_Resources config) (cr_resID creq)) creqs"
    using assms(2) unfolding covers_def g(1) [symmetric] by (simp add: list_all_iff)
  from getCapacity_from [OF assms(1) this assms(4) g(3)] have "all_from config srv0" .
  moreover from call_run_templates [OF c(1)] have t: "same_templates srv0 srv'" "list_all (templated srv') (call_out c)"
    by (simp_all add: new_call_def)
  ultimately show "all_from config srv'" by (simp add: all_from_def same_templates_def)
  show "list_all (templated srv') (gsp_Response resp)" using t(2) c(2) by simp
qed

section \<open>A round\<close>

text \<open>The resources of a child: plain ids without a slash, and subclients behind every wish.\<close>

definition child_ok :: "Server \<Rightarrow> bool" where
  "child_ok srv = (server_ok srv \<and> srv_config srv \<noteq> None \<and> srv_conn srv \<noteq> None \<and>
     (case srv_resources srv of None \<Rightarrow> False
      | Some m \<Rightarrow> m \<noteq> [] \<and> list_all (\<lambda>(i, a). list_all plain i \<and> i \<noteq> ''*'' \<and> plain_id i \<and>
          (Fin 0 < store_SumWants (res_store (srv_heap srv ! a)) \<longrightarrow> 1 \<le> sint (store_Count (res_store (srv_heap srv ! a))))) m))"

abbreviation wanted :: "Server \<Rightarrow> nat \<Rightarrow> bool" where
  "wanted srv a \<equiv> Fin 0 < store_SumWants (res_store (srv_heap srv ! a))"

lemma update_request_shape:
  assumes "child_ok srv" and "update_request now1 now2 srv = Inr q"
  shows "GetServerCapacityRequest_GetServerId (Some q) = srv_ID srv" and "bands_valid q" and "distinct (server_requested q)"
    and "i \<in> set (server_requested q) \<longleftrightarrow> (\<exists>a. srv_lookup srv i = Some a \<and> wanted srv a)"
    and "list_all plain_id (server_requested q)"
proof -
  obtain m where m: "srv_resources srv = Some m" "m \<noteq> []"
    and ids: "list_all (\<lambda>(i, a). list_all plain i \<and> i \<noteq> ''*'' \<and> plain_id i \<and>
          (wanted srv a \<longrightarrow> 1 \<le> sint (store_Count (res_store (srv_heap srv ! a))))) m"
    using assms(1) by (auto simp: child_ok_def split: option.splits)
  have ok: "server_ok srv" using assms(1) by (simp add: child_ok_def)
  have d: "distinct_keys m" using server_ok_addresses [OF ok m(1)] by (simp add: addresses_ok_def)
  have q: "gsq_ServerId q = Some (srv_ID srv)" "gsq_Resource q = map (\<lambda>(i, a).
      \<lparr>scq_ResourceId = Some i, scq_Has = None, scq_Wants = [\<lparr>pba_Priority = Some defaultPriority,
         pba_NumClients = Some (store_Count (res_store (srv_heap srv ! a))),
         pba_Wants = Some (store_SumWants (res_store (srv_heap srv ! a)))\<rparr>]\<rparr>) (filter (\<lambda>(i, a). wanted srv a) m)"
    using update_request_asks [OF ok m(1), of now1 now2] m(2) assms(2) by simp_all
  have req: "server_requested q = map fst (filter (\<lambda>(i, a). wanted srv a) m)"
    by (simp add: q(2) ServerCapacityResourceRequest_GetResourceId_def case_prod_unfold comp_def)
  show "GetServerCapacityRequest_GetServerId (Some q) = srv_ID srv"
    by (simp add: GetServerCapacityRequest_GetServerId_def q(1))
  show "bands_valid q"
    using ids by (auto simp: q(2) list_all_iff PriorityBandAggregate_GetNumClients_def)
  show "distinct (server_requested q)" unfolding req using d by (rule distinct_map_filter)
  show "i \<in> set (server_requested q) \<longleftrightarrow> (\<exists>a. srv_lookup srv i = Some a \<and> wanted srv a)"
    unfolding req using d m(1) by (force simp: srv_lookup_def)
  show "list_all plain_id (server_requested q)" unfolding req using ids by (auto simp: list_all_iff)
qed

text \<open>The response of a serving parent is one that its child can use.\<close>

lemma response_usable:
  assumes "child_ok child" and "update_request now1 now2 child = Inr q"
    and "serving parent config" and "repo_valid config" and "all_from config parent"
    and "GetServerCapacity schedule parent q = Inr (parent', Inr (Some out))"
  shows "list_all (usable child) (gsp_Response out)"
    and "mset (map (\<lambda>pr. ServerCapacityResourceResponse_GetResourceId (Some pr)) (gsp_Response out)) = mset (server_requested q)"
    and "serving parent' config" and "all_from config parent'"
    and "list_all (\<lambda>pr. \<exists>b l. srv_lookup parent' (ServerCapacityResourceResponse_GetResourceId (Some pr)) = Some b \<and>
      map_of (ls_leases (res_store (srv_heap parent' ! b))) (srv_ID child) = Some l \<and> scp_Gets pr = Some (lease_to_pb l) \<and>
      scp_Algorithm pr = ResourceTemplate_GetAlgorithm (res_config (srv_heap parent' ! b))) (gsp_Response out)"
proof -
  let ?id = "\<lambda>pr. ServerCapacityResourceResponse_GetResourceId (Some pr)"
  note shape = update_request_shape [OF assms(1,2)]
  have cov: "covers config (server_requested q)"
    using shape(5) covered_no_separator [OF assms(4)] by (auto simp: covers_def list_all_iff plain_id_def)
  from GetServerCapacity_answers [OF assms(3) cov shape(2), of schedule] assms(6)
  show parent: "serving parent' config" and ids: "mset (map ?id (gsp_Response out)) = mset (server_requested q)" by simp_all
  note t = GetServerCapacity_templates [OF assms(3) cov shape(2) assms(5,6)]
  show "all_from config parent'" by (rule t(2))
  have recorded: "list_all (\<lambda>pr. \<exists>b l. srv_lookup parent' (?id pr) = Some b \<and>
      map_of (ls_leases (res_store (srv_heap parent' ! b))) (srv_ID child) = Some l \<and> scp_Gets pr = Some (lease_to_pb l)) (gsp_Response out)"
  proof (rule GetServerCapacity_results [OF assms(3) cov shape(2,3) assms(6)], goal_cases)
    case (1 srv0 creq a clk res' l)
    have client: "req_Client (request_of creq) = srv_ID child" using 1(3) shape(1) by (simp add: request_of_def)
    obtain tpl where "res_config (srv_heap srv0 ! a) = Some tpl"
      using serving_lookup(4) [OF 1(2,4)] by (auto simp: serviceable_resource_def split: option.splits)
    from Decide_effect [OF serving_lookup(3) [OF 1(2,4)] this, of clk "request_of creq"] 1(6)
    show ?case by (auto simp: map_of_put client)
  qed
  then show "list_all (\<lambda>pr. \<exists>b l. srv_lookup parent' (?id pr) = Some b \<and>
      map_of (ls_leases (res_store (srv_heap parent' ! b))) (srv_ID child) = Some l \<and> scp_Gets pr = Some (lease_to_pb l) \<and>
      scp_Algorithm pr = ResourceTemplate_GetAlgorithm (res_config (srv_heap parent' ! b))) (gsp_Response out)"
    using t(1) by (fastforce simp: list_all_iff templated_def)
  show "list_all (usable child) (gsp_Response out)"
    unfolding list_all_iff
  proof
    fix pr assume pr: "pr \<in> set (gsp_Response out)"
    then have "?id pr \<in> set (server_requested q)" using mset_eq_setD [OF ids] by auto
    then obtain a where a: "srv_lookup child (?id pr) = Some a" unfolding shape(4) by blast
    obtain m where "srv_resources child = Some m" "(?id pr, a) \<in> set m"
      using a by (auto simp: srv_lookup_def split: option.splits dest: map_of_SomeD)
    with assms(1) have name: "list_all plain (?id pr)" "?id pr \<noteq> ''*''" by (auto simp: child_ok_def list_all_iff)
    obtain b where b: "srv_lookup parent' (?id pr) = Some b" "scp_Algorithm pr = ResourceTemplate_GetAlgorithm (res_config (srv_heap parent' ! b))"
      using t(1) pr by (auto simp: list_all_iff templated_def)
    obtain tpl where tpl: "tpl \<in> set (repo_Resources config)" "res_config (srv_heap parent' ! b) = Some tpl"
      using t(2) b(1) by (auto simp: all_from_def)
    have "serviceable tpl" "template_valid tpl"
      using tpl(1) assms(3,4) by (auto simp: serving_def repo_serviceable_def repo_valid_def list_all_iff Let_def)
    with name a b(2) tpl(2) show "usable child pr"
      by (auto simp: usable_def serviceable_def template_valid_def ResourceTemplate_GetAlgorithm_def Let_def split: option.splits)
  qed
qed

lemma GetServerCapacity_returns:
  assumes "serving srv config" and "covers config (server_requested q)" and "bands_valid q"
  shows "\<exists>schedule srv' out. GetServerCapacity schedule srv q = Inr (srv', Inr (Some out))"
proof -
  obtain srv0 gs where g: "serving srv0 config"
    "call_ok (\<lambda>resp. ServerCapacityResourceResponse_GetResourceId (Some resp)) (mset (server_requested q)) (srv0, new_call gs)"
    "\<And>schedule. GetServerCapacity schedule srv q =
        bind_panic (call_run collect_server_item schedule (srv0, new_call gs)) (\<lambda>(srv', c).
          Inr (srv', Inr (if call_returned c then Some \<lparr>gsp_Response = call_out c, gsp_Mastership = None\<rparr> else None)))"
    by (rule GetServerCapacity_unfold [OF assms]) blast
  from server_call.can_return [OF g(1,2)] obtain es srv' c where
    "call_run collect_server_item es (srv0, new_call gs) = Inr (srv', c)" "call_returned c" by blast
  then show ?thesis unfolding g(3) by (intro exI [of _ es]) simp
qed

text \<open>What a resource may hand out after a reply, from its part of the reply.\<close>

lemma granted_resource:
  assumes "res_config res = Some (granted_template pr)"
    and "res_expiryTime res = Some (Unix (Lease_GetExpiryTime (scp_Gets pr)))" and "scp_Gets pr = Some (lease_to_pb l)"
  shows "resource_capacity res now = (if now \<le> Unix (to_unix (lease_Expiry l)) then lease_Has l else Fin 0)"
    and "ResourceTemplate_GetAlgorithm (res_config res) = scp_Algorithm pr"
  using assms
  by (auto simp: resource_capacity_def granted_template_def ResourceTemplate_GetCapacity_def Lease_GetCapacity_def
      Lease_GetExpiryTime_def ServerCapacityResourceResponse_GetGets_def lease_to_pb_def Before_def
      ResourceTemplate_GetAlgorithm_def ServerCapacityResourceResponse_GetAlgorithm_def)

lemma child_names:
  assumes "child_ok child" and "srv_lookup child i = Some a"
  shows "CHR ''/'' \<notin> set i \<and> i \<noteq> ''*''"
proof -
  obtain m where "srv_resources child = Some m" "(i, a) \<in> set m"
    using assms(2) by (auto simp: srv_lookup_def split: option.splits dest: map_of_SomeD)
  with assms(1) show ?thesis by (auto simp: child_ok_def list_all_iff plain_id_def)
qed

text \<open>C11. From the wants of a child server to its capacity: the request of an intermediate server, answered
  by its serving parent under any schedule, is loaded without an error, and then the capacity of every
  resource that its clients want is the lease that the parent has on its books for the child, up
  to the second in which that lease expires and not after, and is divided by the parent's
  algorithm; of all other resources it has nothing to give.\<close>

theorem tree_round:
  assumes "child_ok child" and "update_request now1 now2 child = Inr q"
    and "serving parent config" and "repo_valid config" and "all_from config parent"
    and "GetServerCapacity schedule parent q = Inr (parent', Inr (Some out))"
  shows "\<exists>child' interval. handle_reply run_err child retryNumber (Some out) = Inr (child', Some interval, 0) \<and>
    server_ok child' \<and> serving parent' config \<and>
    (\<forall>i a. srv_lookup child i = Some a \<longrightarrow> srv_lookup child' i = Some a \<and>
       (if wanted child a
        then \<exists>b l. srv_lookup parent' i = Some b \<and>
          map_of (ls_leases (res_store (srv_heap parent' ! b))) (srv_ID child) = Some l \<and>
          (\<forall>now. resource_capacity (srv_heap child' ! a) now =
             (if now \<le> Unix (to_unix (lease_Expiry l)) then lease_Has l else Fin 0)) \<and>
          ResourceTemplate_GetAlgorithm (res_config (srv_heap child' ! a)) =
            ResourceTemplate_GetAlgorithm (res_config (srv_heap parent' ! b))
        else \<forall>now. resource_capacity (srv_heap child' ! a) now = Fin 0))"
proof -
  let ?id = "\<lambda>pr. ServerCapacityResourceResponse_GetResourceId (Some pr)"
  note shape = update_request_shape [OF assms(1,2)]
  note resp = response_usable [OF assms]
  obtain minimum where min: "srv_conn child = Some minimum" using assms(1) by (auto simp: child_ok_def)
  have dist: "distinct (map ?id (gsp_Response out))" using shape(3) resp(2) by (metis mset_eq_imp_distinct_iff)
  have ok: "server_ok child" "srv_config child \<noteq> None" using assms(1) by (simp_all add: child_ok_def)
  obtain child' interval where h: "handle_reply run_err child retryNumber (Some out) = Inr (child', Some interval, 0)"
    "server_ok child'" "srv_lookup child' = srv_lookup child"
    and grant: "\<And>i a. srv_lookup child i = Some a \<Longrightarrow>
      res_config (srv_heap child' ! a) = Some (case find (\<lambda>pr. ?id pr = i) (gsp_Response out) of
        None \<Rightarrow> defaultResourceTemplate | Some pr \<Rightarrow> granted_template pr) \<and>
      res_expiryTime (srv_heap child' ! a) =
        map_option (\<lambda>pr. Unix (Lease_GetExpiryTime (scp_Gets pr))) (find (\<lambda>pr. ?id pr = i) (gsp_Response out))"
    using handle_reply_grants [where run_err = run_err and retryNumber = retryNumber, OF ok min resp(1) dist] child_names [OF assms(1)]
    unfolding Let_def by blast
  have "if wanted child a
      then \<exists>b l. srv_lookup parent' i = Some b \<and>
        map_of (ls_leases (res_store (srv_heap parent' ! b))) (srv_ID child) = Some l \<and>
        (\<forall>now. resource_capacity (srv_heap child' ! a) now =
           (if now \<le> Unix (to_unix (lease_Expiry l)) then lease_Has l else Fin 0)) \<and>
        ResourceTemplate_GetAlgorithm (res_config (srv_heap child' ! a)) =
          ResourceTemplate_GetAlgorithm (res_config (srv_heap parent' ! b))
      else \<forall>now. resource_capacity (srv_heap child' ! a) now = Fin 0" if ia: "srv_lookup child i = Some a" for i a
  proof (cases "find (\<lambda>pr. ?id pr = i) (gsp_Response out)")
    case None
    then have "i \<notin> set (server_requested q)" using mset_eq_setD [OF resp(2)] by (force simp: find_None_iff)
    then have "\<not> wanted child a" using shape(4) ia by blast
    with grant [OF ia] None show ?thesis
      by (simp add: resource_capacity_def defaultResourceTemplate_def ResourceTemplate_GetCapacity_def)
  next
    case (Some pr)
    then have pr: "pr \<in> set (gsp_Response out)" "?id pr = i" by (auto dest: find_Some_nth simp: find_Some_iff)
    then have "i \<in> set (server_requested q)" using mset_eq_setD [OF resp(2)] by auto
    then have w: "wanted child a" using shape(4) ia by auto
    obtain b l where l: "srv_lookup parent' i = Some b"
      "map_of (ls_leases (res_store (srv_heap parent' ! b))) (srv_ID child) = Some l" "scp_Gets pr = Some (lease_to_pb l)"
      "scp_Algorithm pr = ResourceTemplate_GetAlgorithm (res_config (srv_heap parent' ! b))"
      using resp(5) pr by (auto simp: list_all_iff)
    from grant [OF ia] Some have "res_config (srv_heap child' ! a) = Some (granted_template pr)"
      "res_expiryTime (srv_heap child' ! a) = Some (Unix (Lease_GetExpiryTime (scp_Gets pr)))" by simp_all
    from granted_resource [OF this l(3)] w l(1,2,4) show ?thesis by auto
  qed
  note each = this
  have "\<forall>i a. srv_lookup child i = Some a \<longrightarrow> srv_lookup child' i = Some a" by (simp add: h(3))
  then show ?thesis using h(1,2) resp(3) each by blast
qed

text \<open>The example child asks the example master.\<close>

theorem tree_round_witness:
  "\<exists>q schedule parent' out child' interval b l.
     update_request 40 40 (example_child ''r'') = Inr q \<and>
     GetServerCapacity schedule example_master q = Inr (parent', Inr (Some out)) \<and>
     handle_reply None (example_child ''r'') 3 (Some out) = Inr (child', Some interval, 0) \<and>
     srv_lookup parent' ''r'' = Some b \<and> map_of (ls_leases (res_store (srv_heap parent' ! b))) ''s'' = Some l \<and>
     resource_capacity (srv_heap child' ! 0) (Unix (to_unix (lease_Expiry l))) = lease_Has l"
proof -
  have shape: "srv_resources (example_child ''r'') = Some [(''r'', 0)]" "srv_config (example_child ''r'') = Some example_repo"
    "srv_conn (example_child ''r'') = Some (seconds 5)" "srv_ID (example_child ''r'') = ''s''"
    "res_store (srv_heap (example_child ''r'') ! 0) = example_store"
    "store_SumWants example_store = Fin 140" "store_Count example_store = 2"
    by (simp_all add: example_child_def example_server_def example_resource_def example_store_def store_SumWants_def store_Count_def)
  have child: "child_ok (example_child ''r'')"
    using example_child_ok [of "''r''"] by (simp add: child_ok_def shape plain_def plain_id_def)
  obtain q where q: "update_request 40 40 (example_child ''r'') = Inr q"
    using update_request_asks [OF example_child_ok shape(1)] by blast
  have from_repo: "all_from example_repo example_master"
    by (simp add: all_from_def srv_lookup_def example_server_def example_resource_def example_repo_def)
  have cov: "covers example_repo (server_requested q)"
    using update_request_shape(5) [OF child q] example_covered by (auto simp: covers_def list_all_iff plain_id_def)
  obtain schedule parent' out where r: "GetServerCapacity schedule example_master q = Inr (parent', Inr (Some out))"
    using GetServerCapacity_returns [OF example_server_serving(2) cov update_request_shape(2) [OF child q]] by blast
  have l: "srv_lookup (example_child ''r'') ''r'' = Some 0" "wanted (example_child ''r'') 0"
    by (simp_all add: example_child_lookup shape)
  obtain child' interval where c: "handle_reply None (example_child ''r'') 3 (Some out) = Inr (child', Some interval, 0)"
    and each: "\<forall>i a. srv_lookup (example_child ''r'') i = Some a \<longrightarrow> srv_lookup child' i = Some a \<and>
       (if wanted (example_child ''r'') a
        then \<exists>b l. srv_lookup parent' i = Some b \<and>
          map_of (ls_leases (res_store (srv_heap parent' ! b))) (srv_ID (example_child ''r'')) = Some l \<and>
          (\<forall>now. resource_capacity (srv_heap child' ! a) now =
             (if now \<le> Unix (to_unix (lease_Expiry l)) then lease_Has l else Fin 0)) \<and>
          ResourceTemplate_GetAlgorithm (res_config (srv_heap child' ! a)) =
            ResourceTemplate_GetAlgorithm (res_config (srv_heap parent' ! b))
        else \<forall>now. resource_capacity (srv_heap child' ! a) now = Fin 0)"
    using tree_round [OF child q example_server_serving(2) example_repo_ok(1) from_repo r, of None 3] by blast
  from each l shape(4) obtain b l where "srv_lookup parent' ''r'' = Some b"
    "map_of (ls_leases (res_store (srv_heap parent' ! b))) ''s'' = Some l"
    "resource_capacity (srv_heap child' ! 0) (Unix (to_unix (lease_Expiry l))) = lease_Has l"
    by fastforce
  with q r c show ?thesis by blast
qed

section \<open>The time at which a lease expires\<close>

lemma Unix_to_unix_le:
  assumes "- (2 ^ 63) \<le> t" and "t < 2 ^ 64"
  shows "Unix (to_unix t) \<le> t"
proof -
  have "- (2 ^ 63) \<le> t div 1000000000" using assms(1) by simp
  moreover have "t div 1000000000 < 2 ^ 63" using assms(2) by simp
  ultimately have "sint (to_unix t) = t div 1000000000" by (simp add: to_unix_def sint64_of_int)
  then show ?thesis by (simp add: Unix_def)
qed

lemma Decide_expiry:
  assumes "resource_wf res" and "resource_Decide res clk r = Inr (res', l)" and "0 \<le> at_assign clk" and "at_assign clk < 2 ^ 63"
  shows "Unix (to_unix (lease_Expiry l)) \<le> lease_Expiry l"
proof -
  obtain tpl where "res_config res = Some tpl" using assms(1) by (auto simp: resource_wf_def elim: configuredE)
  from Decide_effect [OF assms(1) this, of clk r] assms(2)
  have "lease_Expiry l = at_assign clk + sint (seconds (Algorithm_GetLeaseLength (tpl_Algorithm tpl)))"
    by (auto simp: time_Add_def)
  then show ?thesis
    using assms(3,4) sint_greater_eq [of "seconds (Algorithm_GetLeaseLength (tpl_Algorithm tpl))"]
      sint_less [of "seconds (Algorithm_GetLeaseLength (tpl_Algorithm tpl))"]
    by (intro Unix_to_unix_le) simp_all
qed

end
