(* ===== verification/Failover.thy ===== *)
theory Failover
  imports Server_Tree
begin

text \<open>
  A resource through changes of the master. A new master has a new resource with no leases
  (\<open>newResource\<close>), which learns from the reports of the clients until its learning mode ends. Here
  the clients that hold leases of one resource refresh and release them with the master of the
  time, and masters take over from each other. The master decides at one time, and the reply arrives
  later or never. What clients hold that are not behind a reply never exceeds
  the capacity, if the learning mode is as long as a lease and clients do not report
  to a learning master leases that have expired or been replaced; the code of the client ensures neither.
\<close>

section \<open>Clients and masters\<close>

text \<open>What \<open>GetCapacity\<close> makes of the request of a client, which reports the lease it holds.\<close>

definition refresh_request :: "(string \<times> pb_Lease) list \<Rightarrow> string \<Rightarrow> f64 \<Rightarrow> Request" where
  "refresh_request held c w =
     \<lparr>req_Client = c, req_Has = Lease_GetCapacity (map_of held c), req_Wants = w, req_Subclients = 1\<rparr>"

text \<open>A lease that is in force, and what all clients hold together.\<close>

definition in_force :: "pb_Lease \<Rightarrow> time \<Rightarrow> bool" where
  "in_force l now = (now \<le> Unix (Lease_GetExpiryTime (Some l)))"

definition held_total :: "(string \<times> pb_Lease) list \<Rightarrow> time \<Rightarrow> rat" where
  "held_total held now = sum_list (map (\<lambda>(c, l). if in_force l now then fval (Lease_GetCapacity (Some l)) else 0) held)"

text \<open>The clock runs on while a decision is taken.\<close>

definition clock_after :: "time \<Rightarrow> decide_clock \<Rightarrow> bool" where
  "clock_after t clk = (0 \<le> t \<and> t \<le> at_clean clk \<and> at_clean clk \<le> at_mode clk \<and> at_mode clk \<le> at_capacity clk \<and>
     at_capacity clk \<le> at_assign clk \<and> at_assign clk < 2 ^ 63)"

text \<open>
  The time of the last event, the resource of the master, what clients hold, and the replies that have not
  arrived, the last one first. The events: a master is elected; a request is decided (while the
  master learns, the report must be of a lease in force, and the client not behind a reply); a
  reply arrives, after which no reply to an earlier call of the same client does (a client has one
  call at a time, and does not hear of those it has given up); a client gives the resource up; the master
  releases it, when the client has; another master is elected. A reply that is lost never arrives.
\<close>

inductive service_reach :: "population \<Rightarrow> ResourceTemplate \<Rightarrow> string \<Rightarrow> time \<Rightarrow> Resource \<Rightarrow> (string \<times> pb_Lease) list
    \<Rightarrow> (string \<times> pb_Lease) list \<Rightarrow> bool"
    for u tpl i where
  first_master: "0 \<le> t \<Longrightarrow> newResource (handleElectionOutcome t True srv) i (Some tpl) = Inr res \<Longrightarrow>
    service_reach u tpl i t res [] []"
| decides: "service_reach u tpl i t res held replies \<Longrightarrow> clock_after t clk \<Longrightarrow> belongs u c 1 \<Longrightarrow> 0 \<le> w \<Longrightarrow>
    req_Client r = c \<Longrightarrow> req_Wants r = Fin w \<Longrightarrow> req_Subclients r = 1 \<Longrightarrow>
    (in_learning_mode res (at_mode clk) \<Longrightarrow> r = refresh_request held c (Fin w) \<and> c \<notin> fst ` set replies \<and>
      (\<forall>l. map_of held c = Some l \<longrightarrow> in_force l (at_clean clk))) \<Longrightarrow>
    resource_Decide res clk r = Inr (res', l) \<Longrightarrow>
    service_reach u tpl i (at_assign clk) res' held ((c, lease_to_pb l) # replies)"
| arrives: "service_reach u tpl i t res held (rs @ (c, l) # rs') \<Longrightarrow> t \<le> t' \<Longrightarrow>
    service_reach u tpl i t' res (map_put held c l) (rs @ filter (\<lambda>(d, l). d \<noteq> c) rs')"
| gives_up: "service_reach u tpl i t res held replies \<Longrightarrow> t \<le> t' \<Longrightarrow>
    service_reach u tpl i t' res (map_del held c) (filter (\<lambda>(d, l). d \<noteq> c) replies)"
| releases: "service_reach u tpl i t res held replies \<Longrightarrow> t \<le> t' \<Longrightarrow> c \<notin> fst ` set held \<Longrightarrow> c \<notin> fst ` set replies \<Longrightarrow>
    service_reach u tpl i t' (resource_Release res c) held replies"
| takeover: "service_reach u tpl i t res held replies \<Longrightarrow> t < t' \<Longrightarrow>
    newResource (handleElectionOutcome t' True srv) i (Some tpl) = Inr res' \<Longrightarrow> service_reach u tpl i t' res' held replies"

text \<open>What the clients hold when the last replies have arrived.\<close>

definition settle :: "(string \<times> pb_Lease) list \<Rightarrow> (string \<times> pb_Lease) list \<Rightarrow> (string \<times> pb_Lease) list" where
  "settle held replies = foldr (\<lambda>(c, l) h. map_put h c l) replies held"

section \<open>What is assumed of the configuration\<close>

abbreviation lease_length :: "ResourceTemplate \<Rightarrow> duration" where
  "lease_length tpl \<equiv> seconds (Algorithm_GetLeaseLength (tpl_Algorithm tpl))"

definition learns_long :: "ResourceTemplate \<Rightarrow> bool" where
  "learns_long tpl = (0 < sint (lease_length tpl) \<and> sint (lease_length tpl) \<le> sint (learning_duration (tpl_Algorithm tpl)))"

definition shared_template :: "ResourceTemplate \<Rightarrow> rat \<Rightarrow> bool" where
  "shared_template tpl cap = (serviceable tpl \<and> Algorithm_GetKind (tpl_Algorithm tpl) \<in> {Algorithm_FAIR_SHARE, Algorithm_PROPORTIONAL_SHARE} \<and>
     ResourceTemplate_GetCapacity (Some tpl) = Fin cap \<and> 0 \<le> cap)"

text \<open>A configuration that leaves the length of the learning mode open lets it last as long as a lease.\<close>

lemma learns_long_default:
  assumes "tpl_Algorithm tpl = Some algo" and "alg_LearningModeDuration algo = None" and "0 < sint (lease_length tpl)"
  shows "learns_long tpl"
  using assms by (simp add: learns_long_def learning_duration_def)

section \<open>The invariant\<close>

lemma budget_bound:
  assumes "finite A" and "\<And>c. 0 \<le> (W c :: rat)"
  shows "distinct_keys xs \<Longrightarrow> list_all (\<lambda>e. fst e \<in> A \<and> f e \<le> W (fst e)) xs \<Longrightarrow> sum_list (map f xs) \<le> sum W A"
  using assms(1)
proof (induction xs arbitrary: A)
  case Nil
  then show ?case using assms(2) by (simp add: Groups_Big.sum_nonneg)
next
  case (Cons e xs)
  have "fst x \<noteq> fst e" if "x \<in> set xs" for x using Cons.prems(1) imageI [OF that, of fst] by (metis distinct.simps(2) list.simps(9) list.set_map)
  then have "list_all (\<lambda>x. fst x \<in> A - {fst e} \<and> f x \<le> W (fst x)) xs"
    using Cons.prems(2) by (simp add: list_all_iff)
  with Cons have "sum_list (map f xs) \<le> sum W (A - {fst e})" by simp
  moreover have "sum W A = W (fst e) + sum W (A - {fst e})"
    using Cons.prems(2,3) by (simp add: sum.remove)
  ultimately show ?case using Cons.prems(2) by simp
qed

lemma total_has_sum:
  assumes "finite A"
  shows "distinct_keys es \<Longrightarrow> fst ` set es \<subseteq> A \<Longrightarrow> sum (\<lambda>c. fval (lease_Has (lease_of es c))) A = total_has es"
  using assms
proof (induction es arbitrary: A)
  case Nil
  then show ?case by (simp add: lease_of_def total_has_def zero_Lease_def)
next
  case (Cons e es)
  obtain c l where e: "e = (c, l)" by force
  have "sum (\<lambda>d. fval (lease_Has (lease_of (e # es) d))) (A - {c}) = sum (\<lambda>d. fval (lease_Has (lease_of es d))) (A - {c})"
    by (rule sum.cong) (auto simp: e lease_of_def)
  also have "\<dots> = total_has es" using Cons.prems by (intro Cons.IH) (auto simp: e)
  finally have "sum (\<lambda>d. fval (lease_Has (lease_of (e # es) d))) A = fval (lease_Has l) + total_has es"
    using Cons.prems(2,3) by (subst sum.remove [of _ c]) (simp_all add: e lease_of_def)
  then show ?case by (simp add: e total_has_def)
qed

text \<open>A lease that a client may use after the learning mode is on the master's books.\<close>

definition on_books :: "time \<Rightarrow> Resource \<Rightarrow> string \<times> pb_Lease \<Rightarrow> bool" where
  "on_books t res = (\<lambda>(c, l). \<forall>now \<ge> t. \<not> in_learning_mode res now \<longrightarrow> in_force l now \<longrightarrow>
     (\<exists>l'. map_of (ls_leases (res_store res)) c = Some l' \<and> lease_Has l' = Lease_GetCapacity (Some l) \<and> now \<le> lease_Expiry l'))"

text \<open>Budgets of the clients, which together are within the capacity: no client holds more than its own,
  nor is more on the books.\<close>

definition budgets :: "population \<Rightarrow> rat \<Rightarrow> (string \<Rightarrow> rat) \<Rightarrow> time \<Rightarrow> (string \<times> Lease) list \<Rightarrow> (string \<times> pb_Lease) list \<Rightarrow> bool" where
  "budgets u cap W t es held = ((\<forall>c. 0 \<le> W c) \<and> sum W (fst ` set u) \<le> cap \<and>
     list_all (\<lambda>(c, l). in_force l t \<longrightarrow> fval (Lease_GetCapacity (Some l)) \<le> W c) held \<and>
     list_all (\<lambda>(c, l). fval (lease_Has l) \<le> W c) es)"

definition lease_fine :: "population \<Rightarrow> ResourceTemplate \<Rightarrow> time \<Rightarrow> string \<times> pb_Lease \<Rightarrow> bool" where
  "lease_fine u tpl t = (\<lambda>(c, l). belongs u c 1 \<and> (\<exists>x \<ge> 0. Lease_GetCapacity (Some l) = Fin x) \<and>
     Unix (Lease_GetExpiryTime (Some l)) \<le> t + sint (lease_length tpl))"

definition service_ok :: "population \<Rightarrow> ResourceTemplate \<Rightarrow> rat \<Rightarrow> time \<Rightarrow> Resource \<Rightarrow> (string \<times> pb_Lease) list \<Rightarrow> bool" where
  "service_ok u tpl cap t res held =
     (0 \<le> t \<and> res_config res = Some tpl \<and> res_expiryTime res = None \<and> resource_ok res \<and>
      list_all (sound_entry u) (ls_leases (res_store res)) \<and> distinct_keys held \<and> list_all (lease_fine u tpl t) held \<and>
      list_all (on_books t res) held \<and> (\<exists>W. budgets u cap W t (ls_leases (res_store res)) held))"

lemma belongs_in: "belongs u c n \<Longrightarrow> c \<in> fst ` set u"
  by (force simp: belongs_def split: option.splits dest: map_of_SomeD)

lemma service_total:
  assumes "service_ok u tpl cap t res held"
  shows "total_has (ls_leases (res_store res)) \<le> cap"
proof -
  have ok: "store_ok (res_store res)" and e: "list_all (sound_entry u) (ls_leases (res_store res))"
    using assms by (simp_all add: service_ok_def resource_ok_def)
  obtain W where W: "budgets u cap W t (ls_leases (res_store res)) held" using assms by (auto simp: service_ok_def)
  have "total_has (ls_leases (res_store res)) \<le> sum W (fst ` set u)"
    unfolding total_has_def using W e belongs_in
    by (intro budget_bound impl.ok_distinct [OF ok]) (fastforce simp: budgets_def list_all_iff sound_entry_def)+
  with W show ?thesis by (simp add: budgets_def)
qed

lemma service_sound:
  assumes "shared_template tpl cap" and "service_ok u tpl cap t res held"
  shows "sound u res" and "sharing_resource res"
  using assms service_total [OF assms(2)]
  by (auto simp: service_ok_def sound_def within_capacity_def resource_ok_def store_ok_def store_SumHas_def
      sharing_resource_def shared_template_def)

lemma service_held:
  assumes "service_ok u tpl cap t res held" and "t \<le> now" and "distinct_keys hs" and "set hs \<subseteq> set held"
  shows "held_total hs now \<le> cap"
proof -
  obtain W where W: "budgets u cap W t (ls_leases (res_store res)) held" using assms(1) by (auto simp: service_ok_def)
  have held: "list_all (lease_fine u tpl t) held" using assms(1) by (simp add: service_ok_def)
  have "held_total hs now \<le> sum W (fst ` set u)"
    unfolding held_total_def
  proof (rule budget_bound [OF _ _ assms(3)])
    have "c \<in> fst ` set u \<and> (if in_force l now then fval (Lease_GetCapacity (Some l)) else 0) \<le> W c"
      if "(c, l) \<in> set hs" for c l
    proof -
      have e: "(c, l) \<in> set held" using that assms(4) by blast
      then have "belongs u c 1" using held by (auto simp: lease_fine_def list_all_iff)
      moreover have "in_force l now \<Longrightarrow> in_force l t" using assms(2) by (simp add: in_force_def)
      ultimately show ?thesis using W e belongs_in [of u c 1] by (auto simp: budgets_def list_all_iff)
    qed
    then show "list_all (\<lambda>e. fst e \<in> fst ` set u \<and>
        (case e of (c, l) \<Rightarrow> if in_force l now then fval (Lease_GetCapacity (Some l)) else 0) \<le> W (fst e)) hs"
      by (auto simp: list_all_iff)
  qed (use W in \<open>simp_all add: budgets_def\<close>)
  with W show ?thesis by (simp add: budgets_def)
qed

text \<open>The invariant depends on the leases that are held, not on their order, and time may pass.\<close>

lemma service_same:
  assumes "service_ok u tpl cap t res held" and "distinct_keys held'" and "map_of held' = map_of held"
  shows "service_ok u tpl cap t res held'"
proof -
  have "distinct_keys held" using assms(1) by (simp add: service_ok_def)
  then have "set held' = set held" using assms(2,3) map_of_inject_set by blast
  with assms(1,2) show ?thesis by (simp add: service_ok_def budgets_def list_all_iff)
qed

lemma service_later:
  assumes "service_ok u tpl cap t res held" and "t \<le> t'"
  shows "service_ok u tpl cap t' res held"
proof -
  obtain W where W: "budgets u cap W t (ls_leases (res_store res)) held" using assms(1) by (auto simp: service_ok_def)
  have "in_force l t" if "in_force l t'" for l using that assms(2) by (simp add: in_force_def)
  then have "budgets u cap W t' (ls_leases (res_store res)) held" using W by (auto simp: budgets_def list_all_iff)
  moreover have "lease_fine u tpl t' e" if "lease_fine u tpl t e" for e using that assms(2) by (auto simp: lease_fine_def)
  moreover have "on_books t' res e" if "on_books t res e" for e using that assms(2) by (auto simp: on_books_def)
  ultimately show ?thesis using assms by (auto simp: service_ok_def list_all_iff)
qed

lemma distinct_settle: "distinct_keys held \<Longrightarrow> distinct_keys (settle held replies)"
  by (induction replies) (auto simp: settle_def distinct_keys_put)

lemma map_of_settle:
  "map_of (settle held replies) c = (case map_of replies c of None \<Rightarrow> map_of held c | Some l \<Rightarrow> Some l)"
  by (induction replies) (auto simp: settle_def map_of_put split: option.splits)

section \<open>The events keep the invariant\<close>

text \<open>A new resource has no leases and learns until every lease of its predecessor has expired.\<close>

lemma takeover_resource:
  assumes "shared_template tpl cap" and "learns_long tpl" and "newResource (handleElectionOutcome t True srv) i (Some tpl) = Inr res"
  shows "res_config res = Some tpl" "res_expiryTime res = None" "resource_ok res" "ls_leases (res_store res) = []"
    "t + sint (lease_length tpl) \<le> res_learningModeEndTime res"
proof -
  have "serviceable tpl" using assms(1) by (simp add: shared_template_def)
  from newResource_serviceable [OF this, of "handleElectionOutcome t True srv" i] assms(3)
  have res: "resource_wf res" "res_store res = NewLeaseStore i" "res_config res = Some tpl" "res_expiryTime res = None"
    "res_learningModeEndTime res = GetLearningModeEndTime (handleElectionOutcome t True srv) (learning_duration (tpl_Algorithm tpl))"
    by auto
  show "res_config res = Some tpl" "res_expiryTime res = None" by (simp_all add: res)
  show "resource_ok res" using res(1,2) by (simp add: resource_ok_def resource_wf_def)
  show "ls_leases (res_store res) = []" by (simp add: res(2) NewLeaseStore_def)
  show "t + sint (lease_length tpl) \<le> res_learningModeEndTime res"
    using assms(2) by (simp add: res(5) learns_long_def GetLearningModeEndTime_def Seconds_def time_Add_def
        handleElectionOutcome_def Let_def)
qed

lemma service_takeover:
  assumes "shared_template tpl cap" and "learns_long tpl" and "service_ok u tpl cap t res held" and "t < t'"
    and "newResource (handleElectionOutcome t' True srv) i (Some tpl) = Inr res'"
  shows "service_ok u tpl cap t' res' held"
proof -
  note res = takeover_resource [OF assms(1,2,5)]
  have held: "distinct_keys held" "list_all (lease_fine u tpl t) held" and t: "0 \<le> t"
    using assms(3) by (simp_all add: service_ok_def)
  obtain W where W: "budgets u cap W t (ls_leases (res_store res)) held" using assms(3) by (auto simp: service_ok_def)
  have "on_books t' res' e" if "e \<in> set held" for e
  proof -
    from that held(2) have "lease_fine u tpl t e" by (simp add: list_all_iff)
    then show ?thesis
      using assms(4) res(5) by (auto simp: lease_fine_def on_books_def in_force_def in_learning_mode_def After_def)
  qed
  moreover have "lease_fine u tpl t' e" if "e \<in> set held" for e
    using that held(2) assms(4) by (fastforce simp: list_all_iff lease_fine_def)
  moreover have "budgets u cap W t' (ls_leases (res_store res')) held"
    using W assms(4) by (auto simp: budgets_def res(4) list_all_iff in_force_def)
  ultimately show ?thesis
    using t assms(4) held(1) res by (auto simp: service_ok_def list_all_iff)
qed

lemma service_first:
  assumes "population_ok u" and "shared_template tpl cap" and "learns_long tpl" and "0 \<le> t"
    and "newResource (handleElectionOutcome t True srv) i (Some tpl) = Inr res"
  shows "service_ok u tpl cap t res []"
  using takeover_resource [OF assms(2,3,5)] assms(2,4)
  by (auto simp: service_ok_def budgets_def shared_template_def intro!: exI [of _ "\<lambda>c. 0"])

lemma service_gives_up:
  assumes "service_ok u tpl cap t res held"
  shows "service_ok u tpl cap t res (map_del held c)"
proof -
  obtain W where "budgets u cap W t (ls_leases (res_store res)) held" using assms by (auto simp: service_ok_def)
  then have "budgets u cap W t (ls_leases (res_store res)) (map_del held c)"
    using all_map_del by (auto simp: budgets_def)
  then show ?thesis using assms by (auto simp: service_ok_def distinct_keys_del intro: all_map_del)
qed

lemma service_release:
  assumes "shared_template tpl cap" and "service_ok u tpl cap t res held" and "c \<notin> fst ` set held"
  shows "service_ok u tpl cap t (resource_Release res c) held"
proof -
  note snd = service_sound [OF assms(1,2)]
  have ok: "0 \<le> t" "res_config res = Some tpl" "res_expiryTime res = None" "distinct_keys held" "list_all (lease_fine u tpl t) held"
    "list_all (on_books t res) held"
    using assms(2) by (simp_all add: service_ok_def)
  obtain W where W: "budgets u cap W t (ls_leases (res_store res)) held" using assms(2) by (auto simp: service_ok_def)
  have rel: "sound u (resource_Release res c)"
    using sound_Release [OF snd] by (simp add: resource_Release_def)
  have "on_books t (resource_Release res c) e" if e: "e \<in> set held" for e
  proof -
    have "fst e \<noteq> c" using assms(3) imageI [OF e, of fst] by metis
    then show ?thesis
      using ok(6) e
      by (fastforce simp: list_all_iff on_books_def resource_Release_def store_Release_leases map_of_del in_learning_mode_def)
  qed
  moreover have "budgets u cap W t (map_del (ls_leases (res_store res)) c) held"
    using W all_map_del by (auto simp: budgets_def)
  ultimately show ?thesis
    using rel ok by (auto simp: service_ok_def sound_def resource_Release_def store_Release_leases list_all_iff)
qed

text \<open>In learning mode a client gets what it reports.\<close>

lemma learning_grant:
  assumes "resource_ok res" and "in_learning_mode res (at_mode clk)" and "isFinite (req_Has r)" and "isFinite (req_Wants r)"
    and "resource_Decide res clk r = Inr (res', l)"
  shows "lease_Has l = req_Has r" and "resource_ok res'"
proof -
  obtain cfg where cfg: "res_config res = Some cfg" "res_learner res = Some (Learn (tpl_Algorithm cfg))"
    using assms(1) by (auto simp: resource_ok_def elim: configuredE)
  let ?a = "Learn (tpl_Algorithm cfg) (fst (store_Clean (res_store res) (at_clean clk))) (at_assign clk)
      (resource_capacity res (at_capacity clk)) r"
  have l: "l = snd ?a" "res' = res\<lparr>res_store := fst ?a\<rparr>"
    using assms(2,5) cfg(2) by (auto simp: resource_Decide_def Let_def case_prod_unfold)
  show has: "lease_Has l = req_Has r" by (simp add: l(1) Learn_def getAlgorithmParams_def store_Assign_lease)
  have "store_ok (res_store res)" using assms(1) by (simp add: resource_ok_def)
  then have "store_ok (fst ?a)"
    using has assms(3,4) by (intro learn.alg_ok impl.ok_clean) (simp_all add: l(1))
  then show "resource_ok res'" using assms(1) by (simp add: l(2) resource_ok_def)
qed

text \<open>What a refresh does to the books and to what the clients hold.\<close>

lemma on_books_other:
  assumes "on_books t res (c', l')" and "distinct_keys (ls_leases (res_store res))" and "t \<le> clean" and "clean \<le> t'"
    and "res' = res\<lparr>res_store := s\<rparr>" and "ls_leases s = map_put (live clean (ls_leases (res_store res))) c l" and "c' \<noteq> c"
  shows "on_books t' res' (c', l')"
  unfolding on_books_def prod.case
proof (intro allI impI)
  fix now assume now: "t' \<le> now" "\<not> in_learning_mode res' now" "in_force l' now"
  then have "\<not> in_learning_mode res now" by (simp add: assms(5) in_learning_mode_def)
  moreover have "t \<le> now" using now(1) assms(3,4) by simp
  ultimately obtain m where m:
    "map_of (ls_leases (res_store res)) c' = Some m" "lease_Has m = Lease_GetCapacity (Some l')" "now \<le> lease_Expiry m"
    using assms(1) now(3) by (auto simp: on_books_def)
  moreover from m(3) now(1) assms(4) have "\<not> After clean (lease_Expiry m)" by (simp add: After_def)
  ultimately show "\<exists>m. map_of (ls_leases (res_store res')) c' = Some m \<and> lease_Has m = Lease_GetCapacity (Some l') \<and>
      now \<le> lease_Expiry m"
    using assms(7) by (simp add: assms(5,6) map_of_put map_of_live [OF assms(2)])
qed

lemma refresh_frame:
  assumes "service_ok u tpl cap t res held" and "clock_after t clk" and "belongs u c 1"
    and "req_Client r = c" and "req_Wants r = Fin w" and "req_Subclients r = 1"
    and "resource_Decide res clk r = Inr (res', l)" and "lease_Has l = Fin x" and "0 \<le> x"
  shows "ls_leases (res_store res') = map_put (live (at_clean clk) (ls_leases (res_store res))) c l"
    and "res_config res' = Some tpl \<and> res_expiryTime res' = None \<and> res_learningModeEndTime res' = res_learningModeEndTime res"
    and "list_all (sound_entry u) (ls_leases (res_store res'))"
    and "list_all (lease_fine u tpl (at_assign clk)) (map_put held c (lease_to_pb l))"
    and "list_all (on_books (at_assign clk) res') (map_put held c (lease_to_pb l))"
proof -
  have ok: "0 \<le> t" "res_config res = Some tpl" "res_expiryTime res = None" "resource_ok res" "distinct_keys held"
    "list_all (lease_fine u tpl t) held" "list_all (on_books t res) held" "list_all (sound_entry u) (ls_leases (res_store res))"
    using assms(1) by (simp_all add: service_ok_def)
  have clk: "t \<le> at_clean clk" "at_clean clk \<le> at_assign clk" "at_assign clk < 2 ^ 63"
    using assms(2) by (simp_all add: clock_after_def)
  have d: "distinct_keys (ls_leases (res_store res))" using ok(4) by (auto simp: resource_ok_def intro: impl.ok_distinct)
  obtain s where s: "res' = res\<lparr>res_store := s\<rparr>" "ls_leases s = map_put (live (at_clean clk) (ls_leases (res_store res))) c l"
    "lease_Expiry l = at_assign clk + sint (lease_length tpl)" "lease_Subclients l = 1"
    using Decide_effect [OF resource_ok_wf [OF ok(4)] ok(2), of clk r] assms(4-7)
    by (auto simp: time_Add_def)
  show "ls_leases (res_store res') = map_put (live (at_clean clk) (ls_leases (res_store res))) c l" by (simp add: s)
  show "res_config res' = Some tpl \<and> res_expiryTime res' = None \<and> res_learningModeEndTime res' = res_learningModeEndTime res"
    using ok(2,3) by (simp add: s(1))
  have "sound_entry u (c, l)" using assms(3,8,9) s(4) by (simp add: sound_entry_def)
  moreover have "list_all (sound_entry u) (live (at_clean clk) (ls_leases (res_store res)))"
    using ok(8) by (auto simp: live_def list_all_iff)
  ultimately show "list_all (sound_entry u) (ls_leases (res_store res'))"
    using set_map_put [of c l "live (at_clean clk) (ls_leases (res_store res))"] by (auto simp: s list_all_iff)
  have "Unix (to_unix (lease_Expiry l)) \<le> lease_Expiry l"
    using ok(1) clk by (intro Decide_expiry [OF resource_ok_wf [OF ok(4)] assms(7)]) simp_all
  then have view: "Lease_GetCapacity (Some (lease_to_pb l)) = Fin x"
    "Unix (Lease_GetExpiryTime (Some (lease_to_pb l))) \<le> lease_Expiry l"
    using assms(8) by (simp_all add: lease_to_pb_def Lease_GetCapacity_def Lease_GetExpiryTime_def)
  show "list_all (lease_fine u tpl (at_assign clk)) (map_put held c (lease_to_pb l))"
    unfolding list_all_iff
  proof
    fix e assume e: "e \<in> set (map_put held c (lease_to_pb l))"
    obtain c' l' where c': "e = (c', l')" by force
    from e have "if c' = c then l' = lease_to_pb l else (c', l') \<in> set held" unfolding c' in_map_put_iff [OF ok(5)] .
    then show "lease_fine u tpl (at_assign clk) e"
      using ok(6) clk assms(3,9) view s(3) by (fastforce simp: c' list_all_iff lease_fine_def split: if_splits)
  qed
  show "list_all (on_books (at_assign clk) res') (map_put held c (lease_to_pb l))"
    unfolding list_all_iff
  proof
    fix e assume e: "e \<in> set (map_put held c (lease_to_pb l))"
    obtain c' l' where c': "e = (c', l')" by force
    from e have m: "if c' = c then l' = lease_to_pb l else (c', l') \<in> set held" unfolding c' in_map_put_iff [OF ok(5)] .
    show "on_books (at_assign clk) res' e"
    proof (cases "c' = c")
      case True
      with m view assms(8) show ?thesis by (auto simp: c' on_books_def s map_of_put in_force_def)
    next
      case False
      with m ok(7) have "on_books t res (c', l')" by (auto simp: list_all_iff)
      from on_books_other [OF this d clk(1,2) s(1,2) False] show ?thesis by (simp add: c')
    qed
  qed
qed

text \<open>In learning mode the master grants what the client has held, so the budget stays.\<close>

lemma refresh_learning:
  assumes "service_ok u tpl cap t res held" and "clock_after t clk" and "belongs u c 1" and "in_learning_mode res (at_mode clk)"
    and prompt: "\<And>l. map_of held c = Some l \<Longrightarrow> in_force l (at_clean clk)"
    and dec: "resource_Decide res clk (refresh_request held c (Fin w)) = Inr (res', l)"
  shows "\<exists>x \<ge> 0. lease_Has l = Fin x \<and> resource_ok res' \<and>
    (\<exists>W. budgets u cap W (at_assign clk) (ls_leases (res_store res')) (map_put held c (lease_to_pb l)))"
proof -
  let ?es = "ls_leases (res_store res)" let ?es' = "ls_leases (res_store res')"
  let ?held = "map_put held c (lease_to_pb l)"
  have held: "distinct_keys held" "list_all (lease_fine u tpl t) held" and rok: "resource_ok res"
    using assms(1) by (simp_all add: service_ok_def)
  obtain W where W: "budgets u cap W t ?es held" using assms(1) by (auto simp: service_ok_def)
  have clk: "t \<le> at_clean clk" "at_clean clk \<le> at_mode clk" "at_mode clk \<le> at_assign clk"
    using assms(2) by (simp_all add: clock_after_def)
  obtain x where x: "Lease_GetCapacity (map_of held c) = Fin x" "0 \<le> x" "x \<le> W c"
  proof (cases "map_of held c")
    case None
    with W that [of 0] show ?thesis by (simp add: budgets_def Lease_GetCapacity_def)
  next
    case (Some l)
    then have l: "(c, l) \<in> set held" by (rule map_of_SomeD)
    moreover have "in_force l t" using prompt [OF Some] clk(1) by (simp add: in_force_def)
    ultimately show ?thesis
      using W held(2) that Some by (fastforce simp: budgets_def list_all_iff lease_fine_def)
  qed
  have grant: "lease_Has l = Fin x" "resource_ok res'"
    using learning_grant [OF rok assms(4) _ _ dec] x(1) by (simp_all add: refresh_request_def)
  have r: "req_Client (refresh_request held c (Fin w)) = c" "req_Wants (refresh_request held c (Fin w)) = Fin w"
    "req_Subclients (refresh_request held c (Fin w)) = 1" by (simp_all add: refresh_request_def)
  note frame = refresh_frame [OF assms(1-3) r dec grant(1) x(2)]
  have view: "fval (Lease_GetCapacity (Some (lease_to_pb l))) = x" by (simp add: lease_to_pb_def Lease_GetCapacity_def grant(1))
  have "fval (lease_Has l'') \<le> W c''" if "(c'', l'') \<in> set ?es'" for c'' l''
    using that W x(3) grant(1) set_map_put [of c l "live (at_clean clk) ?es"]
    by (force simp: frame(1) budgets_def list_all_iff live_def)
  moreover have "fval (Lease_GetCapacity (Some l'')) \<le> W c''" if "(c'', l'') \<in> set ?held" "in_force l'' (at_assign clk)" for c'' l''
  proof (cases "c'' = c")
    case True
    with that(1) view x(3) show ?thesis by (simp add: in_map_put_iff [OF held(1)])
  next
    case False
    with that(1) have "(c'', l'') \<in> set held" by (simp add: in_map_put_iff [OF held(1)])
    moreover have "in_force l'' t" using that(2) clk by (simp add: in_force_def)
    ultimately show ?thesis using W by (auto simp: budgets_def list_all_iff)
  qed
  ultimately have "budgets u cap W (at_assign clk) ?es' ?held" using W by (auto simp: budgets_def list_all_iff)
  with grant x(2) show ?thesis by auto
qed

text \<open>Out of learning mode the leases of the store are a budget.\<close>

lemma refresh_deciding:
  assumes "population_ok u" and "shared_template tpl cap" and "service_ok u tpl cap t res held" and "clock_after t clk"
    and "belongs u c 1" and "0 \<le> w" and "\<not> in_learning_mode res (at_mode clk)"
    and r: "req_Client r = c" "req_Wants r = Fin w" "req_Subclients r = 1"
    and dec: "resource_Decide res clk r = Inr (res', l)"
  shows "\<exists>x \<ge> 0. lease_Has l = Fin x \<and> resource_ok res' \<and>
    (\<exists>W. budgets u cap W (at_assign clk) (ls_leases (res_store res')) (map_put held c (lease_to_pb l)))"
proof -
  let ?es' = "ls_leases (res_store res')"
  let ?held = "map_put held c (lease_to_pb l)" and ?W = "\<lambda>c. fval (lease_Has (lease_of (ls_leases (res_store res')) c))"
  note ok = service_sound [OF assms(2,3)]
  have rok: "resource_ok res" using assms(3) by (simp add: service_ok_def)
  have fair: "fair_request u r"
    using assms(5,6) r by (simp add: fair_request_def)
  have snd: "sound u res'" by (rule sound_Decide [OF assms(1) ok fair assms(7) dec])
  then have rok': "resource_ok res'" by (simp add: sound_def)
  obtain s where s: "res' = res\<lparr>res_store := s\<rparr>" "ls_leases s = map_put (live (at_clean clk) (ls_leases (res_store res))) c l"
    using Decide_effect [OF resource_ok_wf [OF rok], of tpl clk r] dec assms(3)
    by (auto simp: r service_ok_def)
  have "(c, l) \<in> set ?es'" by (intro map_of_SomeD) (simp add: s map_of_put)
  then have "sound_entry u (c, l)" "isFinite (lease_Has l)"
    using snd by (auto simp: sound_def list_all_iff resource_ok_def store_ok_def entries_ok_def finite_lease_def)
  then obtain x where x: "lease_Has l = Fin x" "0 \<le> x" by (auto simp: sound_entry_def isFinite_iff)
  note frame = refresh_frame [OF assms(3-5) r dec x]
  have d': "distinct_keys ?es'" using rok' by (auto simp: resource_ok_def intro: impl.ok_distinct)
  have keys: "fst ` set ?es' \<subseteq> fst ` set u"
    using frame(3) belongs_in by (fastforce simp: list_all_iff sound_entry_def)
  have "sum ?W (fst ` set u) = total_has ?es'" by (rule total_has_sum [OF _ d' keys]) simp
  also have "\<dots> \<le> cap" by (rule sound_total [OF snd]) (use assms(2) frame(2) in \<open>simp add: shared_template_def\<close>)
  finally have "sum ?W (fst ` set u) \<le> cap" .
  moreover have pos: "0 \<le> ?W c" for c
    using frame(3) by (fastforce simp: lease_of_def list_all_iff sound_entry_def zero_Lease_def split: option.splits dest: map_of_SomeD)
  moreover have "fval (Lease_GetCapacity (Some l'')) \<le> ?W c''" if "(c'', l'') \<in> set ?held" "in_force l'' (at_assign clk)" for c'' l''
  proof -
    have "on_books (at_assign clk) res' (c'', l'')" using frame(5) that(1) by (simp add: list_all_iff)
    moreover have "\<not> in_learning_mode res' (at_assign clk)"
      using assms(4,7) by (simp add: s(1) clock_after_def in_learning_mode_def After_def)
    ultimately show ?thesis using that(2) by (auto simp: on_books_def lease_of_def)
  qed
  moreover have "fval (lease_Has l'') \<le> ?W c''" if "(c'', l'') \<in> set ?es'" for c'' l''
    using map_of_is_SomeI [OF d' that] by (simp add: lease_of_def)
  ultimately have "budgets u cap ?W (at_assign clk) ?es' ?held" by (auto simp: budgets_def list_all_iff)
  with x rok' show ?thesis by blast
qed

lemma service_decides:
  assumes "population_ok u" and "shared_template tpl cap" and "service_ok u tpl cap t res held" and "clock_after t clk"
    and "belongs u c 1" and "0 \<le> w" and r: "req_Client r = c" "req_Wants r = Fin w" "req_Subclients r = 1"
    and prompt: "in_learning_mode res (at_mode clk) \<Longrightarrow> r = refresh_request held c (Fin w) \<and>
      (\<forall>l. map_of held c = Some l \<longrightarrow> in_force l (at_clean clk))"
    and dec: "resource_Decide res clk r = Inr (res', l)"
  shows "service_ok u tpl cap (at_assign clk) res' (map_put held c (lease_to_pb l))"
proof -
  obtain x where x: "0 \<le> x" "lease_Has l = Fin x" "resource_ok res'"
    "\<exists>W. budgets u cap W (at_assign clk) (ls_leases (res_store res')) (map_put held c (lease_to_pb l))"
    using refresh_learning [OF assms(3-5), of w res' l] refresh_deciding [OF assms(1-6) _ r dec] prompt dec
    by (cases "in_learning_mode res (at_mode clk)") auto
  have held: "0 \<le> t" "distinct_keys held" using assms(3) by (simp_all add: service_ok_def)
  have clk: "t \<le> at_assign clk" using assms(4) by (simp add: clock_after_def)
  note frame = refresh_frame [OF assms(3-5) r dec x(2,1)]
  show ?thesis using clk held x(3,4) frame by (simp add: service_ok_def AList.distinct_update)
qed

text \<open>The invariant holds of what the clients will hold when the replies have arrived.\<close>

lemma service_reach_ok:
  assumes "population_ok u" and "shared_template tpl cap" and "learns_long tpl" and "service_reach u tpl i t res held replies"
  shows "service_ok u tpl cap t res (settle held replies) \<and> distinct_keys held"
  using assms(4)
proof (induction rule: service_reach.induct)
  case (first_master t srv res)
  then show ?case using service_first [OF assms(1-3)] by (simp add: settle_def)
next
  case (decides t res held replies clk c w r res' l)
  have ok: "service_ok u tpl cap t res (settle held replies)" using decides.IH by simp
  have "r = refresh_request (settle held replies) c (Fin w) \<and>
      (\<forall>l. map_of (settle held replies) c = Some l \<longrightarrow> in_force l (at_clean clk))" if "in_learning_mode res (at_mode clk)"
  proof -
    have "map_of replies c = None" using decides.hyps(8) [OF that] by (simp add: map_of_eq_None_iff)
    then show ?thesis using decides.hyps(8) [OF that] by (simp add: refresh_request_def map_of_settle)
  qed
  from service_decides [OF assms(1,2) ok decides.hyps(2-7) this decides.hyps(9)] decides.IH
  show ?case by (simp add: settle_def)
next
  case (arrives t res held rs c l rs' t')
  let ?replies = "rs @ filter (\<lambda>(d, l). d \<noteq> c) rs'"
  have filt: "map_of (filter (\<lambda>(d, l). d \<noteq> c) rs') d = (if d = c then None else map_of rs' d)" for d
    by (induction rs') auto
  have "map_of (settle (map_put held c l) ?replies) = map_of (settle held (rs @ (c, l) # rs'))"
    by (rule ext) (auto simp: map_of_settle map_add_def map_of_put filt split: option.splits)
  moreover have "distinct_keys (map_put held c l)" using arrives.IH distinct_keys_put by blast
  ultimately show ?case
    using service_same [OF _ distinct_settle] service_later [OF _ arrives.hyps(2)] arrives.IH by blast
next
  case (gives_up t res held replies t' c)
  have filt: "map_of (filter (\<lambda>(d, l). d \<noteq> c) replies) d = (if d = c then None else map_of replies d)" for d
    by (induction replies) auto
  have ok: "service_ok u tpl cap t res (map_del (settle held replies) c)" using gives_up.IH service_gives_up by blast
  have "map_of (settle (map_del held c) (filter (\<lambda>(d, l). d \<noteq> c) replies)) = map_of (map_del (settle held replies) c)"
    by (rule ext) (auto simp: map_of_settle map_of_del filt split: option.splits)
  moreover have "distinct_keys (map_del held c)" using gives_up.IH distinct_keys_del by blast
  ultimately show ?case
    using service_same [OF ok distinct_settle] service_later [OF _ gives_up.hyps(2)] by blast
next
  case (releases t res held replies t' c)
  have "map_of (settle held replies) c = None"
    using releases.hyps(3,4) by (simp add: map_of_settle map_of_eq_None_iff [THEN iffD2])
  then have "c \<notin> fst ` set (settle held replies)" by (simp add: map_of_eq_None_iff)
  from service_release [OF assms(2) _ this] service_later [OF _ releases.hyps(2)] releases.IH show ?case by blast
next
  case (takeover t res held replies t' srv res')
  then show ?case using service_takeover [OF assms(2,3)] by blast
qed

section \<open>Properties\<close>

text \<open>C3. Leases survive a change of the master. Clients of a population whose subclients cannot overflow
  the counters, each with one subclient and wants that are not negative, refresh and give up the leases of
  a resource with a sharing algorithm and a fixed configuration;
  the master decides at one time, and its reply arrives later, or never; masters take over from
  each other one after the other, each with a resource without leases and a learning mode as long as a lease; time is
  the same everywhere. A client reports to a learning master only a lease in force, and no lease
  that a reply on its way replaces; and a lease is released by the master only when the client has given it
  up. Then at every moment the leases in force at the clients that are not behind a reply are
  together within the capacity, and so are the leases of all clients once the last replies have
  arrived, and the leases on the master's books.\<close>

theorem failover_within_capacity:
  assumes "population_ok u" and "shared_template tpl cap" and "learns_long tpl" and "service_reach u tpl i t res held replies"
    and "t \<le> now"
  shows "held_total (filter (\<lambda>(c, l). c \<notin> fst ` set replies) held) now \<le> cap \<and>
    held_total (settle held replies) now \<le> cap \<and> store_SumHas (res_store res) \<le> Fin cap"
proof -
  from service_reach_ok [OF assms(1-4)]
  have ok: "service_ok u tpl cap t res (settle held replies)" and d: "distinct_keys held" by simp_all
  have "store_ok (res_store res)" using ok by (simp add: service_ok_def resource_ok_def)
  moreover have "set (filter (\<lambda>(c, l). c \<notin> fst ` set replies) held) \<subseteq> set (settle held replies)"
  proof
    fix e assume "e \<in> set (filter (\<lambda>(c, l). c \<notin> fst ` set replies) held)"
    then have "e \<in> set held" "case e of (c, l) \<Rightarrow> c \<notin> fst ` set replies" by simp_all
    then obtain c l where e: "e = (c, l)" "(c, l) \<in> set held" "c \<notin> fst ` set replies" by blast
    then have "map_of (settle held replies) c = Some l" using d by (simp add: map_of_settle map_of_eq_None_iff [THEN iffD2])
    then show "e \<in> set (settle held replies)" unfolding e(1) by (rule map_of_SomeD)
  qed
  moreover have "distinct_keys (filter (\<lambda>(c, l). c \<notin> fst ` set replies) held)" using d by (rule distinct_map_filter)
  ultimately show ?thesis
    using service_held [OF ok assms(5)] service_total [OF ok] distinct_settle [OF d] by (simp add: store_ok_def store_SumHas_def)
qed

text \<open>Two clients share 100; the master is replaced at the time of 61 seconds, and learns until 121 seconds.\<close>

definition example_lease_at :: "time \<Rightarrow> rat \<Rightarrow> rat \<Rightarrow> Lease" where
  "example_lease_at t h w = \<lparr>lease_Expiry = t + 60000000000, lease_RefreshInterval = seconds 5, lease_Has = Fin h,
     lease_Wants = Fin w, lease_Subclients = 1\<rparr>"

definition store_of :: "(string \<times> Lease) list \<Rightarrow> leaseStoreImpl" where
  "store_of es = \<lparr>ls_id = ''r'', ls_leases = es, ls_sumWants = Fin (total_wants es), ls_sumHas = Fin (total_has es),
     ls_count = total_subclients es\<rparr>"

abbreviation example_master :: "(string \<times> Lease) list \<Rightarrow> time \<Rightarrow> Resource" where
  "example_master es t \<equiv> example_resource (store_of es) t"

lemma example_master_new:
  "newResource (handleElectionOutcome t True srv) ''r'' (Some (example_template Algorithm_FAIR_SHARE)) =
     Inr (example_master [] (t + 60000000000))"
  by (simp add: newResource_def resource_LoadConfig_def example_template_def example_resource_def
      example_fair [unfolded example_config_def] example_config_def ResourceTemplate_GetAlgorithm_def GetLearningModeEndTime_def Seconds_def sint_seconds handleElectionOutcome_def
      Algorithm_GetLeaseLength_def time_Add_def NewLeaseStore_def store_of_def total_has_def total_wants_def total_subclients_def Let_def)

lemma example_shared: "shared_template (example_template Algorithm_FAIR_SHARE) 100"
  by (simp add: shared_template_def serviceable_def example_template_def example_config_def known_kind_def
      Algorithm_GetKind_def ResourceTemplate_GetCapacity_def)

lemma example_learns: "learns_long (example_template Algorithm_FAIR_SHARE)"
  by (simp add: learns_long_def learning_duration_def example_template_def example_config_def Algorithm_GetLeaseLength_def
      sint_seconds)

lemmas example_decision = resource_Decide_def store_Clean_def in_learning_mode_def After_def example_clock_def example_resource_def
  resource_capacity_def example_template_def ResourceTemplate_GetCapacity_def store_of_def refresh_request_def FairShare_def Learn_def
  store_Get_def store_Release_def store_Assign_def store_Count_def store_SumHas_def total_has_def total_wants_def total_subclients_def
  getAlgorithmParams_def example_config_def Algorithm_GetLeaseLength_def Algorithm_GetRefreshInterval_def time_Add_def
  sint_seconds example_lease_at_def minF_def float64_def store_Map_def fs_round1_def Let_def

lemmas example_view = lease_to_pb_def example_lease_at_def Lease_GetCapacity_def Lease_GetExpiryTime_def in_force_def Unix_def to_unix_def
  held_total_def

lemma first_grant: "resource_Decide (example_master [] 60000000000) (example_clock 60000000000) (refresh_request [] ''a'' (Fin 80)) =
    Inr (example_master [(''a'', example_lease_at 60000000000 80 80)] 60000000000, example_lease_at 60000000000 80 80)"
  by (simp add: example_decision)

lemma second_grant:
  "resource_Decide (example_master [(''a'', example_lease_at 60000000000 80 80)] 60000000000) (example_clock 60000000000)
      (refresh_request held ''b'' (Fin 15)) =
    Inr (example_master [(''a'', example_lease_at 60000000000 80 80), (''b'', example_lease_at 60000000000 15 15)] 60000000000,
      example_lease_at 60000000000 15 15)"
  by (simp add: example_decision)

lemma learned_grant:
  "resource_Decide (example_master [] 121000000000) (example_clock 62000000000)
      (refresh_request [(''a'', lease_to_pb (example_lease_at 60000000000 80 80)), b] ''a'' (Fin 90)) =
    Inr (example_master [(''a'', example_lease_at 62000000000 80 90)] 121000000000, example_lease_at 62000000000 80 90)"
  by (simp add: example_decision example_view)

theorem failover_within_capacity_witness:
  "\<exists>res held. service_reach [(''a'', 1), (''b'', 1)] (example_template Algorithm_FAIR_SHARE) ''r'' 62000000000 res held [] \<and>
     held_total held 63000000000 = 95 \<and> held_total held 63000000000 \<le> 100 \<and> store_SumHas (res_store res) \<le> Fin 100"
proof -
  let ?reach = "service_reach [(''a'', 1), (''b'', 1)] (example_template Algorithm_FAIR_SHARE) ''r''"
  let ?a = "lease_to_pb (example_lease_at 60000000000 80 80)" let ?b = "lease_to_pb (example_lease_at 60000000000 15 15)"
  let ?a' = "lease_to_pb (example_lease_at 62000000000 80 90)"
  have in_pop: "belongs [(''a'', 1), (''b'', 1)] ''a'' 1" "belongs [(''a'', 1), (''b'', 1)] ''b'' 1" by (simp_all add: belongs_def)
  have clk: "clock_after t (example_clock t')" if "0 \<le> t" "t \<le> t'" "t' < 2 ^ 63" for t t'
    using that by (simp add: clock_after_def example_clock_def)
  have now: "at_assign (example_clock t) = t" "at_mode (example_clock t) = t" "at_clean (example_clock t) = t" for t
    by (simp_all add: example_clock_def)
  have end_of: "in_learning_mode (example_master es t) now = (now < t)" for es t now
    by (simp add: in_learning_mode_def example_resource_def After_def)
  have ask: "req_Client (refresh_request held c (Fin w)) = c" "req_Wants (refresh_request held c (Fin w)) = Fin w"
    "req_Subclients (refresh_request held c (Fin w)) = 1" for held c w
    by (simp_all add: refresh_request_def)
  have "?reach 0 (example_master [] 60000000000) [] []"
    using example_master_new [of 0 "example_server []"] by (intro first_master) simp_all
  from decides [OF this clk in_pop(1) _ ask _ first_grant] have
    "?reach 60000000000 (example_master [(''a'', example_lease_at 60000000000 80 80)] 60000000000) [] ([] @ (''a'', ?a) # [])"
    by (simp add: now end_of)
  from arrives [OF this order_refl] have
    "?reach 60000000000 (example_master [(''a'', example_lease_at 60000000000 80 80)] 60000000000) [(''a'', ?a)] []" by simp
  from decides [OF this clk in_pop(2) _ ask _ second_grant] have
    "?reach 60000000000 (example_master [(''a'', example_lease_at 60000000000 80 80), (''b'', example_lease_at 60000000000 15 15)] 60000000000)
       [(''a'', ?a)] ([] @ (''b'', ?b) # [])"
    by (simp add: now end_of)
  from takeover [OF this _ example_master_new [of 61000000000 "example_server []"]] have
    "?reach 61000000000 (example_master [] 121000000000) [(''a'', ?a)] ([] @ (''b'', ?b) # [])" by simp
  from arrives [OF this order_refl] have "?reach 61000000000 (example_master [] 121000000000) [(''a'', ?a), (''b'', ?b)] []" by simp
  from decides [OF this clk in_pop(1) _ ask _ learned_grant] have
    "?reach 62000000000 (example_master [(''a'', example_lease_at 62000000000 80 90)] 121000000000) [(''a'', ?a), (''b'', ?b)] ([] @ (''a'', ?a') # [])"
    by (simp add: now end_of example_view)
  from arrives [OF this order_refl] have reach:
    "?reach 62000000000 (example_master [(''a'', example_lease_at 62000000000 80 90)] 121000000000) [(''a'', ?a'), (''b'', ?b)] []" by simp
  have pop: "population_ok [(''a'', 1), (''b'', 1)]" by (simp add: population_ok_def)
  have total: "held_total [(''a'', ?a'), (''b'', ?b)] 63000000000 = 95" by (simp add: example_view)
  have "(62000000000 :: time) \<le> 63000000000" by simp
  from failover_within_capacity [OF pop example_shared example_learns reach this] total reach show ?thesis
    by (intro exI conjI) (assumption | simp)+
qed

text \<open>A client behind a reply may hold more: one that had all of the capacity refreshes its lease and is
  granted half, and the other half goes to another client. If the first reply is lost, they hold
  half as much again as there is, until the lease expires.\<close>

lemma lost_reply_overcommits:
  "\<exists>res1 l1 res2 l2 res3 l3.
     resource_Decide (example_master [] 60000000000) (example_clock 60000000000) (refresh_request [] ''a'' (Fin 100)) = Inr (res1, l1) \<and>
     resource_Decide res1 (example_clock 61000000000) (refresh_request [] ''b'' (Fin 100)) = Inr (res2, l2) \<and>
     resource_Decide res2 (example_clock 62000000000) (refresh_request [(''a'', lease_to_pb l1)] ''a'' (Fin 100)) = Inr (res3, l3) \<and>
     (\<exists>res4 l4. resource_Decide res3 (example_clock 63000000000) (refresh_request [(''b'', lease_to_pb l2)] ''b'' (Fin 100)) = Inr (res4, l4) \<and>
       lease_Has l3 = Fin 50 \<and> held_total [(''a'', lease_to_pb l1), (''b'', lease_to_pb l4)] 64000000000 = 150)"
proof -
  let ?m = "\<lambda>es. example_master es 60000000000"
  let ?a = "(''a'', example_lease_at 60000000000 100 100)" and ?b = "(''b'', example_lease_at 61000000000 0 100)"
  let ?a' = "(''a'', example_lease_at 62000000000 50 100)"
  note example_decision = example_decision fs_round2_def
  have 1: "resource_Decide (?m []) (example_clock 60000000000) (refresh_request [] ''a'' (Fin 100)) = Inr (?m [?a], snd ?a)"
    by (simp add: example_decision)
  have 2: "resource_Decide (?m [?a]) (example_clock 61000000000) (refresh_request [] ''b'' (Fin 100)) = Inr (?m [?a, ?b], snd ?b)"
    by (simp add: example_decision)
  have 3: "resource_Decide (?m [?a, ?b]) (example_clock 62000000000) (refresh_request [(''a'', lease_to_pb (snd ?a))] ''a'' (Fin 100)) =
      Inr (?m [?a', ?b], snd ?a')"
    by (simp add: example_decision)
  have 4: "resource_Decide (?m [?a', ?b]) (example_clock 63000000000) (refresh_request [(''b'', lease_to_pb (snd ?b))] ''b'' (Fin 100)) =
      Inr (?m [?a', (''b'', example_lease_at 63000000000 50 100)], example_lease_at 63000000000 50 100)"
    by (simp add: example_decision)
  have "held_total [(''a'', lease_to_pb (snd ?a)), (''b'', lease_to_pb (example_lease_at 63000000000 50 100))] 64000000000 = 150"
    by (simp add: example_view)
  with 1 2 3 4 show ?thesis by (intro exI conjI) (assumption | simp add: example_lease_at_def)+
qed

text \<open>Nothing keeps a client from reporting a lease that has expired: a request for capacity is repeated
  until a master answers it, with the leases that the client had at first. A client had all of the
  capacity; its lease expires, and another gets all of it. Then the master is replaced, and the
  first one reports its old lease: it gets it back, and together they hold twice the capacity.\<close>

lemma stale_report_overcommits:
  "\<exists>res1 l1 res2 l2 res3 l3.
     resource_Decide (example_master [] 60000000000) (example_clock 60000000000) (refresh_request [] ''a'' (Fin 100)) = Inr (res1, l1) \<and>
     resource_Decide res1 (example_clock 121000000000) (refresh_request [(''a'', lease_to_pb l1)] ''b'' (Fin 100)) = Inr (res2, l2) \<and>
     \<not> in_force (lease_to_pb l1) 121000000000 \<and>
     newResource (handleElectionOutcome 122000000000 True srv) ''r'' (Some (example_template Algorithm_FAIR_SHARE)) = Inr res3 \<and>
     (\<exists>res4. resource_Decide res3 (example_clock 123000000000)
         (refresh_request [(''a'', lease_to_pb l1), (''b'', lease_to_pb l2)] ''a'' (Fin 100)) = Inr (res4, l3)) \<and>
     held_total [(''a'', lease_to_pb l3), (''b'', lease_to_pb l2)] 123000000000 = 200"
proof -
  let ?l = "\<lambda>t. example_lease_at t 100 100"
  have 1: "resource_Decide (example_master [] 60000000000) (example_clock 60000000000) (refresh_request [] ''a'' (Fin 100)) =
      Inr (example_master [(''a'', ?l 60000000000)] 60000000000, ?l 60000000000)"
    by (simp add: example_decision)
  have 2: "resource_Decide (example_master [(''a'', ?l 60000000000)] 60000000000) (example_clock 121000000000) (refresh_request held ''b'' (Fin 100)) =
      Inr (example_master [(''b'', ?l 121000000000)] 60000000000, ?l 121000000000)" for held
    by (simp add: example_decision)
  have 3: "resource_Decide (example_master [] 182000000000) (example_clock 123000000000)
      (refresh_request [(''a'', lease_to_pb (?l 60000000000)), b] ''a'' (Fin 100)) =
      Inr (example_master [(''a'', ?l 123000000000)] 182000000000, ?l 123000000000)" for b
    by (simp add: example_decision example_view)
  have "held_total [(''a'', lease_to_pb (?l 123000000000)), (''b'', lease_to_pb (?l 121000000000))] 123000000000 = 200"
    "\<not> in_force (lease_to_pb (?l 60000000000)) 121000000000"
    by (simp_all add: example_view)
  with 1 2 3 example_master_new [of 122000000000 srv] show ?thesis
    by (intro exI conjI) (assumption | simp)+
qed

end
