(* ===== verification/Store_Race.thy ===== *)
theory Store_Race
  imports Server_Rpc_Props
begin

text \<open>
  \<open>Assign\<close> of \<open>go/server/doorman/store.go\<close> statement by statement. \<open>Decide\<close> calls it under the mutex of
  the resource, but \<open>ReleaseCapacity\<close> of \<open>server.go\<close> calls \<open>Release\<close> of the same store without it, so a
  release can fall between two statements of an assignment. What then becomes of the totals is
  shown here; that the Go runtime may also detect the concurrent writes and abort is not modelled.
\<close>

section \<open>An assignment in steps\<close>

record assign_call =
  an_client :: string
  an_length :: duration
  an_interval :: duration
  an_has :: f64
  an_wants :: f64
  an_subclients :: int64

text \<open>Before the first statement, with the old lease read, with the totals changed, returned.\<close>

datatype assign_pc = Called | Got Lease | Added Lease | Returned Lease

definition assign_step :: "assign_call \<Rightarrow> time \<Rightarrow> leaseStoreImpl \<times> assign_pc \<Rightarrow> leaseStoreImpl \<times> assign_pc" where
  "assign_step an now = (\<lambda>(s, pc). case pc of
       Called \<Rightarrow> (s, Got (store_Get s (an_client an)))
     | Got lease \<Rightarrow>
         (s\<lparr>ls_sumHas := ls_sumHas s + (an_has an - lease_Has lease),
            ls_sumWants := ls_sumWants s + (an_wants an - lease_Wants lease),
            ls_count := ls_count s + (an_subclients an - lease_Subclients lease)\<rparr>, Added lease)
     | Added lease \<Rightarrow>
         (let lease' = lease\<lparr>lease_Has := an_has an, lease_Wants := an_wants an,
            lease_Expiry := time_Add now (an_length an), lease_RefreshInterval := an_interval an,
            lease_Subclients := an_subclients an\<rparr>
          in (s\<lparr>ls_leases := map_put (ls_leases s) (an_client an) lease'\<rparr>, Returned lease'))
     | Returned lease \<Rightarrow> (s, Returned lease))"

text \<open>A run: the assignment makes a step, or another goroutine releases a client.\<close>

datatype store_event = Assigns | Releases string

fun store_run :: "assign_call \<Rightarrow> time \<Rightarrow> store_event list \<Rightarrow> leaseStoreImpl \<times> assign_pc \<Rightarrow> leaseStoreImpl \<times> assign_pc" where
  "store_run an now [] st = st"
| "store_run an now (Assigns # es) st = store_run an now es (assign_step an now st)"
| "store_run an now (Releases c # es) (s, pc) = store_run an now es (store_Release s c, pc)"

text \<open>Undisturbed, the steps are \<open>Assign\<close>.\<close>

lemma undisturbed:
  "store_run an now [Assigns, Assigns, Assigns] (s, Called) =
     (fst (store_Assign s now (an_client an) (an_length an) (an_interval an) (an_has an) (an_wants an) (an_subclients an)),
      Returned (snd (store_Assign s now (an_client an) (an_length an) (an_interval an) (an_has an) (an_wants an) (an_subclients an))))"
  by (simp add: assign_step_def store_Assign_def Let_def)

section \<open>Wrong totals\<close>

text \<open>A store whose totals fall short of its leases, by an amount and a number of subclients.\<close>

definition short_by :: "rat \<Rightarrow> int64 \<Rightarrow> leaseStoreImpl \<Rightarrow> bool" where
  "short_by d n s = (entries_ok (ls_leases s) \<and> ls_sumHas s = Fin (total_has (ls_leases s) - d) \<and>
     ls_count s = total_subclients (ls_leases s) - n)"

lemma short_by_0: "store_ok s \<Longrightarrow> short_by 0 0 s"
  by (simp add: short_by_def store_ok_def)

text \<open>Every complete operation of the store keeps what it is short by.\<close>

datatype store_op = DoAssign assign_call time | DoRelease string | DoClean time

definition store_do :: "leaseStoreImpl \<Rightarrow> store_op \<Rightarrow> leaseStoreImpl" where
  "store_do s op = (case op of
       DoAssign an now \<Rightarrow>
         fst (store_Assign s now (an_client an) (an_length an) (an_interval an) (an_has an) (an_wants an) (an_subclients an))
     | DoRelease c \<Rightarrow> store_Release s c
     | DoClean now \<Rightarrow> fst (store_Clean s now))"

definition finite_op :: "store_op \<Rightarrow> bool" where
  "finite_op op = (case op of DoAssign an now \<Rightarrow> isFinite (an_has an) \<and> isFinite (an_wants an) | _ \<Rightarrow> True)"

lemma lease_of_finite: "entries_ok es \<Longrightarrow> finite_lease (lease_of es c)"
  by (auto simp: entries_ok_def list_all_iff lease_of_def finite_lease_def zero_Lease_def
      split: option.splits dest: map_of_SomeD)

lemma short_release: "short_by d n s \<Longrightarrow> short_by d n (store_Release s c)"
proof (cases "map_of (ls_leases s) c")
  case (Some l)
  assume s: "short_by d n s"
  then have e: "entries_ok (ls_leases s)" and k: "distinct_keys (ls_leases s)" by (simp_all add: short_by_def entries_ok_def)
  have l: "lease_of (ls_leases s) c = l" using Some by (simp add: lease_of_def)
  obtain h where "lease_Has l = Fin h" using lease_of_finite [OF e, of c] l by (auto simp: finite_lease_def elim: isFiniteE)
  with s Some l show ?thesis
    by (simp add: short_by_def store_Release_def entries_ok_del total_has_del [OF k] total_subclients_del [OF k])
qed (simp add: store_Release_def)

lemma short_assign:
  assumes "short_by d n s" and "isFinite has" and "isFinite wants"
  shows "short_by d n (fst (store_Assign s now c len iv has wants k))"
proof -
  have e: "entries_ok (ls_leases s)" and d: "distinct_keys (ls_leases s)"
    using assms(1) by (simp_all add: short_by_def entries_ok_def)
  obtain h where h: "lease_Has (lease_of (ls_leases s) c) = Fin h"
    using lease_of_finite [OF e, of c] by (auto simp: finite_lease_def elim: isFiniteE)
  obtain g where "has = Fin g" using assms(2) by (rule isFiniteE)
  with assms(1,3) h show ?thesis
    by (simp add: short_by_def store_Assign_def store_Get_lease_of entries_ok_put finite_lease_def total_has_put [OF d]
        total_subclients_put [OF d] Let_def)
qed

lemma short_clean_loop: "short_by d n s \<Longrightarrow> short_by d n (fst (clean_loop now es s k))"
  by (induction now es s k rule: clean_loop.induct) (auto simp: short_release)

lemma short_do: "short_by d n s \<Longrightarrow> finite_op op \<Longrightarrow> short_by d n (store_do s op)"
  by (cases op) (simp_all add: store_do_def finite_op_def short_assign short_release store_Clean_def short_clean_loop)

lemma short_ops: "short_by d n s \<Longrightarrow> list_all finite_op ops \<Longrightarrow> short_by d n (foldl store_do s ops)"
  by (induction ops arbitrary: s) (simp_all add: short_do)

text \<open>The two places at which a release can fall into an assignment.\<close>

lemma race_short:
  assumes "store_ok s" and "map_of (ls_leases s) (an_client an) = Some l"
    and "isFinite (an_has an)" and "isFinite (an_wants an)"
    and "es \<in> {[Assigns, Releases (an_client an), Assigns, Assigns], [Assigns, Assigns, Releases (an_client an), Assigns]}"
  shows "short_by (fval (lease_Has l)) (lease_Subclients l) (fst (store_run an now es (s, Called)))"
proof -
  let ?c = "an_client an" and ?es = "ls_leases s"
  have e: "entries_ok ?es" and d: "distinct_keys ?es" using assms(1) by (simp_all add: store_ok_def entries_ok_def)
  have l: "lease_of ?es ?c = l" using assms(2) by (simp add: lease_of_def)
  obtain h where h: "lease_Has l = Fin h" using lease_of_finite [OF e, of ?c] l by (auto simp: finite_lease_def elim: isFiniteE)
  obtain g where g: "an_has an = Fin g" using assms(3) by (rule isFiniteE)
  have gone: "lease_of (map_del ?es ?c) ?c = zero_Lease" by (simp add: lease_of_def map_of_del)
  note sums = total_has_put [OF distinct_keys_del [OF d]] total_subclients_put [OF distinct_keys_del [OF d]]
    total_has_del [OF d] total_subclients_del [OF d]
  have zero: "lease_Has zero_Lease = Fin 0" "lease_Subclients zero_Lease = 0" by (simp_all add: zero_Lease_def)
  show ?thesis
    using assms(1,2,4,5) e g h
    by (auto simp: short_by_def assign_step_def store_Release_def store_Get_def store_ok_def Let_def entries_ok_put
        entries_ok_del finite_lease_def sums l gone zero)
qed

section \<open>A concrete race\<close>

definition racing_assignment :: assign_call where
  "racing_assignment = \<lparr>an_client = ''b'', an_length = seconds 60, an_interval = seconds 5, an_has = Fin 20,
     an_wants = Fin 80, an_subclients = 1\<rparr>"

definition raced_store :: leaseStoreImpl where
  "raced_store = \<lparr>ls_id = ''r'', ls_leases = [(''a'', example_lease 60 60), (''b'', (example_lease 20 80)\<lparr>
      lease_Expiry := time_Add 40 (seconds 60), lease_RefreshInterval := seconds 5\<rparr>)],
      ls_sumWants = Fin 60, ls_sumHas = Fin 60, ls_count = 1\<rparr>"

lemma raced: "fst (store_run racing_assignment 40 [Assigns, Releases ''b'', Assigns, Assigns] (example_store, Called)) = raced_store"
  by (simp add: assign_step_def store_Release_def store_Get_def example_store_def example_lease_def racing_assignment_def
      raced_store_def Let_def)

lemma raced_grant:
  "lease_Has (snd (FairShare config raced_store 41 (Fin 100) example_request)) = Fin 60"
  "total_has (ls_leases (fst (FairShare config raced_store 41 (Fin 100) example_request))) = 120"
proof -
  have "FairShare config raced_store 41 (Fin 100) example_request =
      store_Assign raced_store 41 ''b'' (fst (getAlgorithmParams config)) (snd (getAlgorithmParams config)) (Fin 60) (Fin 80) 1"
    by (simp add: FairShare_def raced_store_def store_Get_def example_lease_def example_request_def case_prod_unfold
       store_Count_def store_SumHas_def float64_def minF_def Let_def)
  then show "lease_Has (snd (FairShare config raced_store 41 (Fin 100) example_request)) = Fin 60"
    "total_has (ls_leases (fst (FairShare config raced_store 41 (Fin 100) example_request))) = 120"
    by (simp_all add: store_Assign_def Let_def raced_store_def total_has_def example_lease_def)
qed

section \<open>Properties\<close>

text \<open>C32. \<open>ReleaseCapacity\<close> does not take the mutex of the resource, so it can run between the statements of
  \<open>Assign\<close> for the same client. Then the totals of the store are short by the client's old lease, and they stay
  so through every later operation: the lease is in the store, and its capacity is given away again.\<close>

theorem release_race_spoils_totals:
  assumes "store_ok s" and "map_of (ls_leases s) (an_client an) = Some l"
    and "isFinite (an_has an)" and "isFinite (an_wants an)"
    and "es \<in> {[Assigns, Releases (an_client an), Assigns, Assigns], [Assigns, Assigns, Releases (an_client an), Assigns]}"
    and "list_all finite_op ops"
  shows "let s' = foldl store_do (fst (store_run an now es (s, Called))) ops in
    store_SumHas s' = Fin (total_has (ls_leases s') - fval (lease_Has l)) \<and>
    store_Count s' = total_subclients (ls_leases s') - lease_Subclients l"
  using short_ops [OF race_short [OF assms(1-5)] assms(6), of now]
  by (simp add: short_by_def store_SumHas_def store_Count_def Let_def)

text \<open>A client that has 20 of 100 releases and asks at once; the next time it is granted 60, beside the
  60 of another client.\<close>

theorem release_race_spoils_totals_witness:
  "\<forall>config. let s' = fst (store_run racing_assignment 40 [Assigns, Releases ''b'', Assigns, Assigns] (example_store, Called));
       (s'', l) = FairShare config s' 41 (Fin 100) example_request
   in store_SumHas s' = Fin (total_has (ls_leases s') - 20) \<and> lease_Has l = Fin 60 \<and> total_has (ls_leases s'') = 120"
proof -
  have race: "map_of (ls_leases example_store) (an_client racing_assignment) = Some (example_lease 20 80)"
    "isFinite (an_has racing_assignment)" "isFinite (an_wants racing_assignment)"
    "[Assigns, Releases ''b'', Assigns, Assigns] \<in> {[Assigns, Releases (an_client racing_assignment), Assigns, Assigns],
       [Assigns, Assigns, Releases (an_client racing_assignment), Assigns]}"
    by (simp_all add: racing_assignment_def example_store_def)
  have "store_SumHas raced_store = Fin (total_has (ls_leases raced_store) - 20)"
    using release_race_spoils_totals [OF example_store_ok race, of "[]" 40] unfolding raced
    by (simp add: example_lease_def Let_def)
  with raced_grant show ?thesis by (simp only: raced Let_def case_prod_unfold simp_thms)
qed

end
