(* ===== verification/Status_Pages.thy ===== *)
theory Status_Pages
  imports Server_Main Server_State "HOL-Library.Char_ord" "HOL-Library.List_Lexorder"
begin

text \<open>
  The pages of a server's HTTP port: the status page with its sections (\<open>go/status/status.go\<close>), the
  section of the server (\<open>statusz\<close> in \<open>go/cmd/doorman/doorman_server.go\<close>), and the page of leases
  (\<open>go/cmd/doorman/resourcez.go\<close>). The template library is a parameter: \<open>parse\<close> takes the functions
  and the text, and gives an error or a template. The templates of the server's pages are given as
  what they show, without the markup.
\<close>

section \<open>The status page\<close>

text \<open>\<open>html.EscapeString\<close>.\<close>

definition escape_char :: "char \<Rightarrow> string" where
  \<open>escape_char c =
     (if c = CHR ''&'' then ''&amp;'' else if c = CHR 0x27 then ''&#39;'' else if c = CHR ''<'' then ''&lt;''
      else if c = CHR ''>'' then ''&gt;'' else if c = CHR ''"'' then ''&#34;'' else [c])\<close>

definition EscapeString :: "string \<Rightarrow> string" where
  "EscapeString s = concat (map escape_char s)"

text \<open>What a section calls for its data: the function it was registered with, or one that gives
  back the error of its template.\<close>

datatype ('fn, 'err) section_data = Calls 'fn | Reports 'err

record ('fn, 'err) status_section =
  sec_Banner :: string
  sec_Fragment :: string
  sec_F :: "('fn, 'err) section_data"

definition newline :: string where "newline = [CHR 0x0A]"

definition lines_of :: "string list \<Rightarrow> string" where
  "lines_of ls = concat (map (\<lambda>l. l @ newline) ls)"

definition statusHTML :: string where
  "statusHTML = lines_of [
     ''<!DOCTYPE html>'', ''<html>'', ''<head>'', ''<title>Status for {{.BinaryName}}</title>'', ''<style>'', ''body {'',
     ''font-family: sans-serif;'', ''}'', ''h1 {'', ''clear: both;'', ''width: 100%;'', ''text-align: center;'', ''font-size: 120%;'',
     ''background: #eef;'', ''}'', ''.lefthand {'', ''float: left;'', ''width: 80%;'', ''}'', ''.righthand {'', ''text-align: right;'',
     ''}'', ''</style>'', ''</head>'', ''<h1>Status for {{.BinaryName}}</h1>'', ''<div>'', ''<div class=lefthand>'',
     ''Started: {{.StartTime}}<br>'', ''</div>'', ''<div class=righthand>'', ''Running on {{.Hostname}}<br>'',
     ''View <a href=/debug/vars>variables</a>,'', ''     <a href=/debug/pprof>debugging profiles</a>,'',
     ''     <a href=/debug/resources>resources</a>,'', ''</div>''] @ ''</div>''"

text \<open>The text that \<open>reparse\<close> writes. The last of its formats is a raw string, so the definition of a
  section ends with a backslash and an n, not with a new line.\<close>

definition section_head :: "nat \<Rightarrow> ('fn, 'err) status_section \<Rightarrow> string" where
  \<open>section_head i sec = ''<h1>'' @ EscapeString (sec_Banner sec) @ ''</h1>'' @ newline @
     ''{{$sec := index .Sections '' @ show_int (int i) @ ''}}'' @ newline @
     ''{{template "sec-'' @ show_int (int i) @ ''" call $sec.F}}'' @ newline\<close>

definition section_definition :: "nat \<Rightarrow> ('fn, 'err) status_section \<Rightarrow> string" where
  \<open>section_definition i sec = ''{{define "sec-'' @ show_int (int i) @ ''"}}'' @ sec_Fragment sec @ ''{{end}}'' @ [CHR 0x5C, CHR ''n'']\<close>

definition status_text :: "('fn, 'err) status_section list \<Rightarrow> string" where
  \<open>status_text secs = ''{{define "status"}}'' @ statusHTML @
     concat (map (\<lambda>(i, sec). section_head i sec) (List.enumerate 0 secs)) @ ''</html>'' @ ''{{end}}'' @ newline @
     concat (map (\<lambda>(i, sec). section_definition i sec) (List.enumerate 0 secs))\<close>

type_synonym ('f, 'err, 't) engine = "(string \<times> 'f) list \<Rightarrow> string \<Rightarrow> 'err + 't"

definition reparse :: "('f, 'err, 't) engine \<Rightarrow> (string \<times> 'f) list \<Rightarrow> ('fn, 'err) status_section list \<Rightarrow> 'err + 't" where
  "reparse parse funcs secs = parse funcs (status_text secs)"

text \<open>The package's variables; a nil template is \<open>None\<close>.\<close>

record ('f, 'fn, 'err, 't) status_page =
  stp_Sections :: "('fn, 'err) status_section list"
  stp_Tmpl :: "'t option"
  stp_Funcs :: "(string \<times> 'f) list"

definition status_init :: "('f, 'err, 't) engine \<Rightarrow> panic + ('f, 'fn, 'err, 't) status_page" where
  "status_init parse = (case parse [] (status_text ([] :: ('fn, 'err) status_section list)) of
       Inl err \<Rightarrow> Inl (PanicCall ''template.Must'')
     | Inr t \<Rightarrow> Inr \<lparr>stp_Sections = [], stp_Tmpl = Some t, stp_Funcs = []\<rparr>)"

text \<open>The loop of \<open>AddStatusFuncs\<close> over the new functions.\<close>

fun AddStatusFuncs :: "(string \<times> 'f) list \<Rightarrow> ('f, 'fn, 'err, 't) status_page \<Rightarrow> panic + ('f, 'fn, 'err, 't) status_page" where
  "AddStatusFuncs [] st = Inr st"
| "AddStatusFuncs ((name, fn) # fmap) st =
     (if map_of (stp_Funcs st) name \<noteq> None then Inl (PanicCall (''duplicate status func registered: '' @ name))
      else AddStatusFuncs fmap (st\<lparr>stp_Funcs := map_put (stp_Funcs st) name fn\<rparr>))"

definition bad_template :: string where
  "bad_template = ''<code>bad status template: {{.}}</code>''"

definition AddStatusPart :: "('f, 'err, 't) engine \<Rightarrow> string \<Rightarrow> string \<Rightarrow> 'fn \<Rightarrow> ('f, 'fn, 'err, 't) status_page
    \<Rightarrow> ('f, 'fn, 'err, 't) status_page" where
  "AddStatusPart parse banner frag f st =
     (let secs = stp_Sections st @ [\<lparr>sec_Banner = banner, sec_Fragment = frag, sec_F = Calls f\<rparr>];
          secs = (case reparse parse (stp_Funcs st) secs of
                    Inl err \<Rightarrow> secs[length secs - 1 := \<lparr>sec_Banner = banner, sec_Fragment = bad_template, sec_F = Reports err\<rparr>]
                  | Inr t \<Rightarrow> secs)
      in st\<lparr>stp_Tmpl := (case reparse parse (stp_Funcs st) secs of Inl err \<Rightarrow> None | Inr t \<Rightarrow> Some t),
            stp_Sections := secs\<rparr>)"

definition AddStatusSection :: "('f, 'err, 't) engine \<Rightarrow> string \<Rightarrow> 'fn \<Rightarrow> ('f, 'fn, 'err, 't) status_page
    \<Rightarrow> ('f, 'fn, 'err, 't) status_page" where
  "AddStatusSection parse banner f = AddStatusPart parse banner ''{{.}}'' f"

text \<open>What the handler of the page executes: the template, and the data.\<close>

record ('fn, 'err) status_data =
  sd_Sections :: "('fn, 'err) status_section list"
  sd_BinaryName :: string
  sd_Hostname :: string
  sd_StartTime :: string

definition statusHandler :: "string \<Rightarrow> string \<Rightarrow> string \<Rightarrow> ('f, 'fn, 'err, 't) status_page
    \<Rightarrow> panic + 't \<times> ('fn, 'err) status_data" where
  "statusHandler binaryName hostname startTime st = (case stp_Tmpl st of
       None \<Rightarrow> Inl NilDereference
     | Some t \<Rightarrow> Inr (t, \<lparr>sd_Sections = stp_Sections st, sd_BinaryName = binaryName, sd_Hostname = hostname,
         sd_StartTime = startTime\<rparr>))"

section \<open>The page of leases\<close>

definition tabs :: "nat \<Rightarrow> string" where "tabs n = replicate n (CHR 0x09)"

definition resourcezHTML :: string where
  \<open>resourcezHTML = lines_of [ '''',
     ''<!DOCTYPE html>'', ''<html>'', ''  <head>'', ''    <title>Doorman resource information</title>'',
     ''  </head>'', ''  <body bgcolor="#ffffff">'', ''    <div style="margin-left: 20px">'',
     ''      {{if .Resource}}'', tabs 1 @ ''{{range .ResourceLeaseStatus}}'', tabs 1 @ ''  <table>'',
     tabs 1 @ ''    <tr><td>Resource:</td><td>{{.ID}}</td></tr>'',
     tabs 1 @ ''    <tr><td>Sum of has:</td><td>{{.SumHas}}</td></tr>'',
     tabs 1 @ ''    <tr><td>Sum of wants:</td><td>{{.SumWants}}</td></tr>'', ''          </table>'',
     tabs 1 @ ''  <p/>'', tabs 1 @ ''  <table border="1">'', tabs 1 @ ''    <thead>'', tabs 1 @ ''      <tr>'',
     tabs 1 @ ''        <td>Client ID</td>'', tabs 2 @ ''<td>Lease Expiration</td>'',
     tabs 2 @ ''<td>Refresh Interval</td>'', tabs 2 @ ''<td>Has</td>'', tabs 2 @ ''<td>Wants</td>'',
     tabs 1 @ ''      </tr>'', tabs 1 @ ''    </thead>'', tabs 1 @ ''    {{range .Leases}}'',
     tabs 1 @ ''      <tr>'', tabs 2 @ ''<td>{{.ClientID}}</td>'', tabs 2 @ ''<td>{{.Lease.Expiry}}</td>'',
     tabs 2 @ ''<td>{{.Lease.RefreshInterval}}</td>'', tabs 2 @ ''<td>{{.Lease.Has}}</td>'',
     tabs 2 @ ''<td>{{.Lease.Wants}}</td>'', tabs 1 @ ''      </tr>'', tabs 1 @ ''    {{end}}'',
     tabs 1 @ ''  </table>'', tabs 1 @ ''{{end}}'', ''      {{end}}'', ''      <hr/>'',
     ''      {{range .ServerStatus}}'', ''        {{with .Resources}}'', ''          <p/>'',
     ''          <table border="1">'', ''            <thead>'', ''              <tr>'',
     ''                <td>ID</td>'', ''                <td>Capacity</td>'', ''                <td>SumHas</td>'',
     ''                <td>SumWants</td>'', ''                <td>Clients</td>'',
     ''                <td>Learning</td>'', ''                <td>Algorithm</td>'', ''              </tr>'',
     ''            </thead>'', ''            {{range .}}'', ''              <tr>'',
     ''                <td><a href="?resource={{.ID}}">{{.ID}}</a></td>'',
     ''                <td>{{.Capacity}}</td>'', ''                <td>{{.SumHas}}</td>'',
     ''                <td>{{.SumWants}}</td>'', ''                <td>{{.Count}}</td>'',
     ''                <td>{{.InLearningMode}}'', ''                <td><code>{{.Algorithm}}</code></td>'',
     ''              </tr>'', ''            {{end}}'', ''          </table>'', ''        {{else}}'',
     ''          No resources in this server'' @ [CHR 0x27] @ ''s store.'', ''        {{end}}'', ''      {{end}}'',
     ''    </div>'', ''  </body>'', ''</html>'']\<close>

text \<open>What \<open>init\<close> makes of it: the template, which is fixed, and the list of servers.\<close>

definition resourcez_init :: "('f, 'err, 't) engine \<Rightarrow> panic + 't \<times> Server list" where
  "resourcez_init parse = (case parse [] resourcezHTML of
       Inl err \<Rightarrow> Inl (PanicCall ''template.Must'')
     | Inr t \<Rightarrow> Inr (t, []))"

record resourcezData =
  rz_Resource :: string
  rz_ServerStatus :: "ServerStatus list"
  rz_ResourceLeaseStatus :: "ResourceLeaseStatus list"

definition AddServer :: "Server list \<Rightarrow> Server \<Rightarrow> Server list" where
  "AddServer servers dm = servers @ [dm]"

text \<open>The loop of \<open>resourcezHandler\<close> over the servers.\<close>

fun resourcez_loop :: "time \<Rightarrow> time \<Rightarrow> Server list \<Rightarrow> resourcezData \<Rightarrow> panic + resourcezData" where
  "resourcez_loop now1 now2 [] data = Inr data"
| "resourcez_loop now1 now2 (srv # servers) data =
     bind_panic (server_Status srv now1 now2) (\<lambda>status.
       resourcez_loop now1 now2 servers (data\<lparr>rz_ServerStatus := rz_ServerStatus data @ [status],
         rz_ResourceLeaseStatus := (if rz_Resource data \<noteq> ''''
           then rz_ResourceLeaseStatus data @ [server_ResourceLeaseStatus srv (rz_Resource data)]
           else rz_ResourceLeaseStatus data)\<rparr>))"

definition resourcezHandler :: "time \<Rightarrow> time \<Rightarrow> Server list \<Rightarrow> string \<Rightarrow> panic + resourcezData" where
  "resourcezHandler now1 now2 servers resource =
     resourcez_loop now1 now2 servers \<lparr>rz_Resource = resource, rz_ServerStatus = [], rz_ResourceLeaseStatus = []\<rparr>"

text \<open>What \<open>resourcezHTML\<close> shows of the data: with a resource, a table of its leases for every server;
  and a table of every server's resources, by their ids, unless it has none.\<close>

record lease_table =
  lt_ID :: string
  lt_SumHas :: f64
  lt_SumWants :: f64
  lt_Rows :: "(string \<times> time \<times> duration \<times> f64 \<times> f64) list"

definition lease_tables :: "resourcezData \<Rightarrow> lease_table list" where
  "lease_tables data = (if rz_Resource data = '''' then [] else
     map (\<lambda>st. \<lparr>lt_ID = rls_ID st, lt_SumHas = rls_SumHas st, lt_SumWants = rls_SumWants st,
       lt_Rows = map (\<lambda>c. (cls_ClientID c, lease_Expiry (cls_Lease c), lease_RefreshInterval (cls_Lease c),
         lease_Has (cls_Lease c), lease_Wants (cls_Lease c))) (rls_Leases st)\<rparr>) (rz_ResourceLeaseStatus data))"

definition resource_row :: "ResourceStatus \<Rightarrow> string \<times> f64 \<times> f64 \<times> f64 \<times> int64 \<times> bool \<times> pb_Algorithm option" where
  "resource_row st = (rst_ID st, rst_Capacity st, rst_SumHas st, rst_SumWants st, rst_Count st, rst_InLearningMode st,
     rst_Algorithm st)"

text \<open>A template runs through a map in the order of its keys.\<close>

definition resource_rows :: "ServerStatus \<Rightarrow> (string \<times> f64 \<times> f64 \<times> f64 \<times> int64 \<times> bool \<times> pb_Algorithm option) list option" where
  "resource_rows st = (if sst_Resources st = [] then None
     else Some (map (\<lambda>(k, r). resource_row r) (sort_key fst (sst_Resources st))))"

definition server_tables :: "resourcezData \<Rightarrow> (string \<times> f64 \<times> f64 \<times> f64 \<times> int64 \<times> bool \<times> pb_Algorithm option) list option list" where
  "server_tables data = map resource_rows (rz_ServerStatus data)"

section \<open>The section of the server\<close>

definition statusz :: string where
  \<open>statusz = lines_of [ '''',
     ''<h2>Mastership</h2>'', ''<p>'', ''{{if .IsMaster}}'', ''  This <strong>is</strong> the master.'',
     ''{{else}}'', ''This is <strong>not</strong> the master.'', ''  {{with .CurrentMaster}}'',
     ''    The current master is <a href="http://{{.}}">{{.}}</a>'', ''  {{else}}'',
     ''    The current master is unknown.'', ''  {{end}}'', ''{{end}}'', ''</p>'',
     ''{{with .Election}}{{.}}{{end}}'', '''', ''<h2>Resources</h2>'', ''{{ with .Resources }}'',
     ''<table border="1">'', ''  <thead>'', ''    <tr>'', ''      <td>ID</td>'', ''      <td>Capacity</td>'',
     ''      <td>SumHas</td>'', ''      <td>SumWants</td>'', ''      <td>Clients</td>'', ''      <td>Learning</td>'',
     ''      <td>Algorithm</td>'', ''    </tr>'', ''  </thead>'', ''  {{range .}}'', ''  <tr>'',
     ''    <td><a href="/debug/resources?resource={{.ID}}">{{.ID}}</a></td>'', ''    <td>{{.Capacity}}</td>'',
     ''    <td>{{.SumHas}}</td>'', ''    <td>{{.SumWants}}</td>'', ''    <td>{{.Count}}</td>'',
     ''    <td>{{.InLearningMode}}'', ''    <td><code>{{.Algorithm}}</code></td>'', ''  </tr>'', ''  {{end}}'',
     ''</table>'', ''{{else}}'', ''No resources in the store.'', ''{{end}}'', '''', ''<h2>Configuration</h2>'',
     ''<pre>{{.Config}}</pre>'']\<close>

text \<open>What it shows of the data.\<close>

datatype mastership_line = IsTheMaster | MasterIs string | MasterUnknown

text \<open>The \<open>String\<close> methods of the two elections.\<close>

definition election_String :: "main_election \<Rightarrow> string" where
  "election_String e = (case e of
       TrivialElection t \<Rightarrow> ''no election, acting as the master''
     | EtcdElection e \<Rightarrow> ''etcd lock: '' @ et_lock e @ '' (endpoints: ['' @ join_with (CHR '' '') (et_endpoints e) @ ''])'')"

text \<open>\<open>statusz\<close>, executed on the status of the server, which has the election that the server was made
  with.\<close>

definition statusz_mastership :: "ServerStatus \<Rightarrow> mastership_line" where
  "statusz_mastership st = (if sst_IsMaster st then IsTheMaster
     else if sst_CurrentMaster st \<noteq> '''' then MasterIs (sst_CurrentMaster st) else MasterUnknown)"

definition statusz_page :: "main_election \<Rightarrow> ServerStatus \<Rightarrow> mastership_line \<times> string
    \<times> (string \<times> f64 \<times> f64 \<times> f64 \<times> int64 \<times> bool \<times> pb_Algorithm option) list option \<times> ResourceRepository option" where
  "statusz_page e st = (statusz_mastership st, election_String e, resource_rows st, sst_Config st)"

section \<open>Metrics\<close>

text \<open>What \<open>Collect\<close> sends: samples of the resources, by their ids, and a counter of its own calls that
  the server keeps.\<close>

datatype metric = MetricHas string f64 | MetricWants string f64 | MetricSubclients string f64 | MetricTest f64

definition resource_metrics :: "string \<times> ResourceStatus \<Rightarrow> metric list" where
  "resource_metrics = (\<lambda>(i, st). [MetricHas i (rst_SumHas st), MetricWants i (rst_SumWants st),
     MetricSubclients i (Fin (of_int (sint (rst_Count st))))])"

definition Collect :: "time \<Rightarrow> time \<Rightarrow> Server \<Rightarrow> f64 \<Rightarrow> panic + f64 \<times> metric list" where
  "Collect now1 now2 srv test_value =
     bind_panic (server_Status srv now1 now2) (\<lambda>status.
       let test_value = test_value + Fin 10
       in Inr (test_value, concat (map resource_metrics (sst_Resources status)) @ [MetricTest test_value]))"

section \<open>What is assumed of the engine\<close>

text \<open>
  A text that is accepted stays accepted when more functions are known, and when a section is added
  whose banner has no action in it and whose fragment is the note on a bad template.
\<close>

definition plain_banner :: "string \<Rightarrow> bool" where
  "plain_banner banner = (CHR ''{'' \<notin> set banner)"

definition engine_ok :: "('f, 'err, 't) engine \<Rightarrow> bool" where
  "engine_ok parse =
     ((\<exists>t. parse [] (status_text ([] :: (unit, 'err) status_section list)) = Inr t) \<and>
      (\<forall>funcs funcs' text t. parse funcs text = Inr t \<longrightarrow> set (map fst funcs) \<subseteq> set (map fst funcs') \<longrightarrow>
         (\<exists>t'. parse funcs' text = Inr t')) \<and>
      (\<forall>funcs (secs :: (unit, 'err) status_section list) banner err t. reparse parse funcs secs = Inr t \<longrightarrow> plain_banner banner \<longrightarrow>
         (\<exists>t'. reparse parse funcs (secs @ [\<lparr>sec_Banner = banner, sec_Fragment = bad_template, sec_F = Reports err\<rparr>]) = Inr t')))"

text \<open>The text does not depend on the functions that the sections call.\<close>

definition forget :: "('fn, 'err) status_section \<Rightarrow> (unit, 'err) status_section" where
  "forget sec = \<lparr>sec_Banner = sec_Banner sec, sec_Fragment = sec_Fragment sec,
     sec_F = (case sec_F sec of Calls f \<Rightarrow> Calls () | Reports err \<Rightarrow> Reports err)\<rparr>"

lemma status_text_forget: "status_text (map forget secs) = status_text secs"
proof -
  have "map (\<lambda>(i, sec). section_head i sec) (List.enumerate k (map forget secs)) =
      map (\<lambda>(i, sec). section_head i sec) (List.enumerate k secs)"
    "map (\<lambda>(i, sec). section_definition i sec) (List.enumerate k (map forget secs)) =
      map (\<lambda>(i, sec). section_definition i sec) (List.enumerate k secs)" for k
    by (induction secs arbitrary: k) (simp_all add: section_head_def section_definition_def forget_def)
  then show ?thesis by (simp add: status_text_def)
qed

lemma engine_funcs:
  "engine_ok parse \<Longrightarrow> reparse parse funcs secs = Inr t \<Longrightarrow> set (map fst funcs) \<subseteq> set (map fst funcs') \<Longrightarrow>
     \<exists>t'. reparse parse funcs' secs = Inr t'"
  unfolding engine_ok_def reparse_def by blast

lemma engine_note:
  assumes "engine_ok parse" and "reparse parse funcs secs = Inr t" and "plain_banner banner"
  shows "\<exists>t'. reparse parse funcs (secs @ [\<lparr>sec_Banner = banner, sec_Fragment = bad_template, sec_F = Reports err\<rparr>]) = Inr t'"
proof -
  let ?note = "\<lparr>sec_Banner = banner, sec_Fragment = bad_template, sec_F = Reports err\<rparr>"
  have "reparse parse funcs (map forget secs) = Inr t" using assms(2) by (simp add: reparse_def status_text_forget)
  with assms(1,3) have "\<exists>t'. reparse parse funcs (map forget secs @ [?note]) = Inr t'" unfolding engine_ok_def by blast
  moreover have "map forget secs @ [?note] = map forget (secs @ [?note])" by (simp add: forget_def)
  ultimately show ?thesis by (simp only: reparse_def status_text_forget)
qed

section \<open>Registrations\<close>

datatype ('f, 'fn) status_event = Funcs "(string \<times> 'f) list" | Part string string 'fn

definition status_event_step :: "('f, 'err, 't) engine \<Rightarrow> ('f, 'fn) status_event \<Rightarrow> ('f, 'fn, 'err, 't) status_page
    \<Rightarrow> panic + ('f, 'fn, 'err, 't) status_page" where
  "status_event_step parse e st = (case e of
       Funcs fmap \<Rightarrow> AddStatusFuncs fmap st
     | Part banner frag f \<Rightarrow> Inr (AddStatusPart parse banner frag f st))"

fun status_run :: "('f, 'err, 't) engine \<Rightarrow> ('f, 'fn) status_event list \<Rightarrow> ('f, 'fn, 'err, 't) status_page
    \<Rightarrow> panic + ('f, 'fn, 'err, 't) status_page" where
  "status_run parse [] st = Inr st"
| "status_run parse (e # es) st = bind_panic (status_event_step parse e st) (status_run parse es)"

fun parts_of :: "('f, 'fn) status_event list \<Rightarrow> (string \<times> string \<times> 'fn) list" where
  "parts_of [] = []"
| "parts_of (e # es) = (case e of Part banner frag f \<Rightarrow> (banner, frag, f) # parts_of es | _ \<Rightarrow> parts_of es)"

text \<open>A part that was registered, and the section that stands for it.\<close>

definition stands_for :: "string \<times> string \<times> 'fn \<Rightarrow> ('fn, 'err) status_section \<Rightarrow> bool" where
  "stands_for = (\<lambda>(banner, frag, f) sec. sec_Banner sec = banner \<and>
     (sec_Fragment sec = frag \<and> sec_F sec = Calls f \<or> (\<exists>err. sec_Fragment sec = bad_template \<and> sec_F sec = Reports err)))"

definition page_ok :: "('f, 'err, 't) engine \<Rightarrow> ('f, 'fn, 'err, 't) status_page \<Rightarrow> bool" where
  "page_ok parse st = (stp_Tmpl st \<noteq> None \<and> (\<exists>t. reparse parse (stp_Funcs st) (stp_Sections st) = Inr t))"

lemma AddStatusFuncs_effect:
  "AddStatusFuncs fmap st = Inr st' \<Longrightarrow> stp_Sections st' = stp_Sections st \<and> stp_Tmpl st' = stp_Tmpl st \<and>
     set (map fst (stp_Funcs st)) \<subseteq> set (map fst (stp_Funcs st'))"
proof (induction fmap st rule: AddStatusFuncs.induct)
  case (2 name fn fmap st)
  then have new: "map_of (stp_Funcs st) name = None" by (auto split: if_splits)
  have "set (map fst (stp_Funcs st)) \<subseteq> set (map fst (map_put (stp_Funcs st) name fn))" by (auto simp: AList.update_keys)
  with 2 new show ?case by (force simp del: set_map)
qed simp

lemma AddStatusPart_effect:
  assumes "engine_ok parse" and "page_ok parse st" and "plain_banner banner"
  shows "page_ok parse (AddStatusPart parse banner frag f st) \<and>
    (\<exists>sec. stp_Sections (AddStatusPart parse banner frag f st) = stp_Sections st @ [sec] \<and> stands_for (banner, frag, f) sec)"
proof -
  let ?secs = "stp_Sections st @ [\<lparr>sec_Banner = banner, sec_Fragment = frag, sec_F = Calls f\<rparr>]"
  obtain t where t: "reparse parse (stp_Funcs st) (stp_Sections st) = Inr t" using assms(2) by (auto simp: page_ok_def)
  show ?thesis
  proof (cases "reparse parse (stp_Funcs st) ?secs")
    case (Inl err)
    from engine_note [OF assms(1) t assms(3), of err] Inl show ?thesis
      by (auto simp: AddStatusPart_def page_ok_def stands_for_def Let_def)
  next
    case (Inr t')
    then show ?thesis by (simp add: AddStatusPart_def page_ok_def stands_for_def Let_def)
  qed
qed

lemma status_run_ok:
  assumes "engine_ok parse"
  shows "page_ok parse st \<Longrightarrow> list_all2 stands_for ps (stp_Sections st) \<Longrightarrow>
    list_all (\<lambda>(banner, frag, f). plain_banner banner) (parts_of es) \<Longrightarrow> status_run parse es st = Inr st' \<Longrightarrow>
    page_ok parse st' \<and> list_all2 stands_for (ps @ parts_of es) (stp_Sections st')"
proof (induction es arbitrary: st ps)
  case (Cons e es)
  obtain st1 where 1: "status_event_step parse e st = Inr st1" "status_run parse es st1 = Inr st'"
    using Cons.prems(4) by (cases "status_event_step parse e st") auto
  show ?case
  proof (cases e)
    case (Funcs fmap)
    with 1(1) have s: "stp_Sections st1 = stp_Sections st" "stp_Tmpl st1 = stp_Tmpl st"
      "set (map fst (stp_Funcs st)) \<subseteq> set (map fst (stp_Funcs st1))"
      using AddStatusFuncs_effect [of fmap st st1] by (simp_all add: status_event_step_def)
    then have "page_ok parse st1" using Cons.prems(1) engine_funcs [OF assms] by (auto simp: page_ok_def)
    from Cons.IH [OF this _ _ 1(2), of ps] Cons.prems(2,3) s(1) Funcs show ?thesis by simp
  next
    case (Part banner frag f)
    then have st1: "st1 = AddStatusPart parse banner frag f st" and b: "plain_banner banner"
      using 1(1) Cons.prems(3) by (simp_all add: status_event_step_def)
    from AddStatusPart_effect [OF assms Cons.prems(1) b, of frag f] obtain sec where
      s: "page_ok parse st1" "stp_Sections st1 = stp_Sections st @ [sec]" "stands_for (banner, frag, f) sec"
      by (auto simp: st1)
    have "list_all2 stands_for (ps @ [(banner, frag, f)]) (stp_Sections st1)"
      using Cons.prems(2) s(2,3) by (simp add: list_all2_appendI)
    from Cons.IH [OF s(1) this _ 1(2)] Cons.prems(3) Part show ?thesis by simp
  qed
qed simp

section \<open>Properties\<close>

text \<open>The status page stays up whatever is registered: after any sequence of registrations of
  functions and of parts whose banners have no template action, the page has a template and is
  served, and has one section for each part, in their order and under its banner, which
  shows either the part or the error of its template.\<close>

lemma status_page_up:
  assumes "engine_ok parse" and "status_init parse = Inr st0" and "status_run parse es st0 = Inr st"
    and "list_all (\<lambda>(banner, frag, f). plain_banner banner) (parts_of es)"
  shows "\<exists>t data. statusHandler binaryName hostname startTime st = Inr (t, data) \<and>
    list_all2 stands_for (parts_of es) (sd_Sections data)"
proof -
  have "page_ok parse st0" "stp_Sections st0 = []"
    using assms(2) by (auto simp: status_init_def page_ok_def reparse_def split: sum.splits)
  with status_run_ok [OF assms(1) _ _ assms(4,3), of "[]"] have
    "page_ok parse st" "list_all2 stands_for (parts_of es) (stp_Sections st)" by simp_all
  then show ?thesis by (auto simp: statusHandler_def page_ok_def)
qed

text \<open>An engine that refuses apostrophes, which the page itself has none of. One part is shown, the
  other is replaced.\<close>

definition quote_engine :: "(unit, string, string) engine" where
  "quote_engine funcs text = (if CHR 0x27 \<in> set text then Inl ''unexpected quote'' else Inr text)"

lemma no_quote: "CHR 0x27 \<notin> set (EscapeString b)" "CHR 0x27 \<notin> set (show_int (int i))"
proof -
  show "CHR 0x27 \<notin> set (EscapeString b)" by (induction b) (auto simp: EscapeString_def escape_char_def)
  have "list_all is_digit (digits_of i)" by (rule digits_of_digit)
  then show "CHR 0x27 \<notin> set (show_int (int i))" by (auto simp: show_int_def list_all_iff is_digit_def)
qed

lemma quote_text:
  "CHR 0x27 \<in> set (status_text secs) \<longleftrightarrow> (\<exists>sec \<in> set secs. CHR 0x27 \<in> set (sec_Fragment sec))"
proof -
  have page: "CHR 0x27 \<notin> set statusHTML" by (simp add: statusHTML_def lines_of_def newline_def)
  have head: "CHR 0x27 \<notin> set (concat (map (\<lambda>(i, sec). section_head i sec) (List.enumerate k secs)))" for k
    by (induction secs arbitrary: k) (simp_all add: section_head_def no_quote newline_def)
  have body: "CHR 0x27 \<in> set (concat (map (\<lambda>(i, sec). section_definition i sec) (List.enumerate k secs))) \<longleftrightarrow>
      (\<exists>sec \<in> set secs. CHR 0x27 \<in> set (sec_Fragment sec))" for k
    by (induction secs arbitrary: k) (simp_all add: section_definition_def no_quote)
  show ?thesis using page head [of 0] body [of 0] by (simp add: status_text_def newline_def del: set_concat)
qed

lemma quote_engine_ok: "engine_ok quote_engine"
  by (auto simp: engine_ok_def reparse_def quote_engine_def quote_text bad_template_def split: if_splits)

lemma status_page_up_witness:
  "\<exists>(st0 :: (unit, bool, string, string) status_page) st t data. status_init quote_engine = Inr st0 \<and>
     status_run quote_engine [Part ''Doorman'' ''{{.IsMaster}}'' True, Part ''Notes'' [CHR 0x27] False] st0 = Inr st \<and>
     statusHandler ''doorman'' ''localhost'' ''now'' st = Inr (t, data) \<and>
     map sec_Banner (sd_Sections data) = [''Doorman'', ''Notes''] \<and>
     map sec_Fragment (sd_Sections data) = [''{{.IsMaster}}'', bad_template]"
proof -
  let ?es = "[Part ''Doorman'' ''{{.IsMaster}}'' True, Part ''Notes'' [CHR 0x27] False] :: (unit, bool) status_event list"
  obtain st0 :: "(unit, bool, string, string) status_page" where st0: "status_init quote_engine = Inr st0" "stp_Sections st0 = []"
    by (simp add: status_init_def quote_engine_def quote_text)
  obtain st where st: "status_run quote_engine ?es st0 = Inr st" "map sec_Fragment (stp_Sections st) = [''{{.IsMaster}}'', bad_template]"
    using st0(2) by (simp add: status_event_step_def AddStatusPart_def reparse_def quote_engine_def quote_text Let_def)
  have plain: "list_all (\<lambda>(banner, frag, f). plain_banner banner) (parts_of ?es)" by (simp add: plain_banner_def)
  obtain t data where d: "statusHandler ''doorman'' ''localhost'' ''now'' st = Inr (t, data)"
    "list_all2 stands_for (parts_of ?es) (sd_Sections data)"
    using status_page_up [where binaryName = "''doorman''" and hostname = "''localhost''" and startTime = "''now''",
        OF quote_engine_ok st0(1) st(1) plain] by blast
  from d(1) have "sd_Sections data = stp_Sections st" by (auto simp: statusHandler_def split: option.splits)
  with d st st0(1) show ?thesis by (fastforce simp: list_all2_Cons1 stands_for_def)
qed

text \<open>A banner with an action that the engine refuses in any text takes the page down for good.\<close>

lemma banner_in_text:
  assumes "sec \<in> set secs"
  shows "\<exists>pre post. status_text secs = pre @ EscapeString (sec_Banner sec) @ post"
proof -
  obtain xs ys where secs: "secs = xs @ sec # ys" using assms by (auto dest: split_list)
  let ?heads = "\<lambda>k secs. concat (map (\<lambda>(i, sec). section_head i sec) (List.enumerate k secs))"
  have middle: "\<exists>pre' post'. a @ (x @ m @ y) @ b = pre' @ m @ post'" for a b x m y :: string
    by (rule exI [of _ "a @ x"], rule exI [of _ "y @ b"]) simp
  have "\<exists>y. section_head (length xs) sec = ''<h1>'' @ EscapeString (sec_Banner sec) @ y" by (simp add: section_head_def)
  then obtain y where "section_head (length xs) sec = ''<h1>'' @ EscapeString (sec_Banner sec) @ y" by blast
  then have heads: "?heads 0 secs = (?heads 0 xs @ ''<h1>'') @ EscapeString (sec_Banner sec) @ (y @ ?heads (Suc (length xs)) ys)"
    by (simp add: secs enumerate_append_eq)
  have "\<exists>a b. status_text secs = a @ ?heads 0 secs @ b" unfolding status_text_def by (metis append.assoc)
  then obtain a b where t: "status_text secs = a @ ?heads 0 secs @ b" by blast
  show ?thesis unfolding t heads by (rule middle)
qed

lemma AddStatusPart_banners:
  "map sec_Banner (stp_Sections (AddStatusPart parse banner frag f st)) = map sec_Banner (stp_Sections st) @ [banner]"
  by (simp add: AddStatusPart_def Let_def split: sum.split)

text \<open>A banner that the engine refuses in any text takes the page down for good: the note is put under the
  same banner, so the second parse fails as well, and so does every one after it.\<close>

lemma bad_banner_takes_page_down:
  assumes refused: "\<And>funcs pre post. \<exists>err. parse funcs (pre @ EscapeString banner @ post) = Inl err"
    and "status_run parse es (AddStatusPart parse banner frag f st) = Inr st'"
  shows "statusHandler binaryName hostname startTime st' = Inl NilDereference"
proof -
  define down where "down st = (stp_Tmpl st = None \<and> banner \<in> set (map sec_Banner (stp_Sections st)))"
    for st :: "('a, 'd, 'b, 'c) status_page"
  have parse: "\<exists>err. reparse parse funcs secs = Inl err" if "banner \<in> set (map sec_Banner secs)" for funcs and secs :: "('d, 'b) status_section list"
    using that banner_in_text [of _ secs] refused by (auto simp: reparse_def) metis
  have part: "down (AddStatusPart parse b frag f st)" if "banner = b \<or> banner \<in> set (map sec_Banner (stp_Sections st))"
    for b frag f and st :: "('a, 'd, 'b, 'c) status_page"
  proof -
    let ?st = "AddStatusPart parse b frag f st"
    have "banner \<in> set (map sec_Banner (stp_Sections ?st))" using that by (auto simp: AddStatusPart_banners)
    moreover from parse [OF this, of "stp_Funcs st"] obtain err where
      "reparse parse (stp_Funcs st) (stp_Sections ?st) = Inl err" by blast
    moreover have "stp_Tmpl ?st = (case reparse parse (stp_Funcs st) (stp_Sections ?st) of Inl err \<Rightarrow> None | Inr t \<Rightarrow> Some t)"
      by (simp add: AddStatusPart_def Let_def)
    ultimately have "banner \<in> set (map sec_Banner (stp_Sections ?st))" "stp_Tmpl ?st = None" by simp_all
    then show ?thesis by (simp add: down_def)
  qed
  have "down st \<Longrightarrow> status_run parse es st = Inr st' \<Longrightarrow> down st'" for st :: "('a, 'd, 'b, 'c) status_page"
  proof (induction es arbitrary: st)
    case (Cons e es)
    obtain st1 where 1: "status_event_step parse e st = Inr st1" "status_run parse es st1 = Inr st'"
      using Cons.prems(2) by (cases "status_event_step parse e st") auto
    have "down st1"
    proof (cases e)
      case (Funcs fmap)
      with 1(1) AddStatusFuncs_effect [of fmap st st1] Cons.prems(1) show ?thesis
        by (simp add: status_event_step_def down_def)
    next
      case (Part b frag f)
      with 1(1) part [of b st frag f] Cons.prems(1) show ?thesis by (simp add: status_event_step_def down_def)
    qed
    from Cons.IH [OF this 1(2)] show ?case .
  qed simp
  from this [OF part assms(2)] show ?thesis by (simp add: down_def statusHandler_def)
qed

text \<open>The page of leases has a table for every server, and one of leases for every server if a resource is
  asked for; the total that is shown of a sound store is that of the rows.\<close>

lemma status_loop_ok:
  assumes "list_all resource_wf (srv_heap srv)"
  shows "list_all (\<lambda>(k, a). a < length (srv_heap srv)) m \<Longrightarrow>
    \<exists>sts. status_loop now1 now2 srv m = Inr sts \<and> map fst sts = map fst m"
proof (induction m)
  case (Cons e m)
  obtain k a where e: "e = (k, a)" by force
  with Cons.prems have "a < length (srv_heap srv)" by simp
  with assms have "resource_wf (srv_heap srv ! a)" by (simp add: list_all_length)
  then obtain st where "resource_Status (srv_heap srv ! a) now1 now2 = Inr st"
    by (auto simp: resource_wf_def resource_Status_def elim: configuredE)
  with Cons e show ?case by auto
qed simp

lemma server_Status_ok:
  assumes "server_ok srv"
  shows "\<exists>st. server_Status srv now1 now2 = Inr st \<and> sst_IsMaster st = srv_isMaster srv \<and>
    map fst (sst_Resources st) = map fst (case srv_resources srv of None \<Rightarrow> [] | Some m \<Rightarrow> m)"
proof -
  have "list_all (\<lambda>(k, a). a < length (srv_heap srv)) (case srv_resources srv of None \<Rightarrow> [] | Some m \<Rightarrow> m)"
    using server_ok_addresses [OF assms] by (cases "srv_resources srv") (auto simp: addresses_ok_def list_all_iff)
  from status_loop_ok [OF _ this, of now1 now2] assms show ?thesis by (auto simp: server_ok_def server_Status_def)
qed

lemma resourcez_loop_ok:
  "list_all server_ok servers \<Longrightarrow> \<exists>data'. resourcez_loop now1 now2 servers data = Inr data' \<and> rz_Resource data' = rz_Resource data \<and>
     length (rz_ServerStatus data') = length (rz_ServerStatus data) + length servers \<and>
     rz_ResourceLeaseStatus data' = rz_ResourceLeaseStatus data @
       (if rz_Resource data = '''' then [] else map (\<lambda>srv. server_ResourceLeaseStatus srv (rz_Resource data)) servers)"
proof (induction servers arbitrary: data)
  case (Cons srv servers)
  from Cons.prems have srv: "server_ok srv" and servers: "list_all server_ok servers" by simp_all
  from server_Status_ok [OF srv, of now1 now2] obtain st where st: "server_Status srv now1 now2 = Inr st" by blast
  let ?data = "data\<lparr>rz_ServerStatus := rz_ServerStatus data @ [st], rz_ResourceLeaseStatus :=
      (if rz_Resource data \<noteq> '''' then rz_ResourceLeaseStatus data @ [server_ResourceLeaseStatus srv (rz_Resource data)]
       else rz_ResourceLeaseStatus data)\<rparr>"
  obtain data' where d: "resourcez_loop now1 now2 servers ?data = Inr data'" "rz_Resource data' = rz_Resource ?data"
    "length (rz_ServerStatus data') = length (rz_ServerStatus ?data) + length servers"
    "rz_ResourceLeaseStatus data' = rz_ResourceLeaseStatus ?data @
       (if rz_Resource ?data = '''' then [] else map (\<lambda>srv. server_ResourceLeaseStatus srv (rz_Resource ?data)) servers)"
    using Cons.IH [OF servers, of ?data] by blast
  have "resourcez_loop now1 now2 (srv # servers) data = Inr data'" using st d(1) by simp
  moreover have "rz_ResourceLeaseStatus data' = rz_ResourceLeaseStatus data @
       (if rz_Resource data = '''' then [] else map (\<lambda>srv. server_ResourceLeaseStatus srv (rz_Resource data)) (srv # servers))"
    using d(4) by simp
  ultimately show ?case using d(2,3) by (intro exI [of _ data']) simp
qed simp

lemma resourcez_shows:
  assumes "list_all server_ok servers"
  shows "\<exists>data. resourcezHandler now1 now2 servers resource = Inr data \<and> length (server_tables data) = length servers \<and>
    length (lease_tables data) = (if resource = '''' then 0 else length servers) \<and>
    (\<forall>k < length (lease_tables data). \<forall>a. srv_lookup (servers ! k) resource = Some a \<longrightarrow> resource_ok (srv_heap (servers ! k) ! a) \<longrightarrow>
       lt_SumHas (lease_tables data ! k) = Fin (sum_list (map (\<lambda>(c, e, i, h, w). fval h) (lt_Rows (lease_tables data ! k)))))"
proof -
  obtain data where d: "resourcezHandler now1 now2 servers resource = Inr data" "rz_Resource data = resource"
    "length (rz_ServerStatus data) = length servers"
    "rz_ResourceLeaseStatus data = (if resource = '''' then [] else map (\<lambda>srv. server_ResourceLeaseStatus srv resource) servers)"
    using resourcez_loop_ok [OF assms, of now1 now2 "\<lparr>rz_Resource = resource, rz_ServerStatus = [], rz_ResourceLeaseStatus = []\<rparr>"]
    by (auto simp: resourcezHandler_def)
  have "rls_SumHas (server_ResourceLeaseStatus srv resource) =
      Fin (sum_list (map (\<lambda>c. fval (lease_Has (cls_Lease c))) (rls_Leases (server_ResourceLeaseStatus srv resource))))"
    if "srv_lookup srv resource = Some a" "resource_ok (srv_heap srv ! a)" for srv a
    using that by (simp add: server_ResourceLeaseStatus_def resource_ResourceLeaseStatus_def store_ResourceLeaseStatus_def
        resource_ok_def store_ok_def total_has_def comp_def case_prod_unfold)
  with d show ?thesis
    by (intro exI [of _ data]) (auto simp: server_tables_def lease_tables_def comp_def)
qed

text \<open>Every resource is reported under its id, with the totals of its leases.\<close>

lemma status_loop_reports:
  "status_loop now1 now2 srv m = Inr sts \<Longrightarrow> list_all2 (\<lambda>(k, a) (k', st). k' = k \<and>
     rst_SumHas st = store_SumHas (res_store (srv_heap srv ! a)) \<and> rst_Count st = store_Count (res_store (srv_heap srv ! a))) m sts"
proof (induction m arbitrary: sts)
  case (Cons e m)
  obtain k a where e: "e = (k, a)" by force
  with Cons.prems obtain st sts' where "resource_Status (srv_heap srv ! a) now1 now2 = Inr st"
    "status_loop now1 now2 srv m = Inr sts'" "sts = (k, st) # sts'" by auto
  with Cons.IH [of sts'] e show ?case by (auto simp: resource_Status_def split: option.splits)
qed simp

lemma metrics_are_totals:
  assumes "server_ok srv" and "srv_lookup srv i = Some a" and "resource_ok (srv_heap srv ! a)"
  shows "\<exists>v ms. Collect now1 now2 srv t = Inr (v, ms) \<and> v = t + Fin 10 \<and>
    MetricHas i (Fin (total_has (ls_leases (res_store (srv_heap srv ! a))))) \<in> set ms"
proof -
  obtain m where m: "srv_resources srv = Some m" "(i, a) \<in> set m"
    using assms(2) by (auto simp: srv_lookup_def dest: map_of_SomeD split: option.splits)
  obtain st where st: "server_Status srv now1 now2 = Inr st" using server_Status_ok [OF assms(1)] by blast
  then have "status_loop now1 now2 srv m = Inr (sst_Resources st)" using m(1) by (auto simp: server_Status_def)
  from status_loop_reports [OF this] m(2) obtain r where r: "(i, r) \<in> set (sst_Resources st)"
    "rst_SumHas r = store_SumHas (res_store (srv_heap srv ! a))" by (fastforce simp: list_all2_conv_all_nth in_set_conv_nth)
  then have "MetricHas i (rst_SumHas r) \<in> set (concat (map resource_metrics (sst_Resources st)))"
    by (force simp: resource_metrics_def)
  moreover have "rst_SumHas r = Fin (total_has (ls_leases (res_store (srv_heap srv ! a))))"
    using r(2) assms(3) by (simp add: resource_ok_def store_ok_def store_SumHas_def)
  ultimately show ?thesis by (simp add: Collect_def st Let_def)
qed

end
