(* ===== verification/Limiter_Callers.thy ===== *)
theory Limiter_Callers
  imports Rate_Limiter
begin

text \<open>
  The calls of \<open>Wait\<close> and the loop of the limiter as goroutines that meet on channels
  (\<open>go/ratelimiter/ratelimiter.go\<close>). In \<open>Rate_Limiter\<close> the loop is told by an oracle which of
  its sends are received; here they are received by the callers. No channel has a buffer, so
  a send and its receipt are one step. Which case of a \<open>select\<close> is taken, and which caller receives,
  is the choice of the run.
\<close>

section \<open>The code\<close>

datatype wait_result = Proceeds | ContextDone | WasClosed

text \<open>A caller of \<open>Wait\<close>: it sends on \<open>events\<close>; it has received the channel of the loop but is not yet in
  its \<open>select\<close>; it is in its \<open>select\<close> on that channel; it is in its \<open>select\<close> on a channel of its own; it has
  returned.\<close>

datatype caller_pc = Asking | Preparing | Selecting | SelectingOwn | Returned wait_result

text \<open>The loop: at its \<open>select\<close>; sending on the own channel of a caller; releasing, with a number of
  sends to try; at the end, with \<open>unfreeze\<close> closed.\<close>

datatype loop_pc = Choosing | SendingOwn nat | Releasing nat | Stopped

record limiter_system =
  ly_lm :: limiter
  ly_loop :: loop_pc
  ly_callers :: "caller_pc list"
  ly_closing :: nat                     \<comment> \<open>calls of \<open>Close\<close> that wait for the loop to receive from \<open>quit\<close>\<close>

definition limiter_start :: limiter_system where
  "limiter_start = \<lparr>ly_lm = NewQPS, ly_loop = Choosing, ly_callers = [], ly_closing = 0\<rparr>"

datatype system_event =
    Calls
  | Hears nat
  | Enters nat
  | TakesOwn nat
  | GivesUp nat
  | NewCapacity f64
  | Fires
  | Sends nat
  | SendFails
  | CallsClose
  | Closes
  | SeesClosed nat

definition caller_is :: "limiter_system \<Rightarrow> nat \<Rightarrow> caller_pc \<Rightarrow> bool" where
  "caller_is y k pc = (k < length (ly_callers y) \<and> ly_callers y ! k = pc)"

definition set_caller :: "nat \<Rightarrow> caller_pc \<Rightarrow> limiter_system \<Rightarrow> limiter_system" where
  "set_caller k pc y = y\<lparr>ly_callers := (ly_callers y)[k := pc]\<rparr>"

definition releasing :: "nat \<Rightarrow> loop_pc" where
  "releasing n = (if n = 0 then Choosing else Releasing n)"

text \<open>One step, \<open>None\<close> if it cannot be taken. A capacity whose conversion Go leaves open is not among
  the steps.\<close>

definition system_step :: "system_event \<Rightarrow> limiter_system \<Rightarrow> panic + limiter_system option" where
  "system_step e y = (case e of
       Calls \<Rightarrow> Inr (Some (y\<lparr>ly_callers := ly_callers y @ [Asking]\<rparr>))
     | Hears k \<Rightarrow> Inr (if ly_loop y = Choosing \<and> caller_is y k Asking
         then Some (if unlimited (lm_rl (ly_lm y)) then set_caller k SelectingOwn (y\<lparr>ly_loop := SendingOwn k\<rparr>)
           else set_caller k Preparing y)
         else None)
     | Enters k \<Rightarrow> Inr (if caller_is y k Preparing then Some (set_caller k Selecting y) else None)
     | TakesOwn k \<Rightarrow> Inr (if ly_loop y = SendingOwn k \<and> caller_is y k SelectingOwn
         then Some (set_caller k (Returned Proceeds) (y\<lparr>ly_loop := Choosing\<rparr>)) else None)
     | GivesUp k \<Rightarrow> Inr (if caller_is y k Selecting \<or> caller_is y k SelectingOwn
         then Some (set_caller k (Returned ContextDone) y) else None)
     | NewCapacity capacity \<Rightarrow>
         (if ly_loop y = Choosing
          then bind_panic (limiter_step (ly_lm y) (LimiterCapacity capacity)) (\<lambda>out. Inr (case out of
            Running lm n \<Rightarrow> Some (y\<lparr>ly_lm := lm\<rparr>) | _ \<Rightarrow> None))
          else Inr None)
     | Fires \<Rightarrow>
         (if ly_loop y = Choosing \<and> enabled (ly_lm y) (LimiterWakeUp (\<lambda>i. False))
          then bind_panic (wake_up (ly_lm y)) (\<lambda>(lm, mx). Inr (Some (y\<lparr>ly_lm := lm, ly_loop := releasing (nat (sint mx))\<rparr>)))
          else Inr None)
     | Sends k \<Rightarrow> Inr (case ly_loop y of
         Releasing n \<Rightarrow> if caller_is y k Selecting
           then Some (set_caller k (Returned Proceeds) (y\<lparr>ly_loop := releasing (n - 1)\<rparr>)) else None
       | _ \<Rightarrow> None)
     | SendFails \<Rightarrow> Inr (case ly_loop y of
         Releasing n \<Rightarrow> if Selecting \<notin> set (ly_callers y) then Some (y\<lparr>ly_loop := releasing (n - 1)\<rparr>) else None
       | _ \<Rightarrow> None)
     | CallsClose \<Rightarrow> Inr (Some (y\<lparr>ly_closing := ly_closing y + 1\<rparr>))
     | Closes \<Rightarrow> Inr (if ly_loop y = Choosing \<and> 0 < ly_closing y
         then Some (y\<lparr>ly_loop := Stopped, ly_closing := ly_closing y - 1\<rparr>) else None)
     | SeesClosed k \<Rightarrow> Inr (if ly_loop y = Stopped \<and> caller_is y k Selecting
         then Some (set_caller k (Returned WasClosed) y) else None))"

fun system_run :: "system_event list \<Rightarrow> limiter_system \<Rightarrow> panic + limiter_system option" where
  "system_run [] y = Inr (Some y)"
| "system_run (e # es) y = bind_panic (system_step e y) (\<lambda>r. case r of None \<Rightarrow> Inr None | Some y' \<Rightarrow> system_run es y')"

section \<open>The limiter with its oracle\<close>

text \<open>A run of the loop alone, with the number of operations that it has let through.\<close>

fun limiter_trace :: "limiter_event list \<Rightarrow> limiter \<times> nat \<Rightarrow> panic + (limiter \<times> nat) option" where
  "limiter_trace [] st = Inr (Some st)"
| "limiter_trace (e # es) (lm, m) =
     (if enabled lm e
      then bind_panic (limiter_step lm e) (\<lambda>out. case out of
        Running lm' n \<Rightarrow> limiter_trace es (lm', m + n) | _ \<Rightarrow> Inr None)
      else Inr None)"

definition let_through :: "limiter_system \<Rightarrow> nat" where
  "let_through y = length (filter (\<lambda>pc. pc = Returned Proceeds) (ly_callers y))"

text \<open>The capacities that arrive, and the firings of the timer.\<close>

fun inputs :: "system_event list \<Rightarrow> f64 option list" where
  "inputs [] = []"
| "inputs (e # es) = (case e of NewCapacity c \<Rightarrow> Some c # inputs es | Fires \<Rightarrow> None # inputs es | _ \<Rightarrow> inputs es)"

fun trace_inputs :: "limiter_event list \<Rightarrow> f64 option list" where
  "trace_inputs [] = []"
| "trace_inputs (e # es) = (case e of LimiterCapacity c \<Rightarrow> Some c # trace_inputs es
     | LimiterWakeUp ready \<Rightarrow> None # trace_inputs es | _ \<Rightarrow> trace_inputs es)"

lemma limiter_trace_Cons:
  "limiter_trace (e # es) (lm, m) = Inr (Some st') \<longleftrightarrow> enabled lm e \<and>
     (\<exists>lm' n. limiter_step lm e = Inr (Running lm' n) \<and> limiter_trace es (lm', m + n) = Inr (Some st'))"
proof (cases "limiter_step lm e")
  case (Inr out)
  then show ?thesis by (cases out) auto
qed simp

declare limiter_trace.simps(2) [simp del]

lemma limiter_trace_append:
  "limiter_trace es st = Inr (Some st') \<Longrightarrow> limiter_trace es' st' = Inr (Some st'') \<Longrightarrow>
     limiter_trace (es @ es') st = Inr (Some st'')"
proof (induction es arbitrary: st)
  case (Cons e es)
  obtain lm m where st: "st = (lm, m)" by force
  with Cons show ?case by (auto simp: limiter_trace_Cons)
qed simp

lemma trace_inputs_append: "trace_inputs (es @ es') = trace_inputs es @ trace_inputs es'"
  by (induction es) (auto split: limiter_event.split)

lemma inputs_append: "inputs (es @ es') = inputs es @ inputs es'"
  by (induction es) (auto split: system_event.split)

lemma limiter_trace_reach:
  "limiter_trace es (lm, m) = Inr (Some (lm', m')) \<Longrightarrow> limiter_reach lm \<Longrightarrow> limiter_reach lm'"
proof (induction es arbitrary: lm m)
  case (Cons e es)
  then show ?case by (auto simp: limiter_trace_Cons intro: limiter_reach.step)
qed simp

section \<open>The system follows the limiter\<close>

lemma let_through_set:
  assumes "caller_is y k old" and "old \<noteq> Returned Proceeds"
  shows "let_through (set_caller k pc y) = let_through y + (if pc = Returned Proceeds then 1 else 0)"
proof -
  have k: "k < length (ly_callers y)" "ly_callers y ! k = old" using assms(1) by (simp_all add: caller_is_def)
  have "filter P (ly_callers y) = filter P (take k (ly_callers y)) @ (if P old then [old] else []) @ filter P (drop (Suc k) (ly_callers y))" for P
    using k by (subst id_take_nth_drop [of k]) simp_all
  with k assms(2) show ?thesis by (simp add: let_through_def set_caller_def upd_conv_take_nth_drop)
qed

lemma set_caller_simps [simp]:
  "ly_lm (set_caller k pc y) = ly_lm y" "ly_loop (set_caller k pc y) = ly_loop y"
  by (simp_all add: set_caller_def)

lemma caller_is_set: "caller_is (set_caller k pc y) j pc' = (if j = k \<and> k < length (ly_callers y) then pc' = pc else caller_is y j pc')"
  by (auto simp: caller_is_def set_caller_def nth_list_update)

lemma let_through_loop [simp]: "let_through (y\<lparr>ly_loop := l\<rparr>) = let_through y" "let_through (y\<lparr>ly_lm := lm\<rparr>) = let_through y"
  "caller_is (y\<lparr>ly_loop := l\<rparr>) k pc = caller_is y k pc" "let_through (y\<lparr>ly_closing := n\<rparr>) = let_through y"
  by (simp_all add: let_through_def caller_is_def)

lemma unfreeze_hits:
  assumes "length hits = nat (sint mx)"
  shows "unfreeze mx (\<lambda>i. hits ! i) = length (filter id hits)"
proof -
  have "filter id hits = filter id (map ((!) hits) [0..<length hits])" by (simp only: map_nth)
  then have "length (filter id hits) = length (filter (\<lambda>i. hits ! i) [0..<length hits])" by (simp add: filter_map comp_def)
  then show ?thesis by (simp add: unfreeze_def assms)
qed

definition traced :: "f64 option list \<Rightarrow> limiter \<Rightarrow> nat \<Rightarrow> bool" where
  "traced ins lm m = (\<exists>evs. limiter_trace evs (NewQPS, 0) = Inr (Some (lm, m)) \<and> trace_inputs evs = ins)"

lemma traced_step:
  assumes "traced ins lm m" and "enabled lm e" and "limiter_step lm e = Inr (Running lm' n)"
  shows "traced (ins @ trace_inputs [e]) lm' (m + n)"
proof -
  obtain evs where "limiter_trace evs (NewQPS, 0) = Inr (Some (lm, m))" "trace_inputs evs = ins"
    using assms(1) by (auto simp: traced_def)
  with assms(2,3) show ?thesis
    unfolding traced_def
    by (intro exI [of _ "evs @ [e]"]) (auto simp: limiter_trace_Cons trace_inputs_append intro!: limiter_trace_append)
qed

lemma traced_ok: "traced ins lm m \<Longrightarrow> limiter_ok lm \<and> limiter_reach lm"
  using limiter_trace_reach [OF _ limiter_reach.start] limiter_reach_ok by (auto simp: traced_def)

text \<open>While the loop releases callers, the firing is not complete: some of its sends have been tried.\<close>

definition half_fired :: "f64 option list \<Rightarrow> limiter_system \<Rightarrow> nat \<Rightarrow> bool" where
  "half_fired ins y n = (\<exists>lm m mx hits. traced ins lm m \<and> enabled lm (LimiterWakeUp (\<lambda>i. False)) \<and> wake_up lm = Inr (ly_lm y, mx) \<and>
     length hits + n = nat (sint mx) \<and> let_through y = m + length (filter id hits))"

definition follows :: "system_event list \<Rightarrow> limiter_system \<Rightarrow> bool" where
  "follows es y = (case ly_loop y of
       Releasing n \<Rightarrow> 0 < n \<and> (\<exists>ins. inputs es = ins @ [None] \<and> half_fired ins y n)
     | SendingOwn k \<Rightarrow> traced (inputs es) (ly_lm y) (let_through y) \<and> unlimited (lm_rl (ly_lm y))
     | _ \<Rightarrow> traced (inputs es) (ly_lm y) (let_through y))"

lemma half_fired_end:
  assumes "half_fired ins y 0"
  shows "traced (ins @ [None]) (ly_lm y) (let_through y)"
proof -
  obtain lm m mx hits where h: "traced ins lm m" "enabled lm (LimiterWakeUp (\<lambda>i. False))" "wake_up lm = Inr (ly_lm y, mx)"
    "length hits = nat (sint mx)" "let_through y = m + length (filter id hits)"
    using assms by (auto simp: half_fired_def)
  have "limiter_step lm (LimiterWakeUp (\<lambda>i. hits ! i)) = Inr (Running (ly_lm y) (length (filter id hits)))"
    using h(3) unfreeze_hits [OF h(4)] by (simp add: limiter_step_def)
  moreover have "enabled lm (LimiterWakeUp (\<lambda>i. hits ! i))" using h(2) by (simp add: enabled_def)
  ultimately show ?thesis using traced_step [OF h(1)] h(5) by fastforce
qed

text \<open>The loop goes on after a send that succeeded or failed.\<close>

lemma release_next:
  assumes "half_fired ins y (Suc n)" and "let_through y' = let_through y + (if hit then 1 else 0)" and "ly_lm y' = ly_lm y"
    and "ly_loop y' = releasing n" and "inputs es = ins @ [None]"
  shows "follows es y'"
proof -
  obtain lm m mx hits where h: "traced ins lm m" "enabled lm (LimiterWakeUp (\<lambda>i. False))" "wake_up lm = Inr (ly_lm y, mx)"
    "length hits + Suc n = nat (sint mx)" "let_through y = m + length (filter id hits)"
    using assms(1) by (auto simp: half_fired_def)
  then have half: "half_fired ins y' n"
    unfolding half_fired_def using assms(2,3)
    by (intro exI [of _ lm] exI [of _ m] exI [of _ mx] exI [of _ "hits @ [hit]"]) simp
  show ?thesis
  proof (cases n)
    case 0
    with half half_fired_end [of ins y'] show ?thesis by (simp add: follows_def assms(4,5) releasing_def)
  next
    case (Suc n')
    with half show ?thesis by (simp add: follows_def assms(4,5) releasing_def)
  qed
qed

lemma follows_same:
  assumes "follows es y" and "ly_loop y' = ly_loop y" and "ly_lm y' = ly_lm y" and "let_through y' = let_through y" and "inputs es' = inputs es"
  shows "follows es' y'"
  using assms by (simp add: follows_def half_fired_def split: loop_pc.splits)

lemma follows_choosing:
  "ly_loop y = Choosing \<Longrightarrow> follows es y = traced (inputs es) (ly_lm y) (let_through y)"
  by (simp add: follows_def)

lemma follows_capacity:
  assumes "follows es y" and "ly_loop y = Choosing"
  shows "\<exists>r. system_step (NewCapacity c) y = Inr r \<and> (\<forall>y'. r = Some y' \<longrightarrow> follows (es @ [NewCapacity c]) y')"
proof -
  have t: "traced (inputs es) (ly_lm y) (let_through y)" using assms by (simp add: follows_choosing)
  have en: "enabled (ly_lm y) (LimiterCapacity c)" by (simp add: enabled_def)
  obtain out where out: "limiter_step (ly_lm y) (LimiterCapacity c) = Inr out"
    using limiter_step_ok [OF conjunct1 [OF traced_ok [OF t]] en] by blast
  have "follows (es @ [NewCapacity c]) (y\<lparr>ly_lm := lm\<rparr>)" if "out = Running lm n" for lm n
  proof -
    have "n = 0" using out that by (cases "limiter_update (lm_rl (ly_lm y)) c") (auto simp: limiter_step_def split: option.splits prod.splits)
    with traced_step [OF t en, of lm n] out that assms(2) show ?thesis by (simp add: follows_choosing inputs_append)
  qed
  with out assms(2) show ?thesis by (cases out) (auto simp: system_step_def)
qed

lemma follows_fires:
  assumes "follows es y" and "ly_loop y = Choosing"
  shows "\<exists>r. system_step Fires y = Inr r \<and> (\<forall>y'. r = Some y' \<longrightarrow> follows (es @ [Fires]) y')"
proof (cases "enabled (ly_lm y) (LimiterWakeUp (\<lambda>i. False))")
  case True
  have t: "traced (inputs es) (ly_lm y) (let_through y)" using assms by (simp add: follows_choosing)
  have ok: "limiter_ok (ly_lm y)" using traced_ok [OF t] by simp
  have "0 < sint (rl_rate (lm_rl (ly_lm y)))"
    using True by (auto simp: enabled_def rl_blocked_def unlimited_def not_less intro: sint64_pos)
  from wake_up_ok [OF ok this] obtain lm mx where w: "wake_up (ly_lm y) = Inr (lm, mx)" "0 < sint mx" by blast
  let ?y = "y\<lparr>ly_lm := lm, ly_loop := releasing (nat (sint mx))\<rparr>"
  have "half_fired (inputs es) ?y (nat (sint mx))"
    unfolding half_fired_def using t True w(1)
    by (intro exI [of _ "ly_lm y"] exI [of _ "let_through y"] exI [of _ mx] exI [of _ "[]"]) simp
  then have "follows (es @ [Fires]) ?y" using w(2) by (simp add: follows_def releasing_def inputs_append)
  with True w(1) assms(2) show ?thesis by (simp add: system_step_def)
qed (simp add: system_step_def)

lemma follows_own:
  assumes "follows es y" and "system_step (TakesOwn k) y = Inr (Some y')"
  shows "follows (es @ [TakesOwn k]) y'"
proof -
  have k: "ly_loop y = SendingOwn k" "caller_is y k SelectingOwn"
    and y': "y' = set_caller k (Returned Proceeds) (y\<lparr>ly_loop := Choosing\<rparr>)"
    using assms(2) by (auto simp: system_step_def split: if_splits)
  have t: "traced (inputs es) (ly_lm y) (let_through y)" "unlimited (lm_rl (ly_lm y))" using assms(1) k(1) by (simp_all add: follows_def)
  have "limiter_step (ly_lm y) (LimiterWait False) = Inr (Running (ly_lm y) 1)" "enabled (ly_lm y) (LimiterWait False)"
    using t(2) by (simp_all add: limiter_step_def enabled_def)
  from traced_step [OF t(1) this(2,1)] have "traced (inputs es) (ly_lm y) (let_through y + 1)" by simp
  moreover have "let_through y' = let_through y + 1" unfolding y' using k(2) by (simp add: let_through_set [where old = SelectingOwn])
  ultimately show ?thesis by (simp add: y' follows_choosing inputs_append)
qed

lemma follows_sends:
  assumes "follows es y" and "system_step e y = Inr (Some y')" and "e = Sends k \<or> e = SendFails"
  shows "follows (es @ [e]) y'"
proof -
  obtain n where n: "ly_loop y = Releasing n" using assms(2,3) by (auto simp: system_step_def split: loop_pc.splits)
  obtain ins n' where ins: "inputs es = ins @ [None]" "half_fired ins y (Suc n')" "n = Suc n'"
    using assms(1) n by (cases n) (auto simp: follows_def)
  have same: "inputs (es @ [e]) = ins @ [None]" using assms(3) ins(1) by (auto simp: inputs_append)
  show ?thesis
  proof (cases "e = SendFails")
    case True
    then have "y' = y\<lparr>ly_loop := releasing n'\<rparr>" using assms(2) n ins(3) by (auto simp: system_step_def split: if_splits)
    then show ?thesis by (intro release_next [OF ins(2), where hit = False] same) simp_all
  next
    case False
    then have k: "caller_is y k Selecting" "y' = set_caller k (Returned Proceeds) (y\<lparr>ly_loop := releasing n'\<rparr>)"
      using assms(2,3) n ins(3) by (auto simp: system_step_def split: if_splits)
    then have "let_through y' = let_through y + 1" by (simp add: let_through_set [where old = Selecting])
    then show ?thesis by (intro release_next [OF ins(2), where hit = True] same) (simp_all add: k(2))
  qed
qed

lemma follows_step:
  assumes "follows es y"
  shows "\<exists>r. system_step e y = Inr r \<and> (\<forall>y'. r = Some y' \<longrightarrow> follows (es @ [e]) y')"
proof (cases e)
  case Calls
  have "let_through (y\<lparr>ly_callers := ly_callers y @ [Asking]\<rparr>) = let_through y" by (simp add: let_through_def)
  then show ?thesis using follows_same [OF assms] by (simp add: Calls system_step_def inputs_append)
next
  case (Hears k)
  show ?thesis
  proof (cases "ly_loop y = Choosing \<and> caller_is y k Asking")
    case True
    then have t: "traced (inputs es) (ly_lm y) (let_through y)" using assms by (simp add: follows_choosing)
    have "follows (es @ [e]) (set_caller k SelectingOwn (y\<lparr>ly_loop := SendingOwn k\<rparr>))" if "unlimited (lm_rl (ly_lm y))"
      using True t that by (simp add: follows_def Hears inputs_append let_through_set [where old = Asking])
    moreover have "follows (es @ [e]) (set_caller k Preparing y)"
      using True by (intro follows_same [OF assms]) (simp_all add: Hears inputs_append let_through_set [where old = Asking])
    ultimately show ?thesis using True by (simp add: Hears system_step_def)
  qed (auto simp: Hears system_step_def)
next
  case (Enters k)
  then show ?thesis
    using follows_same [OF assms, of "set_caller k Selecting y" "es @ [e]"]
    by (auto simp: system_step_def inputs_append let_through_set [where old = Preparing])
next
  case (TakesOwn k)
  then show ?thesis using follows_own [OF assms, of k] by (simp add: system_step_def)
next
  case (GivesUp k)
  have "let_through (set_caller k (Returned ContextDone) y) = let_through y" if "caller_is y k Selecting \<or> caller_is y k SelectingOwn"
    using that let_through_set [of y k Selecting "Returned ContextDone"] let_through_set [of y k SelectingOwn "Returned ContextDone"] by auto
  then show ?thesis
    using follows_same [OF assms, of "set_caller k (Returned ContextDone) y" "es @ [e]"] by (simp add: GivesUp system_step_def inputs_append)
next
  case (NewCapacity c)
  then show ?thesis using follows_capacity [OF assms, of c] by (cases "ly_loop y = Choosing") (simp_all add: system_step_def)
next
  case Fires
  then show ?thesis using follows_fires [OF assms] by (cases "ly_loop y = Choosing") (simp_all add: system_step_def)
next
  case (Sends k)
  then show ?thesis using follows_sends [OF assms, of e _ k] by (simp add: system_step_def)
next
  case SendFails
  then show ?thesis using follows_sends [OF assms, of e] by (simp add: system_step_def)
next
  case CallsClose
  then show ?thesis
    using follows_same [OF assms, of "y\<lparr>ly_closing := ly_closing y + 1\<rparr>" "es @ [e]"] by (simp add: system_step_def inputs_append)
next
  case Closes
  then show ?thesis using assms by (cases "ly_loop y") (simp_all add: system_step_def follows_def inputs_append)
next
  case (SeesClosed k)
  then show ?thesis
    using follows_same [OF assms, of "set_caller k (Returned WasClosed) y" "es @ [e]"]
    by (auto simp: system_step_def inputs_append let_through_set [where old = Selecting])
qed

lemma follows_run:
  "follows es y \<Longrightarrow> \<exists>r. system_run es' y = Inr r \<and> (\<forall>y'. r = Some y' \<longrightarrow> follows (es @ es') y')"
proof (induction es' arbitrary: es y)
  case (Cons e es')
  from follows_step [OF Cons.prems, of e] obtain r where r: "system_step e y = Inr r" "\<forall>y'. r = Some y' \<longrightarrow> follows (es @ [e]) y'" by blast
  show ?case
  proof (cases r)
    case (Some y')
    with Cons.IH [of "es @ [e]" y'] r show ?thesis by simp
  qed (use r in simp)
qed simp

lemma follows_start: "follows [] limiter_start"
  by (simp add: follows_def limiter_start_def traced_def let_through_def) (intro exI [of _ "[]"], simp)

text \<open>The calls of \<open>Close\<close>: one returns, when the loop receives from \<open>quit\<close>, and the others wait.\<close>

definition closed_calls :: "limiter_system \<Rightarrow> nat" where
  "closed_calls y = ly_closing y + (if ly_loop y = Stopped then 1 else 0)"

lemma set_caller_closing [simp]: "ly_closing (set_caller k pc y) = ly_closing y"
  by (simp add: set_caller_def)

lemma closed_calls_step:
  assumes "system_step e y = Inr (Some y')"
  shows "closed_calls y' = closed_calls y + (if e = CallsClose then 1 else 0)"
  using assms
  by (cases e) (auto simp: system_step_def closed_calls_def releasing_def bind_panic_def
      split: if_splits sum.splits limiter_outcome.splits loop_pc.splits)

lemma closed_calls_run:
  "system_run es y = Inr (Some y') \<Longrightarrow> closed_calls y' = closed_calls y + count_list es CallsClose"
proof (induction es arbitrary: y)
  case (Cons e es)
  then obtain y1 where "system_step e y = Inr (Some y1)" "system_run es y1 = Inr (Some y')"
    by (auto split: option.splits)
  with Cons.IH [of y1] closed_calls_step [of e y y1] show ?case by simp
qed simp

section \<open>Properties\<close>

text \<open>C22. The goroutines of the limiter and its callers do what the loop does with its oracle: nothing panics,
  and whenever the loop is at its \<open>select\<close>, the limiter is in a state that a run of the loop alone reaches
  with the same capacities and firings in the same order, and as many calls of \<open>Wait\<close> have been let
  through as that run lets operations through. Of the calls of \<open>Close\<close> one returns, when the loop stops, and all others wait
  (the comment on \<open>Close\<close> says that a second call panics). Capacities whose conversion Go leaves open do not arrive.\<close>

theorem wait_refines_limiter:
  shows "case system_run es limiter_start of
      Inl p \<Rightarrow> False
    | Inr None \<Rightarrow> True
    | Inr (Some y) \<Rightarrow> (case ly_loop y of Choosing \<Rightarrow>
        \<exists>evs. limiter_trace evs (NewQPS, 0) = Inr (Some (ly_lm y, let_through y)) \<and> trace_inputs evs = inputs es | _ \<Rightarrow> True) \<and>
        count_list es CallsClose = ly_closing y + (if ly_loop y = Stopped then 1 else 0)"
proof -
  obtain r where r: "system_run es limiter_start = Inr r" "\<And>y. r = Some y \<Longrightarrow> follows es y"
    using follows_run [OF follows_start, of es] by auto
  show ?thesis
  proof (cases r)
    case (Some y)
    have "count_list es CallsClose = closed_calls y"
      using closed_calls_run [of es limiter_start y] r(1) Some by (simp add: closed_calls_def limiter_start_def)
    with r Some show ?thesis by (auto simp: follows_def traced_def closed_calls_def split: loop_pc.split)
  qed (use r in simp)
qed

text \<open>Two callers of a limiter with a capacity of 5: the timer fires, and one of them is let through.\<close>

lemma example_wait:
  "\<exists>y. system_run [NewCapacity (Fin 5), Calls, Calls, Hears 1, Hears 0, Enters 0, Fires, Sends 0] limiter_start = Inr (Some y) \<and>
     ly_callers y = [Returned Proceeds, Preparing] \<and> ly_loop y = Choosing"
proof -
  have up: "limiter_step NewQPS (LimiterCapacity (Fin 5)) = Inr (Running (NewQPS\<lparr>lm_rl := \<lparr>rl_interval = milliseconds 200, rl_rate = 1, rl_subintervals = 0\<rparr>\<rparr>) 0)"
    by (simp add: limiter_step_def limiter_update_def update_with_def float_to_int64_def trunc_rat_def recalculate_def NewQPS_def)
  show ?thesis
    by (simp add: limiter_start_def system_step_def up [unfolded NewQPS_def] NewQPS_def caller_is_def set_caller_def unlimited_def rl_blocked_def enabled_def
        wake_up_def releasing_def Let_def)
qed

text \<open>A loop that has stopped, or that sends on the own channel of a caller whose context is done, never
  hears a caller again: calls of \<open>Wait\<close> that it has not heard wait for ever, even when their context is
  done.\<close>

definition deaf :: "limiter_system \<Rightarrow> bool" where
  "deaf y = (ly_loop y = Stopped \<or> (\<exists>k. ly_loop y = SendingOwn k \<and> caller_is y k (Returned ContextDone)))"

lemma deaf_step:
  assumes "deaf y" and "caller_is y j Asking" and "system_step e y = Inr (Some y')"
  shows "deaf y' \<and> caller_is y' j Asking"
proof -
  show ?thesis
    using assms
    by (cases e) (auto simp: system_step_def deaf_def caller_is_def set_caller_def nth_list_update nth_append
        split: if_splits loop_pc.splits)
qed

lemma deaf_run:
  "deaf y \<Longrightarrow> caller_is y j Asking \<Longrightarrow> system_run es y = Inr (Some y') \<Longrightarrow> caller_is y' j Asking"
proof (induction es arbitrary: y)
  case (Cons e es)
  obtain y1 where "system_step e y = Inr (Some y1)" "system_run es y1 = Inr (Some y')"
    using Cons.prems(3) by (auto split: option.splits)
  with Cons.IH [of y1] deaf_step [OF Cons.prems(1,2)] show ?case by blast
qed simp

end
