(* ===== verification/Client_Goroutine.thy ===== *)
theory Client_Goroutine
  imports Client_Props
begin

text \<open>
  The goroutine of a client with the calls of its program (\<open>go/client/doorman/client.go\<close>): calls of
  \<open>Resource\<close> and \<open>Release\<close> send on channels without a buffer, and the goroutine takes them one by
  one in its \<open>select\<close>; a timer, whose function sends on \<open>wakeUp\<close>, makes it refresh the leases. The
  events of a run may come in any order. A panic in any goroutine ends the process.
\<close>

section \<open>The code\<close>

text \<open>A call, with the address of its resource, and whether it waits or has been answered.\<close>

datatype api_call = Claims nat | Frees nat

datatype api_pc = Waiting | Answered "client_error option"

text \<open>The goroutine: at its \<open>select\<close>; at the receive from \<open>wakeUp\<close> after a timer that could not be stopped;
  before its request; waiting on the channel of a resource; returned. \<open>Shut\<close> is the state when, after
  that, \<open>Close\<close> has closed the channels.\<close>

datatype client_pc = Selects | Drains | Requests | Blocked | Ended | Shut

text \<open>The variable \<open>timer\<close>: nil, or a timer that is running, was stopped, or has expired.\<close>

datatype timer_var = NoTimer | Armed | Unarmed | Expired

record client_system =
  gs_client :: Client
  gs_retryCount :: int64
  gs_pc :: client_pc
  gs_timer :: timer_var
  gs_unsent :: nat      \<comment> \<open>functions of expired timers that have not sent\<close>
  gs_wakeUp :: nat      \<comment> \<open>what is in the channel, which has room for one\<close>
  gs_calls :: "(api_call \<times> api_pc) list"
  gs_closed :: bool
  gs_rest :: "(string \<times> nat) list"      \<comment> \<open>at \<open>Blocked\<close>: what the loop over the resources has still to do\<close>

definition client_start :: "string \<Rightarrow> Options \<Rightarrow> client_system" where
  "client_start i opts = \<lparr>gs_client = NewWithID i opts, gs_retryCount = 0, gs_pc = Selects, gs_timer = NoTimer,
     gs_unsent = 0, gs_wakeUp = 0, gs_calls = [], gs_closed = False, gs_rest = []\<rparr>"

datatype goroutine_event =
    CallResource string f64 int64
  | CallRelease nat
  | TakeCall nat
  | TimerExpires
  | TimerSends
  | ReceiveWakeUp
  | DrainWakeUp
  | Perform time "GetCapacityResponse option"
  | ProgramReads nat
  | Resumes time
  | CallClose
  | SeeClosed
  | CloseReturns

text \<open>The check of the timer before a request.\<close>

definition check_timer :: "client_system \<Rightarrow> client_system" where
  "check_timer s = (case gs_timer s of
       Armed \<Rightarrow> s\<lparr>gs_timer := Unarmed, gs_pc := Requests\<rparr>
     | NoTimer \<Rightarrow> s\<lparr>gs_pc := Requests\<rparr>
     | _ \<Rightarrow> s\<lparr>gs_pc := Drains\<rparr>)"

definition take_call :: "nat \<Rightarrow> api_call \<Rightarrow> client_system \<Rightarrow> panic + client_system" where
  "take_call k call s = (case call of
       Claims a \<Rightarrow> (let (client, err) = addResource (gs_client s) a
         in Inr (check_timer (s\<lparr>gs_client := client, gs_calls := (gs_calls s)[k := (call, Answered err)]\<rparr>)))
     | Frees a \<Rightarrow> bind_panic (removeResource (gs_client s) a) (\<lambda>(client, request).
         Inr (s\<lparr>gs_client := client, gs_calls := (gs_calls s)[k := (call, Answered None)]\<rparr>)))"

text \<open>The loop over the resources after an error, up to the first send that has to wait: the client, and
  the entries that are left, the one that waits first.\<close>

fun expire_until :: "time \<Rightarrow> (string \<times> nat) list \<Rightarrow> Client \<Rightarrow> panic + Client \<times> (string \<times> nat) list" where
  "expire_until now [] client = Inr (client, [])"
| "expire_until now ((i, a) # rest) client =
     (let res = cl_heap client ! a in
      if Before (expires res) now then
        (let client' = cl_write client a (res\<lparr>ri_lease := None\<rparr>) in
         bind_panic (send_capacity (res\<lparr>ri_lease := None\<rparr>) (Fin 0)) (\<lambda>r. case r of
             None \<Rightarrow> Inr (client', (i, a) # rest)
           | Some res' \<Rightarrow> expire_until now rest (cl_write client a res')))
      else expire_until now rest client)"

text \<open>The program has read from the channel that the goroutine waits on: the send goes through, and the
  loop goes on.\<close>

definition resume :: "time \<Rightarrow> client_system \<Rightarrow> panic + client_system option" where
  "resume now s = (case gs_rest s of
       [] \<Rightarrow> Inr None
     | (i, a) # rest \<Rightarrow> bind_panic (send_capacity (cl_heap (gs_client s) ! a) (Fin 0)) (\<lambda>r. case r of
           None \<Rightarrow> Inr None
         | Some res \<Rightarrow> bind_panic (expire_until now rest (cl_write (gs_client s) a res)) (\<lambda>(client, rest').
             Inr (Some (if rest' = []
               then s\<lparr>gs_client := client, gs_rest := [], gs_retryCount := gs_retryCount s + 1, gs_timer := Armed, gs_pc := Selects\<rparr>
               else s\<lparr>gs_client := client, gs_rest := rest'\<rparr>)))))"

text \<open>One step, \<open>None\<close> if it cannot be taken; a program can release only what a call of \<open>Resource\<close> has
  returned. A send on a closed channel, by a call that comes after
  \<open>Close\<close> or waits when it comes, panics, and so does a second \<open>Close\<close>. \<open>Close\<close> itself goes on when the
  goroutine has returned: it closes the channels and releases everything.\<close>

definition goroutine_system_step :: "goroutine_event \<Rightarrow> client_system \<Rightarrow> panic + client_system option" where
  "goroutine_system_step e s = (case e of
       CallResource i capacity priority \<Rightarrow>
         if gs_closed s then Inl ClosedChannel
         else (let client = gs_client s; a = length (cl_heap client)
           in Inr (Some (s\<lparr>gs_client := client\<lparr>cl_heap := cl_heap client @ [\<lparr>ri_id = i, ri_priority = priority, ri_capacity = [],
                ri_closed = False, ri_lease = None, ri_wants = capacity\<rparr>]\<rparr>, gs_calls := gs_calls s @ [(Claims a, Waiting)]\<rparr>)))
     | CallRelease a \<Rightarrow>
         if gs_closed s then Inl ClosedChannel
         else Inr (if list_ex (\<lambda>(call, pc). call = Claims a \<and> pc \<noteq> Waiting) (gs_calls s)
           then Some (s\<lparr>gs_calls := gs_calls s @ [(Frees a, Waiting)]\<rparr>) else None)
     | TakeCall k \<Rightarrow>
         if gs_pc s = Selects \<and> \<not> gs_closed s \<and> k < length (gs_calls s) \<and> snd (gs_calls s ! k) = Waiting
         then bind_panic (take_call k (fst (gs_calls s ! k)) s) (\<lambda>s. Inr (Some s)) else Inr None
     | TimerExpires \<Rightarrow>
         Inr (if gs_timer s = Armed then Some (s\<lparr>gs_timer := Expired, gs_unsent := gs_unsent s + 1\<rparr>) else None)
     | TimerSends \<Rightarrow>
         Inr (if 0 < gs_unsent s \<and> gs_wakeUp s = 0 then Some (s\<lparr>gs_unsent := gs_unsent s - 1, gs_wakeUp := 1\<rparr>) else None)
     | ReceiveWakeUp \<Rightarrow>
         Inr (if gs_pc s = Selects \<and> 0 < gs_wakeUp s
           then Some (check_timer (s\<lparr>gs_wakeUp := gs_wakeUp s - 1, gs_timer := NoTimer\<rparr>)) else None)
     | DrainWakeUp \<Rightarrow>
         Inr (if gs_pc s = Drains \<and> 0 < gs_wakeUp s
           then Some (s\<lparr>gs_wakeUp := gs_wakeUp s - 1, gs_timer := NoTimer, gs_pc := Requests\<rparr>) else None)
     | Perform now reply \<Rightarrow>
         if gs_pc s = Requests
         then bind_panic (performRequests now (gs_client s) (gs_retryCount s) reply) (\<lambda>r. case r of
             None \<Rightarrow> bind_panic (expire_until now (cl_resources (gs_client s)) (gs_client s)) (\<lambda>(client, rest).
               Inr (Some (s\<lparr>gs_client := client, gs_rest := rest, gs_pc := Blocked\<rparr>)))
           | Some (client, interval, retryCount) \<Rightarrow>
               Inr (Some (s\<lparr>gs_client := client, gs_retryCount := retryCount, gs_timer := Armed, gs_pc := Selects\<rparr>)))
         else Inr None
     | ProgramReads a \<Rightarrow>
         Inr (if a < length (cl_heap (gs_client s)) \<and> ri_capacity (cl_heap (gs_client s) ! a) \<noteq> []
           then Some (s\<lparr>gs_client := cl_write (gs_client s) a
             ((cl_heap (gs_client s) ! a)\<lparr>ri_capacity := tl (ri_capacity (cl_heap (gs_client s) ! a))\<rparr>)\<rparr>) else None)
     | Resumes now \<Rightarrow> if gs_pc s = Blocked then resume now s else Inr None
     | CallClose \<Rightarrow>
         if gs_closed s \<or> list_ex (\<lambda>(call, pc). pc = Waiting) (gs_calls s) then Inl ClosedChannel
         else Inr (Some (s\<lparr>gs_closed := True\<rparr>))
     | SeeClosed \<Rightarrow> Inr (if gs_pc s = Selects \<and> gs_closed s then Some (s\<lparr>gs_pc := Ended\<rparr>) else None)
     | CloseReturns \<Rightarrow>
         if gs_pc s = Ended \<and> gs_closed s
         then bind_panic (client_Close (gs_client s)) (\<lambda>(client, request). Inr (Some (s\<lparr>gs_client := client, gs_pc := Shut\<rparr>)))
         else Inr None)"

fun goroutine_system_run :: "goroutine_event list \<Rightarrow> client_system \<Rightarrow> panic + client_system option" where
  "goroutine_system_run [] s = Inr (Some s)"
| "goroutine_system_run (e # es) s =
     bind_panic (goroutine_system_step e s) (\<lambda>r. case r of None \<Rightarrow> Inr None | Some s' \<Rightarrow> goroutine_system_run es s')"

section \<open>The invariant of the timer\<close>

text \<open>At the \<open>select\<close> a wake-up is under way exactly if the timer has expired; at a request none is.\<close>

definition timer_ok :: "client_system \<Rightarrow> bool" where
  "timer_ok s = (case gs_pc s of
       Drains \<Rightarrow> gs_timer s = Expired \<and> gs_unsent s + gs_wakeUp s = 1
     | Requests \<Rightarrow> gs_timer s \<in> {NoTimer, Unarmed} \<and> gs_unsent s = 0 \<and> gs_wakeUp s = 0
     | Blocked \<Rightarrow> gs_timer s \<in> {NoTimer, Unarmed} \<and> gs_unsent s = 0 \<and> gs_wakeUp s = 0
     | _ \<Rightarrow> (case gs_timer s of
           Expired \<Rightarrow> gs_unsent s + gs_wakeUp s = 1
         | Armed \<Rightarrow> gs_unsent s = 0 \<and> gs_wakeUp s = 0
         | NoTimer \<Rightarrow> gs_unsent s = 0 \<and> gs_wakeUp s = 0 \<and> cl_resources (gs_client s) = []
         | Unarmed \<Rightarrow> False))"

lemma response_loop_resources: "response_loop prs client = Inr client' \<Longrightarrow> cl_resources client' = cl_resources client"
  by (induction prs client rule: response_loop.induct) (auto simp: cl_write_def split: option.splits)

lemma removeResource_empty:
  "removeResource client a = Inr (client', req) \<Longrightarrow> cl_resources client = [] \<Longrightarrow> cl_resources client' = []"
  by (auto simp: removeResource_def Let_def split: if_splits)

lemma timer_ok_same:
  assumes "timer_ok s" and "gs_pc s' = gs_pc s" and "gs_timer s' = gs_timer s" and "gs_unsent s' = gs_unsent s"
    and "gs_wakeUp s' = gs_wakeUp s" and "cl_resources (gs_client s) = [] \<Longrightarrow> cl_resources (gs_client s') = []"
  shows "timer_ok s'"
  using assms by (simp add: timer_ok_def split: client_pc.splits timer_var.splits)

text \<open>The events that the timer takes part in.\<close>

lemma timer_ok_selects:
  "gs_pc s = Selects \<Longrightarrow> timer_ok s = (case gs_timer s of
     Expired \<Rightarrow> gs_unsent s + gs_wakeUp s = 1
   | Armed \<Rightarrow> gs_unsent s = 0 \<and> gs_wakeUp s = 0
   | NoTimer \<Rightarrow> gs_unsent s = 0 \<and> gs_wakeUp s = 0 \<and> cl_resources (gs_client s) = []
   | Unarmed \<Rightarrow> False)"
  by (simp add: timer_ok_def)

lemma check_timer_ok:
  assumes "case gs_timer s of Expired \<Rightarrow> gs_unsent s + gs_wakeUp s = 1 | _ \<Rightarrow> gs_unsent s = 0 \<and> gs_wakeUp s = 0" and "gs_timer s \<noteq> Unarmed"
  shows "timer_ok (check_timer s)"
  using assms by (cases "gs_timer s") (simp_all add: check_timer_def timer_ok_def)

lemma close_loop_resources: "close_loop es client ids = Inr (client', ids') \<Longrightarrow> cl_resources client' = cl_resources client"
  by (induction es client ids rule: close_loop.induct) (auto simp: cl_write_def)

text \<open>The steps of the program, which leave the timer alone.\<close>

lemma program_steps_timer:
  assumes "case e of TakeCall k \<Rightarrow> False | Perform now reply \<Rightarrow> False | Resumes now \<Rightarrow> False | _ \<Rightarrow> e \<notin> {TimerExpires, TimerSends, ReceiveWakeUp, DrainWakeUp, SeeClosed, CloseReturns}"
    and "goroutine_system_step e s = Inr (Some s')"
  shows "gs_pc s' = gs_pc s" and "gs_timer s' = gs_timer s" and "gs_unsent s' = gs_unsent s" and "gs_wakeUp s' = gs_wakeUp s"
    and "cl_resources (gs_client s') = cl_resources (gs_client s)"
  using assms by (cases e; auto simp: goroutine_system_step_def cl_write_def Let_def split: if_splits)+

lemma timer_ok_take:
  assumes "timer_ok s" and "goroutine_system_step (TakeCall k) s = Inr (Some s')"
  shows "timer_ok s'"
proof -
  have s: "gs_pc s = Selects" "take_call k (fst (gs_calls s ! k)) s = Inr s'"
    using assms(2) by (auto simp: goroutine_system_step_def split: if_splits)
  show ?thesis
  proof (cases "fst (gs_calls s ! k)")
    case (Claims a)
    obtain client err where "addResource (gs_client s) a = (client, err)" by force
    with s(2) Claims have s': "s' = check_timer (s\<lparr>gs_client := client, gs_calls := (gs_calls s)[k := (Claims a, Answered err)]\<rparr>)"
      by (simp add: take_call_def)
    show ?thesis
      unfolding s' using assms(1) s(1) by (intro check_timer_ok) (auto simp: timer_ok_selects split: timer_var.splits)
  next
    case (Frees a)
    with s obtain client req where r: "removeResource (gs_client s) a = Inr (client, req)"
      "s' = s\<lparr>gs_client := client, gs_calls := (gs_calls s)[k := (Frees a, Answered None)]\<rparr>"
      by (auto simp: take_call_def)
    with removeResource_empty [OF r(1)] show ?thesis by (intro timer_ok_same [OF assms(1)]) simp_all
  qed
qed

lemma timer_ok_step:
  assumes "timer_ok s" and "goroutine_system_step e s = Inr (Some s')"
  shows "timer_ok s'"
proof (cases e)
  case (TakeCall k)
  with timer_ok_take assms show ?thesis by simp
next
  case TimerExpires
  then have "gs_timer s = Armed" "s' = s\<lparr>gs_timer := Expired, gs_unsent := gs_unsent s + 1\<rparr>"
    using assms(2) by (auto simp: goroutine_system_step_def split: if_splits)
  with assms(1) show ?thesis by (simp add: timer_ok_def split: client_pc.splits)
next
  case TimerSends
  then have "0 < gs_unsent s" "gs_wakeUp s = 0" "s' = s\<lparr>gs_unsent := gs_unsent s - 1, gs_wakeUp := 1\<rparr>"
    using assms(2) by (auto simp: goroutine_system_step_def split: if_splits)
  with assms(1) show ?thesis by (auto simp: timer_ok_def split: client_pc.splits timer_var.splits)
next
  case ReceiveWakeUp
  then have s: "gs_pc s = Selects" "0 < gs_wakeUp s" "s' = check_timer (s\<lparr>gs_wakeUp := gs_wakeUp s - 1, gs_timer := NoTimer\<rparr>)"
    using assms(2) by (auto simp: goroutine_system_step_def split: if_splits)
  show ?thesis unfolding s(3) using assms(1) s(1,2) by (intro check_timer_ok) (auto simp: timer_ok_selects split: timer_var.splits)
next
  case DrainWakeUp
  then show ?thesis using assms by (auto simp: goroutine_system_step_def timer_ok_def split: if_splits)
next
  case (Perform now reply)
  then have s: "gs_pc s = Requests" using assms(2) by (auto simp: goroutine_system_step_def split: if_splits)
  with Perform assms show ?thesis by (auto simp: goroutine_system_step_def timer_ok_def split: option.splits)
next
  case (Resumes now)
  then have s: "gs_pc s = Blocked" "resume now s = Inr (Some s')" using assms(2) by (auto simp: goroutine_system_step_def split: if_splits)
  with assms(1) show ?thesis
    by (auto simp: resume_def timer_ok_def split: list.splits option.splits if_splits)
next
  case CloseReturns
  then obtain client request where s: "gs_pc s = Ended" "client_Close (gs_client s) = Inr (client, request)"
    "s' = s\<lparr>gs_client := client, gs_pc := Shut\<rparr>" using assms(2) by (auto simp: goroutine_system_step_def split: if_splits)
  then have "cl_resources client = cl_resources (gs_client s)" by (auto simp: client_Close_def dest: close_loop_resources)
  with s assms(1) show ?thesis by (simp add: timer_ok_def split: timer_var.splits)
next
  case SeeClosed
  then show ?thesis
    using assms by (cases "gs_timer s") (auto simp: goroutine_system_step_def timer_ok_def split: if_splits)
qed (use timer_ok_same [OF assms(1)] program_steps_timer [OF _ assms(2)] in simp_all)

lemma timer_ok_run: "timer_ok s \<Longrightarrow> goroutine_system_run es s = Inr (Some s') \<Longrightarrow> timer_ok s'"
proof (induction es arbitrary: s)
  case (Cons e es)
  obtain s1 where "goroutine_system_step e s = Inr (Some s1)" "goroutine_system_run es s1 = Inr (Some s')"
    using Cons.prems(2) by (auto split: option.splits)
  with Cons.IH timer_ok_step [OF Cons.prems(1)] show ?case by blast
qed simp

lemma timer_ok_start: "timer_ok (client_start i opts)"
  by (simp add: timer_ok_def client_start_def NewWithID_def)

section \<open>The invariant of the calls\<close>

text \<open>A claim that waits has a resource of its own, which is not yet claimed; a release is of a resource
  whose claim has been answered.\<close>

definition calls_ok :: "client_system \<Rightarrow> bool" where
  "calls_ok s = (client_ok (gs_client s) \<and> (\<forall>j < length (gs_calls s).
     (\<forall>a pc. gs_calls s ! j = (Claims a, pc) \<longrightarrow> a < length (cl_heap (gs_client s)) \<and>
        (pc = Waiting \<longrightarrow> a \<notin> snd ` set (cl_resources (gs_client s)) \<and> open_resource (cl_heap (gs_client s) ! a)) \<and>
        (\<forall>k < length (gs_calls s). fst (gs_calls s ! k) = Claims a \<longrightarrow> k = j)) \<and>
     (\<forall>a pc. gs_calls s ! j = (Frees a, pc) \<longrightarrow>
        (\<exists>k < length (gs_calls s). \<exists>err. gs_calls s ! k = (Claims a, Answered err)))))"

lemma client_ok_weaken:
  assumes "client_ok client" and "ri_id res = ri_id (cl_heap client ! a)" and "open_resource (cl_heap client ! a) \<Longrightarrow> open_resource res"
  shows "client_ok (cl_write client a res)"
proof (cases "open_resource (cl_heap client ! a)")
  case True
  with client_ok_write [OF assms(1,2)] assms(3) show ?thesis by simp
next
  case False
  then have "(cl_heap client)[a := res] ! b = cl_heap client ! b" if "(i, b) \<in> set (cl_resources client)" for i b
    using assms(1) that by (cases "b = a") (auto simp: client_ok_def list_all_iff)
  with assms(1) show ?thesis by (auto simp: client_ok_def list_all_iff)
qed

lemma response_loop_safe:
  "client_ok client \<Longrightarrow> \<exists>client'. response_loop prs client = Inr client' \<and> client_ok client' \<and>
     cl_resources client' = cl_resources client \<and> length (cl_heap client') = length (cl_heap client) \<and>
     (\<forall>a. a \<notin> snd ` set (cl_resources client) \<longrightarrow> cl_heap client' ! a = cl_heap client ! a)"
proof (induction prs arbitrary: client)
  case (Cons pr prs)
  show ?case
  proof (cases "map_of (cl_resources client) (ResourceResponse_GetResourceId (Some pr))")
    case None
    with Cons show ?thesis by simp
  next
    case (Some a)
    from accept_lease_open [OF client_ok_lookup(3) [OF Cons.prems Some]] obtain res where res:
      "accept_lease (cl_heap client ! a) (ResourceResponse_GetGets (Some pr)) = Inr res" "open_resource res"
      "ri_id res = ri_id (cl_heap client ! a)" by blast
    from Cons.IH [OF client_ok_write [OF Cons.prems res(3,2)]] obtain client' where c:
      "response_loop prs (cl_write client a res) = Inr client'" "client_ok client'" "cl_resources client' = cl_resources client"
      "length (cl_heap client') = length (cl_heap client)"
      "\<forall>b. b \<notin> snd ` set (cl_resources client) \<longrightarrow> cl_heap client' ! b = (cl_heap client)[a := res] ! b" by auto
    have "a \<in> snd ` set (cl_resources client)" using imageI [OF map_of_SomeD [OF Some], of snd] by simp
    then have "(cl_heap client)[a := res] ! b = cl_heap client ! b" if "b \<notin> snd ` set (cl_resources client)" for b
      using that by (cases "b = a") simp_all
    with c res(1) Some show ?thesis by (intro exI [of _ client']) simp
  qed
qed simp

lemma performRequests_safe:
  assumes "client_ok client"
  shows "\<exists>r. performRequests now client n reply = Inr r \<and> (\<forall>client' interval n'. r = Some (client', interval, n') \<longrightarrow>
     client_ok client' \<and> cl_resources client' = cl_resources client \<and> length (cl_heap client') = length (cl_heap client) \<and>
     (\<forall>a < length (cl_heap client). a \<notin> snd ` set (cl_resources client) \<longrightarrow> cl_heap client' ! a = cl_heap client ! a))"
proof (cases reply)
  case (Some out)
  from response_loop_safe [OF assms, of "gcp_Response out"] obtain client' where c: "response_loop (gcp_Response out) client = Inr client'"
    "client_ok client'" "cl_resources client' = cl_resources client" "length (cl_heap client') = length (cl_heap client)"
    "\<forall>a. a \<notin> snd ` set (cl_resources client) \<longrightarrow> cl_heap client' ! a = cl_heap client ! a" by (elim exE conjE)
  then have "\<exists>interval. performRequests now client n reply = Inr (Some (client', interval, 0))"
    by (simp add: performRequests_def Some Let_def)
  with c show ?thesis by auto
next
  case None
  have es: "list_all (\<lambda>(i, a). a < length (cl_heap client) \<and> open_resource (cl_heap client ! a)) (cl_resources client)"
    "distinct (map snd (cl_resources client))"
    using assms by (auto simp: client_ok_def list_all_iff)
  note loop = expire_loop_ok [OF es, of now]
  show ?thesis
  proof (cases "blocked now (cl_heap client) (cl_resources client)")
    case True
    with loop None show ?thesis by (simp add: performRequests_def)
  next
    case False
    with loop obtain heap where h: "expire_loop now (cl_resources client) client = Inr (Some (client\<lparr>cl_heap := heap\<rparr>))"
      "length heap = length (cl_heap client)"
      "\<forall>a < length heap. heap ! a = (if a \<in> snd ` set (cl_resources client) then after_error now (cl_heap client ! a) else cl_heap client ! a)"
      by auto
    have open_after: "open_resource (after_error now res) \<and> ri_id (after_error now res) = ri_id res"
      if "open_resource res" "\<not> (has_expired now res \<and> full res)" for res
      using that by (auto simp: after_error_def open_resource_def full_def)
    have "a < length heap \<and> ri_id (heap ! a) = i \<and> open_resource (heap ! a)" if e: "(i, a) \<in> set (cl_resources client)" for i a
    proof -
      have a: "a < length (cl_heap client)" "ri_id (cl_heap client ! a) = i" "open_resource (cl_heap client ! a)"
        using assms e by (auto simp: client_ok_def list_all_iff)
      moreover have "heap ! a = after_error now (cl_heap client ! a)" using h(2,3) a(1) imageI [OF e, of snd] by auto
      moreover have "\<not> (has_expired now (cl_heap client ! a) \<and> full (cl_heap client ! a))"
        using False e by (auto simp: blocked_def list_ex_iff)
      ultimately show ?thesis using open_after [OF a(3)] h(2) by simp
    qed
    then have "client_ok (client\<lparr>cl_heap := heap\<rparr>)" using assms by (auto simp: client_ok_def list_all_iff)
    moreover have "performRequests now client n reply =
        Inr (Some (client\<lparr>cl_heap := heap\<rparr>, Backoff minBackoff maxBackoff n, n + 1))"
      by (simp add: performRequests_def None h(1))
    ultimately show ?thesis using h(2,3) by simp
  qed
qed

text \<open>The loop over the resources, up to a send that has to wait, is the loop of \<open>performRequests\<close>.\<close>

lemma expire_until_loop:
  "expire_loop now es client = (case expire_until now es client of
     Inl p \<Rightarrow> Inl p | Inr (client', rest) \<Rightarrow> Inr (if rest = [] then Some client' else None))"
proof (induction now es client rule: expire_until.induct)
  case (2 now i a rest client)
  let ?res = "(cl_heap client ! a)\<lparr>ri_lease := None\<rparr>"
  show ?case
  proof (cases "send_capacity ?res (Fin 0)")
    case (Inr r)
    then show ?thesis using 2 by (cases r) (auto simp: Let_def)
  qed (use 2 in \<open>simp add: Let_def\<close>)
qed simp

definition same_else :: "Client \<Rightarrow> Client \<Rightarrow> bool" where
  "same_else client client' = (client_ok client' \<and> cl_resources client' = cl_resources client \<and>
     length (cl_heap client') = length (cl_heap client) \<and>
     (\<forall>a. a \<notin> snd ` set (cl_resources client) \<longrightarrow> cl_heap client' ! a = cl_heap client ! a))"

lemma same_else_trans: "same_else c1 c2 \<Longrightarrow> same_else c2 c3 \<Longrightarrow> same_else c1 c3"
  by (simp add: same_else_def)

lemma same_else_write:
  assumes "client_ok client" and "(i, a) \<in> set (cl_resources client)" and "ri_id res = ri_id (cl_heap client ! a)"
    and "open_resource res"
  shows "same_else client (cl_write client a res)"
proof -
  have "b \<noteq> a" if "b \<notin> snd ` set (cl_resources client)" for b using that assms(2) by force
  then have "(cl_heap client)[a := res] ! b = cl_heap client ! b" if "b \<notin> snd ` set (cl_resources client)" for b
    using that by (metis nth_list_update_neq)
  with client_ok_write [OF assms(1,3,4)] show ?thesis by (simp add: same_else_def)
qed

lemma claimed_open:
  "client_ok client \<Longrightarrow> (i, a) \<in> set (cl_resources client) \<Longrightarrow>
    a < length (cl_heap client) \<and> ri_id (cl_heap client ! a) = i \<and> open_resource (cl_heap client ! a)"
  by (auto simp: client_ok_def list_all_iff)

lemma send_open:
  "open_resource res \<Longrightarrow> \<exists>r. send_capacity res x = Inr r \<and> (\<forall>res'. r = Some res' \<longrightarrow> open_resource res' \<and> ri_id res' = ri_id res)"
  by (auto simp: send_capacity_def open_resource_def)

lemma expire_until_safe:
  "client_ok client \<Longrightarrow> set es \<subseteq> set (cl_resources client) \<Longrightarrow>
    \<exists>client' rest. expire_until now es client = Inr (client', rest) \<and> same_else client client' \<and> set rest \<subseteq> set (cl_resources client)"
proof (induction now es client rule: expire_until.induct)
  case (1 now client)
  then show ?case by (simp add: same_else_def)
next
  case (2 now i a rest client)
  let ?res = "(cl_heap client ! a)\<lparr>ri_lease := None\<rparr>"
  note c = claimed_open [OF "2.prems"(1), of i a]
  have o: "open_resource ?res" using c "2.prems"(2) by (simp add: open_resource_def)
  have i: "(i, a) \<in> set (cl_resources client)" using "2.prems"(2) by simp
  obtain r where r: "send_capacity ?res (Fin 0) = Inr r" "\<And>res'. r = Some res' \<Longrightarrow> open_resource res' \<and> ri_id res' = ri_id ?res"
    using send_open [OF o] by blast
  show ?case
  proof (cases "Before (expires (cl_heap client ! a)) now")
    case False
    with "2.IH"(2) [OF refl False] "2.prems" show ?thesis by simp
  next
    case True
    show ?thesis
    proof (cases r)
      case None
      have "same_else client (cl_write client a ?res)" by (rule same_else_write [OF "2.prems"(1) i _ o]) simp
      with True None r(1) "2.prems"(2) show ?thesis by (simp add: Let_def)
    next
      case (Some res')
      let ?c = "cl_write client a res'"
      have w: "same_else client ?c" using r(2) [OF Some] by (intro same_else_write [OF "2.prems"(1) i]) simp_all
      then have "client_ok ?c" "set rest \<subseteq> set (cl_resources ?c)" using "2.prems"(2) by (simp_all add: same_else_def)
      from "2.IH"(1) [OF refl True refl this] obtain client' rest' where
        "expire_until now rest ?c = Inr (client', rest')" "same_else ?c client'" "set rest' \<subseteq> set (cl_resources ?c)" by blast
      with same_else_trans [OF w] True Some r(1) show ?thesis by (simp add: Let_def)
    qed
  qed
qed

lemma calls_okD:
  assumes "calls_ok s" and "j < length (gs_calls s)"
  shows "gs_calls s ! j = (Claims a, pc) \<Longrightarrow> a < length (cl_heap (gs_client s))"
    and "gs_calls s ! j = (Claims a, Waiting) \<Longrightarrow> a \<notin> snd ` set (cl_resources (gs_client s)) \<and> open_resource (cl_heap (gs_client s) ! a)"
    and "gs_calls s ! j = (Claims a, pc) \<Longrightarrow> k < length (gs_calls s) \<Longrightarrow> fst (gs_calls s ! k) = Claims a \<Longrightarrow> k = j"
    and "gs_calls s ! j = (Frees a, pc) \<Longrightarrow> \<exists>k < length (gs_calls s). \<exists>err. gs_calls s ! k = (Claims a, Answered err)"
  using assms unfolding calls_ok_def by blast+

lemma check_timer_simps [simp]: "gs_client (check_timer s) = gs_client s" "gs_calls (check_timer s) = gs_calls s"
  by (simp_all add: check_timer_def split: timer_var.split)

lemma calls_ok_same:
  assumes "calls_ok s" and "gs_client s' = gs_client s" and "gs_calls s' = gs_calls s"
  shows "calls_ok s'"
  using assms by (simp add: calls_ok_def)

text \<open>The client changes, but not at resources that are waiting to be claimed.\<close>

lemma calls_ok_client:
  assumes "calls_ok s" and "client_ok (gs_client s')" and "cl_resources (gs_client s') = cl_resources (gs_client s)"
    and "length (cl_heap (gs_client s')) = length (cl_heap (gs_client s))"
    and "\<And>a. a < length (cl_heap (gs_client s)) \<Longrightarrow> a \<notin> snd ` set (cl_resources (gs_client s)) \<Longrightarrow>
      open_resource (cl_heap (gs_client s) ! a) \<Longrightarrow> open_resource (cl_heap (gs_client s') ! a)"
    and "gs_calls s' = gs_calls s"
  shows "calls_ok s'"
  unfolding calls_ok_def assms(6)
  using assms(2-5) calls_okD [OF assms(1)] by (intro conjI allI impI) simp_all

text \<open>A call is answered.\<close>

lemma calls_ok_answer:
  assumes "calls_ok s" and "k < length (gs_calls s)" and "gs_calls s ! k = (call, Waiting)" and "client_ok client"
    and "length (cl_heap client) = length (cl_heap (gs_client s))"
    and "\<And>a j. j < length (gs_calls s) \<Longrightarrow> j \<noteq> k \<Longrightarrow> gs_calls s ! j = (Claims a, Waiting) \<Longrightarrow>
      a \<notin> snd ` set (cl_resources client) \<and> open_resource (cl_heap client ! a)"
    and "gs_client s' = client" and "gs_calls s' = (gs_calls s)[k := (call, Answered err)]"
  shows "calls_ok s'"
proof -
  have calls: "gs_calls s' ! j = (if j = k then (call, Answered err) else gs_calls s ! j)" "fst (gs_calls s' ! j) = fst (gs_calls s ! j)"
    "length (gs_calls s') = length (gs_calls s)" if "j < length (gs_calls s)" for j
    using that assms(2,3) by (auto simp: assms(8) nth_list_update)
  note n = calls(3) [OF assms(2)]
  show ?thesis
    unfolding calls_ok_def n assms(7)
  proof (intro conjI allI impI assms(4))
    fix j a pc assume j: "j < length (gs_calls s)" "gs_calls s' ! j = (Claims a, pc)"
    then have old: "\<exists>pc'. gs_calls s ! j = (Claims a, pc')" using calls(1) [OF j(1)] assms(3) by (cases "j = k") auto
    then show "a < length (cl_heap client)" using calls_okD(1) [OF assms(1) j(1)] assms(5) by auto
    show "i = j" if "i < length (gs_calls s)" "fst (gs_calls s' ! i) = Claims a" for i
      using calls_okD(3) [OF assms(1) j(1)] old that calls(2) by auto
    assume "pc = Waiting"
    with j calls(1) [OF j(1)] have "j \<noteq> k" "gs_calls s ! j = (Claims a, Waiting)" by (auto split: if_splits)
    from assms(6) [OF j(1) this] show "a \<notin> snd ` set (cl_resources client)" "open_resource (cl_heap client ! a)" by simp_all
  next
    fix j a pc assume j: "j < length (gs_calls s)" "gs_calls s' ! j = (Frees a, pc)"
    then have "\<exists>pc'. gs_calls s ! j = (Frees a, pc')" using calls(1) [OF j(1)] assms(3) by (cases "j = k") auto
    then obtain i err' where i: "i < length (gs_calls s)" "gs_calls s ! i = (Claims a, Answered err')"
      using calls_okD(4) [OF assms(1) j(1)] by blast
    with assms(3) have "i \<noteq> k" by auto
    with i calls(1) [OF i(1)] show "\<exists>k < length (gs_calls s). \<exists>err. gs_calls s' ! k = (Claims a, Answered err)" by auto
  qed
qed

lemma calls_ok_claim:
  assumes "calls_ok s" and "k < length (gs_calls s)" and "gs_calls s ! k = (Claims a, Waiting)"
    and "addResource (gs_client s) a = (client, err)" and "gs_client s' = client"
    and "gs_calls s' = (gs_calls s)[k := (Claims a, Answered err)]"
  shows "calls_ok s'"
proof -
  have ok: "client_ok (gs_client s)" using assms(1) by (simp add: calls_ok_def)
  note a = calls_okD(1,2) [OF assms(1,2,3)]
  let ?i = "ri_id (cl_heap (gs_client s) ! a)"
  have other: "a' \<noteq> a" if "j < length (gs_calls s)" "j \<noteq> k" "gs_calls s ! j = (Claims a', Waiting)" for j a'
    using calls_okD(3) [OF assms(1,2,3), of j] that by auto
  show ?thesis
  proof (cases "map_of (cl_resources (gs_client s)) ?i")
    case (Some b)
    then have "client = gs_client s" using assms(4) by (auto simp: addResource_def Let_def)
    with ok calls_okD(2) [OF assms(1)] show ?thesis
      by (intro calls_ok_answer [OF assms(1-3) _ _ _ assms(5,6)]) auto
  next
    case None
    then have client: "client = (gs_client s)\<lparr>cl_resources := cl_resources (gs_client s) @ [(?i, a)]\<rparr>"
      using assms(4) by (auto simp: addResource_def Let_def map_put_fresh)
    have "client_ok client"
      using ok a None by (auto simp: client client_ok_def map_of_eq_None_iff)
    then show ?thesis
      using calls_okD(2) [OF assms(1)] other
      by (intro calls_ok_answer [OF assms(1-3) _ _ _ assms(5,6)]) (auto simp: client)
  qed
qed

text \<open>A release panics only if the resource has been released before and its id is claimed again.\<close>

lemma removeResource_cases:
  assumes "client_ok client" and "a < length (cl_heap client)"
  shows "case removeResource client a of
      Inl p \<Rightarrow> p = ClosedChannel \<and> ri_closed (cl_heap client ! a) \<and> map_of (cl_resources client) (ri_id (cl_heap client ! a)) \<noteq> None
    | Inr (client', req) \<Rightarrow> client_ok client' \<and> set (cl_resources client') \<subseteq> set (cl_resources client) \<and>
        length (cl_heap client') = length (cl_heap client) \<and> (\<forall>b. b \<noteq> a \<longrightarrow> cl_heap client' ! b = cl_heap client ! b)"
proof (cases "map_of (cl_resources client) (ri_id (cl_heap client ! a)) = None \<or> ri_closed (cl_heap client ! a)")
  case True
  then show ?thesis using assms(1) by (auto simp: removeResource_def close_capacity_def Let_def)
next
  case False
  let ?i = "ri_id (cl_heap client ! a)"
  let ?m = "map_del (cl_resources client) ?i" and ?heap = "(cl_heap client)[a := (cl_heap client ! a)\<lparr>ri_closed := True\<rparr>]"
  have r: "\<exists>req. removeResource client a = Inr (client\<lparr>cl_resources := ?m, cl_heap := ?heap\<rparr>, req)"
    using False by (auto simp: removeResource_def close_capacity_def Let_def cl_write_def)
  have d: "distinct_keys (cl_resources client)" "distinct (map snd (cl_resources client))" using assms(1) by (simp_all add: client_ok_def)
  have "b < length ?heap \<and> ri_id (?heap ! b) = i \<and> open_resource (?heap ! b)" if "(i, b) \<in> set ?m" for i b
  proof -
    have m: "(i, b) \<in> set (cl_resources client)" "i \<noteq> ?i" using that d(1) by (simp_all add: in_map_del_iff)
    with assms(1) have b: "b < length (cl_heap client)" "ri_id (cl_heap client ! b) = i" "open_resource (cl_heap client ! b)"
      by (auto simp: client_ok_def list_all_iff)
    with m(2) have "b \<noteq> a" by auto
    with b show ?thesis by simp
  qed
  moreover have "distinct (map snd ?m)" using d(2) by (simp add: AList.delete_eq distinct_map_filter)
  ultimately have "client_ok (client\<lparr>cl_resources := ?m, cl_heap := ?heap\<rparr>)"
    using d(1) by (auto simp: client_ok_def list_all_iff distinct_keys_del)
  with r set_map_del [of ?i "cl_resources client"] show ?thesis by auto
qed

lemma take_call_cases:
  assumes "calls_ok s" and "k < length (gs_calls s)" and "gs_calls s ! k = (call, Waiting)"
  shows "case take_call k call s of
      Inl p \<Rightarrow> p = ClosedChannel \<and> (\<exists>a. call = Frees a \<and> ri_closed (cl_heap (gs_client s) ! a) \<and>
        map_of (cl_resources (gs_client s)) (ri_id (cl_heap (gs_client s) ! a)) \<noteq> None)
    | Inr s' \<Rightarrow> calls_ok s'"
proof (cases call)
  case (Claims a)
  obtain client err where "addResource (gs_client s) a = (client, err)" by force
  with calls_ok_claim [OF assms(1,2) _ this] assms(3) Claims show ?thesis by (simp add: take_call_def)
next
  case (Frees a)
  have ok: "client_ok (gs_client s)" using assms(1) by (simp add: calls_ok_def)
  obtain j err where j: "j < length (gs_calls s)" "gs_calls s ! j = (Claims a, Answered err)"
    using calls_okD(4) [OF assms(1,2)] assms(3) Frees by blast
  note r = removeResource_cases [OF ok calls_okD(1) [OF assms(1) j]]
  show ?thesis
  proof (cases "removeResource (gs_client s) a")
    case (Inl p)
    with r Frees show ?thesis by (simp add: take_call_def)
  next
    case (Inr cr)
    obtain client req where cr: "cr = (client, req)" by force
    have c: "client_ok client" "set (cl_resources client) \<subseteq> set (cl_resources (gs_client s))"
      "length (cl_heap client) = length (cl_heap (gs_client s))" "\<And>b. b \<noteq> a \<Longrightarrow> cl_heap client ! b = cl_heap (gs_client s) ! b"
      using r by (simp_all add: Inr cr)
    let ?s = "s\<lparr>gs_client := client, gs_calls := (gs_calls s)[k := (call, Answered None)]\<rparr>"
    have "calls_ok ?s"
    proof (rule calls_ok_answer [OF assms c(1,3)])
      fix b i assume b: "i < length (gs_calls s)" "i \<noteq> k" "gs_calls s ! i = (Claims b, Waiting)"
      have "b \<noteq> a" using calls_okD(3) [OF assms(1) j(1), of a "Answered err" i] b j(2) by auto
      with calls_okD(2) [OF assms(1) b(1,3)] c(2,4) show "b \<notin> snd ` set (cl_resources client) \<and> open_resource (cl_heap client ! b)"
        by auto
    qed simp_all
    then show ?thesis by (simp add: take_call_def Frees Inr cr)
  qed
qed

text \<open>What a new call at the end of a list of calls leaves true of the others.\<close>

lemma claims_unique_snoc:
  assumes "\<And>j k. j < length cs \<Longrightarrow> k < length cs \<Longrightarrow> fst (cs ! j) = Claims a \<Longrightarrow> fst (cs ! k) = Claims a \<Longrightarrow> k = j"
    and "fst c = Claims a \<Longrightarrow> \<forall>j < length cs. fst (cs ! j) \<noteq> Claims a"
    and "j < Suc (length cs)" and "k < Suc (length cs)"
    and "fst ((cs @ [c]) ! j) = Claims a" and "fst ((cs @ [c]) ! k) = Claims a"
  shows "k = j"
  using assms by (cases "j < length cs"; cases "k < length cs") (auto simp: nth_append less_Suc_eq)

lemma frees_answered_snoc:
  assumes "\<And>j pc. j < length cs \<Longrightarrow> cs ! j = (Frees a, pc) \<Longrightarrow> \<exists>k < length cs. \<exists>err. cs ! k = (Claims a, Answered err)"
    and "fst c = Frees a \<Longrightarrow> \<exists>k < length cs. \<exists>err. cs ! k = (Claims a, Answered err)"
    and "j < Suc (length cs)" and "(cs @ [c]) ! j = (Frees a, pc)"
  shows "\<exists>k < Suc (length cs). \<exists>err. (cs @ [c]) ! k = (Claims a, Answered err)"
proof -
  have "\<exists>k < length cs. \<exists>err. cs ! k = (Claims a, Answered err)"
    using assms by (cases "j < length cs") (auto simp: nth_append less_Suc_eq)
  then obtain k err where "k < length cs" "cs ! k = (Claims a, Answered err)" by blast
  then show ?thesis by (intro exI [of _ k]) (simp add: nth_append)
qed

text \<open>A call arrives.\<close>

lemma calls_ok_call:
  assumes "calls_ok s" and "client_ok (gs_client s')" and "cl_resources (gs_client s') = cl_resources (gs_client s)"
    and "cl_heap (gs_client s') = cl_heap (gs_client s) @ new" and "gs_calls s' = gs_calls s @ [(call, Waiting)]"
    and "case call of
        Claims a \<Rightarrow> a = length (cl_heap (gs_client s)) \<and> (\<exists>res. new = [res] \<and> open_resource res)
      | Frees a \<Rightarrow> (\<exists>k < length (gs_calls s). \<exists>err. gs_calls s ! k = (Claims a, Answered err))"
  shows "calls_ok s'"
proof -
  let ?n = "length (gs_calls s)"
  have calls: "gs_calls s' ! j = (if j < ?n then gs_calls s ! j else (call, Waiting))" if "j < Suc ?n" for j
    using that by (auto simp: assms(5) nth_append less_Suc_eq)
  have len: "length (gs_calls s') = Suc ?n" by (simp add: assms(5))
  have fresh: "fst (gs_calls s ! j) \<noteq> Claims (length (cl_heap (gs_client s)))" if "j < ?n" for j
    using calls_okD(1) [OF assms(1) that] by (cases "gs_calls s ! j") auto
  show ?thesis
    unfolding calls_ok_def len
  proof (intro conjI allI impI assms(2))
    fix j a pc assume j: "j < Suc ?n" "gs_calls s' ! j = (Claims a, pc)"
    show "a < length (cl_heap (gs_client s'))"
      using j calls [OF j(1)] calls_okD(1) [OF assms(1)] assms(6) by (cases "j < ?n") (fastforce simp: assms(4))+
    show "k = j" if k: "k < Suc ?n" "fst (gs_calls s' ! k) = Claims a" for k
    proof (rule claims_unique_snoc [of "gs_calls s" a "(call, Waiting)", OF _ _ j(1) k(1)])
      show "k = j" if "j < ?n" "k < ?n" "fst (gs_calls s ! j) = Claims a" "fst (gs_calls s ! k) = Claims a" for j k
        using calls_okD(3) [OF assms(1) that(1) _ that(2), of a "snd (gs_calls s ! j)"] that(3,4)
        by (simp add: prod_eq_iff)
    qed (use fresh j(2) k(2) assms(5,6) in auto)
    assume "pc = Waiting"
    show "a \<notin> snd ` set (cl_resources (gs_client s'))"
    proof (cases "j < ?n")
      case True
      with j \<open>pc = Waiting\<close> calls calls_okD(2) [OF assms(1) True] show ?thesis by (simp add: assms(3))
    next
      case False
      then have "call = Claims a" using j calls by auto
      with assms(6) have "a = length (cl_heap (gs_client s))" by simp
      with assms(1) show ?thesis by (auto simp: assms(3) calls_ok_def client_ok_def list_all_iff)
    qed
    show "open_resource (cl_heap (gs_client s') ! a)"
    proof (cases "j < ?n")
      case True
      with j \<open>pc = Waiting\<close> calls calls_okD(1,2) [OF assms(1) True] show ?thesis by (simp add: assms(4) nth_append)
    next
      case False
      then have "call = Claims a" using j calls by auto
      with assms(6) show ?thesis by (auto simp: assms(4))
    qed
  next
    fix j a pc assume j: "j < Suc ?n" "gs_calls s' ! j = (Frees a, pc)"
    then show "\<exists>k < Suc ?n. \<exists>err. gs_calls s' ! k = (Claims a, Answered err)"
      unfolding assms(5)
      by (intro frees_answered_snoc [OF _ _ j(1)]) (use calls_okD(4) [OF assms(1)] assms(6) in auto)
  qed
qed

lemma calls_ok_reads:
  assumes "calls_ok s"
  shows "calls_ok (s\<lparr>gs_client := cl_write (gs_client s) a
    ((cl_heap (gs_client s) ! a)\<lparr>ri_capacity := tl (ri_capacity (cl_heap (gs_client s) ! a))\<rparr>)\<rparr>)"
    (is "calls_ok (s\<lparr>gs_client := cl_write _ a ?new\<rparr>)")
proof (rule calls_ok_client [OF assms])
  let ?old = "cl_heap (gs_client s) ! a"
  have weaker: "open_resource ?old \<Longrightarrow> open_resource ?new"
    by (auto simp: open_resource_def intro: le_trans [OF diff_le_self])
  have ok: "client_ok (gs_client s)" using assms by (simp add: calls_ok_def)
  have "client_ok (cl_write (gs_client s) a ?new)" by (rule client_ok_weaken [OF ok _ weaker]) simp
  then show "client_ok (gs_client (s\<lparr>gs_client := cl_write (gs_client s) a ?new\<rparr>))" by simp
  fix b assume b: "b < length (cl_heap (gs_client s))" "open_resource (cl_heap (gs_client s) ! b)"
  show "open_resource (cl_heap (gs_client (s\<lparr>gs_client := cl_write (gs_client s) a ?new\<rparr>)) ! b)"
  proof (cases "b = a")
    case True
    with b weaker have "open_resource ?new" by simp
    with b(1) True show ?thesis by simp
  next
    case False
    with b(2) show ?thesis by simp
  qed
qed simp_all

text \<open>At \<open>Blocked\<close> what is left to do is of claimed resources.\<close>

definition rest_ok :: "client_system \<Rightarrow> bool" where
  "rest_ok s = (gs_pc s = Blocked \<longrightarrow> set (gs_rest s) \<subseteq> set (cl_resources (gs_client s)))"

lemma calls_ok_same_else:
  assumes "calls_ok s" and "same_else (gs_client s) (gs_client s')" and "gs_calls s' = gs_calls s"
  shows "calls_ok s'"
  using assms(2) by (intro calls_ok_client [OF assms(1) _ _ _ _ assms(3)]) (simp_all add: same_else_def)

lemma calls_ok_resume:
  assumes "calls_ok s" and "rest_ok s" and "gs_pc s = Blocked"
  shows "case resume now s of Inl p \<Rightarrow> False | Inr None \<Rightarrow> True | Inr (Some s') \<Rightarrow> calls_ok s' \<and> rest_ok s' \<and> gs_pc s' \<noteq> Shut"
proof (cases "gs_rest s")
  case (Cons e rest)
  obtain i a where e: "e = (i, a)" by force
  let ?c = "gs_client s"
  have ok: "client_ok ?c" using assms(1) by (simp add: calls_ok_def)
  have i: "(i, a) \<in> set (cl_resources ?c)" "set rest \<subseteq> set (cl_resources ?c)"
    using assms(2,3) by (auto simp: rest_ok_def Cons e)
  obtain r where r: "send_capacity (cl_heap ?c ! a) (Fin 0) = Inr r"
    "\<And>res'. r = Some res' \<Longrightarrow> open_resource res' \<and> ri_id res' = ri_id (cl_heap ?c ! a)"
    using send_open claimed_open [OF ok i(1)] by blast
  show ?thesis
  proof (cases r)
    case (Some res)
    let ?w = "cl_write ?c a res"
    have w: "same_else ?c ?w" using r(2) [OF Some] by (intro same_else_write [OF ok i(1)]) simp_all
    then have "client_ok ?w" "set rest \<subseteq> set (cl_resources ?w)" using i(2) by (simp_all add: same_else_def)
    from expire_until_safe [OF this, of now] obtain client' rest' where
      u: "expire_until now rest ?w = Inr (client', rest')" "same_else ?w client'" "set rest' \<subseteq> set (cl_resources ?w)" by blast
    have c': "same_else ?c client'" by (rule same_else_trans [OF w u(2)])
    have "calls_ok s'" if "gs_client s' = client'" "gs_calls s' = gs_calls s" for s'
      by (rule calls_ok_same_else [OF assms(1)]) (simp_all add: that c')
    with u c' w assms(3) show ?thesis
      by (auto simp: resume_def Cons e r(1) Some rest_ok_def same_else_def)
  qed (simp add: resume_def Cons e r(1))
qed (simp add: resume_def)

lemma calls_ok_perform:
  assumes "calls_ok s" and "gs_pc s = Requests"
  shows "\<exists>s'. goroutine_system_step (Perform now reply) s = Inr (Some s') \<and> calls_ok s' \<and> rest_ok s' \<and> gs_pc s' \<noteq> Shut"
proof -
  have ok: "client_ok (gs_client s)" using assms by (simp add: calls_ok_def)
  from performRequests_safe [OF ok, of now "gs_retryCount s" reply] obtain r where
    r: "performRequests now (gs_client s) (gs_retryCount s) reply = Inr r"
    "\<forall>client' interval n'. r = Some (client', interval, n') \<longrightarrow> client_ok client' \<and> cl_resources client' = cl_resources (gs_client s) \<and>
       length (cl_heap client') = length (cl_heap (gs_client s)) \<and>
       (\<forall>a < length (cl_heap (gs_client s)). a \<notin> snd ` set (cl_resources (gs_client s)) \<longrightarrow> cl_heap client' ! a = cl_heap (gs_client s) ! a)"
    by (elim exE conjE)
  show ?thesis
  proof (cases r)
    case None
    from expire_until_safe [OF ok subset_refl, of now] obtain client' rest where
      u: "expire_until now (cl_resources (gs_client s)) (gs_client s) = Inr (client', rest)" "same_else (gs_client s) client'"
      "set rest \<subseteq> set (cl_resources (gs_client s))" by blast
    let ?s = "s\<lparr>gs_client := client', gs_rest := rest, gs_pc := Blocked\<rparr>"
    have "calls_ok ?s" by (rule calls_ok_same_else [OF assms(1)]) (simp_all add: u(2))
    moreover have "rest_ok ?s" using u(2,3) by (simp add: rest_ok_def same_else_def)
    ultimately show ?thesis using None assms(2) r(1) u(1) by (simp add: goroutine_system_step_def)
  next
    case (Some x)
    obtain client interval n where x: "x = (client, interval, n)" by (cases x)
    note c = r(2) [rule_format, OF Some [unfolded x]]
    have "calls_ok (s\<lparr>gs_client := client, gs_retryCount := n, gs_timer := Armed, gs_pc := Selects\<rparr>)"
      by (rule calls_ok_client [OF assms(1)]) (use c in simp_all)
    then show ?thesis using assms(2) r(1) by (simp add: goroutine_system_step_def Some x rest_ok_def)
  qed
qed

lemma calls_ok_claims:
  assumes "calls_ok s"
  shows "calls_ok (s\<lparr>gs_client := (gs_client s)\<lparr>cl_heap := cl_heap (gs_client s) @ [\<lparr>ri_id = i, ri_priority = priority, ri_capacity = [],
      ri_closed = False, ri_lease = None, ri_wants = capacity\<rparr>]\<rparr>,
    gs_calls := gs_calls s @ [(Claims (length (cl_heap (gs_client s))), Waiting)]\<rparr>)"
    (is "calls_ok ?s")
proof (rule calls_ok_call [OF assms, where call = "Claims (length (cl_heap (gs_client s)))"])
  show "client_ok (gs_client ?s)" using assms by (auto simp: calls_ok_def client_ok_def list_all_iff nth_append)
qed (auto simp: open_resource_def)

lemma calls_ok_frees:
  assumes "calls_ok s" and "list_ex (\<lambda>(call, pc). call = Claims a \<and> pc \<noteq> Waiting) (gs_calls s)"
  shows "calls_ok (s\<lparr>gs_calls := gs_calls s @ [(Frees a, Waiting)]\<rparr>)"
proof -
  obtain pc where "(Claims a, pc) \<in> set (gs_calls s)" "pc \<noteq> Waiting" using assms(2) by (auto simp: list_ex_iff)
  then obtain k err where "k < length (gs_calls s)" "gs_calls s ! k = (Claims a, Answered err)"
    by (cases pc) (auto simp: in_set_conv_nth)
  moreover have "client_ok (gs_client s)" using assms(1) by (simp add: calls_ok_def)
  ultimately show ?thesis by (intro calls_ok_call [OF assms(1), where new = "[]" and call = "Frees a"]) auto
qed

text \<open>The program's fault: a call after \<open>Close\<close>, \<open>Close\<close> while a call waits, or a second release of a
  resource whose id has been claimed anew.\<close>

definition program_fault :: "goroutine_event \<Rightarrow> client_system \<Rightarrow> bool" where
  "program_fault e s \<longleftrightarrow>
     (gs_closed s \<and> (case e of CallResource i c pr \<Rightarrow> True | CallRelease a \<Rightarrow> True | CallClose \<Rightarrow> True | _ \<Rightarrow> False)) \<or>
     (e = CallClose \<and> (\<exists>call. (call, Waiting) \<in> set (gs_calls s))) \<or>
     (\<exists>k a. e = TakeCall k \<and> k < length (gs_calls s) \<and> gs_calls s ! k = (Frees a, Waiting) \<and>
        ri_closed (cl_heap (gs_client s) ! a) \<and> map_of (cl_resources (gs_client s)) (ri_id (cl_heap (gs_client s) ! a)) \<noteq> None)"

lemma calls_ok_take:
  assumes "calls_ok s"
  shows "case goroutine_system_step (TakeCall k) s of
      Inl p \<Rightarrow> p = ClosedChannel \<and> program_fault (TakeCall k) s | Inr None \<Rightarrow> True | Inr (Some s') \<Rightarrow> calls_ok s'"
proof (cases "gs_pc s = Selects \<and> \<not> gs_closed s \<and> k < length (gs_calls s) \<and> snd (gs_calls s ! k) = Waiting")
  case True
  then obtain call where call: "gs_calls s ! k = (call, Waiting)" by (metis prod.collapse)
  with True have step: "goroutine_system_step (TakeCall k) s = bind_panic (take_call k call s) (\<lambda>s. Inr (Some s))"
    by (simp add: goroutine_system_step_def)
  from True have k: "k < length (gs_calls s)" by simp
  note take = take_call_cases [OF assms k call]
  show ?thesis
  proof (cases "take_call k call s")
    case (Inl p)
    with take call k step show ?thesis by (auto simp: program_fault_def)
  next
    case (Inr s')
    with take step show ?thesis by simp
  qed
next
  case False
  then have "goroutine_system_step (TakeCall k) s = Inr None" by (auto simp: goroutine_system_step_def)
  then show ?thesis by simp
qed

text \<open>The steps of the timer change neither the client nor its calls.\<close>

lemma timer_steps_same:
  assumes "e \<in> {TimerExpires, TimerSends, ReceiveWakeUp, DrainWakeUp, SeeClosed}"
  shows "case goroutine_system_step e s of
    Inl p \<Rightarrow> False | Inr None \<Rightarrow> True | Inr (Some s') \<Rightarrow> gs_client s' = gs_client s \<and> gs_calls s' = gs_calls s"
  using assms by (auto simp: goroutine_system_step_def)

lemma calls_ok_step:
  assumes "calls_ok s" and "case e of Resumes now \<Rightarrow> False | CloseReturns \<Rightarrow> False | _ \<Rightarrow> True"
  shows "case goroutine_system_step e s of
      Inl p \<Rightarrow> p = ClosedChannel \<and> program_fault e s | Inr None \<Rightarrow> True | Inr (Some s') \<Rightarrow> calls_ok s'"
proof -
  have timer: ?thesis if "e \<in> {TimerExpires, TimerSends, ReceiveWakeUp, DrainWakeUp, SeeClosed}"
    using timer_steps_same [OF that, of s] calls_ok_same [OF assms(1)] by (auto split: sum.splits option.splits)
  show ?thesis
  proof (cases e)
    case (CallResource i capacity priority)
    with calls_ok_claims [OF assms(1)] show ?thesis by (simp add: goroutine_system_step_def Let_def program_fault_def)
  next
    case (CallRelease a)
    with calls_ok_frees [OF assms(1)] show ?thesis by (simp add: goroutine_system_step_def program_fault_def)
  next
    case (TakeCall k)
    then show ?thesis using calls_ok_take [OF assms(1), of k] by (simp only:)
  next
    case (Perform now reply)
    show ?thesis
    proof (cases "gs_pc s = Requests")
      case True
      from calls_ok_perform [OF assms(1) this, of now reply] Perform show ?thesis by auto
    qed (simp add: Perform goroutine_system_step_def)
  next
    case (ProgramReads a)
    with calls_ok_reads [OF assms(1), of a] show ?thesis by (simp add: goroutine_system_step_def)
  next
    case CallClose
    have "calls_ok (s\<lparr>gs_closed := True\<rparr>)" by (rule calls_ok_same [OF assms(1)]) simp_all
    with CallClose show ?thesis by (auto simp: goroutine_system_step_def list_ex_iff program_fault_def)
  qed (use timer assms(2) in simp_all)
qed

text \<open>The other steps neither start nor change a wait on a channel, and do not shut the client.\<close>

lemma other_steps_pc:
  assumes "case e of Perform now reply \<Rightarrow> False | Resumes now \<Rightarrow> False | CloseReturns \<Rightarrow> False | _ \<Rightarrow> True"
    and "goroutine_system_step e s = Inr (Some s')" and "gs_pc s \<noteq> Shut"
  shows "gs_pc s' \<noteq> Shut" and "gs_pc s' = Blocked \<Longrightarrow> gs_pc s = Blocked"
    and "gs_pc s = Blocked \<Longrightarrow> gs_rest s' = gs_rest s \<and> cl_resources (gs_client s') = cl_resources (gs_client s)"
  using assms by (cases e; auto simp: goroutine_system_step_def take_call_def check_timer_def cl_write_def Let_def
    split: if_splits timer_var.splits api_call.splits prod.splits)+

text \<open>The invariant of a client: when it is shut, what was claimed is closed.\<close>

definition system_ok :: "client_system \<Rightarrow> bool" where
  "system_ok s = (if gs_pc s = Shut then gs_closed s \<and> (\<forall>(i, a) \<in> set (cl_resources (gs_client s)). ri_closed (cl_heap (gs_client s) ! a))
     else calls_ok s \<and> rest_ok s)"

lemma shut_step:
  assumes "gs_pc s = Shut" and "gs_closed s"
  shows "case goroutine_system_step e s of
      Inl p \<Rightarrow> p = ClosedChannel \<and> program_fault e s
    | Inr None \<Rightarrow> True
    | Inr (Some s') \<Rightarrow> gs_pc s' = Shut \<and> gs_closed s' \<and> cl_resources (gs_client s') = cl_resources (gs_client s) \<and>
        (\<forall>a. ri_closed (cl_heap (gs_client s') ! a) = ri_closed (cl_heap (gs_client s) ! a))"
proof (cases e)
  case (ProgramReads b)
  have "ri_closed ((cl_heap c)[b := (cl_heap c ! b)\<lparr>ri_capacity := x\<rparr>] ! a) = ri_closed (cl_heap c ! a)" for c :: Client and x a
    by (cases "b < length (cl_heap c)"; cases "a = b") (simp_all add: list_update_beyond)
  with ProgramReads assms show ?thesis by (simp add: goroutine_system_step_def cl_write_def)
qed (use assms in \<open>simp_all add: goroutine_system_step_def program_fault_def\<close>)

lemma close_returns:
  assumes "calls_ok s" and "gs_closed s"
  shows "\<exists>client request. client_Close (gs_client s) = Inr (client, request) \<and>
    system_ok (s\<lparr>gs_client := client, gs_pc := Shut\<rparr>)"
proof -
  have ok: "client_ok (gs_client s)" using assms(1) by (simp add: calls_ok_def)
  have "list_all (\<lambda>(i, a). a < length (cl_heap (gs_client s)) \<and> \<not> ri_closed (cl_heap (gs_client s) ! a)) (cl_resources (gs_client s))"
    and "distinct (map snd (cl_resources (gs_client s)))"
    using ok by (auto simp: client_ok_def list_all_iff open_resource_def)
  from close_loop_ok [OF this, of "replicate (length (cl_resources (gs_client s))) []"] obtain client where
    c: "close_loop (cl_resources (gs_client s)) (gs_client s) (replicate (length (cl_resources (gs_client s))) []) =
      Inr (client, replicate (length (cl_resources (gs_client s))) [] @ map fst (cl_resources (gs_client s)))"
    "\<forall>a < length (cl_heap (gs_client s)). cl_heap client ! a =
      (if a \<in> snd ` set (cl_resources (gs_client s)) then (cl_heap (gs_client s) ! a)\<lparr>ri_closed := True\<rparr> else cl_heap (gs_client s) ! a)"
    by blast
  have "ri_closed (cl_heap client ! a)" if "(i, a) \<in> set (cl_resources (gs_client s))" for i a
    using c(2) claimed_open [OF ok that] imageI [OF that, of snd] by auto
  with c(1) close_loop_resources [OF c(1)] assms(2) show ?thesis by (auto simp: client_Close_def system_ok_def)
qed

lemma system_ok_step:
  assumes "system_ok s"
  shows "case goroutine_system_step e s of
      Inl p \<Rightarrow> p = ClosedChannel \<and> program_fault e s | Inr None \<Rightarrow> True | Inr (Some s') \<Rightarrow> system_ok s'"
proof (cases "gs_pc s = Shut")
  case True
  with shut_step [of s e] assms show ?thesis by (auto simp: system_ok_def split: sum.splits option.splits)
next
  case False
  then have ok: "calls_ok s" "rest_ok s" using assms by (simp_all add: system_ok_def)
  consider (perform) now reply where "e = Perform now reply" | (resume) now where "e = Resumes now" | (close) "e = CloseReturns"
    | (other) "case e of Perform now reply \<Rightarrow> False | Resumes now \<Rightarrow> False | CloseReturns \<Rightarrow> False | _ \<Rightarrow> True"
    by (cases e) auto
  then show ?thesis
  proof cases
    case perform
    show ?thesis
    proof (cases "gs_pc s = Requests")
      case True
      from calls_ok_perform [OF ok(1) this, of now reply] perform show ?thesis by (auto simp: system_ok_def)
    qed (simp add: perform goroutine_system_step_def)
  next
    case resume
    with calls_ok_resume [OF ok, of now] show ?thesis
      by (auto simp: goroutine_system_step_def system_ok_def split: sum.splits option.splits)
  next
    case close
    with close_returns [OF ok(1)] show ?thesis by (auto simp: goroutine_system_step_def)
  next
    case other
    have "case e of Resumes now \<Rightarrow> False | CloseReturns \<Rightarrow> False | _ \<Rightarrow> True" using other by (cases e) auto
    note step = calls_ok_step [OF ok(1) this]
    show ?thesis
    proof (cases "goroutine_system_step e s")
      case (Inr r)
      show ?thesis
      proof (cases r)
        case (Some s')
        note pc = other_steps_pc [OF other Inr [unfolded Some] False]
        from step Inr Some have "calls_ok s'" by simp
        moreover have "rest_ok s'" using pc(2,3) ok(2) by (auto simp: rest_ok_def)
        ultimately show ?thesis using pc(1) Inr Some by (simp add: system_ok_def)
      qed (simp add: Inr)
    qed (use step in simp)
  qed
qed

lemma system_ok_run: "system_ok s \<Longrightarrow> goroutine_system_run es s = Inr (Some s') \<Longrightarrow> system_ok s'"
proof (induction es arbitrary: s)
  case (Cons e es)
  obtain s1 where "goroutine_system_step e s = Inr (Some s1)" "goroutine_system_run es s1 = Inr (Some s')"
    using Cons.prems(2) by (auto split: option.splits)
  with Cons.IH system_ok_step [OF Cons.prems(1), of e] show ?case by simp
qed simp

lemma system_ok_start: "system_ok (client_start i opts)"
  by (simp add: system_ok_def rest_ok_def calls_ok_def client_start_def NewWithID_def client_ok_def)

section \<open>The loop goes on\<close>

text \<open>From the expiry of its timer, or from its wait for the wake-up, the loop gets to a request; from a
  request that is answered it gets back to its \<open>select\<close>.\<close>

definition timer_events :: "goroutine_event set" where
  "timer_events = {TimerExpires, TimerSends, ReceiveWakeUp, DrainWakeUp}"

lemma run_Cons:
  "goroutine_system_step e s = Inr (Some s1) \<Longrightarrow> goroutine_system_run es s1 = r \<Longrightarrow> goroutine_system_run (e # es) s = r"
  by simp

lemma wake_up_arrives:
  assumes "gs_unsent s + gs_wakeUp s = 1" and "gs_timer s = Expired" and "gs_pc s \<in> {Selects, Drains}"
  shows "\<exists>es s'. set es \<subseteq> timer_events \<and> length es \<le> 2 \<and> (gs_pc s = Drains \<longrightarrow> set es \<subseteq> {TimerSends, DrainWakeUp}) \<and>
    goroutine_system_run es s = Inr (Some s') \<and> gs_pc s' = Requests \<and> gs_client s' = gs_client s \<and> gs_calls s' = gs_calls s \<and> gs_closed s' = gs_closed s"
proof -
  let ?e = "if gs_pc s = Selects then ReceiveWakeUp else DrainWakeUp"
  have take: "\<exists>s'. goroutine_system_run [?e] t = Inr (Some s') \<and> gs_pc s' = Requests \<and> gs_client s' = gs_client s \<and>
      gs_calls s' = gs_calls s \<and> gs_closed s' = gs_closed s"
    if "gs_wakeUp t = 1" "gs_pc t = gs_pc s" "gs_client t = gs_client s" "gs_calls t = gs_calls s" "gs_closed t = gs_closed s" for t
    using that assms(3) by (auto simp: goroutine_system_step_def check_timer_def)
  show ?thesis
  proof (cases "gs_wakeUp s = 1")
    case True
    with take [of s] assms(3) show ?thesis by (intro exI [of _ "[?e]"]) (auto simp: timer_events_def)
  next
    case False
    with assms(1) have u: "gs_unsent s = 1" "gs_wakeUp s = 0" by auto
    let ?t = "s\<lparr>gs_unsent := 0, gs_wakeUp := 1\<rparr>"
    have "goroutine_system_step TimerSends s = Inr (Some ?t)" using u by (simp add: goroutine_system_step_def)
    from take [of ?t] run_Cons [OF this, of "[?e]"] obtain s' where
      "goroutine_system_run [TimerSends, ?e] s = Inr (Some s')" "gs_pc s' = Requests" "gs_client s' = gs_client s"
      "gs_calls s' = gs_calls s" "gs_closed s' = gs_closed s"
      by fastforce
    then show ?thesis by (intro exI [of _ "[TimerSends, ?e]"] exI [of _ s']) (auto simp: timer_events_def)
  qed
qed

lemma loop_refreshes:
  assumes "timer_ok s" and "gs_pc s \<in> {Selects, Drains, Requests}" and "cl_resources (gs_client s) \<noteq> []"
  shows "\<exists>es s'. set es \<subseteq> timer_events \<and> length es \<le> 3 \<and> goroutine_system_run es s = Inr (Some s') \<and> gs_pc s' = Requests \<and>
    gs_client s' = gs_client s"
proof (cases "gs_pc s = Requests")
  case True
  then show ?thesis by (intro exI [of _ "[]"] exI [of _ s]) simp
next
  case False
  show ?thesis
  proof (cases "gs_timer s = Armed")
    case True
    with assms(1,2) False have s: "gs_pc s = Selects" "gs_unsent s = 0" "gs_wakeUp s = 0" by (auto simp: timer_ok_def)
    let ?t = "s\<lparr>gs_timer := Expired, gs_unsent := 1\<rparr>"
    have "goroutine_system_step TimerExpires s = Inr (Some ?t)" using True s by (simp add: goroutine_system_step_def)
    moreover obtain es s' where es: "set es \<subseteq> timer_events" "length es \<le> 2" "goroutine_system_run es ?t = Inr (Some s')"
      "gs_pc s' = Requests" "gs_client s' = gs_client s"
      using wake_up_arrives [of ?t] s by auto
    ultimately have "goroutine_system_run (TimerExpires # es) s = Inr (Some s')" by simp
    with es show ?thesis by (intro exI [of _ "TimerExpires # es"] exI [of _ s']) (auto simp: timer_events_def)
  next
    case no: False
    with assms False have "gs_timer s = Expired" "gs_unsent s + gs_wakeUp s = 1"
      by (auto simp: timer_ok_def split: timer_var.splits)
    from wake_up_arrives [OF this(2,1)] assms(2) False show ?thesis by fastforce
  qed
qed

text \<open>A reply without resources ends a request at once.\<close>

definition empty_reply :: GetCapacityResponse where
  "empty_reply = \<lparr>gcp_Response = [], gcp_Mastership = None\<rparr>"

lemma request_ends:
  assumes "gs_pc s = Requests"
  shows "\<exists>s'. goroutine_system_step (Perform now (Some empty_reply)) s = Inr (Some s') \<and> gs_pc s' = Selects \<and>
    gs_client s' = gs_client s \<and> gs_calls s' = gs_calls s \<and> gs_closed s' = gs_closed s"
  using assms by (simp add: goroutine_system_step_def performRequests_def empty_reply_def Let_def)

lemma call_taken:
  assumes "timer_ok s" and "gs_pc s \<in> {Selects, Drains, Requests}"
  shows "\<exists>es s'. set es \<subseteq> {TimerSends, DrainWakeUp, Perform now (Some empty_reply)} \<and> length es \<le> 3 \<and>
    goroutine_system_run es s = Inr (Some s') \<and> gs_pc s' = Selects \<and> gs_client s' = gs_client s \<and> gs_calls s' = gs_calls s \<and> gs_closed s' = gs_closed s"
proof (cases "gs_pc s = Drains")
  case True
  with assms(1) have "gs_unsent s + gs_wakeUp s = 1" "gs_timer s = Expired" by (simp_all add: timer_ok_def)
  from wake_up_arrives [OF this] True obtain es s1 where 1: "set es \<subseteq> {TimerSends, DrainWakeUp}" "length es \<le> 2"
    "goroutine_system_run es s = Inr (Some s1)" "gs_pc s1 = Requests" "gs_client s1 = gs_client s" "gs_calls s1 = gs_calls s"
    "gs_closed s1 = gs_closed s"
    by auto
  from request_ends [OF 1(4), of now] obtain s' where s': "goroutine_system_step (Perform now (Some empty_reply)) s1 = Inr (Some s')"
    "gs_pc s' = Selects" "gs_client s' = gs_client s" "gs_calls s' = gs_calls s" "gs_closed s' = gs_closed s"
    using 1(5-7) by auto
  have "goroutine_system_run (es @ [e]) s = goroutine_system_run [e] s1" for e
    using 1(3) by (induction es arbitrary: s) (auto split: option.splits)
  with 1(1,2) s' show ?thesis
    by (intro exI [of _ "es @ [Perform now (Some empty_reply)]"] exI [of _ s']) auto
next
  case False
  show ?thesis
  proof (cases "gs_pc s = Requests")
    case True
    from request_ends [OF this, of now] obtain s' where "goroutine_system_step (Perform now (Some empty_reply)) s = Inr (Some s')"
      "gs_pc s' = Selects" "gs_client s' = gs_client s" "gs_calls s' = gs_calls s" "gs_closed s' = gs_closed s" by auto
    then show ?thesis by (intro exI [of _ "[Perform now (Some empty_reply)]"] exI [of _ s']) simp
  next
    case no: False
    with assms(2) False show ?thesis by (intro exI [of _ "[]"] exI [of _ s]) simp
  qed
qed

section \<open>Properties\<close>

text \<open>C27. The goroutine of a client never loses its timer. In every state that a new client reaches, as long
  as the goroutine has not returned and does not wait on the channel of a resource: with a resource
  claimed, the timer alone brings it to its next request in at most three steps; and a call of \<open>Resource\<close>
  or \<open>Release\<close> that waits can be taken, unless the client is closed, after at most three steps of the timer
  and of the goroutine, one of them a request that is answered.\<close>

theorem client_loop_live:
  assumes "goroutine_system_run es (client_start i opts) = Inr (Some s)" and "gs_pc s \<in> {Selects, Drains, Requests}"
  shows "(cl_resources (gs_client s) \<noteq> [] \<longrightarrow> (\<exists>es' s'. set es' \<subseteq> timer_events \<and> length es' \<le> 3 \<and>
      goroutine_system_run es' s = Inr (Some s') \<and> gs_pc s' = Requests \<and> gs_client s' = gs_client s)) \<and>
    (\<forall>k < length (gs_calls s). snd (gs_calls s ! k) = Waiting \<longrightarrow> \<not> gs_closed s \<longrightarrow>
      (\<exists>es' s'. set es' \<subseteq> {TimerSends, DrainWakeUp, Perform now (Some empty_reply)} \<and> length es' \<le> 3 \<and>
        goroutine_system_run es' s = Inr (Some s') \<and> gs_client s' = gs_client s \<and> goroutine_system_step (TakeCall k) s' \<noteq> Inr None))"
proof -
  have ok: "timer_ok s" by (rule timer_ok_run [OF timer_ok_start assms(1)])
  have "goroutine_system_step (TakeCall k) s' \<noteq> Inr None"
    if "gs_pc s' = Selects" "\<not> gs_closed s'" "k < length (gs_calls s')" "snd (gs_calls s' ! k) = Waiting" for k s'
    using that by (cases "take_call k (fst (gs_calls s' ! k)) s'") (simp_all add: goroutine_system_step_def)
  with loop_refreshes [OF ok assms(2)] call_taken [OF ok assms(2), of now] show ?thesis by metis
qed

text \<open>A program claims a resource; the timer expires and the client claims another while the wake-up is
  under way.\<close>

definition example_events :: "goroutine_event list" where
  "example_events = [CallResource ''r'' (Fin 5) 0, TakeCall 0, Perform 10 (Some empty_reply), TimerExpires,
     CallResource ''q'' (Fin 5) 0, TakeCall 1, CallRelease 0]"

lemma example_goroutine:
  "\<exists>s. goroutine_system_run example_events (client_start ''c'' (getOptions [])) = Inr (Some s) \<and>
     gs_pc s = Drains \<and> map fst (cl_resources (gs_client s)) = [''r'', ''q''] \<and> gs_calls s ! 2 = (Frees 0, Waiting) \<and>
     length (gs_calls s) = 3 \<and> \<not> gs_closed s"
  by (simp add: example_events_def client_start_def NewWithID_def goroutine_system_step_def take_call_def addResource_def
      check_timer_def performRequests_def empty_reply_def Let_def)

theorem client_loop_live_witness:
  "\<exists>s es' s'. gs_pc s = Drains \<and> length es' \<le> 3 \<and> goroutine_system_run es' s = Inr (Some s') \<and> gs_pc s' = Requests \<and>
     (\<exists>es'' s''. goroutine_system_run es'' s = Inr (Some s'') \<and> goroutine_system_step (TakeCall 2) s'' \<noteq> Inr None)"
proof -
  obtain s where s: "goroutine_system_run example_events (client_start ''c'' (getOptions [])) = Inr (Some s)"
    "gs_pc s = Drains" "map fst (cl_resources (gs_client s)) = [''r'', ''q'']" "gs_calls s ! 2 = (Frees 0, Waiting)"
    "length (gs_calls s) = 3" "\<not> gs_closed s" using example_goroutine by (elim exE conjE)
  have pc: "gs_pc s \<in> {Selects, Drains, Requests}" and claimed: "cl_resources (gs_client s) \<noteq> []" using s(2,3) by auto
  note live = client_loop_live [OF s(1) pc, of 0]
  obtain es' s' where 1: "length es' \<le> 3" "goroutine_system_run es' s = Inr (Some s')" "gs_pc s' = Requests"
    using mp [OF conjunct1 [OF live] claimed] by (elim exE conjE)
  have "2 < length (gs_calls s)" "snd (gs_calls s ! 2) = Waiting" using s(4,5) by simp_all
  from conjunct2 [OF live, rule_format, OF this s(6)] obtain es'' s'' where
    2: "goroutine_system_run es'' s = Inr (Some s'')" "goroutine_system_step (TakeCall 2) s'' \<noteq> Inr None"
    by (elim exE conjE)
  show ?thesis
    by (intro exI conjI) (rule s(2), rule 1(1), rule 1(2), rule 1(3), rule 2(1), rule 2(2))
qed

text \<open>C28. What can panic in a client and its program: only a send on a closed channel or the close of one,
  and only because the program calls \<open>Resource\<close>, \<open>Release\<close> or \<open>Close\<close> after \<open>Close\<close>, because \<open>Close\<close> comes
  while another call still waits to be taken, or because a resource is released again after its id has
  been claimed anew. Everything else, replies of every kind included, keeps the claimed resources
  distinct, open and under their own ids, until \<open>Close\<close> has closed them all.\<close>

theorem client_panics:
  assumes "goroutine_system_run es (client_start i opts) = Inr (Some s)"
  shows "case goroutine_system_step e s of
      Inl p \<Rightarrow> p = ClosedChannel \<and> program_fault e s
    | Inr None \<Rightarrow> True
    | Inr (Some s') \<Rightarrow>
        if gs_pc s' = Shut then \<forall>(i, a) \<in> set (cl_resources (gs_client s')). ri_closed (cl_heap (gs_client s') ! a)
        else client_ok (gs_client s')"
proof -
  have ok: "system_ok s" by (rule system_ok_run [OF system_ok_start assms])
  show ?thesis
    using system_ok_step [OF ok, of e] by (auto simp: system_ok_def calls_ok_def split: sum.splits option.splits if_splits)
qed

text \<open>A goroutine that waits on a channel is not stuck: once the program reads from the channel, it goes on.\<close>

lemma blocked_resumes:
  assumes "goroutine_system_run es (client_start i opts) = Inr (Some s)" and "gs_pc s = Blocked" and "gs_rest s = (j, a) # rest"
  shows "\<exists>s' s''. goroutine_system_step (ProgramReads a) s = Inr (Some s') \<and> goroutine_system_step (Resumes now) s' = Inr (Some s'') \<or>
    goroutine_system_step (Resumes now) s = Inr (Some s'')"
proof -
  have "system_ok s" by (rule system_ok_run [OF system_ok_start assms(1)])
  with assms(2,3) have ok: "calls_ok s" "rest_ok s" "client_ok (gs_client s)" "(j, a) \<in> set (cl_resources (gs_client s))"
    by (auto simp: system_ok_def calls_ok_def rest_ok_def)
  note o = claimed_open [OF ok(3,4)]
  have go: "\<exists>s''. goroutine_system_step (Resumes now) t = Inr (Some s'')"
    if t: "calls_ok t" "rest_ok t" "gs_pc t = Blocked" "gs_rest t = (j, a) # rest"
      "length (ri_capacity (cl_heap (gs_client t) ! a)) < capacityChannelSize" for t
  proof -
    have "(j, a) \<in> set (cl_resources (gs_client t))" "client_ok (gs_client t)" using t by (auto simp: rest_ok_def calls_ok_def)
    with claimed_open have "open_resource (cl_heap (gs_client t) ! a)" by blast
    with t(5) have "\<exists>res. send_capacity (cl_heap (gs_client t) ! a) (Fin 0) = Inr (Some res)"
      by (simp add: send_capacity_def open_resource_def)
    with calls_ok_resume [OF t(1-3), of now] t(3,4) show ?thesis
      by (auto simp: goroutine_system_step_def resume_def split: sum.splits)
  qed
  show ?thesis
  proof (cases "length (ri_capacity (cl_heap (gs_client s) ! a)) < capacityChannelSize")
    case True
    with go [OF ok(1,2) assms(2,3)] show ?thesis by blast
  next
    case False
    let ?t = "s\<lparr>gs_client := cl_write (gs_client s) a
      ((cl_heap (gs_client s) ! a)\<lparr>ri_capacity := tl (ri_capacity (cl_heap (gs_client s) ! a))\<rparr>)\<rparr>"
    have l: "length (ri_capacity (cl_heap (gs_client s) ! a)) = capacityChannelSize" "a < length (cl_heap (gs_client s))"
      using o False by (auto simp: open_resource_def)
    then have "goroutine_system_step (ProgramReads a) s = Inr (Some ?t)"
      by (auto simp: goroutine_system_step_def capacityChannelSize_def)
    moreover have "rest_ok ?t" using ok(2) by (simp add: rest_ok_def)
    ultimately show ?thesis
      using go [OF calls_ok_reads [OF ok(1), of a]] assms(2,3) l by (auto simp: capacityChannelSize_def)
  qed
qed

text \<open>A resource is released, its id is claimed anew, and the first one is released once more.\<close>

theorem client_panics_witness:
  "\<exists>s. goroutine_system_run [CallResource ''r'' (Fin 5) 0, TakeCall 0, Perform 10 (Some empty_reply), CallRelease 0, TakeCall 1,
      CallResource ''r'' (Fin 5) 0, TakeCall 2, Perform 20 (Some empty_reply), CallRelease 0] (client_start ''c'' (getOptions [])) = Inr (Some s) \<and>
     goroutine_system_step (TakeCall 3) s = Inl ClosedChannel \<and> ri_closed (cl_heap (gs_client s) ! 0)"
proof -
  let ?es = "[CallResource ''r'' (Fin 5) 0, TakeCall 0, Perform 10 (Some empty_reply), CallRelease 0, TakeCall 1,
      CallResource ''r'' (Fin 5) 0, TakeCall 2, Perform 20 (Some empty_reply), CallRelease 0]"
  have "\<exists>s p. goroutine_system_run ?es (client_start ''c'' (getOptions [])) = Inr (Some s) \<and> goroutine_system_step (TakeCall 3) s = Inl p \<and>
      gs_calls s ! 3 = (Frees 0, Waiting)"
    by (simp add: client_start_def NewWithID_def goroutine_system_step_def take_call_def addResource_def removeResource_def
        close_capacity_def cl_write_def check_timer_def performRequests_def empty_reply_def Let_def)
  then obtain s p where s: "goroutine_system_run ?es (client_start ''c'' (getOptions [])) = Inr (Some s)"
    "goroutine_system_step (TakeCall 3) s = Inl p" "gs_calls s ! 3 = (Frees 0, Waiting)" by blast
  from client_panics [OF s(1), of "TakeCall 3"] have "p = ClosedChannel" "program_fault (TakeCall 3) s"
    unfolding s(2) by simp_all
  with s show ?thesis by (intro exI [of _ s]) (simp add: program_fault_def del: goroutine_system_run.simps)
qed

end
