(* ===== verification/Metrics.thy ===== *)
theory Metrics
  imports Server_Life Cluster Client_Api
begin

text \<open>
  The metrics that the server and its clients keep of their remote calls, in the vectors of \<open>Registry\<close>
  (the handlers in \<open>go/server/doorman/server.go\<close>, the callbacks in \<open>go/client/doorman/client.go\<close>). What the
  code does with them is a list of operations, each on one vector and under the labels given to
  \<open>WithLabelValues\<close>; the value of a counter is the number of its increments. The time that a call
  takes is an argument. A panic ends the process and its metrics with it.
\<close>

section \<open>The calls of a server\<close>

datatype metric_op = Inc metric_vec "string list" | Observe metric_vec "string list" f64

text \<open>The deferred function of a handler.\<close>

definition deferred :: "string \<Rightarrow> duration \<Rightarrow> bool \<Rightarrow> metric_op list" where
  "deferred method elapsed failed = Observe RequestDurations [method] (Seconds elapsed) #
     (if failed then [Inc RequestErrors [method]] else [])"

definition ReleaseCapacity_metered :: "duration \<Rightarrow> Server \<Rightarrow> ReleaseCapacityRequest
    \<Rightarrow> (Server \<times> ReleaseCapacityResponse) \<times> metric_op list" where
  "ReleaseCapacity_metered elapsed srv q =
     (ReleaseCapacity srv q, Inc Requests [''ReleaseCapacity''] # deferred ''ReleaseCapacity'' elapsed False)"

text \<open>A call that still waits for its items has not run its deferred function.\<close>

definition GetCapacity_metered :: "duration \<Rightarrow> rpc_event list \<Rightarrow> Server \<Rightarrow> GetCapacityRequest
    \<Rightarrow> panic + (Server \<times> GetCapacityResponse option) \<times> metric_op list" where
  "GetCapacity_metered elapsed schedule srv q =
     bind_panic (GetCapacity schedule srv q) (\<lambda>(srv', out). Inr ((srv', out), Inc Requests [''GetCapacity''] #
       (if out = None then [] else deferred ''GetCapacity'' elapsed False)))"

text \<open>The events of a server's life; \<open>GetServerCapacity\<close> keeps no metrics.\<close>

definition metered_step :: "(string \<Rightarrow> ResourceRepository option) \<Rightarrow> string option \<Rightarrow> server_event \<times> duration
    \<Rightarrow> Server \<times> metric_op list \<Rightarrow> panic + Server \<times> metric_op list" where
  "metered_step unmarshal run_err = (\<lambda>(e, elapsed) (srv, ops). case e of
       CapacityCall schedule q \<Rightarrow> bind_panic (GetCapacity_metered elapsed schedule srv q)
         (\<lambda>((srv', out), new). Inr (srv', ops @ new))
     | ReleaseCall q \<Rightarrow> (let ((srv', out), new) = ReleaseCapacity_metered elapsed srv q in Inr (srv', ops @ new))
     | _ \<Rightarrow> bind_panic (life_step unmarshal run_err e srv) (\<lambda>srv'. Inr (srv', ops)))"

fun metered_run :: "(string \<Rightarrow> ResourceRepository option) \<Rightarrow> string option \<Rightarrow> (server_event \<times> duration) list
    \<Rightarrow> Server \<times> metric_op list \<Rightarrow> panic + Server \<times> metric_op list" where
  "metered_run unmarshal run_err [] s = Inr s"
| "metered_run unmarshal run_err (e # es) s =
     bind_panic (metered_step unmarshal run_err e s) (metered_run unmarshal run_err es)"

section \<open>The calls of a client\<close>

datatype client_method = CallGetCapacity | CallReleaseCapacity

definition method_name :: "client_method \<Rightarrow> string" where
  "method_name m = (case m of CallGetCapacity \<Rightarrow> ''GetCapacity'' | CallReleaseCapacity \<Rightarrow> ''ReleaseCapacity'')"

text \<open>What a \<open>defer\<close> keeps: a call whose arguments have been evaluated, or a function that evaluates them
  when it runs, with the time elapsed until then.\<close>

datatype deferral = Evaluated metric_op | Closure "duration \<Rightarrow> metric_op"

definition run_deferred :: "deferral \<Rightarrow> duration \<Rightarrow> metric_op" where
  "run_deferred d elapsed = (case d of Evaluated op \<Rightarrow> op | Closure f \<Rightarrow> f elapsed)"

text \<open>The callbacks of \<open>ExecuteRPC\<close> up to the remote call, which they defer past; \<open>before\<close> is the time since
  \<open>start\<close> at the \<open>defer\<close>.\<close>

definition callback :: "client_method \<Rightarrow> string \<Rightarrow> duration \<Rightarrow> metric_op list \<times> deferral" where
  "callback m label before = ([Inc Requests [label, method_name m]], (case m of
       CallGetCapacity \<Rightarrow> Closure (\<lambda>elapsed. Observe RequestDurations [label, ''GetCapacity''] (Seconds elapsed))
     | CallReleaseCapacity \<Rightarrow> Evaluated (Observe RequestDurations [label, ''ReleaseCapacity''] (Seconds before))))"

definition callback_ops :: "client_method \<Rightarrow> string \<Rightarrow> duration \<times> duration \<Rightarrow> metric_op list" where
  "callback_ops m label = (\<lambda>(before, elapsed). case callback m label before of (ops, d) \<Rightarrow> ops @ [run_deferred d elapsed])"

text \<open>One pass of the connection's loop; the callback runs if there is a connection. \<open>timing n\<close> are the
  times of the call that is the \<open>n\<close>-th interaction with the network.\<close>

definition pass_ops :: "client_method \<Rightarrow> 'out network \<Rightarrow> (nat \<Rightarrow> duration \<times> duration) \<Rightarrow> loop \<Rightarrow> metric_op list" where
  "pass_ops m = (\<lambda>(dial, rpc) timing s.
     let s = before_retry s;
         (c, connected) =
           (if \<not> cn_conn (lp_conn s) then connect (dial (lp_net s) (cn_addr (lp_conn s))) (cn_addr (lp_conn s)) (lp_conn s)
            else (lp_conn s, True));
         n = (if \<not> cn_conn (lp_conn s) then lp_net s + 1 else lp_net s)
     in if connected then callback_ops m (connection_String c) (timing n) else [])"

fun metered_loop :: "client_method \<Rightarrow> ('out \<Rightarrow> Mastership option) \<Rightarrow> 'out network \<Rightarrow> (nat \<Rightarrow> duration \<times> duration) \<Rightarrow> nat \<Rightarrow> loop
    \<Rightarrow> ('out reply \<times> loop + loop) \<times> metric_op list" where
  "metered_loop m mastership net timing 0 s = (Inr s, [])"
| "metered_loop m mastership net timing (Suc fuel) s = (case loop_step mastership net s of
       Inl r \<Rightarrow> (Inl r, pass_ops m net timing s)
     | Inr s' \<Rightarrow> (case metered_loop m mastership net timing fuel s' of (r, ops) \<Rightarrow> (r, pass_ops m net timing s @ ops)))"

definition ExecuteRPC :: "client_method \<Rightarrow> ('out \<Rightarrow> Mastership option) \<Rightarrow> 'out network \<Rightarrow> (nat \<Rightarrow> duration \<times> duration) \<Rightarrow> nat
    \<Rightarrow> Connection \<Rightarrow> nat \<Rightarrow> ('out reply \<times> loop + loop) \<times> metric_op list" where
  "ExecuteRPC m mastership net timing fuel c n = metered_loop m mastership net timing fuel
     \<lparr>lp_conn = c, lp_net = n, lp_retries = 0, lp_sleeps = [], lp_noSleep = False\<rparr>"

text \<open>\<open>getCapacity\<close> and \<open>releaseCapacity\<close> of the client: an error of \<open>ExecuteRPC\<close> is counted under the
  connection's server.\<close>

definition client_call :: "client_method \<Rightarrow> ('out \<Rightarrow> Mastership option) \<Rightarrow> 'out network \<Rightarrow> (nat \<Rightarrow> duration \<times> duration) \<Rightarrow> nat
    \<Rightarrow> Connection \<Rightarrow> nat \<Rightarrow> ('out reply \<times> loop + loop) \<times> metric_op list" where
  "client_call m mastership net timing fuel c n = (case ExecuteRPC m mastership net timing fuel c n of
       (Inl (RpcError, s), ops) \<Rightarrow>
         (Inl (RpcError, s), ops @ [Inc RequestErrors [connection_String (lp_conn s), method_name m]])
     | (r, ops) \<Rightarrow> (r, ops))"

section \<open>Lemmas\<close>

definition counter :: "metric_op list \<Rightarrow> metric_vec \<Rightarrow> string list \<Rightarrow> nat" where
  "counter ops v labels = length (filter (\<lambda>op. op = Inc v labels) ops)"

fun observed :: "metric_op list \<Rightarrow> metric_vec \<Rightarrow> string list \<Rightarrow> f64 list" where
  "observed [] v labels = []"
| "observed (op # ops) v labels = (case op of
       Observe v' labels' x \<Rightarrow> (if v' = v \<and> labels' = labels then [x] else []) | _ \<Rightarrow> []) @ observed ops v labels"

lemma counter_simps [simp]:
  "counter [] v ls = 0"
  "counter (op # ops) v ls = (if op = Inc v ls then 1 else 0) + counter ops v ls"
  "counter (ops @ ops') v ls = counter ops v ls + counter ops' v ls"
  by (simp_all add: counter_def)

lemma observed_append [simp]: "observed (ops @ ops') v ls = observed ops v ls @ observed ops' v ls"
  by (induction ops) simp_all

fun release_times :: "(server_event \<times> duration) list \<Rightarrow> duration list" where
  "release_times [] = []"
| "release_times ((e, d) # es) = (case e of ReleaseCall q \<Rightarrow> [d] | _ \<Rightarrow> []) @ release_times es"

fun capacity_calls :: "server_event list \<Rightarrow> nat" where
  "capacity_calls [] = 0"
| "capacity_calls (e # es) = (case e of CapacityCall schedule q \<Rightarrow> 1 | _ \<Rightarrow> 0) + capacity_calls es"

text \<open>The number of calls of one client, whatever the server.\<close>

definition attempts :: "metric_op list \<Rightarrow> nat" where
  "attempts ops = length (filter (\<lambda>op. case op of Inc Requests ls \<Rightarrow> True | _ \<Rightarrow> False) ops)"

lemma attempts_simps [simp]:
  "attempts [] = 0" "attempts (ops @ ops') = attempts ops + attempts ops'"
  by (simp_all add: attempts_def)

lemma metered_step_run:
  "metered_step unmarshal run_err (e, d) (srv, ops) = bind_panic (life_step unmarshal run_err e srv) (\<lambda>srv'.
     Inr (srv', ops @ (case e of
         CapacityCall schedule q \<Rightarrow> Inc Requests [''GetCapacity''] #
           (case GetCapacity schedule srv q of Inr (srv', Some out) \<Rightarrow> deferred ''GetCapacity'' d False | _ \<Rightarrow> [])
       | ReleaseCall q \<Rightarrow> Inc Requests [''ReleaseCapacity''] # deferred ''ReleaseCapacity'' d False
       | _ \<Rightarrow> [])))"
  by (cases e) (auto simp: metered_step_def life_step_def GetCapacity_metered_def ReleaseCapacity_metered_def split_beta
      split: sum.split option.split)

lemma callback_ops_simps [simp]:
  "counter (callback_ops m a t) RequestErrors ls = 0"
  "counter (callback_ops m a t) Requests ls = (if ls = [a, method_name m] then 1 else 0)"
  "observed (callback_ops m a t) RequestDurations ls =
     (if ls = [a, method_name m] then [Seconds (if m = CallGetCapacity then snd t else fst t)] else [])"
  "attempts (callback_ops m a t) = 1"
  by (auto simp: callback_ops_def callback_def run_deferred_def method_name_def attempts_def split_beta split: client_method.splits)

lemma pass_ops_cases: "pass_ops m net timing s = [] \<or> (\<exists>a n. pass_ops m net timing s = callback_ops m a (timing n))"
  by (cases net) (auto simp: pass_ops_def Let_def split_beta)

lemma pass_ops_release:
  "pass_ops CallReleaseCapacity net (\<lambda>k. (fst (timing k), d k)) s = pass_ops CallReleaseCapacity net timing s"
  by (cases net) (simp add: pass_ops_def callback_ops_def callback_def run_deferred_def Let_def split_beta)

text \<open>Every failed call is an attempt.\<close>

lemma pass_failed:
  "\<exists>s'. loop_step mastership (\<lambda>k a. True, \<lambda>k a. RpcError) s = Inr s' \<and>
    attempts (pass_ops m (\<lambda>k a. True, \<lambda>k a. RpcError) timing s) = 1"
  by (auto simp: loop_step_def pass_ops_def Let_def split_beta)

lemma metered_loop_run: "fst (metered_loop m mastership net timing fuel s) = loop_run mastership net fuel s"
  by (induction fuel arbitrary: s) (auto split: sum.split prod.split simp: prod_eq_iff)

text \<open>The loop returns no error, so a call adds nothing to what the loop counts.\<close>

lemma client_call_loop: "client_call m mastership net timing fuel c n = ExecuteRPC m mastership net timing fuel c n"
proof -
  let ?s = "\<lparr>lp_conn = c, lp_net = n, lp_retries = 0, lp_sleeps = [], lp_noSleep = False\<rparr>"
  obtain r ops where r: "ExecuteRPC m mastership net timing fuel c n = (r, ops)" by force
  then have "r = loop_run mastership net fuel ?s" using metered_loop_run by (metis ExecuteRPC_def fst_conv)
  then have "r \<noteq> Inl (RpcError, s)" for s using loop_run_no_error by simp
  then show ?thesis unfolding client_call_def r
    by (simp split: sum.split reply.split prod.split)
qed

section \<open>Properties\<close>

text \<open>The metrics of a server count what they should and change nothing: a run with metrics ends, or
  panics, as the run without. The counter of requests of a method is the number of its calls, each
  release is observed with the time it took and each call for capacity at most once. The counter of errors
  never moves, since no handler that has one returns an error.\<close>

lemma server_metrics:
  "case metered_run unmarshal run_err es (srv, []) of
     Inl p \<Rightarrow> life_run unmarshal run_err (map fst es) srv = Inl p
   | Inr (srv', ops) \<Rightarrow> life_run unmarshal run_err (map fst es) srv = Inr srv' \<and>
       counter ops Requests [''GetCapacity''] = capacity_calls (map fst es) \<and>
       length (observed ops RequestDurations [''GetCapacity'']) \<le> capacity_calls (map fst es) \<and>
       counter ops Requests [''ReleaseCapacity''] = length (release_times es) \<and>
       observed ops RequestDurations [''ReleaseCapacity''] = map Seconds (release_times es) \<and>
       (\<forall>labels. counter ops RequestErrors labels = 0)"
proof -
  have run: "case metered_run unmarshal run_err es (srv, old) of
      Inl p \<Rightarrow> life_run unmarshal run_err (map fst es) srv = Inl p
    | Inr (srv', ops) \<Rightarrow> life_run unmarshal run_err (map fst es) srv = Inr srv' \<and> (\<exists>new. ops = old @ new \<and>
        counter new Requests [''GetCapacity''] = capacity_calls (map fst es) \<and>
        length (observed new RequestDurations [''GetCapacity'']) \<le> capacity_calls (map fst es) \<and>
        counter new Requests [''ReleaseCapacity''] = length (release_times es) \<and>
        observed new RequestDurations [''ReleaseCapacity''] = map Seconds (release_times es) \<and>
        (\<forall>labels. counter new RequestErrors labels = 0))" for old
  proof (induction es arbitrary: srv old)
    case (Cons ed es)
    obtain e d where ed: "ed = (e, d)" by force
    show ?case
    proof (cases "life_step unmarshal run_err e srv")
      case (Inl p)
      then show ?thesis by (simp add: ed metered_step_run)
    next
      case (Inr srv1)
      let ?new = "case e of
          CapacityCall schedule q \<Rightarrow> Inc Requests [''GetCapacity''] #
            (case GetCapacity schedule srv q of Inr (srv', Some out) \<Rightarrow> deferred ''GetCapacity'' d False | _ \<Rightarrow> [])
        | ReleaseCall q \<Rightarrow> Inc Requests [''ReleaseCapacity''] # deferred ''ReleaseCapacity'' d False
        | _ \<Rightarrow> []"
      have "counter ?new Requests [''GetCapacity''] = (case e of CapacityCall schedule q \<Rightarrow> 1 | _ \<Rightarrow> 0) \<and>
          length (observed ?new RequestDurations [''GetCapacity'']) \<le> (case e of CapacityCall schedule q \<Rightarrow> 1 | _ \<Rightarrow> 0) \<and>
          counter ?new Requests [''ReleaseCapacity''] = length (case e of ReleaseCall q \<Rightarrow> [d] | _ \<Rightarrow> []) \<and>
          observed ?new RequestDurations [''ReleaseCapacity''] = map Seconds (case e of ReleaseCall q \<Rightarrow> [d] | _ \<Rightarrow> []) \<and>
          (\<forall>labels. counter ?new RequestErrors labels = 0)"
        by (auto simp: deferred_def split: server_event.split sum.split option.split)
      with Cons.IH [of srv1 "old @ ?new"] show ?thesis
        by (auto simp: ed metered_step_run Inr split: sum.splits)
    qed
  qed simp
  from run [of "[]"] show ?thesis by (auto split: sum.splits)
qed

text \<open>C29. The metrics of a client's remote call change nothing about it. For every server and method there are
  as many observations as requests. The branch that counts the errors of calls is never taken, since
  the loop around the call has no way out with an error: when every attempt fails, each is counted as
  a request, the loop goes on, and the counter of errors stays at zero. What is observed of
  \<open>ReleaseCapacity\<close> does not depend on how long the calls take, since its argument is evaluated at the
  \<open>defer\<close>.\<close>

theorem client_metrics:
  "fst (client_call m mastership net timing fuel c n) = runMasterAware mastership net fuel c n \<and>
   (\<forall>labels. counter (snd (client_call m mastership net timing fuel c n)) Requests labels =
      length (observed (snd (client_call m mastership net timing fuel c n)) RequestDurations labels)) \<and>
   (\<forall>labels. counter (snd (client_call m mastership net timing fuel c n)) RequestErrors labels = 0) \<and>
   (\<exists>s. fst (client_call m mastership (\<lambda>k a. True, \<lambda>k a. RpcError) timing fuel c n) = Inr s) \<and>
   attempts (snd (client_call m mastership (\<lambda>k a. True, \<lambda>k a. RpcError) timing fuel c n)) = fuel \<and>
   snd (client_call CallReleaseCapacity mastership net (\<lambda>k. (fst (timing k), elapsed k)) fuel c n) =
     snd (client_call CallReleaseCapacity mastership net timing fuel c n)"
proof -
  have ops: "counter (pass_ops m net timing s) Requests ls = length (observed (pass_ops m net timing s) RequestDurations ls) \<and>
      counter (pass_ops m net timing s) RequestErrors ls = 0" for s ls
    using pass_ops_cases [of m net timing s] by auto
  have "counter (snd (metered_loop m mastership net timing fuel s)) Requests ls =
        length (observed (snd (metered_loop m mastership net timing fuel s)) RequestDurations ls) \<and>
      counter (snd (metered_loop m mastership net timing fuel s)) RequestErrors ls = 0" for s ls
    by (induction fuel arbitrary: s) (auto simp: ops split: sum.split prod.split simp: prod_eq_iff)
  moreover have "attempts (snd (metered_loop m mastership (\<lambda>k a. True, \<lambda>k a. RpcError) timing fuel s)) = fuel \<and>
      (\<exists>s'. fst (metered_loop m mastership (\<lambda>k a. True, \<lambda>k a. RpcError) timing fuel s) = Inr s')" for s
  proof (induction fuel arbitrary: s)
    case (Suc fuel)
    with pass_failed [of mastership s m timing] show ?case by (auto split: prod.split simp: prod_eq_iff)
  qed simp
  moreover have "snd (metered_loop CallReleaseCapacity mastership net (\<lambda>k. (fst (timing k), elapsed k)) fuel s) =
      snd (metered_loop CallReleaseCapacity mastership net timing fuel s)" for s
    by (induction fuel arbitrary: s) (auto simp: pass_ops_release split: sum.split prod.split simp: prod_eq_iff)
  ultimately show ?thesis
    by (simp add: client_call_loop ExecuteRPC_def runMasterAware_def metered_loop_run)
qed

end
