(* ===== verification/Server_Start.thy ===== *)
theory Server_Start
  imports Server_Life Status_Pages
begin

text \<open>
  The server program from its first statement to the calls it serves (\<open>main\<close> in
  \<open>go/cmd/doorman/doorman_server.go\<close>): the flags, the pages, and the process, in which the loop of
  configurations, the election, the HTTP pages and \<open>main\<close> itself go on side by side. \<open>main\<close> waits for
  the first configuration before it listens. File system, environment, command line and network are
  arguments.
\<close>

section \<open>Flags\<close>

text \<open>The flags with their defaults, as text.\<close>

definition main_defaults :: "(string \<times> string) list" where
  "main_defaults = [(''port'', ''6000''), (''debug_port'', ''6050''), (''server_role'', ''root''), (''parent'', ''''),
     (''hostname'', ''''), (''config'', ''''), (''doorman_rpc_dial_timeout'', ''5s''),
     (''doorman_minimum_refresh_interval'', ''5s''), (''tls'', ''false''), (''cert_file'', ''''), (''key_file'', ''''),
     (''etcd_endpoints'', ''''), (''master_delay'', ''10s''), (''master_election_lock'', '''')]"

text \<open>\<open>flag.Parse\<close>, of the assignments on the command line: a flag that does not exist or refuses its
  value ends the program. The last assignment counts.\<close>

fun flag_Parse :: "(string \<Rightarrow> string \<Rightarrow> bool) \<Rightarrow> (string \<times> string) list \<Rightarrow> (string \<times> string) list \<Rightarrow> (string \<times> string) list option" where
  "flag_Parse valid [] flags = Some flags"
| "flag_Parse valid ((name, val) # given) flags =
     (if map_of flags name = None \<or> \<not> valid name val then None
      else flag_Parse valid given (map_put flags name val))"

definition parse_bool :: "string \<Rightarrow> bool" where
  "parse_bool s = (s \<in> set [''1'', ''t'', ''T'', ''TRUE'', ''true'', ''True''])"

definition read_flags :: "(string \<Rightarrow> int) \<Rightarrow> (string \<Rightarrow> duration) \<Rightarrow> (string \<times> string) list \<Rightarrow> main_flags" where
  "read_flags int_of duration_of flags =
     (let get = (\<lambda>name. the (map_of flags name))
      in \<lparr>mf_port = int_of (get ''port''), mf_parent = get ''parent'', mf_hostname = get ''hostname'', mf_config = get ''config'',
          mf_tls = parse_bool (get ''tls''), mf_etcdEndpoints = get ''etcd_endpoints'',
          mf_masterDelay = duration_of (get ''master_delay''), mf_masterElectionLock = get ''master_election_lock''\<rparr>)"

text \<open>What \<open>main\<close> does first: the directory of the logs, the flag for it, the environment, and only then
  the command line. \<open>others\<close> are the flags of the libraries, \<open>log_dir\<close> among them.\<close>

definition main_values :: "string option \<Rightarrow> (string \<times> string) list \<Rightarrow> (string \<Rightarrow> string) \<Rightarrow> (string \<Rightarrow> string \<Rightarrow> bool)
    \<Rightarrow> (string \<times> string) list \<Rightarrow> string + (string \<times> string) list" where
  "main_values mkdir_err others env valid given = (case mkdir_err of
       Some err \<Rightarrow> Inl err
     | None \<Rightarrow>
         (case Populate (map_put (main_defaults @ others) ''log_dir'' ''./doorman_log_dir'') (\<lambda>name. False) env valid ''DOORMAN'' of
            (flags, Some key) \<Rightarrow> Inl key
          | (flags, None) \<Rightarrow> (case flag_Parse valid given flags of
              None \<Rightarrow> Inl ''usage''
            | Some flags \<Rightarrow> Inr flags)))"

section \<open>The process\<close>

text \<open>\<open>main\<close> waits for a configuration, or serves, or the process has ended with a message.\<close>

datatype main_phase = Waits | Serves | Exits string

record ('f, 'err, 't) server_process =
  sp_server :: Server
  sp_phase :: main_phase
  sp_page :: "('f, unit, 'err, 't) status_page"
  sp_servers :: nat       \<comment> \<open>how often the server is in the list of the page of leases\<close>
  sp_test :: f64

text \<open>The initialisation of the packages, then \<open>main\<close> up to where it waits.\<close>

definition server_start :: "('f, 'err, 't) engine \<Rightarrow> main_flags \<Rightarrow> string option \<Rightarrow> (string + duration) \<Rightarrow> string option \<Rightarrow> bool
    \<Rightarrow> panic + (string + ('f, 'err, 't) server_process \<times> main_election \<times> config_source)" where
  "server_start parse flags kernel_hostname dial run_err credentials_ok =
     bind_panic (status_init parse) (\<lambda>page.
     bind_panic (resourcez_init parse) (\<lambda>(tmpl, servers).
     bind_panic (server_init []) (\<lambda>registry.
     bind_panic (server_main flags kernel_hostname dial run_err credentials_ok registry) (\<lambda>r. Inr (case r of
         Inl err \<Rightarrow> Inl err
       | Inr (dm, election, source) \<Rightarrow>
           Inr (\<lparr>sp_server = dm, sp_phase = Waits, sp_page = AddStatusPart parse ''Doorman'' statusz () page,
             sp_servers = length (AddServer servers dm), sp_test = Fin 0\<rparr>, election, source))))))"

definition is_call :: "server_event \<Rightarrow> bool" where
  "is_call e = (case e of CapacityCall schedule q \<Rightarrow> True | ServerCapacityCall schedule q \<Rightarrow> True | ReleaseCall q \<Rightarrow> True | _ \<Rightarrow> False)"

text \<open>Calls come in while \<open>main\<close> serves; \<open>main\<close> listens when the channel \<open>isConfigured\<close> is closed, and the
  argument is the error of \<open>net.Listen\<close>; \<open>Collects\<close> is a request for the metrics.\<close>

datatype process_event = Lives server_event | Listens "string option" | Collects time time

definition process_step :: "(string \<Rightarrow> ResourceRepository option) \<Rightarrow> string option \<Rightarrow> process_event \<Rightarrow> ('f, 'err, 't) server_process
    \<Rightarrow> panic + ('f, 'err, 't) server_process option" where
  "process_step unmarshal run_err e p =
     (if sp_phase p \<noteq> Waits \<and> sp_phase p \<noteq> Serves then Inr None
      else case e of
         Lives le \<Rightarrow>
           if is_call le \<and> sp_phase p \<noteq> Serves then Inr None
           else bind_panic (life_step unmarshal run_err le (sp_server p)) (\<lambda>dm. Inr (Some (p\<lparr>sp_server := dm\<rparr>)))
       | Listens err \<Rightarrow>
           Inr (if sp_phase p = Waits \<and> srv_isConfigured (sp_server p)
             then Some (p\<lparr>sp_phase := (case err of None \<Rightarrow> Serves | Some err \<Rightarrow> Exits err)\<rparr>) else None)
       | Collects now1 now2 \<Rightarrow> bind_panic (Collect now1 now2 (sp_server p) (sp_test p))
           (\<lambda>(test, metrics). Inr (Some (p\<lparr>sp_test := test\<rparr>))))"

fun process_run :: "(string \<Rightarrow> ResourceRepository option) \<Rightarrow> string option \<Rightarrow> process_event list \<Rightarrow> ('f, 'err, 't) server_process
    \<Rightarrow> panic + ('f, 'err, 't) server_process option" where
  "process_run unmarshal run_err [] p = Inr (Some p)"
| "process_run unmarshal run_err (e # es) p = bind_panic (process_step unmarshal run_err e p) (\<lambda>r. case r of
       None \<Rightarrow> Inr None | Some p' \<Rightarrow> process_run unmarshal run_err es p')"

text \<open>The pages. A template that is executed calls the function of the section for its data.\<close>

definition status_request :: "string \<Rightarrow> string \<Rightarrow> string \<Rightarrow> time \<Rightarrow> time \<Rightarrow> ('f, 'err, 't) server_process
    \<Rightarrow> panic + 't \<times> (unit, 'err) status_data \<times> ServerStatus" where
  "status_request binaryName hostname startTime now1 now2 p =
     bind_panic (statusHandler binaryName hostname startTime (sp_page p)) (\<lambda>(t, data).
     bind_panic (server_Status (sp_server p) now1 now2) (\<lambda>status. Inr (t, data, status)))"

definition resources_request :: "time \<Rightarrow> time \<Rightarrow> string \<Rightarrow> ('f, 'err, 't) server_process \<Rightarrow> panic + resourcezData" where
  "resources_request now1 now2 resource p = resourcezHandler now1 now2 (replicate (sp_servers p) (sp_server p)) resource"

section \<open>Lemmas\<close>

lemma flag_Parse_values:
  "flag_Parse valid given flags = Some flags' \<Longrightarrow>
     map_of flags' name = (case map_of (rev given) name of Some v \<Rightarrow> Some v | None \<Rightarrow> map_of flags name)"
proof (induction given arbitrary: flags)
  case (Cons g given)
  then show ?case
    by (cases g) (auto simp: map_of_put map_add_def split: if_splits option.splits)
qed simp

lemma flag_Parse_refuses:
  "flag_Parse valid given flags = None \<Longrightarrow> \<exists>(name, v) \<in> set given. map_of flags name = None \<or> \<not> valid name v"
proof (induction given arbitrary: flags)
  case (Cons g given)
  obtain name v where g: "g = (name, v)" by force
  show ?case
  proof (cases "map_of flags name = None \<or> \<not> valid name v")
    case False
    with Cons.prems have "flag_Parse valid given (map_put flags name v) = None" by (simp add: g)
    from Cons.IH [OF this] False show ?thesis by (auto simp: map_of_put split: if_splits)
  qed (auto simp: g)
qed simp

text \<open>The flags before the environment is read, what it has for them, and what is refused.\<close>

definition flag_base :: "(string \<times> string) list \<Rightarrow> (string \<times> string) list" where
  "flag_base others = map_put (main_defaults @ others) ''log_dir'' ''./doorman_log_dir''"

definition env_value :: "(string \<Rightarrow> string) \<Rightarrow> string \<Rightarrow> string" where
  "env_value env name = env (flagToEnv ''DOORMAN'' name)"

definition refused_env :: "(string \<Rightarrow> string) \<Rightarrow> (string \<Rightarrow> string \<Rightarrow> bool) \<Rightarrow> string \<times> string \<Rightarrow> bool" where
  "refused_env env valid = (\<lambda>(name, v). env_value env name \<noteq> '''' \<and> \<not> valid name (env_value env name))"

definition refused_arg :: "(string \<Rightarrow> string \<Rightarrow> bool) \<Rightarrow> (string \<times> string) list \<Rightarrow> string \<times> string \<Rightarrow> bool" where
  "refused_arg valid flags = (\<lambda>(name, v). map_of flags name = None \<or> \<not> valid name v)"

definition populated :: "(string \<Rightarrow> string) \<Rightarrow> (string \<Rightarrow> string \<Rightarrow> bool) \<Rightarrow> (string \<times> string) list \<Rightarrow> (string \<times> string) list" where
  "populated env valid flags = map (\<lambda>(name, v).
     (name, if env_value env name \<noteq> '''' \<and> valid name (env_value env name) then env_value env name else v)) flags"

lemma map_of_populated:
  "map_of (populated env valid flags) name = map_option (\<lambda>v. if env_value env name \<noteq> '''' \<and> valid name (env_value env name)
     then env_value env name else v) (map_of flags name)"
  by (induction flags) (auto simp: populated_def)

text \<open>The events of the server's life among those of the process.\<close>

fun lives_of :: "process_event list \<Rightarrow> server_event list" where
  "lives_of [] = []"
| "lives_of (e # es) = (case e of Lives le \<Rightarrow> [le] | _ \<Rightarrow> []) @ lives_of es"

lemma lives_of_append [simp]: "lives_of (es @ es') = lives_of es @ lives_of es'"
  by (induction es) simp_all

lemma process_run_append:
  "process_run unmarshal run_err (es @ es') p = bind_panic (process_run unmarshal run_err es p) (\<lambda>r. case r of
     None \<Rightarrow> Inr None | Some p' \<Rightarrow> process_run unmarshal run_err es' p')"
proof (induction es arbitrary: p)
  case (Cons e es)
  show ?case
  proof (cases "process_step unmarshal run_err e p")
    case (Inr r)
    with Cons.IH show ?thesis by (cases r) simp_all
  qed simp
qed simp

definition process_ok :: "('f, 'err, 't) engine \<Rightarrow> ('f, 'err, 't) server_process \<Rightarrow> bool" where
  "process_ok parse p = (life_ok (sp_server p) \<and> page_ok parse (sp_page p) \<and>
     (sp_phase p = Serves \<longrightarrow> srv_isConfigured (sp_server p)))"

definition process_event_ok :: "(string \<Rightarrow> ResourceRepository option) \<Rightarrow> process_event \<Rightarrow> bool" where
  "process_event_ok unmarshal e = (case e of Lives le \<Rightarrow> event_ok unmarshal le | _ \<Rightarrow> True)"

lemma life_configured: "life_ok srv \<Longrightarrow> srv_isConfigured srv = (srv_config srv \<noteq> None)"
  by (auto simp: life_ok_def server_ok_def)

lemma life_step_configured:
  assumes "life_ok srv" and "event_ok unmarshal e"
  shows "\<exists>srv'. life_step unmarshal run_err e srv = Inr srv' \<and> life_ok srv' \<and> (srv_isConfigured srv \<longrightarrow> srv_isConfigured srv')"
proof -
  have "list_all (event_ok unmarshal) [e]" using assms(2) by simp
  from life_run_ok [OF assms(1) this, of run_err] obtain srv' where
    "life_run unmarshal run_err [e] srv = Inr srv'" "life_ok srv'" "srv_config srv \<noteq> None \<longrightarrow> srv_config srv' \<noteq> None"
    by (auto simp: Let_def)
  then show ?thesis using assms(1) by (cases "life_step unmarshal run_err e srv") (auto simp: life_configured)
qed

lemma process_step_ok:
  assumes "process_ok parse p" and "process_event_ok unmarshal e"
  shows "case process_step unmarshal run_err e p of
    Inl x \<Rightarrow> False | Inr None \<Rightarrow> True | Inr (Some p') \<Rightarrow> process_ok parse p' \<and>
      life_run unmarshal run_err (lives_of [e]) (sp_server p) = Inr (sp_server p')"
proof (cases e)
  case (Lives le)
  with life_step_configured [of "sp_server p" unmarshal le run_err] assms obtain srv' where
    "life_step unmarshal run_err le (sp_server p) = Inr srv'" "life_ok srv'"
    "srv_isConfigured (sp_server p) \<longrightarrow> srv_isConfigured srv'" by (auto simp: process_ok_def process_event_ok_def)
  with assms(1) Lives show ?thesis by (simp add: process_step_def process_ok_def)
next
  case (Listens err)
  with assms(1) show ?thesis by (auto simp: process_step_def process_ok_def split: option.splits)
next
  case (Collects now1 now2)
  have "server_ok (sp_server p)" using assms(1) by (simp add: process_ok_def life_ok_def)
  from server_Status_ok [OF this, of now1 now2] assms(1) Collects show ?thesis
    by (auto simp: process_step_def process_ok_def Collect_def Let_def)
qed

lemma process_run_ok:
  assumes "process_ok parse p" and "list_all (process_event_ok unmarshal) es"
  shows "case process_run unmarshal run_err es p of
    Inl x \<Rightarrow> False | Inr None \<Rightarrow> True | Inr (Some p') \<Rightarrow> process_ok parse p' \<and>
      life_run unmarshal run_err (lives_of es) (sp_server p) = Inr (sp_server p')"
  using assms
proof (induction es arbitrary: p)
  case (Cons e es)
  have e: "process_event_ok unmarshal e" using Cons.prems(2) by simp
  note step = process_step_ok [OF Cons.prems(1) e, of run_err]
  show ?case
  proof (cases "process_step unmarshal run_err e p")
    case (Inr r)
    show ?thesis
    proof (cases r)
      case (Some p1)
      with step Inr have p1: "process_ok parse p1" "life_run unmarshal run_err (lives_of [e]) (sp_server p) = Inr (sp_server p1)"
        by simp_all
      have "life_run unmarshal run_err (lives_of (e # es)) (sp_server p) = life_run unmarshal run_err (lives_of es) (sp_server p1)"
        using p1(2) by (cases e) auto
      with Cons.IH [OF p1(1)] Cons.prems(2) Inr Some show ?thesis
        by (simp del: lives_of.simps split: sum.splits option.splits)
    qed (simp add: Inr)
  qed (use step in simp)
qed simp

lemma Register_first: "\<exists>registry. server_init [] = Inr registry \<and> Register Describe registry \<noteq> None"
  by (simp add: server_init_def Register_def BuildFQName_def server_vecs_def Describe_def)

lemma server_main_New:
  assumes "server_main flags hn dial run_err ok registry = Inr (Inr (dm, election, source))"
  shows "\<exists>registry'. server_New (getServerID flags hn) (mf_parent flags) dial run_err registry = Inr (Inr (dm, True, registry'))"
proof (cases "server_New (getServerID flags hn) (mf_parent flags) dial run_err registry")
  case (Inl x)
  with assms show ?thesis by (simp add: server_main_def Let_def split: if_splits)
next
  case (Inr r)
  show ?thesis
  proof (cases r)
    case (Inl err)
    with Inr assms show ?thesis by (simp add: server_main_def Let_def split: if_splits)
  next
    case r: (Inr y)
    obtain dm' registered registry' where y: "y = (dm', registered, registry')" by (cases y)
    with Inr r assms show ?thesis
      by (simp add: server_main_def Let_def split_beta split: if_splits)
  qed
qed

lemma server_main_root:
  assumes "server_main flags hn dial run_err ok registry = Inr (Inr (dm, election, source))" and "mf_parent flags = ''''"
  shows "life_ok dm" and "srv_config dm = None" and "srv_handlers dm = 0"
proof -
  obtain registry' where new: "server_New (getServerID flags hn) '''' dial run_err registry = Inr (Inr (dm, True, registry'))"
    using server_main_New [OF assms(1)] assms(2) by auto
  have "NewIntermediate (getServerID flags hn) '''' dial run_err = Inr (Inr dm)"
  proof (cases "NewIntermediate (getServerID flags hn) '''' dial run_err")
    case (Inr r)
    with new show ?thesis by (cases r; cases "Register Describe registry") (simp_all add: server_New_def)
  qed (use new in \<open>simp add: server_New_def\<close>)
  then show "life_ok dm" "srv_config dm = None" "srv_handlers dm = 0"
    by (auto simp: NewIntermediate_def life_ok_def server_ok_def addresses_ok_def srv_lookup_def)
qed

lemma server_start_ok:
  assumes "engine_ok parse" and "mf_parent flags = ''''"
    and "server_start parse flags hn dial run_err ok = Inr (Inr (p, election, source))"
  shows "process_ok parse p" and "sp_phase p = Waits" and "srv_config (sp_server p) = None" and "srv_handlers (sp_server p) = 0"
proof -
  obtain page tmpl servers registry dm where s: "status_init parse = Inr page" "resourcez_init parse = Inr (tmpl, servers)"
    "server_main flags hn dial run_err ok registry = Inr (Inr (dm, election, source))"
    "p = \<lparr>sp_server = dm, sp_phase = Waits, sp_page = AddStatusPart parse ''Doorman'' statusz () page,
      sp_servers = length (AddServer servers dm), sp_test = Fin 0\<rparr>"
  proof -
    obtain page tmpl servers registry r where r: "status_init parse = Inr page" "resourcez_init parse = Inr (tmpl, servers)"
      "server_main flags hn dial run_err ok registry = Inr r"
      "(case r of Inl err \<Rightarrow> Inl err
        | Inr (dm, election, source) \<Rightarrow> Inr (\<lparr>sp_server = dm, sp_phase = Waits, sp_page = AddStatusPart parse ''Doorman'' statusz () page,
            sp_servers = length (AddServer servers dm), sp_test = Fin 0\<rparr>, election, source)) = Inr (p, election, source)"
      using assms(3) by (auto simp: server_start_def)
    with that show thesis by (cases r) auto
  qed
  have "page_ok parse page" using s(1) by (auto simp: status_init_def page_ok_def reparse_def split: sum.splits)
  with AddStatusPart_effect [OF assms(1) this] have "page_ok parse (AddStatusPart parse ''Doorman'' statusz () page)"
    by (simp add: plain_banner_def)
  with server_main_root [OF s(3) assms(2)] s(4)
  show "process_ok parse p" "sp_phase p = Waits" "srv_config (sp_server p) = None" "srv_handlers (sp_server p) = 0"
    by (simp_all add: process_ok_def)
qed

text \<open>What has been delivered when the process is configured.\<close>

lemma process_configured:
  assumes "engine_ok parse" and "mf_parent flags = ''''"
    and "server_start parse flags hn dial run_err ok = Inr (Inr (p, election, source))"
    and "list_all (process_event_ok unmarshal) es" and "process_run unmarshal run_err es p = Inr (Some p')"
  shows "process_ok parse p'" and "srv_isConfigured (sp_server p') = (valid_updates unmarshal (updates_of (lives_of es)) \<noteq> [])"
proof -
  note start = server_start_ok [OF assms(1-3)]
  from process_run_ok [OF start(1) assms(4), of run_err] assms(5) have p': "process_ok parse p'"
    "life_run unmarshal run_err (lives_of es) (sp_server p) = Inr (sp_server p')" by simp_all
  have "list_all (event_ok unmarshal) (lives_of es)"
    using assms(4) by (induction es) (auto simp: process_event_ok_def split: process_event.splits)
  from life_run_ok [OF _ this, of "sp_server p" run_err] start(1,3) p'
  show "process_ok parse p'" "srv_isConfigured (sp_server p') = (valid_updates unmarshal (updates_of (lives_of es)) \<noteq> [])"
    by (auto simp: process_ok_def life_configured Let_def)
qed

lemma pages_served:
  assumes "process_ok parse p"
  shows "\<exists>t data status. status_request binaryName hostname startTime now1 now2 p = Inr (t, data, status)"
    and "\<exists>data. resources_request now1 now2 resource p = Inr data"
proof -
  have ok: "server_ok (sp_server p)" "stp_Tmpl (sp_page p) \<noteq> None" using assms by (simp_all add: process_ok_def life_ok_def page_ok_def)
  from server_Status_ok [OF ok(1), of now1 now2] ok(2)
  show "\<exists>t data status. status_request binaryName hostname startTime now1 now2 p = Inr (t, data, status)"
    by (auto simp: status_request_def statusHandler_def)
  have "list_all server_ok (replicate (sp_servers p) (sp_server p))" using ok(1) by (simp add: list_all_iff)
  from resourcez_loop_ok [OF this] show "\<exists>data. resources_request now1 now2 resource p = Inr data"
    by (fastforce simp: resources_request_def resourcezHandler_def)
qed

lemma process_gets_to_serve:
  assumes "process_ok parse p" and "sp_phase p = Waits"
    and "unmarshal data = Some cfg" and "repo_valid cfg" and "repo_serviceable cfg"
  shows "\<exists>p'. process_run unmarshal run_err [Lives (Update (Some data)), Listens None] p = Inr (Some p') \<and> sp_phase p' = Serves \<and>
    srv_config (sp_server p') = Some cfg \<and> process_ok parse p'"
proof -
  have ok: "life_ok (sp_server p)" using assms(1) by (simp add: process_ok_def)
  have evs: "list_all (event_ok unmarshal) [Update (Some data)]" using assms(3-5) by (simp add: event_ok_def)
  have v: "valid_updates unmarshal [Some data] = [cfg]"
    using assms(3,4) by (simp add: valid_updates_def List.map_filter_simps)
  from life_run_ok [OF ok evs, of run_err] v obtain srv' where srv':
    "life_step unmarshal run_err (Update (Some data)) (sp_server p) = Inr srv'" "life_ok srv'" "srv_config srv' = Some cfg"
    by (auto simp: Let_def)
  then have "srv_isConfigured srv'" by (simp add: life_configured)
  with srv' assms(1,2) show ?thesis by (simp add: process_step_def is_call_def process_ok_def)
qed

section \<open>Properties\<close>

text \<open>The flags of the server program: it starts with the last value on the command line, else
  with the value in the environment, else with the default; and it ends at once if the directory of the logs
  cannot be made, if the environment has a value that a flag refuses, even for a flag that is given on
  the command line, or if the command line names an unknown flag or a refused value.\<close>

lemma flag_values:
  "case main_values mkdir_err others env valid given of
      Inl err \<Rightarrow> mkdir_err = Some err \<or> list_ex (refused_env env valid) (flag_base others) \<or>
        list_ex (refused_arg valid (flag_base others)) given
    | Inr flags \<Rightarrow> mkdir_err = None \<and> filter (refused_env env valid) (flag_base others) = [] \<and>
        (\<forall>name. map_of flags name = (case map_of (rev given) name of
             Some v \<Rightarrow> Some v
           | None \<Rightarrow> map_option (\<lambda>v. if env_value env name = '''' then v else env_value env name) (map_of (flag_base others) name)))"
proof (cases mkdir_err)
  case None
  let ?base = "flag_base others" and ?populated = "populated env valid (flag_base others)"
  have pop: "Populate ?base (\<lambda>name. False) env valid ''DOORMAN'' =
      (?populated, if filter (refused_env env valid) ?base = [] then None
        else Some (flagToEnv ''DOORMAN'' (fst (last (filter (refused_env env valid) ?base)))))"
    by (simp add: populate_sets env_value_def Let_def populated_def refused_env_def case_prod_unfold)
  show ?thesis
  proof (cases "filter (refused_env env valid) ?base = []")
    case True
    then have e: "env_value env name = '''' \<or> valid name (env_value env name)" if "map_of ?base name = Some v" for name v
      using map_of_SomeD [OF that] by (auto simp: filter_empty_conv refused_env_def)
    show ?thesis
    proof (cases "flag_Parse valid given ?populated")
      case p: None
      have "main_values mkdir_err others env valid given = Inl ''usage''"
        using pop True p None by (simp add: main_values_def flag_base_def)
      with flag_Parse_refuses [OF p] show ?thesis by (auto simp: list_ex_iff refused_arg_def map_of_populated)
    next
      case (Some flags)
      have "main_values mkdir_err others env valid given = Inr flags"
        using pop True Some None by (simp add: main_values_def flag_base_def)
      moreover have "map_of ?populated name =
          map_option (\<lambda>v. if env_value env name = '''' then v else env_value env name) (map_of ?base name)" for name
        using e [of name] by (cases "map_of ?base name") (auto simp: map_of_populated)
      ultimately show ?thesis using None True flag_Parse_values [OF Some] by (simp split: option.split)
    qed
  next
    case False
    then have "\<exists>key. main_values mkdir_err others env valid given = Inl key"
      using pop None by (simp add: main_values_def flag_base_def)
    moreover have "list_ex (refused_env env valid) ?base"
      using False by (auto simp: filter_empty_conv list_ex_iff)
    ultimately show ?thesis by auto
  qed
qed (simp add: main_values_def)

text \<open>C7. A root server that has started never serves without a configuration, under events in which every
  valid configuration is serviceable (each entry has a capacity or a safe capacity and an
  algorithm of a known kind) and no requested id
  has a slash; other events can make it panic (\<open>Server_Limits\<close>). Whatever
  else the source of configurations, the election and the callers do: these events do not make the
  process panic, every call that it takes comes after a valid configuration, the process serves only
  then, and its pages are answered all the time, before the first configuration too.\<close>

theorem serves_only_configured:
  assumes "engine_ok parse" and "mf_parent flags = ''''"
    and "server_start parse flags hn dial run_err ok = Inr (Inr (p, election, source))"
    and "list_all (process_event_ok unmarshal) es"
  shows "case process_run unmarshal run_err es p of
      Inl x \<Rightarrow> False
    | Inr None \<Rightarrow> True
    | Inr (Some p') \<Rightarrow>
        (sp_phase p' = Serves \<longrightarrow> valid_updates unmarshal (updates_of (lives_of es)) \<noteq> []) \<and>
        (\<forall>xs call ys. es = xs @ Lives call # ys \<longrightarrow> is_call call \<longrightarrow> valid_updates unmarshal (updates_of (lives_of xs)) \<noteq> []) \<and>
        (\<exists>t data status. status_request binaryName hostname startTime now1 now2 p' = Inr (t, data, status)) \<and>
        (\<exists>data. resources_request now1 now2 resource p' = Inr data)"
proof (cases "process_run unmarshal run_err es p")
  case (Inl x)
  with process_run_ok [OF server_start_ok(1) [OF assms(1-3)] assms(4), of run_err] show ?thesis by simp
next
  case (Inr r)
  show ?thesis
  proof (cases r)
    case (Some p')
    note run = Inr [unfolded Some]
    note conf = process_configured [OF assms run]
    have "valid_updates unmarshal (updates_of (lives_of xs)) \<noteq> []" if es: "es = xs @ Lives call # ys" and call: "is_call call" for xs call ys
    proof -
      from run obtain p1 where p1: "process_run unmarshal run_err xs p = Inr (Some p1)"
        "process_run unmarshal run_err (Lives call # ys) p1 = Inr (Some p')"
        by (auto simp: es process_run_append split: option.splits)
      have "list_all (process_event_ok unmarshal) xs" using assms(4) by (simp add: es)
      note conf1 = process_configured [OF assms(1-3) this p1(1)]
      have "sp_phase p1 = Serves" using p1(2) call by (auto simp: process_step_def split: if_splits)
      with conf1 show ?thesis by (simp add: process_ok_def)
    qed
    with conf pages_served [OF conf(1)] show ?thesis by (simp add: Inr Some process_ok_def)
  qed (simp add: Inr)
qed

text \<open>C8. A root server that waits gets to serve: if a valid configuration has been delivered, \<open>main\<close> can go on
  and listen, and if none has, it goes on waiting, and the next valid one lets it.\<close>

theorem configured_serves:
  assumes "engine_ok parse" and "mf_parent flags = ''''"
    and "server_start parse flags hn dial run_err ok = Inr (Inr (p, election, source))"
    and "list_all (process_event_ok unmarshal) es" and "process_run unmarshal run_err es p = Inr (Some p')" and "sp_phase p' = Waits"
    and "unmarshal data = Some cfg" and "repo_valid cfg" and "repo_serviceable cfg"
  shows "if valid_updates unmarshal (updates_of (lives_of es)) \<noteq> []
    then process_run unmarshal run_err [Listens None] p' = Inr (Some (p'\<lparr>sp_phase := Serves\<rparr>))
    else (\<forall>err. process_run unmarshal run_err [Listens err] p' = Inr None) \<and>
      (\<exists>p''. process_run unmarshal run_err [Lives (Update (Some data)), Listens None] p' = Inr (Some p'') \<and> sp_phase p'' = Serves \<and>
         srv_config (sp_server p'') = Some cfg)"
proof -
  note conf = process_configured [OF assms(1-5)]
  show ?thesis
  proof (cases "valid_updates unmarshal (updates_of (lives_of es)) = []")
    case False
    with conf(2) assms(6) show ?thesis by (simp add: process_step_def)
  next
    case True
    then have "process_run unmarshal run_err [Listens err] p' = Inr None" for err
      using conf(2) by (simp add: process_step_def)
    moreover note process_gets_to_serve [where unmarshal = unmarshal and data = data and run_err = run_err, OF conf(1) assms(6-9)]
    ultimately show ?thesis using True by auto
  qed
qed

text \<open>A server with a file as its source and no election, and an engine that takes every text.\<close>

definition plain_engine :: "(unit, string, string) engine" where
  "plain_engine funcs text = Inr text"

definition example_flags :: main_flags where
  "example_flags = \<lparr>mf_port = 6000, mf_parent = '''', mf_hostname = ''h'', mf_config = ''file:x'', mf_tls = False,
     mf_etcdEndpoints = '''', mf_masterDelay = 0, mf_masterElectionLock = ''''\<rparr>"

lemma plain_engine_ok: "engine_ok plain_engine"
  by (simp add: engine_ok_def plain_engine_def reparse_def)

lemma example_start:
  "\<exists>p election source. server_start plain_engine example_flags None (Inl '''') None False = Inr (Inr (p, election, source))"
proof -
  have "\<exists>page. status_init plain_engine = Inr page" by (simp add: status_init_def plain_engine_def)
  moreover have "\<exists>r. resourcez_init plain_engine = Inr r" by (simp add: resourcez_init_def plain_engine_def)
  moreover obtain registry where r: "server_init [] = Inr registry" "Register Describe registry \<noteq> None"
    using Register_first by blast
  then have "\<exists>dm election source. server_main example_flags None (Inl '''') None False registry = Inr (Inr (dm, election, source))"
    by (auto simp: server_main_def server_New_def NewIntermediate_def example_flags_def ParseSource_def SplitN2_def)
  ultimately show ?thesis using r(1) by (force simp: server_start_def)
qed

lemma example_served:
  obtains p election source p' where
    "server_start plain_engine example_flags None (Inl '''') None False = Inr (Inr (p, election, source))"
    "process_run example_unmarshal None [Lives (Update (Some ''good'')), Listens None, Lives (CapacityCall [] example_query)] p
      = Inr (Some p')" "sp_phase p' = Serves" "sp_phase p = Waits"
proof -
  obtain p election source where p: "server_start plain_engine example_flags None (Inl '''') None False = Inr (Inr (p, election, source))"
    using example_start by blast
  have root: "mf_parent example_flags = ''''" by (simp add: example_flags_def)
  note start = server_start_ok [OF plain_engine_ok root p]
  obtain p1 where p1: "process_run example_unmarshal None [Lives (Update (Some ''good'')), Listens None] p = Inr (Some p1)"
    "sp_phase p1 = Serves" "process_ok plain_engine p1"
    using process_gets_to_serve [OF start(1,2) _ example_repo_ok, of example_unmarshal "''good''" None] by (auto simp: example_unmarshal_def)
  have "event_ok example_unmarshal (CapacityCall [] example_query)"
    by (simp add: event_ok_def plain_ids_def requested_def example_query_def ask_def ResourceRequest_GetResourceId_def)
  then obtain srv where "life_step example_unmarshal None (CapacityCall [] example_query) (sp_server p1) = Inr srv"
    using life_step_configured [of "sp_server p1" example_unmarshal "CapacityCall [] example_query" None] p1(3) by (auto simp: process_ok_def)
  then have "process_run example_unmarshal None ([Lives (Update (Some ''good'')), Listens None] @ [Lives (CapacityCall [] example_query)]) p
      = Inr (Some (p1\<lparr>sp_server := srv\<rparr>))"
    unfolding process_run_append p1(1) using p1(2) by (simp add: process_step_def)
  with that [OF p _ _ start(2)] p1(2) show thesis by simp
qed

theorem serves_only_configured_witness:
  "\<exists>(p :: (unit, string, string) server_process) p'. process_run example_unmarshal None
      [Lives (Update (Some ''good'')), Listens None, Lives (CapacityCall [] example_query)] p = Inr (Some p') \<and>
     sp_phase p = Waits \<and> sp_phase p' = Serves \<and> valid_updates example_unmarshal [Some ''good''] \<noteq> [] \<and>
     (\<exists>t data status. status_request ''doorman'' ''h'' ''now'' 20 30 p' = Inr (t, data, status))"
proof -
  let ?es = "[Lives (Update (Some ''good'')), Listens None, Lives (CapacityCall [] example_query)]"
  obtain p p' :: "(unit, string, string) server_process" and election source where
    p: "server_start plain_engine example_flags None (Inl '''') None False = Inr (Inr (p, election, source))"
      "process_run example_unmarshal None ?es p = Inr (Some p')" "sp_phase p' = Serves" "sp_phase p = Waits"
    by (rule example_served)
  have root: "mf_parent example_flags = ''''" by (simp add: example_flags_def)
  have ok: "list_all (process_event_ok example_unmarshal) ?es"
    using example_repo_ok by (simp add: process_event_ok_def event_ok_def example_unmarshal_def plain_ids_def requested_def
        example_query_def ask_def ResourceRequest_GetResourceId_def)
  have served: "(sp_phase p' = Serves \<longrightarrow> valid_updates example_unmarshal (updates_of (lives_of ?es)) \<noteq> []) \<and>
      (\<exists>t data status. status_request ''doorman'' ''h'' ''now'' 20 30 p' = Inr (t, data, status))"
    using serves_only_configured [where run_err = None and binaryName = "''doorman''" and hostname = "''h''" and startTime = "''now''"
        and ?now1.0 = 20 and ?now2.0 = 30, OF plain_engine_ok root p(1) ok]
    unfolding p(2) by simp
  with p(2-4) show ?thesis by (intro exI [of _ p] exI [of _ p']) simp
qed

theorem configured_serves_witness:
  "\<exists>(p :: (unit, string, string) server_process) p''. sp_phase p = Waits \<and>
     (\<forall>err. process_run example_unmarshal None [Listens err] p = Inr None) \<and>
     process_run example_unmarshal None [Lives (Update (Some ''good'')), Listens None] p = Inr (Some p'') \<and> sp_phase p'' = Serves"
proof -
  obtain p :: "(unit, string, string) server_process" and election source where
    p: "server_start plain_engine example_flags None (Inl '''') None False = Inr (Inr (p, election, source))"
    using example_start by blast
  have root: "mf_parent example_flags = ''''" by (simp add: example_flags_def)
  have waits: "sp_phase p = Waits" by (rule server_start_ok(2) [OF plain_engine_ok root p])
  have none: "valid_updates example_unmarshal (updates_of (lives_of [])) = []" by (simp add: valid_updates_def List.map_filter_simps)
  have good: "example_unmarshal ''good'' = Some example_repo" by (simp add: example_unmarshal_def)
  have "list_all (process_event_ok example_unmarshal) []" "process_run example_unmarshal None [] p = Inr (Some p)" by simp_all
  from configured_serves [OF plain_engine_ok root p this waits good example_repo_ok] none waits show ?thesis by auto
qed

end
