(* ===== verification/Server_File.thy ===== *)
theory Server_File
  imports Server_Tree Server_Life
begin

text \<open>
  The two sources of an intermediate server's configuration: what its parent grants
  (\<open>handle_reply\<close>, \<open>go/server/doorman/server.go\<close>) and the file or etcd key that its configuration
  loop follows (\<open>config_step\<close>, \<open>go/cmd/doorman/doorman_server.go\<close>). Both end in \<open>LoadConfig\<close>, and the
  later one wins, also when the configuration gives more than the parent granted.
\<close>

section \<open>Lemmas\<close>

text \<open>What a server may hand out of a resource after a reply, from the reply.\<close>

definition reply_capacity :: "ServerCapacityResourceResponse list \<Rightarrow> string \<Rightarrow> time \<Rightarrow> f64" where
  "reply_capacity prs i now =
     (case find (\<lambda>pr. ServerCapacityResourceResponse_GetResourceId (Some pr) = i) prs of
        None \<Rightarrow> Fin 0
      | Some pr \<Rightarrow> if Before (Unix (Lease_GetExpiryTime (scp_Gets pr))) now then Fin 0
                   else Lease_GetCapacity (scp_Gets pr))"

lemma handle_reply_capacity:
  assumes "server_ok srv" and "srv_config srv \<noteq> None" and "srv_conn srv = Some minimum"
    and "list_all (usable srv) (gsp_Response out)"
    and "distinct (map (\<lambda>pr. ServerCapacityResourceResponse_GetResourceId (Some pr)) (gsp_Response out))"
    and "\<forall>i a. srv_lookup srv i = Some a \<longrightarrow> CHR ''/'' \<notin> set i \<and> i \<noteq> ''*''"
  shows "\<exists>srv' interval. handle_reply run_err srv retryNumber (Some out) = Inr (srv', Some interval, 0) \<and>
    server_ok srv' \<and> srv_config srv' \<noteq> None \<and> srv_conn srv' = srv_conn srv \<and>
    srv_resources srv' = srv_resources srv \<and>
    (\<forall>i a now. srv_lookup srv i = Some a \<longrightarrow>
       resource_capacity (srv_heap srv' ! a) now = reply_capacity (gsp_Response out) i now)"
proof -
  let ?g = "\<lambda>i. find (\<lambda>pr. ServerCapacityResourceResponse_GetResourceId (Some pr) = i) (gsp_Response out)"
  have gets: "scp_Gets pr = ServerCapacityResourceResponse_GetGets (Some pr)" for pr
    by (simp add: ServerCapacityResourceResponse_GetGets_def)
  obtain srv' interval where h: "handle_reply run_err srv retryNumber (Some out) = Inr (srv', Some interval, 0)"
    "server_ok srv'" "srv_resources srv' = srv_resources srv" "srv_conn srv' = srv_conn srv" "srv_config srv' \<noteq> None"
    "\<And>i a. srv_lookup srv i = Some a \<Longrightarrow>
      res_config (srv_heap srv' ! a) = Some (case ?g i of None \<Rightarrow> defaultResourceTemplate | Some pr \<Rightarrow> granted_template pr) \<and>
      res_expiryTime (srv_heap srv' ! a) = map_option (\<lambda>pr. Unix (Lease_GetExpiryTime (scp_Gets pr))) (?g i)"
    using handle_reply_grants [OF assms, of run_err retryNumber] unfolding Let_def by blast
  have "resource_capacity (srv_heap srv' ! a) now = reply_capacity (gsp_Response out) i now"
    if "srv_lookup srv i = Some a" for i a now
    using h(6) [OF that]
    by (cases "?g i") (simp_all add: resource_capacity_def reply_capacity_def ResourceTemplate_GetCapacity_def
        granted_template_def defaultResourceTemplate_def gets)
  with h(1-5) show ?thesis by blast
qed

text \<open>A configuration that the loop loads: every resource follows the entry of the configuration
  that is selected for it, without an expiry time.\<close>

lemma config_step_capacity:
  assumes "server_ok srv" and "srv_config srv \<noteq> None"
    and "unmarshal data = Some cfg" and "repo_valid cfg" and "loadable srv cfg"
  shows "\<exists>srv'. config_step unmarshal run_err srv (Some data) = Inr srv' \<and>
    server_ok srv' \<and> srv_config srv' = Some cfg \<and> srv_conn srv' = srv_conn srv \<and>
    srv_resources srv' = srv_resources srv \<and>
    (\<forall>i a. srv_lookup srv i = Some a \<longrightarrow>
       (\<exists>k. selected (repo_Resources cfg) i k \<and> (\<forall>now. resource_capacity (srv_heap srv' ! a) now =
          ResourceTemplate_GetCapacity (Some (repo_Resources cfg ! k)))))"
proof -
  have serv: "repo_serviceable cfg" using assms(5) by (simp add: loadable_def)
  have cov: "list_all (\<lambda>(i, a). covered (repo_Resources cfg) i) m" if "srv_resources srv = Some m" for m
    using assms(5) that by (simp add: loadable_def)
  obtain heap where h: "server_LoadConfig run_err srv cfg [] = Inr (srv\<lparr>srv_config := Some cfg, srv_heap := heap\<rparr>, None)"
    "server_ok (srv\<lparr>srv_config := Some cfg, srv_heap := heap\<rparr>)"
    "\<forall>i a. srv_lookup srv i = Some a \<longrightarrow> reloaded cfg [] i (srv_heap srv ! a) (heap ! a)"
    using server_LoadConfig_next [OF assms(1,2,4) serv cov, of run_err "[]"] by blast
  have "config_step unmarshal run_err srv (Some data) = Inr (srv\<lparr>srv_config := Some cfg, srv_heap := heap\<rparr>)"
    using h(1) assms(3) by (simp add: config_step_def)
  moreover have "\<exists>k. selected (repo_Resources cfg) i k \<and> (\<forall>now. resource_capacity (heap ! a) now =
      ResourceTemplate_GetCapacity (Some (repo_Resources cfg ! k)))"
    if "srv_lookup srv i = Some a" for i a
    using h(3) that by (force simp: reloaded_def list_ex_iff resource_capacity_def)
  ultimately show ?thesis using h(2) by auto
qed

section \<open>Properties\<close>

text \<open>C39. A configuration that an intermediate server's own source delivers wins over what the
  parent granted, until the next reply: after a good reply a resource's capacity is the granted one
  up to the granted time (and zero when nothing was granted); after the configuration it is
  that of the entry selected for the resource, for ever; after the same reply again it is the
  granted one.\<close>

theorem file_overrides_grant:
  assumes "server_ok child" and "srv_config child \<noteq> None" and "srv_conn child = Some minimum"
    and "list_all (usable child) (gsp_Response out)"
    and "distinct (map (\<lambda>pr. ServerCapacityResourceResponse_GetResourceId (Some pr)) (gsp_Response out))"
    and "\<forall>i a. srv_lookup child i = Some a \<longrightarrow> CHR ''/'' \<notin> set i \<and> i \<noteq> ''*''"
    and "unmarshal data = Some cfg" and "repo_valid cfg" and "loadable child cfg"
    and "srv_lookup child i = Some a"
  shows "\<exists>granted filed again d e k.
    handle_reply run_err child retryNumber (Some out) = Inr (granted, Some d, 0) \<and>
    config_step unmarshal run_err granted (Some data) = Inr filed \<and>
    handle_reply run_err filed 0 (Some out) = Inr (again, Some e, 0) \<and>
    selected (repo_Resources cfg) i k \<and>
    (\<forall>now. resource_capacity (srv_heap granted ! a) now = reply_capacity (gsp_Response out) i now \<and>
       resource_capacity (srv_heap filed ! a) now = ResourceTemplate_GetCapacity (Some (repo_Resources cfg ! k)) \<and>
       resource_capacity (srv_heap again ! a) now = reply_capacity (gsp_Response out) i now)"
proof -
  have same: "srv_lookup s = srv_lookup child" if "srv_resources s = srv_resources child" for s
    by (rule ext) (simp add: srv_lookup_def that)
  obtain granted d where g: "handle_reply run_err child retryNumber (Some out) = Inr (granted, Some d, 0)"
    "server_ok granted" "srv_config granted \<noteq> None" "srv_conn granted = srv_conn child"
    "srv_resources granted = srv_resources child"
    "\<forall>now. resource_capacity (srv_heap granted ! a) now = reply_capacity (gsp_Response out) i now"
    using handle_reply_capacity [OF assms(1-6), of run_err retryNumber] assms(10) by blast
  have "loadable granted cfg" using assms(9) g(5) by (simp add: loadable_def)
  from config_step_capacity [where unmarshal = unmarshal and run_err = run_err and data = data, OF g(2,3) assms(7,8) this] assms(10) same [OF g(5)]
  obtain filed k where f: "config_step unmarshal run_err granted (Some data) = Inr filed" "server_ok filed"
    "srv_config filed \<noteq> None" "srv_conn filed = srv_conn granted" "srv_resources filed = srv_resources granted"
    "selected (repo_Resources cfg) i k" "\<forall>now. resource_capacity (srv_heap filed ! a) now =
      ResourceTemplate_GetCapacity (Some (repo_Resources cfg ! k))"
    by force
  note lk = same [of filed, unfolded f(5), OF g(5)]
  have "list_all (usable filed) (gsp_Response out)" using assms(4) unfolding usable_def lk .
  from handle_reply_capacity [OF f(2,3) _ this assms(5), of minimum run_err 0] assms(3,6,10) f(4) g(4) lk
  obtain again e where "handle_reply run_err filed 0 (Some out) = Inr (again, Some e, 0)"
    "\<forall>now. resource_capacity (srv_heap again ! a) now = reply_capacity (gsp_Response out) i now"
    by auto
  with g(1,6) f(1,6,7) show ?thesis by blast
qed

theorem file_overrides_grant_witness:
  "\<exists>granted filed again d e.
    handle_reply None (example_child ''r'') 3 (Some \<lparr>gsp_Response = [example_grant ''r''], gsp_Mastership = None\<rparr>) =
      Inr (granted, Some d, 0) \<and>
    config_step example_unmarshal None granted (Some ''good'') = Inr filed \<and>
    handle_reply None filed 0 (Some \<lparr>gsp_Response = [example_grant ''r''], gsp_Mastership = None\<rparr>) = Inr (again, Some e, 0) \<and>
    resource_capacity (srv_heap granted ! 0) (Unix 100) = Fin 55 \<and> resource_capacity (srv_heap granted ! 0) (Unix 101) = Fin 0 \<and>
    resource_capacity (srv_heap filed ! 0) (Unix 101) = Fin 100"
proof -
  let ?r = "''r''"
  let ?out = "\<lparr>gsp_Response = [example_grant ?r], gsp_Mastership = None\<rparr>"
  have use: "list_all (usable (example_child ?r)) (gsp_Response ?out)"
    using example_grant_usable [of ?r] by (simp add: plain_def)
  have conf: "srv_config (example_child ?r) \<noteq> None" "srv_conn (example_child ?r) = Some (seconds 5)"
    by (simp_all add: example_child_def example_server_def)
  have names: "\<forall>i a. srv_lookup (example_child ?r) i = Some a \<longrightarrow> CHR ''/'' \<notin> set i \<and> i \<noteq> ''*''"
    by (simp add: example_child_lookup)
  have load: "loadable (example_child ?r) example_repo"
    using example_repo_ok(2) example_covered [of ?r]
    by (simp add: loadable_def example_child_def example_server_def)
  have un: "example_unmarshal ''good'' = Some example_repo" by (simp add: example_unmarshal_def)
  from file_overrides_grant [where unmarshal = example_unmarshal and data = "''good''" and run_err = None
      and retryNumber = 3 and i = ?r and a = 0, OF example_child_ok conf use _ names un example_repo_ok(1) load]
  obtain granted filed again d e k where
    "handle_reply None (example_child ?r) 3 (Some ?out) = Inr (granted, Some d, 0)"
    "config_step example_unmarshal None granted (Some ''good'') = Inr filed"
    "handle_reply None filed 0 (Some ?out) = Inr (again, Some e, 0)"
    and k: "selected (repo_Resources example_repo) ?r k"
    and c: "\<And>now. resource_capacity (srv_heap granted ! 0) now = reply_capacity (gsp_Response ?out) ?r now"
      "\<And>now. resource_capacity (srv_heap filed ! 0) now = ResourceTemplate_GetCapacity (Some (repo_Resources example_repo ! k))"
    by (auto simp: example_child_lookup)
  moreover have "k = 0"
    using k by (cases k) (auto simp: selected_def example_repo_def literal_match_def example_template_def
        ResourceTemplate_GetIdentifierGlob_def)
  then have "resource_capacity (srv_heap filed ! 0) (Unix 101) = Fin 100"
    by (simp add: c(2) example_repo_def example_template_def ResourceTemplate_GetCapacity_def)
  moreover have "resource_capacity (srv_heap granted ! 0) (Unix 100) = Fin 55"
    "resource_capacity (srv_heap granted ! 0) (Unix 101) = Fin 0"
    by (simp_all add: c(1) reply_capacity_def example_grant_def ServerCapacityResourceResponse_GetResourceId_def
        Lease_GetExpiryTime_def Lease_GetCapacity_def Unix_def Before_def)
  ultimately show ?thesis by blast
qed

end
