(* ===== verification/Shell_Main.thy ===== *)
theory Shell_Main
  imports Shell_Props Client_Api Status_Pages
begin

text \<open>
  The program of the shell (\<open>main\<close> in \<open>go/cmd/doorman_shell/doorman_shell.go\<close>): its flags, the loop that reads
  and evaluates lines while the goroutines of the clients go on, what it prints, and how it ends. The
  line editor, the splitting of a line into words (\<open>shlex\<close>), TLS, and the formatting of strings and
  floats are arguments.
\<close>

section \<open>The code\<close>

record shell_flags =
  sf_port :: int
  sf_server :: string
  sf_caFile :: string

definition shell_help :: string where
  \<open>shell_help = lines_of [ '''',
     '''', ''This program allows you to interact with a Doorman service. A'',
     ''successfull command outputs nothing, a failing command will output the'', ''error.'', '''',
     ''Supported commands:'', '''', ''get CLIENT RESOURCE CAPACITY'', '''',
     ''  Request CAPACITY of RESOURCE for client. Requesting CAPACITY doesn'' @ [CHR 0x27] @ ''t'',
     ''  guarantee receiving it. Call "show" to see the current assingments.'', '''', ''release CLIENT RESOURCE'',
     ''  '', ''  Release any capacity for RESOURCE held by client.'', '''', ''show'', '''',
     ''  Show assignments for known client/resource pairs. Note that due to'',
     ''  the asynchronous nature of the Doorman API you may not see the'', ''  requested assignments immediately.'',
     '''', ''master'', '''', ''  Shows the current Doorman master for each client.'', '''', ''help'', ''  '',
     ''  Show this information.'']\<close>

datatype printed = Stdout string | Stderr string

text \<open>How the program is started: \<open>creds\<close> and \<open>editor\<close> are the errors of loading the certificate and of making
  the line editor. It exits with a message, or has a multiclient, the dial option for TLS, and
  whether it serves metrics.\<close>

definition shell_begin :: "shell_flags \<Rightarrow> string option \<Rightarrow> string option \<Rightarrow> printed + Multiclient \<times> bool \<times> bool" where
  "shell_begin flags creds editor =
     (if sf_server flags = '''' then Inl (Stderr ''--server cannot be empty.'')
      else if sf_caFile flags \<noteq> '''' \<and> creds \<noteq> None then Inl (Stderr (''Failed to create TLS credentials '' @ the creds))
      else (case editor of
          Some err \<Rightarrow> Inl (Stdout (''ERROR: '' @ err))
        | None \<Rightarrow> Inr (new_multiclient, sf_caFile flags \<noteq> '''', sf_port flags \<noteq> 0)))"

text \<open>What a command prints. \<open>conns\<close> are the connections of the clients, \<open>quote\<close> and \<open>show_float\<close> the formats
  \<open>%q\<close> and \<open>%v\<close>.\<close>

definition show_error :: "(client_error \<Rightarrow> string) \<Rightarrow> shell_error \<Rightarrow> string" where
  "show_error client_message e = (case e of
       ConnectFailed \<Rightarrow> ''connection failed'' | ClientError c \<Rightarrow> client_message c | Message s \<Rightarrow> s)"

definition print_result :: "(string \<Rightarrow> Connection option) \<Rightarrow> (string \<Rightarrow> string) \<Rightarrow> (f64 \<Rightarrow> string) \<Rightarrow> (client_error \<Rightarrow> string)
    \<Rightarrow> shell_result \<Rightarrow> printed list" where
  "print_result conns quote show_float client_message r = (case r of
       Done \<Rightarrow> []
     | Shown as \<Rightarrow> map (\<lambda>a. Stdout (''client: '' @ quote (sk_client (as_key a)) @ newline @ ''resource: '' @ quote (sk_resource (as_key a)) @
         newline @ ''capacity: '' @ show_float (as_capacity a) @ newline @ newline)) as
     | Masters cs \<Rightarrow> map (\<lambda>(i, c). Stdout (i @ '': '' @ client_GetMaster (conns i) @ newline)) cs
     | Helped \<Rightarrow> [Stderr (shell_help @ newline)]
     | Failed e \<Rightarrow> [Stderr (''ERROR: '' @ show_error client_message e @ newline)]
     | EOF \<Rightarrow> [])"

text \<open>What happens while the program reads: a line, with the error that the editor gives along with it
  (an interrupt), the end of the input, or a step of a goroutine.\<close>

datatype shell_input = Reads string "string option" answers | EndOfInput | PollStep shell_key
  | ClientRound string time int64 "GetCapacityResponse option"

text \<open>An error of the editor or of the splitting is printed, and what was read is evaluated all the
  same. \<open>False\<close> means that the loop has ended.\<close>

definition print_err :: "string option \<Rightarrow> printed list" where
  "print_err err = (case err of None \<Rightarrow> [] | Some e \<Rightarrow> [Stderr (''ERROR: '' @ e @ newline)])"

definition input_step :: "(string \<Rightarrow> string list \<times> string option) \<Rightarrow> (string \<Rightarrow> f64 option) \<Rightarrow> (string \<Rightarrow> Options option)
    \<Rightarrow> (shell_result \<Rightarrow> printed list) \<Rightarrow> shell_input \<Rightarrow> Multiclient \<Rightarrow> shell_stop + Multiclient \<times> printed list \<times> bool" where
  "input_step split parse_float dial print e m = (case e of
       Reads data err answers \<Rightarrow> (let (command, split_err) = split data
         in bind_stop (shell_Eval answers parse_float dial m command) (\<lambda>(m', r).
              Inr (m', print_err err @ print_err split_err @ print r, r \<noteq> EOF)))
     | EndOfInput \<Rightarrow> Inr (m, [], False)
     | PollStep k \<Rightarrow> bind_stop (shell_step parse_float dial (Poll k) m) (\<lambda>m'. Inr (m', [], True))
     | ClientRound i now retryNumber reply \<Rightarrow>
         bind_stop (shell_step parse_float dial (Round i now retryNumber reply) m) (\<lambda>m'. Inr (m', [], True)))"

fun input_loop :: "(string \<Rightarrow> string list \<times> string option) \<Rightarrow> (string \<Rightarrow> f64 option) \<Rightarrow> (string \<Rightarrow> Options option)
    \<Rightarrow> (shell_result \<Rightarrow> printed list) \<Rightarrow> shell_input list \<Rightarrow> Multiclient \<Rightarrow> shell_stop + Multiclient \<times> printed list \<times> bool" where
  "input_loop split parse_float dial print [] m = Inr (m, [], True)"
| "input_loop split parse_float dial print (e # es) m =
     bind_stop (input_step split parse_float dial print e m) (\<lambda>(m', out, goes_on).
       if \<not> goes_on then Inr (m', out, False)
       else bind_stop (input_loop split parse_float dial print es m') (\<lambda>(m'', outs, goes_on'). Inr (m'', out @ outs, goes_on')))"

text \<open>The whole program; when the loop has ended, the deferred \<open>Close\<close> runs, whose calls are answered as the last argument says. The result is what was printed
  and whether the program has ended.\<close>

definition shell_program :: "shell_flags \<Rightarrow> string option \<Rightarrow> string option \<Rightarrow> (string \<Rightarrow> string list \<times> string option) \<Rightarrow> (string \<Rightarrow> f64 option)
    \<Rightarrow> (string \<Rightarrow> Options option) \<Rightarrow> (shell_result \<Rightarrow> printed list) \<Rightarrow> shell_input list \<Rightarrow> answers \<Rightarrow> shell_stop + printed list \<times> bool" where
  "shell_program flags creds editor split parse_float dial print es answers = (case shell_begin flags creds editor of
       Inl out \<Rightarrow> Inr ([out], True)
     | Inr (m, tls, metrics) \<Rightarrow>
         bind_stop (input_loop split parse_float dial print es m) (\<lambda>(m', outs, goes_on).
           if goes_on then Inr (outs, False) else bind_stop (shell_Close answers m') (\<lambda>m''. Inr (outs, True))))"

section \<open>Properties\<close>

text \<open>The input ends the program at its end, or at a line that is split to one of the words for quitting.\<close>

definition ends_program :: "(string \<Rightarrow> string list \<times> string option) \<Rightarrow> shell_input \<Rightarrow> bool" where
  "ends_program split e = (case e of
       EndOfInput \<Rightarrow> True
     | Reads data err answers \<Rightarrow> (case fst (split data) of [] \<Rightarrow> False | head # tail \<Rightarrow> head \<in> {''quit'', ''q'', ''bye''})
     | _ \<Rightarrow> False)"

lemma Eval_EOF:
  assumes "shell_Eval answers parse_float dial m command = Inr (m', r)"
  shows "r = EOF \<longleftrightarrow> (case command of [] \<Rightarrow> False | head # tail \<Rightarrow> head \<in> {''quit'', ''q'', ''bye''})"
  using assms by (auto simp: shell_Eval_def Let_def split_beta split: list.splits if_splits option.splits)

text \<open>The input waits for a call that is not answered.\<close>

definition stuck_input :: "shell_stop \<Rightarrow> shell_input \<Rightarrow> bool" where
  "stuck_input stop e = (case (stop, e) of
       (WaitsFor i call, Reads data err answers) \<Rightarrow> \<not> answers i call
     | _ \<Rightarrow> False)"

lemma input_step_ok:
  assumes "shell_ok m"
  shows "case input_step split parse_float dial print e m of
      Inl stop \<Rightarrow> stuck_input stop e
    | Inr (m', out, goes_on) \<Rightarrow> goes_on = (\<not> ends_program split e) \<and> shell_ok m'"
proof (cases e)
  case (Reads data err answers)
  obtain command split_err where s: "split data = (command, split_err)" by force
  note ok = shell_Eval_ok [OF assms, of answers parse_float dial command]
  show ?thesis
  proof (cases "shell_Eval answers parse_float dial m command")
    case (Inl stop)
    with ok(1) show ?thesis by (auto simp: input_step_def Reads s only_waits_def stuck_input_def)
  next
    case (Inr x)
    obtain m' r where x: "x = (m', r)" by force
    from Eval_EOF [OF Inr [unfolded x]] ok(2) Inr show ?thesis
      by (auto simp: input_step_def Reads s ends_program_def x split: list.splits)
  qed
next
  case (PollStep k)
  with shell_step_ok [OF assms, where e = "Poll k" and parse_float = parse_float and dial = dial] show ?thesis
    by (cases "shell_step parse_float dial (Poll k) m") (auto simp: input_step_def ends_program_def unanswered_def)
next
  case (ClientRound i now n reply)
  with shell_step_ok [OF assms, where e = "Round i now n reply" and parse_float = parse_float and dial = dial] show ?thesis
    by (cases "shell_step parse_float dial (Round i now n reply) m") (auto simp: input_step_def ends_program_def unanswered_def)
qed (use assms in \<open>simp add: input_step_def ends_program_def\<close>)

lemma input_loop_ok:
  "shell_ok m \<Longrightarrow> case input_loop split parse_float dial print es m of
      Inl stop \<Rightarrow> list_ex (stuck_input stop) es
    | Inr (m', outs, goes_on) \<Rightarrow> goes_on = (\<not> list_ex (ends_program split) es) \<and> shell_ok m'"
proof (induction es arbitrary: m)
  case (Cons e es)
  show ?case
  proof (cases "input_step split parse_float dial print e m")
    case (Inl stop)
    with input_step_ok [OF Cons.prems, where split = split and parse_float = parse_float and dial = dial and print = print and e = e] show ?thesis by simp
  next
    case (Inr x)
    obtain m1 out goes_on where x: "x = (m1, out, goes_on)" by (metis prod_cases3)
    have 1: "goes_on = (\<not> ends_program split e)" "shell_ok m1"
      using input_step_ok [OF Cons.prems, where split = split and parse_float = parse_float and dial = dial and print = print and e = e] Inr x by simp_all
    show ?thesis
    proof (cases "ends_program split e")
      case False
      with Cons.IH [OF 1(2)] Inr x 1(1) show ?thesis
        by (cases "input_loop split parse_float dial print es m1") auto
    qed (use 1 Inr x in simp)
  qed
qed simp

text \<open>The program of the shell never panics, whatever is typed and whatever the clients' goroutines do
  meanwhile. Unless it waits for a call that is not answered, it ends, with all resources released
  and all clients closed, exactly if it could not be started or its input has an end or one of the
  words for quitting.\<close>

lemma shell_program_ends:
  "case shell_program flags creds editor split parse_float dial print es answers of
     Inl stop \<Rightarrow> list_ex (stuck_input stop) es \<or> (\<exists>i call. stop = WaitsFor i call \<and> \<not> answers i call)
   | Inr (outs, ended) \<Rightarrow>
       ended = (case shell_begin flags creds editor of Inl out \<Rightarrow> True | Inr m \<Rightarrow> list_ex (ends_program split) es)"
proof (cases "shell_begin flags creds editor")
  case (Inr r)
  then obtain tls metrics where r: "r = (new_multiclient, tls, metrics)"
    by (auto simp: shell_begin_def split: if_splits option.splits)
  show ?thesis
  proof (cases "input_loop split parse_float dial print es new_multiclient")
    case (Inl stop)
    with input_loop_ok [OF shell_ok_new, where split = split and parse_float = parse_float and dial = dial and print = print and es = es] show ?thesis
      by (simp add: shell_program_def Inr r)
  next
    case (Inr x)
    obtain m outs goes_on where x: "x = (m, outs, goes_on)" by (metis prod_cases3)
    have m: "goes_on = (\<not> list_ex (ends_program split) es)" "shell_ok m"
      using input_loop_ok [OF shell_ok_new, where split = split and parse_float = parse_float and dial = dial and print = print and es = es] Inr x by simp_all
    from shell_Close_ok(1) [OF m(2), of answers] m(1) Inr x \<open>shell_begin flags creds editor = _\<close> r show ?thesis
      by (cases "shell_Close answers m") (auto simp: shell_program_def only_waits_def)
  qed
qed (simp add: shell_program_def)

text \<open>What the help promises: a command that succeeds prints nothing, apart from those that are for
  printing, and one that fails prints its error.\<close>

lemma quiet_success:
  assumes "shell_Eval answers parse_float dial m command = Inr (m', r)"
  shows "case print_result conns quote show_float client_message r of
      [] \<Rightarrow> (case r of Failed e \<Rightarrow> False | _ \<Rightarrow> True)
    | out # outs \<Rightarrow> (case r of Failed e \<Rightarrow> outs = [] \<and> out = Stderr (''ERROR: '' @ show_error client_message e @ newline)
        | _ \<Rightarrow> hd command \<in> {''show'', ''master'', ''help''})"
  using assms by (auto simp: shell_Eval_def print_result_def Let_def split_beta split: list.splits if_splits option.splits shell_result.splits)

end
