(* ===== verification/Overlap_Races.thy ===== *)
theory Overlap_Races
  imports Overlap_Capacity
begin

text \<open>
  Critical sections that take time. In \<open>Server_Overlap\<close> every action of a handler is a single step.
  That is right as long as actions that touch the same memory exclude each other by a mutex, and
  three places of \<open>go/server/doorman/server.go\<close> do not see to that: \<open>ReleaseCapacity\<close> changes stores
  without the mutex of the resource and reads \<open>currentMaster\<close> without any, and \<open>GetServerCapacity\<close>
  reads the map of resources without any. Here every action has a beginning and an end, holds its
  mutexes in between, and two that overlap on the same memory, one of them writing, are a data
  race, which the model does not go on from (Go may end the process; \<open>Store_Race\<close> has what becomes of
  a store when it does not). So the runs that go on are those of \<open>Server_Overlap\<close>, in
  which the effect of an action is placed at its beginning. Memory is taken to be coherent between actions
  that do not overlap.
\<close>

section \<open>Mutexes and memory\<close>

datatype place = Master_Flag | Current_Master | Configuration | Resource_Map | Settings nat | Store nat

datatype mutex = Server_Mutex | Resource_Mutex nat

text \<open>Where the code takes no mutex, or not the right one: at the release of a store, the reading of the map for
  a reply to a server, and the reading of the current master in \<open>ReleaseCapacity\<close>.\<close>

datatype site = Guarded | Store_Release | Map_Read | Master_Read

text \<open>An action in progress: the event, the mutexes it holds (exclusively or not) and what it uses (writing
  or not).\<close>

record action =
  ac_event :: world_event
  ac_site :: site
  ac_locks :: "(mutex \<times> bool) list"
  ac_uses :: "(place \<times> bool) list"

definition lookup_action :: "Server \<Rightarrow> string \<Rightarrow> world_event \<Rightarrow> action" where
  "lookup_action srv i e = \<lparr>ac_event = e, ac_site = Guarded, ac_locks = [(Server_Mutex, True)],
     ac_uses = [(Resource_Map, srv_lookup srv i = None), (Configuration, False), (Master_Flag, False)]\<rparr>"

definition idle_action :: "world_event \<Rightarrow> action" where
  "idle_action e = \<lparr>ac_event = e, ac_site = Guarded, ac_locks = [], ac_uses = []\<rparr>"

text \<open>The stores that a release uses: it writes where the client has a lease.\<close>

definition release_uses :: "Server \<Rightarrow> ReleaseCapacityRequest \<Rightarrow> (place \<times> bool) list" where
  "release_uses srv q = map (\<lambda>a. (Store a,
       map_of (ls_leases (res_store (srv_heap srv ! a))) (ReleaseCapacityRequest_GetClientId (Some q)) \<noteq> None))
     (List.map_filter (srv_lookup srv) (rcq_ResourceId q))"

definition handler_action :: "Server \<Rightarrow> handler \<Rightarrow> world_event \<Rightarrow> action" where
  "handler_action srv h e = (case hd_pc h of
       Entered \<Rightarrow> (idle_action e)\<lparr>ac_locks := [(Server_Mutex, False)], ac_uses := [(Master_Flag, False)]\<rparr>
     | Redirecting \<Rightarrow> (case hd_call h of
           OnRelease q \<Rightarrow> (idle_action e)\<lparr>ac_site := Master_Read, ac_uses := [(Current_Master, False)]\<rparr>
         | _ \<Rightarrow> (idle_action e)\<lparr>ac_locks := [(Server_Mutex, False)], ac_uses := [(Current_Master, False)]\<rparr>)
     | Looking (creq # creqs) \<Rightarrow> lookup_action srv (cr_resID creq) e
     | Collecting (Some (resp, a)) \<Rightarrow>
         (idle_action e)\<lparr>ac_locks := [(Resource_Mutex a, False)], ac_uses := [(Settings a, False), (Store a, False)]\<rparr>
     | Releasing \<Rightarrow> (case hd_call h of
           OnRelease q \<Rightarrow> (idle_action e)\<lparr>ac_site := Store_Release, ac_locks := [(Server_Mutex, False)],
             ac_uses := (Resource_Map, False) # release_uses srv q\<rparr>
         | _ \<Rightarrow> idle_action e)
     | _ \<Rightarrow> idle_action e)"

definition goroutine_action :: "nat \<Rightarrow> handler \<Rightarrow> world_event \<Rightarrow> action" where
  "goroutine_action j h e =
     (if j < length (hd_pool h)
      then let a = fst (hd_pool h ! j) in
        (idle_action e)\<lparr>ac_locks := [(Resource_Mutex a, True)], ac_uses := [(Settings a, False), (Store a, True)]\<rparr>
      else idle_action e)"

definition receive_action :: "nat \<Rightarrow> Server \<Rightarrow> handler \<Rightarrow> world_event \<Rightarrow> action" where
  "receive_action j srv h e =
     (if hd_pc h = Collecting None \<and> j < length (hd_items h)
      then let i = item_id (hd_items h ! j) in
        (case hd_call h of
           OnGetServerCapacity q \<Rightarrow> (idle_action e)\<lparr>ac_site := Map_Read,
             ac_uses := (Resource_Map, False) # (case srv_lookup srv i of None \<Rightarrow> [] | Some a \<Rightarrow> [(Settings a, False)])\<rparr>
         | _ \<Rightarrow> lookup_action srv i e)
      else idle_action e)"

text \<open>The goroutines of the server: a configuration that is accepted is loaded into all resources, an
  outcome of the election replaces the map, and a new master is noted.\<close>

definition background_action :: "(string \<Rightarrow> ResourceRepository option) \<Rightarrow> Server \<Rightarrow> server_event \<Rightarrow> world_event \<Rightarrow> action" where
  "background_action unmarshal srv b e =
     (let resources = (case srv_resources srv of None \<Rightarrow> [] | Some m \<Rightarrow> m);
          accepted = (\<lambda>u. case Option.bind u unmarshal of None \<Rightarrow> False | Some cfg \<Rightarrow> validateResourceRepository cfg = None)
      in case b of
        Update u \<Rightarrow>
          if accepted u then (idle_action e)\<lparr>ac_locks := (Server_Mutex, True) # map (\<lambda>(i, a). (Resource_Mutex a, True)) resources,
            ac_uses := (Configuration, True) # (Resource_Map, False) # map (\<lambda>(i, a). (Settings a, True)) resources\<rparr>
          else idle_action e
      | Outcome now isMaster \<Rightarrow>
          if 0 < srv_handlers srv then (idle_action e)\<lparr>ac_locks := [(Server_Mutex, True)],
            ac_uses := [(Master_Flag, True), (Resource_Map, True)]\<rparr>
          else idle_action e
      | MasterID i \<Rightarrow>
          if 0 < srv_handlers srv then (idle_action e)\<lparr>ac_locks := [(Server_Mutex, True)], ac_uses := [(Current_Master, True)]\<rparr>
          else idle_action e
      | _ \<Rightarrow> idle_action e)"

definition action_of :: "(string \<Rightarrow> ResourceRepository option) \<Rightarrow> world \<Rightarrow> world_event \<Rightarrow> action" where
  "action_of unmarshal w e =
     (let on_handler = (\<lambda>k f. if k < length (wd_calls w) then f (wd_calls w ! k) e else idle_action e)
      in case e of
        Arrive q \<Rightarrow> idle_action e
      | Proceed k \<Rightarrow> on_handler k (handler_action (wd_srv w))
      | Decides k j clk \<Rightarrow> on_handler k (goroutine_action j)
      | Receives k j \<Rightarrow> on_handler k (receive_action j (wd_srv w))
      | Background b \<Rightarrow> background_action unmarshal (wd_srv w) b e)"

section \<open>Runs\<close>

text \<open>A mutex keeps an action waiting; memory that both use, and one writes, is a race.\<close>

definition excludes :: "action \<Rightarrow> action \<Rightarrow> bool" where
  "excludes x y = list_ex (\<lambda>(m, ex). list_ex (\<lambda>(m', ex'). m = m' \<and> (ex \<or> ex')) (ac_locks y)) (ac_locks x)"

definition contended :: "place \<Rightarrow> action \<Rightarrow> action \<Rightarrow> bool" where
  "contended p x y = list_ex (\<lambda>(q, wr). q = p \<and> list_ex (\<lambda>(q', wr'). q' = p \<and> (wr \<or> wr')) (ac_uses y)) (ac_uses x)"

definition races :: "action \<Rightarrow> action \<Rightarrow> bool" where
  "races x y = list_ex (\<lambda>(p, wr). contended p x y) (ac_uses x)"

text \<open>A handler is one thread; its goroutines are others.\<close>

definition thread_of :: "world_event \<Rightarrow> nat option" where
  "thread_of e = (case e of Proceed k \<Rightarrow> Some k | Receives k j \<Rightarrow> Some k | _ \<Rightarrow> None)"

definition waits_for :: "action \<Rightarrow> action \<Rightarrow> bool" where
  "waits_for x y = (excludes x y \<or> thread_of (ac_event x) \<noteq> None \<and> thread_of (ac_event x) = thread_of (ac_event y))"

record lasting_world =
  tw_world :: world
  tw_open :: "action list"

datatype action_event = Begins world_event | Ends nat

datatype failure = Panics panic | DataRace action action

text \<open>An action that has to wait cannot begin (\<open>None\<close>).\<close>

definition lasting_step :: "(string \<Rightarrow> ResourceRepository option) \<Rightarrow> string option \<Rightarrow> action_event \<Rightarrow> lasting_world
    \<Rightarrow> failure + lasting_world option" where
  "lasting_step unmarshal run_err t tw = (case t of
       Ends j \<Rightarrow> Inr (if j < length (tw_open tw) then Some (tw\<lparr>tw_open := drop_nth j (tw_open tw)\<rparr>) else None)
     | Begins e \<Rightarrow>
         (let x = action_of unmarshal (tw_world tw) e in
          if list_ex (waits_for x) (tw_open tw) then Inr None
          else case find (races x) (tw_open tw) of
            Some y \<Rightarrow> Inl (DataRace y x)
          | None \<Rightarrow> (case world_step unmarshal run_err e (tw_world tw) of
              Inl p \<Rightarrow> Inl (Panics p)
            | Inr w \<Rightarrow> Inr (Some \<lparr>tw_world = w, tw_open = tw_open tw @ [x]\<rparr>))))"

fun lasting_run :: "(string \<Rightarrow> ResourceRepository option) \<Rightarrow> string option \<Rightarrow> action_event list \<Rightarrow> lasting_world
    \<Rightarrow> failure + lasting_world option" where
  "lasting_run unmarshal run_err [] tw = Inr (Some tw)"
| "lasting_run unmarshal run_err (t # ts) tw = (case lasting_step unmarshal run_err t tw of
       Inl f \<Rightarrow> Inl f
     | Inr None \<Rightarrow> Inr None
     | Inr (Some tw') \<Rightarrow> lasting_run unmarshal run_err ts tw')"

definition lasting_start :: "Server \<Rightarrow> lasting_world" where
  "lasting_start srv = \<lparr>tw_world = new_world srv, tw_open = []\<rparr>"

fun begun :: "action_event list \<Rightarrow> world_event list" where
  "begun [] = []"
| "begun (Begins e # ts) = e # begun ts"
| "begun (Ends j # ts) = begun ts"

section \<open>The runs that go on\<close>

lemma lasting_run_world:
  "lasting_run unmarshal run_err ts tw = Inr (Some tw') \<Longrightarrow>
     world_run unmarshal run_err (begun ts) (tw_world tw) = Inr (tw_world tw')"
proof (induction ts arbitrary: tw)
  case (Cons t ts)
  then obtain tw1 where 1: "lasting_step unmarshal run_err t tw = Inr (Some tw1)" "lasting_run unmarshal run_err ts tw1 = Inr (Some tw')"
    by (auto split: sum.splits option.splits)
  from Cons.IH [OF 1(2)] 1(1) show ?case
    by (cases t) (auto simp: lasting_step_def Let_def split: if_splits option.splits sum.splits)
qed simp


text \<open>Actions one after the other.\<close>

fun one_by_one :: "world_event list \<Rightarrow> action_event list" where
  "one_by_one [] = []"
| "one_by_one (e # es) = Begins e # Ends 0 # one_by_one es"

lemma begun_simps [simp]: "begun (one_by_one es) = es" "begun (ts @ ts') = begun ts @ begun ts'"
proof -
  show "begun (one_by_one es) = es" by (induction es) simp_all
  show "begun (ts @ ts') = begun ts @ begun ts'" by (induction ts rule: begun.induct) simp_all
qed

lemma one_by_one_run:
  "lasting_run unmarshal run_err (one_by_one es) \<lparr>tw_world = w, tw_open = []\<rparr> =
     (case world_run unmarshal run_err es w of Inl p \<Rightarrow> Inl (Panics p) | Inr w' \<Rightarrow> Inr (Some \<lparr>tw_world = w', tw_open = []\<rparr>))"
proof (induction es arbitrary: w)
  case (Cons e es)
  then show ?case by (cases "world_run unmarshal run_err [e] w") (simp_all add: lasting_step_def Let_def drop_nth_def split: sum.splits)
qed simp

lemma lasting_run_append:
  "lasting_run unmarshal run_err (ts @ ts') tw = (case lasting_run unmarshal run_err ts tw of
       Inl f \<Rightarrow> Inl f | Inr None \<Rightarrow> Inr None | Inr (Some tw') \<Rightarrow> lasting_run unmarshal run_err ts' tw')"
  by (induction ts arbitrary: tw) (auto split: sum.split option.split)

section \<open>Which mutex guards what\<close>

definition guard_of :: "place \<Rightarrow> mutex" where
  "guard_of p = (case p of Settings a \<Rightarrow> Resource_Mutex a | Store a \<Rightarrow> Resource_Mutex a | _ \<Rightarrow> Server_Mutex)"

definition unguarded_at :: "place \<Rightarrow> site" where
  "unguarded_at p = (case p of Store a \<Rightarrow> Store_Release | Resource_Map \<Rightarrow> Map_Read | Settings a \<Rightarrow> Map_Read
     | Current_Master \<Rightarrow> Master_Read | _ \<Rightarrow> Guarded)"

definition use_ok :: "action \<Rightarrow> place \<times> bool \<Rightarrow> bool" where
  "use_ok x = (\<lambda>(p, wr). list_ex (\<lambda>(m, ex). m = guard_of p \<and> (wr \<longrightarrow> ex)) (ac_locks x) \<or>
     ac_site x \<noteq> Guarded \<and> ac_site x = unguarded_at p)"

definition disciplined :: "action \<Rightarrow> bool" where
  "disciplined x = list_all (use_ok x) (ac_uses x)"

lemmas action_simps = disciplined_def use_ok_def guard_of_def unguarded_at_def idle_action_def

lemma disciplined_idle [simp]: "disciplined (idle_action e)"
  by (simp add: action_simps)

lemma disciplined_lookup [simp]: "disciplined (lookup_action srv i e)"
  by (simp add: action_simps lookup_action_def)

lemma disciplined_handler [simp]: "disciplined (handler_action srv h e)"
  by (auto simp: handler_action_def split: handler_pc.split list.split option.split remote_call.split)
    (auto simp: action_simps release_uses_def list_all_iff)

lemma disciplined_goroutine [simp]: "disciplined (goroutine_action j h e)"
  by (simp add: goroutine_action_def action_simps Let_def)

lemma disciplined_receive [simp]: "disciplined (receive_action j srv h e)"
  by (auto simp: receive_action_def Let_def split: remote_call.split) (simp_all add: action_simps split: option.split)

lemma disciplined_background [simp]: "disciplined (background_action unmarshal srv b e)"
  by (auto simp: background_action_def Let_def split: server_event.split)
    (fastforce simp: action_simps list_all_iff list_ex_iff)+




section \<open>Properties\<close>

text \<open>C2. The capacity bound when calls overlap: a root server loads a configuration, and then calls,
  releases and elections overlap in whatever way (no further configuration is loaded). As long as
  no two actions race for the same memory, the ids of resources have no slash, the calls come from a
  population whose subclients cannot overflow the counters and ask for amounts that are not negative,
  and no decision is taken in learning mode, every resource with a sharing algorithm
  has at every moment handed out no more than its capacity, and no lease is negative.\<close>

theorem overlap_within_capacity:
  assumes "NewIntermediate i '''' dial run_err = Inr (Inr dm)" and "event_ok unmarshal (Update up)"
    and "life_step unmarshal run_err (Update up) dm = Inr srv" and "population_ok u"
    and "list_all (event_fine unmarshal) (begun ts)" and "list_all (event_fair u) (begun ts)"
    and "ripe_run unmarshal run_err (begun ts) (new_world srv)"
    and "lasting_run unmarshal run_err ts (lasting_start srv) = Inr (Some tw)"
    and "res \<in> set (srv_heap (wd_srv (tw_world tw)))" and "sharing_resource res"
  shows "Fin (total_has (ls_leases (res_store res))) \<le> ResourceTemplate_GetCapacity (res_config res) \<and>
    within_capacity res \<and> list_all (\<lambda>(c, l). Fin 0 \<le> lease_Has l) (ls_leases (res_store res))"
  using world_within_capacity [OF assms(1-7) _ assms(9,10)] lasting_run_world [OF assms(8)]
  by (simp add: lasting_start_def)

text \<open>A call is decided at the very end of the learning mode of the resource that it has created.\<close>

theorem overlap_within_capacity_witness:
  "\<exists>dm srv t tw res. NewIntermediate ''s'' '''' (Inl '''') None = Inr (Inr dm) \<and>
     life_step example_unmarshal None (Update (Some ''good'')) dm = Inr srv \<and>
     lasting_run example_unmarshal None (one_by_one (one_call t)) (lasting_start srv) = Inr (Some tw) \<and>
     srv_heap (wd_srv (tw_world tw)) = [res] \<and> Fin (total_has (ls_leases (res_store res))) \<le> Fin 100"
proof -
  obtain dm srv t w res where dm: "NewIntermediate ''s'' '''' (Inl '''') None = Inr (Inr dm)"
    and up: "life_step example_unmarshal None (Update (Some ''good'')) dm = Inr srv"
    and run: "world_run example_unmarshal None (one_call t) (new_world srv) = Inr w"
    and ok: "list_all (event_fine example_unmarshal) (one_call t)" "list_all (event_fair [(''b'', 1)]) (one_call t)"
      "ripe_run example_unmarshal None (one_call t) (new_world srv)" "population_ok [(''b'', 1)]"
    and res: "srv_heap (wd_srv w) = [res]" "sharing_resource res" "ResourceTemplate_GetCapacity (res_config res) = Fin 100"
    by (rule one_call_run)
  have lasting: "lasting_run example_unmarshal None (one_by_one (one_call t)) (lasting_start srv) =
      Inr (Some \<lparr>tw_world = w, tw_open = []\<rparr>)"
    unfolding lasting_start_def one_by_one_run run by simp
  have "Fin (total_has (ls_leases (res_store res))) \<le> Fin 100"
    using overlap_within_capacity [OF dm example_start_fine(3) up ok(4) _ _ _ lasting _ res(2)] ok(1-3) res(1,3) by simp
  with dm up lasting res(1) show ?thesis by fastforce
qed



text \<open>A release that begins while a decision about the same resource is under way is such a race.\<close>

lemma release_races_decision:
  assumes "k < length (wd_calls w)" and "j < length (hd_pool (wd_calls w ! k))" and "fst (hd_pool (wd_calls w ! k) ! j) = a"
    and "k' < length (wd_calls w)" and "hd_pc (wd_calls w ! k') = Releasing" and "hd_call (wd_calls w ! k') = OnRelease q"
    and "k' \<noteq> k" and "i \<in> set (rcq_ResourceId q)" and "srv_lookup (wd_srv w) i = Some a"
    and "world_step unmarshal run_err (Decides k j clk) w = Inr w'"
    and "wd_calls w' ! k' = wd_calls w ! k'" and "length (wd_calls w') = length (wd_calls w)"
    and "srv_lookup (wd_srv w') = srv_lookup (wd_srv w)"
  shows "\<exists>y x. lasting_run unmarshal run_err [Begins (Decides k j clk), Begins (Proceed k')] \<lparr>tw_world = w, tw_open = []\<rparr> =
    Inl (DataRace y x) \<and> ac_site x = Store_Release"
proof -
  let ?y = "action_of unmarshal w (Decides k j clk)" and ?x = "action_of unmarshal w' (Proceed k')"
  have y: "?y = (idle_action (Decides k j clk))\<lparr>ac_locks := [(Resource_Mutex a, True)], ac_uses := [(Settings a, False), (Store a, True)]\<rparr>"
    using assms(1-3) by (simp add: action_of_def goroutine_action_def Let_def)
  have x: "?x = (idle_action (Proceed k'))\<lparr>ac_site := Store_Release, ac_locks := [(Server_Mutex, False)],
      ac_uses := (Resource_Map, False) # release_uses (wd_srv w') q\<rparr>"
    using assms(4-6,11,12) by (simp add: action_of_def handler_action_def)
  have "a \<in> set (List.map_filter (srv_lookup (wd_srv w')) (rcq_ResourceId q))"
    using assms(8,9,13) by (force simp: List.map_filter_def)
  then have "races ?x ?y" by (auto simp: races_def contended_def x y release_uses_def list_ex_iff)
  moreover have "\<not> waits_for ?x ?y" by (simp add: waits_for_def excludes_def thread_of_def x y idle_action_def)
  ultimately show ?thesis by (simp add: lasting_step_def Let_def assms(10)) (simp add: x)
qed

end
