(* ===== verification/Server_Family.thy ===== *)
theory Server_Family
  imports Server_File
begin

text \<open>
  The children of a server (\<open>go/server/doorman/server.go\<close>): one resource of the parent with a sharing
  algorithm, and any number of intermediate servers and other clients that ask for it. The parent
  decides at one time (\<open>Decide\<close>), and its reply, with responses for other resources around the grant,
  is loaded by the child at another (\<open>handle_reply\<close>), or is lost. An intermediate server never releases
  capacity, so its lease ends by expiring.
\<close>

section \<open>The family\<close>

text \<open>The response to a child about a resource, as \<open>GetServerCapacity\<close> makes it, and what a child may hand
  out of a resource.\<close>

definition grant_response :: "Resource \<Rightarrow> Lease \<Rightarrow> ServerCapacityResourceResponse" where
  "grant_response res l = \<lparr>scp_ResourceId = Some (res_ID res), scp_Gets = Some (lease_to_pb l),
     scp_Algorithm = ResourceTemplate_GetAlgorithm (res_config res),
     scp_SafeCapacity = Some (ResourceTemplate_GetSafeCapacity (res_config res))\<rparr>"

definition child_capacity :: "string \<Rightarrow> Server \<Rightarrow> time \<Rightarrow> f64" where
  "child_capacity i child now =
     (case srv_lookup child i of None \<Rightarrow> Fin 0 | Some a \<Rightarrow> resource_capacity (srv_heap child ! a) now)"

definition child_fit :: "Server \<Rightarrow> bool" where
  "child_fit child = (server_ok child \<and> srv_config child \<noteq> None \<and> srv_conn child \<noteq> None \<and>
     (\<forall>i a. srv_lookup child i = Some a \<longrightarrow> CHR ''/'' \<notin> set i \<and> i \<noteq> ''*''))"

definition reply_ids :: "GetServerCapacityResponse \<Rightarrow> string list" where
  "reply_ids out = map (\<lambda>pr. ServerCapacityResourceResponse_GetResourceId (Some pr)) (gsp_Response out)"

text \<open>
  The resource \<open>i\<close> of the parent, the children by their ids, and the replies that have not been loaded, the last
  one first. The events: the parent decides for a client or for a child, whose reply then has the
  grant; a child gets a reply without the resource, because it did not ask for it; a client releases;
  a reply is loaded, after which no reply to an earlier call of the same child is (a server has
  one call at a time); a child does other work, which leaves the configuration of the resource as it
  is. Decisions are not taken in learning mode, and not after time \<open>T\<close>.
\<close>

inductive family_reach :: "string option \<Rightarrow> population \<Rightarrow> string \<Rightarrow> time \<Rightarrow> Resource \<Rightarrow> (string \<times> Server) list
    \<Rightarrow> (string \<times> GetServerCapacityResponse) list \<Rightarrow> bool"
    for run_err u i T where
  family_starts: "sound u p \<Longrightarrow> sharing_resource p \<Longrightarrow> res_ID p = i \<Longrightarrow> distinct_keys cs \<Longrightarrow>
    list_all (\<lambda>(c, child). child_fit child \<and> (\<forall>now \<ge> T. child_capacity i child now = Fin 0)) cs \<Longrightarrow>
    family_reach run_err u i T p cs []"
| family_asks: "family_reach run_err u i T p cs rs \<Longrightarrow> fair_request u r \<Longrightarrow> \<not> in_learning_mode p (at_mode clk) \<Longrightarrow>
    at_clean clk \<le> T \<Longrightarrow> 0 \<le> at_assign clk \<Longrightarrow> at_assign clk < 2 ^ 63 \<Longrightarrow> resource_Decide p clk r = Inr (p', l) \<Longrightarrow>
    distinct (reply_ids out) \<Longrightarrow> grant_response p' l \<in> set (gsp_Response out) \<Longrightarrow>
    family_reach run_err u i T p' cs (if map_of cs (req_Client r) = None then rs else (req_Client r, out) # rs)"
| family_others: "family_reach run_err u i T p cs rs \<Longrightarrow> distinct (reply_ids out) \<Longrightarrow> i \<notin> set (reply_ids out) \<Longrightarrow>
    family_reach run_err u i T p cs ((c, out) # rs)"
| family_frees: "family_reach run_err u i T p cs rs \<Longrightarrow> map_of cs c = None \<Longrightarrow>
    family_reach run_err u i T (resource_Release p c) cs rs"
| family_loads: "family_reach run_err u i T p cs (rs @ (c, out) # rs') \<Longrightarrow> map_of cs c = Some child \<Longrightarrow>
    list_all (usable child) (gsp_Response out) \<Longrightarrow> handle_reply run_err child n (Some out) = Inr (child', d, m) \<Longrightarrow>
    family_reach run_err u i T p (map_put cs c child') (rs @ filter (\<lambda>(d, out). d \<noteq> c) rs')"
| family_works: "family_reach run_err u i T p cs rs \<Longrightarrow> map_of cs c = Some child \<Longrightarrow> child_fit child' \<Longrightarrow>
    child_capacity i child' = child_capacity i child \<Longrightarrow> family_reach run_err u i T p (map_put cs c child') rs"

section \<open>The invariant\<close>

text \<open>What a child will have when the last reply for it is loaded; a capacity is backed if from
  time \<open>T\<close> on it is zero, or a lease on the parent's books that has not expired.\<close>

definition prospect :: "string \<Rightarrow> (string \<times> GetServerCapacityResponse) list \<Rightarrow> string \<Rightarrow> Server \<Rightarrow> time \<Rightarrow> f64" where
  "prospect i rs c child now = (case map_of rs c of
       None \<Rightarrow> child_capacity i child now | Some out \<Rightarrow> reply_capacity (gsp_Response out) i now)"

definition backed :: "time \<Rightarrow> (string \<times> Lease) list \<Rightarrow> string \<Rightarrow> (time \<Rightarrow> f64) \<Rightarrow> bool" where
  "backed T leases c f = (\<forall>now \<ge> T. f now = Fin 0 \<or>
     (\<exists>l. map_of leases c = Some l \<and> f now = lease_Has l \<and> now \<le> lease_Expiry l))"

definition family_ok :: "population \<Rightarrow> string \<Rightarrow> time \<Rightarrow> Resource \<Rightarrow> (string \<times> Server) list
    \<Rightarrow> (string \<times> GetServerCapacityResponse) list \<Rightarrow> bool" where
  "family_ok u i T p cs rs = (sound u p \<and> sharing_resource p \<and> res_ID p = i \<and> distinct_keys cs \<and>
     list_all (\<lambda>(c, out). distinct (reply_ids out)) rs \<and>
     list_all (\<lambda>(c, child). child_fit child \<and> backed T (ls_leases (res_store p)) c (prospect i rs c child)) cs)"

lemma backed_live:
  assumes "backed T es c f" and "distinct_keys es" and "t \<le> T" and "c \<noteq> d"
  shows "backed T (map_put (live t es) d l) c f"
proof -
  have "map_of (map_put (live t es) d l) c = Some m"
    if "map_of es c = Some m" "T \<le> now" "now \<le> lease_Expiry m" for m now
    using that assms(2-4) by (simp add: map_of_put map_of_live After_def)
  then show ?thesis using assms(1) by (fastforce simp: backed_def)
qed

text \<open>The grant in a reply.\<close>

lemma reply_capacity_grant:
  assumes "distinct (reply_ids out)" and "grant_response p l \<in> set (gsp_Response out)"
  shows "reply_capacity (gsp_Response out) (res_ID p) now = (if now \<le> Unix (to_unix (lease_Expiry l)) then lease_Has l else Fin 0)"
proof -
  let ?id = "\<lambda>pr. ServerCapacityResourceResponse_GetResourceId (Some pr)"
  have id: "?id (grant_response p l) = res_ID p"
    by (simp add: grant_response_def ServerCapacityResourceResponse_GetResourceId_def)
  have "find (\<lambda>pr. ?id pr = ?id x) prs = Some x" if "distinct (map ?id prs)" "x \<in> set prs" for x prs
    using that by (induction prs) (auto simp: image_iff)
  from this [OF assms [unfolded reply_ids_def]] show ?thesis
    unfolding id
    by (auto simp: reply_capacity_def grant_response_def lease_to_pb_def Lease_GetExpiryTime_def Lease_GetCapacity_def Before_def)
qed

lemma reply_capacity_other: "i \<notin> set (reply_ids out) \<Longrightarrow> reply_capacity (gsp_Response out) i now = Fin 0"
proof -
  assume "i \<notin> set (reply_ids out)"
  then have "find (\<lambda>pr. ServerCapacityResourceResponse_GetResourceId (Some pr) = i) (gsp_Response out) = None"
    by (auto simp: find_None_iff reply_ids_def)
  then show ?thesis by (simp add: reply_capacity_def)
qed

lemma backed_zero: "(\<And>now. T \<le> now \<Longrightarrow> f now = Fin 0) \<Longrightarrow> backed T es c f"
  by (simp add: backed_def)

lemma family_asks_ok:
  assumes "population_ok u" and "family_ok u i T p cs rs" and "fair_request u r" and "\<not> in_learning_mode p (at_mode clk)"
    and "at_clean clk \<le> T" and "0 \<le> at_assign clk" and "at_assign clk < 2 ^ 63" and dec: "resource_Decide p clk r = Inr (p', l)"
    and "distinct (reply_ids out)" and "grant_response p' l \<in> set (gsp_Response out)"
  shows "family_ok u i T p' cs (if map_of cs (req_Client r) = None then rs else (req_Client r, out) # rs)" (is "family_ok u i T p' cs ?rs")
proof -
  have p: "sound u p" "sharing_resource p" "res_ID p = i"
    and cs: "list_all (\<lambda>(c, child). child_fit child \<and> backed T (ls_leases (res_store p)) c (prospect i rs c child)) cs"
    using assms(2) by (simp_all add: family_ok_def)
  have d: "distinct_keys (ls_leases (res_store p))" using p(1) by (auto simp: sound_def resource_ok_def intro: impl.ok_distinct)
  have wf: "resource_wf p" using p(1) by (auto simp: sound_def intro: resource_ok_wf)
  obtain tpl where "res_config p = Some tpl" using wf by (auto simp: resource_wf_def elim: configuredE)
  from Decide_effect [OF wf this, of clk r] dec obtain s where s: "p' = p\<lparr>res_store := s\<rparr>"
    "ls_leases s = map_put (live (at_clean clk) (ls_leases (res_store p))) (req_Client r) l" by auto
  have exp: "Unix (to_unix (lease_Expiry l)) \<le> lease_Expiry l" by (rule Decide_expiry [OF wf dec assms(6,7)])
  have "backed T (ls_leases s) c (prospect i ?rs c child)" if e: "(c, child) \<in> set cs" for c child
  proof (cases "c = req_Client r")
    case True
    then obtain x where "map_of cs (req_Client r) = Some x" using weak_map_of_SomeI [OF e] by auto
    then have "prospect i ?rs c child = (\<lambda>now. if now \<le> Unix (to_unix (lease_Expiry l)) then lease_Has l else Fin 0)"
      using reply_capacity_grant [OF assms(9,10)] p(3) True by (intro ext) (simp add: prospect_def s(1))
    then show ?thesis using exp True by (auto simp: backed_def s(2) map_of_put)
  next
    case False
    then have "prospect i ?rs c child = prospect i rs c child" by (intro ext) (simp add: prospect_def)
    moreover have "backed T (ls_leases (res_store p)) c (prospect i rs c child)" using cs e by (auto simp: list_all_iff)
    ultimately show ?thesis using backed_live [OF _ d assms(5) False] s(2) by simp
  qed
  moreover have "sound u p'" by (rule sound_Decide [OF assms(1) p(1,2) assms(3,4) dec])
  ultimately show ?thesis
    using assms(2,9) p by (auto simp: s(1) family_ok_def list_all_iff)
qed

lemma family_frees_ok:
  assumes "family_ok u i T p cs rs" and "map_of cs c = None"
  shows "family_ok u i T (resource_Release p c) cs rs"
proof -
  have p: "sound u p" "sharing_resource p"
    and cs: "list_all (\<lambda>(c, child). child_fit child \<and> backed T (ls_leases (res_store p)) c (prospect i rs c child)) cs"
    using assms(1) by (simp_all add: family_ok_def)
  have "backed T (map_del (ls_leases (res_store p)) c) d (prospect i rs d child)" if e: "(d, child) \<in> set cs" for d child
  proof -
    have "d \<noteq> c" using assms(2) weak_map_of_SomeI [OF e] by auto
    moreover have "backed T (ls_leases (res_store p)) d (prospect i rs d child)" using cs e by (auto simp: list_all_iff)
    ultimately show ?thesis by (simp add: backed_def map_of_del)
  qed
  then show ?thesis
    using assms(1) sound_Release [OF p]
    by (auto simp: family_ok_def resource_Release_def store_Release_leases list_all_iff)
qed

text \<open>A child after a reply: it has what the reply says, or nothing.\<close>

lemma child_loads:
  assumes "child_fit child" and "list_all (usable child) (gsp_Response out)" and "distinct (reply_ids out)"
    and "handle_reply run_err child n (Some out) = Inr (child', d, m)"
  shows "child_fit child'" and "child_capacity i child' = (if srv_lookup child i = None then (\<lambda>now. Fin 0)
    else reply_capacity (gsp_Response out) i)"
proof -
  obtain minimum where conn: "srv_conn child = Some minimum" using assms(1) by (auto simp: child_fit_def)
  have "server_ok child" "srv_config child \<noteq> None" "\<forall>i a. srv_lookup child i = Some a \<longrightarrow> CHR ''/'' \<notin> set i \<and> i \<noteq> ''*''"
    using assms(1) by (simp_all add: child_fit_def)
  from handle_reply_capacity [where run_err = run_err and retryNumber = n,
      OF this(1,2) conn assms(2) assms(3) [unfolded reply_ids_def] this(3)] assms(4)
  have c: "server_ok child'" "srv_config child' \<noteq> None" "srv_conn child' = srv_conn child" "srv_resources child' = srv_resources child"
    "\<forall>i a now. srv_lookup child i = Some a \<longrightarrow> resource_capacity (srv_heap child' ! a) now = reply_capacity (gsp_Response out) i now"
    by auto
  have lk: "srv_lookup child' = srv_lookup child" by (rule ext) (simp add: srv_lookup_def c(4))
  show "child_fit child'" using assms(1) c lk by (simp add: child_fit_def)
  show "child_capacity i child' = (if srv_lookup child i = None then (\<lambda>now. Fin 0) else reply_capacity (gsp_Response out) i)"
    using c(5) by (intro ext) (auto simp: child_capacity_def lk)
qed

lemma family_loads_ok:
  assumes ok: "family_ok u i T p cs (rs @ (c, out) # rs')" and "map_of cs c = Some child"
    and "list_all (usable child) (gsp_Response out)" and "handle_reply run_err child n (Some out) = Inr (child', d, m)"
  shows "family_ok u i T p (map_put cs c child') (rs @ filter (\<lambda>(d, out). d \<noteq> c) rs')" (is "family_ok u i T p ?cs ?rs")
proof -
  let ?es = "ls_leases (res_store p)"
  have keys: "distinct_keys cs" and fit: "child_fit child" "distinct (reply_ids out)"
    and cs: "\<And>d x. (d, x) \<in> set cs \<Longrightarrow> child_fit x \<and> backed T ?es d (prospect i (rs @ (c, out) # rs') d x)"
    using ok map_of_SomeD [OF assms(2)] by (auto simp: family_ok_def list_all_iff)
  note child' = child_loads(1) [OF fit(1) assms(3) fit(2) assms(4)] child_loads(2) [OF fit(1) assms(3) fit(2) assms(4), of i]
  have filt: "map_of (filter (\<lambda>(d, out). d \<noteq> c) rs') d = (if d = c then None else map_of rs' d)" for d
    by (induction rs') auto
  have "child_fit x \<and> backed T ?es e (prospect i ?rs e x)" if "(e, x) \<in> set ?cs" for e x
  proof (cases "e = c")
    case True
    then have x: "x = child'" using that by (simp add: in_map_put_iff [OF keys])
    have "backed T ?es c (prospect i ?rs c child')"
    proof (cases "map_of rs c")
      case None
      then have "prospect i (rs @ (c, out) # rs') c child = reply_capacity (gsp_Response out) i"
        by (intro ext) (simp add: prospect_def map_add_def)
      moreover have "prospect i ?rs c child' = child_capacity i child'"
        using None by (intro ext) (simp add: prospect_def map_add_def filt)
      ultimately show ?thesis using cs [OF map_of_SomeD [OF assms(2)]] backed_zero [of T "\<lambda>now. Fin 0"] by (simp add: child'(2))
    next
      case (Some out')
      then have "prospect i ?rs c child' = prospect i (rs @ (c, out) # rs') c child"
        by (intro ext) (simp add: prospect_def map_add_def filt)
      then show ?thesis using cs [OF map_of_SomeD [OF assms(2)]] by simp
    qed
    with True x child'(1) show ?thesis by simp
  next
    case False
    then have "(e, x) \<in> set cs" using that by (simp add: in_map_put_iff [OF keys])
    moreover have "prospect i ?rs e x = prospect i (rs @ (c, out) # rs') e x"
      using False by (intro ext) (simp add: prospect_def map_add_def filt split: option.split)
    ultimately show ?thesis using cs by simp
  qed
  moreover have "list_all (\<lambda>(c, out). distinct (reply_ids out)) ?rs"
    using ok unfolding family_ok_def list_all_iff by simp blast
  ultimately show ?thesis
    using ok distinct_keys_put [OF keys] by (auto simp: family_ok_def list_all_iff)
qed

lemma family_reach_ok:
  assumes "population_ok u" and "family_reach run_err u i T p cs rs"
  shows "family_ok u i T p cs rs"
  using assms(2)
proof (induction rule: family_reach.induct)
  case (family_starts p cs)
  have "prospect i [] c child = child_capacity i child" for c child by (intro ext) (simp add: prospect_def)
  with family_starts show ?case by (auto simp: family_ok_def list_all_iff intro!: backed_zero)
next
  case (family_asks p cs rs r clk p' l out)
  show ?case by (rule family_asks_ok [OF assms(1) family_asks.IH family_asks.hyps(2-9)])
next
  case (family_others p cs rs out c)
  have "backed T es d (prospect i ((c, out) # rs) d child)" if "backed T es d (prospect i rs d child)" for es d child
    using that reply_capacity_other [OF family_others.hyps(3)] by (cases "d = c") (auto simp: backed_def prospect_def)
  then show ?case using family_others by (auto simp: family_ok_def list_all_iff)
next
  case (family_frees p cs rs c)
  then show ?case by (intro family_frees_ok)
next
  case (family_loads p cs rs c out rs' child n child' d m)
  show ?case by (rule family_loads_ok [OF family_loads.IH family_loads.hyps(2-4)])
next
  case (family_works p cs rs c child child')
  have keys: "distinct_keys cs" using family_works.IH by (simp add: family_ok_def)
  have "prospect i rs c child' = prospect i rs c child"
    using family_works.hyps(4) by (intro ext) (simp add: prospect_def split: option.split)
  moreover have "backed T (ls_leases (res_store p)) c (prospect i rs c child)"
    using family_works.IH map_of_SomeD [OF family_works.hyps(2)] by (auto simp: family_ok_def list_all_iff)
  ultimately have "child_fit x \<and> backed T (ls_leases (res_store p)) d (prospect i rs d x)"
    if "(d, x) \<in> set (map_put cs c child')" for d x
    using that family_works.IH family_works.hyps(3)
    by (cases "d = c") (auto simp: in_map_put_iff [OF keys] family_ok_def list_all_iff)
  then show ?case
    using family_works.IH distinct_keys_put [OF keys] by (auto simp: family_ok_def list_all_iff)
qed

text \<open>What the children have is part of what the parent has given away.\<close>

lemma children_total:
  "distinct_keys cs \<Longrightarrow> distinct_keys es \<Longrightarrow> list_all (sound_entry u) es \<Longrightarrow>
     list_all (\<lambda>(c, x). x = Fin 0 \<or> (\<exists>l. map_of es c = Some l \<and> x = lease_Has l)) cs \<Longrightarrow>
     sum_list (map (\<lambda>(c, x). fval x) cs) \<le> total_has es"
proof (induction cs arbitrary: es)
  case Nil
  then have "0 \<le> total_has es" by (induction es) (auto simp: total_has_def sound_entry_def)
  then show ?case by simp
next
  case (Cons e cs)
  obtain c x where e: "e = (c, x)" by force
  have rest: "sum_list (map (\<lambda>(c, x). fval x) cs) \<le> total_has (map_del es c)"
  proof (rule Cons.IH)
    show "list_all (\<lambda>(d, x). x = Fin 0 \<or> (\<exists>l. map_of (map_del es c) d = Some l \<and> x = lease_Has l)) cs"
      unfolding list_all_iff
    proof
      fix y assume y: "y \<in> set cs"
      have "fst y \<noteq> c" using Cons.prems(1) imageI [OF y, of fst] by (auto simp: e)
      then show "case y of (d, x) \<Rightarrow> x = Fin 0 \<or> (\<exists>l. map_of (map_del es c) d = Some l \<and> x = lease_Has l)"
        using Cons.prems(4) y by (cases y) (simp add: list_all_iff map_of_del, blast)
    qed
    show "distinct_keys cs" using Cons.prems(1) by simp
  qed (use Cons.prems(2,3) in \<open>simp_all add: distinct_keys_del all_map_del\<close>)
  have "fval x \<le> fval (lease_Has (lease_of es c))"
  proof -
    have "0 \<le> fval (lease_Has (lease_of es c))"
      using Cons.prems(3) by (fastforce simp: lease_of_def list_all_iff sound_entry_def split: option.splits dest: map_of_SomeD)
    with Cons.prems(4) show ?thesis by (auto simp: e lease_of_def)
  qed
  with rest total_has_del [OF Cons.prems(2), of c] show ?case by (simp add: e)
qed

section \<open>Properties\<close>

text \<open>C5. The children of a server stay within its capacity: a resource of the parent with a sharing
  algorithm, past its learning mode and with a fixed configuration, serves child servers and other clients of a
  population whose subclients cannot overflow the counters, with requests that are not negative, in any order; a grant reaches the child later than it is
  decided, in a reply that the child can load, or never. The children start with nothing and hand out by nothing but their
  parent's replies: whatever else happens at a child leaves its capacity of this resource alone. Replies
  name a resource once, and children are not released. Then at every moment after the last decision the capacities of the resource at
  the children that are not behind a reply are together no more than the leases on the parent's
  books, and these are within the capacity of the parent.\<close>

theorem tree_within_capacity:
  assumes "population_ok u" and "family_reach run_err u i T p cs rs" and "T \<le> now"
  shows "Fin (sum_list (map (\<lambda>(c, child). fval (child_capacity i child now)) (filter (\<lambda>(c, child). c \<notin> fst ` set rs) cs)))
      \<le> store_SumHas (res_store p) \<and>
    store_SumHas (res_store p) \<le> ResourceTemplate_GetCapacity (res_config p)"
proof -
  note f = family_reach_ok [OF assms(1,2), unfolded family_ok_def]
  have ok: "store_ok (res_store p)" and entries: "list_all (sound_entry u) (ls_leases (res_store p))" and within: "within_capacity p"
    using f by (simp_all add: sound_def resource_ok_def)
  let ?cs = "filter (\<lambda>(c, child). c \<notin> fst ` set rs) cs"
  let ?xs = "map (\<lambda>(c, child). (c, child_capacity i child now)) ?cs"
  have "distinct_keys ?cs" using f distinct_map_filter by blast
  then have "distinct_keys ?xs" by (simp add: comp_def case_prod_unfold)
  moreover have "x = Fin 0 \<or> (\<exists>l. map_of (ls_leases (res_store p)) c = Some l \<and> x = lease_Has l)" if e: "(c, x) \<in> set ?xs" for c x
  proof -
    obtain child where child: "(c, child) \<in> set cs" "c \<notin> fst ` set rs" "x = child_capacity i child now" using e by auto
    then have "prospect i rs c child now = x" by (simp add: prospect_def map_of_eq_None_iff [THEN iffD2])
    moreover have "backed T (ls_leases (res_store p)) c (prospect i rs c child)" using f child(1) by (auto simp: list_all_iff)
    ultimately show ?thesis using assms(3) by (auto simp: backed_def)
  qed
  ultimately have "sum_list (map (\<lambda>(c, x). fval x) ?xs) \<le> total_has (ls_leases (res_store p))"
    using children_total [OF _ impl.ok_distinct [OF ok] entries, of ?xs] by (fastforce simp: list_all_iff)
  then show ?thesis
    using ok within by (simp add: comp_def case_prod_unfold within_capacity_def store_SumHas_def store_ok_def)
qed

text \<open>The child asks for the first time, and loads the reply.\<close>

theorem tree_within_capacity_witness:
  "\<exists>p child. family_reach None [(''s'', 5)] ''r'' 40 p [(''s'', child)] [] \<and>
     Fin (fval (child_capacity ''r'' child 50)) \<le> store_SumHas (res_store p) \<and> store_SumHas (res_store p) \<le> Fin 100"
proof -
  let ?p = "example_resource (NewLeaseStore ''r'') 0"
  let ?r = "\<lparr>req_Client = ''s'', req_Has = Fin 0, req_Wants = Fin 80, req_Subclients = 3\<rparr>"
  have ok: "resource_ok ?p" by (rule example_resource_ok) simp
  have cfg: "res_config ?p = Some (example_template Algorithm_FAIR_SHARE)" "res_store ?p = NewLeaseStore ''r''"
    "ResourceTemplate_GetCapacity (res_config ?p) = Fin 100" "\<not> in_learning_mode ?p (at_mode (example_clock 40))" "res_ID ?p = ''r''"
    by (simp_all add: example_resource_def example_template_def ResourceTemplate_GetCapacity_def in_learning_mode_def
        After_def example_clock_def)
  have pop: "population_ok [(''s'', 5)]" by (simp add: population_ok_def)
  have share: "sharing_resource ?p"
    by (simp add: sharing_resource_def example_resource_def example_template_def example_config_def Algorithm_GetKind_def
        ResourceTemplate_GetCapacity_def)
  have snd: "sound [(''s'', 5)] ?p"
    using fresh_sound [OF cfg(2) resource_ok_wf [OF ok]] share by (simp add: resource_sound_def)
  have names: "\<forall>i a. srv_lookup (example_child ''r'') i = Some a \<longrightarrow> CHR ''/'' \<notin> set i \<and> i \<noteq> ''*''"
    by (simp add: example_child_lookup)
  have conf: "srv_config (example_child ''r'') \<noteq> None" "srv_conn (example_child ''r'') = Some (seconds 5)"
    by (simp_all add: example_child_def example_server_def)
  from handle_reply_capacity [OF example_child_ok conf _ _ names, of "\<lparr>gsp_Response = [], gsp_Mastership = None\<rparr>" None 0]
  obtain child where child: "server_ok child" "srv_config child \<noteq> None" "srv_conn child \<noteq> None"
    "srv_resources child = srv_resources (example_child ''r'')" "\<And>now. resource_capacity (srv_heap child ! 0) now = Fin 0"
    by (auto simp: conf example_child_lookup reply_capacity_def)
  have lk: "srv_lookup child = srv_lookup (example_child ''r'')" by (rule ext) (simp add: srv_lookup_def child(4))
  have fit: "child_fit child" using child names by (simp add: child_fit_def lk)
  have none: "child_capacity ''r'' child now = Fin 0" for now by (simp add: child_capacity_def lk example_child_lookup child(5))
  have start: "family_reach None [(''s'', 5)] ''r'' 40 ?p [(''s'', child)] []"
    by (rule family_starts [OF snd share cfg(5)]) (simp_all add: fit none)
  obtain s l where d: "resource_Decide ?p (example_clock 40) ?r = Inr (?p\<lparr>res_store := s\<rparr>, l)"
    using Decide_effect [OF resource_ok_wf [OF ok] cfg(1)] by blast
  let ?g = "grant_response (?p\<lparr>res_store := s\<rparr>) l"
  let ?out = "\<lparr>gsp_Response = [?g], gsp_Mastership = None\<rparr>"
  have clk: "at_clean (example_clock 40) \<le> 40" "0 \<le> at_assign (example_clock 40)" "at_assign (example_clock 40) < 2 ^ 63"
    by (simp_all add: example_clock_def)
  have fair: "fair_request [(''s'', 5)] ?r" by (simp add: fair_request_def belongs_def)
  have ids: "distinct (reply_ids ?out)" "?g \<in> set (gsp_Response ?out)" by (simp_all add: reply_ids_def)
  from family_asks [OF start fair cfg(4) clk d ids]
  have asked: "family_reach None [(''s'', 5)] ''r'' 40 (?p\<lparr>res_store := s\<rparr>) [(''s'', child)] ([] @ (''s'', ?out) # [])" by simp
  have "usable child ?g"
    using cfg(1,5) plain_star [of "''r''"]
    by (simp add: usable_def Let_def grant_response_def lk example_child_lookup ServerCapacityResourceResponse_GetResourceId_def
        ResourceTemplate_GetAlgorithm_def example_template_def example_config_def algorithm_valid_def known_kind_def
        Algorithm_GetKind_def plain_def)
  then have use: "list_all (usable child) (gsp_Response ?out)" by simp
  have "srv_conn child = Some (the (srv_conn child))" using child(3) by simp
  from handle_reply_capacity [where run_err = None and retryNumber = 0, OF child(1,2) this use _ names [folded lk]]
  obtain child' d where h: "handle_reply None child 0 (Some ?out) = Inr (child', Some d, 0)" by auto
  from family_loads [OF asked _ use h]
  have loaded: "family_reach None [(''s'', 5)] ''r'' 40 (?p\<lparr>res_store := s\<rparr>) [(''s'', child')] []" by simp
  have "(40 :: time) \<le> 50" by simp
  from tree_within_capacity [OF pop loaded this] loaded cfg(3) show ?thesis by (intro exI conjI) (assumption | simp)+
qed

end
